(* ===== verification/Graft_Prelude.thy ===== *)
theory Graft_Prelude
  imports Main "HOL-Library.Word" "HOL-Library.Sublist" "HOL-Library.Multiset"
begin

text \<open>
  The prelude of the development: names for the machine integers of the C++ code, the
  status codes every handler returns, the decimal printer behind \<^verbatim>\<open>std::to_string\<close>,
  and the generic facts on lists and words that the component theories share.
\<close>

section \<open>Names and collections\<close>

named_theorems graft_defs \<open>definitions a component proof unfolds\<close>
named_theorems graft_inv \<open>invariant preservation, one rule per operation\<close>

type_synonym u8 = "8 word"
type_synonym u32 = "32 word"
type_synonym u64 = "64 word"

section \<open>Status codes (graft\_constants.h)\<close>

text \<open>The enumeration \<^verbatim>\<open>Status\<close>; its order is the order of \<^verbatim>\<open>GRAFT_STATUS_LIST\<close>.\<close>

datatype Status =
    StNone | StOk | StForward | StAgain | StError | StDrop | StBusy
  | StInternalError | StPostpone | StStop

section \<open>Decimal printing (\<^verbatim>\<open>std::to_string\<close>)\<close>

definition digit_char :: "nat \<Rightarrow> char" where
  "digit_char d = char_of (48 + d)"

fun nat_to_string :: "nat \<Rightarrow> string" where
  "nat_to_string n =
     (if n < 10 then [digit_char n] else nat_to_string (n div 10) @ [digit_char (n mod 10)])"

declare nat_to_string.simps [simp del]

definition int_to_string :: "int \<Rightarrow> string" where
  "int_to_string i =
     (if i < 0 then CHR ''-'' # nat_to_string (nat (- i)) else nat_to_string (nat i))"

definition u64_to_string :: "u64 \<Rightarrow> string" where
  "u64_to_string w = nat_to_string (unat w)"

lemma digit_char_inj: "a < 10 \<Longrightarrow> b < 10 \<Longrightarrow> digit_char a = digit_char b \<Longrightarrow> a = b"
  by (simp add: digit_char_def)

lemma nat_to_string_nonempty [simp]: "nat_to_string n \<noteq> []" "[] \<noteq> nat_to_string n"
  by (subst nat_to_string.simps, simp)+

lemma nat_to_string_inj: "nat_to_string m = nat_to_string n \<Longrightarrow> m = n"
proof (induction m arbitrary: n rule: nat_to_string.induct)
  case (1 m)
  show ?case
  proof (cases "m < 10")
    case True
    with 1(2) have "n < 10 \<and> digit_char m = digit_char n"
      by (subst (asm) (1 2) nat_to_string.simps) (auto split: if_splits)
    with True show ?thesis using digit_char_inj by blast
  next
    case False
    with 1(2) have n: "\<not> n < 10" and d: "digit_char (m mod 10) = digit_char (n mod 10)"
      and eq: "nat_to_string (m div 10) = nat_to_string (n div 10)"
      by (subst (asm) (1 2) nat_to_string.simps; auto split: if_splits)+
    from 1(1)[OF False eq] have "m div 10 = n div 10" .
    moreover from d have "m mod 10 = n mod 10"
      by (rule digit_char_inj [rotated 2]) simp_all
    ultimately show ?thesis by (metis div_mult_mod_eq)
  qed
qed

lemma u64_to_string_inj: "u64_to_string a = u64_to_string b \<longleftrightarrow> a = b"
  by (auto simp: u64_to_string_def word_unat_eq_iff dest: nat_to_string_inj)

section \<open>Lists\<close>

lemma sum_list_update_int:
  fixes xs :: "int list"
  shows "k < length xs \<Longrightarrow> sum_list (xs[k := x]) = sum_list xs + x - xs ! k"
  by (induction xs arbitrary: k) (auto split: nat.splits)

lemma sum_list_pointwise_le:
  fixes xs ys :: "int list"
  assumes "length xs = length ys" "\<And>k. k < length xs \<Longrightarrow> xs ! k \<le> ys ! k"
  shows "sum_list xs \<le> sum_list ys"
  using assms
proof (induction xs ys rule: list_induct2)
  case (Cons x xs y ys)
  have "x \<le> y" using Cons.prems[of 0] by simp
  moreover have "sum_list xs \<le> sum_list ys"
    using Cons.IH Cons.prems[of "Suc k" for k] by force
  ultimately show ?case by simp
qed simp

lemma subseq_imp_set_subset: "subseq xs ys \<Longrightarrow> set xs \<subseteq> set ys"
  by (auto dest: list_emb_set)

lemma subseq_distinct: "subseq xs ys \<Longrightarrow> distinct ys \<Longrightarrow> distinct xs"
  by (induction rule: list_emb.induct) (auto dest: list_emb_set)

lemma subseq_sorted: "subseq xs ys \<Longrightarrow> sorted ys \<Longrightarrow> sorted xs"
  by (induction rule: list_emb.induct) (auto dest: list_emb_set)

section \<open>Machine integers\<close>

lemma unat_inc: "n \<noteq> - 1 \<Longrightarrow> unat (n + 1) = Suc (unat n)" for n :: u64
proof -
  assume a: "n \<noteq> - 1"
  have "unat n \<noteq> 2 ^ 64 - 1"
  proof
    assume "unat n = 2 ^ 64 - 1"
    then have "n = word_of_nat (2 ^ 64 - 1)" by (metis of_nat_unat ucast_id)
    then show False using a by simp
  qed
  moreover have "unat n < 2 ^ 64" using unsigned_less [of n, where 'a = nat] by simp
  ultimately show ?thesis by (simp add: unat_plus_if')
qed

lemma word_le_imp_less_inc: "n \<noteq> - 1 \<Longrightarrow> i \<le> n \<Longrightarrow> i < n + 1" for n i :: u64
  by (simp add: word_less_nat_alt word_le_nat_alt unat_inc)

end
