(* ===== verification/State_Machine.thy ===== *)
theory State_Machine
  imports Graft_Prelude
begin

text \<open>
  The state machine that drives a request (include/lib/graft/state\_machine.h and the first part
  of src/lib/graft/task.cpp): its transition table as data, the lookup that
  \<^verbatim>\<open>StateMachine::process\<close> does, and the control flow of a request as a step relation in
  which the results of the handlers are left open. The actions themselves are operations of
  the task manager and are modelled in the theory \<open>Task_Manager\<close>, which uses the lookup of
  this theory.
\<close>

section \<open>States, guards, actions, rows\<close>

datatype SmState =
    EXECUTE | PRE_ACTION | CHK_PRE_ACTION | WORKER_ACTION | CHK_WORKER_ACTION
  | WORKER_ACTION_DONE | POST_ACTION | CHK_POST_ACTION | AGAIN | EXIT

text \<open>Which of the three handlers of a route are set (\<^verbatim>\<open>Router::Handler3\<close>).\<close>

record h3_flags =
  has_pre :: bool
  has_worker :: bool
  has_post :: bool

datatype SmHandler = PreAction | WorkerAction | PostAction

datatype SmGuard = NoGuard | Has SmHandler | Hasnt SmHandler

datatype SmAction =
    NoAction | RunForward | RunResponse | RunErrorResponse | RunDrop | RunOkResponse
  | RunPostpone | CheckOverflow | RunPreaction | RunWorkeraction | RunPostaction

record sm_row =
  smStateStart :: SmState
  smStatuses :: "Status list"
  smStateEnd :: SmState
  smGuard :: SmGuard
  smAction :: SmAction

abbreviation row :: "SmState \<Rightarrow> Status list \<Rightarrow> SmState \<Rightarrow> SmGuard \<Rightarrow> SmAction \<Rightarrow> sm_row" where
  "row s ss t g a \<equiv> \<lparr>smStateStart = s, smStatuses = ss, smStateEnd = t, smGuard = g, smAction = a\<rparr>"

abbreviation ANY :: "Status list" where "ANY \<equiv> []"

definition sm_table :: "sm_row list" where
  "sm_table =
    [row EXECUTE            ANY                PRE_ACTION        NoGuard            CheckOverflow,
     row PRE_ACTION         [StBusy]           EXIT              NoGuard            NoAction,
     row PRE_ACTION         [StNone, StOk, StForward, StPostpone]
                                               CHK_PRE_ACTION    NoGuard            RunPreaction,
     row CHK_PRE_ACTION     [StAgain]          PRE_ACTION        NoGuard            RunResponse,
     row CHK_PRE_ACTION     [StOk]             WORKER_ACTION     (Has PreAction)    NoAction,
     row CHK_PRE_ACTION     [StForward]        POST_ACTION       (Has PreAction)    NoAction,
     row CHK_PRE_ACTION     [StError, StInternalError, StStop]
                                               EXIT              (Has PreAction)    RunErrorResponse,
     row CHK_PRE_ACTION     [StDrop]           EXIT              (Has PreAction)    RunDrop,
     row CHK_PRE_ACTION     [StNone, StOk, StForward, StPostpone]
                                               WORKER_ACTION     NoGuard            NoAction,
     row WORKER_ACTION      ANY                CHK_WORKER_ACTION NoGuard            RunWorkeraction,
     row CHK_WORKER_ACTION  ANY                EXIT              (Has WorkerAction) NoAction,
     row CHK_WORKER_ACTION  ANY                POST_ACTION       NoGuard            NoAction,
     row WORKER_ACTION_DONE [StAgain]          WORKER_ACTION     NoGuard            RunResponse,
     row WORKER_ACTION_DONE ANY                POST_ACTION       NoGuard            NoAction,
     row POST_ACTION        ANY                CHK_POST_ACTION   NoGuard            RunPostaction,
     row CHK_POST_ACTION    [StAgain]          POST_ACTION       NoGuard            RunResponse,
     row CHK_POST_ACTION    [StForward]        EXIT              NoGuard            RunForward,
     row CHK_POST_ACTION    [StOk]             EXIT              NoGuard            RunOkResponse,
     row CHK_POST_ACTION    [StError, StInternalError, StStop]
                                               EXIT              NoGuard            RunErrorResponse,
     row CHK_POST_ACTION    [StDrop]           EXIT              NoGuard            RunDrop,
     row CHK_POST_ACTION    [StPostpone]       EXIT              NoGuard            RunPostpone]"

section \<open>The lookup of \<^verbatim>\<open>process\<close>\<close>

fun h3_has :: "SmHandler \<Rightarrow> h3_flags \<Rightarrow> bool" where
  "h3_has PreAction h = has_pre h"
| "h3_has WorkerAction h = has_worker h"
| "h3_has PostAction h = has_post h"

fun guard_holds :: "SmGuard \<Rightarrow> h3_flags \<Rightarrow> bool" where
  "guard_holds NoGuard h = True"
| "guard_holds (Has a) h = h3_has a h"
| "guard_holds (Hasnt a) h = (\<not> h3_has a h)"

definition row_matches :: "SmState \<Rightarrow> Status \<Rightarrow> h3_flags \<Rightarrow> sm_row \<Rightarrow> bool" where
  "row_matches st cur_stat h r \<longleftrightarrow>
     st = smStateStart r \<and>
     (smStatuses r = [] \<or> list_ex (\<lambda>s. s = cur_stat) (smStatuses r)) \<and>
     guard_holds (smGuard r) h"

text \<open>The first row that applies; \<open>None\<close> is the exception \<^verbatim>\<open>State machine table is not complete\<close>.\<close>

definition find_row :: "SmState \<Rightarrow> Status \<Rightarrow> h3_flags \<Rightarrow> sm_row option" where
  "find_row st cur_stat h = find (row_matches st cur_stat h) sm_table"

lemma find_row_table:
  "find_row EXECUTE s h = Some (row EXECUTE ANY PRE_ACTION NoGuard CheckOverflow)"
  "find_row WORKER_ACTION s h = Some (row WORKER_ACTION ANY CHK_WORKER_ACTION NoGuard RunWorkeraction)"
  "find_row CHK_WORKER_ACTION s h =
     (if has_worker h then Some (row CHK_WORKER_ACTION ANY EXIT (Has WorkerAction) NoAction)
      else Some (row CHK_WORKER_ACTION ANY POST_ACTION NoGuard NoAction))"
  "find_row WORKER_ACTION_DONE s h =
     (if s = StAgain then Some (row WORKER_ACTION_DONE [StAgain] WORKER_ACTION NoGuard RunResponse)
      else Some (row WORKER_ACTION_DONE ANY POST_ACTION NoGuard NoAction))"
  "find_row POST_ACTION s h = Some (row POST_ACTION ANY CHK_POST_ACTION NoGuard RunPostaction)"
  "find_row AGAIN s h = None"
  "find_row EXIT s h = None"
  by (simp_all add: find_row_def sm_table_def row_matches_def)

lemma find_row_PRE:
  "find_row PRE_ACTION s h =
     (if s = StBusy then Some (row PRE_ACTION [StBusy] EXIT NoGuard NoAction)
      else if s \<in> {StNone, StOk, StForward, StPostpone}
      then Some (row PRE_ACTION [StNone, StOk, StForward, StPostpone] CHK_PRE_ACTION NoGuard RunPreaction)
      else None)"
  by (cases s) (simp_all add: find_row_def sm_table_def row_matches_def)

lemma find_row_CHK_PRE:
  "find_row CHK_PRE_ACTION s h =
     (case s of
        StAgain \<Rightarrow> Some (row CHK_PRE_ACTION [StAgain] PRE_ACTION NoGuard RunResponse)
      | StBusy \<Rightarrow> None
      | StOk \<Rightarrow> if has_pre h then Some (row CHK_PRE_ACTION [StOk] WORKER_ACTION (Has PreAction) NoAction)
                else Some (row CHK_PRE_ACTION [StNone, StOk, StForward, StPostpone] WORKER_ACTION NoGuard NoAction)
      | StForward \<Rightarrow> if has_pre h then Some (row CHK_PRE_ACTION [StForward] POST_ACTION (Has PreAction) NoAction)
                else Some (row CHK_PRE_ACTION [StNone, StOk, StForward, StPostpone] WORKER_ACTION NoGuard NoAction)
      | StNone \<Rightarrow> Some (row CHK_PRE_ACTION [StNone, StOk, StForward, StPostpone] WORKER_ACTION NoGuard NoAction)
      | StPostpone \<Rightarrow> Some (row CHK_PRE_ACTION [StNone, StOk, StForward, StPostpone] WORKER_ACTION NoGuard NoAction)
      | StDrop \<Rightarrow> if has_pre h then Some (row CHK_PRE_ACTION [StDrop] EXIT (Has PreAction) RunDrop) else None
      | _ \<Rightarrow> if has_pre h then Some (row CHK_PRE_ACTION [StError, StInternalError, StStop] EXIT
                                      (Has PreAction) RunErrorResponse) else None)"
  by (cases s) (simp_all add: find_row_def sm_table_def row_matches_def)

lemma find_row_CHK_POST:
  "find_row CHK_POST_ACTION s h =
     (case s of
        StAgain \<Rightarrow> Some (row CHK_POST_ACTION [StAgain] POST_ACTION NoGuard RunResponse)
      | StForward \<Rightarrow> Some (row CHK_POST_ACTION [StForward] EXIT NoGuard RunForward)
      | StOk \<Rightarrow> Some (row CHK_POST_ACTION [StOk] EXIT NoGuard RunOkResponse)
      | StDrop \<Rightarrow> Some (row CHK_POST_ACTION [StDrop] EXIT NoGuard RunDrop)
      | StPostpone \<Rightarrow> Some (row CHK_POST_ACTION [StPostpone] EXIT NoGuard RunPostpone)
      | StNone \<Rightarrow> None | StBusy \<Rightarrow> None
      | _ \<Rightarrow> Some (row CHK_POST_ACTION [StError, StInternalError, StStop] EXIT NoGuard RunErrorResponse))"
  by (cases s) (simp_all add: find_row_def sm_table_def row_matches_def)

lemmas find_row_simps = find_row_table find_row_PRE find_row_CHK_PRE find_row_CHK_POST

section \<open>The control flow with open handler results\<close>

text \<open>
  What an action may do to the last status: the handlers may return any status of \<open>pre\<close> and
  \<open>post\<close>, the overflow check may set Busy when there is a worker action, a post action may
  leave Forward in place, and every other action leaves the status alone.
\<close>

fun action_status :: "Status set \<Rightarrow> Status set \<Rightarrow> h3_flags \<Rightarrow> SmAction \<Rightarrow> Status \<Rightarrow> Status \<Rightarrow> bool" where
  "action_status pre post h CheckOverflow s s' = (s' = s \<or> has_worker h \<and> s' = StBusy)"
| "action_status pre post h RunPreaction s s' = (if has_pre h then s' \<in> pre else s' = s)"
| "action_status pre post h RunPostaction s s' =
     (if has_post h then s' \<in> insert StForward post else s' = s)"
| "action_status pre post h _ s s' = (s' = s)"

inductive sm_step ::
  "Status set \<Rightarrow> Status set \<Rightarrow> h3_flags \<Rightarrow> SmState \<times> Status \<Rightarrow> SmState \<times> Status \<Rightarrow> bool"
  for pre post h where
  step: "find_row st s h = Some r \<Longrightarrow> action_status pre post h (smAction r) s s' \<Longrightarrow>
    sm_step pre post h (st, s) (smStateEnd r, s')"

inductive_cases sm_stepE: "sm_step pre post h (st, s) c"
inductive_simps sm_step_simps: "sm_step pre post h (st, s) (st', s')"

text \<open>
  The states a request that enters with status \<open>s\<^sub>0\<close> can be in, with what is known of the
  status there. \<open>settled\<close> statuses are those the last check has a row for.
\<close>

definition settled :: "Status set" where
  "settled = {StOk, StForward, StError, StInternalError, StStop, StDrop, StPostpone}"

definition entry_status :: "Status set" where
  "entry_status = {StNone, StOk, StForward, StPostpone}"

definition some_handler :: "h3_flags \<Rightarrow> bool" where
  "some_handler h \<longleftrightarrow> has_pre h \<or> has_worker h \<or> has_post h"

fun sm_ok :: "Status set \<Rightarrow> h3_flags \<Rightarrow> SmState \<Rightarrow> Status \<Rightarrow> bool" where
  "sm_ok R h EXECUTE s = (s \<in> entry_status \<and> (some_handler h \<or> s \<noteq> StNone))"
| "sm_ok R h PRE_ACTION s =
     (s = StBusy \<or> s \<in> entry_status \<and> (some_handler h \<or> s \<noteq> StNone))"
| "sm_ok R h CHK_PRE_ACTION s =
     (if has_pre h then s \<in> settled else s \<in> entry_status \<and> (some_handler h \<or> s \<noteq> StNone))"
| "sm_ok R h WORKER_ACTION s = (has_worker h \<or> has_post h \<or> s \<in> settled)"
| "sm_ok R h CHK_WORKER_ACTION s = (has_worker h \<or> has_post h \<or> s \<in> settled)"
| "sm_ok R h WORKER_ACTION_DONE s = (s = StAgain \<and> has_worker h \<or> s \<in> settled)"
| "sm_ok R h POST_ACTION s = (has_post h \<or> s \<in> R)"
| "sm_ok R h CHK_POST_ACTION s = (s \<in> R)"
| "sm_ok R h AGAIN s = False"
| "sm_ok R h EXIT s = True"

text \<open>\<open>R\<close>: what the post action may return, and Forward.\<close>

definition post_results :: "Status set \<Rightarrow> bool" where
  "post_results R \<longleftrightarrow> settled \<subseteq> R \<and> R \<subseteq> settled \<union> {StAgain}"

lemma post_resultsD:
  "post_results R \<Longrightarrow> s \<in> settled \<Longrightarrow> s \<in> R"
  "post_results R \<Longrightarrow> StForward \<in> R"
  "post_results R \<Longrightarrow> StNone \<notin> R" "post_results R \<Longrightarrow> StBusy \<notin> R"
  by (auto simp: post_results_def settled_def)

lemma sm_ok_complete:
  "post_results R \<Longrightarrow> sm_ok R h st s \<Longrightarrow> st \<noteq> EXIT \<Longrightarrow> \<exists>r. find_row st s h = Some r"
  by (cases st; cases s)
    (auto simp: find_row_simps settled_def entry_status_def dest: post_resultsD split: if_splits)

lemma sm_ok_step:
  assumes "sm_ok R h st s" "sm_step pre post h (st, s) (st', s')"
    and "pre \<subseteq> settled" "post \<subseteq> R" "post_results R"
  shows "sm_ok R h st' s'"
proof -
  from assms(2) obtain r where r: "find_row st s h = Some r" "st' = smStateEnd r"
    "action_status pre post h (smAction r) s s'" by (auto elim: sm_stepE)
  show ?thesis
    using assms(1,3,4) r post_resultsD [OF assms(5)]
    by (cases st; cases s)
      (auto simp: find_row_simps settled_def entry_status_def some_handler_def split: if_splits)
qed

text \<open>Without Again the machine only moves forward.\<close>

fun sm_rank :: "SmState \<Rightarrow> nat" where
  "sm_rank EXECUTE = 8" | "sm_rank PRE_ACTION = 7" | "sm_rank CHK_PRE_ACTION = 6"
| "sm_rank WORKER_ACTION_DONE = 6" | "sm_rank WORKER_ACTION = 5" | "sm_rank CHK_WORKER_ACTION = 4"
| "sm_rank POST_ACTION = 3" | "sm_rank CHK_POST_ACTION = 2" | "sm_rank AGAIN = 1" | "sm_rank EXIT = 0"

lemma sm_rank_step:
  assumes "sm_ok settled h st s" "find_row st s h = Some r"
  shows "sm_rank (smStateEnd r) < sm_rank st"
  using assms
  by (cases st; cases s)
    (auto simp: find_row_simps settled_def entry_status_def split: if_splits)

end
