(* ===== verification/Inout.thy ===== *)
theory Inout
  imports Graft_Prelude
begin

text \<open>
  Requests and replies as the handlers see them (include/lib/graft/inout.h,
  src/lib/graft/inout.cpp): the fields shared by \<^verbatim>\<open>InHttp\<close> and \<^verbatim>\<open>OutHttp\<close>, the copy
  from an output to an input between two handlers, the combined headers and the URL of an
  upstream request. The URL parser is mongoose's \<^verbatim>\<open>mg_parse_uri\<close>, an argument.
\<close>

section \<open>Data\<close>

record http_base =
  host :: string
  body :: string
  http_method :: string
  uri :: string
  proto :: string
  resp_code :: int
  resp_status_msg :: string
  query_string :: string
  headers :: "(string \<times> string) list"
  extra_headers :: string

record Input = http_base +
  in_port :: "16 word"

record Output = http_base +
  out_port :: string
  out_path :: string

section \<open>Operations\<close>

definition empty_Input :: Input where
  "empty_Input =
     \<lparr> host = [], body = [], http_method = [], uri = [], proto = [], resp_code = 0,
       resp_status_msg = [], query_string = [], headers = [], extra_headers = [], in_port = 0 \<rparr>"

definition empty_Output :: Output where
  "empty_Output =
     \<lparr> host = [], body = [], http_method = [], uri = [], proto = [], resp_code = 0,
       resp_status_msg = [], query_string = [], headers = [], extra_headers = [],
       out_port = [], out_path = [] \<rparr>"

text \<open>\<open>reset\<close> clears the shared fields and keeps the port.\<close>

definition reset_input :: "Input \<Rightarrow> Input" where
  "reset_input i = empty_Input\<lparr>in_port := in_port i\<rparr>"

definition load_input :: "string \<Rightarrow> Input \<Rightarrow> Input" where
  "load_input d i = (reset_input i)\<lparr>body := d\<rparr>"

text \<open>\<open>assign\<close> copies the shared fields of an output into an input.\<close>

definition assign_input :: "Output \<Rightarrow> Input \<Rightarrow> Input" where
  "assign_input out i =
     \<lparr> host = host out, body = body out, http_method = http_method out, uri = uri out,
       proto = proto out, resp_code = resp_code out, resp_status_msg = resp_status_msg out,
       query_string = query_string out, headers = headers out, extra_headers = extra_headers out,
       in_port = in_port i \<rparr>"

definition CRLF :: string where "CRLF = [CHR 0x0D, CHR 0x0A]"

definition combine_headers :: "('a) http_base_scheme \<Rightarrow> string" where
  "combine_headers h = fold (\<lambda>(n, v) s. s @ n @ '': '' @ v @ CRLF) (headers h) (extra_headers h)"

text \<open>What \<^verbatim>\<open>mg_parse_uri\<close> returns; \<open>None\<close> is a negative result.\<close>

record uri_parts =
  up_scheme :: string
  up_user_info :: string
  up_host :: string
  up_port :: u32
  up_path :: string
  up_query :: string
  up_fragment :: string

definition no_parts :: uri_parts where
  "no_parts = \<lparr>up_scheme = [], up_user_info = [], up_host = [], up_port = 0, up_path = [],
     up_query = [], up_fragment = []\<rparr>"

definition makeUri :: "(string \<Rightarrow> uri_parts option) \<Rightarrow> Output \<Rightarrow> string \<Rightarrow> string" where
  "makeUri mg_parse_uri out default_uri =
     (let p = (if default_uri = [] then no_parts
               else case mg_parse_uri default_uri of None \<Rightarrow> no_parts | Some p \<Rightarrow> p);
          port0 = (if up_port p \<noteq> 0 then nat_to_string (unat (up_port p)) else []);
          scheme' = (if proto out \<noteq> [] then proto out else up_scheme p);
          host' = (if host out \<noteq> [] then host out else up_host p);
          port' = (if out_port out \<noteq> [] then out_port out else port0);
          path' = (if out_path out \<noteq> [] then out_path out else up_path p)
      in (if scheme' \<noteq> []
          then scheme' @ ''://'' @ (if up_user_info p \<noteq> [] then up_user_info p @ ''@'' else [])
          else []) @
         host' @ (if port' \<noteq> [] then '':'' @ port' else []) @
         (if path' \<noteq> [] then (if hd path' \<noteq> CHR ''/'' then CHR ''/'' # path' else path') else []) @
         (if up_query p \<noteq> [] then ''?'' @ up_query p else []) @
         (if up_fragment p \<noteq> [] then ''#'' @ up_fragment p else []))"

section \<open>Facts\<close>

lemma combine_headers_concat:
  "combine_headers h = extra_headers h @ concat (map (\<lambda>(n, v). n @ '': '' @ v @ CRLF) (headers h))"
proof -
  have "fold (\<lambda>(n, v) s. s @ n @ '': '' @ v @ CRLF) hs acc =
      acc @ concat (map (\<lambda>(n, v). n @ '': '' @ v @ CRLF) hs)" for hs acc
    by (induction hs arbitrary: acc) auto
  then show ?thesis by (simp add: combine_headers_def)
qed

text \<open>Moving the headers into \<open>extra_headers\<close>, as the header comment recommends, changes nothing.\<close>

lemma combine_headers_idem:
  "combine_headers (h\<lparr>extra_headers := combine_headers h, headers := []\<rparr>) = combine_headers h"
  by (simp add: combine_headers_concat)

lemma assign_input_simps [simp]:
  "body (assign_input out i) = body out" "in_port (assign_input out i) = in_port i"
  "host (assign_input out i) = host out" "headers (assign_input out i) = headers out"
  by (simp_all add: assign_input_def)

end
