(* ===== verification/Ordered_Map.thy ===== *)
theory Ordered_Map
  imports Graft_Prelude
begin

text \<open>
  \<^verbatim>\<open>std::map\<close> as the code uses it: an association list kept in key order, with \<open>emplace\<close>
  (which keeps an existing entry), assignment through \<^verbatim>\<open>operator[]\<close>, \<open>erase\<close>, \<open>find\<close> and
  \<open>begin\<close>. The interface the components rely on is the locale \<open>std_map\<close>; it is interpreted
  on the list below.
\<close>

section \<open>The interface\<close>

locale std_map =
  fixes emp :: 'm
    and find_key :: "'m \<Rightarrow> 'k \<Rightarrow> 'v option"
    and put :: "'k \<Rightarrow> 'v \<Rightarrow> 'm \<Rightarrow> 'm"
    and del :: "'k \<Rightarrow> 'm \<Rightarrow> 'm"
    and sz :: "'m \<Rightarrow> nat"
    and wf :: "'m \<Rightarrow> bool"
  assumes wf_emp: "wf emp" and sz_emp: "sz emp = 0" and find_emp: "find_key emp k = None"
    and wf_put: "wf m \<Longrightarrow> wf (put k v m)"
    and wf_del: "wf m \<Longrightarrow> wf (del k m)"
    and find_put: "wf m \<Longrightarrow> find_key (put k v m) k' =
          (if k' = k then (case find_key m k of None \<Rightarrow> Some v | Some w \<Rightarrow> Some w) else find_key m k')"
    and find_del: "wf m \<Longrightarrow> find_key (del k m) k' = (if k' = k then None else find_key m k')"
    and finite_keys: "finite (dom (find_key m))"
    and sz_card: "wf m \<Longrightarrow> sz m = card (dom (find_key m))"
begin

lemma dom_put: "wf m \<Longrightarrow> dom (find_key (put k v m)) = insert k (dom (find_key m))"
  by (auto simp: find_put split: if_splits option.splits)

lemma dom_del: "wf m \<Longrightarrow> dom (find_key (del k m)) = dom (find_key m) - {k}"
  by (auto simp: find_del split: if_splits)

lemma sz_put: "wf m \<Longrightarrow> sz (put k v m) = (if find_key m k = None then Suc (sz m) else sz m)"
  by (auto simp: sz_card wf_put dom_put card_insert_if finite_keys domIff insert_absorb)

lemma sz_del: "wf m \<Longrightarrow> sz (del k m) = (if find_key m k = None then sz m else sz m - 1)"
  by (auto simp: sz_card wf_del dom_del finite_keys domIff card_Diff_singleton)

lemma sz_pos: "wf m \<Longrightarrow> find_key m k \<noteq> None \<Longrightarrow> 0 < sz m"
  using finite_keys [of m] by (auto simp: sz_card card_gt_0_iff)

end

section \<open>The list\<close>

fun omap_emplace :: "'k::linorder \<Rightarrow> 'v \<Rightarrow> ('k \<times> 'v) list \<Rightarrow> ('k \<times> 'v) list" where
  "omap_emplace k v [] = [(k, v)]"
| "omap_emplace k v ((a, b) # m) =
     (if k < a then (k, v) # (a, b) # m
      else if k = a then (a, b) # m
      else (a, b) # omap_emplace k v m)"

fun omap_assign :: "'k::linorder \<Rightarrow> 'v \<Rightarrow> ('k \<times> 'v) list \<Rightarrow> ('k \<times> 'v) list" where
  "omap_assign k v [] = [(k, v)]"
| "omap_assign k v ((a, b) # m) =
     (if k < a then (k, v) # (a, b) # m
      else if k = a then (a, v) # m
      else (a, b) # omap_assign k v m)"

definition omap_erase :: "'k \<Rightarrow> ('k \<times> 'v) list \<Rightarrow> ('k \<times> 'v) list" where
  "omap_erase k m = filter (\<lambda>e. fst e \<noteq> k) m"

abbreviation omap_find :: "('k \<times> 'v) list \<Rightarrow> 'k \<Rightarrow> 'v option" where
  "omap_find \<equiv> map_of"

definition omap_wf :: "('k::linorder \<times> 'v) list \<Rightarrow> bool" where
  "omap_wf m \<longleftrightarrow> sorted_wrt (<) (map fst m)"

lemma omap_wf_Nil [simp]: "omap_wf []" by (simp add: omap_wf_def)

lemma omap_wf_Cons: "omap_wf (e # m) \<longleftrightarrow> omap_wf m \<and> (\<forall>x\<in>fst ` set m. fst e < x)"
  by (auto simp: omap_wf_def)

lemma omap_wf_distinct: "omap_wf m \<Longrightarrow> distinct (map fst m)"
  by (simp add: omap_wf_def strict_sorted_iff)

lemma omap_emplace_keys: "fst ` set (omap_emplace k v m) = insert k (fst ` set m)"
  by (induction k v m rule: omap_emplace.induct) auto

lemma omap_assign_keys: "fst ` set (omap_assign k v m) = insert k (fst ` set m)"
  by (induction k v m rule: omap_assign.induct) auto

lemma omap_emplace_wf: "omap_wf m \<Longrightarrow> omap_wf (omap_emplace k v m)"
proof (induction k v m rule: omap_emplace.induct)
  case (2 k v a b m)
  consider "k < a" | "k = a" | "a < k" by fastforce
  then show ?case
  proof cases
    case 3
    then have n: "\<not> k < a" "k \<noteq> a" by auto
    have "\<forall>x\<in>fst ` set (omap_emplace k v m). a < x"
      unfolding omap_emplace_keys using 3 2(2) by (auto simp: omap_wf_Cons)
    with n 2 show ?thesis by (simp add: omap_wf_Cons)
  qed (use 2 in \<open>auto simp: omap_wf_Cons\<close>)
qed (simp add: omap_wf_Cons)

lemma omap_assign_wf: "omap_wf m \<Longrightarrow> omap_wf (omap_assign k v m)"
proof (induction k v m rule: omap_assign.induct)
  case (2 k v a b m)
  consider "k < a" | "k = a" | "a < k" by fastforce
  then show ?case
  proof cases
    case 3
    then have n: "\<not> k < a" "k \<noteq> a" by auto
    have "\<forall>x\<in>fst ` set (omap_assign k v m). a < x"
      unfolding omap_assign_keys using 3 2(2) by (auto simp: omap_wf_Cons)
    with n 2 show ?thesis by (simp add: omap_wf_Cons)
  qed (use 2 in \<open>auto simp: omap_wf_Cons\<close>)
qed (simp add: omap_wf_Cons)

lemma omap_find_below: "omap_wf ((a, b) # m) \<Longrightarrow> k < a \<Longrightarrow> omap_find m k = None"
  by (fastforce simp: omap_wf_Cons map_of_eq_None_iff)

lemma omap_find_emplace:
  "omap_wf m \<Longrightarrow> omap_find (omap_emplace k v m) k' =
     (if k' = k then (case omap_find m k of None \<Rightarrow> Some v | Some w \<Rightarrow> Some w) else omap_find m k')"
proof (induction k v m rule: omap_emplace.induct)
  case (2 k v a b m)
  then show ?case using omap_find_below [of a b m k] by (auto simp: omap_wf_Cons)
qed simp

lemma omap_find_assign:
  "omap_wf m \<Longrightarrow> omap_find (omap_assign k v m) k' = (if k' = k then Some v else omap_find m k')"
proof (induction k v m rule: omap_assign.induct)
  case (2 k v a b m)
  then show ?case using omap_find_below [of a b m k] by (auto simp: omap_wf_Cons)
qed simp

lemma omap_find_erase: "omap_find (omap_erase k m) k' = (if k' = k then None else omap_find m k')"
  by (induction m) (auto simp: omap_erase_def)

lemma omap_erase_wf: "omap_wf m \<Longrightarrow> omap_wf (omap_erase k m)"
  by (induction m) (auto simp: omap_wf_Cons omap_erase_def)

lemma omap_length: "omap_wf m \<Longrightarrow> length m = card (dom (omap_find m))"
  by (metis omap_wf_distinct distinct_card length_map dom_map_of_conv_image_fst set_map)

lemma omap_emplace_mset: "omap_find m k = None \<Longrightarrow> mset (omap_emplace k v m) = add_mset (k, v) (mset m)"
  by (induction k v m rule: omap_emplace.induct) (auto split: if_splits)

lemma omap_emplace_set: "omap_find m k = None \<Longrightarrow> set (omap_emplace k v m) = insert (k, v) (set m)"
  using omap_emplace_mset [of m k v] by (metis set_mset_mset set_mset_add_mset_insert)

lemma omap_erase_set: "set (omap_erase k m) = {e \<in> set m. fst e \<noteq> k}"
  by (simp add: omap_erase_def)

interpretation omap: std_map "[]" omap_find omap_emplace omap_erase length omap_wf
  by unfold_locales
    (simp_all add: omap_emplace_wf omap_erase_wf omap_find_emplace omap_find_erase
      finite_dom_map_of omap_length)

lemmas omap_simps =
  omap.sz_put omap.sz_del omap_find_emplace omap_find_erase omap_find_assign
  omap_emplace_wf omap_erase_wf omap_assign_wf

end
