(* ===== verification/Upstream_Manager.thy ===== *)
theory Upstream_Manager
  imports Complex_Main Ordered_Map
begin

text \<open>
  The class \<^verbatim>\<open>UpstreamManager\<close> (src/lib/graft/task.cpp, lines 209 to 394) and the part of
  \<^verbatim>\<open>UpstreamSender\<close> (src/lib/graft/connection.cpp) that decides how a request to the
  cryptonode ends. A \<^verbatim>\<open>mg_connection*\<close> is a number, a null pointer \<open>None\<close>; a task is a
  value of the type parameter. A connection item is named by \<open>None\<close> for \<open>m_default\<close> and by
  its substitution name otherwise.
\<close>

section \<open>Connection items\<close>

record 'b ConnItem =
  m_newId :: u64
  m_connCnt :: int
  m_uriId :: int
  m_uri :: string
  m_timeout :: rat
  m_maxConnections :: int
  m_taskQueue :: "'b list"
  m_keepAlive :: bool
  m_idleConnections :: "(nat \<times> u64) list"
  m_activeConnections :: "(u64 \<times> nat option) list"

definition new_ConnItem :: "int \<Rightarrow> string \<Rightarrow> int \<Rightarrow> bool \<Rightarrow> rat \<Rightarrow> 'b ConnItem" where
  "new_ConnItem uriId u maxConnections keepAlive timeout =
     \<lparr> m_newId = 0, m_connCnt = 0, m_uriId = uriId, m_uri = u, m_timeout = timeout,
       m_maxConnections = maxConnections, m_taskQueue = [], m_keepAlive = keepAlive,
       m_idleConnections = [], m_activeConnections = [] \<rparr>"

text \<open>The connection to use: its id, and its pointer when an idle one is taken.\<close>

definition getConnection :: "'b ConnItem \<Rightarrow> (u64 \<times> nat option) \<times> 'b ConnItem" where
  "getConnection ci =
     (if \<not> m_keepAlive ci then ((0, None), ci\<lparr>m_connCnt := m_connCnt ci + 1\<rparr>)
      else
        case m_idleConnections ci of
          (client, i) # rest \<Rightarrow>
            ((i, Some client),
             ci\<lparr>m_idleConnections := rest,
                m_activeConnections := omap_emplace i (Some client) (m_activeConnections ci)\<rparr>)
        | [] \<Rightarrow>
            (let i = m_newId ci + 1 in
             ((i, None),
              ci\<lparr>m_connCnt := m_connCnt ci + 1, m_newId := i,
                 m_activeConnections := omap_emplace i None (m_activeConnections ci)\<rparr>)))"

text \<open>\<open>None\<close>: the id is not among the active ones, and the code dereferences the end iterator.\<close>

definition releaseActive :: "u64 \<Rightarrow> nat option \<Rightarrow> 'b ConnItem \<Rightarrow> 'b ConnItem option" where
  "releaseActive connectionId client ci =
     (if \<not> m_keepAlive ci then Some ci
      else if omap_find (m_activeConnections ci) connectionId = None then None
      else
        let ci' = (case client of
                     Some c \<Rightarrow> ci\<lparr>m_idleConnections := omap_emplace c connectionId (m_idleConnections ci)\<rparr>
                   | None \<Rightarrow> ci\<lparr>m_connCnt := m_connCnt ci - 1\<rparr>)
        in Some (ci'\<lparr>m_activeConnections := omap_erase connectionId (m_activeConnections ci)\<rparr>))"

definition onCloseIdle :: "nat \<Rightarrow> 'b ConnItem \<Rightarrow> 'b ConnItem option" where
  "onCloseIdle client ci =
     (if omap_find (m_idleConnections ci) client = None then None
      else Some (ci\<lparr>m_connCnt := m_connCnt ci - 1,
                    m_idleConnections := omap_erase client (m_idleConnections ci)\<rparr>))"

section \<open>Senders\<close>

record 'b usender =
  us_task :: 'b
  us_item :: "string option"
  us_keepAlive :: bool
  us_connectionId :: u64
  us_upstream :: "nat option"
  us_uri :: string
  us_timeout :: rat

datatype us_event = EvConnectFailed string | EvHttpReply | EvClose | EvTimer

text \<open>
  How \<^verbatim>\<open>UpstreamSender::ev_handler\<close> ends a request: status, error text, and the pointer it
  hands to the manager. The other events change nothing.
\<close>

definition ev_handler_us :: "'b usender \<Rightarrow> us_event \<Rightarrow> Status \<times> string \<times> nat option" where
  "ev_handler_us us ev =
     (case ev of
        EvConnectFailed err \<Rightarrow> (StError, ''cryptonode connect failed: '' @ err, None)
      | EvHttpReply \<Rightarrow> (StOk, [], if \<not> us_keepAlive us then None else us_upstream us)
      | EvClose \<Rightarrow> (StError, ''cryptonode connection unexpectedly closed'', None)
      | EvTimer \<Rightarrow> (StError, ''cryptonode request timout'', None))"

section \<open>The manager\<close>

record 'b UpstreamManager =
  m_cntUpstreamSender :: u64
  m_cntUpstreamSenderDone :: u64
  m_default :: "'b ConnItem"
  m_conn2item :: "string \<rightharpoonup> 'b ConnItem"

datatype um_error = UriSubstitutionNotFound string | StaleConnection

definition um_busy :: "'b UpstreamManager \<Rightarrow> bool" where
  "um_busy um \<longleftrightarrow> m_cntUpstreamSender um \<noteq> m_cntUpstreamSenderDone um"

fun um_item :: "string option \<Rightarrow> 'b UpstreamManager \<Rightarrow> 'b ConnItem option" where
  "um_item None um = Some (m_default um)"
| "um_item (Some n) um = m_conn2item um n"

fun um_set_item :: "string option \<Rightarrow> 'b ConnItem \<Rightarrow> 'b UpstreamManager \<Rightarrow> 'b UpstreamManager" where
  "um_set_item None ci um = um\<lparr>m_default := ci\<rparr>"
| "um_set_item (Some n) ci um = um\<lparr>m_conn2item := (m_conn2item um)(n \<mapsto> ci)\<rparr>"

text \<open>\<open>init\<close>; \<open>subs\<close> lists \<^verbatim>\<open>OutHttp::uri_substitutions\<close> in iteration order.\<close>

definition um_init ::
  "string \<Rightarrow> rat \<Rightarrow> (string \<times> string \<times> int \<times> bool \<times> rat) list \<Rightarrow> 'b UpstreamManager" where
  "um_init cryptonode_rpc_address upstream_request_timeout subs =
     fold (\<lambda>(name, u, maxc, keep, timeout) um.
             if m_conn2item um name \<noteq> None then um
             else um\<lparr>m_conn2item := (m_conn2item um)(name \<mapsto>
                    new_ConnItem 1 u maxc keep
                      (if timeout < 1 / 100000 then upstream_request_timeout else timeout))\<rparr>)
       subs
       \<lparr> m_cntUpstreamSender = 0, m_cntUpstreamSenderDone = 0,
         m_default = new_ConnItem 0 cryptonode_rpc_address 0 False upstream_request_timeout,
         m_conn2item = Map.empty \<rparr>"

text \<open>The part of \<open>createUpstreamSender\<close> on the item, then the whole.\<close>

definition ci_create :: "'b ConnItem \<Rightarrow> (u64 \<times> nat option) \<times> 'b ConnItem" where
  "ci_create ci = (if m_keepAlive ci then getConnection ci else ((0, None), ci))"

definition createUpstreamSender ::
  "('b \<Rightarrow> string) \<Rightarrow> string option \<Rightarrow> 'b ConnItem \<Rightarrow> 'b \<Rightarrow> 'b UpstreamManager
     \<Rightarrow> 'b usender \<times> 'b UpstreamManager" where
  "createUpstreamSender out_uri k ci bt um =
     (case ci_create ci of
        ((cid, client), ci') \<Rightarrow>
          (\<lparr> us_task = bt, us_item = k, us_keepAlive = m_keepAlive ci, us_connectionId = cid,
             us_upstream = client,
             us_uri = (if k \<noteq> None \<or> out_uri bt = [] then m_uri ci else out_uri bt),
             us_timeout = m_timeout ci \<rparr>,
           (um_set_item k ci' um)\<lparr>m_cntUpstreamSender := m_cntUpstreamSender um + 1\<rparr>))"

definition ci_full :: "'b ConnItem \<Rightarrow> bool" where
  "ci_full ci \<longleftrightarrow>
     m_maxConnections ci \<noteq> 0 \<and> m_idleConnections ci = [] \<and> m_connCnt ci = m_maxConnections ci"

definition um_key :: "string \<Rightarrow> string option" where
  "um_key u = (if u \<noteq> [] \<and> hd u = CHR ''$'' then Some (tl u) else None)"

text \<open>\<open>send\<close>: the sender it created, or \<open>None\<close> where the task waits in the queue of its item.\<close>

definition um_send ::
  "('b \<Rightarrow> string) \<Rightarrow> 'b \<Rightarrow> 'b UpstreamManager \<Rightarrow> um_error + ('b usender option \<times> 'b UpstreamManager)" where
  "um_send out_uri bt um =
     (case um_item (um_key (out_uri bt)) um of
        None \<Rightarrow> Inl (UriSubstitutionNotFound (out_uri bt))
      | Some ci \<Rightarrow>
          if ci_full ci
          then Inr (None, um_set_item (um_key (out_uri bt))
                            (ci\<lparr>m_taskQueue := m_taskQueue ci @ [bt]\<rparr>) um)
          else Inr (apfst Some (createUpstreamSender out_uri (um_key (out_uri bt)) ci bt um)))"

text \<open>
  \<open>onDone\<close> is split at the callback into the task manager: \<open>um_done\<close> counts, and after the
  callback \<open>um_release\<close> gives the connection back and starts the next waiting task.
\<close>

definition um_done :: "'b UpstreamManager \<Rightarrow> 'b UpstreamManager" where
  "um_done um = um\<lparr>m_cntUpstreamSenderDone := m_cntUpstreamSenderDone um + 1\<rparr>"

definition um_release ::
  "('b \<Rightarrow> string) \<Rightarrow> 'b usender \<Rightarrow> nat option \<Rightarrow> 'b UpstreamManager
     \<Rightarrow> um_error + ('b usender option \<times> 'b UpstreamManager)" where
  "um_release out_uri us client um =
     (case um_item (us_item us) um of
        None \<Rightarrow> Inl StaleConnection
      | Some ci \<Rightarrow>
          (case releaseActive (us_connectionId us) client ci of
             None \<Rightarrow> Inl StaleConnection
           | Some ci' \<Rightarrow>
               (case m_taskQueue ci' of
                  [] \<Rightarrow> Inr (None, um_set_item (us_item us) ci' um)
                | bt # q \<Rightarrow>
                    Inr (apfst Some (createUpstreamSender out_uri (us_item us)
                                       (ci'\<lparr>m_taskQueue := q\<rparr>) bt um)))))"

section \<open>The life of one item\<close>

text \<open>
  The same operations seen from one item: what \<open>um_send\<close> and \<open>um_release\<close> do to it, and the
  steps its environment may take. A reply hands back the connection it came over (\<open>c\<close>), which
  no idle entry holds.
\<close>

definition ci_send :: "'b \<Rightarrow> 'b ConnItem \<Rightarrow> 'b ConnItem" where
  "ci_send bt ci =
     (if ci_full ci then ci\<lparr>m_taskQueue := m_taskQueue ci @ [bt]\<rparr> else snd (ci_create ci))"

definition ci_release :: "u64 \<Rightarrow> nat option \<Rightarrow> 'b ConnItem \<Rightarrow> 'b ConnItem option" where
  "ci_release i client ci =
     map_option (\<lambda>ci'. case m_taskQueue ci' of [] \<Rightarrow> ci' | _ # q \<Rightarrow> snd (ci_create (ci'\<lparr>m_taskQueue := q\<rparr>)))
       (releaseActive i client ci)"

inductive ci_step :: "'b ConnItem \<Rightarrow> 'b ConnItem \<Rightarrow> bool" where
  send: "m_newId ci \<noteq> - 1 \<Longrightarrow> ci_step ci (ci_send bt ci)"
| lost: "m_newId ci \<noteq> - 1 \<Longrightarrow> ci_release i None ci = Some ci' \<Longrightarrow> ci_step ci ci'"
| reply: "m_newId ci \<noteq> - 1 \<Longrightarrow> omap_find (m_idleConnections ci) c = None \<Longrightarrow>
    ci_release i (Some c) ci = Some ci' \<Longrightarrow> ci_step ci ci'"
| close_idle: "onCloseIdle c ci = Some ci' \<Longrightarrow> ci_step ci ci'"

inductive ci_reach :: "'b ConnItem \<Rightarrow> 'b ConnItem \<Rightarrow> bool" for ci0 where
  init: "ci_reach ci0 ci0"
| step: "ci_reach ci0 ci \<Longrightarrow> ci_step ci ci' \<Longrightarrow> ci_reach ci0 ci'"

lemma um_send_item:
  assumes "um_send out_uri bt um = Inr (us, um')" "um_item (um_key (out_uri bt)) um = Some ci"
  shows "um_item (um_key (out_uri bt)) um' = Some (ci_send bt ci)"
  using assms
  by (cases "um_key (out_uri bt)")
    (auto simp: um_send_def ci_send_def createUpstreamSender_def split: if_splits prod.splits)

lemma um_release_item:
  assumes "um_release out_uri us client um = Inr (us', um')" "um_item (us_item us) um = Some ci"
  shows "\<exists>ci'. ci_release (us_connectionId us) client ci = Some ci' \<and> um_item (us_item us) um' = Some ci'"
  using assms
  by (cases "us_item us")
    (auto simp: um_release_def ci_release_def createUpstreamSender_def
      split: option.splits list.splits prod.splits)

section \<open>The invariant of an item\<close>

text \<open>
  For a keep-alive item: the counter counts the connections, ids are not reused, the limit
  holds, and a task waits only while every allowed connection is at work.
\<close>

definition ci_conns :: "'b ConnItem \<Rightarrow> bool" where
  "ci_conns ci \<longleftrightarrow>
     omap_wf (m_idleConnections ci) \<and> omap_wf (m_activeConnections ci) \<and>
     m_connCnt ci = int (length (m_idleConnections ci)) + int (length (m_activeConnections ci)) \<and>
     (\<forall>i\<in>fst ` set (m_activeConnections ci) \<union> snd ` set (m_idleConnections ci). i \<le> m_newId ci) \<and>
     fst ` set (m_activeConnections ci) \<inter> snd ` set (m_idleConnections ci) = {} \<and>
     distinct (map snd (m_idleConnections ci)) \<and>
     (m_maxConnections ci \<noteq> 0 \<longrightarrow> m_connCnt ci \<le> m_maxConnections ci)"

definition ci_inv :: "'b ConnItem \<Rightarrow> bool" where
  "ci_inv ci \<longleftrightarrow> m_keepAlive ci \<and> ci_conns ci \<and> (m_taskQueue ci \<noteq> [] \<longrightarrow> ci_full ci)"

lemma new_ConnItem_inv [graft_inv]:
  "0 \<le> maxc \<Longrightarrow> ci_inv (new_ConnItem uid u maxc True t)"
  by (simp add: ci_inv_def ci_conns_def new_ConnItem_def)

lemma ci_create_conns:
  assumes inv: "ci_conns ci" and k: "m_keepAlive ci" and n: "m_newId ci \<noteq> - 1"
    and room: "\<not> ci_full ci"
  shows "ci_conns (snd (ci_create ci))"
proof (cases "m_idleConnections ci")
  case Nil
  let ?i = "m_newId ci + 1"
  have lt: "j < ?i" if "j \<in> fst ` set (m_activeConnections ci)" for j
    using inv that n word_le_imp_less_inc by (auto simp: ci_conns_def)
  then have new: "omap_find (m_activeConnections ci) ?i = None"
    by (fastforce simp: map_of_eq_None_iff)
  show ?thesis
    using inv Nil k n room lt new
    by (auto simp: ci_conns_def ci_create_def getConnection_def Let_def omap_simps ci_full_def
        omap_emplace_set intro: order.strict_implies_order)
next
  case (Cons e rest)
  obtain c i where e: "e = (c, i)" by (cases e)
  have new: "omap_find (m_activeConnections ci) i = None"
    using inv Cons e by (auto simp: ci_conns_def map_of_eq_None_iff)
  show ?thesis
    using inv Cons e k new
    by (auto simp: ci_conns_def ci_create_def getConnection_def omap_simps omap_wf_Cons omap_emplace_set)
qed

lemma ci_create_full:
  assumes "m_keepAlive ci" "m_maxConnections ci \<noteq> 0"
    and "length (m_idleConnections ci) \<le> 1"
    and "m_connCnt ci = m_maxConnections ci - (if m_idleConnections ci = [] then 1 else 0)"
  shows "ci_full (snd (ci_create ci))"
  using assms
  by (cases "m_idleConnections ci") (auto simp: ci_full_def ci_create_def getConnection_def Let_def)

lemma ci_create_frame [simp]:
  "m_keepAlive (snd (ci_create ci)) = m_keepAlive ci"
  "m_taskQueue (snd (ci_create ci)) = m_taskQueue ci"
  "m_maxConnections (snd (ci_create ci)) = m_maxConnections ci"
  by (auto simp: ci_create_def getConnection_def Let_def split: list.splits)

lemma ci_send_inv [graft_inv]:
  assumes "ci_inv ci" "m_newId ci \<noteq> - 1" shows "ci_inv (ci_send bt ci)"
proof (cases "ci_full ci")
  case True
  then show ?thesis using assms(1) by (auto simp: ci_inv_def ci_conns_def ci_send_def ci_full_def)
next
  case False
  then have "m_taskQueue ci = []" using assms(1) by (auto simp: ci_inv_def)
  then show ?thesis
    using False assms ci_create_conns [of ci] by (auto simp: ci_inv_def ci_send_def)
qed

lemma active_entry:
  assumes "omap_wf m" "omap_find m i \<noteq> None"
  shows "int (length (omap_erase i m)) = int (length m) - 1" "0 < length m"
proof -
  show pos: "0 < length m" using assms by (rule omap.sz_pos)
  have "length (omap_erase i m) = length m - 1" using assms omap.sz_del [of m i] by (metis)
  with pos show "int (length (omap_erase i m)) = int (length m) - 1" by linarith
qed

lemma releaseActive_conns:
  assumes inv: "ci_conns ci" and k: "m_keepAlive ci"
    and c: "\<forall>p. client = Some p \<longrightarrow> omap_find (m_idleConnections ci) p = None"
    and r: "releaseActive i client ci = Some ci'"
  shows "ci_conns ci'"
proof -
  have act: "omap_find (m_activeConnections ci) i \<noteq> None" using r k by (simp add: releaseActive_def split: if_splits)
  then have mem: "i \<in> fst ` set (m_activeConnections ci)" by (metis map_of_eq_None_iff)
  then have ni: "i \<notin> snd ` set (m_idleConnections ci)" using inv by (auto simp: ci_conns_def)
  have wfa: "omap_wf (m_activeConnections ci)" using inv by (simp add: ci_conns_def)
  note len = active_entry [OF wfa act]
  show ?thesis
  proof (cases client)
    case None
    then have "ci' = ci\<lparr>m_connCnt := m_connCnt ci - 1,
        m_activeConnections := omap_erase i (m_activeConnections ci)\<rparr>"
      using r k act by (simp add: releaseActive_def)
    then show ?thesis
      using inv len by (auto simp: ci_conns_def omap_erase_wf omap_erase_set)
  next
    case (Some p)
    then have p: "omap_find (m_idleConnections ci) p = None" using c by simp
    have ci': "ci' = ci\<lparr>m_idleConnections := omap_emplace p i (m_idleConnections ci),
        m_activeConnections := omap_erase i (m_activeConnections ci)\<rparr>"
      using r k act Some by (simp add: releaseActive_def)
    have "mset (map snd (omap_emplace p i (m_idleConnections ci))) =
        add_mset i (mset (map snd (m_idleConnections ci)))"
      using omap_emplace_mset [OF p, of i] by simp
    then have d: "distinct (map snd (omap_emplace p i (m_idleConnections ci)))"
      using inv ni by (metis ci_conns_def distinct.simps(2) mset.simps(2) mset_eq_imp_distinct_iff set_map)
    show ?thesis
      using inv len d mem unfolding ci'
      by (auto simp: ci_conns_def omap_simps p omap_emplace_set omap_erase_set)
  qed
qed

lemma ci_release_inv [graft_inv]:
  assumes inv: "ci_inv ci" and n: "m_newId ci \<noteq> - 1"
    and c: "\<forall>p. client = Some p \<longrightarrow> omap_find (m_idleConnections ci) p = None"
    and r: "ci_release i client ci = Some ci'"
  shows "ci_inv ci'"
proof -
  obtain ci1 where r1: "releaseActive i client ci = Some ci1" using r by (auto simp: ci_release_def)
  have k: "m_keepAlive ci" and conns: "ci_conns ci" using inv by (auto simp: ci_inv_def)
  have c1: "ci_conns ci1" using conns k c r1 by (rule releaseActive_conns)
  have f: "m_keepAlive ci1" "m_taskQueue ci1 = m_taskQueue ci" "m_newId ci1 = m_newId ci"
    "m_maxConnections ci1 = m_maxConnections ci"
    using r1 k by (auto simp: releaseActive_def Let_def split: if_splits option.splits)
  show ?thesis
  proof (cases "m_taskQueue ci")
    case Nil
    then have "ci' = ci1" using r r1 f by (simp add: ci_release_def)
    then show ?thesis using c1 f Nil by (simp add: ci_inv_def)
  next
    case (Cons bt q)
    let ?c = "ci1\<lparr>m_taskQueue := q\<rparr>"
    have ci': "ci' = snd (ci_create ?c)" using r r1 f Cons by (simp add: ci_release_def)
    have full: "ci_full ci" using inv Cons by (simp add: ci_inv_def)
    have shape: "length (m_idleConnections ?c) \<le> 1 \<and> m_connCnt ?c =
        m_maxConnections ?c - (if m_idleConnections ?c = [] then 1 else 0)"
      using r1 k full
      by (auto simp: releaseActive_def ci_full_def Let_def split: if_splits option.splits)
    have max: "m_maxConnections ?c \<noteq> 0" using full f by (simp add: ci_full_def)
    have "\<not> ci_full ?c" using shape by (auto simp: ci_full_def)
    moreover have "ci_conns ?c" using c1 unfolding ci_conns_def by auto
    ultimately have "ci_conns ci'" unfolding ci' using f n by (intro ci_create_conns) auto
    moreover have "ci_full ci'" unfolding ci' using f shape max by (intro ci_create_full) auto
    ultimately show ?thesis using f by (simp add: ci_inv_def ci')
  qed
qed

lemma onCloseIdle_inv [graft_inv]:
  assumes inv: "ci_inv ci" and r: "onCloseIdle c ci = Some ci'" shows "ci_inv ci'"
proof -
  have wf: "omap_wf (m_idleConnections ci)" using inv by (simp add: ci_inv_def ci_conns_def)
  have at: "omap_find (m_idleConnections ci) c \<noteq> None"
    and ci': "ci' = ci\<lparr>m_connCnt := m_connCnt ci - 1,
        m_idleConnections := omap_erase c (m_idleConnections ci)\<rparr>"
    using r by (auto simp: onCloseIdle_def split: if_splits)
  note len = active_entry [OF wf at]
  from len(2) have "\<not> ci_full ci" by (auto simp: ci_full_def)
  then have q: "m_taskQueue ci = []" using inv by (auto simp: ci_inv_def)
  have "distinct (map snd (omap_erase c (m_idleConnections ci)))"
    using inv by (simp add: ci_inv_def ci_conns_def omap_erase_def distinct_map_filter)
  then show ?thesis
    using inv q len unfolding ci'
    by (auto simp: ci_inv_def ci_conns_def omap_erase_wf omap_erase_set)
qed

lemma ci_step_inv: "ci_step ci ci' \<Longrightarrow> ci_inv ci \<Longrightarrow> ci_inv ci'"
  by (induction rule: ci_step.induct)
    (auto intro: ci_send_inv ci_release_inv onCloseIdle_inv)

lemma ci_step_frame:
  "ci_step ci ci' \<Longrightarrow> m_maxConnections ci' = m_maxConnections ci \<and> m_keepAlive ci' = m_keepAlive ci"
  by (induction rule: ci_step.induct)
    (auto simp: ci_send_def ci_release_def releaseActive_def onCloseIdle_def Let_def
      split: if_splits option.splits list.splits)

lemma ci_reach_inv: "ci_reach ci0 ci \<Longrightarrow> ci_inv ci0 \<Longrightarrow> ci_inv ci \<and> m_maxConnections ci = m_maxConnections ci0"
  by (induction rule: ci_reach.induct) (auto dest: ci_step_inv ci_step_frame)

section \<open>Properties\<close>

text \<open>
  C35. Keep-alive connections. Whatever sequence of sends, replies, lost connections and closed
  idle connections a keep-alive item goes through, it never holds more than its configured
  number of connections, its counter is the number of idle and active ones (the assertion of
  \<open>getConnection\<close>), no connection is idle and active at once, and a task waits only while all
  allowed connections are at work.
\<close>

theorem keepalive_connections:
  assumes "ci_reach (new_ConnItem uid u maxc True t) ci" "0 < maxc"
  shows "int (length (m_idleConnections ci) + length (m_activeConnections ci)) \<le> maxc \<and>
    m_connCnt ci = int (length (m_idleConnections ci) + length (m_activeConnections ci)) \<and>
    fst ` set (m_activeConnections ci) \<inter> snd ` set (m_idleConnections ci) = {} \<and>
    (m_taskQueue ci \<noteq> [] \<longrightarrow>
       m_idleConnections ci = [] \<and> int (length (m_activeConnections ci)) = maxc)"
proof -
  have i0: "ci_inv (new_ConnItem uid u maxc True t)" using assms(2) by (intro new_ConnItem_inv) simp
  have m0: "m_maxConnections (new_ConnItem uid u maxc True t) = maxc" by (simp add: new_ConnItem_def)
  have "ci_conns ci" "m_maxConnections ci = maxc" "m_taskQueue ci \<noteq> [] \<longrightarrow> ci_full ci"
    using ci_reach_inv [OF assms(1) i0] m0 by (auto simp: ci_inv_def)
  with assms(2) show ?thesis by (auto simp: ci_conns_def ci_full_def)
qed

definition demo_item :: "nat ConnItem" where
  "demo_item = ci_send 8 (ci_send 7 (new_ConnItem 1 ''u'' 1 True 5))"

theorem keepalive_connections_witness:
  "m_taskQueue demo_item = [8] \<and> length (m_activeConnections demo_item) = 1"
proof -
  let ?i = "new_ConnItem 1 ''u'' 1 True 5 :: nat ConnItem"
  have "ci_reach ?i (ci_send 7 ?i)"
    by (intro ci_reach.step [OF ci_reach.init] ci_step.send) (simp add: new_ConnItem_def)
  then have "ci_reach ?i demo_item"
    unfolding demo_item_def
    by (rule ci_reach.step, intro ci_step.send)
      (simp add: new_ConnItem_def ci_send_def ci_create_def getConnection_def ci_full_def Let_def)
  from keepalive_connections [OF this] have "m_taskQueue demo_item \<noteq> [] \<longrightarrow>
      int (length (m_activeConnections demo_item)) = 1" by simp
  moreover have "m_taskQueue demo_item = [8]"
    by (simp add: demo_item_def new_ConnItem_def ci_send_def ci_create_def getConnection_def
        ci_full_def Let_def)
  ultimately show ?thesis by simp
qed

text \<open>
  Waiting tasks are served in order. When a request of a keep-alive item ends and tasks are
  waiting, the first of them gets a sender at once: over the connection just freed if the peer
  keeps it open, over a new one otherwise; the others stay in their order.
\<close>

theorem waiting_task_served:
  assumes "um_item (us_item us) um = Some ci" "ci_inv ci" "m_taskQueue ci = bt # q"
    and "omap_find (m_activeConnections ci) (us_connectionId us) \<noteq> None"
  shows "\<exists>us' um' ci'. um_release out_uri us client um = Inr (Some us', um') \<and> us_task us' = bt \<and>
    us_upstream us' = client \<and> um_item (us_item us) um' = Some ci' \<and> m_taskQueue ci' = q"
proof -
  have full: "ci_full ci" and k: "m_keepAlive ci" using assms(2,3) by (auto simp: ci_inv_def)
  obtain ci1 where r: "releaseActive (us_connectionId us) client ci = Some ci1"
    using assms(4) k by (auto simp: releaseActive_def Let_def)
  have f: "m_taskQueue ci1 = bt # q" "m_keepAlive ci1"
    and idle: "m_idleConnections ci1 = (case client of None \<Rightarrow> [] | Some c \<Rightarrow> [(c, us_connectionId us)])"
    using r k full assms(3)
    by (auto simp: releaseActive_def ci_full_def Let_def split: if_splits option.splits)
  have c: "snd (fst (ci_create (ci1\<lparr>m_taskQueue := q\<rparr>))) = client"
    using f idle by (auto simp: ci_create_def getConnection_def Let_def split: option.splits)
  show ?thesis
    using assms(1) r f c
    by (cases "us_item us") (auto simp: um_release_def createUpstreamSender_def split: prod.splits
        dest: arg_cong [where f = "\<lambda>p. m_taskQueue (snd p)"])
qed

definition demo_um :: "nat UpstreamManager" where
  "demo_um = um_set_item (Some ''n'') demo_item (um_init ''localhost'' 5 [])"

definition demo_us :: "nat usender" where
  "demo_us = \<lparr> us_task = 7, us_item = Some ''n'', us_keepAlive = True, us_connectionId = 1,
     us_upstream = Some 3, us_uri = ''u'', us_timeout = 5 \<rparr>"

theorem waiting_task_served_witness:
  "\<exists>us' um'. um_release (\<lambda>_. ''$n'') demo_us (Some 3) demo_um = Inr (Some us', um') \<and>
     us_task us' = 8 \<and> us_upstream us' = Some 3"
proof -
  have i: "um_item (us_item demo_us) demo_um = Some demo_item" by (simp add: demo_us_def demo_um_def)
  have inv: "ci_inv demo_item"
    unfolding demo_item_def
    by (intro ci_send_inv new_ConnItem_inv)
      (simp_all add: new_ConnItem_def ci_send_def ci_create_def getConnection_def ci_full_def Let_def)
  have q: "m_taskQueue demo_item = 8 # []" and a: "omap_find (m_activeConnections demo_item) (us_connectionId demo_us) \<noteq> None"
    by (simp_all add: demo_us_def demo_item_def new_ConnItem_def ci_send_def ci_create_def getConnection_def
        ci_full_def Let_def)
  from waiting_task_served [OF i inv q a, of "\<lambda>_. ''$n''" "Some 3"] show ?thesis by blast
qed

text \<open>
  The limit is not applied without keep-alive. An item that does not keep connections
  alive never counts one, so with any positive limit a send is never queued, however many
  requests are under way.
\<close>

theorem no_limit_without_keepalive:
  assumes "ci_reach (new_ConnItem uid u maxc False t) ci" "maxc \<noteq> 0"
  shows "m_connCnt ci = 0 \<and> m_taskQueue ci = [] \<and> \<not> ci_full ci"
proof -
  have "m_connCnt ci = 0 \<and> m_taskQueue ci = [] \<and> m_maxConnections ci = maxc \<and> \<not> m_keepAlive ci \<and>
      m_idleConnections ci = []"
    using assms(1)
  proof (induction rule: ci_reach.induct)
    case init
    then show ?case by (simp add: new_ConnItem_def)
  next
    case (step ci ci')
    from step(2,3) show ?case
      by (cases rule: ci_step.cases)
        (auto simp: ci_send_def ci_create_def ci_full_def ci_release_def releaseActive_def
          onCloseIdle_def assms(2))
  qed
  then show ?thesis using assms(2) by (simp add: ci_full_def)
qed

theorem no_limit_without_keepalive_witness:
  "\<not> ci_full (ci_send 8 (ci_send (7::nat) (new_ConnItem 1 ''u'' 1 False 5)))"
proof -
  let ?i = "new_ConnItem 1 ''u'' 1 False 5 :: nat ConnItem"
  have "ci_reach ?i (ci_send 7 ?i)"
    by (intro ci_reach.step [OF ci_reach.init] ci_step.send) (simp add: new_ConnItem_def)
  then have "ci_reach ?i (ci_send 8 (ci_send 7 ?i))"
    by (rule ci_reach.step, intro ci_step.send)
      (simp add: new_ConnItem_def ci_send_def ci_create_def ci_full_def)
  from no_limit_without_keepalive [OF this] show ?thesis by simp
qed

end
