(* ===== verification/Expiring_List.thy ===== *)
theory Expiring_List
  imports Graft_Prelude
begin

text \<open>
  \<^verbatim>\<open>detail::ExpiringListT\<close> (include/lib/graft/expiring\_list.h): a queue of values with a
  deadline each, which are dropped in order of time. The task manager keeps in it the answers
  that arrive before the task they are for is postponed. Time points and durations of the
  steady clock are integers; \<open>now\<close> is one reading of it. \<^verbatim>\<open>std::lower_bound\<close> is the
  binary search of the standard library.
\<close>

section \<open>Binary search\<close>

text \<open>
  \<open>first\<close> and \<open>len\<close> as in the library's algorithm; \<open>below x\<close> is the comparison with the
  searched value.
\<close>

function lower_bound :: "('a \<Rightarrow> bool) \<Rightarrow> 'a list \<Rightarrow> nat \<Rightarrow> nat \<Rightarrow> nat" where
  "lower_bound below xs first len =
     (if len = 0 then first
      else
        let half = len div 2; middle = first + half in
        if below (xs ! middle) then lower_bound below xs (middle + 1) (len - half - 1)
        else lower_bound below xs first half)"
  by pat_completeness auto
termination by (relation "measure (\<lambda>(below, xs, first, len). len)") auto

declare lower_bound.simps [simp del]

text \<open>On a sequence whose elements below the value come first it finds where they end.\<close>

lemma lower_bound_partition:
  assumes "\<forall>i. first \<le> i \<and> i < n \<longrightarrow> below (xs ! i)"
    and above: "\<forall>i. n \<le> i \<and> i < length xs \<longrightarrow> \<not> below (xs ! i)"
    and "first \<le> n" "n \<le> first + len" "first + len \<le> length xs"
  shows "lower_bound below xs first len = n"
  using assms(1,3-5)
proof (induction len arbitrary: first rule: less_induct)
  case (less len)
  show ?case
  proof (cases "len = 0")
    case True
    with less show ?thesis by (simp add: lower_bound.simps)
  next
    case False
    let ?h = "len div 2"
    let ?m = "first + ?h"
    have h: "?h < len" using False by simp
    show ?thesis
    proof (cases "below (xs ! ?m)")
      case True
      have "?m < n"
      proof (rule ccontr)
        assume "\<not> ?m < n"
        then have "\<not> below (xs ! ?m)" using above h less.prems(4) by simp
        with True show False by simp
      qed
      then have "lower_bound below xs (?m + 1) (len - ?h - 1) = n"
        using less.prems h by (intro less.IH) simp_all
      with True False show ?thesis by (subst lower_bound.simps) (simp add: Let_def)
    next
      case below: False
      then have "n \<le> ?m" using less.prems(1) by (meson le_add1 not_le)
      then have "lower_bound below xs first ?h = n"
        using less.prems h by (intro less.IH) simp_all
      with below False show ?thesis by (subst lower_bound.simps) (simp add: Let_def)
    qed
  qed
qed

lemma lower_bound_sorted:
  assumes "sorted (map f xs)" "first \<le> length xs"
    and "\<forall>i<first. i < length xs \<longrightarrow> f (xs ! i) < (v::'t::linorder)"
  shows "lower_bound (\<lambda>x. f x < v) xs first (length xs - first) = length (takeWhile (\<lambda>x. f x < v) xs)"
proof -
  let ?n = "length (takeWhile (\<lambda>x. f x < v) xs)"
  have le: "?n \<le> length xs" by (rule length_takeWhile_le)
  have above: "\<not> f (xs ! i) < v" if "?n \<le> i" "i < length xs" for i
  proof -
    have "\<not> f (xs ! ?n) < v" using that nth_length_takeWhile [of "\<lambda>x. f x < v" xs] by simp
    moreover have "f (xs ! ?n) \<le> f (xs ! i)"
      using sorted_nth_mono [OF assms(1) that(1)] that by simp
    ultimately show ?thesis by simp
  qed
  have below: "\<forall>i<?n. f (xs ! i) < v" by (metis nth_mem set_takeWhileD takeWhile_nth)
  have "first \<le> ?n"
  proof (rule ccontr)
    assume "\<not> first \<le> ?n"
    then have "?n < length xs" "?n < first" using assms(2) by auto
    with assms(3) above show False by blast
  qed
  with assms(2) le above below show ?thesis
    by (intro lower_bound_partition [where n = ?n]) auto
qed

section \<open>The list\<close>

record ('k, 'v) ExpiringList =
  el_delta :: int
  el_cont :: "(int \<times> 'k \<times> 'v) list"

definition new_ExpiringList :: "int \<Rightarrow> ('k, 'v) ExpiringList" where
  "new_ExpiringList life_time = \<lparr>el_delta = life_time, el_cont = []\<rparr>"

definition chop :: "int \<Rightarrow> (int \<times> 'k \<times> 'v) list \<Rightarrow> (int \<times> 'k \<times> 'v) list" where
  "chop now m_cont =
     (if m_cont = [] \<or> now < fst (hd m_cont) then m_cont
      else drop (lower_bound (\<lambda>l. fst l < now) m_cont 1 (length m_cont - 1)) m_cont)"

definition el_add :: "int \<Rightarrow> 'k \<Rightarrow> 'v \<Rightarrow> ('k, 'v) ExpiringList \<Rightarrow> ('k, 'v) ExpiringList" where
  "el_add now k v l = l\<lparr>el_cont := chop now (el_cont l) @ [(now + el_delta l, k, v)]\<rparr>"

definition el_extract :: "int \<Rightarrow> 'k \<Rightarrow> ('k, 'v) ExpiringList \<Rightarrow> 'v option \<times> ('k, 'v) ExpiringList" where
  "el_extract now k l =
     (if el_cont l = [] then (None, l)
      else
        let c = chop now (el_cont l) in
        case dropWhile (\<lambda>e. fst (snd e) \<noteq> k) c of
          [] \<Rightarrow> (None, l\<lparr>el_cont := c\<rparr>)
        | (d, k', v) # rest \<Rightarrow>
            (Some v, l\<lparr>el_cont := takeWhile (\<lambda>e. fst (snd e) \<noteq> k) c @ rest\<rparr>))"

definition el_remove :: "int \<Rightarrow> 'k \<Rightarrow> ('k, 'v) ExpiringList \<Rightarrow> bool \<times> ('k, 'v) ExpiringList" where
  "el_remove now k l = apfst (\<lambda>r. r \<noteq> None) (el_extract now k l)"

section \<open>Order in time\<close>

definition el_inv :: "int \<Rightarrow> ('k, 'v) ExpiringList \<Rightarrow> bool" where
  "el_inv now l \<longleftrightarrow> 0 \<le> el_delta l \<and> sorted (map fst (el_cont l)) \<and>
     (\<forall>e\<in>set (el_cont l). fst e \<le> now + el_delta l)"

lemma chop_drop: "\<exists>n. chop now c = drop n c"
  unfolding chop_def by (metis drop0)

lemma chop_subset: "set (chop now c) \<subseteq> set c"
  using chop_drop [of now c] by (metis set_drop_subset)

lemma chop_sorted: "sorted (map fst c) \<Longrightarrow> sorted (map fst (chop now c))"
  using chop_drop [of now c] by (metis drop_map sorted_wrt_drop)

text \<open>The search starts behind the first entry, which has expired already.\<close>

lemma chop_eq:
  assumes "sorted (map fst c)" "c \<noteq> []" "fst (hd c) \<le> now"
  shows "chop now c = (if fst (hd c) < now then dropWhile (\<lambda>e. fst e < now) c else tl c)"
proof (cases "fst (hd c) < now")
  case True
  then have "\<forall>i<1. i < length c \<longrightarrow> fst (c ! i) < now" using assms(2) by (simp add: hd_conv_nth)
  from lower_bound_sorted [OF assms(1) _ this] assms(2,3) True
  show ?thesis by (simp add: chop_def Suc_leI dropWhile_eq_drop)
next
  case False
  then have eq: "fst (hd c) = now" using assms(3) by simp
  have "\<not> fst (c ! i) < now" if "i < length c" for i
    using sorted_nth_mono [OF assms(1), of 0 i] that assms(2) eq by (auto simp: hd_conv_nth)
  then have "lower_bound (\<lambda>l. fst l < now) c 1 (length c - 1) = 1"
    using assms(2) by (intro lower_bound_partition) (auto simp: Suc_leI)
  then show ?thesis using False assms(2,3) by (simp add: chop_def drop_Suc)
qed

lemma chop_keeps_live:
  assumes "sorted (map fst c)" "e \<in> set c" "now < fst e"
  shows "e \<in> set (chop now c)"
proof (cases "c = [] \<or> now < fst (hd c)")
  case False
  then have c: "c = hd c # tl c" by simp
  have "e \<in> set (tl c)" using assms(2,3) False c by (metis set_ConsD)
  moreover have "e \<in> set (dropWhile (\<lambda>e. fst e < now) c)"
  proof -
    have "e \<in> set (takeWhile (\<lambda>e. fst e < now) c) \<union> set (dropWhile (\<lambda>e. fst e < now) c)"
      using assms(2) by (metis set_append takeWhile_dropWhile_id)
    moreover have "e \<notin> set (takeWhile (\<lambda>e. fst e < now) c)"
      using assms(3) by (auto dest: set_takeWhileD)
    ultimately show ?thesis by blast
  qed
  ultimately show ?thesis using False assms(1) by (subst chop_eq) auto
qed (use assms in \<open>simp add: chop_def\<close>)

lemma chop_drops_dead:
  assumes "sorted (map fst c)" "e \<in> set (chop now c)"
  shows "now \<le> fst e"
proof (cases "c = [] \<or> now < fst (hd c)")
  case True
  then show ?thesis
    using assms by (cases c) (fastforce simp: chop_def)+
next
  case False
  have s: "sorted (map fst (chop now c))" using assms(1) by (rule chop_sorted)
  have h: "now \<le> fst (hd c) \<or> chop now c = dropWhile (\<lambda>e. fst e < now) c"
    using False assms(1) by (subst chop_eq) auto
  then show ?thesis
  proof
    assume "now \<le> fst (hd c)"
    moreover have "fst (hd c) \<le> fst e"
      using assms chop_subset [of now c] False by (cases c) auto
    ultimately show ?thesis by simp
  next
    assume d: "chop now c = dropWhile (\<lambda>e. fst e < now) c"
    then have ne: "dropWhile (\<lambda>e. fst e < now) c \<noteq> []"
      using assms(2) by (metis empty_iff empty_set)
    then have "\<not> fst (hd (chop now c)) < now" using hd_dropWhile [OF ne] d by simp
    moreover have "fst (hd (chop now c)) \<le> fst e"
      using s assms(2) by (cases "chop now c") auto
    ultimately show ?thesis by simp
  qed
qed

lemma el_inv_new [graft_inv]: "0 \<le> d \<Longrightarrow> el_inv now (new_ExpiringList d)"
  by (simp add: el_inv_def new_ExpiringList_def)

lemma el_inv_mono: "el_inv t l \<Longrightarrow> t \<le> t' \<Longrightarrow> el_inv t' l"
  by (fastforce simp: el_inv_def)

lemma el_inv_add [graft_inv]:
  assumes "el_inv t l" "t \<le> now" shows "el_inv now (el_add now k v l)"
proof -
  have "\<forall>e\<in>set (chop now (el_cont l)). fst e \<le> now + el_delta l"
    using assms chop_subset [of now "el_cont l"] by (fastforce simp: el_inv_def)
  with assms show ?thesis
    by (auto simp: el_inv_def el_add_def sorted_append chop_sorted)
qed

lemma el_inv_extract [graft_inv]:
  assumes "el_inv t l" "t \<le> now" shows "el_inv now (snd (el_extract now k l))"
proof -
  let ?c = "chop now (el_cont l)"
  let ?P = "\<lambda>e. fst (snd e) \<noteq> k"
  have s: "sorted (map fst ?c)" and d: "0 \<le> el_delta l" and b: "\<forall>e\<in>set ?c. fst e \<le> now + el_delta l"
    using assms chop_subset [of now "el_cont l"] by (fastforce simp: el_inv_def chop_sorted)+
  show ?thesis
  proof (cases "dropWhile ?P ?c")
    case Nil
    then have "snd (el_extract now k l) = (if el_cont l = [] then l else l\<lparr>el_cont := ?c\<rparr>)"
      by (simp add: el_extract_def Let_def del: dropWhile_eq_Nil_conv)
    then show ?thesis using el_inv_mono [OF assms] s b d by (simp add: el_inv_def)
  next
    case (Cons e rest)
    have split: "?c = takeWhile ?P ?c @ e # rest" using Cons by (metis takeWhile_dropWhile_id)
    have "subseq (takeWhile ?P ?c @ rest) (takeWhile ?P ?c @ e # rest)"
      by (intro list_emb_append_mono subseq_order.order_refl list_emb_Cons)
    then have "subseq (takeWhile ?P ?c @ rest) ?c" using split by argo
    then have "sorted (map fst (takeWhile ?P ?c @ rest))" "set (takeWhile ?P ?c @ rest) \<subseteq> set ?c"
      using s by (meson subseq_sorted subseq_map, meson subseq_imp_set_subset)
    moreover have "snd (el_extract now k l) =
        (if el_cont l = [] then l else l\<lparr>el_cont := takeWhile ?P ?c @ rest\<rparr>)"
      using Cons by (simp add: el_extract_def Let_def split: prod.split)
    ultimately show ?thesis using b d el_inv_mono [OF assms] by (auto simp: el_inv_def)
  qed
qed

text \<open>Entries under one key, when they are all the same.\<close>

definition only_entry :: "'k \<Rightarrow> int \<Rightarrow> 'v \<Rightarrow> ('k, 'v) ExpiringList \<Rightarrow> bool" where
  "only_entry k d v l \<longleftrightarrow> (\<forall>e\<in>set (el_cont l). fst (snd e) = k \<longrightarrow> e = (d, k, v))"

lemma only_entry_add_other:
  "only_entry k d v l \<Longrightarrow> k' \<noteq> k \<Longrightarrow> only_entry k d v (el_add now k' w l)"
  using chop_subset [of now "el_cont l"] by (fastforce simp: only_entry_def el_add_def)

lemma entry_survives_add:
  "el_inv t l \<Longrightarrow> (d, k, v) \<in> set (el_cont l) \<Longrightarrow> now < d \<Longrightarrow> (d, k, v) \<in> set (el_cont (el_add now k' w l))"
  by (auto simp: el_add_def el_inv_def chop_keeps_live)

lemma extract_only_entry:
  assumes inv: "el_inv t l" and only: "only_entry k d v l"
  shows "(d, k, v) \<in> set (el_cont l) \<Longrightarrow> now < d \<Longrightarrow> fst (el_extract now k l) = Some v"
    and "d < now \<Longrightarrow> fst (el_extract now k l) = None"
proof -
  let ?c = "chop now (el_cont l)"
  let ?P = "\<lambda>e. fst (snd e) \<noteq> k"
  have s: "sorted (map fst (el_cont l))" using inv by (simp add: el_inv_def)
  have hit: "e = (d, k, v)" if "e \<in> set ?c" "fst (snd e) = k" for e
    using only that chop_subset [of now "el_cont l"] by (auto simp: only_entry_def)
  show "fst (el_extract now k l) = Some v" if "(d, k, v) \<in> set (el_cont l)" "now < d"
  proof -
    have "(d, k, v) \<in> set ?c" using chop_keeps_live [OF s that(1)] that(2) by simp
    then have ne: "dropWhile ?P ?c \<noteq> []" by (simp add: dropWhile_eq_Nil_conv) force
    then obtain e r where er: "dropWhile ?P ?c = e # r" by (cases "dropWhile ?P ?c") auto
    then have "\<not> ?P e" "e \<in> set ?c"
      using hd_dropWhile [OF ne] set_dropWhileD [of e ?P ?c] by auto
    then have "e = (d, k, v)" using hit by simp
    with er that(1) show ?thesis by (auto simp: el_extract_def Let_def)
  qed
  show "fst (el_extract now k l) = None" if "d < now"
  proof -
    have "\<forall>e\<in>set ?c. ?P e" using hit chop_drops_dead [OF s] that by fastforce
    then have "dropWhile ?P ?c = []" by simp
    then show ?thesis by (simp add: el_extract_def Let_def del: dropWhile_eq_Nil_conv)
  qed
qed

section \<open>Properties\<close>

text \<open>The answers added after one another, each with the clock reading at its arrival.\<close>

definition el_adds :: "(int \<times> 'k \<times> 'v) list \<Rightarrow> ('k, 'v) ExpiringList \<Rightarrow> ('k, 'v) ExpiringList" where
  "el_adds = fold (\<lambda>(now, k, v). el_add now k v)"

lemma el_adds_keep:
  assumes "el_inv t l" "sorted (t # map fst xs)" "\<forall>x\<in>set xs. fst (snd x) \<noteq> k" "only_entry k d v l"
  shows "only_entry k d v (el_adds xs l) \<and> (\<exists>t'. el_inv t' (el_adds xs l)) \<and>
    ((d, k, v) \<in> set (el_cont l) \<and> (\<forall>x\<in>set xs. fst x < d) \<longrightarrow> (d, k, v) \<in> set (el_cont (el_adds xs l)))"
  using assms
proof (induction xs arbitrary: t l)
  case (Cons x xs)
  obtain n k' w where x: "x = (n, k', w)" by (cases x)
  let ?l = "el_add n k' w l"
  have "el_inv n ?l" using Cons.prems(1,2) x by (intro el_inv_add) auto
  moreover have "only_entry k d v ?l" using Cons.prems(3,4) x by (intro only_entry_add_other) auto
  moreover have "sorted (n # map fst xs)" using Cons.prems(2) x by simp
  ultimately show ?case
    using Cons.IH [of n ?l] Cons.prems(3) entry_survives_add [OF Cons.prems(1), of d k v n k' w] x
    by (simp add: el_adds_def)
qed (auto simp: el_adds_def)

text \<open>
  Early answers. An answer stored at time \<open>t\<close> for a task that is not postponed yet is
  found by the task, however many answers for others arrive in between, as long as the time
  to live has not passed; and once it has passed it is not found any more.
\<close>

theorem early_answer_found:
  assumes "el_inv t l" and "\<forall>e\<in>set (el_cont l). fst (snd e) \<noteq> k"
    and "sorted (t # map fst others @ [now])" and "\<forall>x\<in>set others. fst (snd x) \<noteq> k"
    and "r = fst (el_extract now k (el_adds others (el_add t k v l)))"
  shows "(now < t + el_delta l \<longrightarrow> r = Some v) \<and> (t + el_delta l < now \<longrightarrow> r = None)"
proof -
  let ?l = "el_add t k v l"
  let ?d = "t + el_delta l"
  have i: "el_inv t ?l" using assms(1) by (rule el_inv_add) simp
  have o: "only_entry k ?d v ?l"
    using assms(2) chop_subset [of t "el_cont l"] by (fastforce simp: only_entry_def el_add_def)
  have m: "(?d, k, v) \<in> set (el_cont ?l)" by (simp add: el_add_def)
  have s: "sorted (t # map fst others)" and le: "\<forall>x\<in>set others. fst x \<le> now"
    using assms(3) by (auto simp: sorted_append)
  from el_adds_keep [OF i s assms(4) o] obtain t' where
    k: "only_entry k ?d v (el_adds others ?l)" "el_inv t' (el_adds others ?l)"
      "(\<forall>x\<in>set others. fst x < ?d) \<longrightarrow> (?d, k, v) \<in> set (el_cont (el_adds others ?l))"
    using m by auto
  from extract_only_entry [OF k(2,1), of now] k(3) le assms(5) show ?thesis by fastforce
qed

theorem early_answer_found_witness:
  "fst (el_extract 17 ''a'' (el_adds [(12, ''b'', 2)] (el_add 10 ''a'' (1::nat) (new_ExpiringList 20)))) = Some 1"
  using early_answer_found [where t = 10 and l = "new_ExpiringList 20" and k = "''a''" and
      others = "[(12, ''b'', 2::nat)]" and now = 17 and v = 1, OF _ _ _ _ refl]
  by (simp add: el_inv_def new_ExpiringList_def)

end
