(* ===== verification/Task_Model.thy ===== *)
theory Task_Model
  imports State_Machine Inout Upstream_Manager Expiring_List
begin

text \<open>
  Tasks and the operations of \<^verbatim>\<open>TaskManager\<close> on one task (src/lib/graft/task.cpp,
  include/lib/graft/task.h), with \<^verbatim>\<open>ConnectionManager::respond\<close> and
  \<^verbatim>\<open>UpstreamSender::send\<close> (src/lib/graft/connection.cpp), the timer list
  (include/lib/graft/timer.h) and the counters (include/lib/graft/sys\_info.h).

  \<^item> A \<^verbatim>\<open>BaseTaskPtr\<close> is a number that names a task of \<open>tm_tasks\<close>; \<open>t_self\<close> says whether the
    task still holds itself (\<^verbatim>\<open>SelfHolder\<close>).
  \<^item> A route handler is a function from its arguments, the local context and the global
    context to what it returns or throws. An exception of a handler ends the program; it is
    the left value of the result.
  \<^item> The record \<open>tm_env\<close> holds what the code draws from outside: uuids, random numbers,
    pointers of new connections, and mongoose's URI parser. \<open>tm_draws\<close> counts the draws.
  \<^item> The steady clock is \<open>tm_now\<close>, in nanoseconds; timers count milliseconds.
  \<^item> What is sent to the network is appended to \<open>tm_out\<close>.
\<close>

section \<open>Context of a task\<close>

type_synonym uuid = "128 word"
type_synonym task_id = nat

record 'l Ctx =
  ctx_local :: 'l
  m_last_status :: Status
  m_error :: string
  m_uuid :: uuid
  m_nextUuid :: uuid
  m_setXCallbackHeader :: bool

definition new_Ctx :: "'l \<Rightarrow> 'l Ctx" where
  "new_Ctx l = \<lparr>ctx_local = l, m_last_status = StNone, m_error = [], m_uuid = 0, m_nextUuid = 0,
     m_setXCallbackHeader = False\<rparr>"

definition setError_ctx :: "string \<Rightarrow> Status \<Rightarrow> 'l Ctx \<Rightarrow> 'l Ctx" where
  "setError_ctx str status c = c\<lparr>m_error := str, m_last_status := status\<rparr>"

type_synonym vars_t = "(string \<times> string) list"

datatype ('l, 'g) handler_result =
    Returned Status "'l Ctx" 'g Output
  | Raised string

type_synonym ('l, 'g) Handler = "vars_t \<Rightarrow> Input \<Rightarrow> 'l Ctx \<Rightarrow> 'g \<Rightarrow> Output \<Rightarrow> ('l, 'g) handler_result"

record ('l, 'g) Handler3 =
  pre_action :: "('l, 'g) Handler option"
  worker_action :: "('l, 'g) Handler option"
  post_action :: "('l, 'g) Handler option"
  h3_name :: string

definition h3_flags_of :: "('l, 'g) Handler3 \<Rightarrow> h3_flags" where
  "h3_flags_of h = \<lparr>has_pre = (pre_action h \<noteq> None), has_worker = (worker_action h \<noteq> None),
     has_post = (post_action h \<noteq> None)\<rparr>"

section \<open>Tasks\<close>

record periodic_params =
  m_timeout_ms :: int
  m_initial_timeout_ms :: int
  m_random_factor :: rat
  m_initial_run :: bool

text \<open>
  \<open>ClientTask c\<close>: \<open>c\<close> is \<open>m_client\<close>, \<open>None\<close> once answered or closed. \<open>UpstreamTask out\<close>:
  \<open>out\<close> is the output in \<open>m_pi\<close>.
\<close>

datatype task_kind = ClientTask "nat option" | PeriodicTask periodic_params | UpstreamTask Output

record ('l, 'g) Task =
  t_kind :: task_kind
  t_input :: Input
  t_vars :: vars_t
  t_h3 :: "('l, 'g) Handler3"
  t_output :: Output
  t_ctx :: "'l Ctx"
  t_self :: bool

definition new_Task :: "task_kind \<Rightarrow> Input \<Rightarrow> vars_t \<Rightarrow> ('l, 'g) Handler3 \<Rightarrow> 'l \<Rightarrow> ('l, 'g) Task" where
  "new_Task k i v h l = \<lparr>t_kind = k, t_input = i, t_vars = v, t_h3 = h, t_output = empty_Output,
     t_ctx = new_Ctx l, t_self = True\<rparr>"

abbreviation t_status :: "('l, 'g) Task \<Rightarrow> Status" where
  "t_status t \<equiv> m_last_status (t_ctx t)"

definition setLastStatus :: "Status \<Rightarrow> ('l, 'g) Task \<Rightarrow> ('l, 'g) Task" where
  "setLastStatus s t = t\<lparr>t_ctx := (t_ctx t)\<lparr>m_last_status := s\<rparr>\<rparr>"

definition setError :: "string \<Rightarrow> Status \<Rightarrow> ('l, 'g) Task \<Rightarrow> ('l, 'g) Task" where
  "setError str s t = t\<lparr>t_ctx := setError_ctx str s (t_ctx t)\<rparr>"

section \<open>The manager's state\<close>

datatype SysCounter =
    HttpReqTotal | HttpReqRouted | HttpReqUnrouted
  | HttpRespOk | HttpRespError | HttpRespDrop | HttpRespBusy
  | HttpReqBytes | HttpRespBytes | UpstrmReq | UpstrmRespOk | UpstrmRespErr
  | UpstrmReqBytes | UpstrmRespBytes

datatype out_event =
    SendReply nat int string
  | SendErrorReply nat int string
  | FinishClient nat
  | SendUpstream task_id string string string

record timer =
  tm_lap :: int
  tm_timeout :: int
  tm_ptr :: task_id

record ('l, 'g) TaskManager =
  tm_tasks :: "task_id \<Rightarrow> ('l, 'g) Task"
  tm_next :: task_id
  m_gcm :: 'g
  m_cntBaseTask :: u64
  m_cntBaseTaskDone :: u64
  m_cntJobSent :: u64
  m_cntJobDone :: u64
  m_threadPoolInputSize :: u64
  tm_jobs :: "task_id list"
  m_resQueue :: "task_id list"
  m_timerList :: "timer list"
  m_postponedTasks :: "uuid \<rightharpoonup> task_id"
  m_readyToResume :: "task_id list"
  m_expireTaskQueue :: "(int \<times> uuid) list"
  m_futurePostponeUuids :: "(uuid, Input) ExpiringList"
  m_upstreamManager :: "task_id UpstreamManager"
  tm_senders :: "task_id usender list"
  tm_promises :: "(task_id \<times> (string + Input)) list"
  m_sysInfo :: "SysCounter \<Rightarrow> u64"
  tm_now :: int
  tm_draws :: nat
  tm_out :: "out_event list"

record tm_env =
  env_uuid :: "nat \<Rightarrow> uuid"
  env_random :: "nat \<Rightarrow> int \<Rightarrow> int \<Rightarrow> int"
  env_connect :: "nat \<Rightarrow> nat"
  env_parse_uri :: "string \<Rightarrow> uri_parts option"
  env_uuid_string :: "uuid \<Rightarrow> string"
  env_find_callback :: "(string \<times> string) list \<Rightarrow> nat option"
  opt_http_address :: string
  opt_connection_timeout :: int

datatype tm_error =
    HandlerException string
  | TableNotComplete SmState Status
  | UpstreamFailure um_error

type_synonym ('l, 'g) tm_result = "tm_error + ('l, 'g) TaskManager"

definition upd_task ::
  "task_id \<Rightarrow> (('l, 'g) Task \<Rightarrow> ('l, 'g) Task) \<Rightarrow> ('l, 'g) TaskManager \<Rightarrow> ('l, 'g) TaskManager" where
  "upd_task bt f tm = tm\<lparr>tm_tasks := (tm_tasks tm)(bt := f (tm_tasks tm bt))\<rparr>"

definition count_by :: "SysCounter \<Rightarrow> u64 \<Rightarrow> ('l, 'g) TaskManager \<Rightarrow> ('l, 'g) TaskManager" where
  "count_by c n tm = tm\<lparr>m_sysInfo := (m_sysInfo tm)(c := m_sysInfo tm c + n)\<rparr>"

text \<open>The byte counters take a \<^verbatim>\<open>u32\<close>.\<close>

definition byte_delta :: "nat \<Rightarrow> u64" where
  "byte_delta n = ucast (of_nat n :: u32)"

definition emit :: "out_event \<Rightarrow> ('l, 'g) TaskManager \<Rightarrow> ('l, 'g) TaskManager" where
  "emit e tm = tm\<lparr>tm_out := tm_out tm @ [e]\<rparr>"

text \<open>\<open>getId\<close>: a nil uuid is replaced by a random one when asked for.\<close>

definition getId :: "tm_env \<Rightarrow> task_id \<Rightarrow> ('l, 'g) TaskManager \<Rightarrow> uuid \<times> ('l, 'g) TaskManager" where
  "getId E bt tm =
     (let u = m_uuid (t_ctx (tm_tasks tm bt)) in
      if u = 0 then
        let u' = env_uuid E (tm_draws tm) in
        (u', (upd_task bt (\<lambda>t. t\<lparr>t_ctx := (t_ctx t)\<lparr>m_uuid := u'\<rparr>\<rparr>) tm)\<lparr>tm_draws := tm_draws tm + 1\<rparr>)
      else (u, tm))"

section \<open>Timers\<close>

fun pq_insert :: "timer \<Rightarrow> timer list \<Rightarrow> timer list" where
  "pq_insert t [] = [t]"
| "pq_insert t (x # xs) = (if tm_lap t < tm_lap x then t # x # xs else x # pq_insert t xs)"

definition now_ms :: "('l, 'g) TaskManager \<Rightarrow> int" where
  "now_ms tm = tm_now tm div 1000000"

definition timer_push :: "int \<Rightarrow> task_id \<Rightarrow> ('l, 'g) TaskManager \<Rightarrow> ('l, 'g) TaskManager" where
  "timer_push timeout ptr tm =
     tm\<lparr>m_timerList := pq_insert \<lparr>tm_lap = now_ms tm + timeout, tm_timeout = timeout, tm_ptr = ptr\<rparr>
          (m_timerList tm)\<rparr>"

definition timer_fired :: "('l, 'g) TaskManager \<Rightarrow> timer \<Rightarrow> bool" where
  "timer_fired tm t \<longleftrightarrow> tm_lap t \<le> now_ms tm"

text \<open>
  \<open>getTimeout\<close> and \<open>schedule\<close>. The product with the random factor is a \<^verbatim>\<open>double\<close> in the code;
  it is computed exactly here and rounded towards zero at the end.
\<close>

definition getTimeout ::
  "tm_env \<Rightarrow> nat \<Rightarrow> periodic_params \<Rightarrow> int \<times> periodic_params \<times> nat" where
  "getTimeout E draws p =
     (if m_initial_run p then (m_initial_timeout_ms p, p\<lparr>m_initial_run := False\<rparr>, draws)
      else if m_random_factor p < 1 / 10000 then (m_timeout_ms p, p, draws)
      else (env_random E draws (m_timeout_ms p)
              \<lfloor>of_int (m_timeout_ms p) * (1 + m_random_factor p)\<rfloor>, p, draws + 1))"

definition schedule :: "tm_env \<Rightarrow> task_id \<Rightarrow> ('l, 'g) TaskManager \<Rightarrow> ('l, 'g) TaskManager" where
  "schedule E bt tm =
     (case t_kind (tm_tasks tm bt) of
        PeriodicTask p \<Rightarrow>
          (case getTimeout E (tm_draws tm) p of
             (timeout, p', draws) \<Rightarrow>
               timer_push timeout bt
                 ((upd_task bt (\<lambda>t. t\<lparr>t_kind := PeriodicTask p'\<rparr>) tm)\<lparr>tm_draws := draws\<rparr>))
      | _ \<Rightarrow> tm)"

definition releaseItself :: "task_id \<Rightarrow> ('l, 'g) TaskManager \<Rightarrow> ('l, 'g) TaskManager" where
  "releaseItself bt = upd_task bt (\<lambda>t. t\<lparr>t_self := False\<rparr>)"

definition finalize :: "tm_env \<Rightarrow> task_id \<Rightarrow> ('l, 'g) TaskManager \<Rightarrow> ('l, 'g) TaskManager" where
  "finalize E bt tm =
     (case t_kind (tm_tasks tm bt) of
        PeriodicTask _ \<Rightarrow>
          if t_status (tm_tasks tm bt) = StStop then releaseItself bt tm else schedule E bt tm
      | _ \<Rightarrow> releaseItself bt tm)"

section \<open>Answering a client\<close>

definition onClientDone :: "('l, 'g) TaskManager \<Rightarrow> ('l, 'g) TaskManager" where
  "onClientDone tm = tm\<lparr>m_cntBaseTaskDone := m_cntBaseTaskDone tm + 1\<rparr>"

text \<open>Status code and counter; the default branch only asserts, and sends code 0.\<close>

fun resp_code_of :: "Status \<Rightarrow> int \<times> SysCounter option" where
  "resp_code_of StAgain = (200, Some HttpRespOk)"
| "resp_code_of StOk = (200, Some HttpRespOk)"
| "resp_code_of StInternalError = (500, Some HttpRespError)"
| "resp_code_of StError = (500, Some HttpRespError)"
| "resp_code_of StBusy = (503, Some HttpRespBusy)"
| "resp_code_of StDrop = (400, Some HttpRespDrop)"
| "resp_code_of _ = (0, None)"

definition respond_send ::
  "nat \<Rightarrow> Status \<Rightarrow> string \<Rightarrow> ('l, 'g) TaskManager \<Rightarrow> ('l, 'g) TaskManager" where
  "respond_send client status s tm =
     (case resp_code_of status of
        (code, cnt) \<Rightarrow>
          (let tm1 = (case cnt of None \<Rightarrow> tm | Some c \<Rightarrow> count_by c 1 tm) in
           if status = StOk then count_by HttpRespBytes (byte_delta (length s)) (emit (SendReply client code s) tm1)
           else emit (SendErrorReply client code s) tm1))"

text \<open>
  \<open>FinishClient\<close> is what the reply does to the connection of the client: the flag to close it once everything is sent, and the empty handler of its events.
\<close>

definition respond :: "task_id \<Rightarrow> string \<Rightarrow> ('l, 'g) TaskManager \<Rightarrow> ('l, 'g) TaskManager" where
  "respond ct s tm =
     (let status = t_status (tm_tasks tm ct) in
      case t_kind (tm_tasks tm ct) of
        ClientTask None \<Rightarrow> if status \<noteq> StAgain then onClientDone tm else tm
      | ClientTask (Some client) \<Rightarrow>
          (let tm1 = emit (FinishClient client) (respond_send client status s tm);
               tm2 = (if status \<noteq> StAgain then onClientDone tm1 else tm1)
           in upd_task ct (\<lambda>t. t\<lparr>t_kind := ClientTask None\<rparr>) tm2)
      | _ \<Rightarrow> tm)"

definition respondAndDie ::
  "tm_env \<Rightarrow> task_id \<Rightarrow> string \<Rightarrow> bool \<Rightarrow> ('l, 'g) TaskManager \<Rightarrow> ('l, 'g) TaskManager" where
  "respondAndDie E bt s die tm =
     (let tm1 = (case t_kind (tm_tasks tm bt) of ClientTask _ \<Rightarrow> respond bt s tm | _ \<Rightarrow> tm);
          u = m_uuid (t_ctx (tm_tasks tm1 bt));
          tm2 = (if u \<noteq> 0 then tm1\<lparr>m_postponedTasks := (m_postponedTasks tm1)(u := None)\<rparr> else tm1)
      in if die then finalize E bt tm2 else tm2)"

section \<open>Requests to the cryptonode\<close>

text \<open>
  \<^verbatim>\<open>UpstreamSender::send\<close>. The predicate that looks for an existing \<^verbatim>\<open>X-Callback\<close> header
  has no return statement, so which header it finds is not determined by the source: it is
  \<open>env_find_callback\<close>.
\<close>

definition callback_header :: "tm_env \<Rightarrow> uuid \<Rightarrow> string" where
  "callback_header E u =
     ''http://0.0.0.0:'' @
     nat_to_string (case env_parse_uri E (opt_http_address E) of None \<Rightarrow> 0 | Some p \<Rightarrow> unat (up_port p)) @
     ''/callback/'' @ env_uuid_string E u"

definition set_callback :: "tm_env \<Rightarrow> string \<Rightarrow> (string \<times> string) list \<Rightarrow> (string \<times> string) list" where
  "set_callback E v hs =
     (case env_find_callback E hs of
        Some i \<Rightarrow> if i < length hs then hs[i := (fst (hs ! i), v)] else hs @ [(''X-Callback'', v)]
      | None \<Rightarrow> hs @ [(''X-Callback'', v)])"

definition us_send ::
  "tm_env \<Rightarrow> task_id usender \<Rightarrow> ('l, 'g) TaskManager \<Rightarrow> ('l, 'g) TaskManager" where
  "us_send E us tm =
     (let bt = us_task us;
          url = makeUri (env_parse_uri E) (t_output (tm_tasks tm bt)) (us_uri us);
          tm1 = (if m_setXCallbackHeader (t_ctx (tm_tasks tm bt)) then
                   (case getId E bt (upd_task bt (\<lambda>t. t\<lparr>t_ctx := (t_ctx t)\<lparr>m_setXCallbackHeader := False\<rparr>\<rparr>) tm) of
                      (u, tm') \<Rightarrow>
                        upd_task bt (\<lambda>t. t\<lparr>t_output := (t_output t)\<lparr>headers :=
                           set_callback E (callback_header E u) (headers (t_output t))\<rparr>\<rparr>) tm')
                 else tm);
          eh0 = combine_headers (t_output (tm_tasks tm1 bt));
          eh = (if eh0 = [] then ''Content-Type: application/json'' @ CRLF else eh0);
          b = body (t_output (tm_tasks tm1 bt));
          (up, tm2) = (case us_upstream us of
                         Some c \<Rightarrow> (c, tm1)
                       | None \<Rightarrow> (env_connect E (tm_draws tm1), tm1\<lparr>tm_draws := tm_draws tm1 + 1\<rparr>));
          tm3 = emit (SendUpstream bt url eh b) tm2
      in (count_by UpstrmReqBytes (byte_delta (length url + length eh + length b)) (count_by UpstrmReq 1 tm3))
           \<lparr>tm_senders := tm_senders tm2 @ [us\<lparr>us_upstream := Some up\<rparr>]\<rparr>)"

definition out_uri_of :: "('l, 'g) TaskManager \<Rightarrow> task_id \<Rightarrow> string" where
  "out_uri_of tm bt = uri (t_output (tm_tasks tm bt))"

definition start_sender ::
  "tm_env \<Rightarrow> task_id usender option \<times> task_id UpstreamManager \<Rightarrow> ('l, 'g) TaskManager \<Rightarrow> ('l, 'g) TaskManager" where
  "start_sender E r tm =
     (let tm1 = tm\<lparr>m_upstreamManager := snd r\<rparr> in
      case fst r of None \<Rightarrow> tm1 | Some us \<Rightarrow> us_send E us tm1)"

definition sendUpstream :: "tm_env \<Rightarrow> task_id \<Rightarrow> ('l, 'g) TaskManager \<Rightarrow> ('l, 'g) tm_result" where
  "sendUpstream E bt tm =
     (case um_send (out_uri_of tm) bt (m_upstreamManager tm) of
        Inl e \<Rightarrow> Inl (UpstreamFailure e)
      | Inr r \<Rightarrow> Inr (start_sender E r tm))"

definition processForward :: "tm_env \<Rightarrow> task_id \<Rightarrow> ('l, 'g) TaskManager \<Rightarrow> ('l, 'g) tm_result" where
  "processForward E bt tm = sendUpstream E bt tm"

section \<open>Running the handlers\<close>

definition checkThreadPoolOverflow ::
  "tm_env \<Rightarrow> task_id \<Rightarrow> ('l, 'g) TaskManager \<Rightarrow> ('l, 'g) TaskManager" where
  "checkThreadPoolOverflow E bt tm =
     (if worker_action (t_h3 (tm_tasks tm bt)) \<noteq> None \<and>
         m_cntJobSent tm - m_cntJobDone tm = m_threadPoolInputSize tm
      then respondAndDie E bt ''Thread pool overflow'' True
             (upd_task bt (setError ''Service Unavailable'' StBusy) tm)
      else tm)"

text \<open>The handler call the three \<open>run\<close> operations share.\<close>

definition call_handler ::
  "('l, 'g) Handler \<Rightarrow> task_id \<Rightarrow> (Status \<Rightarrow> ('l, 'g) Task \<Rightarrow> ('l, 'g) Task)
     \<Rightarrow> ('l, 'g) TaskManager \<Rightarrow> ('l, 'g) tm_result" where
  "call_handler h bt after tm =
     (let t = tm_tasks tm bt in
      case h (t_vars t) (t_input t) (t_ctx t) (m_gcm tm) (t_output t) of
        Raised e \<Rightarrow> Inl (HandlerException e)
      | Returned status c g out \<Rightarrow>
          Inr ((upd_task bt (\<lambda>_. after status (t\<lparr>t_ctx := c, t_output := out\<rparr>)) tm)\<lparr>m_gcm := g\<rparr>))"

definition take_output :: "bool \<Rightarrow> ('l, 'g) Task \<Rightarrow> ('l, 'g) Task" where
  "take_output b t = (if b then t\<lparr>t_input := assign_input (t_output t) (t_input t)\<rparr> else t)"

definition runPreAction :: "task_id \<Rightarrow> ('l, 'g) TaskManager \<Rightarrow> ('l, 'g) tm_result" where
  "runPreAction bt tm =
     (let h3 = t_h3 (tm_tasks tm bt) in
      case pre_action h3 of
        None \<Rightarrow> Inr tm
      | Some h \<Rightarrow>
          call_handler h bt
            (\<lambda>status t. take_output
               (status = StOk \<and> (worker_action h3 \<noteq> None \<or> post_action h3 \<noteq> None) \<or> status = StForward)
               (setLastStatus status t)) tm)"

definition runWorkerAction :: "task_id \<Rightarrow> ('l, 'g) TaskManager \<Rightarrow> ('l, 'g) TaskManager" where
  "runWorkerAction bt tm =
     (if worker_action (t_h3 (tm_tasks tm bt)) \<noteq> None
      then tm\<lparr>m_cntJobSent := m_cntJobSent tm + 1, tm_jobs := tm_jobs tm @ [bt]\<rparr>
      else tm)"

definition runWorkerActionFromTheThreadPool :: "task_id \<Rightarrow> ('l, 'g) TaskManager \<Rightarrow> ('l, 'g) tm_result" where
  "runWorkerActionFromTheThreadPool bt tm =
     (let h3 = t_h3 (tm_tasks tm bt) in
      case worker_action h3 of
        None \<Rightarrow> Inl (HandlerException ''bad_function_call'')
      | Some h \<Rightarrow>
          call_handler h bt
            (\<lambda>status t. take_output (status = StOk \<and> post_action h3 \<noteq> None \<or> status = StForward)
               (setLastStatus status t)) tm)"

text \<open>A job of the pool: the worker action, then the task goes to the result queue.\<close>

definition graft_job :: "task_id \<Rightarrow> ('l, 'g) TaskManager \<Rightarrow> ('l, 'g) tm_result" where
  "graft_job bt tm =
     (case runWorkerActionFromTheThreadPool bt tm of
        Inl e \<Rightarrow> Inl e
      | Inr tm' \<Rightarrow> Inr (tm'\<lparr>tm_jobs := remove1 bt (tm_jobs tm'), m_resQueue := m_resQueue tm' @ [bt]\<rparr>))"

text \<open>
  After Forward from an earlier handler the post action runs, but its status is ignored;
  what it did to the context and the output stays.
\<close>

definition runPostAction :: "task_id \<Rightarrow> ('l, 'g) TaskManager \<Rightarrow> ('l, 'g) tm_result" where
  "runPostAction bt tm =
     (case post_action (t_h3 (tm_tasks tm bt)) of
        None \<Rightarrow> Inr tm
      | Some h \<Rightarrow>
          call_handler h bt
            (\<lambda>status t. if t_status t \<noteq> StForward
                           then take_output (status = StForward) (setLastStatus status t) else t) tm)"

section \<open>Postponed tasks\<close>

fun expire_insert :: "int \<times> uuid \<Rightarrow> (int \<times> uuid) list \<Rightarrow> (int \<times> uuid) list" where
  "expire_insert p [] = [p]"
| "expire_insert p (q # qs) =
     (if fst q < fst p \<or> fst q = fst p \<and> snd q \<le> snd p then p # q # qs else q # expire_insert p qs)"

definition postponeTask :: "tm_env \<Rightarrow> task_id \<Rightarrow> ('l, 'g) TaskManager \<Rightarrow> ('l, 'g) TaskManager" where
  "postponeTask E bt tm =
     (case getId E bt tm of
        (u, tm1) \<Rightarrow>
          (case el_extract (tm_now tm1) u (m_futurePostponeUuids tm1) of
             (Some i, fut) \<Rightarrow>
               (upd_task bt (\<lambda>t. t\<lparr>t_input := i\<rparr>) tm1)
                 \<lparr>m_futurePostponeUuids := fut, m_readyToResume := m_readyToResume tm1 @ [bt]\<rparr>
           | (None, fut) \<Rightarrow>
               tm1\<lparr>m_futurePostponeUuids := fut,
                   m_postponedTasks := (m_postponedTasks tm1)(u \<mapsto> bt),
                   m_expireTaskQueue :=
                     expire_insert (tm_now tm1 + opt_connection_timeout E, u) (m_expireTaskQueue tm1)\<rparr>))"

definition processOk :: "tm_env \<Rightarrow> task_id \<Rightarrow> ('l, 'g) TaskManager \<Rightarrow> ('l, 'g) TaskManager" where
  "processOk E bt tm =
     (let nextUuid = m_nextUuid (t_ctx (tm_tasks tm bt));
          tm1 =
            (if nextUuid = 0 then tm
             else case m_postponedTasks tm nextUuid of
                    None \<Rightarrow>
                      tm\<lparr>m_futurePostponeUuids :=
                           el_add (tm_now tm) nextUuid (t_input (tm_tasks tm bt)) (m_futurePostponeUuids tm)\<rparr>
                  | Some bt_next \<Rightarrow>
                      (upd_task bt_next (\<lambda>t. t\<lparr>t_input := t_input (tm_tasks tm bt)\<rparr>) tm)
                        \<lparr>m_readyToResume := m_readyToResume tm @ [bt_next],
                         m_postponedTasks := (m_postponedTasks tm)(nextUuid := None)\<rparr>)
      in respondAndDie E bt (body (t_output (tm_tasks tm1 bt))) True tm1)"

end
