(* ===== verification/Task_Manager.thy ===== *)
theory Task_Manager
  imports Task_Model
begin

text \<open>
  The control of \<^verbatim>\<open>TaskManager\<close> (src/lib/graft/task.cpp): the state machine at work on a
  task, the events that start it, the loop over postponed tasks, and the sizes of the thread
  pool. A dispatch may go on for ever (a handler that always returns Again), so the loops take
  fuel: \<open>None\<close> is a loop that is still running.
\<close>

section \<open>One transition and the dispatch loop\<close>

fun run_action :: "tm_env \<Rightarrow> SmAction \<Rightarrow> task_id \<Rightarrow> ('l, 'g) TaskManager \<Rightarrow> ('l, 'g) tm_result" where
  "run_action E NoAction bt tm = Inr tm"
| "run_action E RunForward bt tm = processForward E bt tm"
| "run_action E RunResponse bt tm = Inr (respondAndDie E bt (body (t_output (tm_tasks tm bt))) False tm)"
| "run_action E RunErrorResponse bt tm = Inr (respondAndDie E bt (body (t_output (tm_tasks tm bt))) True tm)"
| "run_action E RunDrop bt tm = Inr (respondAndDie E bt ''Job done Drop.'' True tm)"
| "run_action E RunOkResponse bt tm = Inr (processOk E bt tm)"
| "run_action E RunPostpone bt tm = Inr (postponeTask E bt tm)"
| "run_action E CheckOverflow bt tm = Inr (checkThreadPoolOverflow E bt tm)"
| "run_action E RunPreaction bt tm = runPreAction bt tm"
| "run_action E RunWorkeraction bt tm = Inr (runWorkerAction bt tm)"
| "run_action E RunPostaction bt tm = runPostAction bt tm"

abbreviation tm_status :: "task_id \<Rightarrow> ('l, 'g) TaskManager \<Rightarrow> Status" where
  "tm_status bt tm \<equiv> t_status (tm_tasks tm bt)"

abbreviation tm_flags :: "task_id \<Rightarrow> ('l, 'g) TaskManager \<Rightarrow> h3_flags" where
  "tm_flags bt tm \<equiv> h3_flags_of (t_h3 (tm_tasks tm bt))"

definition process ::
  "tm_env \<Rightarrow> task_id \<Rightarrow> SmState \<Rightarrow> ('l, 'g) TaskManager \<Rightarrow> tm_error + (SmState \<times> ('l, 'g) TaskManager)" where
  "process E bt m_state tm =
     (case find_row m_state (tm_status bt tm) (tm_flags bt tm) of
        None \<Rightarrow> Inl (TableNotComplete m_state (tm_status bt tm))
      | Some r \<Rightarrow>
          (case run_action E (smAction r) bt tm of
             Inl e \<Rightarrow> Inl e
           | Inr tm' \<Rightarrow> Inr (smStateEnd r, tm')))"

fun dispatch ::
  "tm_env \<Rightarrow> nat \<Rightarrow> task_id \<Rightarrow> SmState \<Rightarrow> ('l, 'g) TaskManager \<Rightarrow> ('l, 'g) tm_result option" where
  "dispatch E n bt EXIT tm = Some (Inr tm)"
| "dispatch E 0 bt st tm = None"
| "dispatch E (Suc n) bt st tm =
     (case process E bt st tm of
        Inl e \<Rightarrow> Some (Inl e)
      | Inr (st', tm') \<Rightarrow> dispatch E n bt st' tm')"

definition Execute :: "tm_env \<Rightarrow> nat \<Rightarrow> task_id \<Rightarrow> ('l, 'g) TaskManager \<Rightarrow> ('l, 'g) tm_result option" where
  "Execute E n bt tm = dispatch E n bt EXECUTE tm"

section \<open>Events\<close>

text \<open>Creation of a task (\<^verbatim>\<open>BaseTask::Create\<close>).\<close>

definition create_task :: "('l, 'g) Task \<Rightarrow> ('l, 'g) TaskManager \<Rightarrow> task_id \<times> ('l, 'g) TaskManager" where
  "create_task t tm = (tm_next tm, tm\<lparr>tm_tasks := (tm_tasks tm)(tm_next tm := t), tm_next := tm_next tm + 1\<rparr>)"

definition onNewClient :: "tm_env \<Rightarrow> nat \<Rightarrow> task_id \<Rightarrow> ('l, 'g) TaskManager \<Rightarrow> ('l, 'g) tm_result option" where
  "onNewClient E n bt tm = Execute E n bt (tm\<lparr>m_cntBaseTask := m_cntBaseTask tm + 1\<rparr>)"

definition onTimer :: "tm_env \<Rightarrow> nat \<Rightarrow> task_id \<Rightarrow> ('l, 'g) TaskManager \<Rightarrow> ('l, 'g) tm_result option" where
  "onTimer E n bt tm = Execute E n bt (upd_task bt (setLastStatus StNone) tm)"

definition onClientClose :: "task_id \<Rightarrow> ('l, 'g) TaskManager \<Rightarrow> ('l, 'g) TaskManager" where
  "onClientClose bt = upd_task bt (\<lambda>t. t\<lparr>t_kind := ClientTask None\<rparr>)"

definition addPeriodicTask ::
  "tm_env \<Rightarrow> ('l, 'g) Handler3 \<Rightarrow> 'l \<Rightarrow> int \<Rightarrow> int option \<Rightarrow> rat \<Rightarrow> ('l, 'g) TaskManager \<Rightarrow> ('l, 'g) TaskManager" where
  "addPeriodicTask E h3 l interval_ms initial_interval_ms random_factor tm =
     (let initial = (case initial_interval_ms of None \<Rightarrow> interval_ms | Some i \<Rightarrow> i) in
      case create_task (new_Task (PeriodicTask \<lparr>m_timeout_ms = interval_ms, m_initial_timeout_ms = initial,
               m_random_factor = random_factor, m_initial_run = True\<rparr>) empty_Input [] h3 l) tm of
        (bt, tm') \<Rightarrow> schedule E bt tm')"

definition tryProcessReadyJob ::
  "tm_env \<Rightarrow> nat \<Rightarrow> ('l, 'g) TaskManager \<Rightarrow> (bool \<times> ('l, 'g) tm_result) option" where
  "tryProcessReadyJob E n tm =
     (case m_resQueue tm of
        [] \<Rightarrow> Some (False, Inr tm)
      | bt # q \<Rightarrow>
          map_option (Pair True)
            (dispatch E n bt WORKER_ACTION_DONE (tm\<lparr>m_resQueue := q, m_cntJobDone := m_cntJobDone tm + 1\<rparr>)))"

fun cb_event :: "tm_env \<Rightarrow> nat \<Rightarrow> nat \<Rightarrow> ('l, 'g) TaskManager \<Rightarrow> ('l, 'g) tm_result option" where
  "cb_event E n 0 tm = None"
| "cb_event E n (Suc k) tm =
     (case tryProcessReadyJob E n tm of
        None \<Rightarrow> None
      | Some (False, r) \<Rightarrow> Some r
      | Some (True, Inl e) \<Rightarrow> Some (Inl e)
      | Some (True, Inr tm') \<Rightarrow> cb_event E n k tm')"

text \<open>
  \<open>upstreamDoneProcess\<close>: a blocking request fulfils its promise; an error answers the client;
  an answer runs the task again, unless the task has let itself go.
\<close>

definition upstreamDoneProcess ::
  "tm_env \<Rightarrow> nat \<Rightarrow> task_id usender \<Rightarrow> Status \<Rightarrow> string \<Rightarrow> ('l, 'g) TaskManager \<Rightarrow> ('l, 'g) tm_result option" where
  "upstreamDoneProcess E n us status err tm =
     (let tm1 = count_by (if status = StOk then UpstrmRespOk else UpstrmRespErr) 1 tm;
          bt = us_task us
      in case t_kind (tm_tasks tm1 bt) of
           UpstreamTask _ \<Rightarrow>
             Some (Inr (tm1\<lparr>tm_promises := tm_promises tm1 @
               [(bt, if status = StOk then Inr (t_input (tm_tasks tm1 bt)) else Inl err)]\<rparr>))
         | _ \<Rightarrow>
             if status \<noteq> StOk then
               let tm2 = upd_task bt (setError err status) tm1 in
               Some (Inr (respondAndDie E bt (body (t_output (tm_tasks tm2 bt))) True tm2))
             else if \<not> t_self (tm_tasks tm1 bt) then Some (Inr tm1)
             else Execute E n bt tm1)"

text \<open>An event of an upstream connection, with the reply for \<open>EvHttpReply\<close>; \<^verbatim>\<open>onDone\<close> as a whole.\<close>

definition onUpstreamEvent ::
  "tm_env \<Rightarrow> nat \<Rightarrow> task_id usender \<Rightarrow> us_event \<Rightarrow> Input \<Rightarrow> nat \<Rightarrow> ('l, 'g) TaskManager \<Rightarrow> ('l, 'g) tm_result option" where
  "onUpstreamEvent E n us ev reply msg_len tm =
     (case ev_handler_us us ev of
        (status, err, client) \<Rightarrow>
          (let tm1 = (if ev = EvHttpReply then
                        count_by UpstrmRespBytes (byte_delta msg_len)
                          (upd_task (us_task us) (\<lambda>t. t\<lparr>t_input := reply\<rparr>) tm)
                      else tm);
               tm2 = tm1\<lparr>tm_senders := remove1 us (tm_senders tm1),
                         m_upstreamManager := um_done (m_upstreamManager tm1)\<rparr>
           in case upstreamDoneProcess E n us status err tm2 of
                None \<Rightarrow> None
              | Some (Inl e) \<Rightarrow> Some (Inl e)
              | Some (Inr tm3) \<Rightarrow>
                  (case um_release (out_uri_of tm3) us client (m_upstreamManager tm3) of
                     Inl e \<Rightarrow> Some (Inl (UpstreamFailure e))
                   | Inr r \<Rightarrow> Some (Inr (start_sender E r tm3)))))"

text \<open>\<open>checkUpstreamBlockingIO\<close>, for one promise taken from the queue.\<close>

definition upstreamBlocking ::
  "tm_env \<Rightarrow> Output \<Rightarrow> 'l \<Rightarrow> ('l, 'g) TaskManager \<Rightarrow> ('l, 'g) tm_result" where
  "upstreamBlocking E out l tm =
     (let h3 = \<lparr>pre_action = None, worker_action = None, post_action = None, h3_name = []\<rparr>;
          (bt, tm1) = create_task (new_Task (UpstreamTask out) empty_Input [] h3 l) tm
      in sendUpstream E bt tm1)"

section \<open>Postponed tasks\<close>

fun resume_all :: "tm_env \<Rightarrow> nat \<Rightarrow> nat \<Rightarrow> ('l, 'g) TaskManager \<Rightarrow> ('l, 'g) tm_result option" where
  "resume_all E n k tm =
     (case m_readyToResume tm of
        [] \<Rightarrow> Some (Inr tm)
      | bt # _ \<Rightarrow>
          (case k of
             0 \<Rightarrow> None
           | Suc k' \<Rightarrow>
               (case Execute E n bt (snd (getId E bt tm)) of
                  None \<Rightarrow> None
                | Some (Inl e) \<Rightarrow> Some (Inl e)
                | Some (Inr tm') \<Rightarrow>
                    resume_all E n k' (tm'\<lparr>m_readyToResume := tl (m_readyToResume tm')\<rparr>))))"

declare resume_all.simps [simp del]

definition expire_task :: "tm_env \<Rightarrow> uuid \<Rightarrow> ('l, 'g) TaskManager \<Rightarrow> ('l, 'g) TaskManager" where
  "expire_task E u tm =
     (case m_postponedTasks tm u of
        None \<Rightarrow> tm
      | Some bt \<Rightarrow>
          respondAndDie E bt ''Postpone task response timeout'' True
            (upd_task bt (setError ''Postpone task response timeout'' StError) (snd (getId E bt tm))))"

text \<open>The loop over the queue, from its top: it stops at the first entry that is not due.\<close>

fun expire_loop :: "tm_env \<Rightarrow> (int \<times> uuid) list \<Rightarrow> ('l, 'g) TaskManager \<Rightarrow> ('l, 'g) TaskManager" where
  "expire_loop E [] tm = tm\<lparr>m_expireTaskQueue := []\<rparr>"
| "expire_loop E ((t, u) # q) tm =
     (if tm_now tm \<le> t then tm\<lparr>m_expireTaskQueue := (t, u) # q\<rparr>
      else expire_loop E q (expire_task E u tm))"

definition executePostponedTasks ::
  "tm_env \<Rightarrow> nat \<Rightarrow> nat \<Rightarrow> ('l, 'g) TaskManager \<Rightarrow> ('l, 'g) tm_result option" where
  "executePostponedTasks E n k tm =
     (case resume_all E n k tm of
        None \<Rightarrow> None
      | Some (Inl e) \<Rightarrow> Some (Inl e)
      | Some (Inr tm') \<Rightarrow> Some (Inr (expire_loop E (m_expireTaskQueue tm') tm')))"

text \<open>The timer loop; \<open>eval\<close> reads the clock once here.\<close>

fun timer_eval :: "tm_env \<Rightarrow> nat \<Rightarrow> nat \<Rightarrow> ('l, 'g) TaskManager \<Rightarrow> ('l, 'g) tm_result option" where
  "timer_eval E n k tm =
     (case m_timerList tm of
        [] \<Rightarrow> Some (Inr tm)
      | t # q \<Rightarrow>
          if \<not> timer_fired tm t then Some (Inr tm)
          else
            (case k of
               0 \<Rightarrow> None
             | Suc k' \<Rightarrow>
                 (case onTimer E n (tm_ptr t) (tm\<lparr>m_timerList := q\<rparr>) of
                    None \<Rightarrow> None
                  | Some (Inl e) \<Rightarrow> Some (Inl e)
                  | Some (Inr tm') \<Rightarrow> timer_eval E n k' tm')))"

declare timer_eval.simps [simp del]

definition canStop :: "('l, 'g) TaskManager \<Rightarrow> bool" where
  "canStop tm \<longleftrightarrow>
     m_cntBaseTask tm = m_cntBaseTaskDone tm \<and> \<not> um_busy (m_upstreamManager tm) \<and>
     m_cntJobSent tm = m_cntJobDone tm"

section \<open>Sizes of the pool\<close>

text \<open>\<open>next_pow2\<close>: the loop runs for the shifts 1, 2, 4, 8, 16, 32.\<close>

unbundle bit_operations_syntax

definition next_pow2 :: "u64 \<Rightarrow> u64" where
  "next_pow2 val =
     (fold (\<lambda>i v. v OR drop_bit i v) [1, 2, 4, 8, 16, 32] (val - 1)) + 1"

text \<open>
  \<open>initThreadPool\<close>: the number of workers, the bound on jobs under way and the size of the
  result queue; \<open>hw\<close> is \<^verbatim>\<open>hardware_concurrency\<close>.
\<close>

definition initThreadPool :: "nat \<Rightarrow> int \<Rightarrow> int \<Rightarrow> u64 \<times> u64 \<times> u64" where
  "initThreadPool hw threadCount workersQueueSize =
     (let tc0 = (if threadCount \<le> 0 then int hw else threadCount);
          tc = max 2 (next_pow2 (of_int tc0));
          qs = (if workersQueueSize \<le> 0 then 32 else workersQueueSize);
          maxinputSize = tc * of_int qs
      in (tc, maxinputSize, next_pow2 maxinputSize))"

text \<open>After the steps up to shift \<open>s\<close> a bit is set when one of the \<open>2 s\<close> bits from it on was.\<close>

definition smeared :: "u64 \<Rightarrow> nat \<Rightarrow> u64 \<Rightarrow> bool" where
  "smeared x s v \<longleftrightarrow> (\<forall>i. bit v i \<longleftrightarrow> (\<exists>j. i \<le> j \<and> j < i + s \<and> bit x j))"

lemma smeared_init: "smeared x 1 x"
  unfolding smeared_def by (metis Suc_eq_plus1 le_antisym le_refl less_Suc_eq_le lessI)

lemma smeared_step: "smeared x s v \<Longrightarrow> smeared x (2 * s) (v OR drop_bit s v)"
proof -
  assume a: "smeared x s v"
  have "(\<exists>j. i \<le> j \<and> j < i + 2 * s \<and> bit x j) \<longleftrightarrow>
      (\<exists>j. i \<le> j \<and> j < i + s \<and> bit x j) \<or> (\<exists>j. s + i \<le> j \<and> j < s + i + s \<and> bit x j)" (is "?L = ?R") for i
  proof
    assume ?L
    then obtain j where "i \<le> j" "j < i + 2 * s" "bit x j" by blast
    then show ?R by (cases "j < i + s") auto
  next
    assume ?R
    then obtain j where "bit x j" "i \<le> j" "j < i + 2 * s" by fastforce
    then show ?L by blast
  qed
  with a show ?thesis unfolding smeared_def by (simp add: bit_or_iff bit_drop_bit_eq)
qed

lemma next_pow2_smeared: "\<exists>v. smeared (val - 1) 64 v \<and> next_pow2 val = v + 1"
proof -
  let ?x = "val - 1"
  have "smeared ?x 64 (fold (\<lambda>i v. v OR drop_bit i v) [1, 2, 4, 8, 16, 32] ?x)"
    using smeared_step [OF smeared_step [OF smeared_step [OF smeared_step [OF smeared_step [OF smeared_step [OF smeared_init [of ?x]]]]]]]
    by simp
  then show ?thesis unfolding next_pow2_def by blast
qed

lemma smeared_mask:
  assumes "smeared x 64 v" "unat x < 2 ^ n" "n = 0 \<or> 2 ^ (n - 1) \<le> unat x" 
  shows "v = mask n"
proof (rule bit_word_eqI)
  fix i assume "i < LENGTH(64)"
  have top: "bit x j \<Longrightarrow> j < n" for j
  proof (rule ccontr)
    assume b: "bit x j" and "\<not> j < n"
    have "bit (unat x) j" using b by (simp add: bit_unsigned_iff)
    then have "2 ^ j \<le> unat x" by (simp add: bit_iff_odd) (metis div_less even_zero not_le)
    moreover have "(2::nat) ^ n \<le> 2 ^ j" using \<open>\<not> j < n\<close> by simp
    ultimately show False using assms(2) by linarith
  qed
  have hi: "bit x (n - 1)" if "n \<noteq> 0"
  proof -
    have "(2::nat) ^ n = 2 ^ (n - 1) * 2" using that by (simp add: power_eq_if)
    then have "unat x div 2 ^ (n - 1) = 1"
      using assms(2,3) that by (intro div_nat_eqI) auto
    then have "bit (unat x) (n - 1)" by (simp add: bit_iff_odd)
    then show ?thesis by (simp add: bit_unsigned_iff)
  qed
  show "bit v i = bit (mask n :: u64) i"
  proof
    assume "bit v i"
    then obtain j where "i \<le> j" "bit x j" using assms(1) by (auto simp: smeared_def)
    moreover have "j < n" using top [OF \<open>bit x j\<close>] .
    ultimately show "bit (mask n :: u64) i" using \<open>i < LENGTH(64)\<close> by (simp add: bit_mask_iff)
  next
    assume "bit (mask n :: u64) i"
    then have i: "i < n" by (simp add: bit_mask_iff)
    then have "bit x (n - 1)" using hi by simp
    moreover have "n - 1 < 64" using calculation bit_imp_le_length by fastforce
    ultimately show "bit v i" using assms(1) i by (auto simp: smeared_def intro!: exI [of _ "n - 1"])
  qed
qed

lemma next_pow2_spec:
  assumes "1 \<le> unat v" "unat v \<le> 2 ^ 63"
  shows "\<exists>n\<le>63. unat (next_pow2 v) = 2 ^ n \<and> unat v \<le> 2 ^ n \<and> (\<forall>m. unat v \<le> 2 ^ m \<longrightarrow> n \<le> m)"
proof -
  let ?x = "v - 1"
  have x: "unat ?x = unat v - 1" using assms(1) by (simp add: unat_sub_if')
  define n where "n = (LEAST n. unat ?x < 2 ^ n)"
  have "unat ?x < 2 ^ 63" using x assms by simp
  then have lt: "unat ?x < 2 ^ n" and le: "n \<le> 63" unfolding n_def by (rule LeastI, rule Least_le)
  have low: "n = 0 \<or> 2 ^ (n - 1) \<le> unat ?x"
    using not_less_Least [of "n - 1" "\<lambda>n. unat ?x < 2 ^ n"] unfolding n_def [symmetric] by (cases n) auto
  obtain w where w: "smeared ?x 64 w" "next_pow2 v = w + 1" using next_pow2_smeared by blast
  have "next_pow2 v = mask n + 1" using w smeared_mask [OF w(1) lt low] by simp
  also have "\<dots> = 2 ^ n" by (simp add: mask_eq_decr_exp)
  finally have "next_pow2 v = word_of_nat (2 ^ n)" by simp
  then have "unat (next_pow2 v) = 2 ^ n"
    using power_strict_increasing [of n 64 "2::nat"] le by (simp only: unat_of_nat) simp
  moreover have "n \<le> m" if "unat v \<le> 2 ^ m" for m
    unfolding n_def by (rule Least_le) (use that x assms in linarith)
  ultimately show ?thesis using le lt x assms(1) by (intro exI [of _ n]) auto
qed

section \<open>What the operations leave alone\<close>

text \<open>Status and handlers of every task, and the job counters with the two queues of the pool.\<close>

definition st_view :: "('l, 'g) TaskManager \<Rightarrow> task_id \<Rightarrow> Status \<times> ('l, 'g) Handler3" where
  "st_view tm b = (tm_status b tm, t_h3 (tm_tasks tm b))"

definition job_view :: "('l, 'g) TaskManager \<Rightarrow> u64 \<times> u64 \<times> u64 \<times> task_id list \<times> task_id list" where
  "job_view tm = (m_cntJobSent tm, m_cntJobDone tm, m_threadPoolInputSize tm, tm_jobs tm, m_resQueue tm)"

named_theorems tm_frame

lemma upd_task_frame [tm_frame]:
  "job_view (upd_task b f tm) = job_view tm"
  "(\<And>t. t_status (f t) = t_status t \<and> t_h3 (f t) = t_h3 t) \<Longrightarrow> st_view (upd_task b f tm) = st_view tm"
  by (auto simp: job_view_def st_view_def upd_task_def)

lemma emit_frame [tm_frame]:
  "job_view (emit e tm) = job_view tm" "st_view (emit e tm) = st_view tm"
  "job_view (count_by c n tm) = job_view tm" "st_view (count_by c n tm) = st_view tm"
  "job_view (onClientDone tm) = job_view tm" "st_view (onClientDone tm) = st_view tm"
  by (auto simp: job_view_def st_view_def emit_def count_by_def onClientDone_def)

lemma field_frame [tm_frame]:
  "job_view (tm\<lparr>tm_draws := d\<rparr>) = job_view tm" "st_view (tm\<lparr>tm_draws := d\<rparr>) = st_view tm"
  "job_view (tm\<lparr>m_postponedTasks := p\<rparr>) = job_view tm" "st_view (tm\<lparr>m_postponedTasks := p\<rparr>) = st_view tm"
  "job_view (tm\<lparr>m_timerList := tl1\<rparr>) = job_view tm" "st_view (tm\<lparr>m_timerList := tl1\<rparr>) = st_view tm"
  "job_view (tm\<lparr>tm_senders := us\<rparr>) = job_view tm" "st_view (tm\<lparr>tm_senders := us\<rparr>) = st_view tm"
  "job_view (tm\<lparr>m_upstreamManager := um\<rparr>) = job_view tm" "st_view (tm\<lparr>m_upstreamManager := um\<rparr>) = st_view tm"
  "job_view (tm\<lparr>m_readyToResume := r\<rparr>) = job_view tm" "st_view (tm\<lparr>m_readyToResume := r\<rparr>) = st_view tm"
  "job_view (tm\<lparr>m_futurePostponeUuids := fu\<rparr>) = job_view tm" "st_view (tm\<lparr>m_futurePostponeUuids := fu\<rparr>) = st_view tm"
  "job_view (tm\<lparr>m_expireTaskQueue := eq\<rparr>) = job_view tm" "st_view (tm\<lparr>m_expireTaskQueue := eq\<rparr>) = st_view tm"
  "job_view (tm\<lparr>m_gcm := g\<rparr>) = job_view tm" "st_view (tm\<lparr>m_gcm := g\<rparr>) = st_view tm"
  "job_view (tm\<lparr>m_cntBaseTask := bc\<rparr>) = job_view tm" "st_view (tm\<lparr>m_cntBaseTask := bc\<rparr>) = st_view tm"
  "job_view (tm\<lparr>tm_promises := ps\<rparr>) = job_view tm" "st_view (tm\<lparr>tm_promises := ps\<rparr>) = st_view tm"
  by (auto simp: job_view_def st_view_def)

lemma finalize_frame [tm_frame]:
  "job_view (finalize E b tm) = job_view tm" "st_view (finalize E b tm) = st_view tm"
  by (auto simp: finalize_def releaseItself_def schedule_def timer_push_def tm_frame
      split: task_kind.split prod.split)

lemma respond_frame [tm_frame]:
  "job_view (respond b s tm) = job_view tm" "st_view (respond b s tm) = st_view tm"
  by (auto simp: respond_def respond_send_def Let_def tm_frame
      split: task_kind.split option.split prod.split)

lemma respondAndDie_frame [tm_frame]:
  "job_view (respondAndDie E b s d tm) = job_view tm" "st_view (respondAndDie E b s d tm) = st_view tm"
  by (auto simp: respondAndDie_def Let_def tm_frame split: task_kind.split)

lemma getId_frame [tm_frame]:
  "getId E b tm = (u, tm') \<Longrightarrow> job_view tm' = job_view tm"
  "getId E b tm = (u, tm') \<Longrightarrow> st_view tm' = st_view tm"
  by (auto simp: getId_def Let_def tm_frame split: if_splits)

lemma us_send_frame [tm_frame]:
  "job_view (us_send E us tm) = job_view tm" "st_view (us_send E us tm) = st_view tm"
  by (auto simp: us_send_def Let_def tm_frame split: option.split prod.split dest: getId_frame)

lemma start_sender_frame [tm_frame]:
  "job_view (start_sender E r tm) = job_view tm" "st_view (start_sender E r tm) = st_view tm"
  by (auto simp: start_sender_def Let_def tm_frame split: option.split)

lemma sendUpstream_frame [tm_frame]:
  "sendUpstream E b tm = Inr tm' \<Longrightarrow> job_view tm' = job_view tm"
  "sendUpstream E b tm = Inr tm' \<Longrightarrow> st_view tm' = st_view tm"
  by (auto simp: sendUpstream_def tm_frame split: sum.splits)

lemma postponeTask_frame [tm_frame]:
  "job_view (postponeTask E b tm) = job_view tm" "st_view (postponeTask E b tm) = st_view tm"
  by (auto simp: postponeTask_def tm_frame split: option.split prod.split dest: getId_frame)

lemma processOk_frame [tm_frame]:
  "job_view (processOk E b tm) = job_view tm" "st_view (processOk E b tm) = st_view tm"
  by (auto simp: processOk_def Let_def tm_frame split: option.split)

section \<open>The state machine at work\<close>

text \<open>A handler that does not throw and returns statuses of a given set only.\<close>

definition returns_in :: "Status set \<Rightarrow> ('l, 'g) Handler option \<Rightarrow> bool" where
  "returns_in S ho \<longleftrightarrow>
     (\<forall>h. ho = Some h \<longrightarrow>
        (\<forall>v i c g out. \<exists>s c' g' out'. h v i c g out = Returned s c' g' out' \<and> s \<in> S))"

lemma call_handler_returns:
  assumes "returns_in S (Some h)"
  shows "\<exists>s c' g' out'. s \<in> S \<and> call_handler h b after tm =
    Inr ((upd_task b (\<lambda>_. after s ((tm_tasks tm b)\<lparr>t_ctx := c', t_output := out'\<rparr>)) tm)\<lparr>m_gcm := g'\<rparr>)"
proof -
  let ?t = "tm_tasks tm b"
  obtain s c' g' out' where
    "h (t_vars ?t) (t_input ?t) (t_ctx ?t) (m_gcm tm) (t_output ?t) = Returned s c' g' out'" "s \<in> S"
    using assms unfolding returns_in_def by blast
  then show ?thesis by (auto simp: call_handler_def Let_def)
qed

lemma take_output_frame [simp]:
  "t_status (take_output q t) = t_status t" "t_h3 (take_output q t) = t_h3 t"
  "t_status (setLastStatus s t) = s" "t_h3 (setLastStatus s t) = t_h3 t"
  "t_status (setError e s t) = s" "t_h3 (setError e s t) = t_h3 t"
  by (auto simp: take_output_def setLastStatus_def setError_def setError_ctx_def)

lemma runPreAction_returns:
  assumes "returns_in S (pre_action (t_h3 (tm_tasks tm b)))"
  shows "\<exists>tm'. runPreAction b tm = Inr tm' \<and> job_view tm' = job_view tm \<and>
    t_h3 (tm_tasks tm' b) = t_h3 (tm_tasks tm b) \<and>
    (if pre_action (t_h3 (tm_tasks tm b)) = None then tm_status b tm' = tm_status b tm
     else tm_status b tm' \<in> S)"
proof (cases "pre_action (t_h3 (tm_tasks tm b))")
  case (Some h)
  with call_handler_returns [of S h b] assms show ?thesis
    by (fastforce simp: runPreAction_def Let_def upd_task_def job_view_def)
qed (simp add: runPreAction_def)

lemma runPostAction_returns:
  assumes "returns_in S (post_action (t_h3 (tm_tasks tm b)))"
  shows "\<exists>tm'. runPostAction b tm = Inr tm' \<and> job_view tm' = job_view tm \<and>
    t_h3 (tm_tasks tm' b) = t_h3 (tm_tasks tm b) \<and>
    (if post_action (t_h3 (tm_tasks tm b)) = None then tm_status b tm' = tm_status b tm
     else tm_status b tm' \<in> insert StForward S)"
proof (cases "post_action (t_h3 (tm_tasks tm b))")
  case (Some h)
  with call_handler_returns [of S h b] assms show ?thesis
    by (fastforce simp: runPostAction_def upd_task_def job_view_def)
qed (simp add: runPostAction_def)

lemma st_viewD:
  "st_view tm' = st_view tm \<Longrightarrow> tm_status b tm' = tm_status b tm"
  "st_view tm' = st_view tm \<Longrightarrow> t_h3 (tm_tasks tm' b) = t_h3 (tm_tasks tm b)"
  by (auto simp: st_view_def dest: fun_cong [where x = b])

lemma flags_simps [simp]:
  "has_pre (h3_flags_of h) = (pre_action h \<noteq> None)"
  "has_worker (h3_flags_of h) = (worker_action h \<noteq> None)"
  "has_post (h3_flags_of h) = (post_action h \<noteq> None)"
  by (simp_all add: h3_flags_of_def)

lemma checkOverflow_frame:
  "job_view (checkThreadPoolOverflow E b tm) = job_view tm"
  "t_h3 (tm_tasks (checkThreadPoolOverflow E b tm) b) = t_h3 (tm_tasks tm b)"
  "tm_status b (checkThreadPoolOverflow E b tm) =
     (if worker_action (t_h3 (tm_tasks tm b)) \<noteq> None \<and>
         m_cntJobSent tm - m_cntJobDone tm = m_threadPoolInputSize tm then StBusy else tm_status b tm)"
proof -
  let ?u = "upd_task b (setError ''Service Unavailable'' StBusy) tm"
  have "st_view (respondAndDie E b s True ?u) = st_view ?u" for s by (simp add: tm_frame)
  note v = st_viewD [OF this]
  show "job_view (checkThreadPoolOverflow E b tm) = job_view tm"
    by (simp add: checkThreadPoolOverflow_def tm_frame)
  show "t_h3 (tm_tasks (checkThreadPoolOverflow E b tm) b) = t_h3 (tm_tasks tm b)"
    by (simp add: checkThreadPoolOverflow_def v) (simp add: upd_task_def)
  show "tm_status b (checkThreadPoolOverflow E b tm) =
     (if worker_action (t_h3 (tm_tasks tm b)) \<noteq> None \<and>
         m_cntJobSent tm - m_cntJobDone tm = m_threadPoolInputSize tm then StBusy else tm_status b tm)"
    by (simp add: checkThreadPoolOverflow_def v) (simp add: upd_task_def)
qed

text \<open>The actions do to the status what the step relation of \<open>State_Machine\<close> allows.\<close>

lemma run_action_simulates:
  assumes "run_action E a b tm = Inr tm'"
    and "returns_in pre (pre_action (t_h3 (tm_tasks tm b)))"
    and "returns_in post (post_action (t_h3 (tm_tasks tm b)))"
  shows "action_status pre post (tm_flags b tm) a (tm_status b tm) (tm_status b tm') \<and>
    t_h3 (tm_tasks tm' b) = t_h3 (tm_tasks tm b)"
proof (cases a)
  case RunPreaction
  with assms runPreAction_returns [OF assms(2)] show ?thesis by (auto split: if_splits)
next
  case RunPostaction
  with assms runPostAction_returns [OF assms(3)] show ?thesis by (auto split: if_splits)
next
  case CheckOverflow
  with assms show ?thesis by (auto simp: checkOverflow_frame split: if_splits)
next
  case RunWorkeraction
  with assms show ?thesis by (auto simp: runWorkerAction_def)
next
  case RunForward
  with assms have "sendUpstream E b tm = Inr tm'" by (simp add: processForward_def)
  from st_viewD [OF sendUpstream_frame(2) [OF this]] RunForward show ?thesis by simp
qed (use assms in \<open>auto dest!: sym [where t = tm'] simp: st_viewD [OF respondAndDie_frame(2)]
      st_viewD [OF postponeTask_frame(2)] st_viewD [OF processOk_frame(2)]\<close>)

lemma process_sm_step:
  assumes "process E b st tm = Inr (st', tm')"
    and "returns_in pre (pre_action (t_h3 (tm_tasks tm b)))"
    and "returns_in post (post_action (t_h3 (tm_tasks tm b)))"
  shows "sm_step pre post (tm_flags b tm) (st, tm_status b tm) (st', tm_status b tm') \<and>
    t_h3 (tm_tasks tm' b) = t_h3 (tm_tasks tm b)"
proof -
  from assms(1) obtain r where r: "find_row st (tm_status b tm) (tm_flags b tm) = Some r"
    "run_action E (smAction r) b tm = Inr tm'" "st' = smStateEnd r"
    by (auto simp: process_def split: option.splits sum.splits)
  from run_action_simulates [OF r(2) assms(2,3)] r(1,3) show ?thesis
    by (auto intro: sm_step.intros)
qed

text \<open>The actions fail only where a substitution is unknown.\<close>

lemma run_action_total:
  assumes "returns_in pre (pre_action (t_h3 (tm_tasks tm b)))"
    and "returns_in post (post_action (t_h3 (tm_tasks tm b)))"
  shows "(\<exists>tm'. run_action E a b tm = Inr tm') \<or>
    (\<exists>u. run_action E a b tm = Inl (UpstreamFailure (UriSubstitutionNotFound u)))"
proof (cases a)
  case RunPreaction
  then show ?thesis using runPreAction_returns [OF assms(1)] by auto
next
  case RunPostaction
  then show ?thesis using runPostAction_returns [OF assms(2)] by auto
next
  case RunForward
  then show ?thesis
    by (auto simp: processForward_def sendUpstream_def um_send_def split: option.splits if_splits)
qed auto

section \<open>Jobs under way\<close>

definition jobs_pending :: "('l, 'g) TaskManager \<Rightarrow> nat" where
  "jobs_pending tm = length (tm_jobs tm) + length (m_resQueue tm)"

text \<open>The counters count the jobs of the pool, and these fit its input and result queues.\<close>

definition jobs_inv :: "('l, 'g) TaskManager \<Rightarrow> bool" where
  "jobs_inv tm \<longleftrightarrow>
     m_cntJobSent tm - m_cntJobDone tm = of_nat (jobs_pending tm) \<and>
     jobs_pending tm \<le> unat (m_threadPoolInputSize tm)"

definition has_room :: "('l, 'g) TaskManager \<Rightarrow> bool" where
  "has_room tm \<longleftrightarrow> jobs_pending tm < unat (m_threadPoolInputSize tm)"

lemma job_viewD:
  assumes "job_view tm' = job_view tm"
  shows "jobs_inv tm' = jobs_inv tm" "has_room tm' = has_room tm" "tm_jobs tm' = tm_jobs tm"
  using assms by (auto simp: job_view_def jobs_inv_def has_room_def jobs_pending_def)

lemma no_overflow_room:
  assumes "jobs_inv tm" "m_cntJobSent tm - m_cntJobDone tm \<noteq> m_threadPoolInputSize tm"
  shows "has_room tm"
proof -
  have "jobs_pending tm \<noteq> unat (m_threadPoolInputSize tm)"
    using assms by (auto simp: jobs_inv_def)
  then show ?thesis using assms(1) by (simp add: jobs_inv_def has_room_def)
qed

lemma runWorkerAction_jobs:
  assumes "jobs_inv tm" "worker_action (t_h3 (tm_tasks tm b)) \<noteq> None \<longrightarrow> has_room tm"
  shows "jobs_inv (runWorkerAction b tm)"
    and "worker_action (t_h3 (tm_tasks tm b)) \<noteq> None \<Longrightarrow> b \<in> set (tm_jobs (runWorkerAction b tm))"
  using assms
  by (auto simp: runWorkerAction_def jobs_inv_def has_room_def jobs_pending_def algebra_simps)

section \<open>No request is lost\<close>

text \<open>
  A client task is answered when it has no client left; otherwise it must be somewhere the
  manager will find it again.
\<close>

definition answered :: "task_id \<Rightarrow> ('l, 'g) TaskManager \<Rightarrow> bool" where
  "answered b tm \<longleftrightarrow> (\<forall>c. t_kind (tm_tasks tm b) \<noteq> ClientTask (Some c))"

definition under_way :: "task_id \<Rightarrow> ('l, 'g) TaskManager \<Rightarrow> bool" where
  "under_way b tm \<longleftrightarrow>
     b \<in> set (tm_jobs tm) \<or> b \<in> us_task ` set (tm_senders tm) \<or>
     (\<exists>k ci. um_item k (m_upstreamManager tm) = Some ci \<and> b \<in> set (m_taskQueue ci)) \<or>
     b \<in> ran (m_postponedTasks tm) \<or> b \<in> set (m_readyToResume tm)"

lemma upd_kind [simp]:
  "t_kind (tm_tasks (upd_task b f tm) b') = (if b' = b then t_kind (f (tm_tasks tm b)) else t_kind (tm_tasks tm b'))"
  by (simp add: upd_task_def)

lemma finalize_answered: "answered b tm \<Longrightarrow> answered b (finalize E b tm)"
  by (auto simp: answered_def finalize_def releaseItself_def schedule_def timer_push_def
      split: task_kind.splits prod.split)

lemma respond_answered: "answered b (respond b s tm)"
  by (auto simp: answered_def respond_def respond_send_def Let_def emit_def count_by_def onClientDone_def
      split: task_kind.splits option.splits prod.splits)

lemma respondAndDie_answered: "answered b (respondAndDie E b s d tm)"
proof -
  let ?tm1 = "case t_kind (tm_tasks tm b) of ClientTask _ \<Rightarrow> respond b s tm | _ \<Rightarrow> tm"
  have "answered b ?tm1"
    using respond_answered [of b s tm] by (auto simp: answered_def split: task_kind.splits)
  then have "answered b (?tm1\<lparr>m_postponedTasks := p\<rparr>)" for p by (simp add: answered_def)
  then show ?thesis
    using \<open>answered b ?tm1\<close> by (auto simp: respondAndDie_def Let_def intro: finalize_answered)
qed

lemma start_sender_under_way:
  assumes "um_send (out_uri_of tm) b (m_upstreamManager tm) = Inr r"
  shows "under_way b (start_sender E r tm)"
proof (cases "fst r")
  case None
  let ?k = "um_key (out_uri_of tm b)"
  obtain ci where ci: "um_item ?k (m_upstreamManager tm) = Some ci" "ci_full ci"
    and r: "snd r = um_set_item ?k (ci\<lparr>m_taskQueue := m_taskQueue ci @ [b]\<rparr>) (m_upstreamManager tm)"
    using assms None by (auto simp: um_send_def split: option.splits if_splits)
  then have "um_item ?k (snd r) = Some (ci\<lparr>m_taskQueue := m_taskQueue ci @ [b]\<rparr>)"
    by (cases ?k) auto
  moreover have "b \<in> set (m_taskQueue (ci\<lparr>m_taskQueue := m_taskQueue ci @ [b]\<rparr>))" by simp
  ultimately show ?thesis unfolding under_way_def start_sender_def using None by fastforce
next
  case (Some us)
  then have "us_task us = b"
    using assms by (auto simp: um_send_def createUpstreamSender_def split: option.splits if_splits prod.splits)
  then show ?thesis
    using Some by (auto simp: under_way_def start_sender_def us_send_def Let_def split: prod.split)
qed

lemma postpone_under_way: "under_way b (postponeTask E b tm)"
  by (auto simp: postponeTask_def under_way_def ran_def split: prod.split option.split)

lemma processOk_answered: "answered b (processOk E b tm)"
  by (simp add: processOk_def Let_def respondAndDie_answered)

text \<open>What is known of the task in each state of a dispatch.\<close>

definition phase :: "Status set \<Rightarrow> task_id \<Rightarrow> SmState \<Rightarrow> ('l, 'g) TaskManager \<Rightarrow> bool" where
  "phase R b st tm \<longleftrightarrow>
     sm_ok R (tm_flags b tm) st (tm_status b tm) \<and>
     (st = PRE_ACTION \<and> tm_status b tm = StBusy \<longrightarrow> answered b tm) \<and>
     (st = CHK_WORKER_ACTION \<and> worker_action (t_h3 (tm_tasks tm b)) \<noteq> None \<longrightarrow> b \<in> set (tm_jobs tm)) \<and>
     (st = EXIT \<longrightarrow> answered b tm \<or> under_way b tm)"

text \<open>Where each action that ends a dispatch leaves the task.\<close>

lemma run_action_ends:
  assumes "run_action E a b tm = Inr tm'"
  shows "a \<in> {RunErrorResponse, RunDrop, RunOkResponse, RunResponse} \<Longrightarrow> answered b tm'"
    and "a \<in> {RunForward, RunPostpone} \<Longrightarrow> under_way b tm'"
proof -
  show "answered b tm'" if "a \<in> {RunErrorResponse, RunDrop, RunOkResponse, RunResponse}"
    using that assms by (auto intro: respondAndDie_answered processOk_answered)
  show "under_way b tm'" if "a \<in> {RunForward, RunPostpone}"
    using that assms
    by (auto simp: processForward_def sendUpstream_def split: sum.splits
        intro: start_sender_under_way postpone_under_way)
qed

lemma process_row:
  assumes "process E b st tm = Inr (st', tm')"
  obtains r where "find_row st (tm_status b tm) (tm_flags b tm) = Some r"
    and "run_action E (smAction r) b tm = Inr tm'" and "st' = smStateEnd r"
  using assms by (auto simp: process_def split: option.splits sum.splits)

lemma process_phase:
  assumes ph: "phase R b st tm" and ne: "st \<noteq> EXIT" and pr: "process E b st tm = Inr (st', tm')"
    and pre: "returns_in settled (pre_action (t_h3 (tm_tasks tm b)))"
    and post: "returns_in R (post_action (t_h3 (tm_tasks tm b)))" and R: "post_results R"
  shows "phase R b st' tm'"
proof -
  let ?h = "tm_flags b tm"
  let ?s = "tm_status b tm"
  have ok: "sm_ok R ?h st ?s" using ph by (auto simp: phase_def)
  obtain r where r: "find_row st ?s ?h = Some r" and act: "run_action E (smAction r) b tm = Inr tm'"
    and st': "st' = smStateEnd r" using process_row [OF pr] .
  from process_sm_step [OF pr pre post] have
    step: "sm_step settled R ?h (st, ?s) (st', tm_status b tm')" and h3: "t_h3 (tm_tasks tm' b) = t_h3 (tm_tasks tm b)"
    by auto
  have ok': "sm_ok R (tm_flags b tm') st' (tm_status b tm')"
    using sm_ok_step [OF ok step _ _ R] h3 by simp
  note ends = run_action_ends [OF act]
  show ?thesis
  proof (cases st)
    case EXECUTE
    then have r': "smAction r = CheckOverflow" "st' = PRE_ACTION" using r st' by (auto simp: find_row_simps)
    have nb: "?s \<noteq> StBusy" using ok EXECUTE by (auto simp: entry_status_def)
    have tm': "tm' = checkThreadPoolOverflow E b tm" using act r' by simp
    have "answered b tm'" if "tm_status b tm' = StBusy"
      using that nb unfolding tm' checkOverflow_frame
      by (auto simp: checkThreadPoolOverflow_def respondAndDie_answered split: if_splits)
    then show ?thesis using r' ok' by (simp add: phase_def)
  next
    case PRE_ACTION
    then show ?thesis
      using r st' act ph ok' by (cases "?s = StBusy") (auto simp: find_row_simps phase_def split: if_splits)
  next
    case CHK_PRE_ACTION
    then have "st' \<in> {WORKER_ACTION, POST_ACTION} \<or> st' = EXIT \<and> smAction r \<in> {RunErrorResponse, RunDrop}"
      using r st' ok
      by (cases ?s) (auto simp: find_row_simps settled_def entry_status_def split: if_splits)
    then show ?thesis using ends(1) ok' by (auto simp: phase_def)
  next
    case WORKER_ACTION
    then have "smAction r = RunWorkeraction" "st' = CHK_WORKER_ACTION"
      using r st' by (auto simp: find_row_simps)
    with act h3 ok' show ?thesis by (auto simp: phase_def runWorkerAction_def)
  next
    case CHK_WORKER_ACTION
    then have r': "smAction r = NoAction" "st' = (if has_worker ?h then EXIT else POST_ACTION)"
      using r st' by (auto simp: find_row_simps split: if_splits)
    then have "tm' = tm" using act by simp
    then show ?thesis using ph r' CHK_WORKER_ACTION ok' by (auto simp: phase_def under_way_def)
  next
    case WORKER_ACTION_DONE
    then have "st' = WORKER_ACTION \<or> st' = POST_ACTION"
      using r st' by (auto simp: find_row_simps split: if_splits)
    then show ?thesis using ok' by (auto simp: phase_def)
  next
    case POST_ACTION
    then show ?thesis using r st' ok' by (auto simp: find_row_simps phase_def)
  next
    case CHK_POST_ACTION
    then have "st' = POST_ACTION \<or> st' = EXIT \<and>
        smAction r \<in> {RunForward, RunOkResponse, RunErrorResponse, RunDrop, RunPostpone}"
      using r st' by (cases ?s) (auto simp: find_row_simps)
    then show ?thesis using ok' ends by (auto simp: phase_def)
  qed (use ne ok in auto)
qed

lemma dispatch_phase:
  assumes "phase R b st tm" "post_results R"
    and "returns_in settled (pre_action (t_h3 (tm_tasks tm b)))"
    and "returns_in R (post_action (t_h3 (tm_tasks tm b)))"
    and "dispatch E n b st tm = Some (Inr tm')"
  shows "phase R b EXIT tm'"
  using assms
proof (induction n arbitrary: st tm)
  case 0
  then show ?case by (cases st) auto
next
  case (Suc n)
  show ?case
  proof (cases "st = EXIT")
    case False
    then obtain st1 tm1 where p: "process E b st tm = Inr (st1, tm1)" "dispatch E n b st1 tm1 = Some (Inr tm')"
      using Suc.prems(5) by (cases st) (auto split: sum.splits)
    have "t_h3 (tm_tasks tm1 b) = t_h3 (tm_tasks tm b)"
      using process_sm_step [OF p(1) Suc.prems(3,4)] by simp
    with Suc.IH [OF process_phase [OF Suc.prems(1) False p(1) Suc.prems(3,4,2)] Suc.prems(2)] p(2) Suc.prems(3,4)
    show ?thesis by simp
  qed (use Suc in auto)
qed

lemma dispatch_total:
  assumes "sm_ok settled (tm_flags b tm) st (tm_status b tm)" "sm_rank st \<le> n"
    and "returns_in settled (pre_action (t_h3 (tm_tasks tm b)))"
    and "returns_in settled (post_action (t_h3 (tm_tasks tm b)))"
  shows "(\<exists>tm'. dispatch E n b st tm = Some (Inr tm')) \<or>
    (\<exists>u. dispatch E n b st tm = Some (Inl (UpstreamFailure (UriSubstitutionNotFound u))))"
  using assms
proof (induction n arbitrary: st tm)
  case 0
  then show ?case by (cases st) auto
next
  case (Suc n)
  have R: "post_results settled" by (auto simp: post_results_def)
  show ?case
  proof (cases "st = EXIT")
    case False
    then have d: "dispatch E (Suc n) b st tm = (case process E b st tm of
        Inl e \<Rightarrow> Some (Inl e) | Inr (st', tm') \<Rightarrow> dispatch E n b st' tm')" by (cases st) auto
    obtain r where r: "find_row st (tm_status b tm) (tm_flags b tm) = Some r"
      using sm_ok_complete [OF R Suc.prems(1) False] by blast
    from run_action_total [OF Suc.prems(3,4), of E "smAction r"] show ?thesis
    proof (elim disjE exE)
      fix tm1 assume "run_action E (smAction r) b tm = Inr tm1"
      then have p: "process E b st tm = Inr (smStateEnd r, tm1)" by (simp add: process_def r)
      from process_sm_step [OF p Suc.prems(3,4)]
      have s: "sm_step settled settled (tm_flags b tm) (st, tm_status b tm) (smStateEnd r, tm_status b tm1)"
        and h: "t_h3 (tm_tasks tm1 b) = t_h3 (tm_tasks tm b)" by auto
      have "sm_ok settled (tm_flags b tm1) (smStateEnd r) (tm_status b tm1)"
        using sm_ok_step [OF Suc.prems(1) s _ _ R] h by simp
      moreover have "sm_rank (smStateEnd r) \<le> n"
        using sm_rank_step [OF Suc.prems(1) r] Suc.prems(2) by linarith
      ultimately have "(\<exists>tm'. dispatch E n b (smStateEnd r) tm1 = Some (Inr tm')) \<or>
          (\<exists>u. dispatch E n b (smStateEnd r) tm1 = Some (Inl (UpstreamFailure (UriSubstitutionNotFound u))))"
        using Suc.prems(3,4) h by (intro Suc.IH) simp_all
      then show ?thesis by (simp add: d p)
    next
      fix u assume "run_action E (smAction r) b tm = Inl (UpstreamFailure (UriSubstitutionNotFound u))"
      then show ?thesis by (simp add: d process_def r)
    qed
  qed simp
qed

text \<open>An entry from outside: what the statuses and results above give together.\<close>

lemma execute_outcome:
  assumes "t_status (tm_tasks tm b) \<in> entry_status" "8 \<le> n"
    and "some_handler (h3_flags_of (t_h3 (tm_tasks tm b)))"
    and "returns_in settled (pre_action (t_h3 (tm_tasks tm b)))"
    and "returns_in settled (post_action (t_h3 (tm_tasks tm b)))"
  shows "(\<exists>tm'. Execute E n b tm = Some (Inr tm') \<and> (answered b tm' \<or> under_way b tm')) \<or>
    (\<exists>u. Execute E n b tm = Some (Inl (UpstreamFailure (UriSubstitutionNotFound u))))"
proof -
  have R: "post_results settled" by (auto simp: post_results_def)
  have ok: "sm_ok settled (tm_flags b tm) EXECUTE (tm_status b tm)" using assms(1,3) by simp
  then have ph: "phase settled b EXECUTE tm" by (simp add: phase_def)
  from dispatch_total [OF ok _ assms(4,5), of n E] assms(2)
  show ?thesis
    unfolding Execute_def
    using dispatch_phase [OF ph R assms(4,5), of E n] by (auto simp: phase_def)
qed

section \<open>The bound on jobs, for any handlers\<close>

lemma call_handler_frame:
  assumes "call_handler h b after tm = Inr tm'" "\<And>s t. t_h3 (after s t) = t_h3 t"
  shows "job_view tm' = job_view tm" "t_h3 (tm_tasks tm' x) = t_h3 (tm_tasks tm x)"
  using assms by (auto simp: call_handler_def Let_def job_view_def upd_task_def split: handler_result.splits)

lemma run_action_frame:
  assumes "run_action E a b tm = Inr tm'" "a \<noteq> RunWorkeraction"
  shows "job_view tm' = job_view tm \<and> t_h3 (tm_tasks tm' b) = t_h3 (tm_tasks tm b)"
  using assms
  by (cases a)
    (auto simp: tm_frame checkOverflow_frame processForward_def runPreAction_def runPostAction_def Let_def
      st_viewD [OF respondAndDie_frame(2)] st_viewD [OF postponeTask_frame(2)] st_viewD [OF processOk_frame(2)]
      dest: sendUpstream_frame st_viewD(2) [OF sendUpstream_frame(2)] split: option.splits
      elim!: call_handler_frame)

definition room_phase :: "task_id \<Rightarrow> SmState \<Rightarrow> ('l, 'g) TaskManager \<Rightarrow> bool" where
  "room_phase b st tm \<longleftrightarrow>
     jobs_inv tm \<and>
     (worker_action (t_h3 (tm_tasks tm b)) \<noteq> None \<longrightarrow>
        (st = PRE_ACTION \<longrightarrow> tm_status b tm = StBusy \<or> has_room tm) \<and>
        (st \<in> {CHK_PRE_ACTION, WORKER_ACTION, WORKER_ACTION_DONE} \<longrightarrow> has_room tm))"

lemma process_room:
  assumes ph: "room_phase b st tm" and pr: "process E b st tm = Inr (st', tm')"
  shows "room_phase b st' tm'"
proof -
  let ?s = "tm_status b tm"
  obtain r where r: "find_row st ?s (tm_flags b tm) = Some r" and act: "run_action E (smAction r) b tm = Inr tm'"
    and st': "st' = smStateEnd r" using process_row [OF pr] .
  have inv: "jobs_inv tm" using ph by (simp add: room_phase_def)
  show ?thesis
  proof (cases "st = WORKER_ACTION")
    case True
    then have "tm' = runWorkerAction b tm" "st' = CHK_WORKER_ACTION"
      using r st' act by (auto simp: find_row_simps)
    then show ?thesis using ph True runWorkerAction_jobs(1) [OF inv, of b] by (simp add: room_phase_def)
  next
    case nw: False
    have na: "smAction r \<noteq> RunWorkeraction"
      using r nw by (cases st; cases ?s) (auto simp: find_row_simps split: if_splits)
    note fr = run_action_frame [OF act na]
    note jv = job_viewD [OF conjunct1 [OF fr]]
    show ?thesis
    proof (cases "st = EXECUTE")
      case True
      then have tm': "tm' = checkThreadPoolOverflow E b tm" "st' = PRE_ACTION"
        using r st' act by (auto simp: find_row_simps)
      have "tm_status b tm' = StBusy \<or> has_room tm'" if "worker_action (t_h3 (tm_tasks tm b)) \<noteq> None"
        using no_overflow_room [OF inv] that unfolding jv(2) unfolding tm' checkOverflow_frame by auto
      then show ?thesis using inv jv(1) fr tm'(2) by (simp add: room_phase_def)
    next
      case False
      have "st' \<in> {PRE_ACTION, CHK_PRE_ACTION, WORKER_ACTION, WORKER_ACTION_DONE} \<Longrightarrow>
          (st = PRE_ACTION \<and> ?s \<noteq> StBusy) \<or> st \<in> {CHK_PRE_ACTION, WORKER_ACTION_DONE}"
        using r st' nw False by (cases st; cases ?s) (auto simp: find_row_simps split: if_splits)
      then show ?thesis using ph inv jv fr by (auto simp: room_phase_def)
    qed
  qed
qed

lemma dispatch_steps:
  "dispatch E n b EXIT tm = Some (Inr tm)"
  "st \<noteq> EXIT \<Longrightarrow> dispatch E 0 b st tm = None"
  "st \<noteq> EXIT \<Longrightarrow> dispatch E (Suc n) b st tm =
     (case process E b st tm of Inl e \<Rightarrow> Some (Inl e) | Inr (st', tm') \<Rightarrow> dispatch E n b st' tm')"
  by (cases st; simp)+

lemma dispatch_room:
  "room_phase b st tm \<Longrightarrow> dispatch E n b st tm = Some (Inr tm') \<Longrightarrow> jobs_inv tm'"
proof (induction n arbitrary: st tm)
  case 0
  then show ?case by (cases "st = EXIT") (auto simp: dispatch_steps room_phase_def)
next
  case (Suc n)
  show ?case
  proof (cases "st = EXIT")
    case False
    then obtain st1 tm1 where "process E b st tm = Inr (st1, tm1)" "dispatch E n b st1 tm1 = Some (Inr tm')"
      using Suc.prems(2) by (auto simp: dispatch_steps split: sum.splits)
    then show ?thesis using Suc.IH process_room [OF Suc.prems(1)] by blast
  qed (use Suc.prems in \<open>auto simp: dispatch_steps room_phase_def\<close>)
qed

lemma execute_room: "jobs_inv tm \<Longrightarrow> Execute E n b tm = Some (Inr tm') \<Longrightarrow> jobs_inv tm'"
  unfolding Execute_def by (rule dispatch_room [where st = EXECUTE]) (simp_all add: room_phase_def)

lemma graft_job_inv:
  assumes "jobs_inv tm" "b \<in> set (tm_jobs tm)" "graft_job b tm = Inr tm'" shows "jobs_inv tm'"
proof -
  obtain tm1 where r: "runWorkerActionFromTheThreadPool b tm = Inr tm1"
    and tm': "tm' = tm1\<lparr>tm_jobs := remove1 b (tm_jobs tm1), m_resQueue := m_resQueue tm1 @ [b]\<rparr>"
    using assms(3) by (auto simp: graft_job_def split: sum.splits)
  have "job_view tm1 = job_view tm"
    using r by (auto simp: runWorkerActionFromTheThreadPool_def Let_def split: option.splits
        elim!: call_handler_frame)
  moreover have "length (remove1 b (tm_jobs tm)) + 1 = length (tm_jobs tm)"
    using assms(2) length_pos_if_in_set [of b] by (simp add: length_remove1)
  ultimately have "jobs_pending tm' = jobs_pending tm" "m_cntJobSent tm' = m_cntJobSent tm"
    "m_cntJobDone tm' = m_cntJobDone tm" "m_threadPoolInputSize tm' = m_threadPoolInputSize tm"
    using tm' by (auto simp: jobs_pending_def job_view_def)
  then show ?thesis using assms(1) by (simp add: jobs_inv_def)
qed

lemma tryProcessReadyJob_inv:
  assumes "jobs_inv tm" "tryProcessReadyJob E n tm = Some (r, Inr tm')" shows "jobs_inv tm'"
proof (cases "m_resQueue tm")
  case Nil
  then show ?thesis using assms by (simp add: tryProcessReadyJob_def)
next
  case (Cons b q)
  let ?tm = "tm\<lparr>m_resQueue := q, m_cntJobDone := m_cntJobDone tm + 1\<rparr>"
  have "m_cntJobSent tm - m_cntJobDone tm = of_nat (length (tm_jobs tm) + length q) + 1"
    using assms(1) Cons by (simp add: jobs_inv_def jobs_pending_def)
  then have "m_cntJobSent tm - (m_cntJobDone tm + 1) = of_nat (length (tm_jobs tm) + length q)"
    by (simp add: algebra_simps)
  then have "jobs_inv ?tm" "has_room ?tm"
    using assms(1) Cons by (auto simp: jobs_inv_def has_room_def jobs_pending_def)
  then have "room_phase b WORKER_ACTION_DONE ?tm" by (simp add: room_phase_def)
  then show ?thesis using assms(2) Cons by (auto simp: tryProcessReadyJob_def dest: dispatch_room)
qed

lemma cb_event_inv: "jobs_inv tm \<Longrightarrow> cb_event E n k tm = Some (Inr tm') \<Longrightarrow> jobs_inv tm'"
proof (induction k arbitrary: tm)
  case (Suc k)
  then show ?case
    by (auto split: option.splits prod.splits bool.splits sum.splits dest: tryProcessReadyJob_inv)
qed simp

lemma job_view_inv: "job_view tm' = job_view tm \<Longrightarrow> jobs_inv tm \<Longrightarrow> jobs_inv tm'"
  by (metis job_viewD(1))

lemma upstreamDone_cases:
  assumes "upstreamDoneProcess E n us status err tm = Some (Inr tm')"
  shows "job_view tm' = job_view tm \<or>
    (\<exists>b c. Execute E n b (count_by c 1 tm) = Some (Inr tm'))"
  using assms unfolding upstreamDoneProcess_def Let_def
  by (auto simp: tm_frame split: task_kind.splits if_splits)

lemma onUpstreamEvent_inv:
  assumes "jobs_inv tm" "onUpstreamEvent E n us ev reply len tm = Some (Inr tm')" shows "jobs_inv tm'"
proof -
  obtain status err client where ev: "ev_handler_us us ev = (status, err, client)"
    by (cases "ev_handler_us us ev")
  define tm1 where "tm1 = (if ev = EvHttpReply then count_by UpstrmRespBytes (byte_delta len)
      (upd_task (us_task us) (\<lambda>t. t\<lparr>t_input := reply\<rparr>) tm) else tm)"
  define tm2 where "tm2 = tm1\<lparr>tm_senders := remove1 us (tm_senders tm1),
      m_upstreamManager := um_done (m_upstreamManager tm1)\<rparr>"
  have j2: "jobs_inv tm2"
    using assms(1) by (rule job_view_inv [rotated]) (simp add: tm2_def tm1_def tm_frame)
  obtain tm3 where d: "upstreamDoneProcess E n us status err tm2 = Some (Inr tm3)"
    and r: "job_view tm' = job_view tm3"
    using assms(2) ev unfolding onUpstreamEvent_def Let_def tm1_def [symmetric] tm2_def [symmetric]
    by (auto simp: tm_frame split: option.splits sum.splits)
  from upstreamDone_cases [OF d] have "jobs_inv tm3"
    using j2 job_view_inv execute_room job_view_inv [OF emit_frame(3) j2] by blast
  then show ?thesis using r job_view_inv by blast
qed

lemma expire_task_frame: "job_view (expire_task E u tm) = job_view tm"
  by (auto simp: expire_task_def tm_frame getId_frame(1) [OF prod.collapse [symmetric]] split: option.split)

lemma expire_loop_frame: "job_view (expire_loop E q tm) = job_view tm"
  by (induction q arbitrary: tm) (auto simp: tm_frame expire_task_frame)

lemma resume_all_inv: "jobs_inv tm \<Longrightarrow> resume_all E n k tm = Some (Inr tm') \<Longrightarrow> jobs_inv tm'"
proof (induction k arbitrary: tm)
  case 0
  then show ?case by (subst (asm) resume_all.simps) (auto split: list.splits)
next
  case (Suc k)
  show ?case
  proof (cases "m_readyToResume tm")
    case Nil
    then show ?thesis using Suc.prems by (subst (asm) resume_all.simps) simp
  next
    case (Cons b q)
    then obtain tm1 where x: "Execute E n b (snd (getId E b tm)) = Some (Inr tm1)"
      and r: "resume_all E n k (tm1\<lparr>m_readyToResume := tl (m_readyToResume tm1)\<rparr>) = Some (Inr tm')"
      using Suc.prems(2) by (subst (asm) resume_all.simps) (auto split: option.splits sum.splits)
    have "jobs_inv (snd (getId E b tm))"
      using job_view_inv [OF getId_frame(1) [OF prod.collapse [symmetric]] Suc.prems(1)] .
    from execute_room [OF this x] have "jobs_inv (tm1\<lparr>m_readyToResume := tl (m_readyToResume tm1)\<rparr>)"
      by (rule job_view_inv [rotated]) (simp add: tm_frame)
    then show ?thesis using r by (rule Suc.IH)
  qed
qed

lemma executePostponedTasks_inv:
  "jobs_inv tm \<Longrightarrow> executePostponedTasks E n k tm = Some (Inr tm') \<Longrightarrow> jobs_inv tm'"
  by (auto simp: executePostponedTasks_def split: option.splits sum.splits
      intro: job_view_inv [OF expire_loop_frame] dest: resume_all_inv)

lemma onTimer_inv: "jobs_inv tm \<Longrightarrow> onTimer E n b tm = Some (Inr tm') \<Longrightarrow> jobs_inv tm'"
  unfolding onTimer_def by (erule execute_room [rotated]) (erule job_view_inv [rotated], simp add: tm_frame)

lemma timer_eval_inv: "jobs_inv tm \<Longrightarrow> timer_eval E n k tm = Some (Inr tm') \<Longrightarrow> jobs_inv tm'"
proof (induction k arbitrary: tm)
  case 0
  then show ?case by (subst (asm) timer_eval.simps) (auto split: list.splits if_splits)
next
  case (Suc k)
  show ?case
  proof (cases "m_timerList tm = [] \<or> \<not> timer_fired tm (hd (m_timerList tm))")
    case True
    then show ?thesis
      using Suc.prems by (subst (asm) timer_eval.simps) (auto split: list.splits if_splits)
  next
    case False
    then obtain t q where tq: "m_timerList tm = t # q" "timer_fired tm t" by (cases "m_timerList tm") auto
    then obtain tm1 where x: "onTimer E n (tm_ptr t) (tm\<lparr>m_timerList := q\<rparr>) = Some (Inr tm1)"
      and r: "timer_eval E n k tm1 = Some (Inr tm')"
      using Suc.prems(2) by (subst (asm) timer_eval.simps) (auto split: option.splits sum.splits)
    have "jobs_inv (tm\<lparr>m_timerList := q\<rparr>)"
      using Suc.prems(1) by (rule job_view_inv [rotated]) (simp add: tm_frame)
    from onTimer_inv [OF this x] r show ?thesis by (rule Suc.IH)
  qed
qed

text \<open>
  One event of the IO thread or of a worker. The clock and the reception of new requests
  change nothing the pool looks at.
\<close>

inductive tm_event :: "tm_env \<Rightarrow> ('l, 'g) TaskManager \<Rightarrow> ('l, 'g) TaskManager \<Rightarrow> bool" for E where
  new_task: "tm_event E tm (snd (create_task t tm))"
| new_client: "onNewClient E n b tm = Some (Inr tm') \<Longrightarrow> tm_event E tm tm'"
| client_gone: "tm_event E tm (onClientClose b tm)"
| job_run: "b \<in> set (tm_jobs tm) \<Longrightarrow> graft_job b tm = Inr tm' \<Longrightarrow> tm_event E tm tm'"
| jobs_ready: "cb_event E n k tm = Some (Inr tm') \<Longrightarrow> tm_event E tm tm'"
| upstream: "onUpstreamEvent E n us ev reply len tm = Some (Inr tm') \<Longrightarrow> tm_event E tm tm'"
| blocking: "upstreamBlocking E out l tm = Inr tm' \<Longrightarrow> tm_event E tm tm'"
| postponed: "executePostponedTasks E n k tm = Some (Inr tm') \<Longrightarrow> tm_event E tm tm'"
| timers: "timer_eval E n k tm = Some (Inr tm') \<Longrightarrow> tm_event E tm tm'"
| periodic: "tm_event E tm (addPeriodicTask E h3 l i ii f tm)"
| tick: "t \<ge> tm_now tm \<Longrightarrow> tm_event E tm (tm\<lparr>tm_now := t\<rparr>)"

inductive tm_reach :: "tm_env \<Rightarrow> ('l, 'g) TaskManager \<Rightarrow> ('l, 'g) TaskManager \<Rightarrow> bool" for E tm0 where
  start: "tm_reach E tm0 tm0"
| event: "tm_reach E tm0 tm \<Longrightarrow> tm_event E tm tm' \<Longrightarrow> tm_reach E tm0 tm'"

lemma create_task_frame: "job_view (snd (create_task t tm)) = job_view tm"
  by (simp add: create_task_def job_view_def)

lemma addPeriodicTask_frame: "job_view (addPeriodicTask E h3 l i ii f tm) = job_view tm"
  by (auto simp: addPeriodicTask_def Let_def schedule_def timer_push_def create_task_def job_view_def
      upd_task_def split: option.split task_kind.split prod.split)

lemma tm_event_jobs: "tm_event E tm tm' \<Longrightarrow> jobs_inv tm \<Longrightarrow> jobs_inv tm'"
proof (induction rule: tm_event.induct)
  case (new_client n b tm tm')
  then show ?case unfolding onNewClient_def
    by (elim execute_room [rotated]) (erule job_view_inv [rotated], simp add: tm_frame)
next
  case (blocking out l tm tm')
  then have "job_view tm' = job_view tm"
    by (auto simp: upstreamBlocking_def create_task_def job_view_def dest!: sendUpstream_frame(1))
  then show ?case using blocking(2) by (rule job_view_inv)
next
  case (tick tm t)
  then show ?case by (simp add: jobs_inv_def jobs_pending_def)
qed (auto intro: graft_job_inv cb_event_inv onUpstreamEvent_inv executePostponedTasks_inv timer_eval_inv
    job_view_inv [OF create_task_frame] job_view_inv [OF addPeriodicTask_frame]
    job_view_inv [OF upd_task_frame(1)] simp: onClientClose_def)

lemma tm_reach_jobs: "tm_reach E tm0 tm \<Longrightarrow> jobs_inv tm0 \<Longrightarrow> jobs_inv tm"
  by (induction rule: tm_reach.induct) (auto dest: tm_event_jobs)

section \<open>Postponed tasks: what the operations touch\<close>

definition pp_view where
  "pp_view tm = ((\<lambda>x. (t_input (tm_tasks tm x), t_ctx (tm_tasks tm x))), m_readyToResume tm,
     m_futurePostponeUuids tm, tm_now tm, m_expireTaskQueue tm, m_postponedTasks tm)"

lemma upd_task_pp [tm_frame]:
  "(\<And>t. t_input (f t) = t_input t \<and> t_ctx (f t) = t_ctx t) \<Longrightarrow> pp_view (upd_task b f tm) = pp_view tm"
  by (auto simp: pp_view_def upd_task_def)

lemma basic_pp [tm_frame]:
  "pp_view (emit e tm) = pp_view tm" "pp_view (count_by c n tm) = pp_view tm"
  "pp_view (onClientDone tm) = pp_view tm" "pp_view (tm\<lparr>tm_draws := d\<rparr>) = pp_view tm"
  "pp_view (tm\<lparr>m_timerList := tl1\<rparr>) = pp_view tm"
  by (simp_all add: pp_view_def emit_def count_by_def onClientDone_def)

lemma finalize_pp [tm_frame]: "pp_view (finalize E b tm) = pp_view tm"
  by (auto simp: finalize_def releaseItself_def schedule_def timer_push_def tm_frame
      split: task_kind.split prod.split)

lemma respond_pp [tm_frame]: "pp_view (respond b s tm) = pp_view tm"
  by (auto simp: respond_def respond_send_def Let_def tm_frame
      split: task_kind.split option.split prod.split)

lemma respondAndDie_pp:
  "pp_view (respondAndDie E b s d tm) = pp_view (tm\<lparr>m_postponedTasks :=
     (if m_uuid (t_ctx (tm_tasks tm b)) \<noteq> 0
      then (m_postponedTasks tm)(m_uuid (t_ctx (tm_tasks tm b)) := None) else m_postponedTasks tm)\<rparr>)"
proof -
  define tm1 where "tm1 = (case t_kind (tm_tasks tm b) of ClientTask _ \<Rightarrow> respond b s tm | _ \<Rightarrow> tm)"
  have v: "pp_view tm1 = pp_view tm" by (auto simp: tm1_def tm_frame split: task_kind.split)
  then have c: "t_ctx (tm_tasks tm1 x) = t_ctx (tm_tasks tm x)" for x
    by (auto simp: pp_view_def dest: fun_cong [where x = x])
  have q: "m_postponedTasks tm1 = m_postponedTasks tm" using v by (simp add: pp_view_def)
  have "pp_view (tm1\<lparr>m_postponedTasks := p\<rparr>) = pp_view (tm\<lparr>m_postponedTasks := p\<rparr>)" for p
    using v by (simp add: pp_view_def)
  then show ?thesis
    using v unfolding respondAndDie_def Let_def tm1_def [symmetric] c q by (simp add: tm_frame)
qed

lemma respondAndDie_other:
  "t_input (tm_tasks (respondAndDie E b s d tm) x) = t_input (tm_tasks tm x)"
  "t_ctx (tm_tasks (respondAndDie E b s d tm) x) = t_ctx (tm_tasks tm x)"
  "m_readyToResume (respondAndDie E b s d tm) = m_readyToResume tm"
  "m_futurePostponeUuids (respondAndDie E b s d tm) = m_futurePostponeUuids tm"
  "tm_now (respondAndDie E b s d tm) = tm_now tm"
  "m_expireTaskQueue (respondAndDie E b s d tm) = m_expireTaskQueue tm"
  "m_postponedTasks (respondAndDie E b s d tm) =
     (if m_uuid (t_ctx (tm_tasks tm b)) \<noteq> 0
      then (m_postponedTasks tm)(m_uuid (t_ctx (tm_tasks tm b)) := None) else m_postponedTasks tm)"
  using respondAndDie_pp [of E b s d tm] by (auto simp: pp_view_def dest: fun_cong [where x = x])

lemma finalize_kind: "x \<noteq> b \<Longrightarrow> t_kind (tm_tasks (finalize E b tm) x) = t_kind (tm_tasks tm x)"
  by (auto simp: finalize_def releaseItself_def schedule_def timer_push_def split: task_kind.split prod.split)

lemma respond_kind: "x \<noteq> b \<Longrightarrow> t_kind (tm_tasks (respond b s tm) x) = t_kind (tm_tasks tm x)"
  by (auto simp: respond_def respond_send_def Let_def emit_def count_by_def onClientDone_def
      split: task_kind.split option.split prod.split)

lemma respondAndDie_kind:
  "x \<noteq> b \<Longrightarrow> t_kind (tm_tasks (respondAndDie E b s d tm) x) = t_kind (tm_tasks tm x)"
  by (auto simp: respondAndDie_def Let_def finalize_kind respond_kind split: task_kind.split)

text \<open>A postponed task is filed under its own uuid.\<close>

definition postponed_ok :: "('l, 'g) TaskManager \<Rightarrow> bool" where
  "postponed_ok tm \<longleftrightarrow>
     (\<forall>u b. m_postponedTasks tm u = Some b \<longrightarrow> u \<noteq> 0 \<and> m_uuid (t_ctx (tm_tasks tm b)) = u)"

lemma expire_task_known:
  assumes "postponed_ok tm" "m_postponedTasks tm u = Some b"
  shows "expire_task E u tm = respondAndDie E b ''Postpone task response timeout'' True
     (upd_task b (setError ''Postpone task response timeout'' StError) tm)"
  using assms by (auto simp: expire_task_def postponed_ok_def getId_def Let_def)

lemma expire_task_effect:
  assumes "postponed_ok tm"
  shows "m_postponedTasks (expire_task E u tm) = (m_postponedTasks tm)(u := None)"
    and "postponed_ok (expire_task E u tm)" and "tm_now (expire_task E u tm) = tm_now tm"
    and "answered x tm \<Longrightarrow> answered x (expire_task E u tm)"
    and "m_postponedTasks tm u = Some b \<Longrightarrow> answered b (expire_task E u tm)"
proof -
  let ?e = "expire_task E u tm"
  show p: "m_postponedTasks ?e = (m_postponedTasks tm)(u := None)"
  proof (cases "m_postponedTasks tm u")
    case (Some b)
    have "m_uuid (t_ctx (tm_tasks tm b)) = u" "u \<noteq> 0" using assms Some by (auto simp: postponed_ok_def)
    then show ?thesis
      unfolding expire_task_known [OF assms Some] respondAndDie_other
      by (simp add: upd_task_def setError_def setError_ctx_def)
  qed (auto simp: expire_task_def)
  have ctx: "m_uuid (t_ctx (tm_tasks ?e x)) = m_uuid (t_ctx (tm_tasks tm x))" for x
  proof (cases "m_postponedTasks tm u")
    case (Some b)
    then show ?thesis
      unfolding expire_task_known [OF assms Some] respondAndDie_other
      by (simp add: upd_task_def setError_def setError_ctx_def)
  qed (simp add: expire_task_def)
  show "postponed_ok ?e" using assms unfolding postponed_ok_def p ctx by (auto split: if_splits)
  show "tm_now ?e = tm_now tm"
    using assms expire_task_known [OF assms, of u _ E]
    by (cases "m_postponedTasks tm u") (auto simp: expire_task_def respondAndDie_other upd_task_def)
  show "answered b ?e" if "m_postponedTasks tm u = Some b"
    unfolding expire_task_known [OF assms that] by (rule respondAndDie_answered)
  show "answered x ?e" if "answered x tm"
  proof (cases "m_postponedTasks tm u")
    case (Some b)
    then show ?thesis
      using that respondAndDie_answered [of b] unfolding expire_task_known [OF assms Some]
      by (cases "x = b") (simp_all add: answered_def respondAndDie_kind)
  qed (use that in \<open>simp add: expire_task_def\<close>)
qed

lemma expire_loop_due:
  assumes "postponed_ok tm" "\<forall>p\<in>set q. fst p < tm_now tm"
  shows "m_expireTaskQueue (expire_loop E q tm) = [] \<and>
    (\<forall>u. u \<in> snd ` set q \<or> m_postponedTasks tm u = None \<longrightarrow> m_postponedTasks (expire_loop E q tm) u = None) \<and>
    (\<forall>x. answered x tm \<or> (\<exists>u\<in>snd ` set q. m_postponedTasks tm u = Some x) \<longrightarrow>
       answered x (expire_loop E q tm))"
  using assms
proof (induction q arbitrary: tm)
  case (Cons p q)
  obtain t v where p: "p = (t, v)" by (cases p)
  let ?e = "expire_task E v tm"
  note eff = expire_task_effect [OF Cons.prems(1), where E = E and u = v]
  have due: "\<forall>p\<in>set q. fst p < tm_now ?e" and step: "expire_loop E (p # q) tm = expire_loop E q ?e"
    using Cons.prems(2) p eff(3) by auto
  note IH = Cons.IH [OF eff(2) due]
  note A = IH [THEN conjunct1]
  note IH2 = IH [THEN conjunct2, THEN conjunct1, rule_format]
  note IH3 = IH [THEN conjunct2, THEN conjunct2, rule_format]
  have C: "answered x (expire_loop E q ?e)"
    if "answered x tm \<or> (\<exists>u\<in>snd ` set (p # q). m_postponedTasks tm u = Some x)" for x
  proof (cases "answered x ?e")
    case False
    then have "\<not> answered x tm" using eff(4) by blast
    with that obtain u where u: "u \<in> snd ` set (p # q)" "m_postponedTasks tm u = Some x" by blast
    have "u \<noteq> v" using False eff(5) u(2) by blast
    then have "u \<in> snd ` set q" "m_postponedTasks ?e u = Some x" using u p eff(1) by auto
    then show ?thesis by (intro IH3) blast
  qed (auto intro: IH3)
  have B: "m_postponedTasks (expire_loop E q ?e) u = None"
    if "u \<in> snd ` set (p # q) \<or> m_postponedTasks tm u = None" for u
  proof -
    have "m_postponedTasks ?e u = None \<or> u \<in> snd ` set q" using that p unfolding eff(1) by auto
    then show ?thesis by (intro IH2) (rule disj_commute [THEN iffD1])
  qed
  show ?case unfolding step by (intro conjI allI impI) (rule A, erule B, erule C)
qed (simp_all add: answered_def)

text \<open>The queue is kept in descending order, so its top is the entry that is due last.\<close>

definition latest_first :: "(int \<times> uuid) list \<Rightarrow> bool" where
  "latest_first q \<longleftrightarrow> sorted_wrt (\<lambda>a b. fst b \<le> fst a) q"

lemma expire_insert_set: "set (expire_insert p q) = insert p (set q)"
  by (induction p q rule: expire_insert.induct) auto

lemma expire_insert_order: "latest_first q \<Longrightarrow> latest_first (expire_insert p q)"
  by (induction p q rule: expire_insert.induct)
    (auto simp: latest_first_def expire_insert_set)

section \<open>Example data\<close>

definition demo_env :: tm_env where
  "demo_env = \<lparr> env_uuid = (\<lambda>n. of_nat (n + 1)), env_random = (\<lambda>n a b. a), env_connect = (\<lambda>n. n),
     env_parse_uri = (\<lambda>_. None), env_uuid_string = (\<lambda>u. nat_to_string (unat u)),
     env_find_callback = (\<lambda>_. None), opt_http_address = ''0.0.0.0:28690'', opt_connection_timeout = 360 \<rparr>"

text \<open>A route with a worker and a post action that answer Ok.\<close>

definition ok_handler :: "(unit, unit) Handler" where
  "ok_handler v i c g out = Returned StOk c g (out\<lparr>body := ''done''\<rparr>)"

definition demo_h3 :: "(unit, unit) Handler3" where
  "demo_h3 = \<lparr>pre_action = Some ok_handler, worker_action = None, post_action = Some ok_handler, h3_name = ''demo''\<rparr>"

definition demo_tm :: "(unit, unit) TaskManager" where
  "demo_tm = \<lparr> tm_tasks = (\<lambda>_. new_Task (ClientTask (Some 5)) empty_Input [] demo_h3 ()), tm_next = 1,
     m_gcm = (), m_cntBaseTask = 1, m_cntBaseTaskDone = 0, m_cntJobSent = 0, m_cntJobDone = 0,
     m_threadPoolInputSize = 64, tm_jobs = [], m_resQueue = [], m_timerList = [],
     m_postponedTasks = Map.empty, m_readyToResume = [], m_expireTaskQueue = [],
     m_futurePostponeUuids = new_ExpiringList 360, m_upstreamManager = um_init ''localhost'' 5 [],
     tm_senders = [], tm_promises = [], m_sysInfo = (\<lambda>_. 0), tm_now = 0, tm_draws = 0, tm_out = [] \<rparr>"

lemma ok_handler_returns: "StOk \<in> S \<Longrightarrow> returns_in S (Some ok_handler)"
  by (auto simp: returns_in_def ok_handler_def)

text \<open>Task 0 with a uuid, and task 2 that carries an answer for it.\<close>

definition demo_pair :: "(unit, unit) TaskManager" where
  "demo_pair = demo_tm\<lparr>tm_tasks := (tm_tasks demo_tm)
     (0 := (tm_tasks demo_tm 0)\<lparr>t_ctx := (new_Ctx ())\<lparr>m_uuid := 7\<rparr>\<rparr>,
      2 := (tm_tasks demo_tm 2)\<lparr>t_ctx := (new_Ctx ())\<lparr>m_nextUuid := 7\<rparr>,
             t_input := empty_Input\<lparr>body := ''answer''\<rparr>\<rparr>)\<rparr>"

lemma demo_pair_simps:
  "m_uuid (t_ctx (tm_tasks demo_pair 0)) = 7" "m_nextUuid (t_ctx (tm_tasks demo_pair 2)) = 7"
  "m_postponedTasks demo_pair = Map.empty" "m_futurePostponeUuids demo_pair = new_ExpiringList 360"
  "tm_now demo_pair = 0" "m_readyToResume demo_pair = []" "body (t_input (tm_tasks demo_pair 2)) = ''answer''"
  by (simp_all add: demo_pair_def demo_tm_def)

section \<open>Properties\<close>

text \<open>
  C8. A request is never lost. When the pre and post actions of a route do not throw and
  return only final statuses, dispatching a task of that route always ends (after at most
  eight transitions), the transition table covers every situation that arises, and
  afterwards the client has been answered or the task is in the thread pool, with the
  upstream manager, or among the postponed or resumed tasks. The only failure is a request
  to an unknown upstream substitution.
\<close>

theorem request_not_lost:
  assumes "t_status (tm_tasks tm b) \<in> entry_status" "8 \<le> n"
    and "some_handler (h3_flags_of (t_h3 (tm_tasks tm b)))"
    and "returns_in settled (pre_action (t_h3 (tm_tasks tm b)))"
    and "returns_in settled (post_action (t_h3 (tm_tasks tm b)))"
  shows "(\<exists>tm'. Execute E n b tm = Some (Inr tm') \<and> (answered b tm' \<or> under_way b tm')) \<or>
    (\<exists>u. Execute E n b tm = Some (Inl (UpstreamFailure (UriSubstitutionNotFound u))))"
  using assms by (rule execute_outcome)

theorem request_not_lost_witness:
  "\<exists>tm'. Execute demo_env 8 0 demo_tm = Some (Inr tm') \<and> tm_out tm' = [SendReply 5 200 ''done'', FinishClient 5] \<and>
     (answered 0 tm' \<or> under_way 0 tm')"
proof -
  have run: "map_option (\<lambda>r. case r of Inr tm \<Rightarrow> tm_out tm | Inl _ \<Rightarrow> []) (Execute demo_env 8 0 demo_tm) =
      Some [SendReply 5 200 ''done'', FinishClient 5]" by code_simp
  have s: "returns_in settled (Some ok_handler)" by (rule ok_handler_returns) (simp add: settled_def)
  have h: "t_h3 (tm_tasks demo_tm 0) = demo_h3" "t_status (tm_tasks demo_tm 0) = StNone"
    by (simp_all add: demo_tm_def new_Task_def new_Ctx_def)
  have "(\<exists>tm'. Execute demo_env 8 0 demo_tm = Some (Inr tm') \<and> (answered 0 tm' \<or> under_way 0 tm')) \<or>
    (\<exists>u. Execute demo_env 8 0 demo_tm = Some (Inl (UpstreamFailure (UriSubstitutionNotFound u))))"
    by (rule request_not_lost) (use s in \<open>simp_all add: h demo_h3_def some_handler_def entry_status_def\<close>)
  with run show ?thesis by auto
qed

text \<open>
  C9. The thread pool does not overflow. In every state the manager reaches from an empty
  pool, whatever the handlers return, the difference of the two job counters is the number of
  jobs in the pool and in the result queue, and that number does not exceed the input size:
  the assertions of \<open>checkThreadPoolOverflow\<close> hold and a finished job always finds room in
  the result queue, whose size is a power of two not below the input size.
\<close>

theorem pool_bounded:
  assumes "tm_reach E tm0 tm" and "tm_jobs tm0 = []" "m_resQueue tm0 = []"
    and "m_cntJobSent tm0 = m_cntJobDone tm0"
    and "m_threadPoolInputSize tm = fst (snd (initThreadPool hw tc qs))"
    and "1 \<le> unat (m_threadPoolInputSize tm)" "unat (m_threadPoolInputSize tm) \<le> 2 ^ 63"
  shows "m_cntJobSent tm - m_cntJobDone tm = of_nat (length (tm_jobs tm) + length (m_resQueue tm)) \<and>
    length (tm_jobs tm) + length (m_resQueue tm) \<le> unat (m_threadPoolInputSize tm) \<and>
    unat (m_threadPoolInputSize tm) \<le> unat (snd (snd (initThreadPool hw tc qs)))"
proof -
  have "jobs_inv tm0" using assms(2-4) by (simp add: jobs_inv_def jobs_pending_def)
  from tm_reach_jobs [OF assms(1) this] next_pow2_spec [OF assms(6,7)] assms(5)
  show ?thesis by (auto simp: jobs_inv_def jobs_pending_def initThreadPool_def Let_def)
qed

theorem pool_bounded_witness:
  "length (tm_jobs demo_tm) + length (m_resQueue demo_tm) \<le> 64"
proof -
  have p: "fst (snd (initThreadPool 4 2 32)) = 64" by code_simp
  have "unat (m_threadPoolInputSize demo_tm) = 64" by (simp add: demo_tm_def)
  with pool_bounded [where tm = demo_tm and tm0 = demo_tm and E = demo_env and hw = 4 and tc = 2 and qs = 32,
      OF tm_reach.start] p show ?thesis
    by (simp add: demo_tm_def)
qed

text \<open>
  C13. \<open>next_pow2\<close>. For sizes up to \<open>2\<^sup>6\<^sup>3\<close> the bit twiddling yields the least power of two that
  is not below its argument.
\<close>

theorem next_pow2_least:
  assumes "1 \<le> unat v" "unat v \<le> 2 ^ 63"
  shows "\<exists>n\<le>63. unat (next_pow2 v) = 2 ^ n \<and> unat v \<le> 2 ^ n \<and> (\<forall>m. unat v \<le> 2 ^ m \<longrightarrow> n \<le> m)"
  using assms by (rule next_pow2_spec)

theorem next_pow2_least_witness: "unat (next_pow2 5) = 8"
proof -
  have "unat (5::u64) = 5" by simp
  with next_pow2_least [of 5] obtain n where n: "unat (next_pow2 5) = 2 ^ n" "5 \<le> (2::nat) ^ n"
    "\<forall>m. 5 \<le> (2::nat) ^ m \<longrightarrow> n \<le> m" by auto
  from n(3) have "n \<le> 3" by (auto dest: spec [of _ 3])
  moreover have "\<not> n \<le> 2"
  proof
    assume "n \<le> 2"
    then have "(2::nat) ^ n \<le> 2 ^ 2" by (rule power_increasing) simp
    with n(2) show False by simp
  qed
  ultimately have "n = 3" by simp
  with n(1) show ?thesis by simp
qed

text \<open>
  C34. Callback and postponement in either order. Let a task \<open>a\<close> with uuid \<open>u\<close> be postponed and
  a callback task \<open>b\<close> for \<open>u\<close> end with Ok. Whether the callback comes after the postponement
  or before it (by less than the time to live), \<open>a\<close> ends up at the end of the queue of tasks
  to resume, with the callback's input, and is not postponed any more.
\<close>

theorem postpone_rendezvous:
  assumes "a \<noteq> b" "m_uuid (t_ctx (tm_tasks tm a)) = u" "u \<noteq> 0" "m_nextUuid (t_ctx (tm_tasks tm b)) = u"
    and "m_postponedTasks tm u = None" "\<forall>e\<in>set (el_cont (m_futurePostponeUuids tm)). fst (snd e) \<noteq> u"
    and "el_inv (tm_now tm) (m_futurePostponeUuids tm)"
    and "tm_now tm \<le> t" "t < tm_now tm + el_delta (m_futurePostponeUuids tm)"
    and "tm1 = processOk E b (postponeTask E a tm)"
    and "tm2 = postponeTask E a ((processOk E b tm)\<lparr>tm_now := t\<rparr>)"
    and "tm' \<in> {tm1, tm2}"
  shows "m_readyToResume tm' = m_readyToResume tm @ [a] \<and>
    t_input (tm_tasks tm' a) = t_input (tm_tasks tm b) \<and> m_postponedTasks tm' u = None"
proof -
  let ?f = "m_futurePostponeUuids tm"
  have id: "getId E a tm = (u, tm)" using assms(2,3) by (simp add: getId_def)
  have none: "fst (el_extract (tm_now tm) u ?f) = None"
  proof -
    have "dropWhile (\<lambda>e. fst (snd e) \<noteq> u) (chop (tm_now tm) (el_cont ?f)) = []"
      using assms(6) chop_subset by (fastforce simp: dropWhile_eq_Nil_conv)
    then show ?thesis by (simp add: el_extract_def Let_def del: dropWhile_eq_Nil_conv)
  qed
  define p where "p = postponeTask E a tm"
  have p: "m_postponedTasks p u = Some a" "m_readyToResume p = m_readyToResume tm" "tm_tasks p = tm_tasks tm"
    using id none by (auto simp: p_def postponeTask_def split: prod.split option.split)
  have "m_readyToResume tm1 = m_readyToResume tm @ [a] \<and>
      t_input (tm_tasks tm1 a) = t_input (tm_tasks tm b) \<and> m_postponedTasks tm1 u = None"
    using assms(1,3,4) p unfolding assms(10) p_def [symmetric]
    by (auto simp: processOk_def Let_def respondAndDie_other upd_task_def)
  moreover have "m_readyToResume tm2 = m_readyToResume tm @ [a] \<and>
      t_input (tm_tasks tm2 a) = t_input (tm_tasks tm b) \<and> m_postponedTasks tm2 u = None"
  proof -
    define q where "q = (processOk E b tm)\<lparr>tm_now := t\<rparr>"
    let ?g = "el_add (tm_now tm) u (t_input (tm_tasks tm b)) ?f"
    have q: "m_futurePostponeUuids q = ?g" "m_readyToResume q = m_readyToResume tm" "tm_now q = t"
      "m_uuid (t_ctx (tm_tasks q a)) = u" "m_postponedTasks q u = None"
      using assms(2-5) by (auto simp: q_def processOk_def Let_def respondAndDie_other)
    have "fst (el_extract t u (el_adds [] ?g)) = Some (t_input (tm_tasks tm b))"
      using extract_only_entry(1) [where l = ?g and k = u and now = t and
          d = "tm_now tm + el_delta ?f" and v = "t_input (tm_tasks tm b)" and t = "tm_now tm"]
        el_inv_add [OF assms(7) order_refl] assms(6,9) chop_subset [of "tm_now tm" "el_cont ?f"]
      by (fastforce simp: el_adds_def only_entry_def el_add_def)
    then obtain g' where g': "el_extract t u ?g = (Some (t_input (tm_tasks tm b)), g')"
      by (cases "el_extract t u ?g") (auto simp: el_adds_def)
    show ?thesis
      using q g' assms(3) unfolding assms(11) q_def [symmetric]
      by (simp add: postponeTask_def getId_def upd_task_def)
  qed
  ultimately show ?thesis using assms(12) by blast
qed

theorem postpone_rendezvous_witness:
  "m_readyToResume (processOk demo_env 2 (postponeTask demo_env 0 demo_pair)) = [0] \<and>
   m_readyToResume (postponeTask demo_env 0 ((processOk demo_env 2 demo_pair)\<lparr>tm_now := 300\<rparr>)) = [0]"
proof -
  have f: "el_inv 0 (new_ExpiringList 360 :: (uuid, Input) ExpiringList)" by (rule el_inv_new) simp
  note r = postpone_rendezvous [where a = 0 and b = 2 and tm = demo_pair and u = 7 and t = 300 and E = demo_env,
      OF _ _ _ _ _ _ _ _ _ refl refl]
  show ?thesis
  proof
    show "m_readyToResume (processOk demo_env 2 (postponeTask demo_env 0 demo_pair)) = [0]"
      using r [of "processOk demo_env 2 (postponeTask demo_env 0 demo_pair)"] f
      by (simp add: demo_pair_simps) (simp add: new_ExpiringList_def)
    show "m_readyToResume (postponeTask demo_env 0 ((processOk demo_env 2 demo_pair)\<lparr>tm_now := 300\<rparr>)) = [0]"
      using r [of "postponeTask demo_env 0 ((processOk demo_env 2 demo_pair)\<lparr>tm_now := 300\<rparr>)"] f
      by (simp add: demo_pair_simps) (simp add: new_ExpiringList_def)
  qed
qed

text \<open>
  Expiry. When every entry of the queue of postponed tasks is due, the loop empties the
  queue, answers the client of every task that was still postponed under one of its uuids, and
  takes it out of the postponed tasks.
\<close>

theorem postponed_expire:
  assumes "postponed_ok tm" "\<forall>p\<in>set q. fst p < tm_now tm" "(t, u) \<in> set q"
    and "m_postponedTasks tm u = Some b"
  shows "m_expireTaskQueue (expire_loop E q tm) = [] \<and>
    m_postponedTasks (expire_loop E q tm) u = None \<and> answered b (expire_loop E q tm)"
  using expire_loop_due [OF assms(1,2), of E] assms(3,4) by force

theorem postponed_expire_witness:
  "answered 0 (expire_loop demo_env [(360, 7)] (demo_pair\<lparr>m_postponedTasks := [7 \<mapsto> 0], tm_now := 1000\<rparr>))"
proof -
  let ?tm = "demo_pair\<lparr>m_postponedTasks := [7 \<mapsto> 0], tm_now := 1000\<rparr>"
  have "postponed_ok ?tm" by (auto simp: postponed_ok_def demo_pair_simps split: if_splits)
  from postponed_expire [OF this, of "[(360, 7)]" 360 7 0 demo_env] show ?thesis by simp
qed

text \<open>
  A later deadline holds back the earlier ones. The queue has its latest deadline on top,
  and the loop stops at the first entry that is not due: as long as any postponed task has
  time left, no task is answered with a timeout, however long ago its own deadline passed.
\<close>

theorem expiry_held_back:
  assumes "latest_first q" "(t, u) \<in> set (expire_insert p q)" "tm_now tm \<le> t"
  shows "latest_first (expire_insert p q) \<and>
    expire_loop E (expire_insert p q) tm = tm\<lparr>m_expireTaskQueue := expire_insert p q\<rparr>"
proof -
  have s: "latest_first (expire_insert p q)" using assms(1) by (rule expire_insert_order)
  obtain t0 u0 r where c: "expire_insert p q = (t0, u0) # r"
    using assms(2) by (cases "expire_insert p q") auto
  have "t \<le> t0" using s assms(2) unfolding c latest_first_def by auto
  then show ?thesis using s assms(3) c by simp
qed

theorem expiry_held_back_witness:
  "m_postponedTasks (expire_loop demo_env (expire_insert (100, 3) [(50, 7)])
     (demo_pair\<lparr>m_postponedTasks := [7 \<mapsto> 0], tm_now := 90\<rparr>)) 7 = Some 0"
  using expiry_held_back [of "[(50, 7)]" 100 3 "(100, 3)" "demo_pair\<lparr>m_postponedTasks := [7 \<mapsto> 0], tm_now := 90\<rparr>" demo_env]
  by (simp add: latest_first_def)

text \<open>
  Blocking upstream requests. The output a worker hands to \<open>sendUpstreamBlocking\<close> is
  stored beside the task and never used: the request that goes out is the empty output sent
  to the default address, with no body, whatever the worker asked for.
\<close>

theorem blocking_request_ignores_output:
  assumes "m_maxConnections (m_default (m_upstreamManager tm)) = 0"
    and "m_keepAlive (m_default (m_upstreamManager tm)) = False"
  shows "\<exists>tm'. upstreamBlocking E out l tm = Inr tm' \<and>
    tm_out tm' = tm_out tm @ [SendUpstream (tm_next tm)
      (makeUri (env_parse_uri E) empty_Output (m_uri (m_default (m_upstreamManager tm))))
      (''Content-Type: application/json'' @ CRLF) []]"
  using assms
  by (auto simp: upstreamBlocking_def create_task_def sendUpstream_def um_send_def out_uri_of_def
      new_Task_def new_Ctx_def empty_Output_def um_key_def ci_full_def createUpstreamSender_def ci_create_def
      start_sender_def us_send_def Let_def combine_headers_def emit_def count_by_def)

theorem blocking_request_ignores_output_witness:
  "\<exists>tm'. upstreamBlocking demo_env (empty_Output\<lparr>body := ''ask''\<rparr>) () demo_tm = Inr tm' \<and>
     tm_out tm' = [SendUpstream 1 [] (''Content-Type: application/json'' @ CRLF) []]"
proof -
  have d: "m_default (m_upstreamManager demo_tm) = new_ConnItem 0 ''localhost'' 0 False 5"
    "tm_out demo_tm = []" "tm_next demo_tm = 1"
    by (simp_all add: demo_tm_def um_init_def)
  have m: "makeUri (env_parse_uri demo_env) empty_Output u = []" for u
    by (simp add: demo_env_def makeUri_def empty_Output_def no_parts_def Let_def)
  from blocking_request_ignores_output [of demo_tm demo_env "empty_Output\<lparr>body := ''ask''\<rparr>" "()"]
  show ?thesis unfolding d m by (simp add: new_ConnItem_def)
qed

end
