(* ===== verification/Router.thy ===== *)
theory Router
  imports Task_Model "HOL-Library.List_Lexorder" "HOL-Library.Char_ord"
begin

text \<open>
  Routers (\<^verbatim>\<open>router.h\<close>, \<^verbatim>\<open>router.cpp\<close>): routes with their prefixes, the root that holds the routers of a protocol, the check for conflicting
  routes and the dump. Compiling the routes and matching a target against them is done by the r3 library: \<open>r3_compile\<close> and \<open>r3_match\<close> are parameters; a
  match names the route by its position in the order of insertion. The variables of a match go into a multimap, a list sorted by key.
\<close>

unbundle bit_operations_syntax

section \<open>Methods\<close>

text \<open>The bits of the methods are those of the table in \<open>methodsToString\<close>.\<close>

type_synonym method_bits = "32 word"

definition METHOD_GET :: method_bits where "METHOD_GET = 2"
definition METHOD_POST :: method_bits where "METHOD_POST = 4"
definition METHOD_PUT :: method_bits where "METHOD_PUT = 8"
definition METHOD_DELETE :: method_bits where "METHOD_DELETE = 16"
definition METHOD_HEAD :: method_bits where "METHOD_HEAD = 64"

lemmas METHOD_defs = METHOD_GET_def METHOD_POST_def METHOD_PUT_def METHOD_DELETE_def METHOD_HEAD_def

definition methpow :: "string list" where
  "methpow = [[], ''GET'', ''POST'', ''PUT'', ''DELETE'', ''PATCH'', ''HEAD'', ''OPTIONS'']"

definition methodsToString :: "method_bits \<Rightarrow> string" where
  "methodsToString ms =
    foldl (\<lambda>sm idx. if ms AND push_bit idx 1 = 0 then sm else (if sm \<noteq> [] then sm @ ''|'' else sm) @ methpow ! idx) [] [0..<8]"

section \<open>Routes, routers and the root\<close>

record 'h Route =
  r_endpoint :: string
  r_methods :: method_bits
  r_h3 :: 'h

record 'h Router =
  m_routes :: "'h Route list"
  m_endpointPrefix :: string

definition new_Router :: "string \<Rightarrow> 'h Router" where
  "new_Router pfx = \<lparr>m_routes = [], m_endpointPrefix = pfx\<rparr>"

definition addRoute :: "string \<Rightarrow> method_bits \<Rightarrow> 'h \<Rightarrow> 'h Router \<Rightarrow> 'h Router" where
  "addRoute endpoint ms ph3 r =
    r\<lparr>m_routes := \<lparr>r_endpoint = m_endpointPrefix r @ endpoint, r_methods = ms, r_h3 = ph3\<rparr> # m_routes r\<rparr>"

record 'h Root =
  m_compiled :: bool
  m_node :: "'h Route list"
  m_routers :: "'h Router list"

definition new_Root :: "'h Root" where
  "new_Root = \<lparr>m_compiled = False, m_node = [], m_routers = []\<rparr>"

definition addRouter :: "'h Router \<Rightarrow> 'h Root \<Rightarrow> 'h Root" where
  "addRouter r rt = rt\<lparr>m_routers := r # m_routers rt\<rparr>"

definition root_routes :: "'h Root \<Rightarrow> 'h Route list" where
  "root_routes rt = concat (map m_routes (m_routers rt))"

record r3_api =
  r3_compile :: "(method_bits \<times> string) list \<Rightarrow> string option"
  r3_match :: "(method_bits \<times> string) list \<Rightarrow> string \<Rightarrow> int \<Rightarrow> (nat \<times> (string \<times> string) list) option"

definition r3_view :: "'h Route list \<Rightarrow> (method_bits \<times> string) list" where
  "r3_view rs = map (\<lambda>r. (r_methods r, r_endpoint r)) rs"

definition arm :: "r3_api \<Rightarrow> 'h Root \<Rightarrow> bool \<times> 'h Root" where
  "arm api rt =
    (let node = m_node rt @ root_routes rt;
         err = r3_compile api (r3_view node)
     in (err = None, rt\<lparr>m_node := node, m_compiled := (err = None)\<rparr>))"

text \<open>What the code relies on: a match is a route that was inserted, for the method of the request.\<close>

definition r3_ok :: "r3_api \<Rightarrow> bool" where
  "r3_ok api \<longleftrightarrow> (\<forall>rs t m i vs. r3_match api rs t m = Some (i, vs) \<longrightarrow> i < length rs \<and> fst (rs ! i) AND of_int m \<noteq> 0)"

definition match_route :: "r3_api \<Rightarrow> string \<Rightarrow> int \<Rightarrow> 'h Root \<Rightarrow> (vars_t \<times> 'h) option" where
  "match_route api target meth rt =
    (case r3_match api (r3_view (m_node rt)) target meth of
       None \<Rightarrow> None
     | Some (i, vs) \<Rightarrow> Some (sort_key fst vs, r_h3 (m_node rt ! i)))"

section \<open>The check for conflicting routes\<close>

fun check_routes :: "(string \<rightharpoonup> method_bits) \<Rightarrow> 'h Route list \<Rightarrow> string" where
  "check_routes m [] = []"
| "check_routes m (rr # rs) =
    (case m (r_endpoint rr) of
       None \<Rightarrow> check_routes (m(r_endpoint rr \<mapsto> r_methods rr)) rs
     | Some b \<Rightarrow>
         if b AND r_methods rr \<noteq> 0 then r_endpoint rr
         else check_routes (m(r_endpoint rr \<mapsto> b AND r_methods rr)) rs)"

definition dbgCheckConflictRoutes :: "'h Root \<Rightarrow> string" where
  "dbgCheckConflictRoutes rt = check_routes Map.empty (root_routes rt)"

section \<open>The dump\<close>

text \<open>\<open>ptr\<close> prints a handler, \<^verbatim>\<open>nullptr\<close> or its address.\<close>

definition dbgDumpRouter :: "('h \<Rightarrow> string list) \<Rightarrow> string \<Rightarrow> 'h Router \<Rightarrow> string" where
  "dbgDumpRouter ptr pfx r =
    concat (map (\<lambda>x. pfx @ methodsToString (r_methods x) @ '' '' @ r_endpoint x @ '' ('' @
      (ptr (r_h3 x) ! 0) @ '','' @ (ptr (r_h3 x) ! 1) @ '','' @ (ptr (r_h3 x) ! 2) @ '')'' @ [CHR 0x0A]) (m_routes r))"

definition dbgDumpRouters :: "('h \<Rightarrow> string list) \<Rightarrow> 'h Root \<Rightarrow> string" where
  "dbgDumpRouters ptr rt =
    concat (map (\<lambda>(idx, r). ''router['' @ nat_to_string idx @ '']->'' @ [CHR 0x0A] @ dbgDumpRouter ptr [CHR 0x09] r)
      (enumerate 0 (m_routers rt)))"

section \<open>What the check finds\<close>

text \<open>Two routes conflict when they have the same endpoint and a method in common.\<close>

definition conflict :: "'h Route \<Rightarrow> 'h Route \<Rightarrow> bool" where
  "conflict r r' \<longleftrightarrow> r_endpoint r = r_endpoint r' \<and> r_methods r AND r_methods r' \<noteq> 0"

definition conflict_free :: "'h Route list \<Rightarrow> bool" where
  "conflict_free rs \<longleftrightarrow> (\<forall>i j. i < j \<and> j < length rs \<longrightarrow> \<not> conflict (rs ! i) (rs ! j))"

text \<open>The bits kept for an endpoint are those that all routes seen for it have.\<close>

definition common_methods :: "'h Route list \<Rightarrow> string \<rightharpoonup> method_bits" where
  "common_methods rs e =
    (let ms = map r_methods (filter (\<lambda>r. r_endpoint r = e) rs) in if ms = [] then None else Some (foldr (AND) ms (-1)))"

lemma common_step:
  "common_methods (rs @ [rr]) = (case common_methods rs (r_endpoint rr) of
     None \<Rightarrow> (common_methods rs)(r_endpoint rr \<mapsto> r_methods rr)
   | Some b \<Rightarrow> (common_methods rs)(r_endpoint rr \<mapsto> b AND r_methods rr))"
proof -
  have f: "foldr (AND) ms x = foldr (AND) ms (-1) AND x" for ms and x :: method_bits
    by (induction ms) (simp_all add: ac_simps)
  show ?thesis
    by (rule ext) (auto simp: common_methods_def Let_def f [of _ "r_methods rr"] f [of _ "r_methods rr AND - 1"] split: option.splits)
qed

lemma common_le:
  assumes "common_methods rs e = Some b" "r \<in> set rs" "r_endpoint r = e"
  shows "b AND r_methods r = b"
proof -
  have "foldr (AND) ms (-1) AND x = foldr (AND) ms (-1)" if "x \<in> set ms" for ms and x :: method_bits
    using that by (induction ms) (auto simp: ac_simps)
  then show ?thesis using assms by (auto simp: common_methods_def Let_def split: if_splits)
qed

lemma check_spec:
  "check_routes (common_methods ps) rs = s \<Longrightarrow> s \<noteq> [] \<Longrightarrow>
    \<exists>qs rr us. rs = qs @ rr # us \<and> r_endpoint rr = s \<and> (\<exists>b. common_methods (ps @ qs) s = Some b \<and> b AND r_methods rr \<noteq> 0)"
proof (induction rs arbitrary: ps)
  case (Cons rr rs)
  let ?b = "common_methods ps (r_endpoint rr)"
  show ?case
  proof (cases "\<exists>b. ?b = Some b \<and> b AND r_methods rr \<noteq> 0")
    case True
    then show ?thesis using Cons.prems by (intro exI [of _ "[]"]) auto
  next
    case False
    then have "check_routes (common_methods (ps @ [rr])) rs = s"
      using Cons.prems(1) unfolding common_step by (auto split: option.splits)
    from Cons.IH [OF this Cons.prems(2)] obtain qs r us where "rs = qs @ r # us" "r_endpoint r = s"
      "\<exists>b. common_methods ((ps @ [rr]) @ qs) s = Some b \<and> b AND r_methods r \<noteq> 0" by blast
    then show ?thesis by (intro exI [of _ "rr # qs"]) auto
  qed
qed simp

lemma check_clear:
  "check_routes (common_methods ps) rs = [] \<Longrightarrow> \<forall>r\<in>set rs. r_endpoint r \<noteq> [] \<Longrightarrow> rs = qs @ rr # us \<Longrightarrow>
    common_methods (ps @ qs) (r_endpoint rr) = Some b \<Longrightarrow> b AND r_methods rr = 0"
proof (induction rs arbitrary: ps qs)
  case (Cons x rs)
  have c: "\<not> (\<exists>b. common_methods ps (r_endpoint x) = Some b \<and> b AND r_methods x \<noteq> 0)" "check_routes (common_methods (ps @ [x])) rs = []"
    using Cons.prems(1,2) unfolding common_step by (auto split: option.splits if_splits)
  show ?case
  proof (cases qs)
    case Nil
    with Cons.prems c(1) show ?thesis by auto
  next
    case (Cons y ys)
    then show ?thesis using Cons.IH [OF c(2), of ys] Cons.prems by auto
  qed
qed simp

lemma common_empty [simp]: "common_methods [] = Map.empty"
  by (rule ext) (simp add: common_methods_def)

text \<open>
  A reported conflict is real: when the check returns an endpoint, two of the registered routes have it and a method in common.
\<close>

theorem reported_conflict_is_real:
  assumes "dbgCheckConflictRoutes rt = s" "s \<noteq> []" "rs = root_routes rt"
  shows "\<exists>i j. i < j \<and> j < length rs \<and> r_endpoint (rs ! j) = s \<and> conflict (rs ! i) (rs ! j)"
proof -
  obtain qs rr us b where r: "rs = qs @ rr # us" "r_endpoint rr = s" "common_methods qs s = Some b" "b AND r_methods rr \<noteq> 0"
    using check_spec [of "[]" rs s] assms by (auto simp: dbgCheckConflictRoutes_def)
  then obtain r where q: "r \<in> set qs" "r_endpoint r = s"
    by (auto simp: common_methods_def Let_def filter_empty_conv split: if_splits)
  then obtain i where i: "i < length qs" "qs ! i = r" by (auto simp: in_set_conv_nth)
  have "b AND (r_methods r AND r_methods rr) \<noteq> 0" using common_le [OF r(3) q] r(4) by (simp flip: and.assoc)
  then have "conflict r rr" using r(2) q(2) by (auto simp: conflict_def)
  then show ?thesis using r i by (intro exI [of _ i] exI [of _ "length qs"]) (simp add: nth_append)
qed

theorem reported_conflict_is_real_witness:
  "\<exists>i j. i < j \<and> j < 2 \<and> conflict ([\<lparr>r_endpoint = ''/a'', r_methods = METHOD_GET, r_h3 = ()\<rparr>, \<lparr>r_endpoint = ''/a'', r_methods = 6, r_h3 = ()\<rparr>] ! i)
     ([\<lparr>r_endpoint = ''/a'', r_methods = METHOD_GET, r_h3 = ()\<rparr>, \<lparr>r_endpoint = ''/a'', r_methods = 6, r_h3 = ()\<rparr>] ! j)"
proof -
  let ?rt = "addRouter (addRoute ''/a'' METHOD_GET () (addRoute ''/a'' 6 () (new_Router []))) new_Root"
  have "root_routes ?rt = [\<lparr>r_endpoint = ''/a'', r_methods = METHOD_GET, r_h3 = ()\<rparr>, \<lparr>r_endpoint = ''/a'', r_methods = 6, r_h3 = ()\<rparr>]"
    "dbgCheckConflictRoutes ?rt = ''/a''" by code_simp+
  with reported_conflict_is_real [of ?rt "''/a''" "root_routes ?rt"] show ?thesis by (auto simp: numeral_2_eq_2)
qed

text \<open>
  When no endpoint is registered more than twice the check also finds every conflict.
\<close>

theorem pairwise_check_complete:
  assumes "dbgCheckConflictRoutes rt = []" "rs = root_routes rt" "\<forall>r\<in>set rs. r_endpoint r \<noteq> []"
    and "\<forall>e. length (filter (\<lambda>r. r_endpoint r = e) rs) \<le> 2"
  shows "conflict_free rs"
  unfolding conflict_free_def
proof (intro allI impI notI)
  fix i j assume ij: "i < j \<and> j < length rs" and c: "conflict (rs ! i) (rs ! j)"
  let ?e = "r_endpoint (rs ! j)" and ?P = "\<lambda>r. r_endpoint r = r_endpoint (rs ! j)"
  have sp: "rs = take j rs @ rs ! j # drop (Suc j) rs" using ij by (simp add: id_take_nth_drop)
  have "length (filter ?P rs) = length (filter ?P (take j rs)) + (1 + length (filter ?P (drop (Suc j) rs)))"
    by (subst sp) simp
  then have "length (filter ?P (take j rs)) \<le> 1" using assms(4) [rule_format, of ?e] by simp
  moreover have "rs ! i \<in> set (filter ?P (take j rs))" using ij c by (auto simp: conflict_def in_set_conv_nth)
  ultimately have "filter ?P (take j rs) = [rs ! i]" by (cases "filter ?P (take j rs)") auto
  then have "common_methods (take j rs) ?e = Some (r_methods (rs ! i))" by (simp add: common_methods_def)
  with check_clear [of "[]" rs "take j rs" "rs ! j"] sp assms(1-3) have "r_methods (rs ! i) AND r_methods (rs ! j) = 0"
    by (simp add: dbgCheckConflictRoutes_def)
  with c show False by (simp add: conflict_def)
qed

text \<open>
  The check misses conflicts. The bits of an endpoint are combined with the logical and, so that after two routes with different methods
  nothing is left to compare with: a third route may repeat a method of the first without being reported.
\<close>

theorem conflict_missed:
  "dbgCheckConflictRoutes (addRouter (addRoute ''/a'' METHOD_GET () (addRoute ''/a'' METHOD_POST () (addRoute ''/a'' METHOD_GET () (new_Router []))))
     new_Root) = [] \<and>
   conflict \<lparr>r_endpoint = ''/a'', r_methods = METHOD_GET, r_h3 = ()\<rparr> \<lparr>r_endpoint = ''/a'', r_methods = METHOD_GET, r_h3 = ()\<rparr>"
  by code_simp

text \<open>A request is handed to the handler of a route that was registered, for its method.\<close>

lemma matched_is_registered:
  assumes "r3_ok api" "match_route api target meth rt = Some (vs, h)"
  shows "\<exists>r\<in>set (m_node rt). r_h3 r = h \<and> r_methods r AND of_int meth \<noteq> 0"
proof -
  obtain i vs0 where i: "r3_match api (r3_view (m_node rt)) target meth = Some (i, vs0)" "h = r_h3 (m_node rt ! i)"
    using assms(2) by (auto simp: match_route_def split: option.splits)
  then have "i < length (m_node rt)" "r_methods (m_node rt ! i) AND of_int meth \<noteq> 0"
    using assms(1) unfolding r3_ok_def r3_view_def by fastforce+
  then show ?thesis using i(2) nth_mem by blast
qed

end
