(* ===== verification/Supernode_Model.thy ===== *)
theory Supernode_Model
  imports Graft_Prelude
begin

text \<open>
  The class \<^verbatim>\<open>graft::Supernode\<close> (include/rta/supernode.h, src/rta/supernode.cpp): a
  supernode's identity key, stake and announce bookkeeping, the signed announce and the key
  file. The cryptographic primitives and the hexadecimal codec live in the cryptonode
  submodule; they are the fields of the record \<open>crypto_api\<close>, an argument of every
  definition that calls them. \<open>generate_signature\<close> stands for one run of the randomised
  signer. The clock (\<^verbatim>\<open>std::time\<close>) is the argument \<open>now\<close>.
\<close>

section \<open>The cryptonode primitives the code calls\<close>

record ('pk, 'sk, 'sg, 'h) crypto_api =
  pk_to_hex :: "'pk \<Rightarrow> string"
  hex_to_pk :: "string \<Rightarrow> 'pk option"
  sk_to_hex :: "'sk \<Rightarrow> string"
  hex_to_sk :: "string \<Rightarrow> 'sk option"
  sg_to_hex :: "'sg \<Rightarrow> string"
  hex_to_sg :: "string \<Rightarrow> 'sg option"
  hash_to_hex :: "'h \<Rightarrow> string"
  hex_to_hash :: "string \<Rightarrow> 'h option"
  cn_fast_hash :: "string \<Rightarrow> 'h"
  generate_signature :: "'h \<Rightarrow> 'pk \<Rightarrow> 'sk \<Rightarrow> 'sg"
  check_signature :: "'h \<Rightarrow> 'pk \<Rightarrow> 'sg \<Rightarrow> bool"
  secret_key_to_public_key :: "'sk \<Rightarrow> 'pk option"

text \<open>The documented behaviour the development relies on, where a theorem names it.\<close>

definition hex_codec_ok :: "('pk, 'sk, 'sg, 'h) crypto_api \<Rightarrow> bool" where
  "hex_codec_ok C \<longleftrightarrow>
     (\<forall>k. hex_to_pk C (pk_to_hex C k) = Some k \<and> pk_to_hex C k \<noteq> []) \<and>
     (\<forall>k. hex_to_sk C (sk_to_hex C k) = Some k) \<and>
     (\<forall>s. hex_to_sg C (sg_to_hex C s) = Some s) \<and>
     (\<forall>h. hex_to_hash C (hash_to_hex C h) = Some h)"

definition signatures_ok :: "('pk, 'sk, 'sg, 'h) crypto_api \<Rightarrow> bool" where
  "signatures_ok C \<longleftrightarrow>
     (\<forall>h pk sk. secret_key_to_public_key C sk = Some pk \<longrightarrow>
        check_signature C h pk (generate_signature C h pk sk))"

lemma pk_hex_roundtrip: "hex_codec_ok C \<Longrightarrow> hex_to_pk C (pk_to_hex C k) = Some k"
  by (simp add: hex_codec_ok_def)

lemma pk_to_hex_inj: "hex_codec_ok C \<Longrightarrow> pk_to_hex C a = pk_to_hex C b \<Longrightarrow> a = b"
  by (metis hex_codec_ok_def option.inject)

section \<open>The stake thresholds (\<^verbatim>\<open>config::graft\<close>)\<close>

record tier_config =
  TIER1_STAKE_AMOUNT :: u64
  TIER2_STAKE_AMOUNT :: u64
  TIER3_STAKE_AMOUNT :: u64
  TIER4_STAKE_AMOUNT :: u64

section \<open>Data\<close>

record supernode_stake =
  stake_amount :: u64
  stake_block_height :: u64
  stake_unlock_time :: u64
  stake_public_id :: string
  stake_public_address :: string

record ('pk, 'sk) Supernode =
  m_wallet_address :: string
  m_id_key :: 'pk
  m_secret_key :: "'sk option"
  m_has_secret_key :: bool
  m_last_update_time :: u64
  m_stake_amount :: u64
  m_stake_block_height :: u64
  m_stake_unlock_time :: u64
  m_testnet :: bool
  m_network_address :: string

record SupernodeAnnounce =
  ann_public_id :: string
  ann_height :: u64
  ann_signature :: string
  ann_network_address :: string

section \<open>Operations\<close>

text \<open>
  The constructor leaves \<open>m_secret_key\<close> uninitialised (\<open>None\<close>); \<open>m_last_update_time\<close>
  is the bit pattern of an \<^verbatim>\<open>int64_t\<close>.
\<close>

definition new_Supernode :: "string \<Rightarrow> 'pk \<Rightarrow> bool \<Rightarrow> ('pk, 'sk) Supernode" where
  "new_Supernode wallet_address id_key testnet =
     \<lparr> m_wallet_address = wallet_address, m_id_key = id_key, m_secret_key = None,
       m_has_secret_key = False, m_last_update_time = 0, m_stake_amount = 0,
       m_stake_block_height = 0, m_stake_unlock_time = 0, m_testnet = testnet,
       m_network_address = [] \<rparr>"

definition tier :: "tier_config \<Rightarrow> ('pk, 'sk) Supernode \<Rightarrow> u32" where
  "tier cfg sn =
     (let stake = m_stake_amount sn in
      0 + of_bool (stake \<ge> TIER1_STAKE_AMOUNT cfg)
        + of_bool (stake \<ge> TIER2_STAKE_AMOUNT cfg)
        + of_bool (stake \<ge> TIER3_STAKE_AMOUNT cfg)
        + of_bool (stake \<ge> TIER4_STAKE_AMOUNT cfg))"

definition setWalletAddress :: "string \<Rightarrow> ('pk, 'sk) Supernode \<Rightarrow> ('pk, 'sk) Supernode" where
  "setWalletAddress address sn = sn\<lparr>m_wallet_address := address\<rparr>"

definition setStake :: "u64 \<Rightarrow> u64 \<Rightarrow> u64 \<Rightarrow> ('pk, 'sk) Supernode \<Rightarrow> ('pk, 'sk) Supernode" where
  "setStake amount blockHeight unlockTime sn =
     sn\<lparr>m_stake_amount := amount, m_stake_block_height := blockHeight,
        m_stake_unlock_time := unlockTime\<rparr>"

definition setLastUpdateTime :: "u64 \<Rightarrow> ('pk, 'sk) Supernode \<Rightarrow> ('pk, 'sk) Supernode" where
  "setLastUpdateTime time sn = sn\<lparr>m_last_update_time := time\<rparr>"

definition setNetworkAddress :: "string \<Rightarrow> ('pk, 'sk) Supernode \<Rightarrow> ('pk, 'sk) Supernode" where
  "setNetworkAddress a sn = (if m_network_address sn \<noteq> a then sn\<lparr>m_network_address := a\<rparr> else sn)"

text \<open>The two remnants of the wallet the class once held.\<close>

definition refresh :: "('pk, 'sk) Supernode \<Rightarrow> bool" where
  "refresh sn = True"

definition busy :: "('pk, 'sk) Supernode \<Rightarrow> bool" where
  "busy sn = False"

definition idKeyAsString :: "('pk, 'sk, 'sg, 'h) crypto_api \<Rightarrow> ('pk, 'sk) Supernode \<Rightarrow> string" where
  "idKeyAsString C sn = pk_to_hex C (m_id_key sn)"

definition signHash ::
  "('pk, 'sk, 'sg, 'h) crypto_api \<Rightarrow> ('pk, 'sk) Supernode \<Rightarrow> 'h \<Rightarrow> 'sg option" where
  "signHash C sn hash =
     (if \<not> m_has_secret_key sn then None
      else map_option (generate_signature C hash (m_id_key sn)) (m_secret_key sn))"

definition signMessage ::
  "('pk, 'sk, 'sg, 'h) crypto_api \<Rightarrow> ('pk, 'sk) Supernode \<Rightarrow> string \<Rightarrow> 'sg option" where
  "signMessage C sn msg = signHash C sn (cn_fast_hash C msg)"

definition verifyHash :: "('pk, 'sk, 'sg, 'h) crypto_api \<Rightarrow> 'h \<Rightarrow> 'pk \<Rightarrow> 'sg \<Rightarrow> bool" where
  "verifyHash C hash pkey signature = check_signature C hash pkey signature"

definition verifySignature ::
  "('pk, 'sk, 'sg, 'h) crypto_api \<Rightarrow> string \<Rightarrow> 'pk \<Rightarrow> 'sg \<Rightarrow> bool" where
  "verifySignature C msg pkey signature = verifyHash C (cn_fast_hash C msg) pkey signature"

definition getScoreHash ::
  "('pk, 'sk, 'sg, 'h) crypto_api \<Rightarrow> ('pk, 'sk) Supernode \<Rightarrow> 'h \<Rightarrow> 'h" where
  "getScoreHash C sn block_hash =
     cn_fast_hash C (pk_to_hex C (m_id_key sn) @ hash_to_hex C block_hash)"

text \<open>\<open>validateAnnounce\<close> returns the parsed identity key, or \<open>None\<close> where the code returns false.\<close>

definition validateAnnounce ::
  "('pk, 'sk, 'sg, 'h) crypto_api \<Rightarrow> SupernodeAnnounce \<Rightarrow> 'pk option" where
  "validateAnnounce C announce =
     (if ann_public_id announce = [] then None
      else case hex_to_pk C (ann_public_id announce) of
        None \<Rightarrow> None
      | Some id_key \<Rightarrow>
          (case hex_to_sg C (ann_signature announce) of
             None \<Rightarrow> None
           | Some sign \<Rightarrow>
               (let msg = ann_public_id announce @ u64_to_string (ann_height announce) in
                if \<not> verifySignature C msg id_key sign then None else Some id_key)))"

definition updateFromAnnounce ::
  "('pk, 'sk, 'sg, 'h) crypto_api \<Rightarrow> u64 \<Rightarrow> SupernodeAnnounce \<Rightarrow> ('pk, 'sk) Supernode
     \<Rightarrow> bool \<times> ('pk, 'sk) Supernode" where
  "updateFromAnnounce C now announce sn =
     (case validateAnnounce C announce of
        None \<Rightarrow> (False, sn)
      | Some _ \<Rightarrow> (True, setLastUpdateTime now sn))"

definition createFromAnnounce ::
  "('pk, 'sk, 'sg, 'h) crypto_api \<Rightarrow> u64 \<Rightarrow> SupernodeAnnounce \<Rightarrow> bool
     \<Rightarrow> ('pk, 'sk) Supernode option" where
  "createFromAnnounce C now announce testnet =
     (case validateAnnounce C announce of
        None \<Rightarrow> None
      | Some id_key \<Rightarrow> Some (setLastUpdateTime now (new_Supernode [] id_key testnet)))"

definition prepareAnnounce ::
  "('pk, 'sk, 'sg, 'h) crypto_api \<Rightarrow> ('pk, 'sk) Supernode \<Rightarrow> SupernodeAnnounce option" where
  "prepareAnnounce C sn =
     (let public_id = idKeyAsString C sn; height = m_stake_block_height sn in
      case signMessage C sn (public_id @ u64_to_string height) of
        None \<Rightarrow> None
      | Some sign \<Rightarrow>
          Some \<lparr> ann_public_id = public_id, ann_height = height,
                 ann_signature = sg_to_hex C sign, ann_network_address = m_network_address sn \<rparr>)"

definition createFromStake ::
  "('pk, 'sk, 'sg, 'h) crypto_api \<Rightarrow> u64 \<Rightarrow> supernode_stake \<Rightarrow> bool
     \<Rightarrow> ('pk, 'sk) Supernode option" where
  "createFromStake C now stake testnet =
     (case hex_to_pk C (stake_public_id stake) of
        None \<Rightarrow> None
      | Some id_key \<Rightarrow>
          Some (setStake (stake_amount stake) (stake_block_height stake) (stake_unlock_time stake)
                 (setLastUpdateTime now
                    (new_Supernode (stake_public_address stake) id_key testnet))))"

section \<open>The key file\<close>

text \<open>
  A file system is a map from names to contents. Reading fails on a missing file; writing and
  renaming may fail, which the arguments \<open>save_ok\<close> and \<open>rename_ok\<close> say; \<open>indet\<close>
  is what an uninitialised secret key prints as. The result is the returned flag with the changed supernode (loading) or file system (saving).
\<close>

type_synonym files = "string \<rightharpoonup> string"

definition loadKeys ::
  "('pk, 'sk, 'sg, 'h) crypto_api \<Rightarrow> files \<Rightarrow> string \<Rightarrow> ('pk, 'sk) Supernode
     \<Rightarrow> bool \<times> ('pk, 'sk) Supernode" where
  "loadKeys C fs filename sn =
     (case fs filename of
        None \<Rightarrow> (False, sn)
      | Some key_data \<Rightarrow>
          (case hex_to_sk C key_data of
             None \<Rightarrow> (False, sn)
           | Some sk \<Rightarrow>
               (let sn' = sn\<lparr>m_secret_key := Some sk\<rparr> in
                case secret_key_to_public_key C sk of
                  None \<Rightarrow> (False, sn')
                | Some pk \<Rightarrow> (True, sn'\<lparr>m_id_key := pk, m_has_secret_key := True\<rparr>))))"

definition initKeys :: "'pk \<times> 'sk \<Rightarrow> ('pk, 'sk) Supernode \<Rightarrow> ('pk, 'sk) Supernode" where
  "initKeys generated sn =
     sn\<lparr>m_id_key := fst generated, m_secret_key := Some (snd generated), m_has_secret_key := True\<rparr>"

definition saveKeys ::
  "('pk, 'sk, 'sg, 'h) crypto_api \<Rightarrow> string \<Rightarrow> bool \<Rightarrow> bool \<Rightarrow> files \<Rightarrow> string \<Rightarrow> bool
     \<Rightarrow> ('pk, 'sk) Supernode \<Rightarrow> bool \<times> files" where
  "saveKeys C indet save_ok rename_ok fs filename force sn =
     (if fs filename \<noteq> None \<and> \<not> force then (False, fs)
      else
        let tmp = filename @ ''.tmp'' in
        if \<not> save_ok then (False, fs)
        else
          let fs' = fs(tmp \<mapsto> (case m_secret_key sn of None \<Rightarrow> indet | Some sk \<Rightarrow> sk_to_hex C sk)) in
          if \<not> rename_ok then (False, fs')
          else (True, fs'(filename := fs' tmp, tmp := None)))"

lemmas [graft_defs] =
  setWalletAddress_def setStake_def setLastUpdateTime_def new_Supernode_def idKeyAsString_def

section \<open>Key consistency\<close>

text \<open>
  A supernode that holds a secret key holds one whose public key is its identity: what
  \<open>signHash\<close> signs is checkable against the announced id.
\<close>

definition keys_ok :: "('pk, 'sk, 'sg, 'h) crypto_api \<Rightarrow> ('pk, 'sk) Supernode \<Rightarrow> bool" where
  "keys_ok C sn \<longleftrightarrow>
     (m_has_secret_key sn \<longrightarrow>
        (\<exists>sk. m_secret_key sn = Some sk \<and> secret_key_to_public_key C sk = Some (m_id_key sn)))"

lemma keys_ok_new [graft_inv]: "keys_ok C (new_Supernode w k t)"
  by (simp add: keys_ok_def new_Supernode_def)

lemma keys_ok_setters [graft_inv, simp]:
  "keys_ok C (setStake a b u sn) = keys_ok C sn"
  "keys_ok C (setWalletAddress w sn) = keys_ok C sn"
  "keys_ok C (setLastUpdateTime t sn) = keys_ok C sn"
  "keys_ok C (setNetworkAddress n sn) = keys_ok C sn"
  by (simp_all add: keys_ok_def setStake_def setWalletAddress_def setLastUpdateTime_def
      setNetworkAddress_def)

lemma keys_ok_loadKeys [graft_inv]:
  "fst (loadKeys C fs f sn) \<Longrightarrow> keys_ok C (snd (loadKeys C fs f sn))"
  by (auto simp: loadKeys_def keys_ok_def Let_def split: option.splits)

lemma keys_ok_signs:
  assumes "keys_ok C sn" "signatures_ok C" "signHash C sn h = Some s"
  shows "check_signature C h (m_id_key sn) s"
  using assms by (auto simp: keys_ok_def signatures_ok_def signHash_def split: if_splits)

lemma keys_ok_signs_message:
  assumes "keys_ok C sn" "signatures_ok C" "signMessage C sn m = Some s"
  shows "verifySignature C m (m_id_key sn) s"
  using assms keys_ok_signs by (auto simp: signMessage_def verifySignature_def verifyHash_def)

lemma id_setters [simp]:
  "m_id_key (setStake a b u sn) = m_id_key sn"
  "m_id_key (setWalletAddress w sn) = m_id_key sn"
  "m_id_key (setLastUpdateTime t sn) = m_id_key sn"
  "m_id_key (setNetworkAddress n sn) = m_id_key sn"
  "m_id_key (new_Supernode w k tn) = k"
  by (simp_all add: setStake_def setWalletAddress_def setLastUpdateTime_def setNetworkAddress_def
      new_Supernode_def)

lemma idKeyAsString_setters [simp]:
  "idKeyAsString C (setStake a b u sn) = idKeyAsString C sn"
  "idKeyAsString C (setWalletAddress w sn) = idKeyAsString C sn"
  "idKeyAsString C (setLastUpdateTime t sn) = idKeyAsString C sn"
  by (simp_all add: idKeyAsString_def)

lemma createFromStake_id:
  "createFromStake C now st tn = Some sn \<Longrightarrow> hex_to_pk C (stake_public_id st) = Some (m_id_key sn)"
  by (auto simp: createFromStake_def split: option.splits)

lemma createFromAnnounce_id:
  "createFromAnnounce C now a tn = Some sn \<Longrightarrow> validateAnnounce C a = Some (m_id_key sn)"
  by (auto simp: createFromAnnounce_def split: option.splits)

section \<open>A concrete instance of the primitives\<close>

text \<open>
  Keys, signatures and hashes are strings, the codec prepends a character, and a signature is
  the signed hash: the assumptions above hold together.
\<close>

fun demo_unhex :: "string \<Rightarrow> string option" where
  "demo_unhex [] = None"
| "demo_unhex (c # cs) = (if c = CHR ''0'' then Some cs else None)"

definition demo_crypto :: "(string, string, string, string) crypto_api" where
  "demo_crypto =
     \<lparr> pk_to_hex = Cons (CHR ''0''), hex_to_pk = demo_unhex,
       sk_to_hex = Cons (CHR ''0''), hex_to_sk = demo_unhex,
       sg_to_hex = Cons (CHR ''0''), hex_to_sg = demo_unhex,
       hash_to_hex = Cons (CHR ''0''), hex_to_hash = demo_unhex,
       cn_fast_hash = (\<lambda>m. m), generate_signature = (\<lambda>h pk sk. h),
       check_signature = (\<lambda>h pk s. s = h), secret_key_to_public_key = Some \<rparr>"

lemma demo_crypto_ok: "hex_codec_ok demo_crypto" "signatures_ok demo_crypto"
  by (simp_all add: hex_codec_ok_def signatures_ok_def demo_crypto_def)

section \<open>Properties\<close>

lemma announced_by:
  assumes "hex_codec_ok C" "signatures_ok C" "keys_ok C sn" "m_has_secret_key sn"
  shows "\<exists>a. prepareAnnounce C sn = Some a \<and> validateAnnounce C a = Some (m_id_key sn)"
proof -
  let ?m = "idKeyAsString C sn @ u64_to_string (m_stake_block_height sn)"
  from assms(3,4) obtain sg where sg: "signMessage C sn ?m = Some sg"
    by (auto simp: keys_ok_def signMessage_def signHash_def)
  let ?a = "\<lparr> ann_public_id = idKeyAsString C sn, ann_height = m_stake_block_height sn,
     ann_signature = sg_to_hex C sg, ann_network_address = m_network_address sn \<rparr>"
  have "prepareAnnounce C sn = Some ?a" using sg by (simp add: prepareAnnounce_def Let_def)
  moreover have "validateAnnounce C ?a = Some (m_id_key sn)"
    using keys_ok_signs_message [OF assms(3,2) sg] assms(1)
    by (simp add: validateAnnounce_def Let_def idKeyAsString_def hex_codec_ok_def)
  ultimately show ?thesis by blast
qed

text \<open>
  Announces. A supernode whose keys belong together and which has its secret key always
  produces an announce, and every node that receives it accepts it as coming from exactly
  that identity key: a watch-only supernode is created with that key and the time of the
  receiver, and a known one has its time updated and nothing else changed.
\<close>

theorem announce_roundtrip:
  assumes "hex_codec_ok C" "signatures_ok C" "keys_ok C sn" "m_has_secret_key sn"
  shows "\<exists>a. prepareAnnounce C sn = Some a \<and> validateAnnounce C a = Some (m_id_key sn) \<and>
    createFromAnnounce C now a tn = Some (setLastUpdateTime now (new_Supernode [] (m_id_key sn) tn) :: ('pk, 'sk) Supernode) \<and>
    (\<forall>other :: ('pk, 'sk) Supernode. updateFromAnnounce C now a other = (True, setLastUpdateTime now other))"
  using announced_by [OF assms] by (auto simp: createFromAnnounce_def updateFromAnnounce_def)

definition demo_sn :: "(string, string) Supernode" where
  "demo_sn = initKeys (''k'', ''k'') (new_Supernode ''w'' ''x'' False)"

theorem announce_roundtrip_witness:
  "\<exists>a. prepareAnnounce demo_crypto demo_sn = Some a \<and> validateAnnounce demo_crypto a = Some ''k''"
proof -
  have "keys_ok demo_crypto demo_sn" "m_has_secret_key demo_sn" "m_id_key demo_sn = ''k''"
    by (simp_all add: keys_ok_def demo_sn_def initKeys_def demo_crypto_def)
  with announce_roundtrip [OF demo_crypto_ok, of demo_sn 0 False] show ?thesis by auto
qed

text \<open>
  The key file. Saving to a name that does not exist (or with \<open>force\<close>) and loading it
  into any supernode restores the secret key and its public identity; the temporary file is
  gone and no other file is touched. Without \<open>force\<close> an existing key file is never
  overwritten; and a failed write or rename leaves the key file as it was.
\<close>

theorem key_file_roundtrip:
  assumes "hex_codec_ok C" "keys_ok C sn" "m_has_secret_key sn"
    and "saveKeys C indet w r fs f force sn = (ok, fs')"
  shows "(ok \<longleftrightarrow> w \<and> r \<and> (force \<or> fs f = None)) \<and>
    (ok \<longrightarrow> loadKeys C fs' f other =
       (True, other\<lparr>m_secret_key := m_secret_key sn, m_id_key := m_id_key sn, m_has_secret_key := True\<rparr>) \<and>
       (\<forall>g. g \<noteq> f \<and> g \<noteq> f @ ''.tmp'' \<longrightarrow> fs' g = fs g) \<and> fs' (f @ ''.tmp'') = None) \<and>
    (\<not> ok \<longrightarrow> fs' f = fs f)"
proof -
  have t: "f \<noteq> f @ ''.tmp''" by simp
  from assms(2,3) obtain sk where sk: "m_secret_key sn = Some sk"
    "secret_key_to_public_key C sk = Some (m_id_key sn)" by (auto simp: keys_ok_def)
  have h: "hex_to_sk C (sk_to_hex C sk) = Some sk" using assms(1) by (simp add: hex_codec_ok_def)
  show ?thesis
    using assms(4) t sk h unfolding saveKeys_def loadKeys_def
    by (auto simp: Let_def split: if_splits)
qed

theorem key_file_roundtrip_witness:
  "loadKeys demo_crypto (snd (saveKeys demo_crypto [] True True Map.empty ''key'' False demo_sn)) ''key''
     (new_Supernode [] [] True) =
   (True, (new_Supernode [] [] True)\<lparr>m_secret_key := m_secret_key demo_sn, m_id_key := m_id_key demo_sn,
      m_has_secret_key := True\<rparr>)"
proof -
  obtain ok fs' where s: "saveKeys demo_crypto [] True True Map.empty ''key'' False demo_sn = (ok, fs')"
    by (cases "saveKeys demo_crypto [] True True Map.empty ''key'' False demo_sn")
  have "keys_ok demo_crypto demo_sn" "m_has_secret_key demo_sn"
    by (simp_all add: keys_ok_def demo_sn_def initKeys_def demo_crypto_def)
  from key_file_roundtrip [OF demo_crypto_ok(1) this s] s show ?thesis by simp
qed

text \<open>
  Tiers. With the four thresholds in increasing order, a supernode is of tier \<open>t\<close> or more
  exactly when its stake reaches the \<open>t\<close>-th threshold, so the tier lies between 0 and 4 and
  grows with the stake.
\<close>

theorem tier_thresholds:
  assumes "TIER1_STAKE_AMOUNT cfg \<le> TIER2_STAKE_AMOUNT cfg"
    and "TIER2_STAKE_AMOUNT cfg \<le> TIER3_STAKE_AMOUNT cfg"
    and "TIER3_STAKE_AMOUNT cfg \<le> TIER4_STAKE_AMOUNT cfg"
  shows "(1 \<le> tier cfg sn \<longleftrightarrow> TIER1_STAKE_AMOUNT cfg \<le> m_stake_amount sn) \<and>
    (2 \<le> tier cfg sn \<longleftrightarrow> TIER2_STAKE_AMOUNT cfg \<le> m_stake_amount sn) \<and>
    (3 \<le> tier cfg sn \<longleftrightarrow> TIER3_STAKE_AMOUNT cfg \<le> m_stake_amount sn) \<and>
    (4 \<le> tier cfg sn \<longleftrightarrow> TIER4_STAKE_AMOUNT cfg \<le> m_stake_amount sn) \<and> tier cfg sn \<le> 4"
proof -
  let ?s = "m_stake_amount sn"
  consider "TIER4_STAKE_AMOUNT cfg \<le> ?s" | "TIER3_STAKE_AMOUNT cfg \<le> ?s" "\<not> TIER4_STAKE_AMOUNT cfg \<le> ?s"
    | "TIER2_STAKE_AMOUNT cfg \<le> ?s" "\<not> TIER3_STAKE_AMOUNT cfg \<le> ?s"
    | "TIER1_STAKE_AMOUNT cfg \<le> ?s" "\<not> TIER2_STAKE_AMOUNT cfg \<le> ?s"
    | "\<not> TIER1_STAKE_AMOUNT cfg \<le> ?s"
    using assms by (meson order_trans)
  moreover have "\<not> 2 \<le> (1::u32)" "\<not> 3 \<le> (1::u32)" "\<not> 4 \<le> (1::u32)"
    by (simp_all add: word_le_nat_alt)
  ultimately show ?thesis
    using assms by cases (auto simp: tier_def Let_def)
qed

theorem tier_thresholds_witness:
  "tier \<lparr>TIER1_STAKE_AMOUNT = 50, TIER2_STAKE_AMOUNT = 90, TIER3_STAKE_AMOUNT = 150, TIER4_STAKE_AMOUNT = 250\<rparr>
     (setStake 100 0 0 demo_sn) \<ge> 2"
  using tier_thresholds [where cfg = "\<lparr>TIER1_STAKE_AMOUNT = 50, TIER2_STAKE_AMOUNT = 90,
      TIER3_STAKE_AMOUNT = 150, TIER4_STAKE_AMOUNT = 250\<rparr>" and sn = "setStake 100 0 0 demo_sn"]
  by (simp add: setStake_def)

end
