(* ===== verification/Full_Supernode_List.thy ===== *)
theory Full_Supernode_List
  imports Supernode_Model
begin

text \<open>
  The class \<^verbatim>\<open>graft::FullSupernodeList\<close> (include/rta/fullsupernodelist.h,
  src/rta/fullsupernodelist.cpp): the known supernodes, the blockchain based lists received
  from the cryptonode and the selection of the authorisation sample.

  \<^item> A \<^verbatim>\<open>SupernodePtr\<close> is an address into \<open>sn_heap\<close>, so that the object the server keeps
    in its context and the one in the list may be the same object.
  \<^item> The random engine is an argument: \<open>rng_seed\<close> is \<^verbatim>\<open>m_rng.seed\<close> from the bytes of the
    payment id, \<open>rng_next\<close> one draw. Nothing else of the engine is used.
  \<^item> \<open>SUPERNODE_HISTORY_SIZE\<close> is a constant of the cryptonode submodule, an argument too.
  \<^item> The reader/writer lock makes each operation atomic; \<open>buildAuthSample\<close>, which takes the
    lock twice, is split where it does.
\<close>

section \<open>State\<close>

type_synonym SupernodePtr = nat

record blockchain_based_list_entry =
  entry_public_id :: string
  entry_public_address :: string
  entry_amount :: u64

type_synonym bbl_tier = "blockchain_based_list_entry list"
type_synonym bbl = "bbl_tier list"

text \<open>\<open>ptime\<close>: seconds, or \<open>None\<close> for \<^verbatim>\<open>not_a_date_time\<close>.\<close>

type_synonym ptime = "int option"

record ('pk, 'sk) FullSupernodeList =
  m_list :: "string \<rightharpoonup> SupernodePtr"
  sn_heap :: "SupernodePtr \<Rightarrow> ('pk, 'sk) Supernode"
  sn_next :: SupernodePtr
  m_bbl_max_block_number :: u64
  m_stakes_max_block_number :: u64
  m_blockchain_based_lists :: "u64 \<rightharpoonup> bbl"
  m_next_recv_stakes :: ptime
  m_next_recv_bbl :: ptime

abbreviation TIERS :: nat where "TIERS \<equiv> 4"
abbreviation ITEMS_PER_TIER :: nat where "ITEMS_PER_TIER \<equiv> 2"
abbreviation AUTH_SAMPLE_SIZE :: nat where "AUTH_SAMPLE_SIZE \<equiv> TIERS * ITEMS_PER_TIER"
abbreviation ANNOUNCE_TTL_SECONDS :: u64 where "ANNOUNCE_TTL_SECONDS \<equiv> 60 * 60"
abbreviation BLOCKCHAIN_BASED_LIST_DELAY_BLOCK_COUNT :: u64
  where "BLOCKCHAIN_BASED_LIST_DELAY_BLOCK_COUNT \<equiv> 10"
abbreviation STAKES_RECV_TIMEOUT_SECONDS :: int where "STAKES_RECV_TIMEOUT_SECONDS \<equiv> 600"
abbreviation BBL_RECV_TIMEOUT_SECONDS :: int where "BBL_RECV_TIMEOUT_SECONDS \<equiv> 180"
abbreviation REPEATED_REQUEST_DELAY_SECONDS :: int where "REPEATED_REQUEST_DELAY_SECONDS \<equiv> 10"

definition new_fsl :: "(SupernodePtr \<Rightarrow> ('pk, 'sk) Supernode) \<Rightarrow> SupernodePtr \<Rightarrow> ('pk, 'sk) FullSupernodeList" where
  "new_fsl heap0 next0 =
     \<lparr> m_list = Map.empty, sn_heap = heap0, sn_next = next0, m_bbl_max_block_number = 0,
       m_stakes_max_block_number = 0, m_blockchain_based_lists = Map.empty,
       m_next_recv_stakes = None, m_next_recv_bbl = None \<rparr>"

text \<open>Allocation of a new object: the address it gets and the state that holds it.\<close>

definition sn_alloc ::
  "('pk, 'sk) Supernode \<Rightarrow> ('pk, 'sk) FullSupernodeList \<Rightarrow> SupernodePtr \<times> ('pk, 'sk) FullSupernodeList" where
  "sn_alloc sn s =
     (sn_next s, s\<lparr>sn_heap := (sn_heap s)(sn_next s := sn), sn_next := Suc (sn_next s)\<rparr>)"

section \<open>The list\<close>

definition exists_sn :: "string \<Rightarrow> ('pk, 'sk) FullSupernodeList \<Rightarrow> bool" where
  "exists_sn i s \<longleftrightarrow> m_list s i \<noteq> None"

definition get_sn :: "string \<Rightarrow> ('pk, 'sk) FullSupernodeList \<Rightarrow> SupernodePtr option" where
  "get_sn address s = m_list s address"

text \<open>\<^verbatim>\<open>unordered_map::insert\<close> keeps an existing entry.\<close>

definition addImpl ::
  "('pk, 'sk, 'sg, 'h) crypto_api \<Rightarrow> SupernodePtr \<Rightarrow> ('pk, 'sk) FullSupernodeList \<Rightarrow> ('pk, 'sk) FullSupernodeList" where
  "addImpl C item s =
     (let key = idKeyAsString C (sn_heap s item) in
      if m_list s key = None then s\<lparr>m_list := (m_list s)(key \<mapsto> item)\<rparr> else s)"

definition add_sn ::
  "('pk, 'sk, 'sg, 'h) crypto_api \<Rightarrow> SupernodePtr \<Rightarrow> ('pk, 'sk) FullSupernodeList
     \<Rightarrow> bool \<times> ('pk, 'sk) FullSupernodeList" where
  "add_sn C item s =
     (if exists_sn (idKeyAsString C (sn_heap s item)) s then (False, s)
      else (True, addImpl C item s))"

definition remove_sn :: "string \<Rightarrow> ('pk, 'sk) FullSupernodeList \<Rightarrow> bool \<times> ('pk, 'sk) FullSupernodeList" where
  "remove_sn i s = (m_list s i \<noteq> None, s\<lparr>m_list := (m_list s)(i := None)\<rparr>)"

definition size_fsl :: "('pk, 'sk) FullSupernodeList \<Rightarrow> nat" where
  "size_fsl s = card (dom (m_list s))"

definition items_fsl :: "('pk, 'sk) FullSupernodeList \<Rightarrow> string set" where
  "items_fsl s = dom (m_list s)"

section \<open>Selecting the sample\<close>

text \<open>
  \<open>selectSupernodes\<close>: the loop over \<open>src_array\<close>; at each entry the number of entries
  left is \<^verbatim>\<open>src_array_size - i\<close>. It returns the flag, the selected pointers (appended to
  \<open>dst\<close>) and the engine. \<open>items_count\<close> is decremented only where a value below it was
  drawn, so it does not wrap.
\<close>

fun selectLoop ::
  "('g \<Rightarrow> u64 \<times> 'g) \<Rightarrow> (string \<rightharpoonup> SupernodePtr) \<Rightarrow> nat \<Rightarrow> bbl_tier \<Rightarrow> SupernodePtr list \<Rightarrow> 'g
     \<Rightarrow> bool \<times> SupernodePtr list \<times> 'g" where
  "selectLoop rng_next mlist items_count [] dst g = (True, dst, g)"
| "selectLoop rng_next mlist items_count (e # es) dst g =
     (case mlist (entry_public_id e) of
        None \<Rightarrow> (False, dst, g)
      | Some supernode \<Rightarrow>
          (let (r, g') = rng_next g;
               random_value = unat r mod length (e # es)
           in if random_value \<ge> items_count
              then selectLoop rng_next mlist items_count es dst g'
              else selectLoop rng_next mlist (items_count - 1) es (dst @ [supernode]) g'))"

definition selectSupernodes ::
  "('g \<Rightarrow> u64 \<times> 'g) \<Rightarrow> (string \<rightharpoonup> SupernodePtr) \<Rightarrow> nat \<Rightarrow> bbl_tier \<Rightarrow> SupernodePtr list \<Rightarrow> 'g
     \<Rightarrow> bool \<times> SupernodePtr list \<times> 'g" where
  "selectSupernodes rng_next mlist items_count src_array dst_array g =
     selectLoop rng_next mlist
       (if items_count > length src_array then length src_array else items_count)
       src_array dst_array g"

text \<open>
  The freshness filter of \<open>getBlockchainBasedListForAuthSample\<close>. \<open>now\<close> is
  \<^verbatim>\<open>std::time\<close>; the subtraction is done at 64 bits on the value truncated to
  \<^verbatim>\<open>unsigned\<close> and read as unsigned.
\<close>

definition last_update_age :: "u64 \<Rightarrow> ('pk, 'sk) Supernode \<Rightarrow> u64" where
  "last_update_age now sn = ucast (ucast now :: u32) - m_last_update_time sn"

definition entry_reachable :: "u64 \<Rightarrow> ('pk, 'sk) FullSupernodeList \<Rightarrow> blockchain_based_list_entry \<Rightarrow> bool" where
  "entry_reachable now s entry =
     (case m_list s (entry_public_id entry) of
        None \<Rightarrow> False
      | Some p \<Rightarrow> \<not> (ANNOUNCE_TTL_SECONDS < last_update_age now (sn_heap s p)))"

definition getBlockchainBasedListForAuthSample ::
  "u64 \<Rightarrow> u64 \<Rightarrow> ('pk, 'sk) FullSupernodeList \<Rightarrow> u64 \<times> bbl" where
  "getBlockchainBasedListForAuthSample now block_number s =
     (let blockchain_based_list_height = block_number - BLOCKCHAIN_BASED_LIST_DELAY_BLOCK_COUNT in
      case m_blockchain_based_lists s block_number of
        None \<Rightarrow> (0, [])
      | Some l \<Rightarrow> (blockchain_based_list_height, map (filter (entry_reachable now s)) l))"

text \<open>The loop that fills \<open>tier_supernodes\<close>: at most \<open>TIERS\<close> tiers, each with its own call.\<close>

fun selectTiers ::
  "('g \<Rightarrow> u64 \<times> 'g) \<Rightarrow> (string \<rightharpoonup> SupernodePtr) \<Rightarrow> bbl \<Rightarrow> 'g \<Rightarrow> SupernodePtr list list option" where
  "selectTiers rng_next mlist [] g = Some []"
| "selectTiers rng_next mlist (src_array # rest) g =
     (case selectSupernodes rng_next mlist AUTH_SAMPLE_SIZE src_array [] g of
        (ok, dst_array, g') \<Rightarrow>
          if \<not> ok then None
          else map_option (\<lambda>ds. dst_array # ds) (selectTiers rng_next mlist rest g'))"

definition tier_supernodes ::
  "('g \<Rightarrow> u64 \<times> 'g) \<Rightarrow> (string \<rightharpoonup> SupernodePtr) \<Rightarrow> bbl \<Rightarrow> 'g \<Rightarrow> SupernodePtr list list option" where
  "tier_supernodes rng_next mlist l g =
     map_option (\<lambda>ds. ds @ replicate (TIERS - length ds) [])
       (selectTiers rng_next mlist (take TIERS l) g)"

text \<open>
  The balancing loops. \<open>surplusLoop\<close> is the inner loop over \<open>j\<close> downwards, which ends
  when the deficit is gone; the sizes are at most \<open>AUTH_SAMPLE_SIZE\<close>, so the
  \<^verbatim>\<open>int\<close> arithmetic does not overflow.
\<close>

fun surplusLoop :: "int list \<Rightarrow> nat \<Rightarrow> nat list \<Rightarrow> int list \<Rightarrow> int \<Rightarrow> int list \<times> int" where
  "surplusLoop sizes i [] select deficit_i = (select, deficit_i)"
| "surplusLoop sizes i (j # js) select deficit_i =
     (if \<not> deficit_i > 0 then (select, deficit_i)
      else if i = j then surplusLoop sizes i js select deficit_i
      else
        let surplus_j = sizes ! j - select ! j in
        if surplus_j > 0 then
          let transfer = min deficit_i surplus_j in
          surplusLoop sizes i js
            ((select[i := select ! i - transfer])[j := select ! j + transfer])
            (deficit_i - transfer)
        else surplusLoop sizes i js select deficit_i)"

definition balanceStep :: "int list \<Rightarrow> nat \<Rightarrow> int list \<Rightarrow> int list" where
  "balanceStep sizes i select =
     (case surplusLoop sizes i (rev [0..<length sizes]) select (select ! i - sizes ! i) of
        (select', deficit_i) \<Rightarrow>
          if deficit_i > 0 then select'[i := select' ! i - deficit_i] else select')"

definition balanceTiers :: "int list \<Rightarrow> int list" where
  "balanceTiers sizes =
     fold (balanceStep sizes) [0..<length sizes] (replicate (length sizes) (int ITEMS_PER_TIER))"

definition assembleSample :: "'a list list \<Rightarrow> 'a list" where
  "assembleSample tiers =
     (let select = balanceTiers (map (int \<circ> length) tiers);
          out = concat (map (\<lambda>(t, n). take (nat n) t) (zip tiers select))
      in if length out > AUTH_SAMPLE_SIZE then take AUTH_SAMPLE_SIZE out else out)"

text \<open>
  The part of \<open>buildAuthSample\<close> under the writer lock and after it: \<open>mlist\<close> is the list
  as it is when the second lock is taken.
\<close>

definition buildAuthSampleFrom ::
  "('g \<Rightarrow> u64 \<times> 'g) \<Rightarrow> (string \<Rightarrow> 'g) \<Rightarrow> (string \<rightharpoonup> SupernodePtr) \<Rightarrow> bbl \<Rightarrow> string
     \<Rightarrow> bool \<times> SupernodePtr list" where
  "buildAuthSampleFrom rng_next rng_seed mlist l payment_id =
     (case tier_supernodes rng_next mlist l (rng_seed payment_id) of
        None \<Rightarrow> (False, [])
      | Some tiers \<Rightarrow>
          (let out = assembleSample tiers in (length out = AUTH_SAMPLE_SIZE, out)))"

text \<open>
  \<open>buildAuthSample\<close> with no operation of another thread between its two locks: the flag,
  \<open>out\<close> (the callers pass an empty vector, which an early return leaves as it is) and
  \<open>out_auth_block_number\<close>.
\<close>

definition buildAuthSample ::
  "('g \<Rightarrow> u64 \<times> 'g) \<Rightarrow> (string \<Rightarrow> 'g) \<Rightarrow> u64 \<Rightarrow> u64 \<Rightarrow> string \<Rightarrow> ('pk, 'sk) FullSupernodeList
     \<Rightarrow> bool \<times> SupernodePtr list \<times> u64" where
  "buildAuthSample rng_next rng_seed now height payment_id s =
     (case getBlockchainBasedListForAuthSample now height s of
        (out_auth_block_number, l) \<Rightarrow>
          if out_auth_block_number = 0 then (False, [], out_auth_block_number)
          else
            (case buildAuthSampleFrom rng_next rng_seed (m_list s) l payment_id of
               (ok, out) \<Rightarrow> (ok, out, out_auth_block_number)))"

definition buildAuthSampleLatest ::
  "('g \<Rightarrow> u64 \<times> 'g) \<Rightarrow> (string \<Rightarrow> 'g) \<Rightarrow> u64 \<Rightarrow> string \<Rightarrow> ('pk, 'sk) FullSupernodeList
     \<Rightarrow> bool \<times> SupernodePtr list \<times> u64" where
  "buildAuthSampleLatest rng_next rng_seed now payment_id s =
     buildAuthSample rng_next rng_seed now (m_bbl_max_block_number s) payment_id s"

section \<open>Stakes\<close>

definition clearStakes :: "('pk, 'sk) FullSupernodeList \<Rightarrow> ('pk, 'sk) FullSupernodeList" where
  "clearStakes s =
     s\<lparr>sn_heap := (\<lambda>p. if p \<in> ran (m_list s) then setStake 0 0 0 (sn_heap s p) else sn_heap s p)\<rparr>"

definition updateStake ::
  "('pk, 'sk, 'sg, 'h) crypto_api \<Rightarrow> u64 \<Rightarrow> bool \<Rightarrow> supernode_stake \<Rightarrow> ('pk, 'sk) FullSupernodeList
     \<Rightarrow> ('pk, 'sk) FullSupernodeList" where
  "updateStake C now testnet stake s =
     (case m_list s (stake_public_id stake) of
        None \<Rightarrow>
          (case createFromStake C now stake testnet of
             None \<Rightarrow> s
           | Some sn \<Rightarrow> (case sn_alloc sn s of (p, s') \<Rightarrow> addImpl C p s'))
      | Some p \<Rightarrow>
          s\<lparr>sn_heap := (sn_heap s)(p :=
             setWalletAddress (stake_public_address stake)
               (setStake (stake_amount stake) (stake_block_height stake) (stake_unlock_time stake)
                  (sn_heap s p)))\<rparr>)"

definition updateStakes ::
  "('pk, 'sk, 'sg, 'h) crypto_api \<Rightarrow> u64 \<Rightarrow> int \<Rightarrow> u64 \<Rightarrow> supernode_stake list \<Rightarrow> bool
     \<Rightarrow> ('pk, 'sk) FullSupernodeList \<Rightarrow> ('pk, 'sk) FullSupernodeList" where
  "updateStakes C now local_time block_number stakes testnet s =
     (if block_number \<le> m_stakes_max_block_number s then s
      else
        (fold (updateStake C now testnet) stakes (clearStakes s))
          \<lparr>m_stakes_max_block_number := block_number,
           m_next_recv_stakes := Some (local_time + STAKES_RECV_TIMEOUT_SECONDS)\<rparr>)"

section \<open>Blockchain based lists\<close>

definition setBlockchainBasedList ::
  "u64 \<Rightarrow> int \<Rightarrow> u64 \<Rightarrow> bbl \<Rightarrow> ('pk, 'sk) FullSupernodeList \<Rightarrow> ('pk, 'sk) FullSupernodeList" where
  "setBlockchainBasedList SUPERNODE_HISTORY_SIZE local_time block_number l s =
     (if m_blockchain_based_lists s block_number \<noteq> None
      then s\<lparr>m_blockchain_based_lists := (m_blockchain_based_lists s)(block_number \<mapsto> l)\<rparr>
      else
        let lists = (m_blockchain_based_lists s)(block_number \<mapsto> l);
            max_block =
              (if block_number > m_bbl_max_block_number s then block_number
               else m_bbl_max_block_number s);
            oldest_block_number = max_block - SUPERNODE_HISTORY_SIZE
        in s\<lparr>m_next_recv_bbl := Some (local_time + BBL_RECV_TIMEOUT_SECONDS),
             m_bbl_max_block_number := max_block,
             m_blockchain_based_lists :=
               (\<lambda>b. if b < oldest_block_number then None else lists b)\<rparr>)"

definition findBlockchainBasedList :: "u64 \<Rightarrow> ('pk, 'sk) FullSupernodeList \<Rightarrow> bbl option" where
  "findBlockchainBasedList block_number s = m_blockchain_based_lists s block_number"

definition hasBlockchainBasedList :: "u64 \<Rightarrow> ('pk, 'sk) FullSupernodeList \<Rightarrow> bool" where
  "hasBlockchainBasedList block_number s \<longleftrightarrow> findBlockchainBasedList block_number s \<noteq> None"

fun tierLoop :: "string \<Rightarrow> bbl \<Rightarrow> nat \<Rightarrow> nat" where
  "tierLoop public_id [] tier_number = 0"
| "tierLoop public_id (t # ts) tier_number =
     (if list_ex (\<lambda>sn. entry_public_id sn = public_id) t then tier_number
      else tierLoop public_id ts (tier_number + 1))"

definition getSupernodeBlockchainBasedListTier ::
  "string \<Rightarrow> u64 \<Rightarrow> ('pk, 'sk) FullSupernodeList \<Rightarrow> nat" where
  "getSupernodeBlockchainBasedListTier public_id block_number s =
     (case findBlockchainBasedList block_number s of
        None \<Rightarrow> 0
      | Some l \<Rightarrow> tierLoop public_id l 1)"

section \<open>Requests to the cryptonode\<close>

definition check_timeout_expired :: "int \<Rightarrow> ptime \<Rightarrow> bool \<times> ptime" where
  "check_timeout_expired now next_recv_time =
     (case next_recv_time of
        Some t \<Rightarrow> if t > now then (False, next_recv_time)
                  else (True, Some (now + REPEATED_REQUEST_DELAY_SECONDS))
      | None \<Rightarrow> (True, Some (now + REPEATED_REQUEST_DELAY_SECONDS)))"

datatype rpc_request =
    RpcSendSupernodeStakes string string
  | RpcSendBlockchainBasedList string string u64

definition synchronizeWithCryptonode ::
  "int \<Rightarrow> string \<Rightarrow> string \<Rightarrow> ('pk, 'sk) FullSupernodeList
     \<Rightarrow> rpc_request list \<times> ('pk, 'sk) FullSupernodeList" where
  "synchronizeWithCryptonode now network_address address s =
     (let (ask1, t1) = check_timeout_expired now (m_next_recv_stakes s);
          (ask2, t2) = check_timeout_expired now (m_next_recv_bbl s)
      in ((if ask1 then [RpcSendSupernodeStakes network_address address] else []) @
          (if ask2 then [RpcSendBlockchainBasedList network_address address
                           (m_bbl_max_block_number s)] else []),
          s\<lparr>m_next_recv_stakes := t1, m_next_recv_bbl := t2\<rparr>))"

section \<open>Well-formedness\<close>

text \<open>
  The key of an entry is the printed identity key of its object, pointers are allocated, and
  the list is finite.
\<close>

definition wf_fsl :: "('pk, 'sk, 'sg, 'h) crypto_api \<Rightarrow> ('pk, 'sk) FullSupernodeList \<Rightarrow> bool" where
  "wf_fsl C s \<longleftrightarrow>
     finite (dom (m_list s)) \<and>
     (\<forall>i p. m_list s i = Some p \<longrightarrow> p < sn_next s \<and> idKeyAsString C (sn_heap s p) = i)"

lemma wf_fslD:
  assumes "wf_fsl C s" "m_list s i = Some p"
  shows "p < sn_next s" "idKeyAsString C (sn_heap s p) = i"
  using assms by (auto simp: wf_fsl_def)

lemma wf_fsl_inj: "wf_fsl C s \<Longrightarrow> m_list s i = Some p \<Longrightarrow> m_list s j = Some p \<Longrightarrow> i = j"
  using wf_fslD(2) by metis

lemma wf_new_fsl [graft_inv]: "wf_fsl C (new_fsl h n)"
  by (simp add: wf_fsl_def new_fsl_def)

lemma wf_sn_alloc [graft_inv]:
  assumes "wf_fsl C s" and "sn_alloc sn s = (p, s')"
  shows "wf_fsl C s'" "p < sn_next s'" "sn_heap s' p = sn" "m_list s' = m_list s"
  using assms wf_fslD by (fastforce simp: wf_fsl_def sn_alloc_def)+

lemma wf_addImpl [graft_inv]: "wf_fsl C s \<Longrightarrow> p < sn_next s \<Longrightarrow> wf_fsl C (addImpl C p s)"
  by (auto simp: wf_fsl_def addImpl_def Let_def)

lemma wf_add_sn [graft_inv]: "wf_fsl C s \<Longrightarrow> p < sn_next s \<Longrightarrow> wf_fsl C (snd (add_sn C p s))"
  by (simp add: add_sn_def wf_addImpl)

lemma wf_remove_sn [graft_inv]: "wf_fsl C s \<Longrightarrow> wf_fsl C (snd (remove_sn i s))"
  by (auto simp: wf_fsl_def remove_sn_def)

lemma wf_clearStakes [graft_inv]: "wf_fsl C s \<Longrightarrow> wf_fsl C (clearStakes s)"
  by (auto simp: wf_fsl_def clearStakes_def)

lemma wf_updateStake [graft_inv]:
  assumes "wf_fsl C s" shows "wf_fsl C (updateStake C now tn st s)"
proof (cases "m_list s (stake_public_id st)")
  case None
  then show ?thesis
    using assms by (auto simp: updateStake_def split: option.split prod.split
        intro: wf_addImpl wf_sn_alloc)
next
  case (Some p)
  then show ?thesis using assms by (auto simp: updateStake_def wf_fsl_def)
qed

lemma wf_fold_updateStake: "wf_fsl C s \<Longrightarrow> wf_fsl C (fold (updateStake C now tn) sts s)"
  by (induction sts arbitrary: s) (auto intro: wf_updateStake)

lemma wf_updateStakes [graft_inv]:
  "wf_fsl C s \<Longrightarrow> wf_fsl C (updateStakes C now lt b sts tn s)"
  using wf_fold_updateStake [OF wf_clearStakes, of C s now tn sts]
  by (simp add: updateStakes_def wf_fsl_def)

lemma wf_setBlockchainBasedList [graft_inv]:
  "wf_fsl C s \<Longrightarrow> wf_fsl C (setBlockchainBasedList h lt b l s)"
  by (auto simp: setBlockchainBasedList_def wf_fsl_def Let_def)

lemma wf_synchronize [graft_inv]:
  "wf_fsl C s \<Longrightarrow> wf_fsl C (snd (synchronizeWithCryptonode now n a s))"
  by (auto simp: synchronizeWithCryptonode_def wf_fsl_def split: prod.split)

section \<open>The abstract selection\<close>

text \<open>
  What the selection computes, without the list and its pointers: \<open>pick\<close> draws from a
  sequence of any elements, \<open>sample_spec\<close> is the whole sample as a function of the tiers
  and the seeded engine.
\<close>

fun pick :: "('g \<Rightarrow> u64 \<times> 'g) \<Rightarrow> nat \<Rightarrow> 'e list \<Rightarrow> 'g \<Rightarrow> 'e list \<times> 'g" where
  "pick nx k [] g = ([], g)"
| "pick nx k (e # es) g =
     (let (r, g') = nx g in
      if unat r mod length (e # es) \<ge> k then pick nx k es g'
      else apfst (Cons e) (pick nx (k - 1) es g'))"

fun pick_tiers :: "('g \<Rightarrow> u64 \<times> 'g) \<Rightarrow> 'e list list \<Rightarrow> 'g \<Rightarrow> 'e list list" where
  "pick_tiers nx [] g = []"
| "pick_tiers nx (t # ts) g =
     (case pick nx (min AUTH_SAMPLE_SIZE (length t)) t g of (d, g') \<Rightarrow> d # pick_tiers nx ts g')"

definition pad_tiers :: "'e list list \<Rightarrow> 'e list list" where
  "pad_tiers ds = ds @ replicate (TIERS - length ds) []"

definition sample_spec :: "('g \<Rightarrow> u64 \<times> 'g) \<Rightarrow> 'e list list \<Rightarrow> 'g \<Rightarrow> 'e list" where
  "sample_spec nx ts g = assembleSample (pad_tiers (pick_tiers nx (take TIERS ts) g))"

lemma pick_length: "k \<le> length es \<Longrightarrow> length (fst (pick nx k es g)) = k"
proof (induction es arbitrary: k g)
  case (Cons e es)
  obtain r g' where n: "nx g = (r, g')" by (cases "nx g")
  let ?v = "unat r mod length (e # es)"
  have v: "?v < length (e # es)" by (rule mod_less_divisor) simp
  show ?case
  proof (cases "?v \<ge> k")
    case True
    with v have "k \<le> length es" by (metis le_less_trans length_Cons less_Suc_eq_le)
    with True n Cons.IH show ?thesis by (simp del: length_Cons)
  next
    case False
    with Cons.prems have "k - 1 \<le> length es" "0 < k" by auto
    with False n Cons.IH [of "k - 1" g'] show ?thesis
      by (simp add: apfst_def map_prod_def split_beta del: length_Cons)
  qed
qed simp

lemma pick_subseq: "subseq (fst (pick nx k es g)) es"
  by (induction es arbitrary: k g) (auto simp: Let_def split_beta)

lemma selectLoop_pick:
  assumes "\<forall>e\<in>set es. mlist (entry_public_id e) \<noteq> None"
  shows "selectLoop nx mlist k es dst g =
    (True, dst @ map (\<lambda>e. the (mlist (entry_public_id e))) (fst (pick nx k es g)),
     snd (pick nx k es g))"
  using assms
  by (induction es arbitrary: k dst g) (auto simp: Let_def split_beta split: option.split)

lemma selectLoop_unknown:
  assumes "\<exists>e\<in>set es. mlist (entry_public_id e) = None"
  shows "\<not> fst (selectLoop nx mlist k es dst g)"
  using assms
  by (induction es arbitrary: k dst g) (auto simp: Let_def split_beta split: option.split)

lemma min_if: "(if n > length t then length t else n) = min n (length t)" for n
  by simp

lemma selectTiers_pick:
  assumes "\<forall>t\<in>set ts. \<forall>e\<in>set t. mlist (entry_public_id e) \<noteq> None"
  shows "selectTiers nx mlist ts g =
    Some (map (map (\<lambda>e. the (mlist (entry_public_id e)))) (pick_tiers nx ts g))"
  using assms
  by (induction ts arbitrary: g)
    (simp_all add: selectSupernodes_def selectLoop_pick min_if split_beta del: One_nat_def)

lemma selectTiers_unknown:
  assumes "\<exists>t\<in>set ts. \<exists>e\<in>set t. mlist (entry_public_id e) = None"
  shows "selectTiers nx mlist ts g = None"
  using assms
proof (induction ts arbitrary: g)
  case (Cons t ts)
  obtain ok d g' where s: "selectSupernodes nx mlist AUTH_SAMPLE_SIZE t [] g = (ok, d, g')"
    by (cases "selectSupernodes nx mlist AUTH_SAMPLE_SIZE t [] g")
  show ?case
  proof (cases "\<exists>e\<in>set t. mlist (entry_public_id e) = None")
    case True
    then have "\<not> ok"
      using selectLoop_unknown s unfolding selectSupernodes_def by (metis fst_conv)
    with s show ?thesis by simp
  next
    case False
    with Cons s show ?thesis by auto
  qed
qed simp

lemma assembleSample_map: "assembleSample (map (map f) ts) = map f (assembleSample ts)"
proof -
  have sizes: "map (int \<circ> length) (map (map f) ts) = map (int \<circ> length) ts" by simp
  have "concat (map (\<lambda>(t, n). take (nat n) t) (zip (map (map f) ts) ns)) =
        map f (concat (map (\<lambda>(t, n). take (nat n) t) (zip ts ns)))" for ns
    by (simp add: zip_map1 map_concat comp_def split_beta take_map)
  then show ?thesis
    unfolding assembleSample_def sizes by (simp add: Let_def take_map)
qed

lemma tier_supernodes_pick:
  assumes "\<forall>t\<in>set (take TIERS l). \<forall>e\<in>set t. mlist (entry_public_id e) \<noteq> None"
  shows "tier_supernodes nx mlist l g =
    Some (map (map (\<lambda>e. the (mlist (entry_public_id e))))
            (pad_tiers (pick_tiers nx (take TIERS l) g)))"
  using assms by (simp add: tier_supernodes_def selectTiers_pick pad_tiers_def)

lemma buildAuthSampleFrom_spec:
  assumes "\<forall>t\<in>set (take TIERS l). \<forall>e\<in>set t. mlist (entry_public_id e) \<noteq> None"
  shows "buildAuthSampleFrom nx seed mlist l pid =
    (let es = sample_spec nx l (seed pid) in
     (length es = AUTH_SAMPLE_SIZE, map (\<lambda>e. the (mlist (entry_public_id e))) es))"
  using assms
  by (simp add: buildAuthSampleFrom_def tier_supernodes_pick sample_spec_def assembleSample_map Let_def)

section \<open>Balancing the tiers\<close>

definition surplus_post :: "int list \<Rightarrow> nat \<Rightarrow> nat list \<Rightarrow> int list \<Rightarrow> int list \<Rightarrow> int \<Rightarrow> bool" where
  "surplus_post sizes i js sel sel' d' \<longleftrightarrow>
     length sel' = length sizes \<and> sum_list sel' = sum_list sel \<and>
     d' = sel' ! i - sizes ! i \<and> sel' ! i \<le> sel ! i \<and>
     (sel ! i - sizes ! i > 0 \<longrightarrow> 0 \<le> d') \<and> (\<not> sel ! i - sizes ! i > 0 \<longrightarrow> sel' = sel) \<and>
     (\<forall>k<length sizes. k \<noteq> i \<longrightarrow> sel ! k \<le> sel' ! k \<and> sel' ! k \<le> max (sel ! k) (sizes ! k)) \<and>
     (d' > 0 \<longrightarrow> (\<forall>j\<in>set js. j \<noteq> i \<longrightarrow> sizes ! j \<le> sel' ! j))"

lemma surplus_post_refl:
  "length sel = length sizes \<Longrightarrow> d = sel ! i - sizes ! i \<Longrightarrow>
   (d > 0 \<Longrightarrow> \<forall>j\<in>set js. j \<noteq> i \<longrightarrow> sizes ! j \<le> sel ! j) \<Longrightarrow>
   surplus_post sizes i js sel sel d"
  by (auto simp: surplus_post_def)

lemma surplusLoop_post:
  assumes "length sel = length sizes" "i < length sizes" "set js \<subseteq> {..<length sizes}"
    and "d = sel ! i - sizes ! i" and "surplusLoop sizes i js sel d = (sel', d')"
  shows "surplus_post sizes i js sel sel' d'"
  using assms
proof (induction js arbitrary: sel d)
  case Nil
  then show ?case by (auto intro: surplus_post_refl)
next
  case (Cons j js)
  show ?case
  proof (cases "d > 0 \<and> j \<noteq> i")
    case False
    then consider "\<not> d > 0" | "d > 0" "j = i" by blast
    then show ?thesis
    proof cases
      case 1
      with Cons.prems show ?thesis by (auto intro: surplus_post_refl)
    next
      case 2
      with Cons.prems have "surplus_post sizes i js sel sel' d'"
        by (intro Cons.IH) auto
      with 2 show ?thesis by (auto simp: surplus_post_def)
    qed
  next
    case True
    let ?t = "min d (sizes ! j - sel ! j)"
    let ?sel = "(sel[i := sel ! i - ?t])[j := sel ! j + ?t]"
    show ?thesis
    proof (cases "sizes ! j - sel ! j > 0")
      case False
      with True Cons.prems have "surplus_post sizes i js sel sel' d'"
        by (intro Cons.IH) auto
      moreover have "sizes ! j \<le> sel' ! j"
        using calculation False True Cons.prems(3) by (auto simp: surplus_post_def)
      ultimately show ?thesis by (auto simp: surplus_post_def)
    next
      case pos: True
      have j: "j < length sizes" "j \<noteq> i" using Cons.prems(3) True by auto
      have run: "surplusLoop sizes i js ?sel (d - ?t) = (sel', d')"
        using True pos Cons.prems(5) by (auto simp: Let_def)
      have at_i: "?sel ! i = sel ! i - ?t" and at_j: "?sel ! j = sel ! j + ?t"
        using j Cons.prems(1,2) by (auto simp: nth_list_update)
      have others: "k \<noteq> i \<Longrightarrow> k \<noteq> j \<Longrightarrow> ?sel ! k = sel ! k" for k by simp
      have sum: "sum_list ?sel = sum_list sel"
        using j Cons.prems(1,2) by (simp add: sum_list_update_int)
      have IH: "surplus_post sizes i js ?sel sel' d'"
        using run at_i Cons.prems by (intro Cons.IH) auto
      have t: "0 < ?t" "?t \<le> d" "?t \<le> sizes ! j - sel ! j" using True pos by auto
      have d: "d = sel ! i - sizes ! i" by fact
      have post_j: "sel ! j \<le> sel' ! j \<and> sel' ! j \<le> max (sel ! j) (sizes ! j)"
        using IH j at_j t unfolding surplus_post_def by (smt (verit))
      have post_k: "sel ! k \<le> sel' ! k \<and> sel' ! k \<le> max (sel ! k) (sizes ! k)"
        if "k < length sizes" "k \<noteq> i" for k
        using IH that post_j others unfolding surplus_post_def by metis
      have d': "0 \<le> d'"
        using IH at_i d t unfolding surplus_post_def by (smt (verit))
      have full: "d' > 0 \<Longrightarrow> sizes ! j \<le> sel' ! j"
        using IH at_i at_j j d t unfolding surplus_post_def by (smt (verit))
      have le_i: "sel' ! i \<le> sel ! i" using IH at_i t unfolding surplus_post_def by linarith
      show ?thesis
        using IH sum post_k d' full le_i True d unfolding surplus_post_def by auto
    qed
  qed
qed

text \<open>
  The invariant of the outer loop after the tiers below \<open>i\<close>: no quota is negative, the
  treated quotas fit their tiers, and the quotas still add up to the wanted total unless no
  tier at all has anything to spare.
\<close>

definition balance_inv :: "int list \<Rightarrow> int \<Rightarrow> nat \<Rightarrow> int list \<Rightarrow> bool" where
  "balance_inv sizes want i sel \<longleftrightarrow>
     length sel = length sizes \<and> (\<forall>k<length sizes. 0 \<le> sel ! k) \<and>
     (\<forall>k<i. k < length sizes \<longrightarrow> sel ! k \<le> sizes ! k) \<and> sum_list sel \<le> want \<and>
     (sum_list sel = want \<or> (\<forall>k<length sizes. sizes ! k \<le> sel ! k))"

lemma balanceStep_inv:
  assumes inv: "balance_inv sizes want i sel" and i: "i < length sizes"
    and nonneg: "\<forall>k<length sizes. 0 \<le> sizes ! k"
  shows "balance_inv sizes want (Suc i) (balanceStep sizes i sel)"
proof -
  let ?js = "rev [0..<length sizes]"
  obtain sel' d' where run: "surplusLoop sizes i ?js sel (sel ! i - sizes ! i) = (sel', d')"
    by (cases "surplusLoop sizes i ?js sel (sel ! i - sizes ! i)")
  have len: "length sel = length sizes" using inv by (simp add: balance_inv_def)
  have post: "surplus_post sizes i ?js sel sel' d'"
    by (rule surplusLoop_post [OF len i _ refl run]) auto
  have len': "length sel' = length sizes" and sum': "sum_list sel' = sum_list sel"
    and d': "d' = sel' ! i - sizes ! i"
    using post by (auto simp: surplus_post_def)
  have pk: "sel ! k \<le> sel' ! k \<and> sel' ! k \<le> max (sel ! k) (sizes ! k)"
    if "k < length sizes" "k \<noteq> i" for k
    using post that by (simp add: surplus_post_def)
  have selk: "0 \<le> sel ! k" if "k < length sizes" for k
    using inv that by (simp add: balance_inv_def)
  have other: "0 \<le> sel' ! k" "sizes ! k \<le> sel ! k \<Longrightarrow> sizes ! k \<le> sel' ! k"
    "sel ! k \<le> sizes ! k \<Longrightarrow> sel' ! k \<le> sizes ! k" if "k < length sizes" "k \<noteq> i" for k
    using pk [OF that] selk [OF that(1)] by auto
  have sel'i: "0 \<le> sel' ! i"
  proof (cases "sel ! i - sizes ! i > 0")
    case True
    with post have "0 \<le> d'" by (simp add: surplus_post_def)
    with d' nonneg i show ?thesis by fastforce
  next
    case False
    with post have "sel' = sel" by (simp add: surplus_post_def)
    with inv i show ?thesis by (simp add: balance_inv_def)
  qed
  show ?thesis
  proof (cases "d' > 0")
    case True
    let ?out = "sel'[i := sizes ! i]"
    have out: "balanceStep sizes i sel = ?out"
      using True run d' by (simp add: balanceStep_def)
    have full: "\<forall>j\<in>set ?js. j \<noteq> i \<longrightarrow> sizes ! j \<le> sel' ! j"
      using post True by (simp add: surplus_post_def)
    have starved: "\<forall>k<length sizes. sizes ! k \<le> ?out ! k"
    proof (intro allI impI)
      fix k assume "k < length sizes"
      then show "sizes ! k \<le> ?out ! k"
        using full len' by (cases "k = i") auto
    qed
    have "sum_list ?out \<le> want"
      using inv sum' d' True i len' by (simp add: sum_list_update_int balance_inv_def)
    then show ?thesis
      unfolding out balance_inv_def
      using starved len' nonneg other inv i
      by (auto simp: nth_list_update less_Suc_eq balance_inv_def)
  next
    case False
    have out: "balanceStep sizes i sel = sel'" using False run by (simp add: balanceStep_def)
    have keep: "sizes ! i \<le> sel ! i \<Longrightarrow> sizes ! i \<le> sel' ! i"
      using post d' by (cases "sel ! i - sizes ! i > 0") (auto simp: surplus_post_def)
    have all: "\<forall>k<length sizes. 0 \<le> sel' ! k" using other(1) sel'i by metis
    have low: "\<forall>k<Suc i. k < length sizes \<longrightarrow> sel' ! k \<le> sizes ! k"
      using other(3) inv False d' by (auto simp: less_Suc_eq balance_inv_def)
    have stv: "(\<forall>k<length sizes. sizes ! k \<le> sel ! k) \<Longrightarrow> \<forall>k<length sizes. sizes ! k \<le> sel' ! k"
      using other(2) keep by metis
    show ?thesis
      unfolding out balance_inv_def
      using len' sum' all low stv inv unfolding balance_inv_def by auto
  qed
qed

lemma balance_fold_inv:
  assumes "\<forall>k<length sizes. 0 \<le> sizes ! k" "n \<le> length sizes"
    and "balance_inv sizes want 0 sel"
  shows "balance_inv sizes want n (fold (balanceStep sizes) [0..<n] sel)"
  using assms(2)
proof (induction n)
  case 0
  then show ?case using assms(3) by simp
next
  case (Suc n)
  then show ?case using assms(1) balanceStep_inv by simp
qed

theorem balanceTiers_correct:
  assumes nonneg: "\<forall>k<length sizes. 0 \<le> sizes ! k"
  shows "length (balanceTiers sizes) = length sizes"
    and "\<forall>k<length sizes. 0 \<le> balanceTiers sizes ! k \<and> balanceTiers sizes ! k \<le> sizes ! k"
    and "sum_list (balanceTiers sizes) =
           min (int ITEMS_PER_TIER * int (length sizes)) (sum_list sizes)"
proof -
  let ?T = "int ITEMS_PER_TIER * int (length sizes)"
  let ?b = "balanceTiers sizes"
  have "balance_inv sizes ?T 0 (replicate (length sizes) (int ITEMS_PER_TIER))"
    by (simp add: balance_inv_def sum_list_replicate)
  from balance_fold_inv [OF nonneg order_refl this]
  have inv: "balance_inv sizes ?T (length sizes) ?b" by (simp only: balanceTiers_def)
  then show len: "length ?b = length sizes"
    and le: "\<forall>k<length sizes. 0 \<le> ?b ! k \<and> ?b ! k \<le> sizes ! k"
    by (auto simp: balance_inv_def)
  have sum_le: "sum_list ?b \<le> sum_list sizes"
    by (rule sum_list_pointwise_le) (use len le in auto)
  have "sum_list ?b = ?T \<or> sum_list sizes \<le> sum_list ?b"
    using inv sum_list_pointwise_le [of sizes ?b] len by (auto simp: balance_inv_def)
  then show "sum_list ?b = min ?T (sum_list sizes)"
    using sum_le inv by (auto simp: balance_inv_def min_def)
qed

lemma balanceTiers_even:
  assumes "\<forall>k<length sizes. int ITEMS_PER_TIER \<le> sizes ! k"
  shows "balanceTiers sizes = replicate (length sizes) (int ITEMS_PER_TIER)"
proof -
  let ?r = "replicate (length sizes) (int ITEMS_PER_TIER)"
  have stay: "surplusLoop sizes i js sel d = (sel, d)" if "d \<le> 0" for i js sel d
    using that by (cases js) auto
  have step: "balanceStep sizes i ?r = ?r" if "i < length sizes" for i
    using that assms stay [of "?r ! i - sizes ! i"] by (auto simp: balanceStep_def)
  have "n \<le> length sizes \<Longrightarrow> fold (balanceStep sizes) [0..<n] ?r = ?r" for n
    using step by (induction n) simp_all
  then show ?thesis by (simp add: balanceTiers_def)
qed

section \<open>The assembled sample\<close>

lemma length_takes:
  assumes "length ts = length ns" "\<forall>k<length ts. 0 \<le> ns ! k \<and> ns ! k \<le> int (length (ts ! k))"
  shows "int (length (concat (map (\<lambda>(t, n). take (nat n) t) (zip ts ns)))) = sum_list ns"
  using assms
proof (induction ts ns rule: list_induct2)
  case (Cons t ts n ns)
  have "0 \<le> n \<and> n \<le> int (length t)" using Cons.prems by (metis nth_Cons_0 length_Cons zero_less_Suc)
  moreover have "\<forall>k<length ts. 0 \<le> ns ! k \<and> ns ! k \<le> int (length (ts ! k))"
    using Cons.prems by (metis Suc_less_eq length_Cons nth_Cons_Suc)
  ultimately show ?case using Cons.IH by (simp add: min_def) linarith
qed simp

lemma subseq_takes:
  assumes "length ts = length ns"
  shows "subseq (concat (map (\<lambda>(t, n). take (nat n) t) (zip ts ns))) (concat ts)"
  using assms
proof (induction ts ns rule: list_induct2)
  case (Cons t ts n ns)
  have "subseq (take (nat n) t) t" by (simp add: prefix_imp_subseq take_is_prefix)
  with Cons.IH show ?case by (simp add: list_emb_append_mono)
qed simp

lemma assembleSample_props:
  assumes "length ts = TIERS"
  shows "length (assembleSample ts) = min AUTH_SAMPLE_SIZE (sum_list (map length ts))"
    and "subseq (assembleSample ts) (concat ts)"
proof -
  let ?sizes = "map (int \<circ> length) ts"
  let ?sel = "balanceTiers ?sizes"
  let ?out = "concat (map (\<lambda>(t, n). take (nat n) t) (zip ts ?sel))"
  have nonneg: "\<forall>k<length ?sizes. 0 \<le> ?sizes ! k" by simp
  note b = balanceTiers_correct [OF nonneg]
  have len: "int (length ?out) = sum_list ?sel"
    using length_takes [of ts ?sel] b(1,2) by simp
  also have "\<dots> = min (int AUTH_SAMPLE_SIZE) (sum_list ?sizes)"
    using b(3) assms by simp
  also have "sum_list ?sizes = int (sum_list (map length ts))"
    by (induction ts) simp_all
  finally have l: "length ?out = min AUTH_SAMPLE_SIZE (sum_list (map length ts))"
    by linarith
  then have out: "assembleSample ts = ?out" by (simp add: assembleSample_def Let_def)
  from l out show "length (assembleSample ts) = min AUTH_SAMPLE_SIZE (sum_list (map length ts))"
    by simp
  show "subseq (assembleSample ts) (concat ts)"
    unfolding out using b(1) by (intro subseq_takes) simp
qed

lemma pick_tiers_length: "length (pick_tiers nx ts g) = length ts"
  by (induction ts arbitrary: g) (simp_all add: split_beta)

lemma pick_tiers_lengths:
  "map length (pick_tiers nx ts g) = map (\<lambda>t. min AUTH_SAMPLE_SIZE (length t)) ts"
  by (induction ts arbitrary: g) (simp_all add: split_beta pick_length)

lemma pick_tiers_subseq: "subseq (concat (pick_tiers nx ts g)) (concat ts)"
  by (induction ts arbitrary: g) (simp_all add: split_beta list_emb_append_mono pick_subseq)

lemma pick_tiers_nth_subset:
  "k < length ts \<Longrightarrow> set (pick_tiers nx ts g ! k) \<subseteq> set (ts ! k)"
proof (induction ts arbitrary: g k)
  case (Cons t ts)
  then show ?case
    using subseq_imp_set_subset [OF pick_subseq, of nx "min AUTH_SAMPLE_SIZE (length t)" t g]
    by (cases k) (auto simp: split_beta)
qed simp

lemma assembleSample_even:
  assumes "length ts = TIERS" "\<forall>k<TIERS. ITEMS_PER_TIER \<le> length (ts ! k)"
  shows "assembleSample ts = concat (map (take ITEMS_PER_TIER) ts)"
proof -
  have b: "balanceTiers (map (int \<circ> length) ts) = replicate TIERS 2"
    using balanceTiers_even [of "map (int \<circ> length) ts"] assms by auto
  have z: "map (\<lambda>(t, n). take (nat n) t) (zip ts (replicate TIERS 2)) = map (take 2) ts"
    using assms(1) by (intro nth_equalityI) auto
  have "map length (map (take 2) ts) = replicate TIERS 2"
    using assms by (intro nth_equalityI) auto
  then have "length (concat (map (take 2) ts)) = AUTH_SAMPLE_SIZE"
    unfolding length_concat by (simp only: sum_list_replicate) simp
  then show ?thesis unfolding assembleSample_def b Let_def z by simp
qed

lemma pad_tiers_length: "length ds \<le> TIERS \<Longrightarrow> length (pad_tiers ds) = TIERS"
  by (simp add: pad_tiers_def)

lemma pad_tiers_sums [simp]:
  "sum_list (map length (pad_tiers ds)) = sum_list (map length ds)"
  "concat (pad_tiers ds) = concat ds"
  by (simp_all add: pad_tiers_def map_replicate_const sum_list_replicate)

lemma sample_spec_length:
  "length (sample_spec nx ts g) =
     min AUTH_SAMPLE_SIZE (\<Sum>t\<leftarrow>take TIERS ts. min AUTH_SAMPLE_SIZE (length t))"
  unfolding sample_spec_def
  by (subst assembleSample_props(1)) (simp_all add: pad_tiers_length pick_tiers_length pick_tiers_lengths)

lemma sample_spec_subseq: "subseq (sample_spec nx ts g) (concat (take TIERS ts))"
proof -
  let ?d = "pick_tiers nx (take TIERS ts) g"
  have "subseq (assembleSample (pad_tiers ?d)) (concat (pad_tiers ?d))"
    by (rule assembleSample_props(2)) (simp add: pad_tiers_length pick_tiers_length)
  then show ?thesis
    unfolding sample_spec_def using pick_tiers_subseq
    by (metis pad_tiers_sums(2) subseq_order.order_trans)
qed

text \<open>The tiers the selection runs on contain known entries only.\<close>

definition reachable_tiers :: "u64 \<Rightarrow> ('pk, 'sk) FullSupernodeList \<Rightarrow> bbl \<Rightarrow> bbl" where
  "reachable_tiers now s l = map (filter (entry_reachable now s)) l"

lemma entry_reachable_known: "entry_reachable now s e \<Longrightarrow> m_list s (entry_public_id e) \<noteq> None"
  by (auto simp: entry_reachable_def split: option.splits)

lemma buildAuthSample_spec:
  assumes "findBlockchainBasedList height s = Some l"
    and "height \<noteq> BLOCKCHAIN_BASED_LIST_DELAY_BLOCK_COUNT"
  shows "buildAuthSample nx seed now height pid s =
    (let es = sample_spec nx (reachable_tiers now s l) (seed pid) in
     (length es = AUTH_SAMPLE_SIZE, map (\<lambda>e. the (m_list s (entry_public_id e))) es,
      height - BLOCKCHAIN_BASED_LIST_DELAY_BLOCK_COUNT))"
proof -
  have known: "\<forall>t\<in>set (take TIERS (reachable_tiers now s l)). \<forall>e\<in>set t.
      m_list s (entry_public_id e) \<noteq> None"
    using entry_reachable_known by (fastforce simp: reachable_tiers_def dest: in_set_takeD)
  from assms show ?thesis
    by (simp add: buildAuthSample_def getBlockchainBasedListForAuthSample_def
        findBlockchainBasedList_def Let_def buildAuthSampleFrom_spec [OF known]
        flip: reachable_tiers_def)
qed

section \<open>What the request handlers rely on\<close>

text \<open>
  The contract of the sample towards the handlers that multicast to it: a successful call
  returns a full sample, of supernodes the list knows, and distinct known supernodes have
  distinct identities.
\<close>

locale auth_sampler =
  fixes build :: "'s \<Rightarrow> u64 \<Rightarrow> string \<Rightarrow> bool \<times> 'p list \<times> u64"
    and known :: "'s \<Rightarrow> 'p set"
    and ident :: "'s \<Rightarrow> 'p \<Rightarrow> string"
    and good :: "'s \<Rightarrow> bool"
  assumes full: "build s h pid = (True, ps, blk) \<Longrightarrow> length ps = AUTH_SAMPLE_SIZE"
    and from_known: "build s h pid = (ok, ps, blk) \<Longrightarrow> set ps \<subseteq> known s"
    and ident_inj: "good s \<Longrightarrow> inj_on (ident s) (known s)"
begin

lemma receivers_length: "build s h pid = (True, ps, blk) \<Longrightarrow> length (map (ident s) ps) = AUTH_SAMPLE_SIZE"
  by (simp add: full)

lemma receivers_distinct:
  "good s \<Longrightarrow> build s h pid = (ok, ps, blk) \<Longrightarrow> distinct (map (ident s) ps) \<longleftrightarrow> distinct ps"
  using from_known ident_inj by (metis distinct_map inj_on_subset)

lemma receivers_known: "build s h pid = (ok, ps, blk) \<Longrightarrow> set (map (ident s) ps) \<subseteq> ident s ` known s"
  using from_known by fastforce

end

lemma buildAuthSample_full: "buildAuthSample nx seed now h pid s = (True, ps, blk) \<Longrightarrow> length ps = AUTH_SAMPLE_SIZE"
  by (auto simp: buildAuthSample_def buildAuthSampleFrom_def Let_def split: prod.splits if_splits option.splits)

lemma buildAuthSample_known:
  assumes "buildAuthSample nx seed now h pid s = (ok, ps, blk)"
  shows "set ps \<subseteq> ran (m_list s)"
proof (cases "findBlockchainBasedList h s = None \<or> h = BLOCKCHAIN_BASED_LIST_DELAY_BLOCK_COUNT")
  case True
  then have "ps = []" using assms
    by (auto simp: buildAuthSample_def getBlockchainBasedListForAuthSample_def findBlockchainBasedList_def
        Let_def split: option.splits if_splits prod.splits)
  then show ?thesis by simp
next
  case False
  then obtain l where l: "findBlockchainBasedList h s = Some l" and h: "h \<noteq> BLOCKCHAIN_BASED_LIST_DELAY_BLOCK_COUNT"
    by auto
  let ?es = "sample_spec nx (reachable_tiers now s l) (seed pid)"
  have ps: "ps = map (\<lambda>e. the (m_list s (entry_public_id e))) ?es"
    using assms unfolding buildAuthSample_spec [OF l h] Let_def by auto
  have "m_list s (entry_public_id e) \<noteq> None" if "e \<in> set ?es" for e
  proof -
    have "e \<in> set (concat (take TIERS (reachable_tiers now s l)))"
      using subseq_imp_set_subset [OF sample_spec_subseq [of nx "reachable_tiers now s l" "seed pid"]] that by blast
    then show ?thesis
      by (auto simp: reachable_tiers_def take_map dest!: entry_reachable_known)
  qed
  then show ?thesis unfolding ps by (auto simp: ran_def)
qed

lemma known_ident_inj: "wf_fsl C s \<Longrightarrow> inj_on (\<lambda>p. idKeyAsString C (sn_heap s p)) (ran (m_list s))"
  by (rule inj_onI) (force simp: ran_def wf_fslD(2))

interpretation sampler: auth_sampler "\<lambda>s h pid. buildAuthSample nx seed now h pid s" "\<lambda>s. ran (m_list s)"
    "\<lambda>s p. idKeyAsString C (sn_heap s p)" "wf_fsl C"
  for nx :: "'g \<Rightarrow> u64 \<times> 'g" and seed and now and C :: "('pk, 'sk, 'sg, 'h) crypto_api"
  by unfold_locales (auto dest: buildAuthSample_full buildAuthSample_known intro: known_ident_inj)

section \<open>Stakes: effect of an update\<close>

text \<open>A stake whose id is printed as the code prints keys.\<close>

definition canonical_id :: "('pk, 'sk, 'sg, 'h) crypto_api \<Rightarrow> string \<Rightarrow> bool" where
  "canonical_id C i \<longleftrightarrow> (\<exists>k. hex_to_pk C i = Some k \<and> pk_to_hex C k = i)"

definition holds_stake :: "supernode_stake \<Rightarrow> ('pk, 'sk) FullSupernodeList \<Rightarrow> bool" where
  "holds_stake st s \<longleftrightarrow>
     (\<exists>p. m_list s (stake_public_id st) = Some p \<and>
        m_stake_amount (sn_heap s p) = stake_amount st \<and>
        m_stake_block_height (sn_heap s p) = stake_block_height st \<and>
        m_stake_unlock_time (sn_heap s p) = stake_unlock_time st \<and>
        m_wallet_address (sn_heap s p) = stake_public_address st)"

definition stake_of :: "string \<Rightarrow> ('pk, 'sk) FullSupernodeList \<Rightarrow> u64 option" where
  "stake_of i s = map_option (\<lambda>p. m_stake_amount (sn_heap s p)) (m_list s i)"

lemma updateStake_holds:
  assumes "canonical_id C (stake_public_id st)"
  shows "holds_stake st (updateStake C now tn st s)"
proof (cases "m_list s (stake_public_id st)")
  case None
  from assms obtain k where k: "hex_to_pk C (stake_public_id st) = Some k"
    "pk_to_hex C k = stake_public_id st" by (auto simp: canonical_id_def)
  with None show ?thesis
    by (simp add: updateStake_def createFromStake_def sn_alloc_def addImpl_def Let_def
        idKeyAsString_def holds_stake_def)
      (simp add: setStake_def setLastUpdateTime_def new_Supernode_def)
next
  case (Some p)
  then show ?thesis
    by (simp add: updateStake_def holds_stake_def setStake_def setWalletAddress_def)
qed

text \<open>An update leaves every entry but its own alone.\<close>

lemma updateStake_frame:
  assumes wf: "wf_fsl C s" and i: "i \<noteq> stake_public_id st" and p: "m_list s i = Some p"
  shows "m_list (updateStake C now tn st s) i = Some p"
    and "sn_heap (updateStake C now tn st s) p = sn_heap s p"
proof -
  have pn: "p < sn_next s" using wf p by (rule wf_fslD(1))
  have "m_list s (stake_public_id st) \<noteq> Some p" using wf_fsl_inj [OF wf p] i by blast
  with p pn show "m_list (updateStake C now tn st s) i = Some p"
    "sn_heap (updateStake C now tn st s) p = sn_heap s p"
    by (auto simp: updateStake_def sn_alloc_def addImpl_def Let_def split: option.split)
qed

lemma fold_updateStake_frame:
  assumes "wf_fsl C s" "i \<notin> stake_public_id ` set sts" "m_list s i = Some p"
  shows "m_list (fold (updateStake C now tn) sts s) i = Some p \<and>
    sn_heap (fold (updateStake C now tn) sts s) p = sn_heap s p"
  using assms
proof (induction sts arbitrary: s)
  case (Cons st sts)
  then show ?case
    using updateStake_frame [OF Cons.prems(1) _ Cons.prems(3), of st now tn]
      wf_updateStake [OF Cons.prems(1), of now tn st] by auto
qed simp

lemma fold_updateStake_holds:
  assumes "wf_fsl C s" "distinct (map stake_public_id sts)"
    "\<forall>st\<in>set sts. canonical_id C (stake_public_id st)" "st \<in> set sts"
  shows "holds_stake st (fold (updateStake C now tn) sts s)"
  using assms
proof (induction sts arbitrary: s)
  case (Cons x sts)
  let ?s1 = "updateStake C now tn x s"
  have wf1: "wf_fsl C ?s1" using Cons.prems(1) by (rule wf_updateStake)
  show ?case
  proof (cases "st = x")
    case True
    have "holds_stake x ?s1" using Cons.prems(3) by (simp add: updateStake_holds)
    then obtain p where p: "m_list ?s1 (stake_public_id x) = Some p" by (auto simp: holds_stake_def)
    have "stake_public_id x \<notin> stake_public_id ` set sts" using Cons.prems(2) by simp
    from fold_updateStake_frame [OF wf1 this p, of now tn] \<open>holds_stake x ?s1\<close> p True
    show ?thesis by (auto simp: holds_stake_def)
  next
    case False
    then show ?thesis using Cons wf1 by simp
  qed
qed simp

lemma clearStakes_zero: "m_list s i = Some p \<Longrightarrow> m_stake_amount (sn_heap (clearStakes s) p) = 0"
  by (auto simp: clearStakes_def setStake_def ran_def)

text \<open>Canonical stakes add no key but their own.\<close>

lemma updateStake_absent:
  assumes "canonical_id C (stake_public_id st)" "i \<noteq> stake_public_id st" "m_list s i = None"
  shows "m_list (updateStake C now tn st s) i = None"
  using assms
  by (auto simp: updateStake_def canonical_id_def createFromStake_def sn_alloc_def addImpl_def Let_def
      idKeyAsString_def split: option.split)

lemma fold_updateStake_absent:
  assumes "\<forall>st\<in>set sts. canonical_id C (stake_public_id st)"
    "i \<notin> stake_public_id ` set sts" "m_list s i = None"
  shows "m_list (fold (updateStake C now tn) sts s) i = None"
  using assms by (induction sts arbitrary: s) (auto simp: updateStake_absent)

lemma stake_of_fold:
  assumes "wf_fsl C s" "\<forall>st\<in>set sts. canonical_id C (stake_public_id st)"
    and "i \<notin> stake_public_id ` set sts"
  shows "stake_of i (fold (updateStake C now tn) sts s) = stake_of i s"
  using fold_updateStake_frame [OF assms(1,3), of _ now tn] fold_updateStake_absent [OF assms(2,3), of s now tn]
  by (cases "m_list s i") (auto simp: stake_of_def)

lemma stake_of_clear: "stake_of i (clearStakes s) = map_option (\<lambda>_. 0) (m_list s i)"
  using clearStakes_zero [of s i] by (cases "m_list s i") (auto simp: stake_of_def clearStakes_def)

section \<open>The window of blockchain based lists\<close>

text \<open>The lists kept are not newer than the newest block number and at most \<open>H\<close> blocks older.\<close>

definition bbl_window :: "u64 \<Rightarrow> ('pk, 'sk) FullSupernodeList \<Rightarrow> bool" where
  "bbl_window H s \<longleftrightarrow>
     (\<forall>b\<in>dom (m_blockchain_based_lists s). b \<le> m_bbl_max_block_number s \<and>
        unat (m_bbl_max_block_number s) \<le> unat b + unat H)"

lemma unat_minus_le: "H \<le> m \<Longrightarrow> \<not> b < m - H \<longleftrightarrow> unat m \<le> unat b + unat H" for H m b :: u64
  by (auto simp: word_less_nat_alt word_le_nat_alt unat_sub_if')

lemma wrapped_window: "m < H \<Longrightarrow> b \<le> m \<Longrightarrow> b < m - H" for H m b :: u64
  using unsigned_less [of H, where 'a = nat] by (auto simp: word_less_nat_alt word_le_nat_alt unat_sub_if')

lemma bbl_window_card:
  assumes "bbl_window H s" shows "card (dom (m_blockchain_based_lists s)) \<le> unat H + 1"
proof -
  let ?m = "unat (m_bbl_max_block_number s)"
  have "unat ` dom (m_blockchain_based_lists s) \<subseteq> {?m - unat H .. ?m}"
    using assms by (auto simp: bbl_window_def word_le_nat_alt dest!: bspec [OF _ domI])
  then have "card (unat ` dom (m_blockchain_based_lists s)) \<le> card {?m - unat H .. ?m}"
    by (intro card_mono) auto
  moreover have "inj_on unat (dom (m_blockchain_based_lists s))"
    by (rule inj_onI) (simp add: word_unat_eq_iff)
  ultimately show ?thesis by (simp add: card_image)
qed

lemma setBBL_window:
  assumes "bbl_window H s" "H \<le> n"
  shows "bbl_window H (setBlockchainBasedList H lt n l s)"
proof (cases "m_blockchain_based_lists s n")
  case None
  define m where "m = (if n > m_bbl_max_block_number s then n else m_bbl_max_block_number s)"
  let ?s' = "setBlockchainBasedList H lt n l s"
  have le: "n \<le> m" "m_bbl_max_block_number s \<le> m" by (auto simp: m_def)
  have "H \<le> m" using assms(2) le(1) by (rule order_trans)
  note win = unat_minus_le [OF this]
  have lists: "m_blockchain_based_lists ?s' b =
      (if b < m - H then None else ((m_blockchain_based_lists s)(n \<mapsto> l)) b)" for b
    using None by (simp add: setBlockchainBasedList_def Let_def m_def)
  have max: "m_bbl_max_block_number ?s' = m"
    using None by (simp add: setBlockchainBasedList_def Let_def m_def)
  have "b \<le> m \<and> unat m \<le> unat b + unat H" if "b \<in> dom (m_blockchain_based_lists ?s')" for b
  proof -
    have "\<not> b < m - H" and "b = n \<or> b \<in> dom (m_blockchain_based_lists s)"
      using that unfolding dom_def lists by (simp_all split: if_splits)
    then show ?thesis
      using win [of b] le assms(1) order_trans unfolding bbl_window_def by blast
  qed
  then show ?thesis unfolding bbl_window_def max by blast
next
  case (Some l')
  then show ?thesis using assms(1)
    by (auto simp: bbl_window_def setBlockchainBasedList_def)
qed

section \<open>Example data\<close>

text \<open>Eight supernodes in four tiers of two, and a counting engine.\<close>

definition demo_entry :: "string \<Rightarrow> blockchain_based_list_entry" where
  "demo_entry i = \<lparr>entry_public_id = i, entry_public_address = [], entry_amount = 0\<rparr>"

definition demo_bbl :: bbl where
  "demo_bbl = map (map demo_entry) [[''0a'', ''0b''], [''0c'', ''0d''], [''0e'', ''0f''], [''0g'', ''0h'']]"

definition demo_next :: "nat \<Rightarrow> u64 \<times> nat" where
  "demo_next g = (of_nat g, Suc g)"

definition demo_fsl :: "(string, string) FullSupernodeList" where
  "demo_fsl =
     \<lparr> m_list = [''0a'' \<mapsto> 0, ''0b'' \<mapsto> 1, ''0c'' \<mapsto> 2, ''0d'' \<mapsto> 3, ''0e'' \<mapsto> 4, ''0f'' \<mapsto> 5,
                 ''0g'' \<mapsto> 6, ''0h'' \<mapsto> 7],
       sn_heap = (\<lambda>p. new_Supernode [] [''abcdefgh'' ! p] False), sn_next = 8,
       m_bbl_max_block_number = 20, m_stakes_max_block_number = 0,
       m_blockchain_based_lists = [20 \<mapsto> demo_bbl], m_next_recv_stakes = None,
       m_next_recv_bbl = None \<rparr>"

lemma demo_fsl_wf: "wf_fsl demo_crypto demo_fsl"
  by (auto simp: wf_fsl_def demo_fsl_def demo_crypto_def idKeyAsString_def new_Supernode_def
      split: if_splits)

lemma demo_fsl_list: "findBlockchainBasedList 20 demo_fsl = Some demo_bbl"
  by (simp add: findBlockchainBasedList_def demo_fsl_def)

lemma demo_fsl_reachable:
  "t \<in> set demo_bbl \<Longrightarrow> e \<in> set t \<Longrightarrow> entry_reachable 100 demo_fsl e"
  by (auto simp: demo_bbl_def demo_entry_def entry_reachable_def demo_fsl_def last_update_age_def
      new_Supernode_def)

text \<open>A node with the same supernodes under other addresses.\<close>

definition demo_fsl2 :: "(string, string) FullSupernodeList" where
  "demo_fsl2 = demo_fsl \<lparr> m_list := map_option Suc \<circ> m_list demo_fsl,
     sn_heap := (\<lambda>p. sn_heap demo_fsl (p - 1)), sn_next := 9 \<rparr>"

lemma demo_fsl2_wf: "wf_fsl demo_crypto demo_fsl2"
proof -
  have "sn_next demo_fsl = 8" by (simp add: demo_fsl_def)
  moreover have "finite (dom (map_option Suc \<circ> m_list demo_fsl))"
    using demo_fsl_wf by (simp add: wf_fsl_def dom_def)
  ultimately show ?thesis
    using demo_fsl_wf by (fastforce simp: wf_fsl_def demo_fsl2_def)
qed

lemma demo_fsl2_list: "findBlockchainBasedList 20 demo_fsl2 = Some demo_bbl"
  by (simp add: findBlockchainBasedList_def demo_fsl2_def demo_fsl_def)

lemma demo_fsl2_reachable:
  "t \<in> set demo_bbl \<Longrightarrow> e \<in> set t \<Longrightarrow> entry_reachable 900 demo_fsl2 e"
  by (auto simp: demo_bbl_def demo_entry_def entry_reachable_def demo_fsl2_def demo_fsl_def
      last_update_age_def new_Supernode_def)

lemma auth_sample_demo: "fst (buildAuthSample demo_next length 100 20 ''pid'' demo_fsl)"
proof -
  have "reachable_tiers 100 demo_fsl demo_bbl = demo_bbl"
    unfolding reachable_tiers_def using demo_fsl_reachable by (intro map_idI) (auto simp: filter_id_conv)
  moreover have "map (\<lambda>t. min AUTH_SAMPLE_SIZE (length t)) (take TIERS demo_bbl) = [2, 2, 2, 2]"
    by (simp add: demo_bbl_def)
  ultimately show ?thesis
    by (simp add: buildAuthSample_spec [OF demo_fsl_list] Let_def sample_spec_length)
qed

section \<open>Properties\<close>

text \<open>
  C1. The size of the authorisation sample. For a height whose list is known (and not the one
  height whose delayed block number is 0) the selection returns exactly
  \<open>min 8 n\<close> supernodes, where \<open>n\<close> counts, tier by tier and at most eight per tier, the
  entries of the first four tiers that are known and have announced themselves within the
  hour; and it reports success exactly when that is eight. So the sample is complete whenever
  the network has enough reachable supernodes, whatever the tiers lack and whatever the
  random engine draws.
\<close>

theorem auth_sample_complete:
  assumes "findBlockchainBasedList height s = Some l"
    and "height \<noteq> BLOCKCHAIN_BASED_LIST_DELAY_BLOCK_COUNT"
    and "n = (\<Sum>t\<leftarrow>take TIERS l. min AUTH_SAMPLE_SIZE (length (filter (entry_reachable now s) t)))"
    and "buildAuthSample nx seed now height pid s = (ok, out, blk)"
  shows "length out = min AUTH_SAMPLE_SIZE n \<and> (ok \<longleftrightarrow> AUTH_SAMPLE_SIZE \<le> n)"
proof -
  have "length (sample_spec nx (reachable_tiers now s l) (seed pid)) = min AUTH_SAMPLE_SIZE n"
    unfolding sample_spec_length assms(3) by (simp add: reachable_tiers_def take_map comp_def)
  with assms(4) show ?thesis
    unfolding buildAuthSample_spec [OF assms(1,2)] Let_def by auto
qed

theorem auth_sample_complete_witness:
  "length (fst (snd (buildAuthSample demo_next length 100 20 ''pid'' demo_fsl))) = 8 \<and>
   fst (buildAuthSample demo_next length 100 20 ''pid'' demo_fsl)"
proof -
  obtain ok out blk where b: "buildAuthSample demo_next length 100 20 ''pid'' demo_fsl = (ok, out, blk)"
    by (cases "buildAuthSample demo_next length 100 20 ''pid'' demo_fsl")
  have "filter (entry_reachable 100 demo_fsl) t = t" if "t \<in> set (take TIERS demo_bbl)" for t
    using that demo_fsl_reachable by (auto simp: filter_id_conv dest: in_set_takeD)
  then have "(\<Sum>t\<leftarrow>take TIERS demo_bbl. min AUTH_SAMPLE_SIZE (length (filter (entry_reachable 100 demo_fsl) t)))
      = (\<Sum>t\<leftarrow>take TIERS demo_bbl. min AUTH_SAMPLE_SIZE (length t))"
    by (intro arg_cong [where f = sum_list] map_cong) auto
  also have "\<dots> = 8" by (simp add: demo_bbl_def)
  finally have n: "8 = (\<Sum>t\<leftarrow>take TIERS demo_bbl. min AUTH_SAMPLE_SIZE (length (filter (entry_reachable 100 demo_fsl) t)))"
    by simp
  from auth_sample_complete [OF demo_fsl_list _ n b] b show ?thesis by simp
qed

text \<open>
  C2. Who is in the sample. Every selected supernode stands in one of the first four tiers of
  the list for that height, is known to the node, and its last announce is not older than the
  time to live; and if no id occurs twice in those tiers, no supernode is selected twice.
\<close>

theorem auth_sample_members:
  assumes "wf_fsl C s" and "findBlockchainBasedList height s = Some l"
    and "height \<noteq> BLOCKCHAIN_BASED_LIST_DELAY_BLOCK_COUNT"
    and "distinct (map entry_public_id (concat (take TIERS l)))"
    and "buildAuthSample nx seed now height pid s = (ok, out, blk)"
  shows "distinct out \<and>
    (\<forall>p\<in>set out. \<exists>t\<in>set (take TIERS l). \<exists>e\<in>set t.
       m_list s (entry_public_id e) = Some p \<and> idKeyAsString C (sn_heap s p) = entry_public_id e \<and>
       last_update_age now (sn_heap s p) \<le> ANNOUNCE_TTL_SECONDS)"
proof -
  let ?R = "reachable_tiers now s l"
  let ?es = "sample_spec nx ?R (seed pid)"
  let ?ptr = "\<lambda>e. the (m_list s (entry_public_id e))"
  have out: "out = map ?ptr ?es"
    using assms(5) unfolding buildAuthSample_spec [OF assms(2,3)] Let_def by auto
  have R: "concat (take TIERS ?R) = filter (entry_reachable now s) (concat (take TIERS l))"
    by (simp add: reachable_tiers_def take_map filter_concat)
  have sub: "subseq ?es (filter (entry_reachable now s) (concat (take TIERS l)))"
    using sample_spec_subseq [of nx ?R "seed pid"] unfolding R .
  have mem: "e \<in> set (concat (take TIERS l)) \<and> entry_reachable now s e" if "e \<in> set ?es" for e
    using subseq_imp_set_subset [OF sub] that by auto
  have "distinct (map entry_public_id ?es)"
    using assms(4) by (intro subseq_distinct [OF subseq_map [OF sub]]) (simp add: distinct_map_filter)
  moreover have "inj_on ?ptr (set ?es)" if "distinct (map entry_public_id ?es)"
  proof (rule inj_onI)
    fix a b assume "a \<in> set ?es" "b \<in> set ?es" "?ptr a = ?ptr b"
    then have "entry_public_id a = entry_public_id b"
      using mem entry_reachable_known wf_fsl_inj [OF assms(1)] by (metis option.collapse)
    with that \<open>a \<in> set ?es\<close> \<open>b \<in> set ?es\<close> show "a = b" by (simp add: distinct_map inj_on_def)
  qed
  ultimately have "distinct out" unfolding out by (simp add: distinct_map)
  moreover have "\<exists>t\<in>set (take TIERS l). \<exists>e\<in>set t.
       m_list s (entry_public_id e) = Some p \<and> idKeyAsString C (sn_heap s p) = entry_public_id e \<and>
       last_update_age now (sn_heap s p) \<le> ANNOUNCE_TTL_SECONDS" if p: "p \<in> set out" for p
  proof -
    from p obtain e where e: "e \<in> set ?es" "p = ?ptr e" unfolding out by auto
    from mem [OF e(1)] e(2) have "m_list s (entry_public_id e) = Some p"
      and "last_update_age now (sn_heap s p) \<le> ANNOUNCE_TTL_SECONDS"
      by (auto simp: entry_reachable_def not_less split: option.splits)
    with mem [OF e(1)] wf_fslD(2) [OF assms(1)] show ?thesis by auto
  qed
  ultimately show ?thesis by blast
qed

theorem auth_sample_members_witness:
  "distinct (fst (snd (buildAuthSample demo_next length 100 20 ''pid'' demo_fsl)))"
proof -
  obtain ok out blk where b: "buildAuthSample demo_next length 100 20 ''pid'' demo_fsl = (ok, out, blk)"
    by (cases "buildAuthSample demo_next length 100 20 ''pid'' demo_fsl")
  have d: "distinct (map entry_public_id (concat (take TIERS demo_bbl)))"
    by (simp add: demo_bbl_def demo_entry_def)
  from auth_sample_members [OF demo_fsl_wf demo_fsl_list _ d b] b show ?thesis by simp
qed

text \<open>
  C3. Agreement on the sample. Two nodes that hold the same list for a height and agree on
  which of its entries are reachable select the same supernodes, in the same order, for the
  same payment: the sample depends on nothing else of a node's state (neither on its other
  supernodes nor on the addresses of its objects nor on its clock).
\<close>

theorem auth_sample_agreement:
  assumes "wf_fsl C s1" "wf_fsl C s2"
    and "findBlockchainBasedList height s1 = Some l" "findBlockchainBasedList height s2 = Some l"
    and "height \<noteq> BLOCKCHAIN_BASED_LIST_DELAY_BLOCK_COUNT"
    and agree: "\<forall>t\<in>set l. \<forall>e\<in>set t. entry_reachable now1 s1 e = entry_reachable now2 s2 e"
    and "buildAuthSample nx seed now1 height pid s1 = (ok1, out1, blk1)"
    and "buildAuthSample nx seed now2 height pid s2 = (ok2, out2, blk2)"
  shows "ok1 = ok2 \<and> blk1 = blk2 \<and>
    map (\<lambda>p. idKeyAsString C (sn_heap s1 p)) out1 = map (\<lambda>p. idKeyAsString C (sn_heap s2 p)) out2"
proof -
  have R: "reachable_tiers now1 s1 l = reachable_tiers now2 s2 l"
    using agree by (simp add: reachable_tiers_def cong: map_cong filter_cong)
  let ?es = "sample_spec nx (reachable_tiers now1 s1 l) (seed pid)"
  have known: "entry_reachable now1 s1 e \<and> entry_reachable now2 s2 e" if "e \<in> set ?es" for e
  proof -
    have "e \<in> set (concat (take TIERS (reachable_tiers now1 s1 l)))"
      using subseq_imp_set_subset [OF sample_spec_subseq [of nx "reachable_tiers now1 s1 l" "seed pid"]] that by blast
    then obtain t where "t \<in> set l" "e \<in> set t" "entry_reachable now1 s1 e"
      by (auto simp: reachable_tiers_def take_map dest!: in_set_takeD)
    with agree show ?thesis by auto
  qed
  have ids: "map (\<lambda>p. idKeyAsString C (sn_heap s p)) (map (\<lambda>e. the (m_list s (entry_public_id e))) ?es)
      = map entry_public_id ?es"
    if "wf_fsl C s" "\<forall>e\<in>set ?es. entry_reachable now s e" for s :: "('a, 'b) FullSupernodeList" and now
    using that wf_fslD(2) [OF that(1)] by (auto dest!: entry_reachable_known)
  have o1: "out1 = map (\<lambda>e. the (m_list s1 (entry_public_id e))) ?es"
    and o2: "out2 = map (\<lambda>e. the (m_list s2 (entry_public_id e))) ?es"
    and flags: "ok1 = ok2" "blk1 = blk2"
    using assms(7,8) unfolding buildAuthSample_spec [OF assms(3,5)]
      buildAuthSample_spec [OF assms(4,5)] Let_def R by auto
  from known have "\<forall>e\<in>set ?es. entry_reachable now1 s1 e" "\<forall>e\<in>set ?es. entry_reachable now2 s2 e"
    by auto
  with ids [OF assms(1)] ids [OF assms(2)] o1 o2 flags show ?thesis by metis
qed

theorem auth_sample_agreement_witness:
  "map (\<lambda>p. idKeyAsString demo_crypto (sn_heap demo_fsl p))
     (fst (snd (buildAuthSample demo_next length 100 20 ''pid'' demo_fsl))) =
   map (\<lambda>p. idKeyAsString demo_crypto (sn_heap demo_fsl2 p))
     (fst (snd (buildAuthSample demo_next length 900 20 ''pid'' demo_fsl2)))"
proof -
  obtain ok1 out1 blk1 where b1: "buildAuthSample demo_next length 100 20 ''pid'' demo_fsl = (ok1, out1, blk1)"
    by (cases "buildAuthSample demo_next length 100 20 ''pid'' demo_fsl")
  obtain ok2 out2 blk2 where b2: "buildAuthSample demo_next length 900 20 ''pid'' demo_fsl2 = (ok2, out2, blk2)"
    by (cases "buildAuthSample demo_next length 900 20 ''pid'' demo_fsl2")
  have "\<forall>t\<in>set demo_bbl. \<forall>e\<in>set t. entry_reachable 100 demo_fsl e = entry_reachable 900 demo_fsl2 e"
    using demo_fsl_reachable demo_fsl2_reachable by blast
  from auth_sample_agreement [OF demo_fsl_wf demo_fsl2_wf demo_fsl_list demo_fsl2_list _ this b1 b2] b1 b2
  show ?thesis by simp
qed

text \<open>
  C12. The second lock. \<open>buildAuthSample\<close> filters the list under the reader lock and selects
  under the writer lock; when an entry of the first four tiers has left the list in between,
  it returns false and no supernode, and otherwise exactly the abstract selection.
\<close>

theorem auth_sample_refines:
  "buildAuthSampleFrom nx seed mlist l pid =
     (if \<exists>t\<in>set (take TIERS l). \<exists>e\<in>set t. mlist (entry_public_id e) = None then (False, [])
      else let es = sample_spec nx l (seed pid) in
        (length es = AUTH_SAMPLE_SIZE, map (\<lambda>e. the (mlist (entry_public_id e))) es))"
proof (cases "\<exists>t\<in>set (take TIERS l). \<exists>e\<in>set t. mlist (entry_public_id e) = None")
  case True
  then show ?thesis
    by (simp add: buildAuthSampleFrom_def tier_supernodes_def selectTiers_unknown [OF True])
next
  case False
  then have "\<forall>t\<in>set (take TIERS l). \<forall>e\<in>set t. mlist (entry_public_id e) \<noteq> None" by auto
  then show ?thesis by (simp only: buildAuthSampleFrom_spec False if_False)
qed

text \<open>
  An even sample. When the list has four tiers and each of them has at least two reachable
  supernodes, the sample is made of exactly two supernodes of each tier, in the order of the
  tiers.
\<close>

theorem auth_sample_even:
  assumes "findBlockchainBasedList height s = Some l"
    and "height \<noteq> BLOCKCHAIN_BASED_LIST_DELAY_BLOCK_COUNT" and "length l \<ge> TIERS"
    and many: "\<forall>k<TIERS. ITEMS_PER_TIER \<le> length (filter (entry_reachable now s) (l ! k))"
    and "buildAuthSample nx seed now height pid s = (ok, out, blk)"
  shows "ok \<and> (\<exists>ds. out = concat ds \<and> length ds = TIERS \<and>
    (\<forall>k<TIERS. length (ds ! k) = ITEMS_PER_TIER \<and>
       (\<forall>p\<in>set (ds ! k). \<exists>e\<in>set (l ! k). entry_reachable now s e \<and>
          m_list s (entry_public_id e) = Some p)))"
proof -
  let ?R = "take TIERS (reachable_tiers now s l)"
  let ?P = "pick_tiers nx ?R (seed pid)"
  let ?ptr = "\<lambda>e. the (m_list s (entry_public_id e))"
  let ?ds = "map (\<lambda>t. map ?ptr (take 2 t)) ?P"
  have len: "length ?R = TIERS" using assms(3) by (simp add: reachable_tiers_def)
  have Rk: "?R ! k = filter (entry_reachable now s) (l ! k)" if "k < TIERS" for k
    using that assms(3) by (simp add: reachable_tiers_def)
  have sizes: "length (?P ! k) = min AUTH_SAMPLE_SIZE (length (?R ! k))" if "k < TIERS" for k
    using arg_cong [OF pick_tiers_lengths [of nx ?R "seed pid"], of "\<lambda>xs. xs ! k"] that len
    by (simp add: pick_tiers_length)
  then have ge: "2 \<le> length (?P ! k)" if "k < TIERS" for k
    using many that Rk by simp
  have sample: "sample_spec nx (reachable_tiers now s l) (seed pid) = concat (map (take 2) ?P)"
  proof -
    have "pad_tiers ?P = ?P" using len by (simp add: pad_tiers_def pick_tiers_length)
    then show ?thesis
      using assembleSample_even [of ?P] len ge by (simp add: sample_spec_def pick_tiers_length)
  qed
  have "ok = (length (map ?ptr (concat (map (take 2) ?P))) = AUTH_SAMPLE_SIZE)"
    and out': "out = map ?ptr (concat (map (take 2) ?P))"
    using assms(5) unfolding buildAuthSample_spec [OF assms(1,2)] Let_def sample by auto
  moreover from out' have out: "out = concat ?ds" by (simp add: map_concat comp_def)
  ultimately have blk: "ok = (length out = AUTH_SAMPLE_SIZE)" by simp
  have ds: "length (?ds ! k) = ITEMS_PER_TIER \<and> (\<forall>p\<in>set (?ds ! k). \<exists>e\<in>set (l ! k).
      entry_reachable now s e \<and> m_list s (entry_public_id e) = Some p)" if k: "k < TIERS" for k
  proof -
    have "set (?P ! k) \<subseteq> set (?R ! k)"
      by (rule pick_tiers_nth_subset) (use k len in simp)
    then have "\<forall>e\<in>set (take 2 (?P ! k)). e \<in> set (l ! k) \<and> entry_reachable now s e"
      using Rk [OF k] by (auto dest: in_set_takeD)
    then show ?thesis
      using k len ge [OF k] entry_reachable_known by (fastforce simp: pick_tiers_length)
  qed
  have "length out = AUTH_SAMPLE_SIZE"
  proof -
    have "map length ?ds = replicate TIERS 2"
      using ds len by (intro nth_equalityI) (auto simp: pick_tiers_length)
    then show ?thesis unfolding out length_concat by (simp only: sum_list_replicate) simp
  qed
  with out blk ds len show ?thesis
    by (intro conjI exI [of _ ?ds]) (auto simp: pick_tiers_length)
qed


theorem auth_sample_even_witness:
  "length (fst (snd (buildAuthSample demo_next length 100 20 ''pid'' demo_fsl))) = 8"
proof -
  obtain ok out blk where b: "buildAuthSample demo_next length 100 20 ''pid'' demo_fsl = (ok, out, blk)"
    by (cases "buildAuthSample demo_next length 100 20 ''pid'' demo_fsl")
  have l: "length demo_bbl = TIERS" by (simp add: demo_bbl_def)
  have "filter (entry_reachable 100 demo_fsl) (demo_bbl ! k) = demo_bbl ! k" if "k < TIERS" for k
    using that demo_fsl_reachable [of "demo_bbl ! k"] l by (simp add: filter_id_conv)
  moreover have "length (demo_bbl ! k) = 2" if "k < TIERS" for k
    using that by (auto simp: demo_bbl_def less_Suc_eq numeral_eq_Suc)
  ultimately have "\<forall>k<TIERS. ITEMS_PER_TIER \<le> length (filter (entry_reachable 100 demo_fsl) (demo_bbl ! k))"
    by simp
  from auth_sample_even [OF demo_fsl_list _ _ this b] l obtain ds where
    ds: "out = concat ds" "length ds = TIERS" "\<forall>k<TIERS. length (ds ! k) = ITEMS_PER_TIER" by auto
  then have "map length ds = replicate TIERS 2" by (intro nth_equalityI) auto
  then have "length out = 8"
    unfolding ds(1) length_concat by (simp only: sum_list_replicate) simp
  with b show ?thesis by simp
qed

text \<open>
  C11. A stakes message. A message for a block not newer than the last one changes nothing; a
  newer one whose ids are distinct printed keys makes the list hold exactly these stakes:
  every supernode it names is in the list with the amount, height, unlock time and wallet
  address it gives, every other supernode that was known is still there with stake 0, and no
  other appears. The list stays well-formed.
\<close>

theorem updateStakes_effect:
  assumes "wf_fsl C s" and "distinct (map stake_public_id stakes)"
    and "\<forall>st\<in>set stakes. canonical_id C (stake_public_id st)"
  shows "(block_number \<le> m_stakes_max_block_number s \<longrightarrow>
            updateStakes C now lt block_number stakes tn s = s) \<and>
    (m_stakes_max_block_number s < block_number \<longrightarrow>
       (let s' = updateStakes C now lt block_number stakes tn s in
          wf_fsl C s' \<and> m_stakes_max_block_number s' = block_number \<and>
          (\<forall>st\<in>set stakes. holds_stake st s') \<and>
          (\<forall>i. i \<notin> stake_public_id ` set stakes \<longrightarrow>
             stake_of i s' = map_option (\<lambda>_. 0) (m_list s i))))"
proof -
  let ?f = "fold (updateStake C now tn) stakes (clearStakes s)"
  let ?s' = "updateStakes C now lt block_number stakes tn s"
  have "holds_stake st ?f" if "st \<in> set stakes" for st
    using fold_updateStake_holds [OF wf_clearStakes [OF assms(1)] assms(2,3) that] .
  moreover have "stake_of i ?f = map_option (\<lambda>_. 0) (m_list s i)" if "i \<notin> stake_public_id ` set stakes" for i
    using stake_of_fold [OF wf_clearStakes [OF assms(1)] assms(3) that] by (simp add: stake_of_clear)
  ultimately show ?thesis
    using wf_updateStakes [OF assms(1), of now lt block_number stakes tn]
    by (auto simp: updateStakes_def Let_def holds_stake_def stake_of_def not_le)
qed

theorem updateStakes_effect_witness:
  "stake_of ''0b'' (updateStakes demo_crypto 5 6 30
     [\<lparr>stake_amount = 7, stake_block_height = 1, stake_unlock_time = 2, stake_public_id = ''0a'',
       stake_public_address = ''w''\<rparr>] False demo_fsl) = Some 0"
proof -
  let ?st = "\<lparr>stake_amount = 7, stake_block_height = 1, stake_unlock_time = 2, stake_public_id = ''0a'',
       stake_public_address = ''w''\<rparr>"
  have "canonical_id demo_crypto (stake_public_id ?st)"
    by (simp add: canonical_id_def demo_crypto_def)
  then have "\<forall>st\<in>set [?st]. canonical_id demo_crypto (stake_public_id st)" by simp
  from updateStakes_effect [OF demo_fsl_wf _ this, of 30 5 6 False]
  show ?thesis by (simp add: Let_def demo_fsl_def)
qed

text \<open>
  C33. The window of lists. Once block numbers have passed the history size \<open>H\<close>, accepting a
  list keeps the window: no list older than \<open>H\<close> blocks before the newest, at most \<open>H + 1\<close>
  lists in all, the new list is found unless it is itself older than the window, and every
  other list inside the window is what it was.
\<close>

theorem setBlockchainBasedList_window:
  assumes "bbl_window H s" and "H \<le> n"
    and "newest = max n (m_bbl_max_block_number s)"
    and "s' = setBlockchainBasedList H lt n l s"
  shows "bbl_window H s' \<and> card (dom (m_blockchain_based_lists s')) \<le> unat H + 1 \<and>
    (newest - H \<le> n \<longrightarrow> findBlockchainBasedList n s' = Some l) \<and>
    (\<forall>b. b \<noteq> n \<and> newest - H \<le> b \<longrightarrow> findBlockchainBasedList b s' = findBlockchainBasedList b s)"
proof -
  have w: "bbl_window H s'" unfolding assms(4) using assms(1,2) by (rule setBBL_window)
  have m: "(if n > m_bbl_max_block_number s then n else m_bbl_max_block_number s) = newest"
    using assms(3) by (auto simp: max_def)
  have "newest - H \<le> n \<Longrightarrow> findBlockchainBasedList n s' = Some l"
    unfolding assms(4) findBlockchainBasedList_def setBlockchainBasedList_def Let_def m by auto
  moreover have "b \<noteq> n \<Longrightarrow> newest - H \<le> b \<Longrightarrow> findBlockchainBasedList b s' = findBlockchainBasedList b s" for b
    unfolding assms(4) findBlockchainBasedList_def setBlockchainBasedList_def Let_def m by auto
  ultimately show ?thesis using w bbl_window_card [OF w] by blast
qed

theorem setBlockchainBasedList_window_witness:
  "findBlockchainBasedList 21 (setBlockchainBasedList 4 0 21 demo_bbl demo_fsl) = Some demo_bbl"
proof -
  have w: "bbl_window 4 demo_fsl" by (simp add: bbl_window_def demo_fsl_def)
  have "(4::u64) \<le> 21" by simp
  from setBlockchainBasedList_window [OF w this refl refl, of 0 demo_bbl]
  show ?thesis by (simp add: demo_fsl_def max_def)
qed

text \<open>
  Below the history size. As long as no block number has reached \<open>H\<close>, the unsigned
  subtraction wraps and the cleanup removes every list up to the newest, the one just
  received included: a supernode on a young chain never has a list to select from.
\<close>

theorem setBlockchainBasedList_young_chain:
  assumes "findBlockchainBasedList n s = None" and "n < H" and "m_bbl_max_block_number s < H"
  shows "findBlockchainBasedList n (setBlockchainBasedList H lt n l s) = None \<and>
    \<not> fst (buildAuthSample nx seed now n pid (setBlockchainBasedList H lt n l s))"
proof -
  let ?m = "if n > m_bbl_max_block_number s then n else m_bbl_max_block_number s"
  have "n < ?m - H" by (rule wrapped_window) (use assms in auto)
  then have "m_blockchain_based_lists (setBlockchainBasedList H lt n l s) n = None"
    using assms(1) by (simp add: setBlockchainBasedList_def findBlockchainBasedList_def Let_def)
  then show ?thesis
    by (simp add: findBlockchainBasedList_def buildAuthSample_def getBlockchainBasedListForAuthSample_def
        Let_def)
qed

theorem setBlockchainBasedList_young_chain_witness:
  "findBlockchainBasedList 7 (setBlockchainBasedList 100 0 7 demo_bbl
     (new_fsl (\<lambda>_. new_Supernode [] [] False) 0 :: (string, string) FullSupernodeList)) = None"
  using setBlockchainBasedList_young_chain [where n = 7 and H = 100 and
      s = "new_fsl (\<lambda>_. new_Supernode [] [] False) 0 :: (string, string) FullSupernodeList"
      and lt = 0 and l = demo_bbl and nx = demo_next and seed = length and now = 0 and pid = "[]"]
  by (simp add: new_fsl_def findBlockchainBasedList_def)

end
