(* ===== verification/Global_Context.thy ===== *)
theory Global_Context
  imports Ordered_Map "HOL-Library.List_Lexorder" "HOL-Library.Char_ord"
begin

text \<open>
  The shared store behind \<^verbatim>\<open>ctx.global\<close> (include/lib/graft/graft\_utility.hpp and the class
  \<^verbatim>\<open>Context::Global\<close> of include/lib/graft/context.h): a hash table whose buckets are lists of
  nodes with a time to live. A node's address is the number \<open>nd_id\<close>, so that the weak
  pointers a group keeps can be followed. The clock (\<^verbatim>\<open>steady_clock\<close> in seconds) is the
  argument \<open>now\<close>, \<^verbatim>\<open>std::hash\<close> the argument \<open>hash\<close>; an expiry callback is a value of
  type \<open>'f\<close>, and cleaning up returns the calls in the order the code makes them. The locks
  only order the operations; each operation is one step.

  The interface the request handlers rely on is the locale \<open>context_store\<close>; it is
  interpreted on the table.
\<close>

section \<open>The interface\<close>

locale context_store =
  fixes wf :: "'t \<Rightarrow> bool"
    and lookup :: "'t \<Rightarrow> 'k \<Rightarrow> 'v option"
    and put :: "'k \<Rightarrow> 'v \<Rightarrow> int \<Rightarrow> 't \<Rightarrow> 't"
    and touch :: "'k \<Rightarrow> 't \<Rightarrow> 't"
    and del :: "'k \<Rightarrow> 't \<Rightarrow> 't"
  assumes wf_put: "wf t \<Longrightarrow> wf (put k v ttl t)"
    and wf_touch: "wf t \<Longrightarrow> wf (touch k t)"
    and wf_del: "wf t \<Longrightarrow> wf (del k t)"
    and lookup_put: "wf t \<Longrightarrow> lookup (put k v ttl t) k' = (if k' = k then Some v else lookup t k')"
    and lookup_touch: "wf t \<Longrightarrow> lookup (touch k t) k' = lookup t k'"
    and lookup_del: "wf t \<Longrightarrow> lookup (del k t) k' = (if k' = k then None else lookup t k')"
begin

lemma wf_del_all: "wf t \<Longrightarrow> wf (fold del ks t)"
  by (induction ks arbitrary: t) (simp_all add: wf_del)

lemma lookup_del_all:
  "wf t \<Longrightarrow> lookup (fold del ks t) k = (if k \<in> set ks then None else lookup t k)"
  by (induction ks arbitrary: t) (simp_all add: wf_del lookup_del)

lemma wf_put_all: "wf t \<Longrightarrow> wf (fold (\<lambda>(k, v, ttl). put k v ttl) es t)"
  by (induction es arbitrary: t) (auto simp: wf_put)

lemma lookup_put_frame:
  "wf t \<Longrightarrow> k \<notin> fst ` set es \<Longrightarrow> lookup (fold (\<lambda>(k, v, ttl). put k v ttl) es t) k = lookup t k"
  by (induction es arbitrary: t) (auto simp: wf_put lookup_put)

end

section \<open>Nodes and lists\<close>

record ('k, 'v, 'f) node =
  nd_id :: nat
  nd_key :: 'k
  nd_val :: 'v
  nd_ttl :: int
  nd_expires :: "int option"
  nd_onExpired :: "'f option"

text \<open>\<open>nd_expires = None\<close> is \<^verbatim>\<open>seconds::max\<close>.\<close>

definition update_time :: "int \<Rightarrow> ('k, 'v, 'f) node \<Rightarrow> ('k, 'v, 'f) node" where
  "update_time now n = n\<lparr>nd_expires := (if nd_ttl n = 0 then None else Some (now + nd_ttl n))\<rparr>"

definition new_node :: "int \<Rightarrow> nat \<Rightarrow> 'k \<Rightarrow> 'v \<Rightarrow> int \<Rightarrow> 'f option \<Rightarrow> ('k, 'v, 'f) node" where
  "new_node now i k v ttl onExpired =
     update_time now \<lparr>nd_id = i, nd_key = k, nd_val = v, nd_ttl = ttl, nd_expires = None,
       nd_onExpired = onExpired\<rparr>"

definition expired :: "int \<Rightarrow> ('k, 'v, 'f) node \<Rightarrow> bool" where
  "expired now_sec n = (case nd_expires n of None \<Rightarrow> False | Some e \<Rightarrow> e \<le> now_sec)"

definition pushFront :: "('k, 'v, 'f) node \<Rightarrow> ('k, 'v, 'f) node list \<Rightarrow> ('k, 'v, 'f) node list" where
  "pushFront n l = n # l"

text \<open>The first matching node, which the search also refreshes.\<close>

fun findFirstOf ::
  "int \<Rightarrow> (('k, 'v, 'f) node \<Rightarrow> bool) \<Rightarrow> ('k, 'v, 'f) node list
     \<Rightarrow> ('k, 'v, 'f) node option \<times> ('k, 'v, 'f) node list" where
  "findFirstOf now p [] = (None, [])"
| "findFirstOf now p (n # l) =
     (if p n then (Some n, update_time now n # l)
      else (case findFirstOf now p l of (r, l') \<Rightarrow> (r, n # l')))"

text \<open>\<open>f\<close> may change the value; the result is what \<open>f\<close> returned, or false.\<close>

fun findAndApplyFirstOf ::
  "int \<Rightarrow> (('k, 'v, 'f) node \<Rightarrow> bool) \<Rightarrow> ('v \<Rightarrow> bool \<times> 'v) \<Rightarrow> ('k, 'v, 'f) node list
     \<Rightarrow> bool \<times> ('k, 'v, 'f) node list" where
  "findAndApplyFirstOf now p f [] = (False, [])"
| "findAndApplyFirstOf now p f (n # l) =
     (if p n then (case f (nd_val n) of (b, v) \<Rightarrow> (b, (update_time now n)\<lparr>nd_val := v\<rparr> # l))
      else (case findAndApplyFirstOf now p f l of (r, l') \<Rightarrow> (r, n # l')))"

fun removeIf :: "(('k, 'v, 'f) node \<Rightarrow> bool) \<Rightarrow> ('k, 'v, 'f) node list \<Rightarrow> ('k, 'v, 'f) node list" where
  "removeIf p [] = []"
| "removeIf p (n # l) = (if p n then removeIf p l else n # removeIf p l)"

fun safe_cleanup ::
  "int \<Rightarrow> ('k, 'v, 'f) node list \<Rightarrow> ('f \<times> 'k \<times> 'v) list \<times> ('k, 'v, 'f) node list" where
  "safe_cleanup now_sec [] = ([], [])"
| "safe_cleanup now_sec (n # l) =
     (case safe_cleanup now_sec l of (res, l') \<Rightarrow>
        if expired now_sec n
        then ((case nd_onExpired n of None \<Rightarrow> [] | Some f \<Rightarrow> [(f, nd_key n, nd_val n)]) @ res, l')
        else (res, n # l'))"

section \<open>The table\<close>

record ('k, 'v, 'f) ht =
  m_buckets :: "('k, 'v, 'f) node list list"
  m_bit :: nat
  m_groups :: "(string \<times> ('k \<times> nat) list) list"
  ht_next :: nat

definition new_ht :: "nat \<Rightarrow> ('k, 'v, 'f) ht" where
  "new_ht num_buckets =
     \<lparr>m_buckets = replicate num_buckets [], m_bit = 0, m_groups = [], ht_next = 0\<rparr>"

definition bucket_index :: "('k \<Rightarrow> u64) \<Rightarrow> ('k, 'v, 'f) ht \<Rightarrow> 'k \<Rightarrow> nat" where
  "bucket_index hash t k = unat (hash k) mod length (m_buckets t)"

definition getBucket :: "('k \<Rightarrow> u64) \<Rightarrow> ('k, 'v, 'f) ht \<Rightarrow> 'k \<Rightarrow> ('k, 'v, 'f) node list" where
  "getBucket hash t k = m_buckets t ! bucket_index hash t k"

definition set_bucket :: "nat \<Rightarrow> ('k, 'v, 'f) node list \<Rightarrow> ('k, 'v, 'f) ht \<Rightarrow> ('k, 'v, 'f) ht" where
  "set_bucket i l t = t\<lparr>m_buckets := (m_buckets t)[i := l]\<rparr>"

definition findEntryFor ::
  "('k \<Rightarrow> u64) \<Rightarrow> int \<Rightarrow> 'k \<Rightarrow> ('k, 'v, 'f) ht \<Rightarrow> ('k, 'v, 'f) node option \<times> ('k, 'v, 'f) ht" where
  "findEntryFor hash now key t =
     (case findFirstOf now (\<lambda>n. nd_key n = key) (getBucket hash t key) of
        (r, l) \<Rightarrow> (r, set_bucket (bucket_index hash t key) l t))"

definition valueFor :: "('k \<Rightarrow> u64) \<Rightarrow> int \<Rightarrow> 'k \<Rightarrow> 'v \<Rightarrow> ('k, 'v, 'f) ht \<Rightarrow> 'v \<times> ('k, 'v, 'f) ht" where
  "valueFor hash now key default_value t =
     (case findEntryFor hash now key t of
        (None, t') \<Rightarrow> (default_value, t') | (Some n, t') \<Rightarrow> (nd_val n, t'))"

definition hasKey :: "('k \<Rightarrow> u64) \<Rightarrow> int \<Rightarrow> 'k \<Rightarrow> ('k, 'v, 'f) ht \<Rightarrow> bool \<times> ('k, 'v, 'f) ht" where
  "hasKey hash now key t = (case findEntryFor hash now key t of (r, t') \<Rightarrow> (r \<noteq> None, t'))"

text \<open>
  A new key gets a node with the given time to live; the value of a known key is replaced and
  its node keeps the time to live and the callback it has.
\<close>

definition add_node ::
  "('k \<Rightarrow> u64) \<Rightarrow> int \<Rightarrow> 'k \<Rightarrow> 'v \<Rightarrow> int \<Rightarrow> 'f option \<Rightarrow> ('k, 'v, 'f) ht \<Rightarrow> ('k, 'v, 'f) ht" where
  "add_node hash now key v ttl onExpired t =
     (set_bucket (bucket_index hash t key)
        (pushFront (new_node now (ht_next t) key v ttl onExpired) (getBucket hash t key)) t)
       \<lparr>ht_next := Suc (ht_next t)\<rparr>"

definition set_value :: "nat \<Rightarrow> 'v \<Rightarrow> ('k, 'v, 'f) node list \<Rightarrow> ('k, 'v, 'f) node list" where
  "set_value i v l = map (\<lambda>n. if nd_id n = i then n\<lparr>nd_val := v\<rparr> else n) l"

definition addOrUpdate ::
  "('k \<Rightarrow> u64) \<Rightarrow> int \<Rightarrow> 'k \<Rightarrow> 'v \<Rightarrow> int \<Rightarrow> 'f option \<Rightarrow> ('k, 'v, 'f) ht \<Rightarrow> ('k, 'v, 'f) ht" where
  "addOrUpdate hash now key v ttl onExpired t =
     (case findEntryFor hash now key t of
        (None, t') \<Rightarrow> add_node hash now key v ttl onExpired t'
      | (Some n, t') \<Rightarrow>
          set_bucket (bucket_index hash t' key) (set_value (nd_id n) v (getBucket hash t' key)) t')"

definition remove_key :: "('k \<Rightarrow> u64) \<Rightarrow> 'k \<Rightarrow> ('k, 'v, 'f) ht \<Rightarrow> ('k, 'v, 'f) ht" where
  "remove_key hash key t =
     set_bucket (bucket_index hash t key) (removeIf (\<lambda>n. nd_key n = key) (getBucket hash t key)) t"

definition applyFor ::
  "('k \<Rightarrow> u64) \<Rightarrow> int \<Rightarrow> 'k \<Rightarrow> ('v \<Rightarrow> bool \<times> 'v) \<Rightarrow> ('k, 'v, 'f) ht \<Rightarrow> bool \<times> ('k, 'v, 'f) ht" where
  "applyFor hash now key f t =
     (case findAndApplyFirstOf now (\<lambda>n. nd_key n = key) f (getBucket hash t key) of
        (r, l) \<Rightarrow> (r, set_bucket (bucket_index hash t key) l t))"

subsection \<open>Cleaning up\<close>

definition getNextBucket :: "('k, 'v, 'f) ht \<Rightarrow> nat \<times> ('k, 'v, 'f) ht" where
  "getNextBucket t =
     (m_bit t, t\<lparr>m_bit := (if m_bit t + 1 = length (m_buckets t) then 0 else m_bit t + 1)\<rparr>)"

definition cleanup_bucket ::
  "int \<Rightarrow> nat \<Rightarrow> ('k, 'v, 'f) ht \<Rightarrow> ('f \<times> 'k \<times> 'v) list \<times> ('k, 'v, 'f) ht" where
  "cleanup_bucket now b t =
     (case safe_cleanup now (m_buckets t ! b) of (res, l) \<Rightarrow> (res, set_bucket b l t))"

text \<open>
  The loop of \<^verbatim>\<open>cleanup(all)\<close> from bucket \<open>n\<close> until the iterator is back at \<open>b\<close>. The fuel is
  the number of buckets, one per turn; \<open>cleanup_all_total\<close> shows it is enough.
\<close>

fun cleanup_loop ::
  "nat \<Rightarrow> int \<Rightarrow> nat \<Rightarrow> nat \<Rightarrow> ('k, 'v, 'f) ht \<Rightarrow> (('f \<times> 'k \<times> 'v) list \<times> ('k, 'v, 'f) ht) option" where
  "cleanup_loop 0 now b n t = None"
| "cleanup_loop (Suc fuel) now b n t =
     (case cleanup_bucket now n t of (res, t1) \<Rightarrow>
      case getNextBucket t1 of (n', t2) \<Rightarrow>
        if n' = b then Some (res, t2)
        else (case cleanup_loop fuel now b n' t2 of
                None \<Rightarrow> None | Some (res', t3) \<Rightarrow> Some (res @ res', t3)))"

definition cleanup ::
  "int \<Rightarrow> bool \<Rightarrow> ('k, 'v, 'f) ht \<Rightarrow> (('f \<times> 'k \<times> 'v) list \<times> ('k, 'v, 'f) ht) option" where
  "cleanup now all t =
     (case getNextBucket t of (b, t1) \<Rightarrow>
        if all then cleanup_loop (length (m_buckets t)) now b b t1
        else Some (cleanup_bucket now b t1))"

subsection \<open>Groups\<close>

text \<open>A weak pointer is the address of a node; it can be locked while the node is in the table.\<close>

definition all_nodes :: "('k, 'v, 'f) ht \<Rightarrow> ('k, 'v, 'f) node list" where
  "all_nodes t = concat (m_buckets t)"

definition lock_ptr :: "nat \<Rightarrow> ('k, 'v, 'f) ht \<Rightarrow> ('k, 'v, 'f) node option" where
  "lock_ptr i t = find (\<lambda>n. nd_id n = i) (all_nodes t)"

definition createGroup :: "string \<Rightarrow> ('k, 'v, 'f) ht \<Rightarrow> bool \<times> ('k, 'v, 'f) ht" where
  "createGroup gname t =
     (omap_find (m_groups t) gname = None, t\<lparr>m_groups := omap_emplace gname [] (m_groups t)\<rparr>)"

definition getGroup :: "string \<Rightarrow> ('k, 'v, 'f) ht \<Rightarrow> ('k \<times> nat) list option" where
  "getGroup gname t = omap_find (m_groups t) gname"

definition deleteGroup :: "string \<Rightarrow> ('k, 'v, 'f) ht \<Rightarrow> bool \<times> ('k, 'v, 'f) ht" where
  "deleteGroup gname t =
     (omap_find (m_groups t) gname \<noteq> None, t\<lparr>m_groups := omap_erase gname (m_groups t)\<rparr>)"

definition group_get :: "('k \<times> nat) list \<Rightarrow> 'k \<Rightarrow> ('k, 'v, 'f) ht \<Rightarrow> ('k, 'v, 'f) node option" where
  "group_get g key t = Option.bind (omap_find g key) (\<lambda>i. lock_ptr i t)"

definition groupHasKey :: "string \<Rightarrow> 'k \<Rightarrow> ('k, 'v, 'f) ht \<Rightarrow> bool" where
  "groupHasKey gname key t =
     (case getGroup gname t of None \<Rightarrow> False | Some g \<Rightarrow> group_get g key t \<noteq> None)"

text \<open>
  A key whose node is alive is not added again. Otherwise a dead entry is erased, and the
  node of the key, if the table has one, is entered. The search does not refresh the node.
\<close>

definition groupAddKey ::
  "('k::linorder \<Rightarrow> u64) \<Rightarrow> string \<Rightarrow> 'k \<Rightarrow> ('k, 'v, 'f) ht \<Rightarrow> bool \<times> ('k, 'v, 'f) ht" where
  "groupAddKey hash gname key t =
     (case getGroup gname t of
        None \<Rightarrow> (False, t)
      | Some g \<Rightarrow>
          if group_get g key t \<noteq> None then (False, t)
          else (let g1 = omap_erase key g in
            case find (\<lambda>n. nd_key n = key) (getBucket hash t key) of
              None \<Rightarrow> (False, t\<lparr>m_groups := omap_assign gname g1 (m_groups t)\<rparr>)
            | Some n \<Rightarrow>
                (True, t\<lparr>m_groups := omap_assign gname (omap_emplace key (nd_id n) g1) (m_groups t)\<rparr>)))"

definition groupRemoveKey :: "string \<Rightarrow> 'k \<Rightarrow> ('k, 'v, 'f) ht \<Rightarrow> bool \<times> ('k, 'v, 'f) ht" where
  "groupRemoveKey gname key t =
     (case getGroup gname t of
        None \<Rightarrow> (False, t)
      | Some g \<Rightarrow> (omap_find g key \<noteq> None,
          t\<lparr>m_groups := omap_assign gname (omap_erase key g) (m_groups t)\<rparr>))"

text \<open>
  Unlike \<open>addOrUpdate\<close>, \<open>groupSet\<close> replaces the time to live and the callback of the node;
  its expiry time stays until the node is next refreshed.
\<close>

definition groupSet ::
  "string \<Rightarrow> 'k \<Rightarrow> 'v \<Rightarrow> int \<Rightarrow> 'f option \<Rightarrow> ('k, 'v, 'f) ht \<Rightarrow> bool \<times> ('k, 'v, 'f) ht" where
  "groupSet gname key v ttl onExpired t =
     (case getGroup gname t of
        None \<Rightarrow> (False, t)
      | Some g \<Rightarrow>
          (case group_get g key t of
             None \<Rightarrow> (False, t)
           | Some n \<Rightarrow>
               (True, t\<lparr>m_buckets := map (map (\<lambda>m. if nd_id m = nd_id n
                    then m\<lparr>nd_val := v, nd_ttl := ttl, nd_onExpired := onExpired\<rparr> else m))
                  (m_buckets t)\<rparr>)))"

definition groupGet :: "string \<Rightarrow> 'k \<Rightarrow> 'v \<Rightarrow> ('k, 'v, 'f) ht \<Rightarrow> 'v" where
  "groupGet gname key defval t =
     (case getGroup gname t of
        None \<Rightarrow> defval
      | Some g \<Rightarrow> (case group_get g key t of None \<Rightarrow> defval | Some n \<Rightarrow> nd_val n))"

section \<open>The table is a map\<close>

definition bucket_ok :: "('k \<Rightarrow> u64) \<Rightarrow> nat \<Rightarrow> nat \<Rightarrow> nat \<Rightarrow> ('k, 'v, 'f) node list \<Rightarrow> bool" where
  "bucket_ok hash N nx i l \<longleftrightarrow>
     (\<forall>n\<in>set l. unat (hash (nd_key n)) mod N = i \<and> nd_id n < nx) \<and>
     distinct (map nd_key l) \<and> distinct (map nd_id l)"

definition ht_wf :: "('k \<Rightarrow> u64) \<Rightarrow> ('k, 'v, 'f) ht \<Rightarrow> bool" where
  "ht_wf hash t \<longleftrightarrow> m_bit t < length (m_buckets t) \<and>
     (\<forall>i<length (m_buckets t). bucket_ok hash (length (m_buckets t)) (ht_next t) i (m_buckets t ! i))"

definition find_val :: "'k \<Rightarrow> ('k, 'v, 'f) node list \<Rightarrow> 'v option" where
  "find_val k l = map_option nd_val (find (\<lambda>n. nd_key n = k) l)"

definition ht_lookup :: "('k \<Rightarrow> u64) \<Rightarrow> ('k, 'v, 'f) ht \<Rightarrow> 'k \<Rightarrow> 'v option" where
  "ht_lookup hash t k = find_val k (getBucket hash t k)"

definition touch :: "('k \<Rightarrow> u64) \<Rightarrow> int \<Rightarrow> 'k \<Rightarrow> ('k, 'v, 'f) ht \<Rightarrow> ('k, 'v, 'f) ht" where
  "touch hash now key t = snd (findEntryFor hash now key t)"

subsection \<open>Lists of nodes\<close>

lemma update_time_simps [simp]:
  "nd_key (update_time now n) = nd_key n" "nd_val (update_time now n) = nd_val n"
  "nd_id (update_time now n) = nd_id n" "nd_ttl (update_time now n) = nd_ttl n"
  "nd_onExpired (update_time now n) = nd_onExpired n"
  by (simp_all add: update_time_def)

lemma new_node_simps [simp]:
  "nd_key (new_node now i k v ttl f) = k" "nd_val (new_node now i k v ttl f) = v"
  "nd_id (new_node now i k v ttl f) = i" "nd_ttl (new_node now i k v ttl f) = ttl"
  by (simp_all add: new_node_def)

lemma find_val_simps [simp]:
  "find_val k [] = None" "find_val k (n # l) = (if nd_key n = k then Some (nd_val n) else find_val k l)"
  by (simp_all add: find_val_def)

lemma find_val_None_iff: "find_val k l = None \<longleftrightarrow> k \<notin> nd_key ` set l"
  by (induction l) auto

lemma findFirstOf_fst: "fst (findFirstOf now p l) = find p l"
  by (induction l) (auto split: prod.splits)

lemma findFirstOf_map:
  "map nd_key (snd (findFirstOf now p l)) = map nd_key l"
  "map nd_id (snd (findFirstOf now p l)) = map nd_id l"
  "map nd_val (snd (findFirstOf now p l)) = map nd_val l"
  by (induction l) (auto split: prod.splits)

lemma find_val_zip: "find_val k l = map_of (zip (map nd_key l) (map nd_val l)) k"
  by (induction l) auto

lemma find_val_findFirstOf [simp]: "find_val k (snd (findFirstOf now p l)) = find_val k l"
  by (simp add: find_val_zip findFirstOf_map)

lemma bucket_ok_alt:
  "bucket_ok hash N nx i l \<longleftrightarrow>
     (\<forall>k\<in>set (map nd_key l). unat (hash k) mod N = i) \<and> (\<forall>j\<in>set (map nd_id l). j < nx) \<and>
     distinct (map nd_key l) \<and> distinct (map nd_id l)"
  by (auto simp: bucket_ok_def)

lemma bucket_ok_findFirstOf [simp]:
  "bucket_ok hash N nx i (snd (findFirstOf now p l)) \<longleftrightarrow> bucket_ok hash N nx i l"
  by (simp add: bucket_ok_alt findFirstOf_map)

lemma set_value_maps [simp]:
  "map nd_key (set_value j v l) = map nd_key l" "map nd_id (set_value j v l) = map nd_id l"
  by (simp_all add: set_value_def)

lemma find_val_set_value:
  assumes "distinct (map nd_key l)" "distinct (map nd_id l)" "n \<in> set l"
  shows "find_val k (set_value (nd_id n) v l) = (if k = nd_key n then Some v else find_val k l)"
  using assms
proof (induction l)
  case (Cons m l)
  show ?case
  proof (cases "n = m")
    case True
    with Cons.prems have "nd_id n \<notin> nd_id ` set l" by simp
    then have "set_value (nd_id n) v l = l"
      unfolding set_value_def by (intro map_idI) (metis image_eqI)
    then show ?thesis using True by (auto simp: set_value_def)
  next
    case False
    with Cons.prems have "n \<in> set l" "nd_id m \<noteq> nd_id n" "nd_key m \<noteq> nd_key n" by auto
    then show ?thesis using Cons by (auto simp: set_value_def)
  qed
qed simp

lemma removeIf_filter: "removeIf p l = filter (\<lambda>n. \<not> p n) l"
  by (induction l) auto

lemma find_val_removeIf: "find_val k (removeIf (\<lambda>n. nd_key n = j) l) = (if k = j then None else find_val k l)"
  by (induction l) auto

lemma bucket_ok_filter: "bucket_ok hash N nx i l \<Longrightarrow> bucket_ok hash N nx i (filter p l)"
  by (auto simp: bucket_ok_def distinct_map_filter)

lemma bucket_ok_mono: "bucket_ok hash N nx i l \<Longrightarrow> nx \<le> nx' \<Longrightarrow> bucket_ok hash N nx' i l"
  by (auto simp: bucket_ok_def)

subsection \<open>Buckets\<close>

lemma set_bucket_simps [simp]:
  "length (m_buckets (set_bucket i l t)) = length (m_buckets t)" "ht_next (set_bucket i l t) = ht_next t"
  "m_bit (set_bucket i l t) = m_bit t" "m_groups (set_bucket i l t) = m_groups t"
  "bucket_index hash (set_bucket i l t) k = bucket_index hash t k"
  by (simp_all add: set_bucket_def bucket_index_def)

lemma bucket_index_less: "ht_wf hash t \<Longrightarrow> bucket_index hash t k < length (m_buckets t)"
  by (metis bucket_index_def ht_wf_def less_nat_zero_code mod_less_divisor neq0_conv)

lemma getBucket_ok:
  "ht_wf hash t \<Longrightarrow>
     bucket_ok hash (length (m_buckets t)) (ht_next t) (bucket_index hash t k) (getBucket hash t k)"
  by (simp add: getBucket_def ht_wf_def bucket_index_less)

lemma ht_wf_set_bucket:
  "ht_wf hash t \<Longrightarrow> bucket_ok hash (length (m_buckets t)) (ht_next t) i l \<Longrightarrow> ht_wf hash (set_bucket i l t)"
  by (cases "i < length (m_buckets t)") (auto simp: ht_wf_def set_bucket_def nth_list_update)

lemma getBucket_set_bucket:
  "ht_wf hash t \<Longrightarrow> getBucket hash (set_bucket (bucket_index hash t k) l t) k' =
     (if bucket_index hash t k' = bucket_index hash t k then l else getBucket hash t k')"
  by (auto simp: getBucket_def set_bucket_def bucket_index_def nth_list_update
      dest: bucket_index_less [of hash t k])

lemma lookup_set_bucket:
  assumes "ht_wf hash t"
  shows "ht_lookup hash (set_bucket (bucket_index hash t k) l t) k' =
     (if bucket_index hash t k' = bucket_index hash t k then find_val k' l else ht_lookup hash t k')"
  by (simp add: ht_lookup_def getBucket_set_bucket [OF assms])

lemma findEntryFor_alt:
  "findEntryFor hash now key t =
     (find (\<lambda>n. nd_key n = key) (getBucket hash t key), touch hash now key t)"
  using findFirstOf_fst [of now "\<lambda>n. nd_key n = key" "getBucket hash t key"]
  by (auto simp: findEntryFor_def touch_def split: prod.splits)

lemma touch_alt:
  "touch hash now key t =
     set_bucket (bucket_index hash t key) (snd (findFirstOf now (\<lambda>n. nd_key n = key) (getBucket hash t key))) t"
  by (simp add: touch_def findEntryFor_def split: prod.splits)

lemma wf_touch: "ht_wf hash t \<Longrightarrow> ht_wf hash (touch hash now key t)"
  by (simp add: touch_alt ht_wf_set_bucket getBucket_ok)

lemma touch_simps [simp]:
  "length (m_buckets (touch hash now key t)) = length (m_buckets t)"
  "ht_next (touch hash now key t) = ht_next t" "m_bit (touch hash now key t) = m_bit t"
  "bucket_index hash (touch hash now key t) k = bucket_index hash t k"
  by (simp_all add: touch_alt)

lemma lookup_touch: "ht_wf hash t \<Longrightarrow> ht_lookup hash (touch hash now key t) k = ht_lookup hash t k"
  unfolding touch_alt by (subst lookup_set_bucket) (auto simp: ht_lookup_def getBucket_def)

lemma hasKey_alt: "hasKey hash now key t = (ht_lookup hash t key \<noteq> None, touch hash now key t)"
  by (auto simp: hasKey_def findEntryFor_alt ht_lookup_def find_val_def)

lemma valueFor_alt:
  "valueFor hash now key d t =
     (case ht_lookup hash t key of None \<Rightarrow> d | Some v \<Rightarrow> v, touch hash now key t)"
  by (auto simp: valueFor_def findEntryFor_alt ht_lookup_def find_val_def split: option.splits)

subsection \<open>Writing and removing\<close>

lemma wf_remove_key: "ht_wf hash t \<Longrightarrow> ht_wf hash (remove_key hash key t)"
  by (simp add: remove_key_def removeIf_filter ht_wf_set_bucket getBucket_ok bucket_ok_filter)

lemma lookup_remove_key:
  "ht_wf hash t \<Longrightarrow>
     ht_lookup hash (remove_key hash key t) k = (if k = key then None else ht_lookup hash t k)"
  unfolding remove_key_def
  by (subst lookup_set_bucket) (auto simp: find_val_removeIf ht_lookup_def getBucket_def)

lemma wf_add_node:
  assumes "ht_wf hash t" "ht_lookup hash t key = None"
  shows "ht_wf hash (add_node hash now key v ttl f t)"
proof -
  let ?i = "bucket_index hash t key" and ?N = "length (m_buckets t)"
  have b: "bucket_ok hash ?N (ht_next t) ?i (getBucket hash t key)" by (rule getBucket_ok [OF assms(1)])
  have n: "key \<notin> nd_key ` set (getBucket hash t key)"
    using assms(2) by (simp add: ht_lookup_def find_val_None_iff)
  have "bucket_ok hash ?N (Suc (ht_next t)) ?i
      (pushFront (new_node now (ht_next t) key v ttl f) (getBucket hash t key))"
    using b n by (auto simp: bucket_ok_def pushFront_def bucket_index_def less_Suc_eq)
  moreover have "ht_wf hash (t\<lparr>ht_next := Suc (ht_next t)\<rparr>)"
    using assms(1) bucket_ok_mono [of hash ?N "ht_next t" _ _ "Suc (ht_next t)"] by (auto simp: ht_wf_def)
  moreover have "add_node hash now key v ttl f t = set_bucket ?i
      (pushFront (new_node now (ht_next t) key v ttl f) (getBucket hash t key)) (t\<lparr>ht_next := Suc (ht_next t)\<rparr>)"
    by (simp add: add_node_def set_bucket_def)
  ultimately show ?thesis using ht_wf_set_bucket by fastforce
qed

lemma lookup_add_node:
  assumes "ht_wf hash t"
  shows "ht_lookup hash (add_node hash now key v ttl f t) k = (if k = key then Some v else ht_lookup hash t k)"
proof -
  have "ht_lookup hash (add_node hash now key v ttl f t) k = ht_lookup hash (set_bucket (bucket_index hash t key)
      (pushFront (new_node now (ht_next t) key v ttl f) (getBucket hash t key)) t) k"
    by (simp add: add_node_def ht_lookup_def getBucket_def bucket_index_def)
  also have "\<dots> = (if k = key then Some v else ht_lookup hash t k)"
    by (subst lookup_set_bucket [OF assms]) (auto simp: pushFront_def ht_lookup_def getBucket_def)
  finally show ?thesis .
qed

lemma addOrUpdate_alt:
  "addOrUpdate hash now key v ttl f t =
     (case find (\<lambda>n. nd_key n = key) (getBucket hash t key) of
        None \<Rightarrow> add_node hash now key v ttl f (touch hash now key t)
      | Some n \<Rightarrow> set_bucket (bucket_index hash t key)
          (set_value (nd_id n) v (getBucket hash (touch hash now key t) key)) (touch hash now key t))"
  by (auto simp: addOrUpdate_def findEntryFor_alt split: option.splits)

lemma found_after_touch:
  assumes "ht_wf hash t" "find (\<lambda>n. nd_key n = key) (getBucket hash t key) = Some n"
  shows "nd_key n = key" "update_time now n \<in> set (getBucket hash (touch hash now key t) key)"
proof -
  show "nd_key n = key" using assms(2) by (auto simp: find_Some_iff)
  have "find p l = Some n \<Longrightarrow> update_time now n \<in> set (snd (findFirstOf now p l))" for p l
    by (induction l) (auto split: prod.splits if_splits)
  then show "update_time now n \<in> set (getBucket hash (touch hash now key t) key)"
    using assms by (simp add: touch_alt getBucket_set_bucket)
qed

lemma wf_addOrUpdate: "ht_wf hash t \<Longrightarrow> ht_wf hash (addOrUpdate hash now key v ttl f t)"
proof (cases "find (\<lambda>n. nd_key n = key) (getBucket hash t key)")
  case None
  assume w: "ht_wf hash t"
  have "ht_lookup hash t key = None"
    using None by (simp add: ht_lookup_def find_val_def)
  then have "ht_lookup hash (touch hash now key t) key = None" by (simp add: lookup_touch [OF w])
  then show ?thesis using None w by (simp add: addOrUpdate_alt wf_add_node wf_touch)
next
  case (Some n)
  assume w: "ht_wf hash t"
  have "bucket_ok hash (length (m_buckets t)) (ht_next t) (bucket_index hash t key)
      (getBucket hash (touch hash now key t) key)"
    using getBucket_ok [OF wf_touch [OF w], of now key key] by simp
  then have "bucket_ok hash (length (m_buckets t)) (ht_next t) (bucket_index hash t key)
      (set_value (nd_id n) v (getBucket hash (touch hash now key t) key))"
    by (simp add: bucket_ok_alt)
  with ht_wf_set_bucket [OF wf_touch [OF w]] show ?thesis
    by (simp add: addOrUpdate_alt Some)
qed

lemma lookup_addOrUpdate:
  assumes w: "ht_wf hash t"
  shows "ht_lookup hash (addOrUpdate hash now key v ttl f t) k = (if k = key then Some v else ht_lookup hash t k)"
proof (cases "find (\<lambda>n. nd_key n = key) (getBucket hash t key)")
  case None
  then show ?thesis by (simp add: addOrUpdate_alt lookup_add_node wf_touch w lookup_touch)
next
  case (Some n)
  let ?t = "touch hash now key t"
  have wt: "ht_wf hash ?t" by (rule wf_touch [OF w])
  from found_after_touch(1) [OF w Some] found_after_touch(2) [OF w Some, of now] getBucket_ok [OF wt, of key]
  have "find_val k (set_value (nd_id n) v (getBucket hash ?t key)) =
      (if k = key then Some v else find_val k (getBucket hash ?t key))"
    using find_val_set_value [of "getBucket hash ?t key" "update_time now n" k v] by (auto simp: bucket_ok_def)
  then have "ht_lookup hash (set_bucket (bucket_index hash ?t key)
      (set_value (nd_id n) v (getBucket hash ?t key)) ?t) k = (if k = key then Some v else ht_lookup hash ?t k)"
    using lookup_set_bucket [OF wt, of key] by (auto simp: ht_lookup_def getBucket_def)
  then show ?thesis using Some by (simp add: addOrUpdate_alt lookup_touch w)
qed

interpretation gctx: context_store "ht_wf hash" "ht_lookup hash"
    "\<lambda>k v ttl. addOrUpdate hash now k v ttl onExpired" "touch hash now" "remove_key hash"
  for hash :: "'k \<Rightarrow> u64" and now :: int and onExpired :: "'f option"
  by unfold_locales
    (simp_all add: wf_addOrUpdate wf_touch wf_remove_key lookup_addOrUpdate lookup_touch lookup_remove_key)

lemmas ht_simps =
  wf_addOrUpdate wf_touch wf_remove_key lookup_addOrUpdate lookup_touch lookup_remove_key
  hasKey_alt valueFor_alt

section \<open>Expiry\<close>

definition ht_node :: "('k \<Rightarrow> u64) \<Rightarrow> ('k, 'v, 'f) ht \<Rightarrow> 'k \<Rightarrow> ('k, 'v, 'f) node option" where
  "ht_node hash t k = find (\<lambda>n. nd_key n = k) (getBucket hash t k)"

lemma ht_lookup_node: "ht_lookup hash t k = map_option nd_val (ht_node hash t k)"
  by (simp add: ht_lookup_def find_val_def ht_node_def)

lemma find_findFirstOf:
  "find (\<lambda>n. nd_key n = k) (snd (findFirstOf now (\<lambda>n. nd_key n = key) l)) =
     (if k = key then map_option (update_time now) (find (\<lambda>n. nd_key n = key) l)
      else find (\<lambda>n. nd_key n = k) l)"
  by (induction l) (auto split: prod.splits)

lemma ht_node_touch:
  assumes "ht_wf hash t"
  shows "ht_node hash (touch hash now key t) k =
     (if k = key then map_option (update_time now) (ht_node hash t key) else ht_node hash t k)"
  unfolding touch_alt ht_node_def getBucket_set_bucket [OF assms]
  by (auto simp: find_findFirstOf getBucket_def)

lemma find_set_value:
  assumes "distinct (map nd_id l)" "find (\<lambda>n. nd_key n = key) l = Some m"
  shows "find (\<lambda>n. nd_key n = key) (set_value (nd_id m) v l) = Some (m\<lparr>nd_val := v\<rparr>)"
  using assms
proof (induction l)
  case (Cons a l)
  show ?case
  proof (cases "nd_key a = key")
    case True with Cons.prems show ?thesis by (simp add: set_value_def)
  next
    case False
    with Cons.prems have f: "find (\<lambda>n. nd_key n = key) l = Some m" by simp
    then have "m \<in> set l" by (auto simp: find_Some_iff)
    with Cons.prems have "nd_id a \<noteq> nd_id m" by auto
    with False Cons f show ?thesis by (simp add: set_value_def)
  qed
qed simp

lemma ht_node_addOrUpdate:
  assumes w: "ht_wf hash t"
  shows "ht_node hash (addOrUpdate hash now key v ttl f t) key =
    Some (case ht_node hash t key of
            None \<Rightarrow> new_node now (ht_next t) key v ttl f
          | Some n \<Rightarrow> (update_time now n)\<lparr>nd_val := v\<rparr>)"
proof (cases "ht_node hash t key")
  case None
  then show ?thesis
    using getBucket_set_bucket [OF wf_touch [OF w], of now key key _ key]
    by (simp add: addOrUpdate_alt ht_node_def add_node_def getBucket_def bucket_index_def pushFront_def)
next
  case (Some n)
  let ?t = "touch hash now key t"
  have wt: "ht_wf hash ?t" by (rule wf_touch [OF w])
  have "find (\<lambda>n. nd_key n = key) (getBucket hash ?t key) = Some (update_time now n)"
    using ht_node_touch [OF w, of now key key] Some by (simp add: ht_node_def)
  moreover have "distinct (map nd_id (getBucket hash ?t key))"
    using getBucket_ok [OF wt, of key] by (simp add: bucket_ok_def)
  ultimately show ?thesis
    using Some find_set_value [of "getBucket hash ?t key" key "update_time now n" v]
      getBucket_set_bucket [OF wt, of key _ key]
    by (simp add: addOrUpdate_alt ht_node_def)
qed

lemma safe_cleanup_snd: "snd (safe_cleanup now l) = filter (\<lambda>n. \<not> expired now n) l"
  by (induction l) (auto split: prod.splits)

lemma cleanup_bucket_snd:
  "snd (cleanup_bucket now b t) = set_bucket b (filter (\<lambda>n. \<not> expired now n) (m_buckets t ! b)) t"
  by (simp add: cleanup_bucket_def safe_cleanup_snd [symmetric] split: prod.splits)

lemma getNextBucket_mod:
  "m_bit t < length (m_buckets t) \<Longrightarrow>
     getNextBucket t = (m_bit t, t\<lparr>m_bit := Suc (m_bit t) mod length (m_buckets t)\<rparr>)"
  by (auto simp: getNextBucket_def)

lemma next_is_target:
  assumes "0 < fuel" "fuel \<le> N" "(n + fuel) mod N = b"
  shows "Suc n mod N = b \<longleftrightarrow> fuel = 1"
proof
  assume "Suc n mod N = b"
  with assms have "Suc n mod N = (Suc n + (fuel - 1)) mod N" by simp
  then have "N dvd fuel - 1"
    by (metis add_diff_cancel_left' le_add1 mod_eq_dvd_iff_nat)
  with assms show "fuel = 1" by (metis One_nat_def Suc_pred diff_less dvd_imp_le leD le_zero_eq less_Suc_eq_le nat_less_le zero_less_one not_gr_zero order_less_le_trans)
qed (use assms in auto)

text \<open>Each turn of the loop cleans the bucket \<open>n\<close>; with \<open>fuel\<close> turns left it ends at \<open>b\<close>.\<close>

lemma cleanup_loop_total:
  assumes "0 < fuel" "fuel \<le> N" "n < N" "(n + fuel) mod N = b" "m_bit t = Suc n mod N"
    "length (m_buckets t) = N"
  shows "\<exists>res bs. cleanup_loop fuel now b n t = Some (res, t\<lparr>m_buckets := bs, m_bit := Suc b mod N\<rparr>) \<and>
    length bs = N \<and>
    (\<forall>i<N. bs ! i = (if \<exists>j<fuel. i = (n + j) mod N then filter (\<lambda>m. \<not> expired now m) (m_buckets t ! i)
                     else m_buckets t ! i))"
  using assms
proof (induction fuel arbitrary: n t)
  case (Suc fuel)
  let ?F = "filter (\<lambda>m. \<not> expired now m)"
  obtain res t1 where c: "cleanup_bucket now n t = (res, t1)" by fastforce
  then have t1: "t1 = set_bucket n (?F (m_buckets t ! n)) t" by (metis cleanup_bucket_snd snd_conv)
  let ?n = "Suc n mod N" and ?t2 = "t1\<lparr>m_bit := Suc (Suc n mod N) mod N\<rparr>"
  have nx: "getNextBucket t1 = (?n, ?t2)"
    using getNextBucket_mod [of t1] Suc.prems by (simp add: t1)
  show ?case
  proof (cases "fuel = 0")
    case True
    with Suc.prems have "?n = b" by auto
    with True show ?thesis
      by (intro exI [of _ res] exI [of _ "(m_buckets t)[n := ?F (m_buckets t ! n)]"])
        (use Suc.prems c nx in \<open>auto simp: t1 set_bucket_def nth_list_update\<close>)
  next
    case False
    have "?n \<noteq> b" using next_is_target [of "Suc fuel" N n b] Suc.prems False by simp
    moreover have "(?n + fuel) mod N = b" using Suc.prems(4) by (simp add: mod_simps)
    ultimately obtain res' bs where l: "cleanup_loop fuel now b ?n ?t2 = Some (res', ?t2\<lparr>m_buckets := bs, m_bit := Suc b mod N\<rparr>)"
      and bs: "length bs = N" "\<forall>i<N. bs ! i = (if \<exists>j<fuel. i = (?n + j) mod N then ?F (m_buckets ?t2 ! i) else m_buckets ?t2 ! i)"
      using Suc.IH [of ?n ?t2] Suc.prems False by (auto simp: t1)
    have "bs ! i = (if \<exists>j<Suc fuel. i = (n + j) mod N then ?F (m_buckets t ! i) else m_buckets t ! i)" if "i < N" for i
    proof -
      have "(\<exists>j<Suc fuel. i = (n + j) mod N) \<longleftrightarrow> i = n \<or> (\<exists>j<fuel. i = (?n + j) mod N)"
        using Suc.prems(3) by (auto simp: Ex_less_Suc2 mod_simps)
      moreover have "m_buckets ?t2 ! i = (if i = n then ?F (m_buckets t ! i) else m_buckets t ! i)"
        using Suc.prems that by (auto simp: t1 set_bucket_def nth_list_update)
      ultimately show ?thesis using bs(2) that by auto
    qed
    with \<open>?n \<noteq> b\<close> c nx l bs(1) show ?thesis
      by (intro exI [of _ "res @ res'"] exI [of _ bs]) (simp add: t1 set_bucket_def)
  qed
qed simp

lemma cleanup_all_total:
  assumes "m_bit t < length (m_buckets t)"
  shows "\<exists>res. cleanup now True t = Some (res, t\<lparr>m_buckets := map (filter (\<lambda>m. \<not> expired now m)) (m_buckets t),
    m_bit := Suc (m_bit t) mod length (m_buckets t)\<rparr>)"
proof -
  let ?N = "length (m_buckets t)" and ?b = "m_bit t" and ?F = "filter (\<lambda>m. \<not> expired now m)"
  let ?t = "t\<lparr>m_bit := Suc ?b mod ?N\<rparr>"
  obtain res bs where l: "cleanup_loop ?N now ?b ?b ?t = Some (res, ?t\<lparr>m_buckets := bs, m_bit := Suc ?b mod ?N\<rparr>)"
    and bs: "length bs = ?N" "\<forall>i<?N. bs ! i = (if \<exists>j<?N. i = (?b + j) mod ?N then ?F (m_buckets t ! i) else m_buckets t ! i)"
    using cleanup_loop_total [of ?N ?N ?b ?b ?t now] assms
    by (auto simp: length_greater_0_conv [symmetric] simp del: length_greater_0_conv cong: if_cong)
  have "\<exists>j<?N. i = (?b + j) mod ?N" if "i < ?N" for i
    using that assms by (intro exI [of _ "(i + ?N - ?b) mod ?N"]) (auto simp: mod_simps intro: mod_less_divisor)
  with bs have "bs = map ?F (m_buckets t)" by (intro nth_equalityI) auto
  with l show ?thesis using assms by (simp add: cleanup_def getNextBucket_mod)
qed

lemma find_key_filter:
  "distinct (map nd_key l) \<Longrightarrow> find (\<lambda>n. nd_key n = k) (filter (\<lambda>m. \<not> q m) l) =
     Option.bind (find (\<lambda>n. nd_key n = k) l) (\<lambda>n. if q n then None else Some n)"
proof (induction l)
  case (Cons a l)
  have "find (\<lambda>n. nd_key n = k) (filter (\<lambda>m. \<not> q m) l) = None" if "nd_key a = k"
    using that Cons.prems by (simp add: find_None_iff) (metis image_eqI)
  with Cons show ?case by auto
qed simp

lemma cleanup_all_lookup:
  assumes "ht_wf hash t"
  shows "\<exists>res t'. cleanup now True t = Some (res, t') \<and> ht_wf hash t' \<and>
    (\<forall>k. ht_node hash t' k = Option.bind (ht_node hash t k) (\<lambda>n. if expired now n then None else Some n))"
proof -
  let ?F = "filter (\<lambda>m. \<not> expired now m)"
  from assms have b: "m_bit t < length (m_buckets t)" by (simp add: ht_wf_def)
  then obtain res where c: "cleanup now True t = Some (res, t\<lparr>m_buckets := map ?F (m_buckets t),
      m_bit := Suc (m_bit t) mod length (m_buckets t)\<rparr>)" (is "_ = Some (res, ?t')")
    using cleanup_all_total by blast
  have "m_buckets t \<noteq> []" using b by auto
  then have w: "ht_wf hash ?t'" using assms by (auto simp: ht_wf_def bucket_ok_filter)
  have "ht_node hash ?t' k = Option.bind (ht_node hash t k) (\<lambda>n. if expired now n then None else Some n)" for k
  proof -
    have "distinct (map nd_key (getBucket hash t k))" using getBucket_ok [OF assms] by (simp add: bucket_ok_def)
    then have "find (\<lambda>n. nd_key n = k) (?F (getBucket hash t k)) =
        Option.bind (find (\<lambda>n. nd_key n = k) (getBucket hash t k)) (\<lambda>n. if expired now n then None else Some n)"
      by (rule find_key_filter)
    moreover have "getBucket hash ?t' k = ?F (getBucket hash t k)"
      using bucket_index_less [OF assms, of k] by (simp add: getBucket_def bucket_index_def)
    ultimately show ?thesis by (simp add: ht_node_def)
  qed
  with c w show ?thesis by blast
qed

lemma cleanup_one_lookup:
  assumes "ht_wf hash t"
  shows "\<exists>res t'. cleanup now False t = Some (res, t') \<and> ht_wf hash t' \<and>
    (\<forall>k. ht_node hash t' k = (if bucket_index hash t k = m_bit t
       then Option.bind (ht_node hash t k) (\<lambda>n. if expired now n then None else Some n) else ht_node hash t k))"
proof -
  let ?b = "m_bit t" and ?F = "filter (\<lambda>m. \<not> expired now m)"
  let ?t1 = "t\<lparr>m_bit := Suc ?b mod length (m_buckets t)\<rparr>"
  from assms have b: "?b < length (m_buckets t)" by (simp add: ht_wf_def)
  then have "Suc ?b mod length (m_buckets t) < length (m_buckets t)" by (intro mod_less_divisor) linarith
  then have w1: "ht_wf hash ?t1" using assms by (simp add: ht_wf_def)
  let ?t' = "set_bucket ?b (?F (m_buckets t ! ?b)) ?t1"
  have "snd (cleanup_bucket now ?b ?t1) = ?t'" by (simp add: cleanup_bucket_snd)
  with b have c: "cleanup now False t = Some (fst (cleanup_bucket now ?b ?t1), ?t')"
    by (simp add: cleanup_def getNextBucket_mod) (metis prod.collapse)
  have "bucket_ok hash (length (m_buckets t)) (ht_next t) ?b (m_buckets t ! ?b)" using assms b by (simp add: ht_wf_def)
  then have w: "ht_wf hash ?t'" using w1 by (intro ht_wf_set_bucket) (auto intro: bucket_ok_filter)
  have "ht_node hash ?t' k = (if bucket_index hash t k = ?b
      then Option.bind (ht_node hash t k) (\<lambda>n. if expired now n then None else Some n) else ht_node hash t k)" for k
  proof -
    have "distinct (map nd_key (getBucket hash t k))" using getBucket_ok [OF assms] by (simp add: bucket_ok_def)
    from find_key_filter [OF this, of k "expired now"] b show ?thesis
      by (auto simp: ht_node_def getBucket_def bucket_index_def set_bucket_def nth_list_update)
  qed
  with c w show ?thesis by blast
qed

text \<open>Entries that no cleanup removes.\<close>

definition permanent :: "('k \<Rightarrow> u64) \<Rightarrow> ('k, 'v, 'f) ht \<Rightarrow> 'k \<Rightarrow> bool" where
  "permanent hash t k \<longleftrightarrow> (case ht_node hash t k of None \<Rightarrow> False | Some n \<Rightarrow> nd_ttl n = 0 \<and> nd_expires n = None)"

lemma cleanup_effect:
  assumes "ht_wf hash t" "cleanup now all t = Some (res, t')"
  shows "ht_wf hash t'" "ht_lookup hash t' k = Some v \<Longrightarrow> ht_lookup hash t k = Some v"
    "permanent hash t k \<Longrightarrow> permanent hash t' k \<and> ht_lookup hash t' k = ht_lookup hash t k"
proof -
  define q where "q k = (all \<or> bucket_index hash t k = m_bit t)" for k
  have w: "ht_wf hash t'" and n: "ht_node hash t' k = (if q k
      then Option.bind (ht_node hash t k) (\<lambda>n. if expired now n then None else Some n) else ht_node hash t k)" for k
    using assms(2) cleanup_all_lookup [OF assms(1), of now] cleanup_one_lookup [OF assms(1), of now]
    by (cases all; force simp: q_def)+
  show "ht_wf hash t'" by (rule w)
  show "ht_lookup hash t' k = Some v \<Longrightarrow> ht_lookup hash t k = Some v"
    by (cases "ht_node hash t k") (auto simp: ht_lookup_node n split: if_splits)
  show "permanent hash t k \<Longrightarrow> permanent hash t' k \<and> ht_lookup hash t' k = ht_lookup hash t k"
    by (cases "ht_node hash t k") (auto simp: ht_lookup_node n permanent_def expired_def)
qed

lemma find_set_value_other:
  "\<forall>n\<in>set l. nd_id n = i \<longrightarrow> nd_key n \<noteq> k \<Longrightarrow> find (\<lambda>n. nd_key n = k) (set_value i v l) = find (\<lambda>n. nd_key n = k) l"
  by (induction l) (auto simp: set_value_def)

lemma ht_node_addOrUpdate_other:
  assumes w: "ht_wf hash t" and "k \<noteq> key"
  shows "ht_node hash (addOrUpdate hash now key v ttl f t) k = ht_node hash t k"
proof -
  let ?t = "touch hash now key t"
  have wt: "ht_wf hash ?t" by (rule wf_touch [OF w])
  have t: "ht_node hash ?t k = ht_node hash t k" using ht_node_touch [OF w, of now key k] assms(2) by simp
  show ?thesis
  proof (cases "find (\<lambda>n. nd_key n = key) (getBucket hash t key)")
    case None
    have "ht_node hash (add_node hash now key v ttl f ?t) k = ht_node hash (set_bucket (bucket_index hash ?t key)
        (pushFront (new_node now (ht_next ?t) key v ttl f) (getBucket hash ?t key)) ?t) k"
      by (simp add: add_node_def ht_node_def getBucket_def bucket_index_def)
    also have "\<dots> = ht_node hash ?t k"
      unfolding ht_node_def getBucket_set_bucket [OF wt] using assms(2) by (auto simp: pushFront_def getBucket_def)
    finally show ?thesis using None t by (simp add: addOrUpdate_alt)
  next
    case (Some n)
    from found_after_touch(1) [OF w Some] found_after_touch(2) [OF w Some, of now] have m: "update_time now n \<in> set (getBucket hash ?t key)" "nd_key n = key"
      by auto
    have "distinct (map nd_id (getBucket hash ?t key))" using getBucket_ok [OF wt, of key] by (simp add: bucket_ok_def)
    then have "\<forall>a\<in>set (getBucket hash ?t key). nd_id a = nd_id n \<longrightarrow> nd_key a \<noteq> k"
      using m assms(2) by (auto simp: distinct_map inj_on_def)
    from find_set_value_other [OF this, of v]
    have "ht_node hash (set_bucket (bucket_index hash ?t key) (set_value (nd_id n) v (getBucket hash ?t key)) ?t) k =
        ht_node hash ?t k"
      unfolding ht_node_def getBucket_set_bucket [OF wt] by (auto simp: getBucket_def)
    then show ?thesis using Some t by (simp add: addOrUpdate_alt)
  qed
qed

lemma ht_node_remove_other:
  assumes "ht_wf hash t" "k \<noteq> key"
  shows "ht_node hash (remove_key hash key t) k = ht_node hash t k"
proof -
  have "find (\<lambda>n. nd_key n = k) (removeIf (\<lambda>n. nd_key n = key) l) = find (\<lambda>n. nd_key n = k) l" for l
    using assms(2) by (induction l) auto
  then show ?thesis unfolding remove_key_def ht_node_def getBucket_set_bucket [OF assms(1)] by (auto simp: getBucket_def)
qed

lemma permanent_touch: "ht_wf hash t \<Longrightarrow> permanent hash t k \<Longrightarrow> permanent hash (touch hash now key t) k"
  by (auto simp: permanent_def ht_node_touch update_time_def split: option.splits)

lemma permanent_remove: "ht_wf hash t \<Longrightarrow> permanent hash t k \<Longrightarrow> k \<noteq> key \<Longrightarrow> permanent hash (remove_key hash key t) k"
  by (simp add: permanent_def ht_node_remove_other)

lemma permanent_new: "ht_wf hash t \<Longrightarrow> ht_lookup hash t key = None \<Longrightarrow> permanent hash (addOrUpdate hash now key v 0 f t) key"
  by (simp add: permanent_def ht_node_addOrUpdate ht_lookup_node) (simp add: new_node_def update_time_def)

lemma permanent_addOrUpdate:
  assumes "ht_wf hash t" "permanent hash t k"
  shows "permanent hash (addOrUpdate hash now key v ttl f t) k"
proof (cases "k = key")
  case True
  with assms show ?thesis
    by (simp add: permanent_def ht_node_addOrUpdate split: option.splits) (simp add: update_time_def)
next
  case False
  with assms show ?thesis by (simp add: permanent_def ht_node_addOrUpdate_other)
qed

lemmas permanent_intros = permanent_touch permanent_remove permanent_new permanent_addOrUpdate

section \<open>Properties\<close>

definition demo_hash :: "string \<Rightarrow> u64" where
  "demo_hash k = of_nat (length k)"

abbreviation demo_ht :: "(string, nat, nat) ht" where
  "demo_ht \<equiv> new_ht 64"

lemma new_ht_wf: "0 < n \<Longrightarrow> ht_wf hash (new_ht n)"
  by (simp add: ht_wf_def new_ht_def bucket_ok_def)

lemma new_ht_lookup: "0 < n \<Longrightarrow> ht_lookup hash (new_ht n) k = None"
  by (simp add: ht_lookup_def new_ht_def getBucket_def bucket_index_def)

lemma expired_update_time: "expired now (update_time r n) \<longleftrightarrow> nd_ttl n \<noteq> 0 \<and> r + nd_ttl n \<le> now"
  by (auto simp: expired_def update_time_def)

text \<open>
  The operations of the context at a time each: \<^verbatim>\<open>set\<close>, the reads (\<^verbatim>\<open>get\<close> and \<^verbatim>\<open>hasKey\<close>, which differ in their results only), \<^verbatim>\<open>apply\<close>, \<^verbatim>\<open>remove\<close>,
  and the cleanup of the next bucket, which the periodic task of the server calls, or of all.
\<close>

datatype ('k, 'v, 'f) ctx_op =
  CtxSet 'k 'v int "'f option" | CtxRead 'k | CtxApply 'k "'v \<Rightarrow> bool \<times> 'v" | CtxRemove 'k | CtxClean bool

fun ctx_step :: "('k \<Rightarrow> u64) \<Rightarrow> int \<times> ('k, 'v, 'f) ctx_op \<Rightarrow> ('k, 'v, 'f) ht \<Rightarrow> ('k, 'v, 'f) ht option" where
  "ctx_step hash (now, CtxSet k v ttl f) t = Some (addOrUpdate hash now k v ttl f t)"
| "ctx_step hash (now, CtxRead k) t = Some (snd (hasKey hash now k t))"
| "ctx_step hash (now, CtxApply k g) t = Some (snd (applyFor hash now k g t))"
| "ctx_step hash (now, CtxRemove k) t = Some (remove_key hash k t)"
| "ctx_step hash (now, CtxClean all) t = map_option snd (cleanup now all t)"

fun ctx_run :: "('k \<Rightarrow> u64) \<Rightarrow> (int \<times> ('k, 'v, 'f) ctx_op) list \<Rightarrow> ('k, 'v, 'f) ht \<Rightarrow> ('k, 'v, 'f) ht option" where
  "ctx_run hash [] t = Some t"
| "ctx_run hash (o1 # os) t = Option.bind (ctx_step hash o1 t) (ctx_run hash os)"

text \<open>
  What the operations promise for one key \<open>k\<close> in the bucket \<open>i\<close> of \<open>N\<close>: an entry is its value, its time to live and the time of the last access; the first
  component counts the cleanups modulo \<open>N\<close>.
\<close>

type_synonym 'v ctx_entry = "('v \<times> int \<times> int) option"

fun entry_step :: "nat \<Rightarrow> nat \<Rightarrow> 'k \<Rightarrow> int \<times> ('k, 'v, 'f) ctx_op \<Rightarrow> nat \<times> 'v ctx_entry \<Rightarrow> nat \<times> 'v ctx_entry" where
  "entry_step N i k (now, CtxSet k' v ttl f) (c, e) =
     (c, if k' \<noteq> k then e else case e of None \<Rightarrow> Some (v, ttl, now) | Some (_, ttl0, _) \<Rightarrow> Some (v, ttl0, now))"
| "entry_step N i k (now, CtxRead k') (c, e) =
     (c, if k' \<noteq> k then e else map_option (\<lambda>(v, ttl, _). (v, ttl, now)) e)"
| "entry_step N i k (now, CtxApply k' g) (c, e) =
     (c, if k' \<noteq> k then e else map_option (\<lambda>(v, ttl, _). (snd (g v), ttl, now)) e)"
| "entry_step N i k (now, CtxRemove k') (c, e) = (c, if k' \<noteq> k then e else None)"
| "entry_step N i k (now, CtxClean all) (c, e) =
     (Suc c mod N, case e of Some (v, ttl, seen) \<Rightarrow>
        if (all \<or> c = i) \<and> ttl \<noteq> 0 \<and> seen + ttl \<le> now then None else e | None \<Rightarrow> None)"

definition entry_run :: "nat \<Rightarrow> nat \<Rightarrow> 'k \<Rightarrow> (int \<times> ('k, 'v, 'f) ctx_op) list \<Rightarrow> 'v ctx_entry" where
  "entry_run N i k os = snd (fold (entry_step N i k) os (0, None))"

definition node_view :: "('k, 'v, 'f) node option \<Rightarrow> ('v \<times> int \<times> int option) option" where
  "node_view = map_option (\<lambda>n. (nd_val n, nd_ttl n, nd_expires n))"

definition entry_view :: "'v ctx_entry \<Rightarrow> ('v \<times> int \<times> int option) option" where
  "entry_view = map_option (\<lambda>(v, ttl, seen). (v, ttl, if ttl = 0 then None else Some (seen + ttl)))"

definition entry_of :: "('k \<Rightarrow> u64) \<Rightarrow> nat \<Rightarrow> 'k \<Rightarrow> ('k, 'v, 'f) ht \<Rightarrow> nat \<times> 'v ctx_entry \<Rightarrow> bool" where
  "entry_of hash N k t ce \<longleftrightarrow> ht_wf hash t \<and> length (m_buckets t) = N \<and> m_bit t = fst ce \<and>
     node_view (ht_node hash t k) = entry_view (snd ce)"

lemma find_apply:
  "find (\<lambda>n. nd_key n = k) (snd (findAndApplyFirstOf now (\<lambda>n. nd_key n = key) g l)) =
     (if k = key then map_option (\<lambda>n. (update_time now n)\<lparr>nd_val := snd (g (nd_val n))\<rparr>) (find (\<lambda>n. nd_key n = key) l)
      else find (\<lambda>n. nd_key n = k) l)"
  by (induction l) (auto split: prod.splits)

lemma apply_maps:
  "map nd_key (snd (findAndApplyFirstOf now p g l)) = map nd_key l" "map nd_id (snd (findAndApplyFirstOf now p g l)) = map nd_id l"
  by (induction l) (auto split: prod.splits)

lemma applyFor_snd:
  "snd (applyFor hash now key g t) =
     set_bucket (bucket_index hash t key) (snd (findAndApplyFirstOf now (\<lambda>n. nd_key n = key) g (getBucket hash t key))) t"
  by (simp add: applyFor_def split: prod.splits)

lemma bucket_ok_apply:
  "bucket_ok hash N nx i (snd (findAndApplyFirstOf now p g l)) \<longleftrightarrow> bucket_ok hash N nx i l"
  by (simp add: bucket_ok_alt apply_maps)

lemma wf_applyFor: "ht_wf hash t \<Longrightarrow> ht_wf hash (snd (applyFor hash now key g t))"
  unfolding applyFor_snd by (rule ht_wf_set_bucket) (simp_all add: bucket_ok_apply getBucket_ok)

lemma ht_node_applyFor:
  assumes "ht_wf hash t"
  shows "ht_node hash (snd (applyFor hash now key g t)) k =
     (if k = key then map_option (\<lambda>n. (update_time now n)\<lparr>nd_val := snd (g (nd_val n))\<rparr>) (ht_node hash t key) else ht_node hash t k)"
  unfolding applyFor_snd ht_node_def getBucket_set_bucket [OF assms] by (auto simp: find_apply getBucket_def)

lemma table_shape [simp]:
  "length (m_buckets (addOrUpdate hash now key v ttl f t)) = length (m_buckets t)" "m_bit (addOrUpdate hash now key v ttl f t) = m_bit t"
  "length (m_buckets (remove_key hash key t)) = length (m_buckets t)" "m_bit (remove_key hash key t) = m_bit t"
  "length (m_buckets (snd (applyFor hash now key g t))) = length (m_buckets t)" "m_bit (snd (applyFor hash now key g t)) = m_bit t"
  by (simp_all add: addOrUpdate_alt add_node_def remove_key_def applyFor_snd split: option.split)

lemma cleanup_nodes:
  assumes w: "ht_wf hash t"
  shows "\<exists>res t'. cleanup now all t = Some (res, t') \<and> ht_wf hash t' \<and> length (m_buckets t') = length (m_buckets t) \<and>
    m_bit t' = Suc (m_bit t) mod length (m_buckets t) \<and>
    (\<forall>k. ht_node hash t' k = (if all \<or> bucket_index hash t k = m_bit t
       then Option.bind (ht_node hash t k) (\<lambda>n. if expired now n then None else Some n) else ht_node hash t k))"
proof (cases all)
  case True
  from w have "m_bit t < length (m_buckets t)" by (simp add: ht_wf_def)
  from cleanup_all_total [OF this, of now] cleanup_all_lookup [OF w, of now] True show ?thesis by auto
next
  case False
  have "m_bit t' = Suc (m_bit t) mod length (m_buckets t) \<and> length (m_buckets t') = length (m_buckets t)"
    if c: "cleanup now False t = Some (res, t')" for res t'
  proof -
    from w have b: "m_bit t < length (m_buckets t)" by (simp add: ht_wf_def)
    have "t' = snd (cleanup_bucket now (m_bit t) (t\<lparr>m_bit := Suc (m_bit t) mod length (m_buckets t)\<rparr>))"
      using c b by (simp add: cleanup_def getNextBucket_mod)
    then show ?thesis by (simp add: cleanup_bucket_snd)
  qed
  with cleanup_one_lookup [OF w, of now] False show ?thesis by auto
qed

lemma views_None: "node_view x = entry_view e \<Longrightarrow> x = None \<longleftrightarrow> e = None"
  by (cases x; cases e) (auto simp: node_view_def entry_view_def)

lemma entry_of_step:
  assumes e: "entry_of hash N k t (c, en)"
  shows "\<exists>t'. ctx_step hash (now, op) t = Some t' \<and> entry_of hash N k t' (entry_step N (unat (hash k) mod N) k (now, op) (c, en))"
proof -
  have w: "ht_wf hash t" and N: "length (m_buckets t) = N" "m_bit t = c" and v: "node_view (ht_node hash t k) = entry_view en"
    using e by (simp_all add: entry_of_def)
  have i: "bucket_index hash t k = unat (hash k) mod N" by (simp add: bucket_index_def N)
  show ?thesis
  proof (cases op)
    case (CtxSet k' x ttl f)
    have "node_view (ht_node hash (addOrUpdate hash now k' x ttl f t) k) =
        entry_view (if k' \<noteq> k then en else case en of None \<Rightarrow> Some (x, ttl, now) | Some (_, ttl0, _) \<Rightarrow> Some (x, ttl0, now))"
    proof (cases "k' = k")
      case True
      then show ?thesis using v views_None [OF v]
        by (cases "ht_node hash t k"; cases en)
          (auto simp: ht_node_addOrUpdate [OF w] node_view_def entry_view_def new_node_def update_time_def)
    qed (use v in \<open>simp add: ht_node_addOrUpdate_other [OF w]\<close>)
    then show ?thesis by (simp add: CtxSet entry_of_def wf_addOrUpdate w N)
  next
    case (CtxRead k')
    have "node_view (ht_node hash (touch hash now k' t) k) = entry_view (if k' \<noteq> k then en else map_option (\<lambda>(v, ttl, _). (v, ttl, now)) en)"
      using v views_None [OF v] by (cases "ht_node hash t k"; cases en) (auto simp: ht_node_touch [OF w] node_view_def entry_view_def update_time_def)
    then show ?thesis by (simp add: CtxRead entry_of_def hasKey_alt wf_touch w N)
  next
    case (CtxApply k' g)
    have "node_view (ht_node hash (snd (applyFor hash now k' g t)) k) =
        entry_view (if k' \<noteq> k then en else map_option (\<lambda>(v, ttl, _). (snd (g v), ttl, now)) en)"
      using v views_None [OF v]
      by (cases "ht_node hash t k"; cases en) (auto simp: ht_node_applyFor [OF w] node_view_def entry_view_def update_time_def)
    then show ?thesis by (simp add: CtxApply entry_of_def wf_applyFor w N)
  next
    case (CtxRemove k')
    have "ht_node hash (remove_key hash k' t) k = (if k' = k then None else ht_node hash t k)"
      using ht_node_remove_other [OF w, of k k'] lookup_remove_key [OF w, of k k] by (auto simp: ht_lookup_node)
    then show ?thesis using v by (simp add: CtxRemove entry_of_def wf_remove_key w N) (simp add: node_view_def entry_view_def)
  next
    case (CtxClean all)
    obtain res t' where c: "cleanup now all t = Some (res, t')" "ht_wf hash t'"
        "length (m_buckets t') = length (m_buckets t)" "m_bit t' = Suc (m_bit t) mod length (m_buckets t)"
      and n: "\<forall>k. ht_node hash t' k = (if all \<or> bucket_index hash t k = m_bit t
        then Option.bind (ht_node hash t k) (\<lambda>n. if expired now n then None else Some n) else ht_node hash t k)"
      using cleanup_nodes [OF w, of now all] by blast
    have n: "ht_node hash t' k = (if all \<or> c = unat (hash k) mod N
        then Option.bind (ht_node hash t k) (\<lambda>n. if expired now n then None else Some n) else ht_node hash t k)"
      using spec [OF n, of k] by (auto simp: N i)
    have "node_view (ht_node hash t' k) = entry_view (case en of
        Some (v, ttl, seen) \<Rightarrow> if (all \<or> c = unat (hash k) mod N) \<and> ttl \<noteq> 0 \<and> seen + ttl \<le> now then None else en | None \<Rightarrow> None)"
      using v views_None [OF v] unfolding n
      by (cases "ht_node hash t k"; cases en) (auto simp: node_view_def entry_view_def expired_def split: if_splits)
    then show ?thesis by (simp add: CtxClean entry_of_def c N)
  qed
qed

lemma entry_of_run:
  "entry_of hash N k t ce \<Longrightarrow> \<exists>t'. ctx_run hash os t = Some t' \<and> entry_of hash N k t' (fold (entry_step N (unat (hash k) mod N) k) os ce)"
proof (induction os arbitrary: t ce)
  case (Cons o1 os)
  obtain now op c en where o: "o1 = (now, op)" "ce = (c, en)" by fastforce
  from entry_of_step [of hash N k t c en now op] Cons.prems obtain t1 where
    "ctx_step hash o1 t = Some t1" "entry_of hash N k t1 (entry_step N (unat (hash k) mod N) k o1 ce)" by (auto simp: o)
  with Cons.IH show ?case by fastforce
qed simp

text \<open>
  C38. Expiry of the global context, through any sequence of operations with any readings of the clock, from the empty table. Every operation ends, and what a
  key has afterwards is what \<open>entry_run\<close> says: a first \<^verbatim>\<open>set\<close> gives the value and the time to live, a later one only the value; every \<^verbatim>\<open>set\<close>, read and
  \<^verbatim>\<open>apply\<close> renews the entry, also one whose time is over and that was not cleaned yet; a removal drops it, and a cleanup drops it exactly when it reaches its
  bucket, the time to live is not zero and has passed since the last access. The cleanups of one bucket, which are those of the server, go round all \<open>N\<close>
  buckets in turn.
\<close>

theorem context_expiry:
  assumes "0 < N"
  shows "\<exists>t. ctx_run hash os (new_ht N) = Some t \<and> ht_wf hash t \<and>
    ht_lookup hash t k = map_option fst (entry_run N (unat (hash k) mod N) k os)"
proof -
  have "ht_node hash (new_ht N) k = None" using new_ht_lookup [OF assms, of hash k] by (simp add: ht_lookup_node)
  then have "entry_of hash N k (new_ht N) (0, None)"
    by (simp add: entry_of_def new_ht_wf [OF assms] node_view_def entry_view_def) (simp add: new_ht_def)
  from entry_of_run [OF this, of os] obtain t where t: "ctx_run hash os (new_ht N) = Some t" "ht_wf hash t"
      "node_view (ht_node hash t k) = entry_view (entry_run N (unat (hash k) mod N) k os)"
    by (auto simp: entry_of_def entry_run_def)
  from t(3) have "ht_lookup hash t k = map_option fst (entry_run N (unat (hash k) mod N) k os)"
    by (cases "ht_node hash t k"; cases "entry_run N (unat (hash k) mod N) k os") (auto simp: ht_lookup_node node_view_def entry_view_def)
  with t show ?thesis by blast
qed

theorem context_expiry_witness:
  "\<exists>t. ctx_run demo_hash [(0, CtxSet ''a'' (1::nat) 60 None), (90, CtxRead ''a''), (140, CtxClean False), (140, CtxClean False), (150, CtxClean False),
       (155, CtxClean False)] (new_ht 2) = Some t \<and> ht_lookup demo_hash t ''a'' = None \<and> ht_wf demo_hash t"
proof -
  let ?os = "[(0, CtxSet ''a'' (1::nat) 60 None), (90, CtxRead ''a''), (140, CtxClean False), (140, CtxClean False), (150, CtxClean False), (155, CtxClean False)]"
  have h: "unat (demo_hash ''a'') mod 2 = 1" by (simp add: demo_hash_def)
  have "entry_run 2 1 ''a'' ?os = None" by (simp add: entry_run_def)
  with context_expiry [of 2 demo_hash ?os "''a''"] show ?thesis by (auto simp: h)
qed

text \<open>
  A value once stored without a time to live stays for good: writing the key again with a
  time to live (as \<^verbatim>\<open>ctx.global.set\<close> does) replaces the value but not the node's time to
  live, so no later cleanup removes it.
\<close>

theorem context_update_keeps_ttl:
  assumes "ht_wf hash t" "ht_lookup hash t key = None"
  shows "\<exists>calls t'. cleanup now True
      (addOrUpdate hash tb key w ttl f (addOrUpdate hash ta key v 0 f0 t)) = Some (calls, t') \<and>
    ht_lookup hash t' key = Some w"
proof -
  let ?t1 = "addOrUpdate hash ta key v 0 f0 t"
  let ?t2 = "addOrUpdate hash tb key w ttl f ?t1"
  have w1: "ht_wf hash ?t1" and w2: "ht_wf hash ?t2" using assms by (simp_all add: ht_simps)
  have "ht_node hash ?t1 key = Some (new_node ta (ht_next t) key v 0 f0)"
    using ht_node_addOrUpdate [OF assms(1), of ta key v 0 f0] assms(2) by (simp add: ht_lookup_node)
  then have n: "ht_node hash ?t2 key = Some ((update_time tb (new_node ta (ht_next t) key v 0 f0))\<lparr>nd_val := w\<rparr>)"
    using ht_node_addOrUpdate [OF w1, of tb key w ttl f] by simp
  have "\<not> expired now ((update_time tb (new_node ta (ht_next t) key v 0 f0))\<lparr>nd_val := w\<rparr>)"
    by (simp add: expired_def update_time_def)
  with cleanup_all_lookup [OF w2, of now] n show ?thesis by (force simp: ht_lookup_node)
qed

theorem context_update_keeps_ttl_witness:
  "\<exists>calls t'. cleanup 100000 True
      (addOrUpdate demo_hash 1 ''p:status'' 2 60 None (addOrUpdate demo_hash 0 ''p:status'' 1 0 None demo_ht)) =
    Some (calls, t') \<and> ht_lookup demo_hash t' ''p:status'' = Some 2"
  by (rule context_update_keeps_ttl) (simp_all add: new_ht_wf new_ht_lookup)

end
