(* ===== verification/Rta_Context.thy ===== *)
theory Rta_Context
  imports Full_Supernode_List Task_Model Global_Context
begin

text \<open>
  What the request handlers of the supernode share (include/supernode/requestdefines.h,
  src/supernode/requestdefines.cpp and the message structures of
  include/supernode/requests/*.h).

  \<^item> \<open>hst\<close> is what a handler works on: its task's context (\<^verbatim>\<open>ctx.local\<close> is a map), the
    global context with the one \<^verbatim>\<open>FullSupernodeList\<close> object behind it, and the output.
  \<^item> A handler returns a status, throws, or crashes (a null pointer, \<^verbatim>\<open>abort\<close>): the type
    \<open>outcome\<close>. \<open>run_handler\<close> turns it into a handler of \<open>Task_Model\<close>, for which an exception
    and a crash both end the program.
  \<^item> \<^verbatim>\<open>std::any\<close> is the datatype \<open>any\<close>, with one constructor per type the handlers store;
    \<^verbatim>\<open>any_cast\<close> is the partial selector of that constructor.
  \<^item> The JSON and base64 serialisers (rapidjson, reflective-rapidjson, epee) are the record
    \<open>codec\<close>: one parser per structure read, one printer for all structures written. The
    record \<open>env\<close> holds it with the clocks, the random draws and the cryptonote functions.
\<close>

section \<open>Status of a payment\<close>

datatype RTAStatus = RtaNone | Waiting | InProgress | Success | Fail | RejectedByWallet | RejectedByPOS

fun rta_int :: "RTAStatus \<Rightarrow> int" where
  "rta_int RtaNone = 0" | "rta_int Waiting = 1" | "rta_int InProgress = 2" | "rta_int Success = 3"
| "rta_int Fail = 4" | "rta_int RejectedByWallet = 5" | "rta_int RejectedByPOS = 6"

text \<open>On the underlying integer: \<^verbatim>\<open>static_cast<RTAStatus>\<close> accepts any.\<close>

definition isFiniteRtaStatus :: "int \<Rightarrow> bool" where
  "isFiniteRtaStatus status \<longleftrightarrow>
     \<not> (status = rta_int RtaNone \<or> status = rta_int InProgress \<or> status = rta_int Waiting)"

datatype RTAAuthResult = Approved | Rejected | Invalid

fun auth_int :: "RTAAuthResult \<Rightarrow> int" where
  "auth_int Approved = 0" | "auth_int Rejected = 1" | "auth_int Invalid = 3"

section \<open>Messages\<close>

record SaleData = sd_Address :: string  sd_BlockNumber :: u64  sd_Amount :: u64

record PayData = pd_Address :: string  pd_BlockNumber :: u64  pd_Amount :: u64

record SaleRequest =
  sr_IdKey :: string  sr_SaleDetails :: string  sr_PaymentID :: string  sr_Amount :: u64

record SaleDataMulticast =
  sdm_sale_data :: SaleData  sdm_paymentId :: string  sdm_status :: int  sdm_details :: string

record UpdateSaleStatusBroadcast =
  us_PaymentID :: string  us_Status :: int  us_id_key :: string  us_signature :: string

record MulticastRequest =
  mc_sender_address :: string  mc_receiver_addresses :: "string list"
  mc_callback_uri :: string  mc_data :: string

record BroadcastRequest =
  bc_sender_address :: string  bc_callback_uri :: string  bc_data :: string

record UnicastRequest =
  uc_sender_address :: string  uc_receiver_address :: string
  uc_callback_uri :: string  uc_data :: string  uc_wait_answer :: bool

text \<open>The cryptonode's reply to a multicast, broadcast or unicast: \<^verbatim>\<open>error.code\<close> and \<^verbatim>\<open>result.status\<close>.\<close>

record cn_reply = cr_error_code :: int  cr_status :: int

record SupernodeFee = snf_Address :: string  snf_IdKey :: string  snf_Fee :: string

record SaleDetailsRequest = sdq_PaymentID :: string  sdq_BlockNumber :: u64  sdq_callback_uri :: string

record SaleDetailsResponse = sdr_AuthSample :: "SupernodeFee list"  sdr_Details :: string

record PayRequest =
  pr_PaymentID :: string  pr_Address :: string  pr_BlockNumber :: u64  pr_Amount :: u64
  pr_Transactions :: "string list"  pr_Account :: string  pr_Password :: string

record PrepareTransferCallbackResponse =
  ptc_Result :: int  ptc_Transactions :: "string list"  ptc_Fee :: string

record AuthorizeRtaTxRequest = aq_tx_hex :: string  aq_payment_id :: string  aq_amount :: u64

record SupernodeSignature = ss_id_key :: string  ss_result_signature :: string  ss_tx_signature :: string

record AuthorizeRtaTxResponse = ar_tx_id :: string  ar_result :: int  ar_signature :: SupernodeSignature

record RtaAuthResult = ra_approved :: "SupernodeSignature list"  ra_rejected :: "SupernodeSignature list"

record SendRawTxRequest = rq_tx_as_hex :: string  rq_do_not_relay :: bool

record SendRawTxResponse =
  rs_status :: string  rs_reason :: string  rs_not_relayed :: bool  rs_low_mixin :: bool
  rs_double_spend :: bool  rs_invalid_input :: bool  rs_invalid_output :: bool  rs_too_big :: bool
  rs_overspend :: bool  rs_fee_too_low :: bool  rs_not_rct :: bool

record SupernodeStake =
  st_amount :: u64  st_tier :: u32  st_block_height :: u64  st_unlock_time :: u64
  st_public_id :: string  st_public_address :: string

record SupernodeStakes = sts_block_height :: u64  sts_stakes :: "SupernodeStake list"

record BlockchainBasedListMsg = bl_block_height :: u64  bl_tiers :: bbl

record GetInfoResponse =
  gi_alt_blocks_count :: u64  gi_difficulty :: u64  gi_grey_peerlist_size :: u64  gi_height :: u64
  gi_incoming_connections_count :: u64  gi_outgoing_connections_count :: u64  gi_status :: string
  gi_target :: u64  gi_target_height :: u64  gi_testnet :: bool  gi_top_block_hash :: string
  gi_tx_count :: u64  gi_tx_pool_size :: u64  gi_white_peerlist_size :: u64

text \<open>The JSON-RPC reply to \<^verbatim>\<open>get_info\<close>: \<^verbatim>\<open>error.code\<close>, \<^verbatim>\<open>error.message\<close> and the result.\<close>

record info_reply = ir_error_code :: int  ir_error_message :: string  ir_result :: GetInfoResponse

record DbSupernode =
  db_Address :: string  db_PublicId :: string  db_StakeAmount :: u64  db_StakeFirstValidBlock :: u64
  db_StakeExpiringBlock :: u64  db_IsStakeValid :: bool  db_BlockchainBasedListTier :: nat
  db_AuthSampleBlockchainBasedListTier :: nat  db_IsAvailableForAuthSample :: bool  db_LastUpdateAge :: u64

text \<open>
  What \<^verbatim>\<open>output.load\<close> is given. Responses whose structures have the same fields share a
  constructor: \<open>JResult\<close> the ones with an integer \<^verbatim>\<open>Result\<close>, \<open>JOk\<close> the ones with a string
  \<^verbatim>\<open>status\<close>.
\<close>

datatype msg =
    JErrorResponse int string
  | JError int string
  | ErrorResponse int string
  | JMulticast MulticastRequest
  | JBroadcast BroadcastRequest
  | JUnicast UnicastRequest
  | JSaleResponse u64 string
  | JStatusResponse int
  | JSaleDetails SaleDetailsResponse
  | JResult int
  | JOk string
  | JAnnounceReply int
  | JAnnounce SupernodeAnnounce
  | RejectResponse int
  | RawTxRequest SendRawTxRequest
  | RawTxResponse SendRawTxResponse
  | PrepareTransfer string string "(string \<times> u64) list"
  | JMethod string
  | InfoResponse GetInfoResponse
  | TransferResponse int
  | JSupernodeList "DbSupernode list" bool u64
  | JListResponse "(string \<times> string \<times> u64) list list" u64

datatype payload =
    PSale SaleDataMulticast
  | PStatus UpdateSaleStatusBroadcast
  | PDetailsRequest SaleDetailsRequest
  | PDetails SaleDetailsResponse
  | PAuthRequest AuthorizeRtaTxRequest
  | PAuthResponse AuthorizeRtaTxResponse

record codec =
  print_msg :: "msg \<Rightarrow> string"
  print_b64 :: "payload \<Rightarrow> string"
  get_SaleRequest :: "string \<Rightarrow> SaleRequest option"
  get_StatusRequest :: "string \<Rightarrow> string option"
  get_RejectRequest :: "string \<Rightarrow> string option"
  get_Multicast :: "string \<Rightarrow> MulticastRequest option"
  get_Broadcast :: "string \<Rightarrow> BroadcastRequest option"
  get_Unicast :: "string \<Rightarrow> UnicastRequest option"
  get_Reply :: "string \<Rightarrow> cn_reply option"
  get_SaleDetailsRequest :: "string \<Rightarrow> SaleDetailsRequest option"
  get_PayRequest :: "string \<Rightarrow> PayRequest option"
  get_PrepareTransferResponse :: "string \<Rightarrow> int option"
  get_PrepareTransferCallback :: "string \<Rightarrow> PrepareTransferCallbackResponse option"
  get_RawTxRequest :: "string \<Rightarrow> SendRawTxRequest option"
  get_RawTxResponse :: "string \<Rightarrow> SendRawTxResponse option"
  get_Announce :: "string \<Rightarrow> SupernodeAnnounce option"
  get_Stakes :: "string \<Rightarrow> SupernodeStakes option"
  get_BlockchainBasedList :: "string \<Rightarrow> BlockchainBasedListMsg option"
  get_Info :: "string \<Rightarrow> info_reply option"
  get_Transfer :: "string \<Rightarrow> string list option"
  b64_Sale :: "string \<Rightarrow> SaleDataMulticast option"
  b64_Status :: "string \<Rightarrow> UpdateSaleStatusBroadcast option"
  b64_DetailsRequest :: "string \<Rightarrow> SaleDetailsRequest option"
  b64_Details :: "string \<Rightarrow> SaleDetailsResponse option"
  b64_AuthRequest :: "string \<Rightarrow> AuthorizeRtaTxRequest option"
  b64_AuthResponse :: "string \<Rightarrow> AuthorizeRtaTxResponse option"

section \<open>Values in the contexts\<close>

datatype 'tx any =
    AnyEmpty
  | AnyInt int
  | AnyBool bool
  | AnyStr string
  | AnyU64 u64
  | AnyUInt u32
  | AnyStrs "string list"
  | AnySaleData SaleData
  | AnyPayData PayData
  | AnyPayRequest PayRequest
  | AnySaleDetails SaleDetailsResponse
  | AnyAuthResult RtaAuthResult
  | AnyTx 'tx
  | AnySupernode "SupernodePtr option"
  | AnyFsl bool
  | AnyState string int

text \<open>
  \<open>AnyFsl b\<close> is a list pointer, null when \<open>b\<close> is false; \<open>AnyState e n\<close> is the value \<open>n\<close>
  of the handler's enumeration \<open>e\<close>.
\<close>

fun as_int where "as_int (AnyInt i) = Some i" | "as_int _ = None"
fun as_bool where "as_bool (AnyBool b) = Some b" | "as_bool _ = None"
fun as_str where "as_str (AnyStr s) = Some s" | "as_str _ = None"
fun as_u64 where "as_u64 (AnyU64 w) = Some w" | "as_u64 _ = None"
fun as_uint where "as_uint (AnyUInt w) = Some w" | "as_uint _ = None"
fun as_strs where "as_strs (AnyStrs s) = Some s" | "as_strs _ = None"
fun as_SaleData where "as_SaleData (AnySaleData d) = Some d" | "as_SaleData _ = None"
fun as_PayRequest where "as_PayRequest (AnyPayRequest d) = Some d" | "as_PayRequest _ = None"
fun as_SaleDetails where "as_SaleDetails (AnySaleDetails d) = Some d" | "as_SaleDetails _ = None"
fun as_AuthResult where "as_AuthResult (AnyAuthResult d) = Some d" | "as_AuthResult _ = None"
fun as_Tx where "as_Tx (AnyTx d) = Some d" | "as_Tx _ = None"
fun as_Supernode where "as_Supernode (AnySupernode p) = Some p" | "as_Supernode _ = None"
fun as_Fsl where "as_Fsl (AnyFsl b) = Some b" | "as_Fsl _ = None"
fun as_State where "as_State e (AnyState e' n) = (if e = e' then Some n else None)" | "as_State e _ = None"

section \<open>State and outcome of a handler\<close>

record ('pk, 'sk, 'tx) rta_global =
  g_map :: "(string, 'tx any, unit) ht"
  g_fsl :: "('pk, 'sk) FullSupernodeList"

type_synonym 'tx rta_local = "string \<rightharpoonup> 'tx any"

record ('pk, 'sk, 'tx) hst =
  h_ctx :: "'tx rta_local Ctx"
  h_g :: "('pk, 'sk, 'tx) rta_global"
  h_out :: Output

datatype outcome = Ret Status | Throw string | Crash

record ('pk, 'sk, 'sg, 'h, 'tx, 'g) env =
  e_now :: int
  e_time :: u64
  e_local_time :: int
  e_hash :: "string \<Rightarrow> u64"
  e_codec :: codec
  e_crypto :: "('pk, 'sk, 'sg, 'h) crypto_api"
  e_rng_next :: "'g \<Rightarrow> u64 \<times> 'g"
  e_rng_seed :: "string \<Rightarrow> 'g"
  e_payment_id :: string
  e_random :: "nat \<Rightarrow> nat"
  e_uuid :: uuid
  e_uuid_string :: "uuid \<Rightarrow> string"
  e_parse_uuid :: "string \<Rightarrow> uuid option"
  e_hex_to_blob :: "string \<Rightarrow> string option"
  e_parse_tx :: "string \<Rightarrow> ('tx \<times> 'h) option"
  e_tx_is_rta :: "'tx \<Rightarrow> bool"
  e_tx_hex :: "'tx \<Rightarrow> string"
  e_no_tx :: 'tx
  e_address_ok :: "bool \<Rightarrow> string \<Rightarrow> bool"
  e_indet :: string
  e_indet_pk :: 'pk
  e_COIN :: u64
  e_HISTORY_SIZE :: u64
  e_items :: "string set \<Rightarrow> string list"
  e_indet_db :: DbSupernode
  e_indet_bool :: bool

text \<open>
  \<open>e_random m\<close> is a draw from \<open>0..m\<close>; \<open>e_indet\<close> is what an uninitialised signature
  prints as, \<open>e_indet_pk\<close> an uninitialised key, \<open>e_indet_db\<close> and \<open>e_indet_bool\<close> uninitialised
  fields of a reply; \<open>e_no_tx\<close> is a default-constructed transaction; \<open>e_items\<close> is the order in
  which the hash table of the supernodes is traversed.
\<close>

definition run_handler where
  "run_handler h vars input ctx g out =
     (case h vars input \<lparr>h_ctx = ctx, h_g = g, h_out = out\<rparr> of
        (s, Ret st) \<Rightarrow> Returned st (h_ctx s) (h_g s) (h_out s)
      | (s, Throw e) \<Rightarrow> Raised e
      | (s, Crash) \<Rightarrow> Raised ''crash'')"

text \<open>A \<^verbatim>\<open>try\<close> block whose handlers catch every exception; a crash is not one.\<close>

definition try_catch where
  "try_catch m handler = (case m of (s, Throw e) \<Rightarrow> handler e s | r \<Rightarrow> r)"

text \<open>An exception that leaves a \<^verbatim>\<open>noexcept\<close> function ends the program.\<close>

definition noexcept where
  "noexcept m = (case m of (s, Throw e) \<Rightarrow> (s, Crash) | r \<Rightarrow> r)"

section \<open>Access to the contexts\<close>

abbreviation local_map where "local_map s \<equiv> ctx_local (h_ctx s)"
abbreviation global_map where "global_map s \<equiv> g_map (h_g s)"

definition set_local where
  "set_local key v s = s\<lparr>h_ctx := (h_ctx s)\<lparr>ctx_local := (local_map s)(key \<mapsto> v)\<rparr>\<rparr>"

definition has_local where "has_local key s \<longleftrightarrow> local_map s key \<noteq> None"

text \<open>
  Reading through the local proxy creates the entry, as an empty \<^verbatim>\<open>any\<close>, before the cast.
\<close>

definition with_local where
  "with_local cast key s cont =
     (case local_map s key of
        None \<Rightarrow> (set_local key AnyEmpty s, Throw ''bad any_cast'')
      | Some v \<Rightarrow> (case cast v of None \<Rightarrow> (s, Throw ''bad any_cast'') | Some x \<Rightarrow> cont x s))"

definition set_global_map where "set_global_map m s = s\<lparr>h_g := (h_g s)\<lparr>g_map := m\<rparr>\<rparr>"

text \<open>\<^verbatim>\<open>ctx.global.get(key, d)\<close>, and with \<open>d\<close> an empty \<^verbatim>\<open>any\<close> the conversion of the global proxy.\<close>

definition with_global where
  "with_global E cast key d s cont =
     (case valueFor (e_hash E) (e_now E) key d (global_map s) of
        (v, m) \<Rightarrow>
          (case cast v of
             None \<Rightarrow> (set_global_map m s, Throw ''bad any_cast'')
           | Some x \<Rightarrow> cont x (set_global_map m s)))"

definition with_hasKey where
  "with_hasKey E key s cont =
     (case hasKey (e_hash E) (e_now E) key (global_map s) of (b, m) \<Rightarrow> cont b (set_global_map m s))"

definition set_global where
  "set_global E key v ttl s =
     set_global_map (addOrUpdate (e_hash E) (e_now E) key v ttl None (global_map s)) s"

definition remove_global where
  "remove_global E key s = set_global_map (remove_key (e_hash E) key (global_map s)) s"

definition load_out where
  "load_out E m s = s\<lparr>h_out := (h_out s)\<lparr>body := print_msg (e_codec E) m\<rparr>\<rparr>"

definition set_path where "set_path p s = s\<lparr>h_out := (h_out s)\<lparr>out_path := p\<rparr>\<rparr>"

text \<open>Dereferencing the supernode pointer.\<close>

definition deref where
  "deref p s cont = (case p of None \<Rightarrow> (s, Crash) | Some q \<Rightarrow> cont (sn_heap (g_fsl (h_g s)) q))"

section \<open>Keys and messages (requestdefines.h)\<close>

abbreviation CONTEXT_KEY_SALE_DETAILS where "CONTEXT_KEY_SALE_DETAILS \<equiv> '':saledetails''"
abbreviation CONTEXT_KEY_SALE where "CONTEXT_KEY_SALE \<equiv> '':sale''"
abbreviation CONTEXT_KEY_STATUS where "CONTEXT_KEY_STATUS \<equiv> '':status''"
abbreviation CONTEXT_KEY_PAY where "CONTEXT_KEY_PAY \<equiv> '':pay''"
abbreviation CONTEXT_KEY_SUPERNODE where "CONTEXT_KEY_SUPERNODE \<equiv> ''supernode''"
abbreviation CONTEXT_KEY_FULLSUPERNODELIST where "CONTEXT_KEY_FULLSUPERNODELIST \<equiv> ''fsl''"
abbreviation CONTEXT_KEY_AUTH_RESULT_BY_TXID where "CONTEXT_KEY_AUTH_RESULT_BY_TXID \<equiv> '':tx_id_to_auth_resp''"
abbreviation CONTEXT_KEY_PAYMENT_ID_BY_TXID where "CONTEXT_KEY_PAYMENT_ID_BY_TXID \<equiv> '':tx_id_to_payment_id''"
abbreviation CONTEXT_KEY_TX_BY_TXID where "CONTEXT_KEY_TX_BY_TXID \<equiv> '':tx_id_to_tx''"
abbreviation CONTEXT_TX_ID where "CONTEXT_TX_ID \<equiv> ''tx_id''"
abbreviation CONTEXT_KEY_AMOUNT_BY_TX_ID where "CONTEXT_KEY_AMOUNT_BY_TX_ID \<equiv> '':tx_id_to_amount''"
abbreviation CONTEXT_SALE_DETAILS_RESULT where "CONTEXT_SALE_DETAILS_RESULT \<equiv> '':sale_details_result''"
abbreviation RTA_TX_TTL :: int where "RTA_TX_TTL \<equiv> 60"
abbreviation STATUS_OK :: int where "STATUS_OK \<equiv> 0"
abbreviation ERROR_INVALID_REQUEST :: int where "ERROR_INVALID_REQUEST \<equiv> -32600"
abbreviation ERROR_INVALID_PARAMS :: int where "ERROR_INVALID_PARAMS \<equiv> -32602"
abbreviation ERROR_INTERNAL_ERROR :: int where "ERROR_INTERNAL_ERROR \<equiv> -32603"
abbreviation ERROR_AMOUNT_INVALID :: int where "ERROR_AMOUNT_INVALID \<equiv> -32050"
abbreviation ERROR_PAYMENT_ID_INVALID :: int where "ERROR_PAYMENT_ID_INVALID \<equiv> -32051"
abbreviation ERROR_ADDRESS_INVALID :: int where "ERROR_ADDRESS_INVALID \<equiv> -32052"
abbreviation ERROR_RTA_COMPLETED :: int where "ERROR_RTA_COMPLETED \<equiv> -32070"
abbreviation ERROR_RTA_FAILED :: int where "ERROR_RTA_FAILED \<equiv> -32071"
abbreviation ERROR_RTA_SIGNATURE_FAILED :: int where "ERROR_RTA_SIGNATURE_FAILED \<equiv> -32080"
abbreviation ERROR_TRANSACTION_INVALID :: int where "ERROR_TRANSACTION_INVALID \<equiv> -32090"

section \<open>Shared replies (requestdefines.cpp)\<close>

definition errorCustomError where
  "errorCustomError E message code s = (load_out E (JErrorResponse code message) s, Ret StError)"

definition errorInvalidParams where
  "errorInvalidParams E s =
     (load_out E (JErrorResponse ERROR_INVALID_PARAMS ''The request parameters are invalid.'') s, Ret StError)"

definition errorInvalidPaymentID where
  "errorInvalidPaymentID E s =
     (load_out E (JErrorResponse ERROR_PAYMENT_ID_INVALID ''Payment ID is invalid.'') s, Ret StError)"

definition errorInvalidAmount where
  "errorInvalidAmount E s =
     (load_out E (JErrorResponse ERROR_AMOUNT_INVALID ''Amount is invalid.'') s, Ret StError)"

definition errorInvalidAddress where
  "errorInvalidAddress E s =
     (load_out E (JErrorResponse ERROR_ADDRESS_INVALID ''Address in invalid.'') s, Ret StError)"

abbreviation MESSAGE_RTA_CANT_BUILD_AUTH_SAMPLE where
  "MESSAGE_RTA_CANT_BUILD_AUTH_SAMPLE \<equiv> ''Can't build auth sample.''"

definition errorBuildAuthSample where
  "errorBuildAuthSample E s =
     (load_out E (JErrorResponse ERROR_INTERNAL_ERROR MESSAGE_RTA_CANT_BUILD_AUTH_SAMPLE) s, Ret StError)"

definition errorInvalidTransaction where
  "errorInvalidTransaction E tx_data s =
     (load_out E (JErrorResponse ERROR_TRANSACTION_INVALID (''Can't parse transaction'' @ '' : '' @ tx_data)) s,
      Ret StError)"

definition errorInternalError where
  "errorInternalError E message s =
     (load_out E (JErrorResponse ERROR_INTERNAL_ERROR message) s, Ret StError)"

text \<open>The response is built, but the bare error is what is loaded.\<close>

definition errorFinishedPayment where
  "errorFinishedPayment E status s =
     (if status \<noteq> rta_int Waiting \<and> status \<noteq> rta_int InProgress
      then (True, load_out E
              (if status = rta_int Success then JError ERROR_RTA_COMPLETED ''Payment is already completed.''
               else JError ERROR_RTA_FAILED ''Payment is already failed.'') s)
      else (False, s))"

definition sendOkResponseToCryptonode where
  "sendOkResponseToCryptonode E s = (load_out E (JResult STATUS_OK) s, Ret StOk)"

definition cleanPaySaleData where
  "cleanPaySaleData E payment_id s =
     remove_global E (payment_id @ CONTEXT_KEY_STATUS)
       (remove_global E (payment_id @ CONTEXT_KEY_SALE)
         (remove_global E (payment_id @ CONTEXT_KEY_PAY) s))"

text \<open>A signature as the code prints it; signing without the key leaves it uninitialised.\<close>

definition signed_hex where
  "signed_hex E sn msg =
     (case signMessage (e_crypto E) sn msg of
        None \<Rightarrow> e_indet E | Some sign \<Rightarrow> sg_to_hex (e_crypto E) sign)"

definition sale_status_msg where
  "sale_status_msg payment_id status = payment_id @ '':'' @ int_to_string status"

definition status_broadcast where
  "status_broadcast E payment_id status sn =
     \<lparr>us_PaymentID = payment_id, us_Status = status, us_id_key = idKeyAsString (e_crypto E) sn,
      us_signature = signed_hex E sn (sale_status_msg payment_id status)\<rparr>"

definition buildBroadcastSaleStatusOutput where
  "buildBroadcastSaleStatusOutput E payment_id status sn s =
     load_out E
       (JBroadcast \<lparr>bc_sender_address = [], bc_callback_uri = ''/cryptonode/update_sale_status'',
          bc_data = print_b64 (e_codec E) (PStatus (status_broadcast E payment_id status sn))\<rparr>)
       (set_path ''/json_rpc/rta'' s)"

definition signSaleStatusUpdate where
  "signSaleStatusUpdate E payment_id status sn = signed_hex E sn (sale_status_msg payment_id status)"

definition checkSaleStatusUpdateSignature where
  "checkSaleStatusUpdateSignature E payment_id status id_key_str signature \<longleftrightarrow>
     (case hex_to_sg (e_crypto E) signature of
        None \<Rightarrow> False
      | Some sign \<Rightarrow>
          (case hex_to_pk (e_crypto E) id_key_str of
             None \<Rightarrow> False
           | Some id_key \<Rightarrow>
               verifySignature (e_crypto E) (sale_status_msg payment_id status) id_key sign))"

text \<open>\<^verbatim>\<open>fsl->buildAuthSample\<close> on the list behind the pointer.\<close>

definition build_sample where
  "build_sample E height payment_id s =
     buildAuthSample (e_rng_next E) (e_rng_seed E) (e_time E) height payment_id (g_fsl (h_g s))"

definition sample_ids where
  "sample_ids E sample s = map (\<lambda>p. idKeyAsString (e_crypto E) (sn_heap (g_fsl (h_g s)) p)) sample"

section \<open>Facts\<close>

text \<open>Lookups through the state, and the state a read leaves.\<close>

definition glookup where "glookup E s k = ht_lookup (e_hash E) (global_map s) k"

definition gwf where "gwf E s \<longleftrightarrow> ht_wf (e_hash E) (global_map s)"

definition gtouch where
  "gtouch E key s = set_global_map (touch (e_hash E) (e_now E) key (global_map s)) s"

named_theorems rta_simps \<open>accesses to the contexts\<close>

lemma with_global_alt [rta_simps]:
  "with_global E cast key d s cont =
     (case cast (case glookup E s key of None \<Rightarrow> d | Some v \<Rightarrow> v) of
        None \<Rightarrow> (gtouch E key s, Throw ''bad any_cast'') | Some x \<Rightarrow> cont x (gtouch E key s))"
  by (simp add: with_global_def valueFor_alt glookup_def gtouch_def split: option.split)

lemma with_hasKey_alt [rta_simps]:
  "with_hasKey E key s cont = cont (glookup E s key \<noteq> None) (gtouch E key s)"
  by (simp add: with_hasKey_def hasKey_alt glookup_def gtouch_def)

lemma gwf_simps [rta_simps]:
  "gwf E s \<Longrightarrow> gwf E (gtouch E k s)" "gwf E s \<Longrightarrow> gwf E (set_global E k v ttl s)"
  "gwf E s \<Longrightarrow> gwf E (remove_global E k s)" "gwf E (set_local k x s) = gwf E s"
  "gwf E (load_out E m s) = gwf E s" "gwf E (set_path q s) = gwf E s"
  by (simp_all add: gwf_def gtouch_def set_global_map_def set_global_def remove_global_def set_local_def
      load_out_def set_path_def ht_simps)

lemma glookup_simps [rta_simps]:
  "gwf E s \<Longrightarrow> glookup E (gtouch E k s) k' = glookup E s k'"
  "gwf E s \<Longrightarrow> glookup E (set_global E k v ttl s) k' = (if k' = k then Some v else glookup E s k')"
  "gwf E s \<Longrightarrow> glookup E (remove_global E k s) k' = (if k' = k then None else glookup E s k')"
  "glookup E (set_local k x s) k' = glookup E s k'"
  "glookup E (load_out E m s) k' = glookup E s k'" "glookup E (set_path q s) k' = glookup E s k'"
  by (simp_all add: gwf_def glookup_def gtouch_def set_global_map_def set_global_def remove_global_def
      set_local_def load_out_def set_path_def ht_simps)

lemma frame_simps [rta_simps]:
  "g_fsl (h_g (gtouch E k s)) = g_fsl (h_g s)" "g_fsl (h_g (set_global E k v ttl s)) = g_fsl (h_g s)"
  "g_fsl (h_g (remove_global E k s)) = g_fsl (h_g s)" "g_fsl (h_g (set_local k x s)) = g_fsl (h_g s)"
  "g_fsl (h_g (load_out E m s)) = g_fsl (h_g s)" "g_fsl (h_g (set_path q s)) = g_fsl (h_g s)"
  "h_ctx (gtouch E k s) = h_ctx s" "h_ctx (set_global E k v ttl s) = h_ctx s"
  "h_ctx (remove_global E k s) = h_ctx s" "h_ctx (load_out E m s) = h_ctx s" "h_ctx (set_path q s) = h_ctx s"
  "local_map (set_local k x s) = (local_map s)(k \<mapsto> x)"
  "h_out (gtouch E k s) = h_out s" "h_out (set_global E k v ttl s) = h_out s"
  "h_out (remove_global E k s) = h_out s" "h_out (set_local k x s) = h_out s"
  "h_out (load_out E m s) = (h_out s)\<lparr>body := print_msg (e_codec E) m\<rparr>"
  "h_out (set_path q s) = (h_out s)\<lparr>out_path := q\<rparr>"
  by (simp_all add: gtouch_def set_global_map_def set_global_def remove_global_def set_local_def
      load_out_def set_path_def)

lemma m_last_status_frame [rta_simps]:
  "m_last_status (h_ctx (set_local k x s)) = m_last_status (h_ctx s)"
  "m_uuid (h_ctx (set_local k x s)) = m_uuid (h_ctx s)"
  by (simp_all add: set_local_def)

text \<open>Keys with different suffixes are different.\<close>

lemma key_suffix: "p @ a = b \<Longrightarrow> take (length a) (rev b) = rev a"
  by (metis append_eq_conv_conj length_rev rev_append)

lemma key_suffixes: "p @ a = q @ b \<Longrightarrow> length a \<le> length b \<Longrightarrow> take (length a) (rev b) = rev a"
proof -
  assume e: "p @ a = q @ b" and l: "length a \<le> length b"
  have "rev a @ rev p = rev b @ rev q" using e by (metis rev_append)
  then have "take (length a) (rev b @ rev q) = rev a" by (metis append_eq_conv_conj length_rev)
  with l show ?thesis by simp
qed

lemma key_ne [simp]:
  "p @ '':status'' \<noteq> ''supernode''" "p @ '':sale'' \<noteq> ''supernode''" "p @ '':saledetails'' \<noteq> ''supernode''"
  "p @ '':pay'' \<noteq> ''supernode''" "p @ '':sale_details_result'' \<noteq> ''supernode''"
  "p @ '':tx_id_to_amount'' \<noteq> ''supernode''" "p @ '':tx_id_to_tx'' \<noteq> ''supernode''"
  "p @ '':tx_id_to_payment_id'' \<noteq> ''supernode''" "p @ '':tx_id_to_auth_resp'' \<noteq> ''supernode''"
  "p @ '':status'' \<noteq> ''fsl''" "p @ '':sale'' \<noteq> ''fsl''" "p @ '':saledetails'' \<noteq> ''fsl''"
  by (auto dest!: key_suffix)

lemmas key_ne' [simp] = key_ne [symmetric]

lemma status_key_ne [simp]:
  "q @ '':status'' \<noteq> p @ '':sale''" "q @ '':status'' \<noteq> p @ '':pay''"
  "q @ '':status'' \<noteq> p @ '':saledetails''" "q @ '':status'' \<noteq> p @ '':sale_details_result''"
  "q @ '':status'' \<noteq> p @ '':tx_id_to_amount''" "q @ '':status'' \<noteq> p @ '':tx_id_to_tx''"
  "q @ '':status'' \<noteq> p @ '':tx_id_to_payment_id''" "q @ '':status'' \<noteq> p @ '':tx_id_to_auth_resp''"
  "q @ '':sale'' \<noteq> p @ '':saledetails''" "q @ '':sale'' \<noteq> p @ '':sale_details_result''"
  by (auto dest!: key_suffixes key_suffixes [OF sym])

lemmas status_key_ne' [simp] = status_key_ne [symmetric]

text \<open>The signature of a status update.\<close>

lemma status_signature_ok:
  assumes "hex_codec_ok (e_crypto E)" "signatures_ok (e_crypto E)"
    and "m_has_secret_key sn" "m_secret_key sn = Some sk"
    and "secret_key_to_public_key (e_crypto E) sk = Some (m_id_key sn)"
  shows "checkSaleStatusUpdateSignature E pid st (us_id_key (status_broadcast E pid st sn))
    (us_signature (status_broadcast E pid st sn))"
  using assms
  by (auto simp: checkSaleStatusUpdateSignature_def status_broadcast_def signed_hex_def signMessage_def
      signHash_def idKeyAsString_def verifySignature_def verifyHash_def hex_codec_ok_def signatures_ok_def)

section \<open>Example data\<close>

definition demo_codec :: codec where
  "demo_codec =
     \<lparr>print_msg = (\<lambda>_. ''msg''), print_b64 = (\<lambda>_. ''data''), get_SaleRequest = (\<lambda>_. None),
      get_StatusRequest = (\<lambda>_. None), get_RejectRequest = (\<lambda>_. None), get_Multicast = (\<lambda>_. None),
      get_Broadcast = (\<lambda>_. None), get_Unicast = (\<lambda>_. None), get_Reply = (\<lambda>_. None),
      get_SaleDetailsRequest = (\<lambda>_. None), get_PayRequest = (\<lambda>_. None),
      get_PrepareTransferResponse = (\<lambda>_. None), get_PrepareTransferCallback = (\<lambda>_. None),
      get_RawTxRequest = (\<lambda>_. None), get_RawTxResponse = (\<lambda>_. None), get_Announce = (\<lambda>_. None),
      get_Stakes = (\<lambda>_. None), get_BlockchainBasedList = (\<lambda>_. None),
      get_Info = (\<lambda>_. None), get_Transfer = (\<lambda>_. None), b64_Sale = (\<lambda>_. None),
      b64_Status = (\<lambda>_. None), b64_DetailsRequest = (\<lambda>_. None), b64_Details = (\<lambda>_. None),
      b64_AuthRequest = (\<lambda>_. None), b64_AuthResponse = (\<lambda>_. None)\<rparr>"

definition demo_rta :: "codec \<Rightarrow> (string, string, string, string, nat, nat) env" where
  "demo_rta cd =
     \<lparr>e_now = 0, e_time = 100, e_local_time = 0, e_hash = demo_hash, e_codec = cd, e_crypto = demo_crypto,
      e_rng_next = demo_next, e_rng_seed = length, e_payment_id = ''pid'', e_random = (\<lambda>_. 0),
      e_uuid = 7, e_uuid_string = (\<lambda>_. ''id''), e_parse_uuid = (\<lambda>_. Some 7), e_hex_to_blob = Some,
      e_parse_tx = (\<lambda>b. Some (5, b)), e_tx_is_rta = (\<lambda>_. True), e_tx_hex = (\<lambda>_. ''tx''), e_no_tx = 0,
      e_address_ok = (\<lambda>_ _. True), e_indet = [], e_indet_pk = [], e_COIN = 10000000000, e_HISTORY_SIZE = 100,
      e_items = (\<lambda>_. []),
      e_indet_db = \<lparr>db_Address = [], db_PublicId = [], db_StakeAmount = 0, db_StakeFirstValidBlock = 0,
        db_StakeExpiringBlock = 0, db_IsStakeValid = False, db_BlockchainBasedListTier = 0,
        db_AuthSampleBlockchainBasedListTier = 0, db_IsAvailableForAuthSample = False, db_LastUpdateAge = 0\<rparr>,
      e_indet_bool = False\<rparr>"

text \<open>The state of a node after \<^verbatim>\<open>prepareSupernode\<close>, with \<open>es\<close> stored besides.\<close>

definition demo_state :: "(string \<times> nat any) list \<Rightarrow> (string, string, nat) hst" where
  "demo_state es =
     \<lparr>h_ctx = new_Ctx Map.empty,
      h_g = \<lparr>g_map = fold (\<lambda>(k, v). addOrUpdate demo_hash 0 k v 0 None)
                (es @ [(''supernode'', AnySupernode (Some 0)), (''fsl'', AnyFsl True), (''testnet'', AnyBool False)])
                (new_ht 64), g_fsl = demo_fsl\<rparr>,
      h_out = empty_Output\<rparr>"

lemma demo_rta_simps [simp]:
  "e_codec (demo_rta cd) = cd" "e_crypto (demo_rta cd) = demo_crypto" "e_hash (demo_rta cd) = demo_hash"
  "e_now (demo_rta cd) = 0" "e_payment_id (demo_rta cd) = ''pid''"
  "e_parse_uuid (demo_rta cd) i = Some 7" "e_uuid (demo_rta cd) = 7" "e_uuid_string (demo_rta cd) u = ''id''"
  "e_random (demo_rta cd) n = 0"
  by (simp_all add: demo_rta_def)

lemma demo_fold_wf: "ht_wf hash t \<Longrightarrow> ht_wf hash (fold (\<lambda>(k, v). addOrUpdate hash 0 k v 0 None) es t)"
  by (induction es arbitrary: t) (auto simp: wf_addOrUpdate)

lemma demo_state_wf: "gwf (demo_rta cd) (demo_state es)"
  by (simp add: gwf_def demo_state_def demo_fold_wf new_ht_wf wf_addOrUpdate)

lemma demo_fold_lookup:
  assumes "ht_wf hash t"
  shows "ht_lookup hash (fold (\<lambda>(k, v). addOrUpdate hash 0 k v 0 None) es t) k =
    (case map_of (rev es) k of None \<Rightarrow> ht_lookup hash t k | Some v \<Rightarrow> Some v)"
  using assms
  by (induction es arbitrary: t) (auto simp: wf_addOrUpdate lookup_addOrUpdate map_add_def split: option.splits)

lemma demo_lookup:
  "glookup (demo_rta cd) (demo_state es) k =
     map_of (rev (es @ [(''supernode'', AnySupernode (Some 0)), (''fsl'', AnyFsl True), (''testnet'', AnyBool False)])) k"
  by (simp add: glookup_def demo_state_def demo_fold_lookup new_ht_wf new_ht_lookup del: fold_append rev_append
      split: option.split)

lemma demo_state_simps [simp]:
  "g_fsl (h_g (demo_state es)) = demo_fsl" "local_map (demo_state es) = Map.empty"
  by (simp_all add: demo_state_def new_Ctx_def)

lemma demo_status_broadcast:
  "status_broadcast (demo_rta cd) pid st sn = status_broadcast (demo_rta cd') pid st sn"
  by (simp add: status_broadcast_def signed_hex_def demo_rta_def split: option.split)

end
