(* ===== verification/Rta_Sale.thy ===== *)
theory Rta_Sale
  imports Rta_Context
begin

text \<open>
  Sales: \<^verbatim>\<open>/sale\<close> and \<^verbatim>\<open>/cryptonode/sale\<close> (src/supernode/requests/sale.cpp), the status of a
  payment and its updates (sale\_status.cpp, pay\_status.cpp) and its rejection
  (reject\_sale.cpp, reject\_pay.cpp).
\<close>

section \<open>The sale request\<close>

abbreviation SALE_TTL :: int where "SALE_TTL \<equiv> 60"

abbreviation SaleHandlerState :: string where "SaleHandlerState \<equiv> ''SaleHandlerState''"

text \<open>\<^verbatim>\<open>ctx.local.hasKey(f) ? ctx.local[f] : initial\<close>, for an enumeration whose initial value is 0.\<close>

definition with_state where
  "with_state e key s cont = (if has_local key s then with_local (as_State e) key s cont else cont (0::int) s)"

definition handleClientSaleRequest where
  "handleClientSaleRequest E input s =
     (case get_SaleRequest (e_codec E) (body input) of
        None \<Rightarrow> errorInvalidParams E s
      | Some req \<Rightarrow>
          if sr_Amount req \<le> 0 then errorInvalidAmount E s
          else with_global E as_bool ''testnet'' AnyEmpty s (\<lambda>testnet s.
            let payment_id = (if sr_PaymentID req = [] then e_payment_id E else sr_PaymentID req) in
            with_global E as_Supernode CONTEXT_KEY_SUPERNODE (AnySupernode None) s (\<lambda>supernode s.
            with_global E as_Fsl CONTEXT_KEY_FULLSUPERNODELIST (AnyFsl False) s (\<lambda>fsl s.
            if \<not> fsl then (s, Crash)
            else
              let data = \<lparr>sd_Address = sr_IdKey req, sd_BlockNumber = m_bbl_max_block_number (g_fsl (h_g s)),
                          sd_Amount = sr_Amount req\<rparr>;
                  s1 = (if sr_SaleDetails req \<noteq> []
                        then set_global E (payment_id @ CONTEXT_KEY_SALE_DETAILS) (AnyStr (sr_SaleDetails req)) SALE_TTL s
                        else s)
              in case build_sample E (sd_BlockNumber data) payment_id s1 of
                (ok, authSample, auth_sample_block_number) \<Rightarrow>
                  if \<not> ok \<or> length authSample \<noteq> AUTH_SAMPLE_SIZE
                  then errorCustomError E MESSAGE_RTA_CANT_BUILD_AUTH_SAMPLE ERROR_INVALID_PARAMS s1
                  else
                    let s2 = set_global E (payment_id @ CONTEXT_KEY_SALE) (AnySaleData data) SALE_TTL s1;
                        s3 = set_global E (payment_id @ CONTEXT_KEY_STATUS) (AnyInt (rta_int Waiting)) SALE_TTL s2;
                        s4 = set_local ''sale_data'' (AnySaleData data) s3;
                        s5 = set_local ''payment_id'' (AnyStr payment_id) s4;
                        sdm = \<lparr>sdm_sale_data = data, sdm_paymentId = payment_id, sdm_status = rta_int Waiting,
                               sdm_details = sr_SaleDetails req\<rparr>;
                        m = \<lparr>mc_sender_address = [], mc_receiver_addresses = sample_ids E authSample s5,
                             mc_callback_uri = ''/cryptonode/sale'',
                             mc_data = print_b64 (e_codec E) (PSale sdm)\<rparr>
                    in (set_path ''/json_rpc/rta'' (load_out E (JMulticast m) s5), Ret StForward)))))"

text \<open>A reply of the cryptonode that is not a success.\<close>

definition bad_reply where
  "bad_reply E input \<longleftrightarrow>
     (case get_Reply (e_codec E) (body input) of
        None \<Rightarrow> True | Some r \<Rightarrow> cr_error_code r \<noteq> 0 \<or> cr_status r \<noteq> STATUS_OK)"

definition handleSaleMulticastReply where
  "handleSaleMulticastReply E input s =
     (if bad_reply E input then errorCustomError E ''Error multicasting request'' ERROR_INTERNAL_ERROR s
      else with_global E as_Supernode CONTEXT_KEY_SUPERNODE (AnySupernode None) s (\<lambda>supernode s.
           with_local as_str ''payment_id'' s (\<lambda>payment_id s.
           with_global E as_int (payment_id @ CONTEXT_KEY_STATUS) (AnyInt (rta_int Waiting)) s (\<lambda>status s.
           deref supernode s (\<lambda>sn.
             (buildBroadcastSaleStatusOutput E payment_id status sn s, Ret StForward))))))"

definition handleSaleStatusBroadcastReply where
  "handleSaleStatusBroadcastReply E input s =
     (if bad_reply E input then errorCustomError E ''Error broadcasting request'' ERROR_INTERNAL_ERROR s
      else with_local as_SaleData ''sale_data'' s (\<lambda>data s.
           with_local as_str ''payment_id'' s (\<lambda>payment_id s.
             (load_out E (JSaleResponse (sd_BlockNumber data) payment_id) s, Ret StOk))))"

definition saleClientHandler where
  "saleClientHandler E vars input s =
     with_state SaleHandlerState ''saleClientHandler'' s (\<lambda>state s.
       if state = 0
       then handleClientSaleRequest E input (set_local ''saleClientHandler'' (AnyState SaleHandlerState 1) s)
       else if state = 1
       then handleSaleMulticastReply E input (set_local ''saleClientHandler'' (AnyState SaleHandlerState 2) s)
       else if state = 2 then handleSaleStatusBroadcastReply E input s
       else (s, Crash))"

text \<open>The multicast sale at a member of the sample. The three values are stored without a time to live.\<close>

definition saleCryptonodeHandler where
  "saleCryptonodeHandler E vars input s =
     (case get_Multicast (e_codec E) (body input) of
        None \<Rightarrow> errorInvalidParams E s
      | Some req \<Rightarrow>
          (case b64_Sale (e_codec E) (mc_data req) of
             None \<Rightarrow> errorInvalidParams E s
           | Some sdm \<Rightarrow>
               let payment_id = sdm_paymentId sdm in
               with_hasKey E (payment_id @ CONTEXT_KEY_SALE) s (\<lambda>known s.
                 let s' = (if \<not> known
                   then set_global E (payment_id @ CONTEXT_KEY_SALE_DETAILS) (AnyStr (sdm_details sdm)) 0
                         (set_global E (payment_id @ CONTEXT_KEY_STATUS) (AnyInt (sdm_status sdm)) 0
                           (set_global E (payment_id @ CONTEXT_KEY_SALE) (AnySaleData (sdm_sale_data sdm)) 0 s))
                   else s)
                 in (load_out E (JOk ''OK'') s', Ret StOk))))"

section \<open>Status\<close>

definition saleStatusHandler where
  "saleStatusHandler E vars input s =
     (case get_StatusRequest (e_codec E) (body input) of
        None \<Rightarrow> errorInvalidParams E s
      | Some PaymentID \<Rightarrow>
          with_global E as_int (PaymentID @ CONTEXT_KEY_STATUS) (AnyInt (rta_int RtaNone)) s (\<lambda>current_status s.
            if PaymentID = [] \<or> current_status = 0 then errorInvalidPaymentID E s
            else (load_out E (JStatusResponse current_status) s, Ret StOk)))"

definition payStatusHandler where
  "payStatusHandler E vars input s =
     (case get_StatusRequest (e_codec E) (body input) of
        None \<Rightarrow> errorInvalidParams E s
      | Some PaymentID \<Rightarrow>
          with_global E as_int (PaymentID @ CONTEXT_KEY_STATUS) (AnyInt (rta_int RtaNone)) s (\<lambda>current_status s.
            if PaymentID = [] \<or> current_status = 0 then errorInvalidPaymentID E s
            else (load_out E (JStatusResponse current_status) s, Ret StOk)))"

definition updateSaleStatusHandler where
  "updateSaleStatusHandler E vars input s =
     (case get_Broadcast (e_codec E) (body input) of
        None \<Rightarrow> errorInvalidParams E s
      | Some req \<Rightarrow>
          (case b64_Status (e_codec E) (bc_data req) of
             None \<Rightarrow> errorInvalidParams E s
           | Some ussb \<Rightarrow>
               with_global E as_Supernode CONTEXT_KEY_SUPERNODE (AnySupernode None) s (\<lambda>supernode s.
                 if \<not> checkSaleStatusUpdateSignature E (us_PaymentID ussb) (us_Status ussb)
                         (us_id_key ussb) (us_signature ussb)
                 then (load_out E (JErrorResponse ERROR_RTA_SIGNATURE_FAILED
                         (''status update: failed to validate signature for payment: '' @ us_PaymentID ussb)) s,
                       Ret StError)
                 else with_global E as_int (us_PaymentID ussb @ CONTEXT_KEY_STATUS) (AnyInt (rta_int RtaNone)) s
                   (\<lambda>currentStatus s.
                      let s' = (if \<not> isFiniteRtaStatus currentStatus
                                then set_global E (us_PaymentID ussb @ CONTEXT_KEY_STATUS)
                                       (AnyInt (us_Status ussb)) RTA_TX_TTL s
                                else s)
                      in (load_out E (JOk ''OK'') s', Ret StOk)))))"

section \<open>Rejection\<close>

text \<open>These two parse with the throwing \<^verbatim>\<open>input.get<T>()\<close>.\<close>

definition reject_with where
  "reject_with status E input s =
     (case get_RejectRequest (e_codec E) (body input) of
        None \<Rightarrow> (s, Throw ''Json parse error'')
      | Some PaymentID \<Rightarrow>
          with_global E as_int (PaymentID @ CONTEXT_KEY_STATUS) (AnyInt (rta_int RtaNone)) s (\<lambda>current_status s.
            if PaymentID = [] \<or> current_status = 0 then errorInvalidPaymentID E s
            else (load_out E (RejectResponse STATUS_OK)
                    (set_global E (PaymentID @ CONTEXT_KEY_STATUS) (AnyInt (rta_int status)) 0 s), Ret StOk)))"

definition rejectSaleHandler where
  "rejectSaleHandler E vars input s = reject_with RejectedByPOS E input s"

definition rejectPayHandler where
  "rejectPayHandler E vars input s = reject_with RejectedByWallet E input s"

section \<open>Properties\<close>

text \<open>The state of a node whose global context was filled by \<^verbatim>\<open>prepareSupernode\<close>.\<close>

definition rta_ready where
  "rta_ready E s p tn \<longleftrightarrow> gwf E s \<and> glookup E s ''supernode'' = Some (AnySupernode (Some p)) \<and>
     glookup E s ''fsl'' = Some (AnyFsl True) \<and> glookup E s ''testnet'' = Some (AnyBool tn)"

lemma build_sample_frame [rta_simps]: "build_sample E h pid (set_global E k v ttl s) = build_sample E h pid s"
  "build_sample E h pid (gtouch E k s) = build_sample E h pid s"
  "build_sample E h pid (set_local k x s) = build_sample E h pid s"
  by (simp_all add: build_sample_def rta_simps)

text \<open>A sale request at a ready node, case by case.\<close>

lemma sale_refused:
  assumes "rta_ready E s p tn" "\<not> has_local ''saleClientHandler'' s"
    and "get_SaleRequest (e_codec E) (body input) = None \<or>
      (\<exists>req. get_SaleRequest (e_codec E) (body input) = Some req \<and> sr_Amount req = 0)"
  shows "\<exists>s'. saleClientHandler E vars input s = (s', Ret StError) \<and> gwf E s' \<and> (\<forall>k. glookup E s' k = glookup E s k)"
  using assms(1,3)
  by (auto simp: rta_ready_def saleClientHandler_def with_state_def assms(2) handleClientSaleRequest_def errorInvalidParams_def
      errorInvalidAmount_def rta_simps)

lemma sale_taken:
  assumes "rta_ready E s p tn" "\<not> has_local ''saleClientHandler'' s"
    and "get_SaleRequest (e_codec E) (body input) = Some req" "sr_Amount req \<noteq> 0"
    and "pid = (if sr_PaymentID req = [] then e_payment_id E else sr_PaymentID req)"
    and "data = \<lparr>sd_Address = sr_IdKey req, sd_BlockNumber = m_bbl_max_block_number (g_fsl (h_g s)),
                 sd_Amount = sr_Amount req\<rparr>"
    and "build_sample E (sd_BlockNumber data) pid s = (ok, sample, blk)"
    and "saleClientHandler E vars input s = (s', oc)"
  shows "gwf E s' \<and>
    glookup E s' (pid @ CONTEXT_KEY_SALE_DETAILS) =
      (if sr_SaleDetails req \<noteq> [] then Some (AnyStr (sr_SaleDetails req)) else glookup E s (pid @ CONTEXT_KEY_SALE_DETAILS)) \<and>
    (\<forall>k. k \<notin> {pid @ CONTEXT_KEY_SALE, pid @ CONTEXT_KEY_STATUS, pid @ CONTEXT_KEY_SALE_DETAILS} \<longrightarrow>
       glookup E s' k = glookup E s k) \<and>
    (if ok then oc = Ret StForward \<and>
       (\<exists>m. body (h_out s') = print_msg (e_codec E) (JMulticast m) \<and> out_path (h_out s') = ''/json_rpc/rta'' \<and>
          mc_receiver_addresses m = sample_ids E sample s \<and> length (mc_receiver_addresses m) = AUTH_SAMPLE_SIZE \<and>
          mc_callback_uri m = ''/cryptonode/sale'' \<and>
          mc_data m = print_b64 (e_codec E) (PSale \<lparr>sdm_sale_data = data, sdm_paymentId = pid,
             sdm_status = rta_int Waiting, sdm_details = sr_SaleDetails req\<rparr>)) \<and>
       glookup E s' (pid @ CONTEXT_KEY_SALE) = Some (AnySaleData data) \<and>
       glookup E s' (pid @ CONTEXT_KEY_STATUS) = Some (AnyInt (rta_int Waiting))
     else oc = Ret StError \<and> glookup E s' (pid @ CONTEXT_KEY_SALE) = glookup E s (pid @ CONTEXT_KEY_SALE) \<and>
       glookup E s' (pid @ CONTEXT_KEY_STATUS) = glookup E s (pid @ CONTEXT_KEY_STATUS))"
proof -
  have len: "length sample = AUTH_SAMPLE_SIZE" if ok
    using assms(7) that unfolding build_sample_def by (simp add: sampler.full)
  note r = assms(1) [unfolded rta_ready_def]
  let ?s0 = "gtouch E ''fsl'' (gtouch E ''supernode'' (gtouch E ''testnet''
      (set_local ''saleClientHandler'' (AnyState SaleHandlerState 1) s)))"
  let ?s1 = "if sr_SaleDetails req \<noteq> []
      then set_global E (pid @ CONTEXT_KEY_SALE_DETAILS) (AnyStr (sr_SaleDetails req)) SALE_TTL ?s0 else ?s0"
  let ?s3 = "set_global E (pid @ CONTEXT_KEY_STATUS) (AnyInt (rta_int Waiting)) SALE_TTL
      (set_global E (pid @ CONTEXT_KEY_SALE) (AnySaleData data) SALE_TTL ?s1)"
  let ?s5 = "set_local ''payment_id'' (AnyStr pid) (set_local ''sale_data'' (AnySaleData data) ?s3)"
  let ?m = "\<lparr>mc_sender_address = [], mc_receiver_addresses = sample_ids E sample ?s5,
      mc_callback_uri = ''/cryptonode/sale'', mc_data = print_b64 (e_codec E) (PSale \<lparr>sdm_sale_data = data,
        sdm_paymentId = pid, sdm_status = rta_int Waiting, sdm_details = sr_SaleDetails req\<rparr>)\<rparr>"
  have bs: "build_sample E (m_bbl_max_block_number (g_fsl (h_g s))) pid s = (ok, sample, blk)"
    using assms(7) by (simp add: assms(6))
  have "saleClientHandler E vars input s =
      (if ok then (set_path ''/json_rpc/rta'' (load_out E (JMulticast ?m) ?s5), Ret StForward)
       else errorCustomError E MESSAGE_RTA_CANT_BUILD_AUTH_SAMPLE ERROR_INVALID_PARAMS ?s1)"
    using r len
    by (simp add: saleClientHandler_def with_state_def assms(2) handleClientSaleRequest_def assms(3,4)
        rta_simps assms(5) [symmetric] assms(6) [symmetric] bs assms(7) Let_def)
  note eq = this [unfolded assms(8)]
  show ?thesis
  proof (cases ok)
    case True
    with eq r len show ?thesis by (auto simp: rta_simps sample_ids_def)
  next
    case False
    with eq r show ?thesis by (auto simp: rta_simps errorCustomError_def)
  qed
qed

text \<open>
  C7. A sale. At a ready node a sale request is answered with Forward exactly when it parses, has a non-zero amount and a full
  sample can be built. The node has then recorded the sale, the status Waiting and, when there are any, the details of the sale, and forwards one multicast whose
  receivers are the identities of the eight sampled supernodes and whose payload carries the sale. Any other request is answered with an error that leaves the sale
  and the status of every payment alone. The values under all keys of other payments stay as they were.
\<close>

theorem sale_request_effect:
  assumes "rta_ready E s p tn" "\<not> has_local ''saleClientHandler'' s"
    and "saleClientHandler E vars input s = (s', oc)"
  shows "gwf E s' \<and>
    (case get_SaleRequest (e_codec E) (body input) of
       None \<Rightarrow> oc = Ret StError \<and> (\<forall>k. glookup E s' k = glookup E s k)
     | Some req \<Rightarrow>
         if sr_Amount req = 0 then oc = Ret StError \<and> (\<forall>k. glookup E s' k = glookup E s k)
         else (let pid = (if sr_PaymentID req = [] then e_payment_id E else sr_PaymentID req);
                   data = \<lparr>sd_Address = sr_IdKey req, sd_BlockNumber = m_bbl_max_block_number (g_fsl (h_g s)), sd_Amount = sr_Amount req\<rparr>;
                   (ok, sample, blk) = build_sample E (sd_BlockNumber data) pid s in
           glookup E s' (pid @ CONTEXT_KEY_SALE_DETAILS) =
             (if sr_SaleDetails req \<noteq> [] then Some (AnyStr (sr_SaleDetails req)) else glookup E s (pid @ CONTEXT_KEY_SALE_DETAILS)) \<and>
           (\<forall>k. k \<notin> {pid @ CONTEXT_KEY_SALE, pid @ CONTEXT_KEY_STATUS, pid @ CONTEXT_KEY_SALE_DETAILS} \<longrightarrow>
              glookup E s' k = glookup E s k) \<and>
           (if ok then oc = Ret StForward \<and>
              (\<exists>m. body (h_out s') = print_msg (e_codec E) (JMulticast m) \<and> out_path (h_out s') = ''/json_rpc/rta'' \<and>
                 mc_receiver_addresses m = sample_ids E sample s \<and> length (mc_receiver_addresses m) = AUTH_SAMPLE_SIZE \<and>
                 mc_callback_uri m = ''/cryptonode/sale'' \<and>
                 mc_data m = print_b64 (e_codec E) (PSale \<lparr>sdm_sale_data = data, sdm_paymentId = pid,
                    sdm_status = rta_int Waiting, sdm_details = sr_SaleDetails req\<rparr>)) \<and>
              glookup E s' (pid @ CONTEXT_KEY_SALE) = Some (AnySaleData data) \<and>
              glookup E s' (pid @ CONTEXT_KEY_STATUS) = Some (AnyInt (rta_int Waiting))
            else oc = Ret StError \<and> glookup E s' (pid @ CONTEXT_KEY_SALE) = glookup E s (pid @ CONTEXT_KEY_SALE) \<and>
              glookup E s' (pid @ CONTEXT_KEY_STATUS) = glookup E s (pid @ CONTEXT_KEY_STATUS))))"
proof (cases "get_SaleRequest (e_codec E) (body input)")
  case None
  with sale_refused [OF assms(1,2), of input vars] assms(3) show ?thesis by auto
next
  case (Some req)
  show ?thesis
  proof (cases "sr_Amount req = 0")
    case True
    with Some sale_refused [OF assms(1,2), of input vars] assms(3) show ?thesis by auto
  next
    case False
    obtain ok sample blk where b: "build_sample E (m_bbl_max_block_number (g_fsl (h_g s)))
        (if sr_PaymentID req = [] then e_payment_id E else sr_PaymentID req) s = (ok, sample, blk)"
      by (cases "build_sample E (m_bbl_max_block_number (g_fsl (h_g s))) (if sr_PaymentID req = [] then e_payment_id E else sr_PaymentID req) s")
    show ?thesis
      unfolding Some option.case if_not_P [OF False] Let_def SaleData.select_convs b prod.case
      by (rule sale_taken [OF assms(1,2) Some False refl refl _ assms(3), unfolded SaleData.select_convs, OF b])
  qed
qed

definition demo_sale :: SaleRequest where
  "demo_sale = \<lparr>sr_IdKey = ''0a'', sr_SaleDetails = ''tea'', sr_PaymentID = [], sr_Amount = 500\<rparr>"

lemma demo_sale_simps [simp]:
  "sr_IdKey demo_sale = ''0a''" "sr_PaymentID demo_sale = []" "sr_Amount demo_sale = 500"
  "sr_SaleDetails demo_sale = ''tea''"
  by (simp_all add: demo_sale_def)

theorem sale_request_effect_witness:
  "let E = demo_rta (demo_codec\<lparr>get_SaleRequest := (\<lambda>_. Some demo_sale)\<rparr>);
       (s', oc) = saleClientHandler E ([] :: vars_t) empty_Input (demo_state [])
   in oc = Ret StForward \<and> glookup E s' ''pid:status'' = Some (AnyInt 1)"
proof -
  let ?E = "demo_rta (demo_codec\<lparr>get_SaleRequest := (\<lambda>_. Some demo_sale)\<rparr>)"
  let ?s = "demo_state []"
  obtain s' oc where h: "saleClientHandler ?E ([] :: vars_t) empty_Input ?s = (s', oc)" by fastforce
  obtain ok sample blk where b: "buildAuthSample demo_next length 100 20 ''pid'' demo_fsl = (ok, sample, blk)"
    by (cases "buildAuthSample demo_next length 100 20 ''pid'' demo_fsl")
  moreover have ok
    using auth_sample_demo b by simp
  ultimately have b': "build_sample ?E 20 ''pid'' ?s = (True, sample, blk)"
    by (simp add: build_sample_def demo_rta_def)
  have "rta_ready ?E ?s 0 False" by (simp add: rta_ready_def demo_state_wf demo_lookup)
  moreover have "e_payment_id ?E = ''pid''" "get_SaleRequest (e_codec ?E) (body empty_Input) = Some demo_sale"
    "m_bbl_max_block_number (g_fsl (h_g ?s)) = 20" by (simp_all add: demo_rta_def demo_state_def demo_fsl_def)
  ultimately show ?thesis
    using sale_request_effect [OF _ _ h] b' h by (simp add: has_local_def Let_def)
qed

text \<open>
  A member of the sample stores a multicast sale once. The first multicast of a payment
  stores the sale, its status and its details and nothing else; a later one for a payment
  whose sale is known is acknowledged and changes no value, so the first sale cannot be
  replaced.
\<close>

theorem sale_stored_once:
  assumes "gwf E s" "get_Multicast (e_codec E) (body input) = Some m"
    and "b64_Sale (e_codec E) (mc_data m) = Some sdm" "pid = sdm_paymentId sdm"
    and "saleCryptonodeHandler E vars input s = (s', oc)"
  shows "oc = Ret StOk \<and>
    (if glookup E s (pid @ CONTEXT_KEY_SALE) = None
     then \<forall>k. glookup E s' k =
       (if k = pid @ CONTEXT_KEY_SALE then Some (AnySaleData (sdm_sale_data sdm))
        else if k = pid @ CONTEXT_KEY_STATUS then Some (AnyInt (sdm_status sdm))
        else if k = pid @ CONTEXT_KEY_SALE_DETAILS then Some (AnyStr (sdm_details sdm))
        else glookup E s k)
     else \<forall>k. glookup E s' k = glookup E s k)"
  using assms by (auto simp: saleCryptonodeHandler_def rta_simps Let_def)

definition demo_sdm :: SaleDataMulticast where
  "demo_sdm = \<lparr>sdm_sale_data = \<lparr>sd_Address = ''0a'', sd_BlockNumber = 20, sd_Amount = 500\<rparr>,
     sdm_paymentId = ''pid'', sdm_status = 1, sdm_details = ''tea''\<rparr>"

definition demo_multicast :: "string \<Rightarrow> MulticastRequest" where
  "demo_multicast d = \<lparr>mc_sender_address = ''0a'', mc_receiver_addresses = [''0b''], mc_callback_uri = [], mc_data = d\<rparr>"

theorem sale_stored_once_witness:
  "let E = demo_rta (demo_codec\<lparr>get_Multicast := (\<lambda>_. Some (demo_multicast ''d'')), b64_Sale := (\<lambda>_. Some demo_sdm)\<rparr>);
       (s', oc) = saleCryptonodeHandler E ([] :: vars_t) empty_Input (demo_state [])
   in oc = Ret StOk \<and> glookup E s' (''pid'' @ CONTEXT_KEY_STATUS) = Some (AnyInt 1)"
proof -
  let ?E = "demo_rta (demo_codec\<lparr>get_Multicast := (\<lambda>_. Some (demo_multicast ''d'')), b64_Sale := (\<lambda>_. Some demo_sdm)\<rparr>)"
  obtain s' oc where h: "saleCryptonodeHandler ?E ([] :: vars_t) empty_Input (demo_state []) = (s', oc)" by fastforce
  have "sdm_paymentId demo_sdm = ''pid''" "sdm_status demo_sdm = 1" by (simp_all add: demo_sdm_def)
  with sale_stored_once [OF demo_state_wf _ _ _ h, where m = "demo_multicast ''d''" and sdm = demo_sdm and pid = "''pid''"] h
  show ?thesis by (simp add: demo_lookup)
qed

text \<open>
  C36. Status updates reach the other nodes. A status broadcast built by a node with a
  consistent key pair is accepted by every node it is delivered to: unless the payment is
  already in a final state there, its status becomes the one that was sent.
\<close>

theorem status_broadcast_accepted:
  assumes "hex_codec_ok (e_crypto E)" "signatures_ok (e_crypto E)"
    and "keys_ok (e_crypto E) sn" "m_has_secret_key sn"
    and "ussb = status_broadcast E pid st sn"
    and "b64_Status (e_codec E) (print_b64 (e_codec E) (PStatus ussb)) = Some ussb"
    and "get_Broadcast (e_codec E) (body input) = Some b" "bc_data b = print_b64 (e_codec E) (PStatus ussb)"
    and "gwf E s" "glookup E s ''supernode'' = Some (AnySupernode p)"
    and "glookup E s (pid @ CONTEXT_KEY_STATUS) \<in> {None, Some (AnyInt cur)}"
    and "\<not> isFiniteRtaStatus cur"
    and "updateSaleStatusHandler E vars input s = (s', oc)"
  shows "oc = Ret StOk \<and>
    (\<forall>k. glookup E s' k = (if k = pid @ CONTEXT_KEY_STATUS then Some (AnyInt st) else glookup E s k))"
proof -
  from assms(3,4) obtain sk where "m_secret_key sn = Some sk"
    "secret_key_to_public_key (e_crypto E) sk = Some (m_id_key sn)" by (auto simp: keys_ok_def)
  from status_signature_ok [OF assms(1,2,4) this]
  have sig: "checkSaleStatusUpdateSignature E pid st (us_id_key ussb) (us_signature ussb)" by (simp add: assms(5))
  have u: "us_PaymentID ussb = pid" "us_Status ussb = st" by (simp_all add: assms(5) status_broadcast_def)
  have nf: "\<not> isFiniteRtaStatus 0" by (simp add: isFiniteRtaStatus_def)
  show ?thesis
    using assms(11,13) nf assms(12)
    by (auto simp: updateSaleStatusHandler_def assms(6-10) sig u rta_simps)
qed

theorem status_broadcast_accepted_witness:
  "let u = status_broadcast (demo_rta demo_codec) ''pid'' 3 demo_sn;
       E = demo_rta (demo_codec\<lparr>get_Broadcast := (\<lambda>_. Some \<lparr>bc_sender_address = [], bc_callback_uri = [],
             bc_data = ''data''\<rparr>), b64_Status := (\<lambda>_. Some u)\<rparr>);
       (s', oc) = updateSaleStatusHandler E ([] :: vars_t) empty_Input (demo_state [(''pid:status'', AnyInt 1)])
   in oc = Ret StOk \<and> glookup E s' (''pid'' @ CONTEXT_KEY_STATUS) = Some (AnyInt 3)"
proof -
  let ?u = "status_broadcast (demo_rta demo_codec) ''pid'' 3 demo_sn"
  let ?b = "\<lparr>bc_sender_address = [], bc_callback_uri = [], bc_data = ''data''\<rparr>"
  let ?E = "demo_rta (demo_codec\<lparr>get_Broadcast := (\<lambda>_. Some ?b), b64_Status := (\<lambda>_. Some ?u)\<rparr>)"
  let ?s = "demo_state [(''pid:status'', AnyInt 1)]"
  obtain s' oc where h: "updateSaleStatusHandler ?E ([] :: vars_t) empty_Input ?s = (s', oc)" by fastforce
  have k: "keys_ok demo_crypto demo_sn" "m_has_secret_key demo_sn"
    by (simp_all add: keys_ok_def demo_sn_def initKeys_def demo_crypto_def)
  have u: "?u = status_broadcast ?E ''pid'' 3 demo_sn"
    by (rule demo_status_broadcast)
  have pb: "print_b64 demo_codec x = ''data''" for x by (simp add: demo_codec_def)
  from status_broadcast_accepted [where E = ?E and b = ?b and cur = 1 and sn = demo_sn and pid = "''pid''" and st = 3
      and p = "Some 0" and ussb = ?u, OF _ _ _ _ _ _ _ _ demo_state_wf _ _ _ h] k h
  show ?thesis by (simp add: demo_crypto_ok demo_lookup u [symmetric] pb isFiniteRtaStatus_def)
qed

text \<open>
  C10. A final status stays. However a status update arrives, \<open>updateSaleStatusHandler\<close> never
  changes the status of a payment that is in a final state (neither None, Waiting nor
  InProgress), and it never changes anything but the status of the payment it names; a
  message whose signature does not verify changes nothing and is answered with an error.
\<close>

theorem final_status_kept:
  assumes "gwf E s" "updateSaleStatusHandler E vars input s = (s', oc)"
  shows "(\<forall>k st. glookup E s k = Some (AnyInt st) \<longrightarrow> isFiniteRtaStatus st \<longrightarrow> glookup E s' k = glookup E s k) \<and>
    (glookup E s' = glookup E s \<or>
     (\<exists>b u. get_Broadcast (e_codec E) (body input) = Some b \<and> b64_Status (e_codec E) (bc_data b) = Some u \<and>
        checkSaleStatusUpdateSignature E (us_PaymentID u) (us_Status u) (us_id_key u) (us_signature u) \<and>
        glookup E s' = (glookup E s)(us_PaymentID u @ CONTEXT_KEY_STATUS \<mapsto> AnyInt (us_Status u))))"
proof (cases "\<exists>b u. get_Broadcast (e_codec E) (body input) = Some b \<and> b64_Status (e_codec E) (bc_data b) = Some u \<and>
    checkSaleStatusUpdateSignature E (us_PaymentID u) (us_Status u) (us_id_key u) (us_signature u)")
  case False
  then have "\<forall>k. glookup E s' k = glookup E s k"
    using assms by (auto simp: updateSaleStatusHandler_def rta_simps errorInvalidParams_def Let_def
        split: option.splits)
  then show ?thesis by (auto simp: fun_eq_iff)
next
  case True
  then obtain b u where g: "get_Broadcast (e_codec E) (body input) = Some b" "b64_Status (e_codec E) (bc_data b) = Some u"
    and sig: "checkSaleStatusUpdateSignature E (us_PaymentID u) (us_Status u) (us_id_key u) (us_signature u)" by blast
  let ?k = "us_PaymentID u @ CONTEXT_KEY_STATUS"
  let ?cur = "as_int (case glookup E s ?k of None \<Rightarrow> AnyInt (rta_int RtaNone) | Some v \<Rightarrow> v)"
  have "(\<forall>k. glookup E s' k = glookup E s k) \<or>
      (\<exists>st. ?cur = Some st \<and> \<not> isFiniteRtaStatus st \<and>
         (\<forall>k. glookup E s' k = (if k = ?k then Some (AnyInt (us_Status u)) else glookup E s k)))"
    using assms sig
    by (auto simp: updateSaleStatusHandler_def g rta_simps Let_def split: option.splits if_splits)
  then show ?thesis using g sig by (auto simp: fun_eq_iff)
qed

theorem final_status_kept_witness:
  "let E = demo_rta (demo_codec\<lparr>get_Broadcast := (\<lambda>_. Some \<lparr>bc_sender_address = [], bc_callback_uri = [],
             bc_data = ''data''\<rparr>), b64_Status := (\<lambda>_. Some (status_broadcast (demo_rta demo_codec) ''pid'' 4 demo_sn))\<rparr>);
       (s', oc) = updateSaleStatusHandler E ([] :: vars_t) empty_Input (demo_state [(''pid:status'', AnyInt 3)])
   in glookup E s' ''pid:status'' = Some (AnyInt 3)"
proof -
  let ?E = "demo_rta (demo_codec\<lparr>get_Broadcast := (\<lambda>_. Some \<lparr>bc_sender_address = [], bc_callback_uri = [],
      bc_data = ''data''\<rparr>), b64_Status := (\<lambda>_. Some (status_broadcast (demo_rta demo_codec) ''pid'' 4 demo_sn))\<rparr>)"
  let ?s = "demo_state [(''pid:status'', AnyInt 3)]"
  obtain s' oc where h: "updateSaleStatusHandler ?E ([] :: vars_t) empty_Input ?s = (s', oc)" by fastforce
  have "glookup ?E ?s ''pid:status'' = Some (AnyInt 3)" by (simp add: demo_lookup)
  with final_status_kept [OF demo_state_wf h] h show ?thesis
    by (auto simp: isFiniteRtaStatus_def)
qed

text \<open>
  A rejection overrides a final status. \<open>isFiniteRtaStatus\<close> is documented as \<open>no
  transition possible\<close>, but a rejection of a payment that is, say, already successful is
  acknowledged and replaces its status.
\<close>

theorem reject_overrides_final_status:
  assumes "gwf E s" "get_RejectRequest (e_codec E) (body input) = Some pid" "pid \<noteq> []"
    and "glookup E s (pid @ CONTEXT_KEY_STATUS) = Some (AnyInt (rta_int Success))"
    and "rejectSaleHandler E vars input s = (s', oc)"
  shows "oc = Ret StOk \<and> isFiniteRtaStatus (rta_int Success) \<and>
    glookup E s' (pid @ CONTEXT_KEY_STATUS) = Some (AnyInt (rta_int RejectedByPOS))"
  using assms by (auto simp: rejectSaleHandler_def reject_with_def rta_simps isFiniteRtaStatus_def)

theorem reject_overrides_final_status_witness:
  "let E = demo_rta (demo_codec\<lparr>get_RejectRequest := (\<lambda>_. Some ''pid'')\<rparr>);
       (s', oc) = rejectSaleHandler E ([] :: vars_t) empty_Input (demo_state [(''pid:status'', AnyInt 3)])
   in glookup E s' (''pid'' @ CONTEXT_KEY_STATUS) = Some (AnyInt 6)"
proof -
  let ?E = "demo_rta (demo_codec\<lparr>get_RejectRequest := (\<lambda>_. Some ''pid'')\<rparr>)"
  let ?s = "demo_state [(''pid:status'', AnyInt 3)]"
  obtain s' oc where h: "rejectSaleHandler ?E ([] :: vars_t) empty_Input ?s = (s', oc)" by fastforce
  from reject_overrides_final_status [OF demo_state_wf _ _ _ h, where pid = "''pid''"] h
  show ?thesis by (simp add: demo_lookup)
qed

end
