(* ===== verification/Rta_Authorize.thy ===== *)
theory Rta_Authorize
  imports Rta_Sale
begin

text \<open>
  Authorisation of a transaction by the sample (src/supernode/requests/authorize\_rta\_tx.cpp)
  and the raw transaction request it ends in (send\_raw\_tx.cpp). Each member of the sample
  signs its verdict and multicasts it; every member counts the verdicts of a transaction in
  the global context until it is approved, and then pushed to the pool, or rejected.
  Assertions are taken as switched off.
\<close>

section \<open>Raw transactions\<close>

definition createSendRawTxRequest where
  "createSendRawTxRequest E tx = \<lparr>rq_tx_as_hex = e_tx_hex E tx, rq_do_not_relay = False\<rparr>"

definition sendRawTxHandler where
  "sendRawTxHandler E vars input s =
     (if \<not> has_local ''sendRawTxHandler'' s
      then (case get_RawTxRequest (e_codec E) (body input) of
              None \<Rightarrow> (s, Throw ''Json parse error'')
            | Some req \<Rightarrow> (set_local ''sendRawTxHandler'' (AnyBool True) (load_out E (RawTxRequest req) s), Ret StForward))
      else (case get_RawTxResponse (e_codec E) (body input) of
              None \<Rightarrow> (s, Throw ''Json parse error'')
            | Some resp \<Rightarrow>
                if rs_status resp = ''OK'' then (load_out E (RawTxResponse resp) s, Ret StOk)
                else (load_out E (ErrorResponse ERROR_INTERNAL_ERROR (rs_reason resp)) s, Ret StError)))"

section \<open>Verdicts\<close>

abbreviation RTA_VOTES_TO_REJECT :: nat where "RTA_VOTES_TO_REJECT \<equiv> 1"

abbreviation PATH_RESPONSE where "PATH_RESPONSE \<equiv> ''/cryptonode/authorize_rta_tx_response''"

definition contains_id :: "SupernodeSignature list \<Rightarrow> string \<Rightarrow> bool" where
  "contains_id v i \<longleftrightarrow> find (\<lambda>item. ss_id_key item = i) v \<noteq> None"

definition alreadyApproved where "alreadyApproved r i \<longleftrightarrow> contains_id (ra_approved r) i"

definition alreadyRejected where "alreadyRejected r i \<longleftrightarrow> contains_id (ra_rejected r) i"

definition no_votes :: RtaAuthResult where "no_votes = \<lparr>ra_approved = [], ra_rejected = []\<rparr>"

definition auth_msg where "auth_msg tx_id result = tx_id @ '':'' @ int_to_string result"

definition signAuthResponse where
  "signAuthResponse E arg sn =
     arg\<lparr>ar_signature :=
       \<lparr>ss_id_key = idKeyAsString (e_crypto E) sn,
        ss_result_signature = signed_hex E sn (auth_msg (ar_tx_id arg) (ar_result arg)),
        ss_tx_signature =
          (case hex_to_hash (e_crypto E) (ar_tx_id arg) of
             None \<Rightarrow> e_indet E
           | Some tx_id \<Rightarrow>
               (case signHash (e_crypto E) sn tx_id of
                  None \<Rightarrow> e_indet E | Some sign \<Rightarrow> sg_to_hex (e_crypto E) sign))\<rparr>\<rparr>"

definition validateAuthResponse where
  "validateAuthResponse E arg \<longleftrightarrow>
     (case hex_to_sg (e_crypto E) (ss_result_signature (ar_signature arg)) of
        None \<Rightarrow> False
      | Some sign_result \<Rightarrow>
          (case hex_to_sg (e_crypto E) (ss_tx_signature (ar_signature arg)) of
             None \<Rightarrow> False
           | Some sign_tx_id \<Rightarrow>
               (case hex_to_hash (e_crypto E) (ar_tx_id arg) of
                  None \<Rightarrow> False
                | Some tx_id \<Rightarrow>
                    let id_key = (case hex_to_pk (e_crypto E) (ss_id_key (ar_signature arg)) of
                                    None \<Rightarrow> e_indet_pk E | Some k \<Rightarrow> k)
                    in verifySignature (e_crypto E) (auth_msg (ar_tx_id arg) (ar_result arg)) id_key sign_result \<and>
                       verifyHash (e_crypto E) tx_id id_key sign_tx_id)))"

section \<open>The request to authorise\<close>

definition storeRequestAndReplyOk where
  "storeRequestAndReplyOk E input s0 =
     noexcept (let s = set_local ''request'' (AnyStr (body input)) s0 in
      case get_Multicast (e_codec E) (body input) of
        None \<Rightarrow> errorCustomError E (''failed to parse request: '' @ body input) ERROR_INVALID_REQUEST s
      | Some req \<Rightarrow>
          with_global E as_Supernode CONTEXT_KEY_SUPERNODE (AnySupernode None) s (\<lambda>supernode s.
            case b64_AuthRequest (e_codec E) (mc_data req) of
              None \<Rightarrow> errorInvalidParams E s
            | Some authReq \<Rightarrow> (load_out E (JResult STATUS_OK) s, Ret StAgain)))"

text \<open>\<^verbatim>\<open>Supernode::getAmountFromTx\<close> always returns false.\<close>

definition getAmountFromTx :: "'tx \<Rightarrow> u64 option" where
  "getAmountFromTx tx = None"

definition handleTxAuthRequest where
  "handleTxAuthRequest E s =
     noexcept (if \<not> has_local ''request'' s then (s, Ret StError)
      else with_local as_str ''request'' s (\<lambda>request s.
        case get_Multicast (e_codec E) request of
          None \<Rightarrow> errorCustomError E (''failed to parse request: '' @ request) ERROR_INVALID_REQUEST s
        | Some req \<Rightarrow>
            with_global E as_Supernode CONTEXT_KEY_SUPERNODE (AnySupernode None) s (\<lambda>supernode s.
            case b64_AuthRequest (e_codec E) (mc_data req) of
              None \<Rightarrow> errorInvalidParams E s
            | Some authReq \<Rightarrow>
            (case Option.bind (e_hex_to_blob E (aq_tx_hex authReq)) (e_parse_tx E) of
               None \<Rightarrow> errorInvalidTransaction E (aq_tx_hex authReq) s
             | Some (tx, tx_hash) \<Rightarrow>
                 let tx_id_str = hash_to_hex (e_crypto E) tx_hash in
                 with_hasKey E (tx_id_str @ CONTEXT_KEY_TX_BY_TXID) s (\<lambda>processed s.
                 if processed then errorCustomError E ''tx already processed'' ERROR_INVALID_PARAMS s
                 else
                   let s1 = set_global E (tx_id_str @ CONTEXT_KEY_AMOUNT_BY_TX_ID) (AnyU64 (aq_amount authReq)) RTA_TX_TTL s in
                   deref supernode s1 (\<lambda>sn.
                   case getAmountFromTx tx of
                     None \<Rightarrow> errorCustomError E ''can't parse supernode fee for tx'' ERROR_INVALID_PARAMS s1
                   | Some amount \<Rightarrow>
                       let authResponse = signAuthResponse E
                             \<lparr>ar_tx_id = tx_id_str,
                              ar_result = auth_int (if amount > 0 \<and> e_tx_is_rta E tx then Approved else Rejected),
                              ar_signature = \<lparr>ss_id_key = [], ss_result_signature = [], ss_tx_signature = []\<rparr>\<rparr> sn;
                           s2 = set_global E (tx_id_str @ CONTEXT_KEY_TX_BY_TXID) (AnyTx tx) RTA_TX_TTL s1;
                           s3 = set_global E (tx_id_str @ CONTEXT_KEY_PAYMENT_ID_BY_TXID)
                                  (AnyStr (aq_payment_id authReq)) RTA_TX_TTL s2;
                           s4 = set_local ''payment_id'' (AnyStr (aq_payment_id authReq)) s3;
                           m = \<lparr>mc_sender_address = idKeyAsString (e_crypto E) sn,
                                mc_receiver_addresses = mc_receiver_addresses req, mc_callback_uri = PATH_RESPONSE,
                                mc_data = print_b64 (e_codec E) (PAuthResponse authResponse)\<rparr>
                       in (set_path ''/json_rpc/rta'' (load_out E (JMulticast m) s4), Ret StForward)))))))"

definition handleCryptonodeMulticastStatus where
  "handleCryptonodeMulticastStatus E input s =
     (if bad_reply E input then errorInternalError E ''Error multicasting request'' s
      else with_local as_str ''payment_id'' s (\<lambda>payment_id_local s.
        (load_out E (JResult STATUS_OK) s, Ret StOk)))"

abbreviation RtaAuthRequestHandlerState :: string where
  "RtaAuthRequestHandlerState \<equiv> ''RtaAuthRequestHandlerState''"

abbreviation RtaAuthResponseHandlerState :: string where
  "RtaAuthResponseHandlerState \<equiv> ''RtaAuthResponseHandlerState''"

definition authorizeRtaTxRequestHandler where
  "authorizeRtaTxRequestHandler E vars input s =
     noexcept (try_catch
       (with_state RtaAuthRequestHandlerState ''authorizeRtaTxRequestHandler'' s (\<lambda>state s.
          if state = 0
          then storeRequestAndReplyOk E input
                 (set_local ''authorizeRtaTxRequestHandler'' (AnyState RtaAuthRequestHandlerState 1) s)
          else if state = 1
          then handleTxAuthRequest E
                 (set_local ''authorizeRtaTxRequestHandler'' (AnyState RtaAuthRequestHandlerState 2) s)
          else if state = 2 then handleCryptonodeMulticastStatus E input s
          else errorInternalError E (''authorize_rta_tx_request: unhandled state: '' @ int_to_string state) s))
       (\<lambda>_. errorInternalError E ''exception thrown''))"

section \<open>Counting the verdicts\<close>

definition rta_votes_to_approve :: "u64 \<Rightarrow> u64 \<Rightarrow> nat" where
  "rta_votes_to_approve COIN tx_amount = (if tx_amount div COIN > 100 then 4 else 2)"

definition add_vote :: "int \<Rightarrow> SupernodeSignature \<Rightarrow> RtaAuthResult \<Rightarrow> RtaAuthResult" where
  "add_vote result sig r =
     (if result = auth_int Approved then r\<lparr>ra_approved := ra_approved r @ [sig]\<rparr>
      else r\<lparr>ra_rejected := ra_rejected r @ [sig]\<rparr>)"

text \<open>
  After the verdict is stored: rejection first, then approval, otherwise wait. The rejecting
  branch writes its next state into the global context, the approving one into the local
  context under this function's own name.
\<close>

definition decide_votes where
  "decide_votes E rtaAuthResp payment_id supernode authResult s =
     with_hasKey E (ar_tx_id rtaAuthResp @ CONTEXT_KEY_AMOUNT_BY_TX_ID) s (\<lambda>have_amount s.
     if \<not> have_amount
     then errorCustomError E (''no amount found for tx id: '' @ ar_tx_id rtaAuthResp) ERROR_INTERNAL_ERROR s
     else with_global E as_u64 (ar_tx_id rtaAuthResp @ CONTEXT_KEY_AMOUNT_BY_TX_ID) (AnyU64 0) s (\<lambda>tx_amount s.
     with_hasKey E (ar_tx_id rtaAuthResp @ CONTEXT_KEY_TX_BY_TXID) s (\<lambda>have_tx s.
     if \<not> have_tx
     then errorCustomError E (''rta auth response processed but no tx found for tx id: '' @ ar_tx_id rtaAuthResp)
            ERROR_INTERNAL_ERROR s
     else if length (ra_rejected authResult) \<ge> RTA_VOTES_TO_REJECT
     then let s1 = set_global E ''handleRtaAuthResponseMulticast'' (AnyState RtaAuthResponseHandlerState 2) 0 s;
              s2 = set_global E (payment_id @ CONTEXT_KEY_STATUS) (AnyInt (rta_int Fail)) RTA_TX_TTL s1
          in deref supernode s2 (\<lambda>sn.
               (buildBroadcastSaleStatusOutput E payment_id (rta_int Fail) sn s2, Ret StForward))
     else if length (ra_approved authResult) \<ge> rta_votes_to_approve (e_COIN E) tx_amount
     then with_global E as_Tx (ar_tx_id rtaAuthResp @ CONTEXT_KEY_TX_BY_TXID) (AnyTx (e_no_tx E))
            (set_local CONTEXT_TX_ID (AnyStr (ar_tx_id rtaAuthResp)) s) (\<lambda>tx s.
          deref supernode s (\<lambda>sn.
            (set_local ''handleRtaAuthResponseMulticast'' (AnyState RtaAuthResponseHandlerState 1)
               (set_path ''/sendrawtransaction''
                 (load_out E (RawTxRequest (createSendRawTxRequest E tx)) s)), Ret StForward)))
     else (load_out E (JResult STATUS_OK) s, Ret StOk))))"

definition handleRtaAuthResponseMulticast where
  "handleRtaAuthResponseMulticast E input s0 =
     try_catch
       (case get_Multicast (e_codec E) (body input) of
          None \<Rightarrow> errorCustomError E (''failed to parse request: '' @ body input) ERROR_INVALID_REQUEST s0
        | Some req \<Rightarrow>
            (case b64_AuthResponse (e_codec E) (mc_data req) of
               None \<Rightarrow> errorInvalidParams E s0
             | Some rtaAuthResp \<Rightarrow>
                 with_global E as_Supernode CONTEXT_KEY_SUPERNODE (AnySupernode None) s0 (\<lambda>supernode s.
                 let result = ar_result rtaAuthResp in
                 if result \<noteq> auth_int Approved \<and> result \<noteq> auth_int Rejected then errorInvalidParams E s
                 else
                 let ctx_payment_id_key = ar_tx_id rtaAuthResp @ CONTEXT_KEY_PAYMENT_ID_BY_TXID in
                 with_hasKey E ctx_payment_id_key s (\<lambda>known s.
                 if \<not> known
                 then errorCustomError E (''unknown tx: '' @ ar_tx_id rtaAuthResp) ERROR_INTERNAL_ERROR s
                 else with_global E as_str ctx_payment_id_key (AnyStr []) s (\<lambda>payment_id s.
                 let s1 = set_local ''payment_id'' (AnyStr payment_id) s in
                 if \<not> validateAuthResponse E rtaAuthResp
                 then errorCustomError E ''failed to validate signature for rta auth response'' ERROR_RTA_SIGNATURE_FAILED s1
                 else
                 let ctx_tx_to_auth_resp = ar_tx_id rtaAuthResp @ CONTEXT_KEY_AUTH_RESULT_BY_TXID;
                     count = (\<lambda>authResult s.
                       if alreadyApproved authResult (ss_id_key (ar_signature rtaAuthResp)) \<or>
                          alreadyRejected authResult (ss_id_key (ar_signature rtaAuthResp))
                       then errorCustomError E (''supernode: '' @ ss_id_key (ar_signature rtaAuthResp) @ '' already processed'')
                              ERROR_ADDRESS_INVALID s
                       else
                         let authResult' = add_vote result (ar_signature rtaAuthResp) authResult in
                         decide_votes E rtaAuthResp payment_id supernode authResult'
                           (set_global E ctx_tx_to_auth_resp (AnyAuthResult authResult') RTA_TX_TTL s))
                 in with_hasKey E ctx_tx_to_auth_resp s1 (\<lambda>have s.
                      if have then with_global E as_AuthResult ctx_tx_to_auth_resp (AnyAuthResult no_votes) s count
                      else count no_votes s))))))
       (\<lambda>e. errorInternalError E (''exception in cryptonode/authorize_rta_tx_response handler: '' @ e))"

definition handleCryptonodeTxPushResponse where
  "handleCryptonodeTxPushResponse E input s =
     with_local as_str ''payment_id'' s (\<lambda>payment_id_local s.
     with_local as_str CONTEXT_TX_ID s (\<lambda>tx_id s.
     if tx_id = [] then (s, Crash)
     else with_global E as_str (tx_id @ CONTEXT_KEY_PAYMENT_ID_BY_TXID) (AnyStr []) s (\<lambda>payment_id s.
     with_global E as_int (payment_id @ CONTEXT_KEY_STATUS) (AnyInt (rta_int RtaNone)) s (\<lambda>status s.
     if status = rta_int RtaNone then errorInvalidParams E s
     else
     (case get_RawTxResponse (e_codec E) (body input) of
        None \<Rightarrow> errorInvalidParams E s
      | Some resp \<Rightarrow>
          if status = rta_int Success \<or> status = rta_int Fail \<or> status = rta_int RejectedByPOS \<or>
             status = rta_int RejectedByWallet
          then sendOkResponseToCryptonode E s
          else if rs_status resp \<noteq> ''OK'' \<and> rs_double_spend resp then sendOkResponseToCryptonode E s
          else
            let new_status = (if rs_status resp \<noteq> ''OK'' then rta_int Fail else rta_int Success) in
            with_global E as_Supernode CONTEXT_KEY_SUPERNODE (AnySupernode None) s (\<lambda>supernode s.
            deref supernode s (\<lambda>sn.
              (set_local ''handleCryptonodeTxPushResponse'' (AnyState RtaAuthResponseHandlerState 2)
                 (buildBroadcastSaleStatusOutput E payment_id new_status sn s), Ret StForward))))))))"

definition handleStatusBroadcastResponse where
  "handleStatusBroadcastResponse E input s =
     with_local as_str ''payment_id'' s (\<lambda>payment_id_local s.
       if bad_reply E input then errorCustomError E ''Error broadcasting status'' ERROR_INTERNAL_ERROR s
       else (load_out E (JResult STATUS_OK) s, Ret StOk))"

definition authorizeRtaTxResponseHandler where
  "authorizeRtaTxResponseHandler E vars input s =
     try_catch
       (with_state RtaAuthResponseHandlerState ''authorizeRtaTxResponseHandler'' s (\<lambda>state s.
          if state = 0
          then handleRtaAuthResponseMulticast E input
                 (set_local ''authorizeRtaTxResponseHandler'' (AnyState RtaAuthResponseHandlerState 1) s)
          else if state = 1
          then handleCryptonodeTxPushResponse E input
                 (set_local ''authorizeRtaTxResponseHandler'' (AnyState RtaAuthResponseHandlerState 2) s)
          else if state = 2 then handleStatusBroadcastResponse E input s
          else (s, Crash)))
       (\<lambda>_. errorInternalError E ''exception thrown'')"

section \<open>Properties\<close>

lemma try_catch_Ret [simp]: "try_catch (s, Ret st) h = (s, Ret st)" by (simp add: try_catch_def)
lemma try_catch_Throw [simp]: "try_catch (s, Throw e) h = h e s" by (simp add: try_catch_def)
lemma noexcept_Ret [simp]: "noexcept (s, Ret st) = (s, Ret st)" by (simp add: noexcept_def)

lemma buildBroadcast_simps [rta_simps]:
  "gwf E (buildBroadcastSaleStatusOutput E pid st sn s) = gwf E s"
  "glookup E (buildBroadcastSaleStatusOutput E pid st sn s) k = glookup E s k"
  "h_ctx (buildBroadcastSaleStatusOutput E pid st sn s) = h_ctx s"
  by (simp_all add: buildBroadcastSaleStatusOutput_def rta_simps)

lemma auth_key_ne [simp]:
  "q @ '':tx_id_to_auth_resp'' \<noteq> p @ '':tx_id_to_amount''" "q @ '':tx_id_to_auth_resp'' \<noteq> p @ '':tx_id_to_tx''"
  "q @ '':tx_id_to_auth_resp'' \<noteq> p @ '':tx_id_to_payment_id''"
  "q @ '':tx_id_to_amount'' \<noteq> p @ '':tx_id_to_tx''" "q @ '':tx_id_to_payment_id'' \<noteq> p @ '':tx_id_to_tx''"
  "q @ '':tx_id_to_auth_resp'' \<noteq> ''handleRtaAuthResponseMulticast''"
  "q @ '':status'' \<noteq> ''handleRtaAuthResponseMulticast''"
  by (auto dest!: key_suffixes key_suffixes [OF sym] key_suffix)

lemmas auth_key_ne' [simp] = auth_key_ne [symmetric]

text \<open>
  A vote on a transaction the node knows: its payment, amount and body are in the context.
\<close>

definition known_tx where
  "known_tx E s tx_id pid amount tx \<longleftrightarrow>
     glookup E s (tx_id @ CONTEXT_KEY_PAYMENT_ID_BY_TXID) = Some (AnyStr pid) \<and>
     glookup E s (tx_id @ CONTEXT_KEY_AMOUNT_BY_TX_ID) = Some (AnyU64 amount) \<and>
     glookup E s (tx_id @ CONTEXT_KEY_TX_BY_TXID) = Some (AnyTx tx)"

definition votes_of where
  "votes_of E s tx_id =
     (case glookup E s (tx_id @ CONTEXT_KEY_AUTH_RESULT_BY_TXID) of Some (AnyAuthResult r) \<Rightarrow> r | _ \<Rightarrow> no_votes)"

lemma decide_votes_cases:
  assumes "gwf E s" "glookup E s (ar_tx_id resp @ CONTEXT_KEY_AMOUNT_BY_TX_ID) = Some (AnyU64 amount)"
    and "glookup E s (ar_tx_id resp @ CONTEXT_KEY_TX_BY_TXID) = Some (AnyTx tx)"
    and "q = gtouch E (ar_tx_id resp @ CONTEXT_KEY_TX_BY_TXID) (gtouch E (ar_tx_id resp @ CONTEXT_KEY_AMOUNT_BY_TX_ID)
           (gtouch E (ar_tx_id resp @ CONTEXT_KEY_AMOUNT_BY_TX_ID) s))"
  shows "decide_votes E resp pid (Some p) new s =
    (if ra_rejected new \<noteq> []
     then (buildBroadcastSaleStatusOutput E pid (rta_int Fail) (sn_heap (g_fsl (h_g s)) p)
             (set_global E (pid @ CONTEXT_KEY_STATUS) (AnyInt (rta_int Fail)) RTA_TX_TTL
               (set_global E ''handleRtaAuthResponseMulticast'' (AnyState RtaAuthResponseHandlerState 2) 0 q)), Ret StForward)
     else if length (ra_approved new) \<ge> rta_votes_to_approve (e_COIN E) amount
     then (set_local ''handleRtaAuthResponseMulticast'' (AnyState RtaAuthResponseHandlerState 1)
             (set_path ''/sendrawtransaction'' (load_out E (RawTxRequest (createSendRawTxRequest E tx))
               (gtouch E (ar_tx_id resp @ CONTEXT_KEY_TX_BY_TXID)
                 (set_local CONTEXT_TX_ID (AnyStr (ar_tx_id resp)) q)))), Ret StForward)
     else (load_out E (JResult STATUS_OK) q, Ret StOk))"
proof -
  have len: "Suc 0 \<le> length (ra_rejected new) \<longleftrightarrow> ra_rejected new \<noteq> []" by (cases "ra_rejected new") auto
  show ?thesis
    by (simp add: decide_votes_def rta_simps Let_def deref_def len assms)
qed

text \<open>A new vote with valid signatures goes to the decision, with the vote stored.\<close>

lemma vote_reaches_decision:
  assumes "gwf E s" "\<not> has_local ''authorizeRtaTxResponseHandler'' s"
    and "glookup E s ''supernode'' = Some (AnySupernode (Some p))"
    and "get_Multicast (e_codec E) (body input) = Some m" "b64_AuthResponse (e_codec E) (mc_data m) = Some resp"
    and "ar_result resp \<in> {auth_int Approved, auth_int Rejected}"
    and "known_tx E s (ar_tx_id resp) pid amount tx"
    and "glookup E s (ar_tx_id resp @ CONTEXT_KEY_AUTH_RESULT_BY_TXID) \<in> {None, Some (AnyAuthResult old)}"
    and "validateAuthResponse E resp"
    and "\<not> contains_id (ra_approved (votes_of E s (ar_tx_id resp)) @ ra_rejected (votes_of E s (ar_tx_id resp)))
           (ss_id_key (ar_signature resp))"
    and "new = add_vote (ar_result resp) (ar_signature resp) (votes_of E s (ar_tx_id resp))"
  shows "\<exists>s5. authorizeRtaTxResponseHandler E vars input s = decide_votes E resp pid (Some p) new s5 \<and>
    gwf E s5 \<and> (\<forall>k. glookup E s5 k = (if k = ar_tx_id resp @ CONTEXT_KEY_AUTH_RESULT_BY_TXID
      then Some (AnyAuthResult new) else glookup E s k)) \<and> g_fsl (h_g s5) = g_fsl (h_g s) \<and> h_out s5 = h_out s \<and>
    local_map s5 = (local_map s)(''authorizeRtaTxResponseHandler'' \<mapsto> AnyState RtaAuthResponseHandlerState 1,
      ''payment_id'' \<mapsto> AnyStr pid)"
proof -
  let ?i = "ss_id_key (ar_signature resp)" and ?t = "ar_tx_id resp"
  let ?v = "votes_of E s ?t"
  note kt = assms(7) [unfolded known_tx_def]
  have nv: "\<not> alreadyApproved ?v ?i" "\<not> alreadyRejected ?v ?i"
    using assms(10) by (auto simp: alreadyApproved_def alreadyRejected_def contains_id_def find_None_iff)
  have ok: "\<not> (ar_result resp \<noteq> auth_int Approved \<and> ar_result resp \<noteq> auth_int Rejected)" using assms(6) by auto
  let ?s1 = "set_local ''authorizeRtaTxResponseHandler'' (AnyState RtaAuthResponseHandlerState 1) s"
  let ?s2 = "gtouch E (?t @ CONTEXT_KEY_PAYMENT_ID_BY_TXID) (gtouch E (?t @ CONTEXT_KEY_PAYMENT_ID_BY_TXID)
      (gtouch E ''supernode'' ?s1))"
  let ?s3 = "gtouch E (?t @ CONTEXT_KEY_AUTH_RESULT_BY_TXID) (set_local ''payment_id'' (AnyStr pid) ?s2)"
  let ?s4 = "if glookup E s (?t @ CONTEXT_KEY_AUTH_RESULT_BY_TXID) = None then ?s3
      else gtouch E (?t @ CONTEXT_KEY_AUTH_RESULT_BY_TXID) ?s3"
  let ?s5 = "set_global E (?t @ CONTEXT_KEY_AUTH_RESULT_BY_TXID) (AnyAuthResult new) RTA_TX_TTL ?s4"
  have h: "authorizeRtaTxResponseHandler E vars input s =
      try_catch (try_catch (decide_votes E resp pid (Some p) new ?s5)
        (\<lambda>e. errorInternalError E (''exception in cryptonode/authorize_rta_tx_response handler: '' @ e)))
        (\<lambda>_. errorInternalError E ''exception thrown'')"
    using assms(1,3,8) kt ok nv
    by (auto simp: authorizeRtaTxResponseHandler_def with_state_def assms(2) handleRtaAuthResponseMulticast_def
        assms(4,5,9) rta_simps Let_def assms(11) votes_of_def)
  obtain s5 where s5: "s5 = ?s5" by blast
  have f: "gwf E s5" "\<And>k. glookup E s5 k = (if k = ?t @ CONTEXT_KEY_AUTH_RESULT_BY_TXID
      then Some (AnyAuthResult new) else glookup E s k)" "g_fsl (h_g s5) = g_fsl (h_g s)" "h_out s5 = h_out s"
      "local_map s5 = (local_map s)(''authorizeRtaTxResponseHandler'' \<mapsto> AnyState RtaAuthResponseHandlerState 1,
        ''payment_id'' \<mapsto> AnyStr pid)"
    using assms(1) unfolding s5 by (simp_all add: rta_simps)
  have "glookup E s5 (?t @ CONTEXT_KEY_AMOUNT_BY_TX_ID) = Some (AnyU64 amount)"
    "glookup E s5 (?t @ CONTEXT_KEY_TX_BY_TXID) = Some (AnyTx tx)" using kt f by auto
  from h decide_votes_cases [OF f(1) this refl, of pid p new] f show ?thesis
    unfolding s5 [symmetric] by (intro exI [of _ s5]) (simp split: if_split)
qed





lemma signed_response_valid:
  assumes "hex_codec_ok (e_crypto E)" "signatures_ok (e_crypto E)"
    and "keys_ok (e_crypto E) sn" "m_has_secret_key sn"
    and "hex_to_hash (e_crypto E) (ar_tx_id arg) = Some h"
  shows "validateAuthResponse E (signAuthResponse E arg sn)"
  using assms
  by (auto simp: validateAuthResponse_def signAuthResponse_def signed_hex_def signMessage_def signHash_def
      idKeyAsString_def verifySignature_def verifyHash_def hex_codec_ok_def signatures_ok_def keys_ok_def Let_def)

definition demo_verdict :: AuthorizeRtaTxResponse where
  "demo_verdict = signAuthResponse (demo_rta demo_codec)
     \<lparr>ar_tx_id = ''0t'', ar_result = 1, ar_signature = \<lparr>ss_id_key = [], ss_result_signature = [], ss_tx_signature = []\<rparr>\<rparr>
     demo_sn"

definition demo_auth :: "(string, string, string, string, nat, nat) env" where
  "demo_auth = demo_rta (demo_codec\<lparr>get_Multicast := (\<lambda>_. Some (demo_multicast ''d'')),
     b64_AuthResponse := (\<lambda>_. Some demo_verdict)\<rparr>)"

definition demo_auth_state :: "(string, string, nat) hst" where
  "demo_auth_state = demo_state [(''0t'' @ CONTEXT_KEY_PAYMENT_ID_BY_TXID, AnyStr ''pid''),
     (''0t'' @ CONTEXT_KEY_AMOUNT_BY_TX_ID, AnyU64 7), (''0t'' @ CONTEXT_KEY_TX_BY_TXID, AnyTx 5)]"

lemma demo_verdict_simps:
  "ar_tx_id demo_verdict = ''0t''" "ar_result demo_verdict = 1" "validateAuthResponse demo_auth demo_verdict"
  "get_Multicast (e_codec demo_auth) b = Some (demo_multicast ''d'')"
  "b64_AuthResponse (e_codec demo_auth) d = Some demo_verdict"
proof -
  have "keys_ok demo_crypto demo_sn" "m_has_secret_key demo_sn"
    by (simp_all add: keys_ok_def demo_sn_def initKeys_def demo_crypto_def)
  then have "validateAuthResponse (demo_rta demo_codec) demo_verdict"
    unfolding demo_verdict_def
    by (intro signed_response_valid [where h = "''t''"]) (simp_all add: demo_crypto_ok, simp add: demo_crypto_def)
  moreover have "e_crypto demo_auth = e_crypto (demo_rta demo_codec)"
    "e_indet_pk demo_auth = e_indet_pk (demo_rta demo_codec)"
    by (simp_all add: demo_auth_def demo_rta_def)
  ultimately show "validateAuthResponse demo_auth demo_verdict"
    unfolding validateAuthResponse_def by presburger
qed (simp_all add: demo_verdict_def demo_auth_def signAuthResponse_def)

lemma demo_auth_lookup:
  "gwf demo_auth demo_auth_state" "known_tx demo_auth demo_auth_state ''0t'' ''pid'' 7 5"
  "glookup demo_auth demo_auth_state ''supernode'' = Some (AnySupernode (Some 0))"
  "glookup demo_auth demo_auth_state (''0t'' @ CONTEXT_KEY_AUTH_RESULT_BY_TXID) = None"
  "local_map demo_auth_state = Map.empty"
  by (simp_all add: demo_auth_def demo_auth_state_def demo_state_wf known_tx_def demo_lookup)


text \<open>
  Verdicts are accepted. A verdict signed by a supernode with a consistent key pair, on a
  transaction id that is a printed hash, passes the validation of every receiver.
\<close>

theorem auth_response_roundtrip:
  assumes "hex_codec_ok (e_crypto E)" "signatures_ok (e_crypto E)"
    and "keys_ok (e_crypto E) sn" "m_has_secret_key sn" "ar_tx_id arg = hash_to_hex (e_crypto E) h"
  shows "validateAuthResponse E (signAuthResponse E arg sn) \<and>
    ss_id_key (ar_signature (signAuthResponse E arg sn)) = idKeyAsString (e_crypto E) sn"
  using assms(1) signed_response_valid [OF assms(1-4), of arg h]
  by (simp add: assms(5) hex_codec_ok_def signAuthResponse_def)

theorem auth_response_roundtrip_witness:
  "validateAuthResponse (demo_rta demo_codec) demo_verdict"
proof -
  have "keys_ok demo_crypto demo_sn" "m_has_secret_key demo_sn"
    by (simp_all add: keys_ok_def demo_sn_def initKeys_def demo_crypto_def)
  then show ?thesis
    unfolding demo_verdict_def
    using auth_response_roundtrip [where E = "demo_rta demo_codec" and sn = demo_sn and h = "''t''" and
        arg = "\<lparr>ar_tx_id = ''0t'', ar_result = 1, ar_signature = \<lparr>ss_id_key = [], ss_result_signature = [], ss_tx_signature = []\<rparr>\<rparr>"]
    by (simp add: demo_crypto_ok demo_crypto_def [THEN arg_cong, of hash_to_hex])
qed

text \<open>
  The reply to a rejection's broadcast is mishandled. When a verdict has rejected a
  transaction and the handler has forwarded the broadcast of the status Fail, the
  cryptonode's reply is taken for the reply to a pushed transaction, because the next state
  was written to the global context: the transaction id is missing in the local context, the
  conversion throws, and the request is answered with an internal error, whatever the reply.
\<close>

theorem rejection_reply_fails:
  assumes "gwf E s" "\<not> has_local ''authorizeRtaTxResponseHandler'' s" "\<not> has_local CONTEXT_TX_ID s"
    and "glookup E s ''supernode'' = Some (AnySupernode (Some p))"
    and "get_Multicast (e_codec E) (body input) = Some m" "b64_AuthResponse (e_codec E) (mc_data m) = Some resp"
    and "ar_result resp = auth_int Rejected"
    and "known_tx E s (ar_tx_id resp) pid amount tx"
    and "glookup E s (ar_tx_id resp @ CONTEXT_KEY_AUTH_RESULT_BY_TXID) = None"
    and "validateAuthResponse E resp"
    and "authorizeRtaTxResponseHandler E vars input s = (s1, oc)"
    and "authorizeRtaTxResponseHandler E vars2 reply s1 = (s2, oc2)"
  shows "oc = Ret StForward \<and> oc2 = Ret StError \<and>
    body (h_out s2) = print_msg (e_codec E) (JErrorResponse ERROR_INTERNAL_ERROR ''exception thrown'')"
proof -
  let ?t = "ar_tx_id resp" and ?new = "no_votes\<lparr>ra_rejected := [ar_signature resp]\<rparr>"
  note kt = assms(8) [unfolded known_tx_def]
  have v: "votes_of E s ?t = no_votes" by (simp add: votes_of_def assms(9))
  have new: "?new = add_vote (ar_result resp) (ar_signature resp) (votes_of E s ?t)"
    by (simp add: v assms(7) add_vote_def no_votes_def)
  have c: "\<not> contains_id (ra_approved (votes_of E s ?t) @ ra_rejected (votes_of E s ?t)) i" for i
    by (simp add: v no_votes_def contains_id_def)
  have r: "ar_result resp \<in> {auth_int Approved, auth_int Rejected}" by (simp add: assms(7))
  have o: "glookup E s (?t @ CONTEXT_KEY_AUTH_RESULT_BY_TXID) \<in> {None, Some (AnyAuthResult no_votes)}"
    by (simp add: assms(9))
  from vote_reaches_decision [OF assms(1,2,4-6) r assms(8) o assms(10) c new, of vars] obtain s5
    where h: "decide_votes E resp pid (Some p) ?new s5 = (s1, oc)" and f: "gwf E s5"
      "\<forall>k. glookup E s5 k = (if k = ?t @ CONTEXT_KEY_AUTH_RESULT_BY_TXID then Some (AnyAuthResult ?new) else glookup E s k)"
      "local_map s5 = (local_map s)(''authorizeRtaTxResponseHandler'' \<mapsto> AnyState RtaAuthResponseHandlerState 1,
        ''payment_id'' \<mapsto> AnyStr pid)"
    using assms(11) by auto
  have "glookup E s5 (?t @ CONTEXT_KEY_AMOUNT_BY_TX_ID) = Some (AnyU64 amount)"
    "glookup E s5 (?t @ CONTEXT_KEY_TX_BY_TXID) = Some (AnyTx tx)" using kt f by auto
  from h decide_votes_cases [OF f(1) this refl, of pid p ?new]
  have oc: "oc = Ret StForward" and l: "local_map s1 = local_map s5" by (auto simp: rta_simps)
  have "local_map s1 CONTEXT_TX_ID = None" "local_map s1 ''payment_id'' = Some (AnyStr pid)"
    "local_map s1 ''authorizeRtaTxResponseHandler'' = Some (AnyState RtaAuthResponseHandlerState 1)"
    using assms(3) by (simp_all add: l f(3) has_local_def)
  with assms(12) oc show ?thesis
    by (auto simp: authorizeRtaTxResponseHandler_def with_state_def has_local_def with_local_def
        handleCryptonodeTxPushResponse_def rta_simps errorInternalError_def)
qed

theorem rejection_reply_fails_witness:
  "case authorizeRtaTxResponseHandler demo_auth ([] :: vars_t) empty_Input demo_auth_state of (s1, oc) \<Rightarrow>
   case authorizeRtaTxResponseHandler demo_auth ([] :: vars_t) empty_Input s1 of (s2, oc2) \<Rightarrow>
     oc = Ret StForward \<and> oc2 = Ret StError"
proof -
  obtain s1 oc where h1: "authorizeRtaTxResponseHandler demo_auth ([] :: vars_t) empty_Input demo_auth_state = (s1, oc)"
    by fastforce
  obtain s2 oc2 where h2: "authorizeRtaTxResponseHandler demo_auth ([] :: vars_t) empty_Input s1 = (s2, oc2)"
    by fastforce
  from rejection_reply_fails [where resp = demo_verdict and m = "demo_multicast ''d''" and pid = "''pid''"
      and amount = 7 and tx = 5 and p = 0, OF demo_auth_lookup(1) _ _ demo_auth_lookup(3) _ _ _ _ _ _ h1 h2]
    h1 h2 demo_auth_lookup(2,4,5)
  show ?thesis by (simp add: demo_verdict_simps has_local_def)
qed

text \<open>
  No transaction is ever voted for. Since the amount of a transaction is never found, the
  handler of the authorisation request ends in an error for every request and every state: it
  multicasts no verdict and stores no transaction.
\<close>

theorem no_verdict_is_sent:
  assumes "gwf E s" "handleTxAuthRequest E s = (s', oc)"
  shows "oc \<in> {Ret StError, Crash} \<and>
    (\<forall>k. glookup E s' k = glookup E s k \<or> (\<exists>t a. k = t @ CONTEXT_KEY_AMOUNT_BY_TX_ID \<and> glookup E s' k = Some (AnyU64 a)))"
  using assms
  by (auto simp: handleTxAuthRequest_def noexcept_def with_local_def rta_simps deref_def getAmountFromTx_def Let_def
      errorCustomError_def errorInvalidParams_def errorInvalidTransaction_def
      split: if_splits option.splits prod.splits outcome.splits)

theorem no_verdict_is_sent_witness:
  "snd (handleTxAuthRequest (demo_rta demo_codec) (demo_state [])) \<in> {Ret StError, Crash}"
proof -
  obtain s' oc where h: "handleTxAuthRequest (demo_rta demo_codec) (demo_state []) = (s', oc)" by fastforce
  from no_verdict_is_sent [OF demo_state_wf h] h show ?thesis by simp
qed

end
