(* ===== verification/Rta_Fee.thy ===== *)
theory Rta_Fee
  imports Graft_Prelude "HOL-Library.Log_Nat"
begin

text \<open>
  The fee of the authorisation sample, \<^verbatim>\<open>round(Amount * AUTHSAMPLE_FEE_PERCENTAGE / 100.0)\<close>
  (src/supernode/requests/sale\_details.cpp and pay.cpp), in IEEE double arithmetic: every
  result is rounded to 53 significant bits, to nearest with ties to even.
\<close>

section \<open>Double arithmetic\<close>

definition round_half_even :: "rat \<Rightarrow> int" where
  "round_half_even x =
     (let f = \<lfloor>x\<rfloor>; d = x - of_int f in
      if d < 1 / 2 then f else if d > 1 / 2 then f + 1 else if even f then f else f + 1)"

text \<open>
  The unit in the last place of a number of at least \<open>1 / 2 ^ 64\<close> (every number that occurs
  here, zero apart, is at least 1/200), and the number rounded to a multiple of it.
\<close>

definition ulp :: "rat \<Rightarrow> rat" where
  "ulp x = 2 ^ floorlog 2 (nat \<lfloor>x * 2 ^ 64\<rfloor>) / 2 ^ 117"

definition to_double :: "rat \<Rightarrow> rat" where
  "to_double x = (if x = 0 then 0 else of_int (round_half_even (x / ulp x)) * ulp x)"

definition AUTHSAMPLE_FEE_PERCENTAGE :: rat where "AUTHSAMPLE_FEE_PERCENTAGE = 1 / 2"

text \<open>\<^verbatim>\<open>std::round\<close> rounds halves away from zero; the argument is not negative.\<close>

definition total_fee :: "u64 \<Rightarrow> u64" where
  "total_fee amount =
     of_int \<lfloor>to_double (to_double (to_double (of_nat (unat amount)) * AUTHSAMPLE_FEE_PERCENTAGE) / 100) + 1 / 2\<rfloor>"

section \<open>Facts\<close>

lemma round_half_even_near: "\<bar>of_int (round_half_even x) - x\<bar> \<le> 1 / 2"
proof -
  have "of_int \<lfloor>x\<rfloor> \<le> x" "x < of_int \<lfloor>x\<rfloor> + 1" using floor_correct [of x] by auto
  then show ?thesis unfolding round_half_even_def Let_def abs_le_iff by auto linarith+
qed

lemma round_half_even_int [simp]: "round_half_even (of_int i) = i"
  by (simp add: round_half_even_def)

lemma ulp_pos: "0 < ulp x"
  by (simp add: ulp_def)

lemma to_double_exact: "x / ulp x = of_int i \<Longrightarrow> to_double x = x"
  using ulp_pos [of x] by (simp add: to_double_def) (metis less_irrefl nonzero_eq_divide_eq)

lemma floorlog_floor:
  fixes y :: rat
  assumes "1 \<le> y" "l = floorlog 2 (nat \<lfloor>y\<rfloor>)"
  shows "0 < l" "2 ^ l \<le> 2 * y" "y < 2 ^ l"
proof -
  have n: "0 < nat \<lfloor>y\<rfloor>" using assms(1) by simp
  then show "0 < l" unfolding assms(2) using floorlog_eq_zero_iff [of 2 "nat \<lfloor>y\<rfloor>"] by linarith
  from floorlog_bounds [OF n, of 2] assms(2) have "2 ^ (l - 1) \<le> nat \<lfloor>y\<rfloor>" "nat \<lfloor>y\<rfloor> < 2 ^ l" by auto
  then have "int (2 ^ (l - 1)) \<le> int (nat \<lfloor>y\<rfloor>)" "int (nat \<lfloor>y\<rfloor>) < int (2 ^ l)"
    by (simp_all only: of_nat_le_iff of_nat_less_iff)
  then have b: "2 ^ (l - 1) \<le> \<lfloor>y\<rfloor>" "\<lfloor>y\<rfloor> < 2 ^ l" using n by simp_all
  from b(2) show "y < 2 ^ l" by (metis floor_less_iff of_int_numeral of_int_power)
  have "(2 ^ (l - 1) :: rat) \<le> y" using b(1) by (metis le_floor_iff of_int_numeral of_int_power)
  then show "2 ^ l \<le> 2 * y" using \<open>0 < l\<close> by (cases l) auto
qed

lemma to_double_near:
  assumes "1 / 2 ^ 64 \<le> x"
  shows "\<bar>to_double x - x\<bar> \<le> x / 2 ^ 53"
proof -
  have x: "x \<noteq> 0" "0 < x" using assms by auto
  have "1 \<le> x * 2 ^ 64" using assms by (simp add: field_simps)
  from floorlog_floor(2) [OF this refl] have u: "ulp x \<le> 2 * x / 2 ^ 53"
    by (simp add: ulp_def field_simps)
  have "to_double x - x = (of_int (round_half_even (x / ulp x)) - x / ulp x) * ulp x"
    using ulp_pos [of x] x by (simp add: to_double_def left_diff_distrib)
  then have "\<bar>to_double x - x\<bar> \<le> 1 / 2 * ulp x"
    using round_half_even_near [of "x / ulp x"] ulp_pos [of x] by (simp add: abs_mult)
  with u show ?thesis by simp
qed

text \<open>A multiple of \<open>1 / 2 ^ j\<close> below \<open>2 ^ (53 - j)\<close> is a double.\<close>

lemma to_double_dyadic:
  assumes "0 < n" "n < 2 ^ 53" "j \<le> 1"
  shows "to_double (of_nat n / 2 ^ j) = of_nat n / 2 ^ j"
proof -
  let ?x = "of_nat n / 2 ^ j :: rat"
  let ?l = "floorlog 2 (nat \<lfloor>?x * 2 ^ 64\<rfloor>)"
  have j: "j = 0 \<or> j = 1" using assms(3) by auto
  then have "?x * 2 ^ 64 = of_nat (n * 2 ^ (64 - j))" by auto
  then have f: "nat \<lfloor>?x * 2 ^ 64\<rfloor> = n * 2 ^ (64 - j)" by (metis floor_of_nat nat_int)
  have "n * 2 ^ (64 - j) < 2 ^ 53 * 2 ^ (64 - j)" using assms(2) by simp
  also have "\<dots> = (2 :: nat) ^ (117 - j)" using j by auto
  finally have l: "?l \<le> 117 - j" unfolding f by (intro floorlog_leI) auto
  have "?x / ulp ?x = of_nat n * 2 ^ (117 - j) / 2 ^ ?l"
    using j by (auto simp: ulp_def)
  also have "\<dots> = of_nat n * 2 ^ (117 - j - ?l)"
  proof -
    have "(2 :: rat) ^ (117 - j) = 2 ^ (117 - j - ?l) * 2 ^ ?l" using l by (simp flip: power_add)
    then show ?thesis by simp
  qed
  finally have "?x / ulp ?x = of_int (int n * 2 ^ (117 - j - ?l))" by simp
  then show ?thesis by (rule to_double_exact)
qed

text \<open>With the division exact or almost exact, rounding gives the nearest integer of the quotient.\<close>

lemma round_quotient:
  assumes "n < 2 ^ 53"
  shows "\<lfloor>to_double (of_nat n / 200) + 1 / 2\<rfloor> = int ((n + 100) div 200)"
proof (cases "n = 0")
  case True then show ?thesis by (simp add: to_double_def floor_eq_iff)
next
  case False
  let ?x = "of_nat n / 200 :: rat"
  define q r where "q = (n + 100) div 200" and "r = (n + 100) mod 200"
  have n: "of_nat n = 200 * of_nat q + of_nat r - (100 :: rat)" and r: "r < 200"
  proof -
    have "n + 100 = 200 * q + r" by (simp add: q_def r_def)
    then have "of_nat (n + 100) = (of_nat (200 * q + r) :: rat)" by (rule arg_cong)
    then show "of_nat n = 200 * of_nat q + of_nat r - (100 :: rat)" by simp
  qed (simp add: r_def)
  show ?thesis
  proof (cases "r = 0")
    case True
    with n False have q: "0 < q" by (cases q) auto
    have x: "?x = of_nat (2 * q - 1) / 2 ^ 1" using n True q by (simp add: of_nat_diff field_simps)
    have "2 * q - 1 < 2 ^ 53" using assms by (simp add: q_def)
    then have "to_double ?x = ?x" unfolding x using q by (intro to_double_dyadic) auto
    moreover have "?x + 1 / 2 = of_nat q" using n True by (simp add: field_simps)
    ultimately show ?thesis unfolding q_def [symmetric] by (metis floor_of_nat)
  next
    case r0: False
    have "of_nat n < (2 ^ 53 :: rat)" using assms by (metis of_nat_less_iff of_nat_numeral of_nat_power)
    then have "?x / 2 ^ 53 < 1 / 200" by (simp add: field_simps)
    moreover have "\<bar>to_double ?x - ?x\<bar> \<le> ?x / 2 ^ 53"
      using False by (intro to_double_near) (simp add: field_simps)
    ultimately have e: "\<bar>to_double ?x - ?x\<bar> < 1 / 200" by linarith
    have "?x + 1 / 2 = of_nat q + of_nat r / 200" using n by (simp add: field_simps)
    moreover have "1 \<le> (of_nat r :: rat)" "of_nat r \<le> (199 :: rat)" 
      using r r0 of_nat_mono [of r 199, where 'a = rat] of_nat_mono [of 1 r, where 'a = rat] by auto
    ultimately have "of_int (int q) \<le> to_double ?x + 1 / 2" "to_double ?x + 1 / 2 < of_int (int q) + 1"
      using e unfolding abs_less_iff by (simp_all add: field_simps)
    then show ?thesis by (simp add: q_def [symmetric] floor_eq_iff)
  qed
qed

text \<open>
  The fee in floating point. For every amount below 2 to the 53rd the double arithmetic of
  the code gives exactly half a percent of the amount, rounded to the nearest unit with
  halves up; it is at most the amount, and what the eight members of the sample get together
  is the fee less at most seven units.
\<close>

theorem fee_is_exact:
  assumes "unat amount < 2 ^ 53"
  shows "unat (total_fee amount) = (unat amount + 100) div 200 \<and> total_fee amount \<le> amount \<and>
    unat (total_fee amount) - 8 * unat (total_fee amount div 8) \<le> 7"
proof -
  let ?n = "unat amount"
  have "to_double (to_double (of_nat ?n) * AUTHSAMPLE_FEE_PERCENTAGE) / 100 = of_nat ?n / 200"
  proof (cases "?n = 0")
    case False
    then have "to_double (of_nat ?n) = of_nat ?n" using to_double_dyadic [of ?n 0] assms by simp
    moreover have "to_double (of_nat ?n / 2) = of_nat ?n / 2" using to_double_dyadic [of ?n 1] assms False by simp
    ultimately show ?thesis by (simp add: AUTHSAMPLE_FEE_PERCENTAGE_def)
  qed (simp add: to_double_def)
  then have t: "total_fee amount = of_nat ((?n + 100) div 200)"
    unfolding total_fee_def by (simp only: round_quotient [OF assms] of_int_of_nat_eq)
  have "(?n + 100) div 200 < 2 ^ 64" using assms by simp
  then have u: "unat (total_fee amount) = (?n + 100) div 200"
    unfolding t by (simp add: unat_of_nat take_bit_nat_eq_self)
  moreover have "(?n + 100) div 200 \<le> ?n" by (cases "?n = 0") simp_all
  moreover have "unat (total_fee amount div 8) = unat (total_fee amount) div 8" by (simp add: unat_div)
  ultimately show ?thesis by (simp add: word_le_nat_alt)
qed

theorem fee_is_exact_witness: "unat (total_fee 12345) = 62 \<and> total_fee 12345 \<le> 12345"
  using fee_is_exact [of 12345] by simp

end
