(* ===== verification/Rta_Payment.thy ===== *)
theory Rta_Payment
  imports Rta_Authorize Rta_Fee
begin

text \<open>
  Sale details (src/supernode/requests/sale\_details.cpp), asked for by a wallet and fetched
  from a member of the sample when they are not known locally, and the payment itself
  (src/supernode/requests/pay.cpp).
\<close>

section \<open>Sale details\<close>

definition members_fee where
  "members_fee E amount sample s =
     map (\<lambda>p. \<lparr>snf_Address = m_wallet_address (sn_heap (g_fsl (h_g s)) p),
               snf_IdKey = idKeyAsString (e_crypto E) (sn_heap (g_fsl (h_g s)) p),
               snf_Fee = u64_to_string (total_fee amount div of_nat (length sample))\<rparr>) sample"

text \<open>The continuation gets the error, or the response.\<close>

definition prepareSaleDetailsResponse where
  "prepareSaleDetailsResponse E req sample s cont =
     with_hasKey E (sdq_PaymentID req @ CONTEXT_KEY_SALE) s (\<lambda>have s.
     if \<not> have
     then cont (Inl (ERROR_PAYMENT_ID_INVALID, ''sale data missing for payment: '' @ sdq_PaymentID req)) s
     else with_global E as_str (sdq_PaymentID req @ CONTEXT_KEY_SALE_DETAILS) (AnyStr []) s (\<lambda>details s.
          with_global E as_SaleData (sdq_PaymentID req @ CONTEXT_KEY_SALE)
            (AnySaleData \<lparr>sd_Address = [], sd_BlockNumber = 0, sd_Amount = 0\<rparr>) s (\<lambda>sale_data s.
          cont (Inr \<lparr>sdr_AuthSample = members_fee E (sd_Amount sale_data) sample s, sdr_Details = details\<rparr>) s)))"

text \<open>\<^verbatim>\<open>ctx.getId()\<close> draws an id when the task has none.\<close>

definition with_id where
  "with_id E s cont =
     (if m_uuid (h_ctx s) = 0 then cont (e_uuid E) (s\<lparr>h_ctx := (h_ctx s)\<lparr>m_uuid := e_uuid E\<rparr>\<rparr>)
      else cont (m_uuid (h_ctx s)) s)"

fun join_ids :: "string list \<Rightarrow> string" where
  "join_ids [] = []"
| "join_ids [i] = i"
| "join_ids (i # is) = i @ '', '' @ join_ids is"

definition no_details :: SaleDetailsResponse where
  "no_details = \<lparr>sdr_AuthSample = [], sdr_Details = []\<rparr>"

definition handleClientRequest where
  "handleClientRequest E input s =
     (case get_SaleDetailsRequest (e_codec E) (body input) of
        None \<Rightarrow> errorInvalidParams E s
      | Some req \<Rightarrow>
          if sdq_PaymentID req = [] then errorInvalidPaymentID E s
          else with_global E as_int (sdq_PaymentID req @ CONTEXT_KEY_STATUS) (AnyInt (rta_int RtaNone)) s (\<lambda>current_status s.
          case errorFinishedPayment E current_status s of (finished, s) \<Rightarrow>
          if finished then (s, Ret StError)
          else with_hasKey E (sdq_PaymentID req @ CONTEXT_SALE_DETAILS_RESULT) s (\<lambda>cached s.
          if cached
          then with_global E as_SaleDetails (sdq_PaymentID req @ CONTEXT_SALE_DETAILS_RESULT) (AnySaleDetails no_details) s
                 (\<lambda>sdr s. (load_out E (JSaleDetails sdr) s, Ret StOk))
          else with_global E as_Fsl CONTEXT_KEY_FULLSUPERNODELIST (AnyFsl False) s (\<lambda>fsl s.
          with_global E as_Supernode CONTEXT_KEY_SUPERNODE (AnySupernode None) s (\<lambda>supernode s.
          if \<not> fsl then (s, Crash)
          else case build_sample E (sdq_BlockNumber req) (sdq_PaymentID req) s of (ok, sample, blk) \<Rightarrow>
          if \<not> ok then errorBuildAuthSample E s
          else with_hasKey E (sdq_PaymentID req @ CONTEXT_KEY_SALE_DETAILS) s (\<lambda>have_data_locally s.
          if have_data_locally
          then prepareSaleDetailsResponse E req sample s (\<lambda>r s.
                 case r of Inl (code, message) \<Rightarrow> (load_out E (JError code message) s, Ret StError)
                 | Inr sdr \<Rightarrow> (load_out E (JSaleDetails sdr) s, Ret StOk))
          else deref supernode s (\<lambda>sn.
            if idKeyAsString (e_crypto E) sn \<in> set (sample_ids E sample s)
            then errorCustomError E
                   (''Internal error: our supernode is in auth sample but no sale details found for '' @ sdq_PaymentID req
                    @ '', auth_sample: '' @ join_ids (sample_ids E sample s)) ERROR_INTERNAL_ERROR s
            else with_id E (set_local ''payment_id'' (AnyStr (sdq_PaymentID req)) s) (\<lambda>u s.
              let data = print_b64 (e_codec E) (PDetailsRequest (req\<lparr>sdq_callback_uri :=
                           ''/cryptonode/callback/sale_details/'' @ e_uuid_string E u\<rparr>));
                  i = e_random E (length sample - 1)
              in if i < length sample
                 then (set_path ''/json_rpc/rta'' (load_out E (JUnicast
                        \<lparr>uc_sender_address = idKeyAsString (e_crypto E) sn,
                         uc_receiver_address = sample_ids E sample s ! i,
                         uc_callback_uri = ''/cryptonode/sale_details/'', uc_data = data, uc_wait_answer = True\<rparr>) s),
                       Ret StForward)
                 else (s, Throw ''out_of_range'')))))))))"

fun status_int :: "Status \<Rightarrow> int" where
  "status_int StNone = 0" | "status_int StOk = 1" | "status_int StForward = 2" | "status_int StAgain = 3"
| "status_int StError = 4" | "status_int StDrop = 5" | "status_int StBusy = 6" | "status_int StInternalError = 7"
| "status_int StPostpone = 8" | "status_int StStop = 9"

definition handleSaleDetailsResponse where
  "handleSaleDetailsResponse E input s =
     (if m_last_status (h_ctx s) \<noteq> StPostpone
      then errorInternalError E (''Expected postponed status but status is : '' @
             int_to_string (status_int (m_last_status (h_ctx s)))) s
      else with_id E s (\<lambda>u s.
        let task_id = e_uuid_string E u in
        with_hasKey E (task_id @ CONTEXT_SALE_DETAILS_RESULT) s (\<lambda>have s.
        if \<not> have then errorInternalError E (''no sale details response found for id: '' @ task_id) s
        else with_global E as_str (task_id @ CONTEXT_SALE_DETAILS_RESULT) (AnyStr []) s (\<lambda>raw s.
        case get_Unicast (e_codec E) raw of
          None \<Rightarrow> errorInternalError E ''Failed to parse response'' s
        | Some unicastReq \<Rightarrow>
            with_global E as_Supernode CONTEXT_KEY_SUPERNODE (AnySupernode None) s (\<lambda>supernode s.
            with_local as_str ''payment_id'' s (\<lambda>payment_id s.
            deref supernode s (\<lambda>sn.
            if uc_receiver_address unicastReq \<noteq> idKeyAsString (e_crypto E) sn
            then errorInternalError E (''wrong receiver id: '' @ uc_receiver_address unicastReq @ '', expected id: ''
                   @ idKeyAsString (e_crypto E) sn) s
            else case b64_Details (e_codec E) (uc_data unicastReq) of
                None \<Rightarrow> errorInvalidParams E s
              | Some sdr \<Rightarrow>
                  (load_out E (JSaleDetails sdr)
                     (remove_global E (task_id @ CONTEXT_SALE_DETAILS_RESULT)
                       (set_global E (payment_id @ CONTEXT_SALE_DETAILS_RESULT) (AnySaleDetails sdr) RTA_TX_TTL s)),
                   Ret StOk))))))))"

definition handleUnicastAcknowledge where
  "handleUnicastAcknowledge E input s =
     (if bad_reply E input
      then (load_out E (JErrorResponse ERROR_INTERNAL_ERROR ''Error unicasting request'') s, Ret StError)
      else (s, Ret StPostpone))"

definition handleSaleDetailsUnicastRequest where
  "handleSaleDetailsUnicastRequest E input s =
     (case get_Unicast (e_codec E) (body input) of
        None \<Rightarrow> sendOkResponseToCryptonode E s
      | Some unicastReq \<Rightarrow>
          with_global E as_Supernode CONTEXT_KEY_SUPERNODE (AnySupernode None) s (\<lambda>supernode s.
          deref supernode s (\<lambda>sn.
          if uc_receiver_address unicastReq \<noteq> idKeyAsString (e_crypto E) sn then sendOkResponseToCryptonode E s
          else case b64_DetailsRequest (e_codec E) (uc_data unicastReq) of
              None \<Rightarrow> sendOkResponseToCryptonode E s
            | Some sdr \<Rightarrow>
                with_global E as_Fsl CONTEXT_KEY_FULLSUPERNODELIST (AnyFsl False) s (\<lambda>fsl s.
                if \<not> fsl then (s, Crash)
                else case build_sample E (sdq_BlockNumber sdr) (sdq_PaymentID sdr) s of (ok, sample, blk) \<Rightarrow>
                if \<not> ok then sendOkResponseToCryptonode E s
                else with_hasKey E (sdq_PaymentID sdr @ CONTEXT_KEY_SALE_DETAILS) s (\<lambda>have s.
                if \<not> have then sendOkResponseToCryptonode E s
                else prepareSaleDetailsResponse E sdr sample s (\<lambda>r s.
                  case r of Inl _ \<Rightarrow> sendOkResponseToCryptonode E s
                  | Inr resp \<Rightarrow>
                      (set_path ''/json_rpc/rta'' (load_out E (JUnicast
                         \<lparr>uc_sender_address = idKeyAsString (e_crypto E) sn,
                          uc_receiver_address = uc_sender_address unicastReq,
                          uc_callback_uri = sdq_callback_uri sdr,
                          uc_data = print_b64 (e_codec E) (PDetails resp), uc_wait_answer = True\<rparr>) s),
                       Ret StForward)))))))"

abbreviation ClientHandlerState :: string where "ClientHandlerState \<equiv> ''ClientHandlerState''"

text \<open>The three states of the enumeration; there is no default branch.\<close>

definition saleDetailsClientHandler where
  "saleDetailsClientHandler E vars input s =
     with_state ClientHandlerState ''saleDetailsClientHandler'' s (\<lambda>state s.
       if state = 0
       then handleClientRequest E input (set_local ''saleDetailsClientHandler'' (AnyState ClientHandlerState 1) s)
       else if state = 1
       then handleUnicastAcknowledge E input (set_local ''saleDetailsClientHandler'' (AnyState ClientHandlerState 2) s)
       else if state = 2 then handleSaleDetailsResponse E input s
       else (s, Crash))"

definition saleDetailsCallbackHandler where
  "saleDetailsCallbackHandler E vars input s =
     (case map_of vars ''id'' of
        None \<Rightarrow> errorInternalError E ''Can't parse request id from URL'' s
      | Some i \<Rightarrow>
          (case e_parse_uuid E i of
             None \<Rightarrow> (s, Throw ''invalid uuid string'')
           | Some u \<Rightarrow>
               (let s1 = set_global E (i @ CONTEXT_SALE_DETAILS_RESULT) (AnyStr (body input)) RTA_TX_TTL s in
                (s1\<lparr>h_ctx := (h_ctx s1)\<lparr>m_nextUuid := u\<rparr>\<rparr>, Ret StOk))))"

definition saleDetailsUnicastHandler where
  "saleDetailsUnicastHandler E vars input s =
     with_state ''State'' ''saleDetailsUnicastHandler'' s (\<lambda>state s.
       if state = 0
       then handleSaleDetailsUnicastRequest E input (set_local ''saleDetailsUnicastHandler'' (AnyState ''State'' 1) s)
       else if state = 1 \<or> state = 2
       then sendOkResponseToCryptonode E (set_local ''saleDetailsUnicastHandler'' (AnyState ''State'' 2) s)
       else (s, Crash))"

section \<open>Paying\<close>

abbreviation scPayClientHandlerKey where "scPayClientHandlerKey \<equiv> ''PayClientHandlerState''"
abbreviation scPayRequestBody where "scPayRequestBody \<equiv> ''PayRequestBody''"
abbreviation PayHandlerState :: string where "PayHandlerState \<equiv> ''PayHandlerState''"

definition processAuthorizationRequest where
  "processAuthorizationRequest E tx_hex pay_request sample supernode s =
     (case Option.bind (e_hex_to_blob E tx_hex) (e_parse_tx E) of
        None \<Rightarrow> errorInvalidTransaction E tx_hex s
      | Some (tx, tx_hash) \<Rightarrow>
          let s1 = set_global E (hash_to_hex (e_crypto E) tx_hash @ CONTEXT_KEY_PAYMENT_ID_BY_TXID)
                     (AnyStr (pr_PaymentID pay_request)) RTA_TX_TTL s in
          deref supernode s1 (\<lambda>sn.
            let m = \<lparr>mc_sender_address = idKeyAsString (e_crypto E) sn,
                     mc_receiver_addresses = sample_ids E sample s1,
                     mc_callback_uri = ''/cryptonode/authorize_rta_tx_request'',
                     mc_data = print_b64 (e_codec E) (PAuthRequest \<lparr>aq_tx_hex = tx_hex,
                       aq_payment_id = pr_PaymentID pay_request, aq_amount = pr_Amount pay_request\<rparr>)\<rparr>;
                s2 = set_local ''payment_id'' (AnyStr (pr_PaymentID pay_request)) s1;
                s3 = set_global E (pr_PaymentID pay_request @ CONTEXT_KEY_PAY)
                       (AnyPayData \<lparr>pd_Address = pr_Address pay_request, pd_BlockNumber = pr_BlockNumber pay_request,
                          pd_Amount = pr_Amount pay_request\<rparr>) 0 s2;
                s4 = set_global E (pr_PaymentID pay_request @ CONTEXT_KEY_STATUS) (AnyInt (rta_int InProgress)) 0 s3
            in (set_path ''/json_rpc/rta'' (load_out E (JMulticast m) s4), Ret StForward)))"

text \<open>The handler returns at once; the rest of its body is not reached.\<close>

definition handleClientPayRequest where
  "handleClientPayRequest E input s = errorInternalError E ''Not implemented'' s"

definition handlePrepareTxReply where
  "handlePrepareTxReply E input s =
     (case get_PrepareTransferResponse (e_codec E) (body input) of
        None \<Rightarrow> errorInvalidParams E s
      | Some result \<Rightarrow>
          if result \<noteq> 0 then errorInvalidTransaction E ''transaction creation failed'' s
          else (s, Ret StPostpone))"

text \<open>The payment is read from the key that holds the handler's state.\<close>

definition handleWaitingTxReply where
  "handleWaitingTxReply E input s =
     (case get_PrepareTransferCallback (e_codec E) (body input) of
        None \<Rightarrow> errorInvalidParams E s
      | Some res \<Rightarrow>
          if ptc_Result res \<noteq> 0 \<or> ptc_Transactions res = [] then errorInvalidParams E s
          else with_local as_PayRequest scPayClientHandlerKey s (\<lambda>payData s.
            with_global E as_Supernode CONTEXT_KEY_SUPERNODE (AnySupernode None) s (\<lambda>supernode s.
            with_global E as_Fsl CONTEXT_KEY_FULLSUPERNODELIST (AnyFsl False) s (\<lambda>fsl s.
            deref supernode s (\<lambda>sn.
            if \<not> (pr_Address payData \<noteq> [] \<and> e_address_ok E (m_testnet sn) (pr_Address payData))
            then errorInvalidAddress E s
            else with_global E as_int (pr_PaymentID payData @ CONTEXT_KEY_STATUS) (AnyInt (rta_int RtaNone)) s (\<lambda>current_status s.
            case errorFinishedPayment E current_status s of (finished, s) \<Rightarrow>
            if finished then (s, Ret StError)
            else if \<not> fsl then (s, Crash)
            else case build_sample E (pr_BlockNumber payData) (pr_PaymentID payData) s of (ok, sample, blk) \<Rightarrow>
            if \<not> ok \<or> length sample \<noteq> AUTH_SAMPLE_SIZE then errorBuildAuthSample E s
            else processAuthorizationRequest E (hd (ptc_Transactions res)) payData sample supernode s))))))"

definition handleTxAuthReply where
  "handleTxAuthReply E input s =
     with_local as_str ''payment_id'' s (\<lambda>payment_id s.
       if bad_reply E input
       then (load_out E (JErrorResponse ERROR_INTERNAL_ERROR ''Error multicasting request'')
               (remove_global E (payment_id @ CONTEXT_KEY_STATUS) (remove_global E (payment_id @ CONTEXT_KEY_PAY) s)),
             Ret StError)
       else with_global E as_Supernode CONTEXT_KEY_SUPERNODE (AnySupernode None) s (\<lambda>supernode s.
         with_global E as_int (payment_id @ CONTEXT_KEY_STATUS) (AnyInt (rta_int InProgress)) s (\<lambda>status s.
         deref supernode s (\<lambda>sn.
           (buildBroadcastSaleStatusOutput E payment_id status sn s, Ret StForward)))))"

definition handleStatusBroadcastReply where
  "handleStatusBroadcastReply E input s =
     (if bad_reply E input
      then (load_out E (JErrorResponse ERROR_INTERNAL_ERROR ''Error broadcasting request'') s, Ret StError)
      else with_local as_str ''payment_id'' s (\<lambda>payment_id s. (load_out E (JResult STATUS_OK) s, Ret StOk)))"

definition payClientHandler where
  "payClientHandler E vars input s =
     with_state PayHandlerState scPayClientHandlerKey s (\<lambda>state s.
       if state = 0
       then handleClientPayRequest E input (set_local scPayClientHandlerKey (AnyState PayHandlerState 3) s)
       else if state = 1
       then handlePrepareTxReply E input (set_local scPayClientHandlerKey (AnyState PayHandlerState 2) s)
       else if state = 2
       then handleWaitingTxReply E input (set_local scPayClientHandlerKey (AnyState PayHandlerState 3) s)
       else if state = 3
       then handleTxAuthReply E input (set_local scPayClientHandlerKey (AnyState PayHandlerState 4) s)
       else if state = 4 then handleStatusBroadcastReply E input s
       else (s, Crash))"

section \<open>Properties\<close>

lemma details_key_ne [simp]:
  "q @ '':saledetails'' \<noteq> p @ '':sale_details_result''" "q @ '':sale_details_result'' \<noteq> ''fsl''"
  by (auto dest!: key_suffixes key_suffixes [OF sym] key_suffix)

lemmas details_key_ne' [simp] = details_key_ne [symmetric]

lemma with_id_frame: "with_id E s cont = cont (if m_uuid (h_ctx s) = 0 then e_uuid E else m_uuid (h_ctx s))
    (s\<lparr>h_ctx := (h_ctx s)\<lparr>m_uuid := (if m_uuid (h_ctx s) = 0 then e_uuid E else m_uuid (h_ctx s))\<rparr>\<rparr>)"
  by (simp add: with_id_def)

text \<open>
  Paying is switched off. The first call of the payment handler answers every request with
  an internal error and leaves the global context as it was.
\<close>

theorem pay_is_disabled:
  assumes "\<not> has_local scPayClientHandlerKey s" "payClientHandler E vars input s = (s', oc)"
  shows "oc = Ret StError \<and> h_g s' = h_g s \<and>
    body (h_out s') = print_msg (e_codec E) (JErrorResponse ERROR_INTERNAL_ERROR ''Not implemented'')"
  using assms
  by (auto simp: payClientHandler_def with_state_def handleClientPayRequest_def errorInternalError_def
      load_out_def set_local_def)

theorem pay_is_disabled_witness:
  "snd (payClientHandler (demo_rta demo_codec) ([] :: vars_t) empty_Input (demo_state [])) = Ret StError"
proof -
  obtain s' oc where h: "payClientHandler (demo_rta demo_codec) ([] :: vars_t) empty_Input (demo_state []) = (s', oc)"
    by fastforce
  from pay_is_disabled [OF _ h] h show ?thesis by (simp add: has_local_def)
qed

text \<open>
  The callback of the wallet node ends the program. When the prepared transaction arrives,
  the payment is looked up under the key that holds the state of the handler, so the
  conversion fails for every callback that carries a transaction.
\<close>

theorem prepared_payment_throws:
  assumes "local_map s scPayClientHandlerKey = Some (AnyState PayHandlerState 2)"
    and "get_PrepareTransferCallback (e_codec E) (body input) = Some res"
    and "ptc_Result res = 0" "ptc_Transactions res \<noteq> []"
  shows "snd (payClientHandler E vars input s) = Throw ''bad any_cast''"
  using assms
  by (simp add: payClientHandler_def with_state_def has_local_def with_local_def handleWaitingTxReply_def rta_simps)

theorem prepared_payment_throws_witness:
  "snd (payClientHandler (demo_rta (demo_codec\<lparr>get_PrepareTransferCallback :=
       (\<lambda>_. Some \<lparr>ptc_Result = 0, ptc_Transactions = [''tx''], ptc_Fee = []\<rparr>)\<rparr>)) ([] :: vars_t) empty_Input
     (set_local scPayClientHandlerKey (AnyState PayHandlerState 2) (demo_state []))) = Throw ''bad any_cast''"
  by (rule prepared_payment_throws [where res = "\<lparr>ptc_Result = 0, ptc_Transactions = [''tx''], ptc_Fee = []\<rparr>"])
    (simp_all add: set_local_def)

text \<open>
  A callback can poison a payment. The raw callback of the task \<open>id\<close> and the cached
  details of a payment are stored under keys of the same form; when a payment that is still
  open has the id of the callback as its payment id, the next request for its details throws,
  which ends the program.
\<close>

theorem callback_poisons_payment:
  assumes "gwf E s" "e_parse_uuid E pid = Some u" "pid \<noteq> []"
    and "saleDetailsCallbackHandler E [(''id'', pid)] callback s = (s1, oc)"
    and "h_g s2 = h_g s1" "\<not> has_local ''saleDetailsClientHandler'' s2"
    and "glookup E s (pid @ CONTEXT_KEY_STATUS) = Some (AnyInt st)" "st \<in> {rta_int Waiting, rta_int InProgress}"
    and "get_SaleDetailsRequest (e_codec E) (body input) = Some req" "sdq_PaymentID req = pid"
  shows "oc = Ret StOk \<and> snd (saleDetailsClientHandler E vars input s2) = Throw ''bad any_cast''"
proof -
  let ?k = "pid @ CONTEXT_SALE_DETAILS_RESULT"
  have oc: "oc = Ret StOk" and g: "h_g s1 = h_g (set_global E ?k (AnyStr (body callback)) RTA_TX_TTL s)"
    using assms(2,4) by (auto simp: saleDetailsCallbackHandler_def Let_def)
  have w: "gwf E s2" and l: "glookup E s2 k = (if k = ?k then Some (AnyStr (body callback)) else glookup E s k)" for k
    using gwf_simps(2) [OF assms(1), of ?k "AnyStr (body callback)" RTA_TX_TTL]
      glookup_simps(2) [OF assms(1), of ?k "AnyStr (body callback)" RTA_TX_TTL k]
    by (simp_all add: gwf_def glookup_def assms(5) g)
  have "glookup E s2 (pid @ CONTEXT_KEY_STATUS) = Some (AnyInt st)" "glookup E s2 ?k = Some (AnyStr (body callback))"
    using assms(7) by (simp_all add: l)
  with assms(3,6,8-10) w oc show ?thesis
    by (auto simp: saleDetailsClientHandler_def with_state_def handleClientRequest_def rta_simps errorFinishedPayment_def)
qed

theorem callback_poisons_payment_witness:
  "let E = demo_rta (demo_codec\<lparr>get_SaleDetailsRequest :=
             (\<lambda>_. Some \<lparr>sdq_PaymentID = ''a1'', sdq_BlockNumber = 20, sdq_callback_uri = []\<rparr>)\<rparr>);
       (s1, oc) = saleDetailsCallbackHandler E [(''id'', ''a1'')] empty_Input (demo_state [(''a1:status'', AnyInt 1)])
   in snd (saleDetailsClientHandler E ([] :: vars_t) empty_Input s1) = Throw ''bad any_cast''"
proof -
  let ?req = "\<lparr>sdq_PaymentID = ''a1'', sdq_BlockNumber = 20, sdq_callback_uri = []\<rparr>"
  let ?E = "demo_rta (demo_codec\<lparr>get_SaleDetailsRequest := (\<lambda>_. Some ?req)\<rparr>)"
  let ?s = "demo_state [(''a1:status'', AnyInt 1)]"
  obtain s1 oc where h: "saleDetailsCallbackHandler ?E [(''id'', ''a1'')] empty_Input ?s = (s1, oc)" by fastforce
  have "\<not> has_local ''saleDetailsClientHandler'' s1"
    using h by (auto simp: saleDetailsCallbackHandler_def has_local_def Let_def rta_simps)
  from callback_poisons_payment [where req = ?req and u = 7 and st = 1 and vars = "[] :: vars_t" and input = empty_Input, OF demo_state_wf _ _ h refl this]
    h show ?thesis
    by (simp add: demo_lookup)
qed

text \<open>
  Sale details from another supernode. When the callback of a postponed request has stored
  a unicast message addressed to this node, the resumed request answers the wallet with
  exactly the details the message carries, removes the stored callback and caches the details;
  the next request for the same open payment, from any client, is answered from the cache.
\<close>

theorem details_delivered_and_cached:
  assumes "gwf E s" "glookup E s ''supernode'' = Some (AnySupernode (Some p))"
    and "local_map s ''saleDetailsClientHandler'' = Some (AnyState ClientHandlerState 2)"
    and "local_map s ''payment_id'' = Some (AnyStr pid)" "pid \<noteq> []"
    and "m_last_status (h_ctx s) = StPostpone" "m_uuid (h_ctx s) = u" "u \<noteq> 0" "pid \<noteq> e_uuid_string E u"
    and "glookup E s (e_uuid_string E u @ CONTEXT_SALE_DETAILS_RESULT) = Some (AnyStr raw)"
    and "get_Unicast (e_codec E) raw = Some uq"
    and "uc_receiver_address uq = idKeyAsString (e_crypto E) (sn_heap (g_fsl (h_g s)) p)"
    and "b64_Details (e_codec E) (uc_data uq) = Some sdr"
    and "saleDetailsClientHandler E vars input s = (s1, oc)"
    and "glookup E s (pid @ CONTEXT_KEY_STATUS) = Some (AnyInt (rta_int Waiting))"
    and "h_g s2 = h_g s1" "\<not> has_local ''saleDetailsClientHandler'' s2"
    and "get_SaleDetailsRequest (e_codec E) (body input2) = Some req" "sdq_PaymentID req = pid"
    and "saleDetailsClientHandler E vars2 input2 s2 = (s3, oc3)"
  shows "oc = Ret StOk \<and> body (h_out s1) = print_msg (e_codec E) (JSaleDetails sdr) \<and>
    glookup E s1 (e_uuid_string E u @ CONTEXT_SALE_DETAILS_RESULT) = None \<and>
    oc3 = Ret StOk \<and> body (h_out s3) = print_msg (e_codec E) (JSaleDetails sdr)"
proof -
  have m: "s\<lparr>h_ctx := (h_ctx s)\<lparr>m_uuid := u\<rparr>\<rparr> = s" using assms(7) by simp
  have r: "oc = Ret StOk" "body (h_out s1) = print_msg (e_codec E) (JSaleDetails sdr)" "gwf E s1"
    "glookup E s1 k = (if k = e_uuid_string E u @ CONTEXT_SALE_DETAILS_RESULT then None
       else if k = pid @ CONTEXT_SALE_DETAILS_RESULT then Some (AnySaleDetails sdr) else glookup E s k)" for k
    using assms(14,1,2,8)
    by (auto simp: saleDetailsClientHandler_def with_state_def has_local_def with_local_def assms(3,4,6,7,10-13)
        handleSaleDetailsResponse_def with_id_def rta_simps deref_def Let_def)
  have w: "gwf E s2" "glookup E s2 k = glookup E s1 k" for k
    using r(3) by (simp_all add: gwf_def glookup_def assms(16))
  have "glookup E s2 (pid @ CONTEXT_KEY_STATUS) = Some (AnyInt 1)"
    "glookup E s2 (pid @ CONTEXT_SALE_DETAILS_RESULT) = Some (AnySaleDetails sdr)"
    using assms(9,15) by (simp_all add: w r)
  then have "oc3 = Ret StOk \<and> body (h_out s3) = print_msg (e_codec E) (JSaleDetails sdr)"
    using assms(20,5) w(1)
    by (auto simp: saleDetailsClientHandler_def with_state_def assms(17-19) handleClientRequest_def rta_simps
        errorFinishedPayment_def)
  with r assms(9) show ?thesis by simp
qed

definition demo_details :: SaleDetailsResponse where
  "demo_details = \<lparr>sdr_AuthSample = [], sdr_Details = ''tea''\<rparr>"

definition demo_details_env :: "(string, string, string, string, nat, nat) env" where
  "demo_details_env = demo_rta (demo_codec\<lparr>
     get_SaleDetailsRequest := (\<lambda>_. Some \<lparr>sdq_PaymentID = ''pid'', sdq_BlockNumber = 20, sdq_callback_uri = []\<rparr>),
     get_Unicast := (\<lambda>_. Some \<lparr>uc_sender_address = ''0b'', uc_receiver_address = ''0a'', uc_callback_uri = [],
       uc_data = ''d'', uc_wait_answer = True\<rparr>),
     b64_Details := (\<lambda>_. Some demo_details)\<rparr>)"

definition demo_details_state :: "(string, string, nat) hst" where
  "demo_details_state =
     (let s = demo_state [(''pid:status'', AnyInt 1), (''id'' @ CONTEXT_SALE_DETAILS_RESULT, AnyStr ''raw'')] in
      s\<lparr>h_ctx := (h_ctx s)\<lparr>ctx_local := [''saleDetailsClientHandler'' \<mapsto> AnyState ClientHandlerState 2,
          ''payment_id'' \<mapsto> AnyStr ''pid''], m_last_status := StPostpone, m_uuid := 7\<rparr>\<rparr>)"

lemma demo_details_facts:
  "gwf demo_details_env demo_details_state"
  "glookup demo_details_env demo_details_state ''supernode'' = Some (AnySupernode (Some 0))"
  "glookup demo_details_env demo_details_state ''pid:status'' = Some (AnyInt 1)"
  "glookup demo_details_env demo_details_state (''id'' @ CONTEXT_SALE_DETAILS_RESULT) = Some (AnyStr ''raw'')"
  "local_map demo_details_state ''saleDetailsClientHandler'' = Some (AnyState ClientHandlerState 2)"
  "local_map demo_details_state ''payment_id'' = Some (AnyStr ''pid'')"
  "m_last_status (h_ctx demo_details_state) = StPostpone" "m_uuid (h_ctx demo_details_state) = 7"
  "idKeyAsString demo_crypto (sn_heap (g_fsl (h_g demo_details_state)) 0) = ''0a''"
proof -
  let ?es = "[(''pid:status'', AnyInt 1), (''id'' @ CONTEXT_SALE_DETAILS_RESULT, AnyStr ''raw'')]"
  have g: "h_g demo_details_state = h_g (demo_state ?es)" by (simp add: demo_details_state_def Let_def)
  have l: "glookup demo_details_env demo_details_state k = glookup (demo_rta demo_codec) (demo_state ?es) k" for k
    by (simp add: glookup_def g demo_details_env_def)
  show "gwf demo_details_env demo_details_state"
    using demo_state_wf [of demo_codec ?es] by (simp add: gwf_def g demo_details_env_def)
  show "glookup demo_details_env demo_details_state ''supernode'' = Some (AnySupernode (Some 0))"
    "glookup demo_details_env demo_details_state ''pid:status'' = Some (AnyInt 1)"
    "glookup demo_details_env demo_details_state (''id'' @ CONTEXT_SALE_DETAILS_RESULT) = Some (AnyStr ''raw'')"
    by (simp_all add: l demo_lookup)
  show "idKeyAsString demo_crypto (sn_heap (g_fsl (h_g demo_details_state)) 0) = ''0a''"
    by (simp add: g demo_fsl_def idKeyAsString_def demo_crypto_def new_Supernode_def)
qed (simp_all add: demo_details_state_def Let_def)

theorem details_delivered_and_cached_witness:
  "case saleDetailsClientHandler demo_details_env ([] :: vars_t) empty_Input demo_details_state of (s1, oc) \<Rightarrow>
   case saleDetailsClientHandler demo_details_env ([] :: vars_t) empty_Input
          ((demo_state [])\<lparr>h_g := h_g s1\<rparr>) of (s3, oc3) \<Rightarrow> oc = Ret StOk \<and> oc3 = Ret StOk"
proof -
  obtain s1 oc where h1: "saleDetailsClientHandler demo_details_env ([] :: vars_t) empty_Input demo_details_state = (s1, oc)"
    by fastforce
  obtain s3 oc3 where h3: "saleDetailsClientHandler demo_details_env ([] :: vars_t) empty_Input
      ((demo_state [])\<lparr>h_g := h_g s1\<rparr>) = (s3, oc3)" by fastforce
  have e: "e_uuid_string demo_details_env u = ''id''" "e_crypto demo_details_env = demo_crypto" for u
    by (simp_all add: demo_details_env_def)
  have c: "get_SaleDetailsRequest (e_codec demo_details_env) b =
      Some \<lparr>sdq_PaymentID = ''pid'', sdq_BlockNumber = 20, sdq_callback_uri = []\<rparr>"
    "get_Unicast (e_codec demo_details_env) b = Some \<lparr>uc_sender_address = ''0b'', uc_receiver_address = ''0a'',
       uc_callback_uri = [], uc_data = ''d'', uc_wait_answer = True\<rparr>"
    "b64_Details (e_codec demo_details_env) b = Some demo_details" for b
    by (simp_all add: demo_details_env_def)
  from details_delivered_and_cached [where u = 7 and raw = "''raw''",
      OF demo_details_facts(1,2,5,6) _ demo_details_facts(7,8) _ _ _ c(2) _ c(3) h1 _ _ _ c(1) _ h3]
    demo_details_facts(3,4,9) h1 h3
  show ?thesis by (simp add: e has_local_def)
qed

end
