(* ===== verification/Rta_Node.thy ===== *)
theory Rta_Node
  imports Rta_Payment
begin

text \<open>
  The node itself: how it comes up (\<^verbatim>\<open>Supernode::prepareSupernode\<close>, src/supernode/supernode.cpp),
  the messages that feed its lists (send\_supernode\_announce.cpp, send\_supernode\_stakes.cpp,
  blockchain\_based\_list.cpp), its periodic tasks, the requests it only passes on
  (forward.cpp, get\_info.cpp, send\_transfer.cpp) and the debug requests (debug.cpp).
\<close>

section \<open>Starting\<close>

record node_config =
  cfg_data_dir :: string
  cfg_wallet_public_address :: string
  cfg_cryptonode_rpc_address :: string
  cfg_http_address :: string
  cfg_testnet :: bool

text \<open>
  The file system: whether the data directory exists, the error of creating each of the three
  directories (\<open>None\<close> for success), the key file, whether writing and renaming it succeed, and
  a fresh key pair.
\<close>

record ('pk, 'sk) startup =
  su_data_exists :: bool
  su_create :: "string \<Rightarrow> string option"
  su_files :: files
  su_save_ok :: bool
  su_rename_ok :: bool
  su_generated :: "'pk \<times> 'sk"
  su_null_key :: 'pk

fun create_all :: "(string \<Rightarrow> string option) \<Rightarrow> string list \<Rightarrow> string option" where
  "create_all create [] = None"
| "create_all create (d # ds) = (case create d of Some e \<Rightarrow> Some e | None \<Rightarrow> create_all create ds)"

definition set_fsl where "set_fsl L s = s\<lparr>h_g := (h_g s)\<lparr>g_fsl := L\<rparr>\<rparr>"

text \<open>
  The state it starts from is the empty context of the looper. A failure throws, which ends
  the program.
\<close>

definition prepareSupernode where
  "prepareSupernode E cfg su s =
     (let data_path = cfg_data_dir cfg;
          watchonly = data_path @ ''/watch-only-wallets'';
          dirs = (if su_data_exists su then None
                  else create_all (su_create su) [data_path, data_path @ ''/stake-wallet'', watchonly])
      in case dirs of
        Some e \<Rightarrow> (su_files su, s, Throw e)
      | None \<Rightarrow>
          let sn0 = new_Supernode (cfg_wallet_public_address cfg) (su_null_key su) (cfg_testnet cfg);
              keyfilename = data_path @ ''/supernode.keys'';
              (loaded, sn1) = loadKeys (e_crypto E) (su_files su) keyfilename sn0;
              (ok, fs, sn2) =
                (if loaded then (True, su_files su, sn1)
                 else let sn = initKeys (su_generated su) sn1;
                          (saved, fs) = saveKeys (e_crypto E) (e_indet E) (su_save_ok su) (su_rename_ok su)
                                          (su_files su) keyfilename False sn
                      in (saved, fs, sn))
          in if \<not> ok then (fs, s, Throw ''Failed to save keys'')
             else
               let sn3 = setNetworkAddress (cfg_http_address cfg @ ''/dapi/v2.0'') sn2;
                   (p, L0) = sn_alloc sn3 (new_fsl (sn_heap (g_fsl (h_g s))) (sn_next (g_fsl (h_g s))));
                   (added, L) = add_sn (e_crypto E) p L0;
                   s1 = set_global E CONTEXT_KEY_SUPERNODE (AnySupernode (Some p)) 0 (set_fsl L s);
                   s2 = set_global E CONTEXT_KEY_FULLSUPERNODELIST (AnyFsl True) 0 s1;
                   s3 = set_global E ''testnet'' (AnyBool (cfg_testnet cfg)) 0 s2;
                   s4 = set_global E ''watchonly_wallets_path'' (AnyStr watchonly) 0 s3;
                   s5 = set_global E ''cryptonode_rpc_address'' (AnyStr (cfg_cryptonode_rpc_address cfg)) 0 s4
               in (fs, s5, Ret StOk))"

section \<open>Announces\<close>

definition storeRequestAndReplyOkT where
  "storeRequestAndReplyOkT E response input s =
     noexcept (load_out E response (set_local ''request'' (AnyStr (body input)) s), Ret StAgain)"

definition handleSupernodeAnnounce where
  "handleSupernodeAnnounce E input s =
     with_global E as_Fsl CONTEXT_KEY_FULLSUPERNODELIST (AnyFsl False) s (\<lambda>fsl s.
     with_global E as_Supernode CONTEXT_KEY_SUPERNODE (AnySupernode None) s (\<lambda>supernode s.
     if \<not> fsl \<or> supernode = None then (s, Ret StError)
     else case get_Announce (e_codec E) (body input) of
       None \<Rightarrow> (s, Ret StError)
     | Some announce \<Rightarrow>
         let L = g_fsl (h_g s) in
         if exists_sn (ann_public_id announce) L
         then deref (get_sn (ann_public_id announce) L) s (\<lambda>sn.
           if busy sn then (s, Ret StError)
           else case updateFromAnnounce (e_crypto E) (e_time E) announce sn of
             (ok, sn') \<Rightarrow>
               (set_fsl (L\<lparr>sn_heap := (sn_heap L)(the (get_sn (ann_public_id announce) L) := sn')\<rparr>) s,
                Ret (if ok then StOk else StError)))
         else
           with_global E as_str ''cryptonode_rpc_address'' AnyEmpty s (\<lambda>cryptonode_rpc_address s.
           with_global E as_bool ''testnet'' AnyEmpty s (\<lambda>testnet s.
           case createFromAnnounce (e_crypto E) (e_time E) announce testnet of
             None \<Rightarrow> (s, Ret StError)
           | Some sn \<Rightarrow>
               (case sn_alloc sn L of (p, L1) \<Rightarrow> (set_fsl (snd (add_sn (e_crypto E) p L1)) s, Ret StOk))))))"

definition sendSupernodeAnnounceHandler where
  "sendSupernodeAnnounceHandler E vars input s =
     with_state ''State'' ''sendSupernodeAnnounceHandler'' s (\<lambda>state s.
       if state = 0
       then storeRequestAndReplyOkT E (JAnnounceReply STATUS_OK) input
              (set_local ''sendSupernodeAnnounceHandler'' (AnyState ''State'' 1) s)
       else if state = 1 then handleSupernodeAnnounce E input s
       else (s, Crash))"

text \<open>The node's own announce, sent by a periodic task and by a debug request.\<close>

definition sendAnnounce where
  "sendAnnounce E vars input s =
     try_catch
       (case m_last_status (h_ctx s) of
          StForward \<Rightarrow> sendOkResponseToCryptonode E s
        | StError \<Rightarrow> (s, Ret StOk)
        | st \<Rightarrow>
            if st \<noteq> StOk \<and> st \<noteq> StNone then (s, Ret StOk)
            else with_global E as_Supernode CONTEXT_KEY_SUPERNODE (AnySupernode None) s (\<lambda>supernode s.
              case supernode of
                None \<Rightarrow> (s, Ret StError)
              | Some p \<Rightarrow>
                  let L = g_fsl (h_g s); sn = sn_heap L p in
                  if \<not> refresh sn
                  then errorCustomError E (''failed to refresh supernode: '' @ idKeyAsString (e_crypto E) sn)
                         ERROR_INTERNAL_ERROR s
                  else
                    let sn' = setLastUpdateTime (e_time E) sn;
                        s1 = set_fsl (L\<lparr>sn_heap := (sn_heap L)(p := sn')\<rparr>) s
                    in case prepareAnnounce (e_crypto E) sn' of
                      None \<Rightarrow> errorCustomError E (''failed to prepare announce: '' @ idKeyAsString (e_crypto E) sn')
                                ERROR_INTERNAL_ERROR s1
                    | Some announce \<Rightarrow>
                        (set_path ''/json_rpc/rta'' (load_out E (JAnnounce announce) s1), Ret StForward)))
       (\<lambda>_ s. (s, Ret StOk))"

section \<open>Lists from the cryptonode\<close>

definition convert_stake :: "SupernodeStake \<Rightarrow> supernode_stake" where
  "convert_stake src =
     \<lparr>stake_amount = st_amount src, stake_block_height = st_block_height src, stake_unlock_time = st_unlock_time src,
      stake_public_id = st_public_id src, stake_public_address = st_public_address src\<rparr>"

definition supernodeStakesHandler where
  "supernodeStakesHandler E vars input s =
     with_global E as_Fsl ''fsl'' (AnyFsl False) s (\<lambda>fsl s.
     with_global E as_Supernode ''supernode'' (AnySupernode None) s (\<lambda>supernode s.
     if \<not> fsl \<or> supernode = None then (s, Ret StError)
     else case get_Stakes (e_codec E) (body input) of
       None \<Rightarrow> (s, Ret StError)
     | Some req \<Rightarrow>
         with_global E as_str ''cryptonode_rpc_address'' AnyEmpty s (\<lambda>cryptonode_rpc_address s.
         with_global E as_bool ''testnet'' AnyEmpty s (\<lambda>testnet s.
           (set_fsl (updateStakes (e_crypto E) (e_time E) (e_local_time E) (sts_block_height req)
                       (map convert_stake (sts_stakes req)) testnet (g_fsl (h_g s))) s, Ret StOk)))))"

text \<open>The message has the fields of the list, so copying the tiers is the identity.\<close>

definition blockchainBasedListHandler where
  "blockchainBasedListHandler E vars input s =
     with_global E as_Fsl ''fsl'' (AnyFsl False) s (\<lambda>fsl s.
     with_global E as_Supernode ''supernode'' (AnySupernode None) s (\<lambda>supernode s.
     if \<not> fsl \<or> supernode = None then (s, Ret StError)
     else case get_BlockchainBasedList (e_codec E) (body input) of
       None \<Rightarrow> (s, Ret StError)
     | Some req \<Rightarrow>
         (set_fsl (setBlockchainBasedList (e_HISTORY_SIZE E) (e_local_time E) (bl_block_height req) (bl_tiers req)
                     (g_fsl (h_g s))) s, Ret StOk)))"

text \<open>The periodic synchronisation, with the requests it makes to the cryptonode.\<close>

definition syncCryptonode where
  "syncCryptonode E s =
     (case valueFor (e_hash E) (e_now E) CONTEXT_KEY_SUPERNODE (AnySupernode None) (global_map s) of (v, m) \<Rightarrow>
      let s1 = set_global_map m s in
      case as_Supernode v of
        None \<Rightarrow> ([], s1, Throw ''bad any_cast'')
      | Some None \<Rightarrow> ([], s1, Ret StError)
      | Some (Some p) \<Rightarrow>
          (case valueFor (e_hash E) (e_now E) CONTEXT_KEY_FULLSUPERNODELIST (AnyFsl False) (global_map s1) of (w, m') \<Rightarrow>
           let s2 = set_global_map m' s1; L = g_fsl (h_g s2) in
           case as_Fsl w of
             None \<Rightarrow> ([], s2, Throw ''bad any_cast'')
           | Some False \<Rightarrow> ([], s2, Ret StOk)
           | Some True \<Rightarrow>
               (case synchronizeWithCryptonode (e_local_time E) (m_network_address (sn_heap L p))
                       (idKeyAsString (e_crypto E) (sn_heap L p)) L of
                  (reqs, L') \<Rightarrow> (reqs, set_fsl L' s2, Ret StOk))))"

definition syncHandler where
  "syncHandler E vars input s = snd (syncCryptonode E s)"


section \<open>Requests passed on\<close>

text \<open>
  \<^verbatim>\<open>vars.equal_range\<close> of a missing key is the position where it would stand: without a later
  key that is the end, with one the next test fails.
\<close>

definition after_key :: "string \<Rightarrow> string \<Rightarrow> bool" where
  "after_key k k' \<longleftrightarrow> lexordp (<) (map of_char k :: nat list) (map of_char k')"

definition forward_var where
  "forward_var vars s cont =
     (case filter (\<lambda>(k, v). k = ''forward'') vars of
        [] \<Rightarrow> (s, Throw (if list_ex (\<lambda>(k, v). after_key ''forward'' k) vars
                         then ''multiple 'forward' vars found'' else ''cannot find 'forward' var''))
      | [(k, v)] \<Rightarrow> cont v
      | _ \<Rightarrow> (s, Throw ''multiple 'forward' vars found''))"

definition pass_body where
  "pass_body input s = s\<lparr>h_out := (h_out s)\<lparr>body := body input\<rparr>\<rparr>"

text \<open>The wallet requests; any other status leaves the function without a value.\<close>

definition walletForwardHandler where
  "walletForwardHandler E vars input s =
     (case m_last_status (h_ctx s) of
        StNone \<Rightarrow> forward_var vars s (\<lambda>forward.
          let s1 = pass_body input (s\<lparr>h_ctx := (h_ctx s)\<lparr>m_setXCallbackHeader := True\<rparr>\<rparr>)
          in (set_path (''/api/'' @ forward) (s1\<lparr>h_out := (h_out s1)\<lparr>uri := ''$walletnode''\<rparr>\<rparr>), Ret StForward))
      | StForward \<Rightarrow> (s, Ret StPostpone)
      | StPostpone \<Rightarrow> (pass_body input s, Ret StOk)
      | _ \<Rightarrow> (s, Crash))"

definition cryptonodeForwardHandler where
  "cryptonodeForwardHandler E vars input s =
     (if m_last_status (h_ctx s) = StNone
      then forward_var vars s (\<lambda>path. (set_path path (pass_body input s), Ret StForward))
      else if m_last_status (h_ctx s) = StForward then (pass_body input s, Ret StOk)
      else (s, Ret StError))"

definition healthcheckHandler where
  "healthcheckHandler E vars input s = (s, Ret StOk)"

definition getInfoHandler where
  "getInfoHandler E vars input s =
     (if \<not> has_local ''getInfoHandler'' s
      then (set_local ''getInfoHandler'' (AnyBool True) (set_path ''/json_rpc'' (load_out E (JMethod ''get_info'') s)),
            Ret StForward)
      else case get_Info (e_codec E) (body input) of
        None \<Rightarrow> (load_out E (ErrorResponse ERROR_INTERNAL_ERROR []) s, Ret StError)
      | Some resp \<Rightarrow>
          if ir_error_code resp \<noteq> 0
          then (load_out E (ErrorResponse ERROR_INTERNAL_ERROR (ir_error_message resp)) s, Ret StError)
          else (load_out E (InfoResponse (ir_result resp)) s, Ret StOk))"

section \<open>Sending transfers\<close>

abbreviation scLastSendTxIndex where "scLastSendTxIndex \<equiv> ''SendTransfer_txindex''"
abbreviation scTxList where "scTxList \<equiv> ''SendTransfer_txs''"
abbreviation SendTransferHandlerState :: string where "SendTransferHandlerState \<equiv> ''SendTransferHandlerState''"

definition raw_tx where "raw_tx tx_hex = RawTxRequest \<lparr>rq_tx_as_hex = tx_hex, rq_do_not_relay = False\<rparr>"

text \<open>The index is stored as the literal 1, an \<^verbatim>\<open>int\<close>.\<close>

definition handleClientSendRequest where
  "handleClientSendRequest E input s =
     (case get_Transfer (e_codec E) (body input) of
        None \<Rightarrow> errorInvalidParams E s
      | Some txs \<Rightarrow>
          if txs = [] then errorInvalidTransaction E ''tx empty'' s
          else case find (\<lambda>tx_hex. Option.bind (e_hex_to_blob E tx_hex) (e_parse_tx E) = None) txs of
            Some tx_hex \<Rightarrow> errorInvalidTransaction E tx_hex s
          | None \<Rightarrow>
              let s1 = set_local scTxList (AnyStrs txs) (set_local scLastSendTxIndex (AnyInt 1) s)
              in (set_path ''/sendrawtransaction'' (load_out E (raw_tx (hd txs)) s1), Ret StForward))"

definition handleTxStatusReply where
  "handleTxStatusReply E input s =
     with_local as_strs scTxList s (\<lambda>txs s.
     with_local as_uint scLastSendTxIndex s (\<lambda>tx_index s.
       if unat tx_index < length txs
       then (set_local scLastSendTxIndex (AnyUInt (tx_index + 1))
               (set_path ''/sendrawtransaction'' (load_out E (raw_tx (txs ! unat tx_index)) s)), Ret StForward)
       else (load_out E (TransferResponse STATUS_OK) s, Ret StOk)))"

definition sendTransferHandler where
  "sendTransferHandler E vars input s =
     with_state SendTransferHandlerState ''sendTransferHandler'' s (\<lambda>state s.
       if state = 0
       then handleClientSendRequest E input (set_local ''sendTransferHandler'' (AnyState SendTransferHandlerState 1) s)
       else if state = 1 then handleTxStatusReply E input s
       else (s, Crash))"

section \<open>Debug requests\<close>

text \<open>
  \<^verbatim>\<open>std::stoul\<close> and \<^verbatim>\<open>std::stoull\<close> at 64 bits: white space, a sign, at least one digit; the rest
  is ignored, a value out of range throws.
\<close>

definition is_space :: "char \<Rightarrow> bool" where
  "is_space c \<longleftrightarrow> (let n = of_char c :: nat in n = 32 \<or> (9 \<le> n \<and> n \<le> 13))"

definition is_digit :: "char \<Rightarrow> bool" where
  "is_digit c \<longleftrightarrow> (let n = of_char c :: nat in 48 \<le> n \<and> n \<le> 57)"

definition digits_value :: "string \<Rightarrow> nat" where
  "digits_value ds = foldl (\<lambda>n c. 10 * n + (of_char c - 48)) 0 ds"

definition stoull :: "string \<Rightarrow> u64 option" where
  "stoull str =
     (let t = dropWhile is_space str;
          (neg, u) = (case t of c # cs \<Rightarrow> if c = CHR ''-'' then (True, cs) else if c = CHR ''+'' then (False, cs) else (False, t)
                      | [] \<Rightarrow> (False, []));
          ds = takeWhile is_digit u
      in if ds = [] then None
         else if digits_value ds \<ge> 2 ^ 64 then None
         else Some (if neg then - of_nat (digits_value ds) else of_nat (digits_value ds)))"

definition db_supernode where
  "db_supernode E height base_list base_block L sa =
     (let sn = sn_heap L (the (get_sn sa L)); public_id = idKeyAsString (e_crypto E) sn;
          expiring = m_stake_block_height sn + m_stake_unlock_time sn
      in \<lparr>db_Address = m_wallet_address sn, db_PublicId = public_id, db_StakeAmount = m_stake_amount sn,
          db_StakeFirstValidBlock = m_stake_block_height sn, db_StakeExpiringBlock = expiring,
          db_IsStakeValid = (height \<ge> m_stake_block_height sn \<and> height < expiring),
          db_BlockchainBasedListTier = getSupernodeBlockchainBasedListTier public_id height L,
          db_AuthSampleBlockchainBasedListTier = getSupernodeBlockchainBasedListTier public_id base_block L,
          db_IsAvailableForAuthSample = list_ex (list_ex (\<lambda>e. public_id = entry_public_id e)) base_list,
          db_LastUpdateAge = last_update_age (e_time E) sn\<rparr>)"

definition list_shown where
  "list_shown E validOnly L sa \<longleftrightarrow>
     (let sn = sn_heap L (the (get_sn sa L)) in
      \<not> busy sn \<and> \<not> (validOnly \<and> \<not> (last_update_age (e_time E) sn \<le> ANNOUNCE_TTL_SECONDS \<and> m_stake_amount sn \<noteq> 0)))"

definition getSupernodeList where
  "getSupernodeList E vars input s =
     (case map_of vars ''all'' of
        None \<Rightarrow> (s, Crash)
      | Some all \<Rightarrow>
          (case stoull all of
             None \<Rightarrow> errorInternalError E ''invalid input'' s
           | Some n \<Rightarrow>
               let validOnly = (n = 0) in
               with_global E as_Fsl CONTEXT_KEY_FULLSUPERNODELIST (AnyFsl False) s (\<lambda>fsl s.
               if \<not> fsl then (s, Crash)
               else
                 let L = g_fsl (h_g s); supernodes = e_items E (items_fsl L); height = m_bbl_max_block_number L;
                     (base_block, base_list) = getBlockchainBasedListForAuthSample (e_time E) height L
                 in if list_ex (\<lambda>sa. get_sn sa L = None) supernodes then (s, Crash)
                    else (load_out E (JSupernodeList
                            (map (db_supernode E height base_list base_block L) (filter (list_shown E validOnly L) supernodes))
                            (hasBlockchainBasedList height L) height) s, Ret StOk))))"

definition getAuthSample where
  "getAuthSample E vars input s =
     with_global E as_Fsl CONTEXT_KEY_FULLSUPERNODELIST (AnyFsl False) s (\<lambda>fsl s.
     case map_of vars ''payment_id'' of
       None \<Rightarrow> (s, Crash)
     | Some payment_id \<Rightarrow>
         if \<not> fsl then (s, Crash)
         else case build_sample E (m_bbl_max_block_number (g_fsl (h_g s))) payment_id s of
           (ok, sample, sample_block_number) \<Rightarrow>
             if \<not> ok then errorInternalError E ''failed to build auth sample'' s
             else (load_out E (JSupernodeList
                     (map (\<lambda>p. let sn = sn_heap (g_fsl (h_g s)) p in
                        (e_indet_db E)\<lparr>db_Address := m_wallet_address sn, db_PublicId := idKeyAsString (e_crypto E) sn,
                          db_StakeAmount := m_stake_amount sn, db_LastUpdateAge := last_update_age (e_time E) sn\<rparr>) sample)
                     (e_indet_bool E) sample_block_number) s, Ret StOk))"

definition doAnnounce where
  "doAnnounce E vars input s = sendAnnounce E vars input s"

definition closeStakeWallets where
  "closeStakeWallets E vars input s =
     with_global E as_Fsl CONTEXT_KEY_FULLSUPERNODELIST (AnyFsl False) s (\<lambda>fsl s.
     if \<not> fsl then (s, Crash)
     else (set_fsl (fold (\<lambda>sn L. snd (remove_sn sn L)) (e_items E (items_fsl (g_fsl (h_g s)))) (g_fsl (h_g s))) s, Ret StOk))"

datatype BlockchainBasedListMode = ModeSource | ModeForAuthSample

definition getBlockchainBasedListImpl where
  "getBlockchainBasedListImpl mode E vars input s =
     (case map_of vars ''block_height'' of
        None \<Rightarrow> (s, Crash)
      | Some h \<Rightarrow>
          (case stoull h of
             None \<Rightarrow> errorInternalError E ''invalid input'' s
           | Some block_height \<Rightarrow>
               with_global E as_Fsl CONTEXT_KEY_FULLSUPERNODELIST (AnyFsl False) s (\<lambda>fsl s.
               if \<not> fsl then (s, Crash)
               else
                 let L = g_fsl (h_g s);
                     found = (case mode of
                       ModeForAuthSample \<Rightarrow>
                         (case getBlockchainBasedListForAuthSample (e_time E) block_height L of
                            (height, l) \<Rightarrow> if height = 0 then None else Some (height, l))
                     | ModeSource \<Rightarrow> map_option (Pair block_height) (findBlockchainBasedList block_height L))
                 in case found of
                   None \<Rightarrow> errorInternalError E ''blockchain based list has not been found'' s
                 | Some (height, l) \<Rightarrow>
                     (load_out E (JListResponse
                        (map (map (\<lambda>e. (entry_public_address e, entry_public_id e, entry_amount e))) l) height) s,
                      Ret StOk))))"


section \<open>Properties\<close>

lemma set_fsl_simps [rta_simps]:
  "gwf E (set_fsl L s) = gwf E s" "glookup E (set_fsl L s) k = glookup E s k"
  "h_ctx (set_fsl L s) = h_ctx s" "h_out (set_fsl L s) = h_out s" "g_fsl (h_g (set_fsl L s)) = L"
  by (simp_all add: set_fsl_def gwf_def glookup_def)

lemma ucast_u32_id: "x < 2 ^ 32 \<Longrightarrow> ucast (ucast x :: u32) = x" for x :: u64
  by transfer (simp add: take_bit_eq_mod)

lemma age_of_time:
  assumes "t < 2 ^ 32" "now < 2 ^ 32" "t \<le> now" "m_last_update_time sn = t"
  shows "ANNOUNCE_TTL_SECONDS < last_update_age now sn \<longleftrightarrow> 3600 < unat now - unat t"
  using assms(3,4) ucast_u32_id [OF assms(2)] by (simp add: last_update_age_def word_less_nat_alt unat_sub)

text \<open>
  What a valid announce does to the list: the supernode it names is in it, with the receiver's
  time, and every other entry is as before.
\<close>

lemma announce_effect:
  assumes "gwf E s" "wf_fsl (e_crypto E) (g_fsl (h_g s))"
    and "glookup E s ''fsl'' = Some (AnyFsl True)" "glookup E s ''supernode'' = Some (AnySupernode (Some p))"
    and "glookup E s ''cryptonode_rpc_address'' = Some (AnyStr rpc)" "glookup E s ''testnet'' = Some (AnyBool tn)"
    and "get_Announce (e_codec E) (body input) = Some ann"
    and "validateAnnounce (e_crypto E) ann = Some key" "ann_public_id ann = pk_to_hex (e_crypto E) key"
    and "handleSupernodeAnnounce E input s = (s', oc)"
  shows "oc = Ret StOk \<and>
    (\<exists>q. m_list (g_fsl (h_g s')) (ann_public_id ann) = Some q \<and>
         m_last_update_time (sn_heap (g_fsl (h_g s')) q) = e_time E) \<and>
    (\<forall>i. i \<noteq> ann_public_id ann \<longrightarrow> m_list (g_fsl (h_g s')) i = m_list (g_fsl (h_g s)) i \<and>
       (\<forall>q. m_list (g_fsl (h_g s)) i = Some q \<longrightarrow> sn_heap (g_fsl (h_g s')) q = sn_heap (g_fsl (h_g s)) q))"
proof (cases "m_list (g_fsl (h_g s)) (ann_public_id ann)")
  case (Some q)
  let ?L = "g_fsl (h_g s)"
  have u: "i = ann_public_id ann" if "m_list ?L i = Some q" for i
    using wf_fsl_inj [OF assms(2) that Some] .
  have "handleSupernodeAnnounce E input s =
      (set_fsl (?L\<lparr>sn_heap := (sn_heap ?L)(q := setLastUpdateTime (e_time E) (sn_heap ?L q))\<rparr>)
         (gtouch E ''supernode'' (gtouch E ''fsl'' s)), Ret StOk)"
    using assms(1,3,4,7,8) Some
    by (simp add: handleSupernodeAnnounce_def rta_simps exists_sn_def get_sn_def deref_def busy_def
        updateFromAnnounce_def Let_def)
  then have L: "oc = Ret StOk" "m_list (g_fsl (h_g s')) = m_list ?L"
    "sn_heap (g_fsl (h_g s')) = (sn_heap ?L)(q := setLastUpdateTime (e_time E) (sn_heap ?L q))"
    using assms(10) by (auto simp: rta_simps)
  have "sn_heap ?L r = sn_heap (g_fsl (h_g s')) r" if "m_list ?L i = Some r" "i \<noteq> ann_public_id ann" for i r
    using u that by (auto simp: L)
  with Some L show ?thesis by (auto simp: setLastUpdateTime_def)
next
  case None
  let ?L = "g_fsl (h_g s)"
  have u: "m_list ?L i \<noteq> Some (sn_next ?L)" for i
    using wf_fslD(1) [OF assms(2)] by blast
  let ?sn = "setLastUpdateTime (e_time E) (new_Supernode [] key tn)"
  let ?L1 = "?L\<lparr>sn_heap := (sn_heap ?L)(sn_next ?L := ?sn), sn_next := Suc (sn_next ?L)\<rparr>"
  have "handleSupernodeAnnounce E input s =
      (set_fsl (snd (add_sn (e_crypto E) (sn_next ?L) ?L1))
         (gtouch E ''testnet'' (gtouch E ''cryptonode_rpc_address'' (gtouch E ''supernode'' (gtouch E ''fsl'' s)))),
       Ret StOk)"
    using assms(1,3-8) None
    by (simp add: handleSupernodeAnnounce_def rta_simps exists_sn_def createFromAnnounce_def sn_alloc_def Let_def)
  moreover have "snd (add_sn (e_crypto E) (sn_next ?L) ?L1) = ?L1\<lparr>m_list := (m_list ?L)(ann_public_id ann \<mapsto> sn_next ?L)\<rparr>"
    using None assms(9) by (simp add: add_sn_def addImpl_def exists_sn_def idKeyAsString_def)
  ultimately have L: "oc = Ret StOk" "m_list (g_fsl (h_g s')) = (m_list ?L)(ann_public_id ann \<mapsto> sn_next ?L)"
    "sn_heap (g_fsl (h_g s')) = (sn_heap ?L)(sn_next ?L := ?sn)"
    using assms(10) by (auto simp: rta_simps)
  have "sn_heap ?L r = sn_heap (g_fsl (h_g s')) r" if "m_list ?L i = Some r" for i r
    using u [of i] that by (auto simp: L)
  with L show ?thesis by (auto simp: setLastUpdateTime_def)
qed

text \<open>
  Announces make a supernode eligible. A route call with a valid announce is answered and
  run a second time; then every entry of a blockchain based list that names the announced
  supernode passes the freshness filter of the sample for exactly one hour from the receiver's
  clock. (Clocks before the year 2106, where the code's 32-bit view of the time ends.)
\<close>

theorem announced_is_eligible:
  assumes "gwf E s" "wf_fsl (e_crypto E) (g_fsl (h_g s))"
    and "glookup E s ''fsl'' = Some (AnyFsl True)" "glookup E s ''supernode'' = Some (AnySupernode (Some p))"
    and "glookup E s ''cryptonode_rpc_address'' = Some (AnyStr rpc)" "glookup E s ''testnet'' = Some (AnyBool tn)"
    and "get_Announce (e_codec E) (body input) = Some ann"
    and "validateAnnounce (e_crypto E) ann = Some key" "ann_public_id ann = pk_to_hex (e_crypto E) key"
    and "\<not> has_local ''sendSupernodeAnnounceHandler'' s0" "sendSupernodeAnnounceHandler E vars input s0 = (s1, oc1)"
    and "local_map s = local_map s1" "sendSupernodeAnnounceHandler E vars input s = (s', oc)"
    and "e_time E < 2 ^ 32" "now < 2 ^ 32" "e_time E \<le> now" "entry_public_id e = ann_public_id ann"
  shows "oc1 = Ret StAgain \<and> oc = Ret StOk \<and>
    (entry_reachable now (g_fsl (h_g s')) e \<longleftrightarrow> unat now - unat (e_time E) \<le> 3600)"
proof -
  from assms(10,11) have first: "oc1 = Ret StAgain"
    "local_map s1 ''sendSupernodeAnnounceHandler'' = Some (AnyState ''State'' 1)"
    by (auto simp: sendSupernodeAnnounceHandler_def with_state_def storeRequestAndReplyOkT_def rta_simps)
  with assms(12,13) have "handleSupernodeAnnounce E input s = (s', oc)"
    by (simp add: sendSupernodeAnnounceHandler_def with_state_def has_local_def with_local_def)
  from announce_effect [OF assms(1-9) this] obtain q where "oc = Ret StOk"
    "m_list (g_fsl (h_g s')) (ann_public_id ann) = Some q"
    "m_last_update_time (sn_heap (g_fsl (h_g s')) q) = e_time E" by blast
  with age_of_time [OF assms(14-16), of "sn_heap (g_fsl (h_g s')) q"] first(1) assms(17) show ?thesis
    by (simp add: entry_reachable_def not_less)
qed

definition demo_announce :: SupernodeAnnounce where
  "demo_announce = the (prepareAnnounce demo_crypto demo_sn)"

lemma demo_announce_ok:
  "validateAnnounce demo_crypto demo_announce = Some ''k''" "ann_public_id demo_announce = ''0k''"
  by (simp_all add: demo_announce_def prepareAnnounce_def signMessage_def signHash_def demo_sn_def initKeys_def
      idKeyAsString_def demo_crypto_def validateAnnounce_def verifySignature_def verifyHash_def Let_def)

theorem announced_is_eligible_witness:
  "let E = demo_rta (demo_codec\<lparr>get_Announce := (\<lambda>_. Some demo_announce)\<rparr>);
       (s1, oc1) = sendSupernodeAnnounceHandler E ([] :: vars_t) empty_Input (demo_state [(''cryptonode_rpc_address'', AnyStr [])]);
       (s2, oc) = sendSupernodeAnnounceHandler E ([] :: vars_t) empty_Input s1
   in oc = Ret StOk \<and> entry_reachable 3700 (g_fsl (h_g s2)) (demo_entry ''0k'') \<and>
      \<not> entry_reachable 3701 (g_fsl (h_g s2)) (demo_entry ''0k'')"
proof -
  let ?E = "demo_rta (demo_codec\<lparr>get_Announce := (\<lambda>_. Some demo_announce)\<rparr>)"
  let ?s = "demo_state [(''cryptonode_rpc_address'', AnyStr [])] :: (string, string, nat) hst"
  obtain s1 oc1 where f: "sendSupernodeAnnounceHandler ?E ([] :: vars_t) empty_Input ?s = (s1, oc1)" by fastforce
  obtain s2 oc where g: "sendSupernodeAnnounceHandler ?E ([] :: vars_t) empty_Input s1 = (s2, oc)" by fastforce
  have n: "\<not> has_local ''sendSupernodeAnnounceHandler'' ?s" by (simp add: has_local_def)
  have h: "h_g s1 = h_g ?s"
    using f n by (auto simp: sendSupernodeAnnounceHandler_def with_state_def storeRequestAndReplyOkT_def load_out_def set_local_def)
  have w: "gwf ?E s1" "glookup ?E s1 k = glookup ?E ?s k" for k
    using demo_state_wf h by (simp_all add: gwf_def glookup_def)
  have l: "wf_fsl (e_crypto ?E) (g_fsl (h_g s1))" using demo_fsl_wf h by simp
  note r = announced_is_eligible [where rpc = "[]" and tn = False and p = 0 and ann = demo_announce and key = "''k''",
      OF w(1) l _ _ _ _ _ _ _ n f refl g, of _ "demo_entry ''0k''"]
  have t: "e_time ?E = 100" by (simp add: demo_rta_def)
  show ?thesis
    using f g r [of 3700] r [of 3701]
    by (simp add: w(2) demo_lookup demo_announce_ok t demo_entry_def)
       (simp add: demo_crypto_def)
qed

text \<open>
  Sending a transfer ends the program. Whenever the first step of \<^verbatim>\<open>/send_transfer\<close> has
  accepted the transactions and forwarded the first of them, the step that handles the
  cryptonode's reply throws, whatever the reply: the position was stored as an \<^verbatim>\<open>int\<close> and is
  read as an \<^verbatim>\<open>unsigned int\<close>.
\<close>

theorem send_transfer_throws:
  assumes "\<not> has_local ''sendTransferHandler'' s" "sendTransferHandler E vars input s = (s1, Ret StForward)"
    and "local_map s2 = local_map s1"
  shows "snd (sendTransferHandler E vars reply s2) = Throw ''bad any_cast''"
proof -
  obtain txs where "local_map s1 = (local_map s)(''sendTransferHandler'' \<mapsto> AnyState SendTransferHandlerState 1,
      scLastSendTxIndex \<mapsto> AnyInt 1, scTxList \<mapsto> AnyStrs txs)"
    using assms(1,2)
    by (auto simp: sendTransferHandler_def with_state_def handleClientSendRequest_def errorInvalidParams_def
        errorInvalidTransaction_def Let_def rta_simps split: option.splits if_splits)
  then show ?thesis
    by (simp add: sendTransferHandler_def with_state_def has_local_def with_local_def handleTxStatusReply_def assms(3))
qed

theorem send_transfer_throws_witness:
  "let E = demo_rta (demo_codec\<lparr>get_Transfer := (\<lambda>_. Some [''tx''])\<rparr>);
       s1 = fst (sendTransferHandler E ([] :: vars_t) empty_Input (demo_state []))
   in snd (sendTransferHandler E ([] :: vars_t) empty_Input s1) = Throw ''bad any_cast''"
proof -
  let ?E = "demo_rta (demo_codec\<lparr>get_Transfer := (\<lambda>_. Some [''tx''])\<rparr>)"
  let ?s = "demo_state [] :: (string, string, nat) hst"
  have "snd (sendTransferHandler ?E ([] :: vars_t) empty_Input ?s) = Ret StForward"
    by (simp add: sendTransferHandler_def with_state_def has_local_def handleClientSendRequest_def demo_rta_def Let_def)
  then have "sendTransferHandler ?E ([] :: vars_t) empty_Input ?s =
      (fst (sendTransferHandler ?E ([] :: vars_t) empty_Input ?s), Ret StForward)"
    by (metis prod.collapse)
  from send_transfer_throws [OF _ this refl] show ?thesis by (simp add: has_local_def Let_def)
qed


text \<open>The keys a node comes up with belong together, whether they were loaded or generated.\<close>

lemma keys_of_start:
  assumes "secret_key_to_public_key C (snd (su_generated su)) = Some (fst (su_generated su))"
    and "loadKeys C fs f sn = (loaded, sn1)"
  shows "let sn2 = (if loaded then sn1 else initKeys (su_generated su) sn1) in keys_ok C sn2 \<and> m_has_secret_key sn2"
  using assms by (auto simp: loadKeys_def keys_ok_def initKeys_def Let_def split: option.splits)

definition started where
  "started E cfg s1 p \<longleftrightarrow>
     gwf E s1 \<and> glookup E s1 ''supernode'' = Some (AnySupernode (Some p)) \<and> glookup E s1 ''fsl'' = Some (AnyFsl True) \<and>
     glookup E s1 ''testnet'' = Some (AnyBool (cfg_testnet cfg)) \<and>
     glookup E s1 ''cryptonode_rpc_address'' = Some (AnyStr (cfg_cryptonode_rpc_address cfg)) \<and>
     wf_fsl (e_crypto E) (g_fsl (h_g s1)) \<and>
     m_list (g_fsl (h_g s1)) = [idKeyAsString (e_crypto E) (sn_heap (g_fsl (h_g s1)) p) \<mapsto> p] \<and>
     m_network_address (sn_heap (g_fsl (h_g s1)) p) = cfg_http_address cfg @ ''/dapi/v2.0''"

lemma add_first_sn:
  assumes "sn_alloc sn (new_fsl h n) = (p, L0)" "add_sn C p L0 = (added, L)"
  shows "p = n" "wf_fsl C L" "m_list L = [idKeyAsString C sn \<mapsto> p]" "sn_heap L p = sn"
proof -
  have L0: "wf_fsl C L0" "p < sn_next L0" using wf_sn_alloc [OF wf_new_fsl assms(1)] by blast+
  have "L = snd (add_sn C p L0)" by (simp add: assms(2))
  then show "wf_fsl C L" using wf_add_sn [OF L0] by simp
  show "p = n" "m_list L = [idKeyAsString C sn \<mapsto> p]" "sn_heap L p = sn"
    using assms by (auto simp: sn_alloc_def new_fsl_def add_sn_def addImpl_def exists_sn_def)
qed

text \<open>The state after a successful start.\<close>

lemma prepareSupernode_effect:
  assumes "prepareSupernode E cfg su s = (fs, s1, Ret StOk)"
  obtains p L loaded sn1 where
    "s1 = set_global E ''cryptonode_rpc_address'' (AnyStr (cfg_cryptonode_rpc_address cfg)) 0
      (set_global E ''watchonly_wallets_path'' (AnyStr (cfg_data_dir cfg @ ''/watch-only-wallets'')) 0
        (set_global E ''testnet'' (AnyBool (cfg_testnet cfg)) 0 (set_global E ''fsl'' (AnyFsl True) 0
          (set_global E ''supernode'' (AnySupernode (Some p)) 0 (set_fsl L s)))))"
    "loadKeys (e_crypto E) (su_files su) (cfg_data_dir cfg @ ''/supernode.keys'')
       (new_Supernode (cfg_wallet_public_address cfg) (su_null_key su) (cfg_testnet cfg)) = (loaded, sn1)"
    "sn_heap L p = setNetworkAddress (cfg_http_address cfg @ ''/dapi/v2.0'')
       (if loaded then sn1 else initKeys (su_generated su) sn1)"
    "wf_fsl (e_crypto E) L" "m_list L = [idKeyAsString (e_crypto E) (sn_heap L p) \<mapsto> p]"
proof -
  let ?sn0 = "new_Supernode (cfg_wallet_public_address cfg) (su_null_key su) (cfg_testnet cfg)"
  let ?f = "cfg_data_dir cfg @ ''/supernode.keys''"
  obtain loaded sn1 where ld: "loadKeys (e_crypto E) (su_files su) ?f ?sn0 = (loaded, sn1)" by fastforce
  let ?sn3 = "setNetworkAddress (cfg_http_address cfg @ ''/dapi/v2.0'') (if loaded then sn1 else initKeys (su_generated su) sn1)"
  obtain p L0 where al: "sn_alloc ?sn3 (new_fsl (sn_heap (g_fsl (h_g s))) (sn_next (g_fsl (h_g s)))) = (p, L0)" by fastforce
  obtain added L where ad: "add_sn (e_crypto E) p L0 = (added, L)" by fastforce
  note f = add_first_sn [OF al ad]
  show ?thesis
    by (rule that [OF _ ld f(4,2)]) (use assms al ad f(3,4) in
      \<open>cases loaded; auto simp: prepareSupernode_def ld Let_def split: option.splits prod.splits if_splits\<close>)+
qed

lemma prepareSupernode_started:
  assumes "gwf E s" "prepareSupernode E cfg su s = (fs, s1, Ret StOk)"
    and "secret_key_to_public_key (e_crypto E) (snd (su_generated su)) = Some (fst (su_generated su))"
  obtains p where "started E cfg s1 p" "keys_ok (e_crypto E) (sn_heap (g_fsl (h_g s1)) p)"
    "m_has_secret_key (sn_heap (g_fsl (h_g s1)) p)"
proof -
  from prepareSupernode_effect [OF assms(2)] obtain p L loaded sn1 where
    s1: "s1 = set_global E ''cryptonode_rpc_address'' (AnyStr (cfg_cryptonode_rpc_address cfg)) 0
      (set_global E ''watchonly_wallets_path'' (AnyStr (cfg_data_dir cfg @ ''/watch-only-wallets'')) 0
        (set_global E ''testnet'' (AnyBool (cfg_testnet cfg)) 0 (set_global E ''fsl'' (AnyFsl True) 0
          (set_global E ''supernode'' (AnySupernode (Some p)) 0 (set_fsl L s)))))"
    and ld: "loadKeys (e_crypto E) (su_files su) (cfg_data_dir cfg @ ''/supernode.keys'')
       (new_Supernode (cfg_wallet_public_address cfg) (su_null_key su) (cfg_testnet cfg)) = (loaded, sn1)"
    and sn: "sn_heap L p = setNetworkAddress (cfg_http_address cfg @ ''/dapi/v2.0'')
       (if loaded then sn1 else initKeys (su_generated su) sn1)"
    and L: "wf_fsl (e_crypto E) L" "m_list L = [idKeyAsString (e_crypto E) (sn_heap L p) \<mapsto> p]"
    by blast
  have g: "g_fsl (h_g s1) = L" by (simp add: s1 rta_simps)
  have "m_network_address (sn_heap L p) = cfg_http_address cfg @ ''/dapi/v2.0''" by (simp add: sn setNetworkAddress_def)
  with L g assms(1) have "started E cfg s1 p" by (simp add: started_def) (simp add: s1 rta_simps)
  moreover have "keys_ok (e_crypto E) (sn_heap L p)" "m_has_secret_key (sn_heap L p)"
    using keys_of_start [OF assms(3) ld] by (auto simp: Let_def sn setNetworkAddress_def keys_ok_def)
  ultimately show ?thesis using that g by simp
qed

text \<open>
  C32. A node that comes up announces itself. After a successful start, with loaded or newly
  generated keys, the first run of the periodic announce forwards an announce that carries the
  configured address, and that every receiver validates as coming from the identity under
  which the node stands in its own list.
\<close>

theorem started_node_announces:
  assumes "gwf E s" "prepareSupernode E cfg su s = (fs, s1, Ret StOk)"
    and "secret_key_to_public_key (e_crypto E) (snd (su_generated su)) = Some (fst (su_generated su))"
    and "hex_codec_ok (e_crypto E)" "signatures_ok (e_crypto E)"
    and "h_g s2 = h_g s1" "m_last_status (h_ctx s2) = StNone" "sendAnnounce E vars input s2 = (s3, oc)"
  shows "oc = Ret StForward \<and>
    (\<exists>ann key p. body (h_out s3) = print_msg (e_codec E) (JAnnounce ann) \<and> out_path (h_out s3) = ''/json_rpc/rta'' \<and>
       ann_network_address ann = cfg_http_address cfg @ ''/dapi/v2.0'' \<and>
       validateAnnounce (e_crypto E) ann = Some key \<and> ann_public_id ann = pk_to_hex (e_crypto E) key \<and>
       m_list (g_fsl (h_g s1)) = [ann_public_id ann \<mapsto> p])"
proof -
  obtain p where st: "started E cfg s1 p" and k: "keys_ok (e_crypto E) (sn_heap (g_fsl (h_g s1)) p)"
    "m_has_secret_key (sn_heap (g_fsl (h_g s1)) p)"
    using prepareSupernode_started [OF assms(1-3)] by blast
  let ?sn = "setLastUpdateTime (e_time E) (sn_heap (g_fsl (h_g s1)) p)"
  have "keys_ok (e_crypto E) ?sn" "m_has_secret_key ?sn" using k by (simp_all add: setLastUpdateTime_def keys_ok_def)
  from announced_by [OF assms(4,5) this] obtain ann where a: "prepareAnnounce (e_crypto E) ?sn = Some ann"
    "validateAnnounce (e_crypto E) ann = Some (m_id_key ?sn)" by blast
  have "ann_public_id ann = idKeyAsString (e_crypto E) ?sn" "ann_network_address ann = m_network_address ?sn"
    using a(1) by (auto simp: prepareAnnounce_def Let_def split: option.splits)
  moreover have "gwf E s2" "glookup E s2 ''supernode'' = Some (AnySupernode (Some p))"
    using st by (simp_all add: started_def gwf_def glookup_def assms(6))
  with assms(7,8) a(1) have "oc = Ret StForward" "body (h_out s3) = print_msg (e_codec E) (JAnnounce ann)"
    "out_path (h_out s3) = ''/json_rpc/rta''"
    by (auto simp: sendAnnounce_def rta_simps refresh_def Let_def assms(6))
  ultimately show ?thesis using a(2) st
    by (intro conjI exI [of _ ann] exI [of _ "m_id_key ?sn"] exI [of _ p])
      (simp_all add: started_def idKeyAsString_def setLastUpdateTime_def)
qed

theorem started_node_announces_witness:
  "let E = demo_rta demo_codec;
       cfg = \<lparr>cfg_data_dir = ''d'', cfg_wallet_public_address = ''w'', cfg_cryptonode_rpc_address = ''r'',
              cfg_http_address = ''h'', cfg_testnet = False\<rparr>;
       su = \<lparr>su_data_exists = True, su_create = (\<lambda>_. None), su_files = Map.empty, su_save_ok = True,
             su_rename_ok = True, su_generated = (''k'', ''k''), su_null_key = []\<rparr>;
       (fs, s1, oc1) = prepareSupernode E cfg su (demo_state [])
   in oc1 = Ret StOk \<and> snd (sendAnnounce E ([] :: vars_t) empty_Input (s1\<lparr>h_ctx := new_Ctx Map.empty\<rparr>)) = Ret StForward"
proof -
  let ?E = "demo_rta demo_codec"
  let ?cfg = "\<lparr>cfg_data_dir = ''d'', cfg_wallet_public_address = ''w'', cfg_cryptonode_rpc_address = ''r'',
              cfg_http_address = ''h'', cfg_testnet = False\<rparr>"
  let ?su = "\<lparr>su_data_exists = True, su_create = (\<lambda>_. None), su_files = Map.empty, su_save_ok = True,
             su_rename_ok = True, su_generated = (''k'', ''k''), su_null_key = []\<rparr>"
  let ?s = "demo_state [] :: (string, string, nat) hst"
  obtain fs s1 oc1 where p: "prepareSupernode ?E ?cfg ?su ?s = (fs, s1, oc1)" by (metis prod.collapse)
  then have oc1: "oc1 = Ret StOk"
    by (auto simp: prepareSupernode_def loadKeys_def saveKeys_def Let_def split: prod.splits)
  let ?s2 = "s1\<lparr>h_ctx := new_Ctx Map.empty\<rparr>"
  obtain s3 oc where a: "sendAnnounce ?E ([] :: vars_t) empty_Input ?s2 = (s3, oc)" by fastforce
  have "oc = Ret StForward"
    using started_node_announces [OF demo_state_wf p [unfolded oc1] _ _ _ _ _ a] demo_crypto_ok
    by (simp add: new_Ctx_def) (simp add: demo_crypto_def)
  with p oc1 a show ?thesis by (simp add: Let_def)
qed

end
