(* ===== verification/Rta_Invariant.thy ===== *)
theory Rta_Invariant
  imports Rta_Node
begin

text \<open>
  The node as a transition system. A step is one call of any of the handlers of the routes and
  of the periodic tasks, with any input, route variables and task context, or a cleanup of the
  global context; the clocks, random draws and parsers may be different at every step. The
  values of the global context have no static type: every handler casts what it finds. The
  invariant says what each kind of key holds in every state the node can reach, and that the
  objects the handlers dereference are always there.
\<close>

section \<open>Types of the values\<close>

text \<open>The part of a key after its last colon: payment and transaction ids come from outside.\<close>

definition kind :: "string \<Rightarrow> string" where
  "kind k = rev (takeWhile (\<lambda>c. c \<noteq> CHR '':'') (rev k))"

text \<open>
  The keys of a payment in progress and of a transaction under authorisation: the code that
  stores them is never reached.
\<close>

abbreviation never_stored :: "string list" where
  "never_stored \<equiv> [''pay'', ''tx_id_to_payment_id'', ''tx_id_to_tx'', ''tx_id_to_auth_resp'']"

definition well_typed :: "string \<Rightarrow> 'tx any \<Rightarrow> bool" where
  "well_typed k v =
     (let t = kind k in
      if t = ''status'' then as_int v \<noteq> None
      else if t = ''sale'' then as_SaleData v \<noteq> None
      else if t = ''saledetails'' \<or> t = ''watchonly_wallets_path'' \<or> t = ''cryptonode_rpc_address''
      then as_str v \<noteq> None
      else if t \<in> set never_stored then False
      else if t = ''tx_id_to_amount'' then as_u64 v \<noteq> None
      else if t = ''sale_details_result'' then as_str v \<noteq> None \<or> as_SaleDetails v \<noteq> None
      else if t = ''supernode'' then (case v of AnySupernode (Some _) \<Rightarrow> True | _ \<Rightarrow> False)
      else if t = ''fsl'' then v = AnyFsl True
      else if t = ''testnet'' then as_bool v \<noteq> None
      else True)"

abbreviation essential :: "string list" where
  "essential \<equiv> [''supernode'', ''fsl'', ''testnet'', ''cryptonode_rpc_address'']"

definition node_inv where
  "node_inv E s \<longleftrightarrow>
     gwf E s \<and> wf_fsl (e_crypto E) (g_fsl (h_g s)) \<and>
     (\<forall>k v. glookup E s k = Some v \<longrightarrow> well_typed k v) \<and>
     (\<forall>k\<in>set essential. permanent (e_hash E) (global_map s) k)"

definition kept where "kept E m \<longleftrightarrow> node_inv E (fst m)"

section \<open>Steps that keep the invariant\<close>

named_theorems keep \<open>operations that keep the invariant of the node\<close>

lemma kind_suffix [simp]:
  "kind (p @ '':status'') = ''status''" "kind (p @ '':sale'') = ''sale''" "kind (p @ '':saledetails'') = ''saledetails''"
  "kind (p @ '':pay'') = ''pay''" "kind (p @ '':tx_id_to_auth_resp'') = ''tx_id_to_auth_resp''"
  "kind (p @ '':tx_id_to_payment_id'') = ''tx_id_to_payment_id''" "kind (p @ '':tx_id_to_tx'') = ''tx_id_to_tx''"
  "kind (p @ '':tx_id_to_amount'') = ''tx_id_to_amount''" "kind (p @ '':sale_details_result'') = ''sale_details_result''"
  by (simp_all add: kind_def)

lemma kind_whole [simp]:
  "kind ''supernode'' = ''supernode''" "kind ''fsl'' = ''fsl''" "kind ''testnet'' = ''testnet''"
  "kind ''watchonly_wallets_path'' = ''watchonly_wallets_path''"
  "kind ''cryptonode_rpc_address'' = ''cryptonode_rpc_address''"
  "kind ''handleRtaAuthResponseMulticast'' = ''handleRtaAuthResponseMulticast''"
  by (simp_all add: kind_def)

lemma node_inv_cong:
  "h_g s' = h_g s \<Longrightarrow> node_inv E s' = node_inv E s"
  by (simp add: node_inv_def gwf_def glookup_def)

lemma inv_frame [keep]:
  "node_inv E s \<Longrightarrow> node_inv E (set_local k v s)" "node_inv E s \<Longrightarrow> node_inv E (load_out E m s)"
  "node_inv E s \<Longrightarrow> node_inv E (set_path q s)" "node_inv E s \<Longrightarrow> node_inv E (s\<lparr>h_ctx := c\<rparr>)"
  "node_inv E s \<Longrightarrow> node_inv E (s\<lparr>h_out := ou\<rparr>)" "node_inv E s \<Longrightarrow> node_inv E (pass_body input s)"
  "node_inv E s \<Longrightarrow> node_inv E (buildBroadcastSaleStatusOutput E pid st sn s)"
  by (auto elim!: iffD2 [OF node_inv_cong, rotated]
      simp: set_local_def load_out_def set_path_def pass_body_def buildBroadcastSaleStatusOutput_def)

lemma inv_touch [keep]: "node_inv E s \<Longrightarrow> node_inv E (gtouch E k s)"
  by (simp add: node_inv_def rta_simps) (simp add: gtouch_def set_global_map_def permanent_touch gwf_def)

lemma inv_set_global [keep]: "node_inv E s \<Longrightarrow> well_typed k v \<Longrightarrow> node_inv E (set_global E k v ttl s)"
  by (auto simp: node_inv_def rta_simps)
    (auto simp: set_global_def set_global_map_def permanent_addOrUpdate gwf_def)

lemma inv_remove_global [keep]:
  assumes "node_inv E s" "kind k \<notin> set essential" shows "node_inv E (remove_global E k s)"
proof -
  have "j \<noteq> k" if "j \<in> set essential" for j using assms(2) that by auto
  with assms(1) have "\<forall>j\<in>set essential. permanent (e_hash E) (global_map (remove_global E k s)) j"
    by (auto simp: node_inv_def remove_global_def set_global_map_def gwf_def intro!: permanent_remove)
  with assms(1) show ?thesis by (auto simp: node_inv_def rta_simps split: if_splits)
qed

lemma inv_set_fsl [keep]: "node_inv E s \<Longrightarrow> wf_fsl (e_crypto E) L \<Longrightarrow> node_inv E (set_fsl L s)"
  by (simp add: node_inv_def rta_simps) (simp add: set_fsl_def)

lemma kept_pair [keep]: "node_inv E s \<Longrightarrow> kept E (s, oc)"
  by (simp add: kept_def)

lemma kept_with_global [keep]:
  assumes "node_inv E s"
    and "\<And>x v. node_inv E (gtouch E key s) \<Longrightarrow> v = d \<or> well_typed key v \<Longrightarrow> cast v = Some x \<Longrightarrow> kept E (cont x (gtouch E key s))"
  shows "kept E (with_global E cast key d s cont)"
  using assms inv_touch [OF assms(1), of key]
  by (auto simp: with_global_alt kept_pair node_inv_def [of E s] split: option.splits)

lemma kept_with_hasKey [keep]:
  "node_inv E s \<Longrightarrow> (\<And>b. kept E (cont b (gtouch E key s))) \<Longrightarrow> kept E (with_hasKey E key s cont)"
  by (simp add: with_hasKey_alt)

lemma never_typed: "kind k \<in> set never_stored \<Longrightarrow> \<not> well_typed k v"
  by (auto simp: well_typed_def)

lemma never_None: "node_inv E s \<Longrightarrow> kind k \<in> set never_stored \<Longrightarrow> glookup E s k = None"
  using never_typed unfolding node_inv_def by (metis not_None_eq)

lemma kept_hasKey_never:
  "node_inv E s \<Longrightarrow> kind key \<in> set never_stored \<Longrightarrow> kept E (cont False (gtouch E key s)) \<Longrightarrow>
     kept E (with_hasKey E key s cont)"
  by (simp only: with_hasKey_alt never_None simp_thms)

lemma kept_with_local [keep]:
  "node_inv E s \<Longrightarrow> (\<And>x. kept E (cont x s)) \<Longrightarrow> kept E (with_local cast key s cont)"
  by (auto simp: with_local_def intro!: keep split: option.splits)

lemma kept_with_state [keep]:
  "node_inv E s \<Longrightarrow> (\<And>x. kept E (cont x s)) \<Longrightarrow> kept E (with_state e key s cont)"
  by (auto simp: with_state_def intro!: keep)

lemma kept_with_id [keep]:
  "node_inv E s \<Longrightarrow> (\<And>u s'. node_inv E s' \<Longrightarrow> kept E (cont u s')) \<Longrightarrow> kept E (with_id E s cont)"
  by (simp add: with_id_frame inv_frame)

lemma kept_deref [keep]: "node_inv E s \<Longrightarrow> (\<And>sn. kept E (cont sn)) \<Longrightarrow> kept E (deref p s cont)"
  by (auto simp: deref_def intro!: keep split: option.splits)

lemma kept_try_catch [keep]:
  "kept E m \<Longrightarrow> (\<And>e s. node_inv E s \<Longrightarrow> kept E (h e s)) \<Longrightarrow> kept E (try_catch m h)"
  by (auto simp: try_catch_def kept_def split: prod.splits outcome.splits)

lemma kept_noexcept [keep]: "kept E m \<Longrightarrow> kept E (noexcept m)"
  by (auto simp: noexcept_def kept_def split: prod.splits outcome.splits)

lemmas reply_defs =
  errorCustomError_def errorInvalidParams_def errorInvalidPaymentID_def errorInvalidAmount_def errorInvalidAddress_def
  errorBuildAuthSample_def errorInvalidTransaction_def errorInternalError_def sendOkResponseToCryptonode_def

lemma kept_replies [keep]:
  "node_inv E s \<Longrightarrow> kept E (errorCustomError E m c s)" "node_inv E s \<Longrightarrow> kept E (errorInvalidParams E s)"
  "node_inv E s \<Longrightarrow> kept E (errorInvalidPaymentID E s)" "node_inv E s \<Longrightarrow> kept E (errorInvalidAmount E s)"
  "node_inv E s \<Longrightarrow> kept E (errorInvalidAddress E s)" "node_inv E s \<Longrightarrow> kept E (errorBuildAuthSample E s)"
  "node_inv E s \<Longrightarrow> kept E (errorInvalidTransaction E t s)" "node_inv E s \<Longrightarrow> kept E (errorInternalError E m s)"
  "node_inv E s \<Longrightarrow> kept E (sendOkResponseToCryptonode E s)"
  by (simp_all add: reply_defs keep)

lemma kept_splits [keep]:
  "(b \<Longrightarrow> kept E x) \<Longrightarrow> (\<not> b \<Longrightarrow> kept E y) \<Longrightarrow> kept E (if b then x else y)"
  "(p = None \<Longrightarrow> kept E x) \<Longrightarrow> (\<And>a. p = Some a \<Longrightarrow> kept E (f a)) \<Longrightarrow> kept E (case p of None \<Rightarrow> x | Some a \<Rightarrow> f a)"
  "(\<And>a. q = Inl a \<Longrightarrow> kept E (f1 a)) \<Longrightarrow> (\<And>c. q = Inr c \<Longrightarrow> kept E (f2 c)) \<Longrightarrow>
     kept E (case q of Inl a \<Rightarrow> f1 a | Inr c \<Rightarrow> f2 c)"
  by (auto split: option.split sum.split)

lemma kept_prod: "(\<And>a c. q = (a, c) \<Longrightarrow> kept E (g a c)) \<Longrightarrow> kept E (case q of (a, c) \<Rightarrow> g a c)"
  by (auto split: prod.split)

lemma kept_finished [keep]:
  "node_inv E s \<Longrightarrow> (\<And>f s'. node_inv E s' \<Longrightarrow> kept E (g f s')) \<Longrightarrow>
     kept E (case errorFinishedPayment E st s of (f, s') \<Rightarrow> g f s')"
  by (simp add: errorFinishedPayment_def inv_frame)

lemma kept_prepare [keep]:
  "node_inv E s \<Longrightarrow> (\<And>r s'. node_inv E s' \<Longrightarrow> kept E (cont r s')) \<Longrightarrow>
     kept E (prepareSaleDetailsResponse E req sample s cont)"
  unfolding prepareSaleDetailsResponse_def by (auto intro!: keep)

lemma inv_if [keep]: "(b \<Longrightarrow> node_inv E x) \<Longrightarrow> (\<not> b \<Longrightarrow> node_inv E y) \<Longrightarrow> node_inv E (if b then x else y)"
  by simp

section \<open>Every handler keeps it\<close>

lemma kept_sale:
  assumes "node_inv E s"
  shows "kept E (saleClientHandler E vars input s)" "kept E (saleCryptonodeHandler E vars input s)"
    "kept E (saleStatusHandler E vars input s)" "kept E (payStatusHandler E vars input s)"
    "kept E (updateSaleStatusHandler E vars input s)" "kept E (rejectSaleHandler E vars input s)"
    "kept E (rejectPayHandler E vars input s)"
proof -
  have 1: "kept E (handleClientSaleRequest E input s)" "kept E (handleSaleMulticastReply E input s)"
    "kept E (handleSaleStatusBroadcastReply E input s)" if "node_inv E s" for s
    unfolding handleClientSaleRequest_def handleSaleMulticastReply_def handleSaleStatusBroadcastReply_def Let_def
    by (intro keep that | assumption | rule kept_prod | simp add: well_typed_def)+
  show "kept E (saleClientHandler E vars input s)"
    unfolding saleClientHandler_def by (intro keep 1 assms)
  show "kept E (saleCryptonodeHandler E vars input s)"
    unfolding saleCryptonodeHandler_def Let_def by (intro keep assms | simp add: well_typed_def)+
  show "kept E (saleStatusHandler E vars input s)" "kept E (payStatusHandler E vars input s)"
    unfolding saleStatusHandler_def payStatusHandler_def by (intro keep assms | assumption)+
  show "kept E (updateSaleStatusHandler E vars input s)"
    unfolding updateSaleStatusHandler_def Let_def by (intro keep assms | assumption | simp add: well_typed_def)+
  show "kept E (rejectSaleHandler E vars input s)" "kept E (rejectPayHandler E vars input s)"
    unfolding rejectSaleHandler_def rejectPayHandler_def reject_with_def
    by (intro keep assms | assumption | simp add: well_typed_def)+
qed

lemma kept_authorize:
  assumes "node_inv E s"
  shows "kept E (authorizeRtaTxRequestHandler E vars input s)" "kept E (authorizeRtaTxResponseHandler E vars input s)"
    "kept E (sendRawTxHandler E vars input s)"
proof -
  have 1: "kept E (storeRequestAndReplyOk E input s)" "kept E (handleTxAuthRequest E s)"
    "kept E (handleCryptonodeMulticastStatus E input s)" if "node_inv E s" for s
    unfolding storeRequestAndReplyOk_def handleTxAuthRequest_def handleCryptonodeMulticastStatus_def getAmountFromTx_def
      option.case Let_def
    by (intro keep that | assumption | rule kept_prod | simp add: well_typed_def)+
  have 2: "kept E (handleRtaAuthResponseMulticast E input s)" if "node_inv E s" for s
    unfolding handleRtaAuthResponseMulticast_def Let_def
    by (intro kept_hasKey_never kept_with_global kept_try_catch kept_splits kept_replies inv_touch that | assumption | simp)+
  have 3: "kept E (handleCryptonodeTxPushResponse E input s)" "kept E (handleStatusBroadcastResponse E input s)"
    if "node_inv E s" for s
    unfolding handleCryptonodeTxPushResponse_def handleStatusBroadcastResponse_def Let_def
    by (intro keep that | assumption)+
  show "kept E (authorizeRtaTxRequestHandler E vars input s)" "kept E (authorizeRtaTxResponseHandler E vars input s)"
    "kept E (sendRawTxHandler E vars input s)"
    unfolding authorizeRtaTxRequestHandler_def authorizeRtaTxResponseHandler_def sendRawTxHandler_def
    by (intro keep 1 2 3 assms | assumption)+
qed

lemma kept_payment:
  assumes "node_inv E s"
  shows "kept E (saleDetailsClientHandler E vars input s)" "kept E (saleDetailsCallbackHandler E vars input s)"
    "kept E (saleDetailsUnicastHandler E vars input s)" "kept E (payClientHandler E vars input s)"
proof -
  have 1: "kept E (handleClientRequest E input s)" "kept E (handleSaleDetailsResponse E input s)"
    "kept E (handleUnicastAcknowledge E input s)" "kept E (handleSaleDetailsUnicastRequest E input s)" if "node_inv E s" for s
    unfolding handleClientRequest_def handleSaleDetailsResponse_def handleUnicastAcknowledge_def
      handleSaleDetailsUnicastRequest_def Let_def
    by (intro keep that | assumption | rule kept_prod | simp add: well_typed_def)+
  have 2: "kept E (handleClientPayRequest E input s)" "kept E (handlePrepareTxReply E input s)"
    "kept E (handleTxAuthReply E input s)" "kept E (handleStatusBroadcastReply E input s)" if "node_inv E s" for s
    unfolding handleClientPayRequest_def handlePrepareTxReply_def handleTxAuthReply_def handleStatusBroadcastReply_def Let_def
    by (intro keep that | assumption | rule kept_prod | simp)+
  have 3: "kept E (handleWaitingTxReply E input (set_local scPayClientHandlerKey (AnyState PayHandlerState 3) s))"
    if "node_inv E s" for s
    using that by (auto simp: handleWaitingTxReply_def with_local_def rta_simps intro!: keep split: option.split)
  show "kept E (saleDetailsClientHandler E vars input s)" "kept E (saleDetailsUnicastHandler E vars input s)"
    "kept E (payClientHandler E vars input s)" "kept E (saleDetailsCallbackHandler E vars input s)"
    unfolding saleDetailsClientHandler_def saleDetailsUnicastHandler_def payClientHandler_def
      saleDetailsCallbackHandler_def Let_def
    by (intro 3 | intro keep 1 2 assms | assumption | simp add: well_typed_def)+
qed

lemma inv_wf: "node_inv E s \<Longrightarrow> wf_fsl (e_crypto E) (g_fsl (h_g s))"
  by (simp add: node_inv_def)

lemma wf_update_sn: "wf_fsl C L \<Longrightarrow> m_id_key sn = m_id_key (sn_heap L p) \<Longrightarrow> wf_fsl C (L\<lparr>sn_heap := (sn_heap L)(p := sn)\<rparr>)"
  by (auto simp: wf_fsl_def idKeyAsString_def)

lemma wf_update_announce:
  "wf_fsl C L \<Longrightarrow> updateFromAnnounce C now a (sn_heap L p) = (ok, sn) \<Longrightarrow> wf_fsl C (L\<lparr>sn_heap := (sn_heap L)(p := sn)\<rparr>)"
  by (rule wf_update_sn) (auto simp: updateFromAnnounce_def split: option.splits)

lemma wf_alloc_add: "wf_fsl C L \<Longrightarrow> sn_alloc sn L = (p, L1) \<Longrightarrow> wf_fsl C (snd (add_sn C p L1))"
  using wf_sn_alloc(1,2) wf_add_sn by metis

lemma wf_remove_all: "wf_fsl C L \<Longrightarrow> wf_fsl C (fold (\<lambda>sn L. snd (remove_sn sn L)) is L)"
  by (induction "is" arbitrary: L) (auto intro: wf_remove_sn)

lemma kept_announce:
  assumes "node_inv E s" shows "kept E (handleSupernodeAnnounce E input s)"
proof -
  have "wf_fsl (e_crypto E) (g_fsl (h_g s))" by (rule inv_wf [OF assms])
  note w = this wf_update_announce [OF this] wf_alloc_add [OF this]
  show ?thesis
    unfolding handleSupernodeAnnounce_def Let_def deref_def
    by (intro keep assms | assumption | rule kept_prod | simp add: rta_simps w)+
qed

lemma kept_sendAnnounce:
  assumes "node_inv E s" shows "kept E (sendAnnounce E vars input s)"
proof -
  have w: "wf_fsl (e_crypto E) (g_fsl (h_g s))" by (rule inv_wf [OF assms])
  show ?thesis
    unfolding sendAnnounce_def Let_def
    by (cases "m_last_status (h_ctx s)"; simp; intro keep assms | assumption | simp add: rta_simps wf_update_sn w)+
qed

lemma kept_sync:
  assumes "node_inv E s" shows "kept E (syncHandler E vars input s)"
proof -
  have w: "wf_fsl (e_crypto E) (g_fsl (h_g s))" by (rule inv_wf [OF assms])
  let ?s1 = "gtouch E ''supernode'' s" and ?s2 = "gtouch E ''fsl'' (gtouch E ''supernode'' s)"
  have i: "node_inv E ?s1" "node_inv E ?s2" by (intro keep assms)+
  have "node_inv E (set_fsl L' ?s2)" if "synchronizeWithCryptonode t n a (g_fsl (h_g ?s2)) = (reqs, L')" for t n a reqs L'
    using wf_synchronize [OF w, of t n a] that by (intro keep assms) (simp add: rta_simps)
  with i show ?thesis
    unfolding syncHandler_def syncCryptonode_def kept_def
    by (auto simp: valueFor_alt gtouch_def [symmetric] Let_def split: option.splits prod.splits bool.splits)
qed

lemma kept_forward_var: "node_inv E s \<Longrightarrow> (\<And>v. kept E (cont v)) \<Longrightarrow> kept E (forward_var vars s cont)"
  by (auto simp: forward_var_def intro!: keep split: list.splits)

lemma kept_pass_on:
  assumes "node_inv E s"
  shows "kept E (walletForwardHandler E vars input s)" "kept E (cryptonodeForwardHandler E vars input s)"
    "kept E (healthcheckHandler E vars input s)" "kept E (getInfoHandler E vars input s)"
    "kept E (sendTransferHandler E vars input s)"
proof -
  show "kept E (walletForwardHandler E vars input s)"
    unfolding walletForwardHandler_def Let_def
    by (cases "m_last_status (h_ctx s)"; simp; intro keep kept_forward_var assms)
  show "kept E (cryptonodeForwardHandler E vars input s)" "kept E (healthcheckHandler E vars input s)"
    "kept E (getInfoHandler E vars input s)"
    unfolding cryptonodeForwardHandler_def healthcheckHandler_def getInfoHandler_def
    by (intro keep kept_forward_var assms)+
  show "kept E (sendTransferHandler E vars input s)"
    unfolding sendTransferHandler_def handleClientSendRequest_def handleTxStatusReply_def Let_def
    by (intro keep assms | assumption)+
qed

lemma kept_lists:
  assumes "node_inv E s"
  shows "kept E (supernodeStakesHandler E vars input s)" "kept E (blockchainBasedListHandler E vars input s)"
    "kept E (sendSupernodeAnnounceHandler E vars input s)"
proof -
  have w: "wf_fsl (e_crypto E) (g_fsl (h_g s))" by (rule inv_wf [OF assms])
  show "kept E (supernodeStakesHandler E vars input s)" "kept E (blockchainBasedListHandler E vars input s)"
    unfolding supernodeStakesHandler_def blockchainBasedListHandler_def
    by (intro keep wf_updateStakes wf_setBlockchainBasedList assms | assumption | simp add: rta_simps w)+
  show "kept E (sendSupernodeAnnounceHandler E vars input s)"
    unfolding sendSupernodeAnnounceHandler_def storeRequestAndReplyOkT_def
    by (intro keep kept_announce assms | assumption)+
qed

lemma kept_debug:
  assumes "node_inv E s"
  shows "kept E (getSupernodeList E vars input s)" "kept E (getAuthSample E vars input s)"
    "kept E (doAnnounce E vars input s)" "kept E (closeStakeWallets E vars input s)"
    "kept E (getBlockchainBasedListImpl mode E vars input s)"
proof -
  have w: "wf_fsl (e_crypto E) (g_fsl (h_g s))" by (rule inv_wf [OF assms])
  show "kept E (getSupernodeList E vars input s)" "kept E (getAuthSample E vars input s)"
    "kept E (getBlockchainBasedListImpl mode E vars input s)"
    unfolding getSupernodeList_def getAuthSample_def getBlockchainBasedListImpl_def Let_def
    by (intro keep assms | assumption | rule kept_prod | simp split: prod.split)+
  show "kept E (doAnnounce E vars input s)" unfolding doAnnounce_def by (rule kept_sendAnnounce [OF assms])
  show "kept E (closeStakeWallets E vars input s)"
    unfolding closeStakeWallets_def by (intro keep wf_remove_all assms | simp add: rta_simps w)+
qed

section \<open>Reachable states\<close>

definition node_handlers where
  "node_handlers E =
     [saleClientHandler E, saleCryptonodeHandler E, saleStatusHandler E, updateSaleStatusHandler E, rejectSaleHandler E,
      getInfoHandler E, saleDetailsClientHandler E, saleDetailsCallbackHandler E, saleDetailsUnicastHandler E,
      payClientHandler E, payStatusHandler E, rejectPayHandler E, authorizeRtaTxRequestHandler E,
      authorizeRtaTxResponseHandler E, sendSupernodeAnnounceHandler E, supernodeStakesHandler E,
      blockchainBasedListHandler E, sendTransferHandler E, cryptonodeForwardHandler E, walletForwardHandler E,
      healthcheckHandler E, getSupernodeList E, getBlockchainBasedListImpl ModeSource E,
      getBlockchainBasedListImpl ModeForAuthSample E, doAnnounce E, closeStakeWallets E, getAuthSample E,
      sendAnnounce E, syncHandler E]"

lemma kept_handlers: "node_inv E s \<Longrightarrow> h \<in> set (node_handlers E) \<Longrightarrow> kept E (h (vars :: vars_t) input s)"
  by (auto simp: node_handlers_def kept_sale kept_authorize kept_payment kept_announce kept_sendAnnounce kept_sync
      kept_pass_on kept_lists kept_debug)

text \<open>What stays the same from step to step: the hash function and the printing of keys.\<close>

definition same_node where
  "same_node E0 E \<longleftrightarrow> e_hash E = e_hash E0 \<and> pk_to_hex (e_crypto E) = pk_to_hex (e_crypto E0)"

inductive node_reach ::
  "('pk, 'sk, 'sg, 'h, 'tx, 'g) env \<Rightarrow> ('pk, 'sk, 'tx) rta_global \<Rightarrow> bool"
  for E0 :: "('pk, 'sk, 'sg, 'h, 'tx, 'g) env" where
  start: "\<lbrakk>same_node E0 (E :: ('pk, 'sk, 'sg, 'h, 'tx, 'g) env); g_map (h_g (s :: ('pk, 'sk, 'tx) hst)) = new_ht n; 0 < n;
     prepareSupernode E (cfg :: node_config) (su :: ('pk, 'sk) startup) s = (fs, s1, Ret StOk)\<rbrakk>
    \<Longrightarrow> node_reach E0 (h_g s1)"
| request: "\<lbrakk>node_reach E0 g; same_node E0 (E :: ('pk, 'sk, 'sg, 'h, 'tx, 'g) env); h \<in> set (node_handlers E);
     h (vars :: vars_t) (input :: Input) \<lparr>h_ctx = c, h_g = g, h_out = ou\<rparr> = (s :: ('pk, 'sk, 'tx) hst, oc)\<rbrakk>
    \<Longrightarrow> node_reach E0 (h_g s)"
| cleaned: "\<lbrakk>node_reach E0 g; cleanup now all (g_map g) = Some (res, t)\<rbrakk> \<Longrightarrow> node_reach E0 (g\<lparr>g_map := t\<rparr>)"

lemma node_inv_same: "same_node E0 E \<Longrightarrow> node_inv E s = node_inv E0 s"
  by (simp add: same_node_def node_inv_def gwf_def glookup_def wf_fsl_def idKeyAsString_def)

lemma started_inv:
  assumes "gwf E s" "\<And>k. glookup E s k = None" "prepareSupernode E cfg su s = (fs, s1, Ret StOk)"
  shows "node_inv E s1"
proof -
  obtain p L where w: "wf_fsl (e_crypto E) L"
    and s1: "s1 = set_global E ''cryptonode_rpc_address'' (AnyStr (cfg_cryptonode_rpc_address cfg)) 0
      (set_global E ''watchonly_wallets_path'' (AnyStr (cfg_data_dir cfg @ ''/watch-only-wallets'')) 0
        (set_global E ''testnet'' (AnyBool (cfg_testnet cfg)) 0 (set_global E ''fsl'' (AnyFsl True) 0
          (set_global E ''supernode'' (AnySupernode (Some p)) 0 (set_fsl L s)))))"
    using prepareSupernode_effect [OF assms(3)] by metis
  have p: "permanent (e_hash E) (global_map (set_global E j v 0 t)) k"
    if "gwf E t" "if k = j then glookup E t j = None else permanent (e_hash E) (global_map t) k" for t j k v
    using that permanent_addOrUpdate [of "e_hash E" "global_map t" k] permanent_new [of "e_hash E" "global_map t" j]
    by (auto simp: gwf_def glookup_def set_global_def set_global_map_def split: if_splits)
  have "gwf E (set_fsl L s)" "\<And>k. glookup E (set_fsl L s) k = None" using assms(1,2) by (simp_all add: rta_simps)
  then show ?thesis
    using w unfolding node_inv_def s1
    by (auto simp: rta_simps well_typed_def split: if_splits intro!: p)
qed

text \<open>Every state the node can reach satisfies the invariant.\<close>

lemma node_reach_inv: "node_reach E0 g \<Longrightarrow> node_inv E0 \<lparr>h_ctx = c, h_g = g, h_out = ou\<rparr>"
proof (induction arbitrary: c ou rule: node_reach.induct)
  case (start E s n cfg su fs s1)
  have "gwf E s" "\<And>k. glookup E s k = None" using start(2,3) by (simp_all add: gwf_def glookup_def new_ht_wf new_ht_lookup)
  from started_inv [OF this start(4)] show ?case
    using node_inv_same [OF start(1), of s1] node_inv_cong [of "\<lparr>h_ctx = c, h_g = h_g s1, h_out = ou\<rparr>" s1 E0] by simp
next
  case (request g E h vars input c' ou' s oc)
  from kept_handlers [of E, OF iffD2 [OF node_inv_same [OF request(2)] request.IH] request(3)] request(4)
  have "node_inv E s" by (metis kept_def fst_conv)
  then show ?case
    using node_inv_same [OF request(2), of s] node_inv_cong [of "\<lparr>h_ctx = c, h_g = h_g s, h_out = ou\<rparr>" s E0] by simp
next
  case (cleaned g now all res t)
  note i = cleaned.IH [unfolded node_inv_def gwf_def glookup_def, simplified]
  from cleanup_effect [OF _ cleaned(2), of "e_hash E0"] i show ?case
    by (simp add: node_inv_def gwf_def glookup_def)
qed

section \<open>Handlers that always answer\<close>

definition returns where "returns m \<longleftrightarrow> (\<exists>st. snd m = Ret st)"

named_theorems ret \<open>operations that return a status\<close>

lemma returns_pair [ret]: "returns (s, Ret st)"
  by (simp add: returns_def)

lemma returns_try_catch [ret]: "returns m \<Longrightarrow> returns (try_catch m h)"
  by (auto simp: returns_def try_catch_def split: prod.splits)

lemma returns_with_global:
  assumes "node_inv E s"
    and "\<And>v. (if key \<in> set essential then well_typed key v else v = d \<or> well_typed key v) \<Longrightarrow>
      \<exists>x. cast v = Some x \<and> (node_inv E (gtouch E key s) \<longrightarrow> returns (cont x (gtouch E key s)))"
  shows "returns (with_global E cast key d s cont)"
proof -
  have "glookup E s key \<noteq> None" if "key \<in> set essential"
  proof -
    have "permanent (e_hash E) (global_map s) key" using assms(1) that unfolding node_inv_def by blast
    then show ?thesis by (auto simp: permanent_def glookup_def ht_lookup_node split: option.splits)
  qed
  then have "if key \<in> set essential then well_typed key (case glookup E s key of None \<Rightarrow> d | Some v \<Rightarrow> v)
      else (case glookup E s key of None \<Rightarrow> d | Some v \<Rightarrow> v) = d \<or> well_typed key (case glookup E s key of None \<Rightarrow> d | Some v \<Rightarrow> v)"
    using assms(1) unfolding node_inv_def by (auto split: option.splits)
  from assms(2) [OF this] inv_touch [OF assms(1), of key] show ?thesis by (auto simp: with_global_alt)
qed

lemma returns_with_hasKey [ret]:
  "node_inv E s \<Longrightarrow> (\<And>b. returns (cont b (gtouch E key s))) \<Longrightarrow> returns (with_hasKey E key s cont)"
  by (simp add: with_hasKey_alt)

lemma returns_replies [ret]:
  "returns (errorCustomError E m c s)" "returns (errorInvalidParams E s)" "returns (errorInvalidPaymentID E s)"
  "returns (errorInternalError E m s)" "returns (sendOkResponseToCryptonode E s)"
  by (simp_all add: reply_defs ret)

lemma returns_splits [ret]:
  "(b \<Longrightarrow> returns x) \<Longrightarrow> (\<not> b \<Longrightarrow> returns y) \<Longrightarrow> returns (if b then x else y)"
  "(p = None \<Longrightarrow> returns x) \<Longrightarrow> (\<And>a. p = Some a \<Longrightarrow> returns (f a)) \<Longrightarrow> returns (case p of None \<Rightarrow> x | Some a \<Rightarrow> f a)"
  "(\<And>a c. q = (a, c) \<Longrightarrow> returns (g a c)) \<Longrightarrow> returns (case q of (a, c) \<Rightarrow> g a c)"
  by (auto split: option.split prod.split)

text \<open>What a read of each kind of key finds.\<close>

lemma read_supernode: "well_typed ''supernode'' v \<Longrightarrow> \<exists>p. v = AnySupernode (Some p)"
  by (cases v) (auto simp: well_typed_def split: option.splits)

lemma read_fsl: "well_typed ''fsl'' v \<Longrightarrow> v = AnyFsl True"
  by (simp add: well_typed_def)

lemma read_values:
  "well_typed (p @ '':status'') v \<Longrightarrow> \<exists>i. v = AnyInt i"
  "well_typed (p @ '':saledetails'') v \<Longrightarrow> \<exists>i. v = AnyStr i" "well_typed (p @ '':sale'') v \<Longrightarrow> \<exists>d. v = AnySaleData d"
  "well_typed ''testnet'' v \<Longrightarrow> \<exists>b. v = AnyBool b" "well_typed ''cryptonode_rpc_address'' v \<Longrightarrow> \<exists>i. v = AnyStr i"
  by (cases v; simp add: well_typed_def)+

lemma returns_essential [ret]:
  "node_inv E s \<Longrightarrow> (\<And>p s'. node_inv E s' \<Longrightarrow> returns (cont (Some p) s')) \<Longrightarrow>
     returns (with_global E as_Supernode ''supernode'' d s cont)"
  "node_inv E s \<Longrightarrow> (\<And>s'. node_inv E s' \<Longrightarrow> returns (cont1 True s')) \<Longrightarrow> returns (with_global E as_Fsl ''fsl'' d s cont1)"
  "node_inv E s \<Longrightarrow> (\<And>x s'. node_inv E s' \<Longrightarrow> returns (cont2 x s')) \<Longrightarrow> returns (with_global E as_bool ''testnet'' d s cont2)"
  "node_inv E s \<Longrightarrow> (\<And>x s'. node_inv E s' \<Longrightarrow> returns (cont3 x s')) \<Longrightarrow>
     returns (with_global E as_str ''cryptonode_rpc_address'' d s cont3)"
  by (rule returns_with_global; force dest: read_supernode read_fsl read_values)+

lemma returns_values [ret]:
  "node_inv E s \<Longrightarrow> (\<And>x s'. node_inv E s' \<Longrightarrow> returns (cont x s')) \<Longrightarrow>
     returns (with_global E as_int (p @ '':status'') (AnyInt i) s cont)"
  "node_inv E s \<Longrightarrow> (\<And>x s'. node_inv E s' \<Longrightarrow> returns (cont1 x s')) \<Longrightarrow>
     returns (with_global E as_str (p @ '':saledetails'') (AnyStr j) s cont1)"
  "node_inv E s \<Longrightarrow> (\<And>x s'. node_inv E s' \<Longrightarrow> returns (cont2 x s')) \<Longrightarrow>
     returns (with_global E as_SaleData (p @ '':sale'') (AnySaleData w) s cont2)"
  by (rule returns_with_global; force dest: read_values split: if_splits)+

lemma returns_deref [ret]: "(\<And>sn. returns (cont sn)) \<Longrightarrow> returns (deref (Some p) s cont)"
  by (simp add: deref_def)

lemma returns_status:
  assumes "node_inv E s"
  shows "returns (saleStatusHandler E vars input s)" "returns (payStatusHandler E vars input s)"
    "returns (updateSaleStatusHandler E vars input s)" "returns (saleCryptonodeHandler E vars input s)"
  unfolding saleStatusHandler_def payStatusHandler_def updateSaleStatusHandler_def saleCryptonodeHandler_def Let_def
  by (intro ret assms | assumption)+

lemma returns_lists:
  assumes "node_inv E s"
  shows "returns (supernodeStakesHandler E vars input s)" "returns (blockchainBasedListHandler E vars input s)"
    "returns (handleSupernodeAnnounce E input s)" "returns (sendAnnounce E vars input s)"
proof -
  show "returns (supernodeStakesHandler E vars input s)" "returns (blockchainBasedListHandler E vars input s)"
    unfolding supernodeStakesHandler_def blockchainBasedListHandler_def by (intro ret assms | assumption)+
  show "returns (handleSupernodeAnnounce E input s)"
    unfolding handleSupernodeAnnounce_def Let_def exists_sn_def get_sn_def
    by (intro ret assms | assumption | clarsimp)+
  show "returns (sendAnnounce E vars input s)"
    unfolding sendAnnounce_def Let_def by (cases "m_last_status (h_ctx s)"; simp; intro ret assms; clarsimp?; intro ret)+
qed

text \<open>Handlers that return a status for every input, in every state with the invariant.\<close>

definition answered_handlers where
  "answered_handlers E = [saleStatusHandler E, payStatusHandler E, updateSaleStatusHandler E, saleCryptonodeHandler E,
     supernodeStakesHandler E, blockchainBasedListHandler E, sendAnnounce E]"

lemma returns_answered: "node_inv E s \<Longrightarrow> h \<in> set (answered_handlers E) \<Longrightarrow> returns (h (vars :: vars_t) input s)"
  by (auto simp: answered_handlers_def returns_status returns_lists)

lemma answered_are_handlers: "h \<in> set (answered_handlers E) \<Longrightarrow> h \<in> set (node_handlers E)"
  by (auto simp: answered_handlers_def node_handlers_def)

lemma refused_vote:
  assumes "node_inv E s" "get_Multicast (e_codec E) (body input) = Some req"
    and "b64_AuthResponse (e_codec E) (mc_data req) = Some vote" "ar_result vote \<in> {0, 1}"
  shows "handleRtaAuthResponseMulticast E input s =
    errorCustomError E (''unknown tx: '' @ ar_tx_id vote) ERROR_INTERNAL_ERROR
      (gtouch E (ar_tx_id vote @ '':tx_id_to_payment_id'') (gtouch E ''supernode'' s))"
proof -
  from assms(1) have "gwf E s" "permanent (e_hash E) (global_map s) ''supernode''"
    and t: "\<And>k v. glookup E s k = Some v \<Longrightarrow> well_typed k v"
    by (simp_all add: node_inv_def)
  then obtain p where "glookup E s ''supernode'' = Some (AnySupernode (Some p))"
    using read_supernode t by (fastforce simp: permanent_def glookup_def ht_lookup_node split: option.splits)
  moreover have "glookup E s (ar_tx_id vote @ '':tx_id_to_payment_id'') = None"
    by (rule never_None [OF assms(1)]) simp
  ultimately show ?thesis
    using \<open>gwf E s\<close> assms(2-4)
    by (auto simp: handleRtaAuthResponseMulticast_def rta_simps errorCustomError_def)
qed

section \<open>Properties\<close>

lemma reach_env:
  assumes "node_reach E0 g" "same_node E0 E"
  shows "node_inv E \<lparr>h_ctx = c, h_g = g, h_out = ou\<rparr>"
  using node_reach_inv [OF assms(1), of c ou] node_inv_same [OF assms(2), of "\<lparr>h_ctx = c, h_g = g, h_out = ou\<rparr>"] by simp

text \<open>
  C4. Types of the global context. In every state a node can reach, by any sequence of requests
  with any contents, of periodic tasks and of cleanups, each entry of the global context holds
  a value of the type its kind of key is read with; the supernode, the list, the network and
  the address of the cryptonode are always there; and every listed supernode stands under the
  name of its own identity key.
\<close>

theorem context_typed:
  assumes "node_reach E0 g"
  shows "(\<forall>k v. ht_lookup (e_hash E0) (g_map g) k = Some v \<longrightarrow> well_typed k v) \<and>
    (\<forall>k\<in>set essential. ht_lookup (e_hash E0) (g_map g) k \<noteq> None) \<and>
    (\<forall>i p. m_list (g_fsl g) i = Some p \<longrightarrow> i = idKeyAsString (e_crypto E0) (sn_heap (g_fsl g) p))"
proof -
  let ?s = "\<lparr>h_ctx = new_Ctx Map.empty, h_g = g, h_out = empty_Output\<rparr>"
  have i: "node_inv E0 ?s" by (rule node_reach_inv [OF assms])
  then have "permanent (e_hash E0) (g_map g) k" if "k \<in> set essential" for k
    using that unfolding node_inv_def by (metis hst.select_convs(2))
  then have "\<forall>k\<in>set essential. ht_lookup (e_hash E0) (g_map g) k \<noteq> None"
    by (metis (no_types, lifting) ht_lookup_node option.case_eq_if option.map_disc_iff permanent_def)
  with i wf_fslD(2) [of "e_crypto E0" "g_fsl g"] show ?thesis by (auto simp: node_inv_def glookup_def)
qed

text \<open>A node that has just come up, for the examples.\<close>

definition demo_boot :: "codec \<Rightarrow> files \<times> (string, string, nat) hst \<times> outcome" where
  "demo_boot cd = prepareSupernode (demo_rta cd)
     \<lparr>cfg_data_dir = ''d'', cfg_wallet_public_address = ''w'', cfg_cryptonode_rpc_address = ''r'',
      cfg_http_address = ''h'', cfg_testnet = False\<rparr>
     \<lparr>su_data_exists = True, su_create = (\<lambda>_. None), su_files = Map.empty, su_save_ok = True,
      su_rename_ok = True, su_generated = (''k'', ''k''), su_null_key = []\<rparr>
     \<lparr>h_ctx = new_Ctx Map.empty, h_g = \<lparr>g_map = new_ht 64, g_fsl = demo_fsl\<rparr>, h_out = empty_Output\<rparr>"

definition demo_node :: "codec \<Rightarrow> (string, string, nat) rta_global" where
  "demo_node cd = h_g (fst (snd (demo_boot cd)))"

lemma same_node_refl: "same_node E E"
  by (simp add: same_node_def)

lemma demo_reach: "node_reach (demo_rta cd) (demo_node cd)"
proof -
  obtain fs s1 oc where b: "demo_boot cd = (fs, s1, oc)" by (metis prod.collapse)
  then have "oc = Ret StOk"
    by (auto simp: demo_boot_def prepareSupernode_def loadKeys_def saveKeys_def Let_def split: prod.splits)
  with b have "prepareSupernode (demo_rta cd)
     \<lparr>cfg_data_dir = ''d'', cfg_wallet_public_address = ''w'', cfg_cryptonode_rpc_address = ''r'',
      cfg_http_address = ''h'', cfg_testnet = False\<rparr>
     \<lparr>su_data_exists = True, su_create = (\<lambda>_. None), su_files = Map.empty, su_save_ok = True,
      su_rename_ok = True, su_generated = (''k'', ''k''), su_null_key = []\<rparr>
     (\<lparr>h_ctx = new_Ctx Map.empty, h_g = \<lparr>g_map = new_ht 64, g_fsl = demo_fsl\<rparr>, h_out = empty_Output\<rparr>) = (fs, s1, Ret StOk)"
    by (simp only: demo_boot_def)
  from node_reach.start [OF same_node_refl [of "demo_rta cd"] _ _ this, of 64] b show ?thesis by (simp add: demo_node_def)
qed

theorem context_typed_witness:
  "case ht_lookup demo_hash (g_map (demo_node demo_codec)) ''supernode'' of
     Some v \<Rightarrow> well_typed ''supernode'' v | None \<Rightarrow> False"
  using context_typed [OF demo_reach [of demo_codec]] by (auto split: option.split)

text \<open>
  C39. No transaction is ever authorised. In every state a node can reach, a verdict on a
  transaction, whatever its sender, signature and result, is refused as one on an unknown
  transaction, and changes no value of the context: the code that would store a payment or a
  transaction under authorisation is never reached.
\<close>

theorem verdicts_are_refused:
  assumes "node_reach E0 g" "same_node E0 E" "s = \<lparr>h_ctx = c, h_g = g, h_out = ou\<rparr>"
    and "\<not> has_local ''authorizeRtaTxResponseHandler'' s"
    and "get_Multicast (e_codec E) (body input) = Some req"
    and "b64_AuthResponse (e_codec E) (mc_data req) = Some vote"
    and "ar_result vote \<in> {auth_int Approved, auth_int Rejected}"
    and "authorizeRtaTxResponseHandler E vars input s = (s', oc)"
  shows "oc = Ret StError \<and>
    body (h_out s') = print_msg (e_codec E) (JErrorResponse ERROR_INTERNAL_ERROR (''unknown tx: '' @ ar_tx_id vote)) \<and>
    (\<forall>k. glookup E s' k = glookup E s k) \<and> g_fsl (h_g s') = g_fsl g"
proof -
  have i: "node_inv E s" unfolding assms(3) by (rule reach_env [OF assms(1,2)])
  let ?s1 = "set_local ''authorizeRtaTxResponseHandler'' (AnyState RtaAuthResponseHandlerState 1) s"
  have "gwf E s" using i by (simp add: node_inv_def)
  with refused_vote [OF inv_frame(1) [OF i] assms(5,6), of "''authorizeRtaTxResponseHandler''"] assms(3,4,7,8) show ?thesis
    by (auto simp: authorizeRtaTxResponseHandler_def with_state_def errorCustomError_def rta_simps)
qed

definition demo_vote :: AuthorizeRtaTxResponse where
  "demo_vote = \<lparr>ar_tx_id = ''t'', ar_result = 0, ar_signature = \<lparr>ss_id_key = [], ss_result_signature = [], ss_tx_signature = []\<rparr>\<rparr>"

theorem verdicts_are_refused_witness:
  "let cd = demo_codec\<lparr>get_Multicast := (\<lambda>_. Some (demo_multicast ''x'')), b64_AuthResponse := (\<lambda>_. Some demo_vote)\<rparr>
   in snd (authorizeRtaTxResponseHandler (demo_rta cd) ([] :: vars_t) empty_Input
        \<lparr>h_ctx = new_Ctx Map.empty, h_g = demo_node cd, h_out = empty_Output\<rparr>) = Ret StError"
proof -
  let ?cd = "demo_codec\<lparr>get_Multicast := (\<lambda>_. Some (demo_multicast ''x'')), b64_AuthResponse := (\<lambda>_. Some demo_vote)\<rparr>"
  let ?s = "\<lparr>h_ctx = new_Ctx Map.empty, h_g = demo_node ?cd, h_out = empty_Output\<rparr>"
  obtain s' oc where h: "authorizeRtaTxResponseHandler (demo_rta ?cd) ([] :: vars_t) empty_Input ?s = (s', oc)" by fastforce
  from verdicts_are_refused [OF demo_reach same_node_refl refl _ _ _ _ h,
      where req = "demo_multicast ''x''" and vote = demo_vote] h
  show ?thesis by (simp add: has_local_def new_Ctx_def demo_vote_def Let_def)
qed

text \<open>
  C5. Requests that are always answered. In every state a node can reach, the status requests,
  the status broadcast, the multicast sale, the stakes, the blockchain based list and the
  node's own announce return a status for every input: no cast of a context value fails, no
  missing object is dereferenced, no exception ends the program.
\<close>

theorem requests_answered:
  assumes "node_reach E0 g" "same_node E0 E"
    and "h \<in> set (answered_handlers E) \<or> h = (\<lambda>vars. handleSupernodeAnnounce E)"
  shows "\<exists>st. snd (h (vars :: vars_t) input \<lparr>h_ctx = c, h_g = g, h_out = ou\<rparr>) = Ret st"
  using assms(3) returns_answered [OF reach_env [OF assms(1,2), of c ou]] returns_lists(3) [OF reach_env [OF assms(1,2), of c ou]]
  by (auto simp: returns_def)

theorem requests_answered_witness:
  "\<exists>st. snd (updateSaleStatusHandler (demo_rta demo_codec) ([] :: vars_t) empty_Input
     \<lparr>h_ctx = new_Ctx Map.empty, h_g = demo_node demo_codec, h_out = empty_Output\<rparr>) = Ret st"
  by (rule requests_answered [where h = "updateSaleStatusHandler (demo_rta demo_codec)", OF demo_reach same_node_refl])
    (simp add: answered_handlers_def)

end
