(* ===== verification/Node_Routes.thy ===== *)
theory Node_Routes
  imports Router Rta_Invariant
begin

text \<open>
  The routes of a supernode: the registration functions of the requests (\<^verbatim>\<open>supernode/requests/*.cpp\<close>, \<^verbatim>\<open>requests.cpp\<close>), the routers they
  go to (\<^verbatim>\<open>Supernode::setHttpRouters\<close>) and the generic callback (\<^verbatim>\<open>GraftServer::addGenericCallbackRoute\<close>). The handlers are the
  definitions of the components; the request for system information reads the counters of the task manager, its printed reply is an argument.
\<close>

section \<open>Handlers as actions of a route\<close>

definition h3_worker where
  "h3_worker h = \<lparr>pre_action = None, worker_action = Some (run_handler h), post_action = None, h3_name = []\<rparr>"

definition h3_pre where
  "h3_pre h = \<lparr>pre_action = Some (run_handler h), worker_action = None, post_action = None, h3_name = []\<rparr>"

definition genericCallback where
  "genericCallback E vars input s =
     (case map_of vars ''id'' of
        None \<Rightarrow> (s\<lparr>h_out := (h_out s)\<lparr>body := ''Cannot find callback UUID''\<rparr>\<rparr>, Ret StError)
      | Some i \<Rightarrow>
          (case e_parse_uuid E i of
             None \<Rightarrow> (s, Throw ''invalid uuid string'')
           | Some u \<Rightarrow> (s\<lparr>h_ctx := (h_ctx s)\<lparr>m_nextUuid := u\<rparr>\<rparr>, Ret StOk)))"

definition sysInfoHandler where
  "sysInfoHandler reply vars input s = (s\<lparr>h_out := (h_out s)\<lparr>body := reply\<rparr>\<rparr>, Ret StOk)"

section \<open>Registration\<close>

definition registerSaleRequest where
  "registerSaleRequest E router =
     addRoute ''/cryptonode/sale'' METHOD_POST (h3_worker (saleCryptonodeHandler E))
       (addRoute ''/sale'' METHOD_POST (h3_worker (saleClientHandler E)) router)"

definition registerSaleStatusRequest where
  "registerSaleStatusRequest E router =
     addRoute ''/cryptonode/update_sale_status'' METHOD_POST (h3_pre (updateSaleStatusHandler E))
       (addRoute ''/sale_status'' METHOD_POST (h3_pre (saleStatusHandler E)) router)"

definition registerRejectSaleRequest where
  "registerRejectSaleRequest E router = addRoute ''/reject_sale'' METHOD_POST (h3_worker (rejectSaleHandler E)) router"

definition registerGetInfoRequest where
  "registerGetInfoRequest E router = addRoute ''/cryptonode/getinfo'' METHOD_GET (h3_worker (getInfoHandler E)) router"

definition registerSaleDetailsRequest where
  "registerSaleDetailsRequest E router =
     addRoute ''/cryptonode/sale_details/'' METHOD_POST (h3_worker (saleDetailsUnicastHandler E))
       (addRoute ''/cryptonode/callback/sale_details/{id:[0-9a-fA-F-]+}'' METHOD_POST (h3_worker (saleDetailsCallbackHandler E))
         (addRoute ''/sale_details'' METHOD_POST (h3_worker (saleDetailsClientHandler E)) router))"

definition registerPayRequest where
  "registerPayRequest E router = addRoute ''/pay'' METHOD_POST (h3_worker (payClientHandler E)) router"

definition registerPayStatusRequest where
  "registerPayStatusRequest E router = addRoute ''/pay_status'' METHOD_POST (h3_pre (payStatusHandler E)) router"

definition registerRejectPayRequest where
  "registerRejectPayRequest E router = addRoute ''/reject_pay'' METHOD_POST (h3_worker (rejectPayHandler E)) router"

definition registerAuthorizeRtaTxRequests where
  "registerAuthorizeRtaTxRequests E router =
     addRoute ''/cryptonode/authorize_rta_tx_response'' METHOD_POST (h3_worker (authorizeRtaTxResponseHandler E))
       (addRoute ''/cryptonode/authorize_rta_tx_request'' METHOD_POST (h3_worker (authorizeRtaTxRequestHandler E)) router)"

definition registerSendSupernodeAnnounceRequest where
  "registerSendSupernodeAnnounceRequest E router =
     addRoute ''/send_supernode_announce'' METHOD_POST (h3_worker (sendSupernodeAnnounceHandler E)) router"

definition registerSendSupernodeStakesRequest where
  "registerSendSupernodeStakesRequest E router =
     addRoute ''/send_supernode_stakes'' METHOD_POST (h3_worker (supernodeStakesHandler E)) router"

definition registerBlockchainBasedListRequest where
  "registerBlockchainBasedListRequest E router =
     addRoute ''/blockchain_based_list'' METHOD_POST (h3_worker (blockchainBasedListHandler E)) router"

definition registerRTARequests where
  "registerRTARequests E router =
     registerBlockchainBasedListRequest E (registerSendSupernodeStakesRequest E (registerSendSupernodeAnnounceRequest E
       (registerAuthorizeRtaTxRequests E (registerRejectPayRequest E (registerPayStatusRequest E (registerPayRequest E
         (registerSaleDetailsRequest E (registerGetInfoRequest E (registerRejectSaleRequest E (registerSaleStatusRequest E
           (registerSaleRequest E router)))))))))))"

definition registerWalletApiRequests where
  "registerWalletApiRequests E router = addRoute ''/send_transfer'' METHOD_POST (h3_worker (sendTransferHandler E)) router"

definition registerForwardRequest where
  "registerForwardRequest E router =
     addRoute ''/{forward:gethashes.bin|json_rpc|getblocks.bin|gettransactions|sendrawtransaction|getheight|get_transaction_pool_hashes.bin|get_outs.bin}''
       (or METHOD_POST METHOD_GET) (h3_pre (cryptonodeForwardHandler E)) router"

definition registerForward where
  "registerForward E router =
     addRoute ''/walletapi/{forward:create_account|restore_account|wallet_balance|prepare_transfer|transaction_history}''
       METHOD_POST (h3_worker (walletForwardHandler E)) router"

definition registerForwardRequests where
  "registerForwardRequests E router = registerForward E (registerForwardRequest E router)"

definition registerHealthcheckRequest where
  "registerHealthcheckRequest E router = addRoute ''/health'' METHOD_GET (h3_worker (healthcheckHandler E)) router"

definition registerDebugRequests where
  "registerDebugRequests E reply router =
     addRoute ''/sys_info'' METHOD_GET (h3_worker (sysInfoHandler reply))
       (addRoute ''/debug/auth_sample/{payment_id:[0-9a-zA-Z]+}'' METHOD_GET (h3_worker (getAuthSample E))
         (addRoute ''/debug/close_wallets/'' METHOD_POST (h3_worker (closeStakeWallets E))
           (addRoute ''/debug/announce'' METHOD_POST (h3_worker (doAnnounce E))
             (addRoute ''/debug/auth_sample_blockchain_based_list/{block_height:[0-9]+}'' METHOD_GET
                 (h3_worker (getBlockchainBasedListImpl ModeForAuthSample E))
               (addRoute ''/debug/blockchain_based_list/{block_height:[0-9]+}'' METHOD_GET (h3_worker (getBlockchainBasedListImpl ModeSource E))
                 (addRoute ''/debug/supernode_list/{all:[0-1]}'' METHOD_GET (h3_worker (getSupernodeList E)) router))))))"

section \<open>The routers of the HTTP manager\<close>

definition setHttpRouters where
  "setHttpRouters E reply rt =
     addRouter (registerDebugRequests E reply (new_Router []))
       (addRouter (registerHealthcheckRequest E (new_Router []))
         (addRouter (registerForwardRequests E (new_Router []))
           (addRouter (registerWalletApiRequests E (new_Router ''/walletapi''))
             (addRouter (registerRTARequests E (new_Router ''/dapi/v2.0'')) rt))))"

definition addGenericCallbackRoute where
  "addGenericCallbackRoute E rt =
     addRouter (addRoute ''/callback/{id:[0-9a-fA-F-]+}'' METHOD_POST (h3_worker (genericCallback E)) (new_Router [])) rt"

definition node_root where
  "node_root E reply = setHttpRouters E reply (addGenericCallbackRoute E new_Root)"

lemmas register_defs = setHttpRouters_def addGenericCallbackRoute_def node_root_def registerRTARequests_def registerSaleRequest_def
  registerSaleStatusRequest_def registerRejectSaleRequest_def registerGetInfoRequest_def registerSaleDetailsRequest_def registerPayRequest_def
  registerPayStatusRequest_def registerRejectPayRequest_def registerAuthorizeRtaTxRequests_def registerSendSupernodeAnnounceRequest_def
  registerSendSupernodeStakesRequest_def registerBlockchainBasedListRequest_def registerWalletApiRequests_def registerForwardRequest_def
  registerForward_def registerForwardRequests_def registerHealthcheckRequest_def registerDebugRequests_def
  addRouter_def addRoute_def new_Router_def new_Root_def root_routes_def

definition node_table :: "(string \<times> method_bits) list" where
  "node_table =
    [(''/sys_info'', 2), (''/debug/auth_sample/{payment_id:[0-9a-zA-Z]+}'', 2), (''/debug/close_wallets/'', 4), (''/debug/announce'', 4),
     (''/debug/auth_sample_blockchain_based_list/{block_height:[0-9]+}'', 2), (''/debug/blockchain_based_list/{block_height:[0-9]+}'', 2),
     (''/debug/supernode_list/{all:[0-1]}'', 2), (''/health'', 2),
     (''/walletapi/{forward:create_account|restore_account|wallet_balance|prepare_transfer|transaction_history}'', 4),
     (''/{forward:gethashes.bin|json_rpc|getblocks.bin|gettransactions|sendrawtransaction|getheight|get_transaction_pool_hashes.bin|get_outs.bin}'', 6),
     (''/walletapi/send_transfer'', 4), (''/dapi/v2.0/blockchain_based_list'', 4), (''/dapi/v2.0/send_supernode_stakes'', 4),
     (''/dapi/v2.0/send_supernode_announce'', 4), (''/dapi/v2.0/cryptonode/authorize_rta_tx_response'', 4),
     (''/dapi/v2.0/cryptonode/authorize_rta_tx_request'', 4), (''/dapi/v2.0/reject_pay'', 4), (''/dapi/v2.0/pay_status'', 4), (''/dapi/v2.0/pay'', 4),
     (''/dapi/v2.0/cryptonode/sale_details/'', 4), (''/dapi/v2.0/cryptonode/callback/sale_details/{id:[0-9a-fA-F-]+}'', 4),
     (''/dapi/v2.0/sale_details'', 4), (''/dapi/v2.0/cryptonode/getinfo'', 2), (''/dapi/v2.0/reject_sale'', 4),
     (''/dapi/v2.0/cryptonode/update_sale_status'', 4), (''/dapi/v2.0/sale_status'', 4), (''/dapi/v2.0/cryptonode/sale'', 4), (''/dapi/v2.0/sale'', 4),
     (''/callback/{id:[0-9a-fA-F-]+}'', 4)]"

lemma node_routes_table: "map (\<lambda>r. (r_endpoint r, r_methods r)) (root_routes (node_root E reply)) = node_table"
  by (simp add: register_defs node_table_def METHOD_defs)

section \<open>The table of the node\<close>

lemma check_distinct:
  "distinct (map r_endpoint rs) \<Longrightarrow> (\<And>r. r \<in> set rs \<Longrightarrow> m (r_endpoint r) = None) \<Longrightarrow> check_routes m rs = []"
proof (induction rs arbitrary: m)
  case (Cons r rs)
  have n: "(m(r_endpoint r \<mapsto> r_methods r)) (r_endpoint x) = None" if "x \<in> set rs" for x 
  proof -
    have "r_endpoint x \<noteq> r_endpoint r" using Cons.prems(1) that by (metis distinct.simps(2) image_eqI list.set_map list.simps(9))
    then show ?thesis using Cons.prems(2) [of x] that by simp
  qed
  have "check_routes (m(r_endpoint r \<mapsto> r_methods r)) rs = []" by (rule Cons.IH; (rule n)?) (use Cons.prems(1) in simp_all)
  moreover have "m (r_endpoint r) = None" using Cons.prems(2) by simp
  ultimately show ?case by simp
qed simp

lemma node_endpoints_distinct: "distinct (map fst node_table)"
  by code_simp

lemma node_check_clear:
  "distinct (map r_endpoint (root_routes (node_root E reply)))" "length (root_routes (node_root E reply)) = 29"
  "dbgCheckConflictRoutes (node_root E reply) = []"
proof -
  have e: "map r_endpoint (root_routes (node_root E reply)) = map fst node_table"
    using arg_cong [OF node_routes_table, of "map fst" E reply] by (simp add: comp_def)
  show d: "distinct (map r_endpoint (root_routes (node_root E reply)))" unfolding e by (rule node_endpoints_distinct)
  have "length node_table = 29" by (simp add: node_table_def)
  then show "length (root_routes (node_root E reply)) = 29" using arg_cong [OF e, of length] by simp
  show "dbgCheckConflictRoutes (node_root E reply) = []" using check_distinct [OF d] by (simp add: dbgCheckConflictRoutes_def)
qed

text \<open>
  The routes of a supernode do not conflict: the check that the server runs at its start passes, and in fact no endpoint is registered twice.
\<close>

theorem node_routes_ok:
  "dbgCheckConflictRoutes (node_root E reply) = [] \<and> conflict_free (root_routes (node_root E reply)) \<and>
   length (root_routes (node_root E reply)) = 29"
proof -
  let ?rs = "root_routes (node_root E reply)"
  have d: "distinct (map r_endpoint ?rs)" by (rule node_check_clear(1))
  have "r_endpoint (?rs ! i) \<noteq> r_endpoint (?rs ! j)" if "i < j" "j < length ?rs" for i j
    using nth_eq_iff_index_eq [OF d, of i j] that by simp
  then have "conflict_free ?rs" by (auto simp: conflict_free_def conflict_def)
  then show ?thesis by (simp add: node_check_clear(2,3))
qed

definition demo_r3 :: r3_api where
  "demo_r3 = \<lparr>r3_compile = (\<lambda>_. None),
     r3_match = (\<lambda>rs t m. map_option (\<lambda>i. (i, [])) (find (\<lambda>i. snd (rs ! i) = t \<and> and (fst (rs ! i)) (of_int m) \<noteq> 0) [0..<length rs]))\<rparr>"

lemma demo_r3_ok: "r3_ok demo_r3"
  by (auto simp: r3_ok_def demo_r3_def find_Some_iff)

end
