(* ===== verification/Radix_Key.thy ===== *)
theory Radix_Key
  imports Ordered_Map
begin

text \<open>
  The keys of the address table (\<^verbatim>\<open>RtEntry\<close> of \<^verbatim>\<open>blacklist.cpp\<close>): an IPv4 address in host order
  with a prefix length, and the three functions on them that the radix tree is instantiated
  with. A key is read as the list of its first \<open>m_prefixLen\<close> bits; the facts below say what
  the shifts and masks of the code do to that list.
\<close>

unbundle bit_operations_syntax

section \<open>Keys\<close>

datatype RtEntry = RtEntry (m_addr: u32) (m_prefixLen: int)

text \<open>\<^verbatim>\<open>operator<\<close> of a key, the order of the children of a node.\<close>

instantiation RtEntry :: linorder
begin

definition less_RtEntry :: "RtEntry \<Rightarrow> RtEntry \<Rightarrow> bool" where
  "less_RtEntry a b =
     (if m_addr a = m_addr b then m_prefixLen a < m_prefixLen b else m_addr a < m_addr b)"

definition less_eq_RtEntry :: "RtEntry \<Rightarrow> RtEntry \<Rightarrow> bool" where
  "less_eq_RtEntry a b \<longleftrightarrow> a < b \<or> a = b"

instance
proof
  fix x y z :: RtEntry
  show "x < y \<longleftrightarrow> x \<le> y \<and> \<not> y \<le> x"
    by (auto simp: less_RtEntry_def less_eq_RtEntry_def split: if_splits)
  show "x \<le> x" by (simp add: less_eq_RtEntry_def)
  show "x \<le> y \<Longrightarrow> y \<le> z \<Longrightarrow> x \<le> z"
    by (auto simp: less_RtEntry_def less_eq_RtEntry_def split: if_splits)
  show "x \<le> y \<Longrightarrow> y \<le> x \<Longrightarrow> x = y"
    by (auto simp: less_RtEntry_def less_eq_RtEntry_def split: if_splits)
  show "x \<le> y \<or> y \<le> x"
    by (cases x; cases y) (auto simp: less_RtEntry_def less_eq_RtEntry_def)
qed

end

text \<open>\<^verbatim>\<open>operator[]\<close>: the bit \<open>n\<close>, counted from the top. The shift is defined for \<open>n < 32\<close>.\<close>

definition entry_bit :: "RtEntry \<Rightarrow> nat \<Rightarrow> bool" where
  "entry_bit e n \<longleftrightarrow> m_addr e AND drop_bit n 0x80000000 \<noteq> 0"

definition radix_length :: "RtEntry \<Rightarrow> int" where
  "radix_length e = m_prefixLen e"

text \<open>
  \<^verbatim>\<open>radix_substr\<close>. The result \<open>None\<close> stands for a failed assertion or, in a build without them, for a
  shift by a negative count. A shift by 32 happens only on the mask 0, which stays 0.
\<close>

definition radix_substr :: "RtEntry \<Rightarrow> int \<Rightarrow> int \<Rightarrow> RtEntry option" where
  "radix_substr e begin num =
     (if 0 \<le> begin \<and> 0 \<le> num \<and> num + begin \<le> 32 then
        let mask = (if num = 32 then 0 else push_bit (nat num) 1) - 1;
            mask' = push_bit (nat (32 - num - begin)) mask
        in Some (RtEntry (push_bit (nat begin) (m_addr e AND mask')) num)
      else None)"

definition radix_join :: "RtEntry \<Rightarrow> RtEntry \<Rightarrow> RtEntry" where
  "radix_join e1 e2 =
     RtEntry (m_addr e1 OR drop_bit (nat (m_prefixLen e1)) (m_addr e2)) (m_prefixLen e1 + m_prefixLen e2)"

definition nul :: RtEntry where
  "nul = RtEntry 0 0"

section \<open>Keys as bit lists\<close>

definition abits :: "RtEntry \<Rightarrow> bool list" where
  "abits e = map (entry_bit e) [0..<32]"

definition ebits :: "RtEntry \<Rightarrow> bool list" where
  "ebits e = take (nat (m_prefixLen e)) (abits e)"

definition key_ok :: "RtEntry \<Rightarrow> bool" where
  "key_ok e \<longleftrightarrow> 0 \<le> m_prefixLen e \<and> m_prefixLen e \<le> 32"

definition canon :: "RtEntry \<Rightarrow> bool" where
  "canon e \<longleftrightarrow> key_ok e \<and> (\<forall>b\<in>set (drop (nat (m_prefixLen e)) (abits e)). \<not> b)"

lemma drop_push_one: "n \<le> k \<Longrightarrow> k < 32 \<Longrightarrow> drop_bit n (push_bit k 1 :: u32) = push_bit (k - n) 1"
  by (rule bit_word_eqI) (auto simp: bit_simps)

lemma entry_bit_iff: "n < 32 \<Longrightarrow> entry_bit e n \<longleftrightarrow> bit (m_addr e) (31 - n)"
proof -
  assume n: "n < 32"
  have "(0x80000000 :: u32) = push_bit 31 1" by (simp add: push_bit_eq_mult)
  then have "drop_bit n (0x80000000 :: u32) = push_bit (31 - n) 1"
    using drop_push_one [of n 31] n by simp
  then show ?thesis
    by (simp add: entry_bit_def bit_iff_and_push_bit_not_eq_0)
qed

lemma length_abits [simp]: "length (abits e) = 32"
  by (simp add: abits_def)

lemma length_ebits [simp]: "key_ok e \<Longrightarrow> length (ebits e) = nat (m_prefixLen e)"
  by (auto simp: ebits_def key_ok_def)

lemma abits_nth: "n < 32 \<Longrightarrow> abits e ! n \<longleftrightarrow> bit (m_addr e) (31 - n)"
  by (simp add: abits_def entry_bit_iff)

lemma abits_inj: "abits a = abits b \<Longrightarrow> m_addr a = m_addr b"
proof -
  assume eq: "abits a = abits b"
  show ?thesis
  proof (rule bit_word_eqI)
    fix n assume "n < LENGTH(32)"
    then have "31 - (31 - n) = n" "31 - n < 32" by auto
    then show "bit (m_addr a) n = bit (m_addr b) n"
      using abits_nth [of "31 - n" a] abits_nth [of "31 - n" b] eq by metis
  qed
qed

lemma ebits_prefix: "prefix (ebits e) (abits e)"
  by (simp add: ebits_def take_is_prefix)

lemma canon_ok [simp]: "canon e \<Longrightarrow> key_ok e" by (simp add: canon_def)

lemma canon_abits: "canon e \<Longrightarrow> abits e = ebits e @ replicate (32 - nat (m_prefixLen e)) False"
proof -
  assume "canon e"
  then have "drop (nat (m_prefixLen e)) (abits e) = replicate (32 - nat (m_prefixLen e)) False"
    by (intro replicate_eqI) (auto simp: canon_def)
  then show ?thesis unfolding ebits_def by (metis append_take_drop_id)
qed

lemma canonI:
  assumes "key_ok e" "abits e = ebits e @ replicate (32 - nat (m_prefixLen e)) False"
  shows "canon e"
proof -
  have "drop (nat (m_prefixLen e)) (abits e) = replicate (32 - nat (m_prefixLen e)) False"
    by (subst assms(2)) (simp add: assms(1))
  with assms(1) show ?thesis by (simp add: canon_def)
qed

lemma canon_inj:
  assumes "canon a" "canon b" "ebits a = ebits b"
  shows "a = b"
proof -
  have "length (ebits a) = length (ebits b)" using assms(3) by simp
  then have "m_prefixLen a = m_prefixLen b" using assms(1,2) by (auto simp: canon_def key_ok_def)
  moreover from this assms have "abits a = abits b" by (simp add: canon_abits)
  ultimately show ?thesis by (intro RtEntry.expand conjI abits_inj)
qed

lemma nul_canon [simp]: "canon nul" and nul_bits [simp]: "ebits nul = []"
  and nul_len [simp]: "m_prefixLen nul = 0"
  by (simp_all add: nul_def canon_def key_ok_def ebits_def abits_def entry_bit_def)

lemma ebits_Nil_iff: "canon e \<Longrightarrow> ebits e = [] \<longleftrightarrow> e = nul"
  using canon_inj [of e nul] by auto

section \<open>What the operations do to the bits\<close>

lemma substr_mask:
  assumes "0 \<le> b" "0 \<le> n" "n + b \<le> 32" "j < 32"
  shows "bit (push_bit (nat (32 - n - b)) ((if n = 32 then 0 else push_bit (nat n) 1) - 1) :: u32) j \<longleftrightarrow>
    nat (32 - n - b) \<le> j \<and> j < nat (32 - b)"
proof -
  have m: "(if n = 32 then 0 else push_bit (nat n) 1) - 1 = (mask (nat n) :: u32)"
    by (auto simp: mask_eq_exp_minus_1 push_bit_eq_mult)
  show ?thesis unfolding m using assms by (auto simp: bit_simps)
qed

lemma bit_push_and:
  "\<not> 31 - i < b \<Longrightarrow> i < 32 \<Longrightarrow> bit (push_bit b (x AND M) :: u32) (31 - i) \<longleftrightarrow> bit x (31 - i - b) \<and> bit M (31 - i - b)"
  by (auto simp add: bit_push_bit_iff bit_and_iff)

lemma substr_abits:
  assumes "0 \<le> b" "0 \<le> n" "n + b \<le> 32" "radix_substr e b n = Some r" "i < 32"
  shows "abits r ! i \<longleftrightarrow> i < nat n \<and> abits e ! (i + nat b)"
proof -
  let ?M = "push_bit (nat (32 - n - b)) ((if n = 32 then 0 else push_bit (nat n) 1) - 1) :: u32"
  have r: "m_addr r = push_bit (nat b) (m_addr e AND ?M)"
    using assms by (auto simp: radix_substr_def Let_def)
  show ?thesis
  proof (cases "31 - i < nat b")
    case True
    then show ?thesis using assms by (auto simp: abits_nth r bit_simps)
  next
    case False
    then have "bit (push_bit (nat b) (m_addr e AND ?M)) (31 - i) \<longleftrightarrow>
        bit (m_addr e) (31 - i - nat b) \<and> bit ?M (31 - i - nat b)"
      using assms(5) by (rule bit_push_and)
    moreover have "bit ?M (31 - i - nat b) \<longleftrightarrow> i < nat n"
      using substr_mask [OF assms(1-3), of "31 - i - nat b"] assms False by auto
    moreover have "31 - i - nat b = 31 - (i + nat b)" by simp
    ultimately show ?thesis using assms False by (simp add: abits_nth r) linarith
  qed
qed

lemma substr_bits:
  assumes "radix_substr e b n = Some r"
  shows "canon r" "ebits r = take (nat n) (drop (nat b) (abits e))" "m_prefixLen r = n"
proof -
  from assms have c: "0 \<le> b" "0 \<le> n" "n + b \<le> 32" by (auto simp: radix_substr_def split: if_splits)
  show l: "m_prefixLen r = n" using assms c by (auto simp: radix_substr_def Let_def)
  have k: "key_ok r" using l c by (simp add: key_ok_def)
  show bits: "ebits r = take (nat n) (drop (nat b) (abits e))"
    by (rule nth_equalityI) (use k l c substr_abits [OF c assms] in \<open>auto simp: ebits_def add.commute\<close>)
  show "canon r"
    unfolding canon_def using k l c substr_abits [OF c assms]
    by (auto simp: in_set_conv_nth)
qed

lemma substr_some: "0 \<le> b \<Longrightarrow> 0 \<le> n \<Longrightarrow> n + b \<le> 32 \<Longrightarrow> \<exists>r. radix_substr e b n = Some r"
  by (simp add: radix_substr_def Let_def)

lemma substr_none: "radix_substr e b n = None \<longleftrightarrow> \<not> (0 \<le> b \<and> 0 \<le> n \<and> n + b \<le> 32)"
  by (simp add: radix_substr_def Let_def)

lemma substr_nul [simp]: "radix_substr e 0 0 = Some nul"
  by (simp add: radix_substr_def nul_def)

lemma join_bits:
  assumes "canon a" "canon b" "m_prefixLen a + m_prefixLen b \<le> 32"
  shows "canon (radix_join a b)" "ebits (radix_join a b) = ebits a @ ebits b"
    "m_prefixLen (radix_join a b) = m_prefixLen a + m_prefixLen b"
proof -
  let ?r = "radix_join a b"
  let ?x = "nat (m_prefixLen a)" and ?y = "nat (m_prefixLen b)"
  have c: "0 \<le> m_prefixLen a" "0 \<le> m_prefixLen b" using assms by (auto simp: canon_def key_ok_def)
  show l: "m_prefixLen ?r = m_prefixLen a + m_prefixLen b" by (simp add: radix_join_def)
  have k: "key_ok ?r" using l c assms by (simp add: key_ok_def)
  have ab: "abits ?r = ebits a @ ebits b @ replicate (32 - (?x + ?y)) False"
  proof (rule nth_equalityI)
    fix i assume "i < length (abits ?r)"
    then have i: "i < 32" by simp
    have *: "abits ?r ! i \<longleftrightarrow> abits a ! i \<or> (?x \<le> i \<and> abits b ! (i - ?x))"
    proof (cases "?x \<le> i")
      case True
      then have "?x + (31 - i) = 31 - (i - ?x)" using i by simp
      then show ?thesis using i True by (auto simp: abits_nth radix_join_def bit_simps)
    next
      case False
      then have "\<not> bit (m_addr b) (?x + (31 - i))" using bit_imp_le_length [of "m_addr b"] i by fastforce
      then show ?thesis using i False by (auto simp: abits_nth radix_join_def bit_simps)
    qed
    show "abits ?r ! i = (ebits a @ ebits b @ replicate (32 - (?x + ?y)) False) ! i"
    proof (cases "i < ?x + ?y")
      case False
      then have "i - (?x + ?y) < 32 - (?x + ?y)" "i - (?x + ?y) < 32 - ?y" "i - ?x < 32 - ?x" using i by auto
      with False show ?thesis using * i c assms by (auto simp: canon_abits nth_append)
    qed (use * i c assms in \<open>auto simp: canon_abits nth_append\<close>)
  qed (use assms c in auto)
  show bits: "ebits ?r = ebits a @ ebits b"
    by (subst ebits_def) (use ab l c assms in \<open>auto simp: nat_add_distrib\<close>)
  show "canon ?r" by (rule canonI [OF k]) (use ab bits l c in \<open>simp add: nat_add_distrib\<close>)
qed

declare length_ebits [simp del]

end
