(* ===== verification/Radix_Tree.thy ===== *)
theory Radix_Tree
  imports Radix_Key
begin

text \<open>
  The radix tree behind the address table (\<^verbatim>\<open>radix_tree.hpp\<close>, \<^verbatim>\<open>radix_tree_node.hpp\<close>), at the key
  and value types of \<^verbatim>\<open>blacklist.cpp\<close>.
\<close>

section \<open>Nodes\<close>

text \<open>
  A node with its children in key order. The parent pointer of the code is the position of
  the node: an operation that walks up carries the list of ancestors, nearest first.
\<close>

datatype rnode = RNode
  (m_key: RtEntry) (m_depth: int) (m_is_leaf: bool) (m_value: "(RtEntry \<times> bool) option")
  (m_children: "(RtEntry \<times> rnode) list")

definition empty_node :: rnode where
  "empty_node = RNode nul 0 False None []"

definition with_children :: "(RtEntry \<times> rnode) list \<Rightarrow> rnode \<Rightarrow> rnode" where
  "with_children cs n = RNode (m_key n) (m_depth n) (m_is_leaf n) (m_value n) cs"

text \<open>A changed node put back below its ancestors.\<close>

fun replug :: "rnode \<Rightarrow> rnode list \<Rightarrow> rnode" where
  "replug n [] = n"
| "replug n (p # ps) = replug (with_children (omap_assign (m_key n) n (m_children p)) p) ps"

record radix_tree =
  m_size :: nat
  m_root :: "rnode option"

definition new_tree :: radix_tree where
  "new_tree = \<lparr>m_size = 0, m_root = None\<rparr>"

definition clear :: "radix_tree \<Rightarrow> radix_tree" where
  "clear t = t\<lparr>m_root := None, m_size := 0\<rparr>"

section \<open>Searching\<close>

text \<open>
  \<^verbatim>\<open>find_node\<close>: the node found together with its ancestors. The loop over the children is the
  second function.
\<close>

fun find_node :: "RtEntry \<Rightarrow> int \<Rightarrow> rnode \<Rightarrow> rnode list \<Rightarrow> (rnode \<times> rnode list) option"
and find_child :: "RtEntry \<Rightarrow> int \<Rightarrow> rnode \<Rightarrow> rnode list \<Rightarrow> (RtEntry \<times> rnode) list \<Rightarrow> (rnode \<times> rnode list) option" where
  "find_node key depth (RNode k d l v cs) up = find_child key depth (RNode k d l v cs) up cs"
| "find_child key depth node up [] = Some (node, up)"
| "find_child key depth node up ((k, c) # it) =
     (if radix_length key - depth = 0 then
        (if m_is_leaf c then Some (c, node # up) else find_child key depth node up it)
      else if \<not> m_is_leaf c \<and> entry_bit key (nat depth) = entry_bit k 0 then
        (case radix_substr key depth (radix_length k) of
           None \<Rightarrow> None
         | Some key_sub \<Rightarrow>
             if key_sub = k then find_node key (depth + radix_length k) c (node # up)
             else Some (c, node # up))
      else find_child key depth node up it)"

definition find :: "RtEntry \<Rightarrow> radix_tree \<Rightarrow> (RtEntry \<times> bool) option" where
  "find key t =
     (case m_root t of
        None \<Rightarrow> None
      | Some root \<Rightarrow>
          (case find_node key 0 root [] of
             Some (node, _) \<Rightarrow> if m_is_leaf node then m_value node else None
           | None \<Rightarrow> None))"

fun climb :: "rnode list \<Rightarrow> (RtEntry \<times> bool) option" where
  "climb [] = None"
| "climb (node # up) =
     (case omap_find (m_children node) nul of
        Some c \<Rightarrow> if m_is_leaf c then m_value c else climb up
      | None \<Rightarrow> climb up)"

text \<open>\<^verbatim>\<open>longest_match\<close>; the outer option is the undefined behaviour, the inner one the end iterator.\<close>

definition longest_match :: "RtEntry \<Rightarrow> radix_tree \<Rightarrow> (RtEntry \<times> bool) option option" where
  "longest_match key t =
     (case m_root t of
        None \<Rightarrow> Some None
      | Some root \<Rightarrow>
          (case find_node key 0 root [] of
             None \<Rightarrow> None
           | Some (node, up) \<Rightarrow>
               if m_is_leaf node then Some (m_value node)
               else
                 (case radix_substr key (m_depth node) (radix_length (m_key node)) of
                    None \<Rightarrow> None
                  | Some key_sub \<Rightarrow> Some (climb (if key_sub \<noteq> m_key node then up else node # up)))))"

fun greedy_match :: "rnode \<Rightarrow> (RtEntry \<times> bool) list"
and greedy_children :: "(RtEntry \<times> rnode) list \<Rightarrow> (RtEntry \<times> bool) list" where
  "greedy_match (RNode k d l v cs) =
     (if l then (case v of Some val \<Rightarrow> [val] | None \<Rightarrow> []) else greedy_children cs)"
| "greedy_children [] = []"
| "greedy_children ((_, c) # it) = greedy_match c @ greedy_children it"

section \<open>Insertion\<close>

definition append_node :: "rnode \<Rightarrow> RtEntry \<times> bool \<Rightarrow> rnode option" where
  "append_node parent val =
     (let depth = m_depth parent + radix_length (m_key parent);
          len = radix_length (fst val) - depth
      in if len = 0
         then Some (with_children (omap_assign nul (RNode nul depth True (Some val) []) (m_children parent)) parent)
         else
           (case radix_substr (fst val) depth len of
              None \<Rightarrow> None
            | Some key_sub \<Rightarrow>
                let node_cc = RNode nul (depth + len) True (Some val) [];
                    node_c = RNode key_sub depth False (Some val) (omap_assign nul node_cc [])
                in Some (with_children (omap_assign key_sub node_c (m_children parent)) parent)))"

text \<open>The loop that counts the common bits.\<close>

fun common_bits :: "RtEntry \<Rightarrow> RtEntry \<Rightarrow> nat \<Rightarrow> nat \<Rightarrow> nat \<Rightarrow> nat" where
  "common_bits k key depth 0 cnt = cnt"
| "common_bits k key depth (Suc n) cnt =
     (if entry_bit k cnt = entry_bit key (cnt + depth) then common_bits k key depth n (Suc cnt) else cnt)"

definition prepend_node :: "rnode \<Rightarrow> rnode \<Rightarrow> RtEntry \<times> bool \<Rightarrow> rnode option" where
  "prepend_node parent node val =
     (let len1 = radix_length (m_key node);
          len2 = radix_length (fst val) - m_depth node;
          cnt = common_bits (m_key node) (fst val) (nat (m_depth node)) (nat (min len1 len2)) 0
      in if cnt = 0 then None
         else
           (case (radix_substr (m_key node) 0 (int cnt), radix_substr (m_key node) (int cnt) (len1 - int cnt)) of
              (Some key_a, Some key_n) \<Rightarrow>
                let depth' = m_depth node + int cnt;
                    node' = RNode key_n depth' (m_is_leaf node) (m_value node) (m_children node)
                in if int cnt = len2
                   then
                     let node_b = RNode nul (m_depth node + int cnt) True (Some val) [];
                         node_a = RNode key_a (m_depth node) False None (omap_assign nul node_b (omap_assign key_n node' []))
                     in Some (with_children (omap_assign key_a node_a (omap_erase (m_key node) (m_children parent))) parent)
                   else
                     (case radix_substr (fst val) depth' (len2 - int cnt) of
                        None \<Rightarrow> None
                      | Some key_b \<Rightarrow>
                          let node_c = RNode nul (radix_length (fst val)) True (Some val) [];
                              node_b = RNode key_b depth' False None (omap_assign nul node_c []);
                              node_a = RNode key_a (m_depth node) False None (omap_assign key_b node_b (omap_assign key_n node' []))
                          in Some (with_children (omap_assign key_a node_a (omap_erase (m_key node) (m_children parent))) parent))
            | _ \<Rightarrow> None))"

definition insert_val :: "RtEntry \<times> bool \<Rightarrow> radix_tree \<Rightarrow> (radix_tree \<times> bool) option" where
  "insert_val val t =
     (let root = (case m_root t of None \<Rightarrow> empty_node | Some r \<Rightarrow> r) in
      case find_node (fst val) 0 root [] of
        None \<Rightarrow> None
      | Some (node, up) \<Rightarrow>
          if m_is_leaf node then Some (t\<lparr>m_root := Some root\<rparr>, False)
          else if up = [] then
            map_option (\<lambda>r. (\<lparr>m_size = m_size t + 1, m_root = Some r\<rparr>, True)) (append_node node val)
          else
            (case radix_substr (fst val) (m_depth node) (radix_length (m_key node)) of
               None \<Rightarrow> None
             | Some key_sub \<Rightarrow>
                 map_option (\<lambda>r. (\<lparr>m_size = m_size t + 1, m_root = Some r\<rparr>, True))
                   (if key_sub = m_key node
                    then map_option (\<lambda>n. replug n up) (append_node node val)
                    else map_option (\<lambda>p. replug p (tl up)) (prepend_node (hd up) node val))))"

section \<open>Removal\<close>

definition merge_up :: "rnode \<Rightarrow> rnode list \<Rightarrow> rnode" where
  "merge_up grandparent up =
     (case up of
        [] \<Rightarrow> grandparent
      | gp_parent # up' \<Rightarrow>
          (case m_children grandparent of
             [(_, uncle)] \<Rightarrow>
               if m_is_leaf uncle then replug grandparent up
               else
                 let key = radix_join (m_key grandparent) (m_key uncle);
                     uncle' = RNode key (m_depth grandparent) False (m_value uncle) (m_children uncle)
                 in replug (with_children (omap_assign key uncle' (omap_erase (m_key grandparent) (m_children gp_parent)))
                      gp_parent) up'
           | _ \<Rightarrow> replug grandparent up))"

definition erase_leaf :: "rnode \<Rightarrow> rnode list \<Rightarrow> rnode" where
  "erase_leaf parent up =
     (let parent' = with_children (omap_erase nul (m_children parent)) parent in
      case up of
        [] \<Rightarrow> parent'
      | grandparent # up' \<Rightarrow>
          if length (m_children parent') > 1 then replug parent' up
          else if m_children parent' = []
          then merge_up (with_children (omap_erase (m_key parent) (m_children grandparent)) grandparent) up'
          else merge_up parent' up)"

definition erase :: "RtEntry \<Rightarrow> radix_tree \<Rightarrow> (radix_tree \<times> bool) option" where
  "erase key t =
     (case m_root t of
        None \<Rightarrow> Some (t, False)
      | Some root \<Rightarrow>
          (case find_node key 0 root [] of
             None \<Rightarrow> None
           | Some (child, up) \<Rightarrow>
               if \<not> m_is_leaf child then Some (t, False)
               else
                 (case up of
                    [] \<Rightarrow> None
                  | parent # up' \<Rightarrow>
                      Some (\<lparr>m_size = m_size t - 1, m_root = Some (erase_leaf parent up')\<rparr>, True))))"


section \<open>Well-formed trees\<close>

text \<open>
  \<open>rwf p n\<close>: the node \<open>n\<close> hangs below the bits \<open>p\<close>. A leaf carries a value whose key is the whole
  path; the inner children of a node start with different bits.
\<close>

definition first_bits_differ :: "(RtEntry \<times> rnode) list \<Rightarrow> bool" where
  "first_bits_differ cs \<longleftrightarrow> (\<forall>x\<in>set cs. \<forall>y\<in>set cs. \<not> m_is_leaf (snd x) \<longrightarrow> \<not> m_is_leaf (snd y) \<longrightarrow>
     hd (ebits (fst x)) = hd (ebits (fst y)) \<longrightarrow> fst x = fst y)"

text \<open>No chains: an inner node below the root has a leaf or branches.\<close>

definition dense :: "rnode \<Rightarrow> bool" where
  "dense n \<longleftrightarrow> m_is_leaf n \<or> (\<exists>y\<in>set (m_children n). m_is_leaf (snd y)) \<or> 2 \<le> length (m_children n)"

inductive rwf :: "bool list \<Rightarrow> rnode \<Rightarrow> bool" where
  leaf: "ebits (fst val) = p \<Longrightarrow> key_ok (fst val) \<Longrightarrow> d = int (length p) \<Longrightarrow> rwf p (RNode nul d True (Some val) [])"
| inner: "canon k \<Longrightarrow> length p + length (ebits k) \<le> 32 \<Longrightarrow> omap_wf cs \<Longrightarrow>
    (\<forall>x\<in>set cs. fst x = m_key (snd x) \<and> rwf (p @ ebits k) (snd x) \<and> (m_is_leaf (snd x) \<or> ebits (fst x) \<noteq> []) \<and> dense (snd x)) \<Longrightarrow>
    first_bits_differ cs \<Longrightarrow> d = int (length p) \<Longrightarrow> rwf p (RNode k d False v cs)"

inductive_simps rwf_inner_iff: "rwf p (RNode k d False v cs)"
inductive_simps rwf_leaf_iff: "rwf p (RNode k d True v cs)"

lemma rwf_depth: "rwf p n \<Longrightarrow> m_depth n = int (length p)"
  by (cases rule: rwf.cases) auto

lemma rwf_leafD:
  assumes "rwf p n" "m_is_leaf n"
  obtains val where "n = RNode nul (int (length p)) True (Some val) []" "ebits (fst val) = p" "key_ok (fst val)"
  using assms by (cases rule: rwf.cases) auto

lemma rwf_innerD:
  assumes "rwf p n" "\<not> m_is_leaf n"
  shows "canon (m_key n)" "length p + length (ebits (m_key n)) \<le> 32" "omap_wf (m_children n)"
    "first_bits_differ (m_children n)" "m_depth n = int (length p)"
  using assms by (cases rule: rwf.cases; auto)+

lemma rwf_child:
  assumes "rwf p n" "x \<in> set (m_children n)"
  shows "fst x = m_key (snd x)" "rwf (p @ ebits (m_key n)) (snd x)" "m_is_leaf (snd x) \<or> ebits (fst x) \<noteq> []"
    "\<not> m_is_leaf n" "dense (snd x)"
  using assms by (cases rule: rwf.cases; auto)+

lemma rwf_canon: "rwf p n \<Longrightarrow> canon (m_key n)"
  by (cases rule: rwf.cases) auto

lemma rwf_with_children:
  assumes "rwf p n" "\<not> m_is_leaf n" "omap_wf cs" "first_bits_differ cs"
    "\<And>x. x \<in> set cs \<Longrightarrow> fst x = m_key (snd x) \<and> rwf (p @ ebits (m_key n)) (snd x) \<and>
      (m_is_leaf (snd x) \<or> ebits (fst x) \<noteq> []) \<and> dense (snd x)"
  shows "rwf p (with_children cs n)"
proof -
  have "\<forall>x\<in>set cs. fst x = m_key (snd x) \<and> rwf (p @ ebits (m_key n)) (snd x) \<and>
      (m_is_leaf (snd x) \<or> ebits (fst x) \<noteq> []) \<and> dense (snd x)"
    using assms(5) by blast
  then show ?thesis using assms(2-4) rwf_innerD [OF assms(1,2)] unfolding with_children_def
    by (simp only:) (rule rwf.inner; (assumption | simp))
qed

lemma with_children_sel [simp]: "m_key (with_children cs n) = m_key n" "m_is_leaf (with_children cs n) = m_is_leaf n"
  "m_depth (with_children cs n) = m_depth n" "m_children (with_children cs n) = cs"
  by (simp_all add: with_children_def)

text \<open>\<open>on_path r up n p\<close>: following the ancestors \<open>up\<close> from the root \<open>r\<close> one reaches \<open>n\<close>, below the bits \<open>p\<close>.\<close>

fun on_path :: "rnode \<Rightarrow> rnode list \<Rightarrow> rnode \<Rightarrow> bool list \<Rightarrow> bool" where
  "on_path r [] n p \<longleftrightarrow> n = r \<and> p = []"
| "on_path r (q # up) n p \<longleftrightarrow>
     (m_key n, n) \<in> set (m_children q) \<and> (\<exists>p'. on_path r up q p' \<and> p = p' @ ebits (m_key q))"

lemma on_path_rwf: "rwf [] r \<Longrightarrow> on_path r up n p \<Longrightarrow> rwf p n"
proof (induction up arbitrary: n p)
  case (Cons q up)
  then obtain p' where q: "(m_key n, n) \<in> set (m_children q)" "rwf p' q" "p = p' @ ebits (m_key q)" by auto
  then show ?case using rwf_child(2) [OF q(2,1)] by simp
qed simp

lemma on_path_inner: "rwf [] r \<Longrightarrow> \<not> m_is_leaf r \<Longrightarrow> on_path r up n p \<Longrightarrow> q \<in> set up \<Longrightarrow> \<not> m_is_leaf q"
proof (induction up arbitrary: n p)
  case (Cons a up)
  then obtain p' where p': "on_path r up a p'" "(m_key n, n) \<in> set (m_children a)" by auto
  then have "\<not> m_is_leaf a" using on_path_rwf Cons.prems(1) rwf_child(4) by metis
  with Cons p' show ?case by auto
qed simp

section \<open>What the search finds\<close>

lemma prefix_extend:
  "prefix P K \<Longrightarrow> take (length Q) (drop (length P) K) = Q \<longleftrightarrow> prefix (P @ Q) K"
  by (auto simp: prefix_def) (metis append_eq_conv_conj)

definition found :: "rnode \<Rightarrow> RtEntry \<Rightarrow> rnode list \<Rightarrow> rnode \<Rightarrow> bool list \<Rightarrow> bool" where
  "found r key up n p \<longleftrightarrow> on_path r up n p \<and> prefix p (abits key) \<and>
     (if m_is_leaf n then int (length p) = m_prefixLen key \<and> up \<noteq> []
      else if prefix (p @ ebits (m_key n)) (abits key)
      then (\<forall>x\<in>set (m_children n).
              if int (length p + length (ebits (m_key n))) = m_prefixLen key then \<not> m_is_leaf (snd x)
              else m_is_leaf (snd x) \<or> hd (ebits (fst x)) \<noteq> abits key ! (length p + length (ebits (m_key n))))
      else up \<noteq> [] \<and> hd (ebits (m_key n)) = abits key ! length p \<and> int (length p) \<noteq> m_prefixLen key)"

lemma hd_ebits: "canon k \<Longrightarrow> ebits k \<noteq> [] \<Longrightarrow> hd (ebits k) = entry_bit k 0"
  by (cases "m_prefixLen k \<le> 0") (auto simp: ebits_def abits_def hd_conv_nth)

lemma child_step:
  assumes n: "rwf p n" "(k, c) \<in> set (m_children n)" "\<not> m_is_leaf c"
    and K: "prefix (p @ ebits (m_key n)) (abits key)" and d: "d = int (length (p @ ebits (m_key n)))"
  shows "entry_bit key (nat d) = abits key ! nat d" "entry_bit k 0 = hd (ebits k)" "nat d < 32"
    "\<exists>s. radix_substr key d (radix_length k) = Some s \<and>
       (s = k \<longleftrightarrow> prefix (p @ ebits (m_key n) @ ebits k) (abits key))"
    "d + radix_length k = int (length (p @ ebits (m_key n) @ ebits k))"
proof -
  note c = rwf_child [OF n(1,2)]
  have k: "k = m_key c" "rwf (p @ ebits (m_key n)) c" "ebits k \<noteq> []" using c n(3) by auto
  note i = rwf_innerD [OF k(2) n(3)]
  have ck: "canon k" "length (ebits k) > 0" using k i by auto
  have len: "radix_length k = int (length (ebits k))" using ck by (simp add: radix_length_def length_ebits key_ok_def canon_def)
  have "length (p @ ebits (m_key n)) < 32" using i(2) ck(2) unfolding k(1) by linarith
  then show d32: "nat d < 32" using d by simp
  then show "entry_bit key (nat d) = abits key ! nat d" by (simp add: abits_def)
  show "entry_bit k 0 = hd (ebits k)" using hd_ebits [OF ck(1) k(3)] by simp
  show "d + radix_length k = int (length (p @ ebits (m_key n) @ ebits k))" using len d by simp
  obtain s where s: "radix_substr key d (radix_length k) = Some s"
    using substr_some [of d "radix_length k" key] i(2) k len d by auto
  have "s = k \<longleftrightarrow> ebits s = ebits k" using canon_inj [OF substr_bits(1) [OF s] ck(1)] by auto
  also have "\<dots> \<longleftrightarrow> take (length (ebits k)) (drop (length (p @ ebits (m_key n))) (abits key)) = ebits k"
    using substr_bits(2) [OF s] by (simp only: len d nat_int)
  also have "\<dots> \<longleftrightarrow> prefix (p @ ebits (m_key n) @ ebits k) (abits key)" using prefix_extend [OF K, of "ebits k"] by simp
  finally show "\<exists>s. radix_substr key d (radix_length k) = Some s \<and>
       (s = k \<longleftrightarrow> prefix (p @ ebits (m_key n) @ ebits k) (abits key))" using s by blast
qed

lemma find_node_found:
  shows "rwf [] r \<Longrightarrow> on_path r up n p \<Longrightarrow> \<not> m_is_leaf n \<Longrightarrow> prefix (p @ ebits (m_key n)) (abits key) \<Longrightarrow>
      d = int (length (p @ ebits (m_key n))) \<Longrightarrow>
      \<exists>m up' p'. find_node key d n up = Some (m, up') \<and> found r key up' m p'"
    and "rwf [] r \<Longrightarrow> on_path r up n p \<Longrightarrow> \<not> m_is_leaf n \<Longrightarrow> prefix (p @ ebits (m_key n)) (abits key) \<Longrightarrow>
      d = int (length (p @ ebits (m_key n))) \<Longrightarrow> m_children n = pre @ it \<Longrightarrow>
      (\<forall>x\<in>set pre. if d = m_prefixLen key then \<not> m_is_leaf (snd x)
              else m_is_leaf (snd x) \<or> hd (ebits (fst x)) \<noteq> abits key ! nat d) \<Longrightarrow>
      \<exists>m up' p'. find_child key d n up it = Some (m, up') \<and> found r key up' m p'"
proof (induction key d n up and key d n up it arbitrary: p and p pre rule: find_node_find_child.induct)
  case (1 key depth k d l v cs up)
  then show ?case by (auto intro: 1(1) [of p "[]"])
next
  case (2 key depth node up)
  then have "found r key up node p" by (auto simp: found_def nat_add_distrib dest: append_prefixD)
  then show ?case by auto
next
  case (3 key d n up k c it)
  have n: "rwf p n" using on_path_rwf 3 by blast
  have kc: "(k, c) \<in> set (m_children n)" using "3.prems" by auto
  have path: "on_path r (n # up) c (p @ ebits (m_key n))" using 3 kc rwf_child [OF n kc] by auto
  note step = child_step [OF n kc _ "3.prems"(4,5)]
  show ?case
  proof (cases "radix_length key - d = 0")
    case True
    then have d: "d = m_prefixLen key" by (simp add: radix_length_def)
    show ?thesis
    proof (cases "m_is_leaf c")
      case True
      then have "found r key (n # up) c (p @ ebits (m_key n))" using path 3 d by (auto simp: found_def)
      then show ?thesis using True d by (auto simp: radix_length_def)
    next
      case False
      then show ?thesis using 3(1) [of p "pre @ [(k, c)]"] "3.prems" d True by auto
    qed
  next
    case False
    then have d: "d \<noteq> m_prefixLen key" by (simp add: radix_length_def)
    show ?thesis
    proof (cases "\<not> m_is_leaf c \<and> entry_bit key (nat d) = entry_bit k 0")
      case True
      then obtain s where s: "radix_substr key d (radix_length k) = Some s"
          "s = k \<longleftrightarrow> prefix (p @ ebits (m_key n) @ ebits k) (abits key)" using step by auto
      have k: "k = m_key c" using rwf_child [OF n kc] by simp
      show ?thesis
      proof (cases "s = k")
        case sk: True
        then show ?thesis using 3(2) [OF False True s(1) sk, of "p @ ebits (m_key n)"] "3.prems" path s step True k False d
          by (auto simp: radix_length_def)
      next
        case sk: False
        have "found r key (n # up) c (p @ ebits (m_key n))"
          using path sk s True step "3.prems" d k by (auto simp: found_def nat_add_distrib dest: append_prefixD)
        then show ?thesis using False True s sk by auto
      qed
    next
      case nc: False
      then have "m_is_leaf c \<or> hd (ebits k) \<noteq> abits key ! nat d" using step by auto
      then show ?thesis using 3(3) [OF False nc, of p "pre @ [(k, c)]"] "3.prems" d False nc by auto
    qed
  qed
qed

section \<open>The entries of a tree\<close>

lemma greedy_children_concat: "greedy_children cs = concat (map (greedy_match \<circ> snd) cs)"
  by (induction cs) auto

lemma greedy_inner: "\<not> m_is_leaf n \<Longrightarrow> greedy_match n = concat (map (greedy_match \<circ> snd) (m_children n))"
  by (cases n) (simp add: greedy_children_concat)

lemma greedy_leaf: "greedy_match (RNode k d True (Some val) cs) = [val]" by simp

declare greedy_match.simps [simp del]

lemma rwf_entries:
  "rwf p n \<Longrightarrow> e \<in> set (greedy_match n) \<Longrightarrow> prefix (p @ ebits (m_key n)) (ebits (fst e)) \<and> key_ok (fst e)"
proof (induction rule: rwf.induct)
  case (inner k p cs d v)
  then obtain x where "x \<in> set cs" "e \<in> set (greedy_match (snd x))" by (auto simp: greedy_inner)
  with inner have "prefix (p @ ebits k @ ebits (fst x)) (ebits (fst e))" "key_ok (fst e)" by auto
  then show ?case by (auto dest: append_prefixD simp flip: append_assoc)
qed (simp add: greedy_leaf)

definition leafents :: "rnode \<Rightarrow> (RtEntry \<times> bool) set" where
  "leafents q = {e. \<exists>c. (nul, c) \<in> set (m_children q) \<and> m_is_leaf c \<and> m_value c = Some e}"

lemma leafents_bits:
  assumes "rwf p q" "e \<in> leafents q"
  shows "ebits (fst e) = p @ ebits (m_key q)" "e \<in> set (greedy_match q)"
proof -
  from assms(2) obtain c where c: "(nul, c) \<in> set (m_children q)" "m_is_leaf c" "m_value c = Some e"
    by (auto simp: leafents_def)
  have w: "rwf (p @ ebits (m_key q)) c" "\<not> m_is_leaf q" using rwf_child [OF assms(1) c(1)] by auto
  from rwf_leafD [OF w(1) c(2)] obtain val
    where v: "c = RNode nul (int (length (p @ ebits (m_key q)))) True (Some val) []" "ebits (fst val) = p @ ebits (m_key q)" .
  with c show "ebits (fst e) = p @ ebits (m_key q)" by simp
  from v c have "e \<in> set (greedy_match c)" by (simp add: greedy_leaf)
  then show "e \<in> set (greedy_match q)" using w(2) c(1) by (force simp: greedy_inner)
qed

lemma leaf_child:
  assumes "rwf p q" "x \<in> set (m_children q)" "m_is_leaf (snd x)" "e \<in> set (greedy_match (snd x))"
  shows "e \<in> leafents q"
proof -
  obtain k c where x: "x = (k, c)" by (cases x)
  have w: "rwf (p @ ebits (m_key q)) c" "k = m_key c" using rwf_child [OF assms(1,2)] x by auto
  from rwf_leafD [OF w(1)] assms(3) x obtain val d where v: "c = RNode nul d True (Some val) []" by (metis snd_conv)
  with assms x w show ?thesis by (auto simp: leafents_def greedy_leaf)
qed

lemma prefix_hd: "prefix (P @ Q) K \<Longrightarrow> Q \<noteq> [] \<Longrightarrow> hd Q = K ! length P"
  by (auto simp: prefix_def nth_append hd_conv_nth)

lemma dead_child:
  assumes "rwf p q" "x \<in> set (m_children q)" "\<not> prefix (p @ ebits (m_key q) @ ebits (fst x)) K"
    "e \<in> set (greedy_match (snd x))"
  shows "\<not> prefix (ebits (fst e)) K"
  using rwf_entries [OF rwf_child(2) [OF assms(1,2)] assms(4)] rwf_child(1) [OF assms(1,2)] assms(3)
  by (metis append_assoc prefix_order.trans)

lemma node_matches:
  assumes "rwf p q" "\<not> m_is_leaf q" "prefix (p @ ebits (m_key q)) K"
    and "\<And>x. x \<in> set (m_children q) \<Longrightarrow> \<not> m_is_leaf (snd x) \<Longrightarrow> \<not> prefix (p @ ebits (m_key q) @ ebits (fst x)) K"
  shows "{e \<in> set (greedy_match q). prefix (ebits (fst e)) K} = leafents q"
proof
  show "{e \<in> set (greedy_match q). prefix (ebits (fst e)) K} \<subseteq> leafents q"
  proof
    fix e assume e: "e \<in> {e \<in> set (greedy_match q). prefix (ebits (fst e)) K}"
    then obtain x where x: "x \<in> set (m_children q)" "e \<in> set (greedy_match (snd x))"
      using assms(2) by (auto simp: greedy_inner)
    then have "m_is_leaf (snd x)" using dead_child [OF assms(1)] assms(4) e by blast
    then show "e \<in> leafents q" using leaf_child [OF assms(1)] x by blast
  qed
qed (use assms leafents_bits [OF assms(1)] in auto)

lemma sibling_differs:
  assumes "rwf p q" "(k, c) \<in> set (m_children q)" "\<not> m_is_leaf c" "hd (ebits k) = b"
    "x \<in> set (m_children q)" "\<not> m_is_leaf (snd x)" "fst x \<noteq> k"
  shows "hd (ebits (fst x)) \<noteq> b"
  using rwf_innerD(4) [OF assms(1) rwf_child(4) [OF assms(1,2)]] assms by (force simp: first_bits_differ_def)

lemma children_unique: "rwf p q \<Longrightarrow> (k, c) \<in> set (m_children q) \<Longrightarrow> (k, c') \<in> set (m_children q) \<Longrightarrow> c = c'"
  using rwf_innerD(3) rwf_child(4) omap_wf_distinct by (metis eq_key_imp_eq_value)

lemma path_matches:
  assumes "rwf [] r" "on_path r up n p" "\<not> m_is_leaf n" "prefix (p @ ebits (m_key n)) K"
  shows "{e \<in> set (greedy_match r). prefix (ebits (fst e)) K} =
    {e \<in> set (greedy_match n). prefix (ebits (fst e)) K} \<union> (\<Union>q\<in>set up. leafents q)"
  using assms(2-4)
proof (induction up arbitrary: n p)
  case (Cons q up)
  then obtain p' where q: "(m_key n, n) \<in> set (m_children q)" "on_path r up q p'" "p = p' @ ebits (m_key q)" by auto
  have w: "rwf p' q" by (rule on_path_rwf [OF assms(1) q(2)])
  have qi: "\<not> m_is_leaf q" by (rule rwf_child(4) [OF w q(1)])
  have nk: "ebits (m_key n) \<noteq> []" using rwf_child(3) [OF w q(1)] Cons.prems(2) by simp
  have pq: "prefix (p' @ ebits (m_key q)) K" using append_prefixD [OF Cons.prems(3)] q(3) by simp
  have hn: "hd (ebits (m_key n)) = K ! length p" using prefix_hd [OF Cons.prems(3) nk] .
  have "{e \<in> set (greedy_match q). prefix (ebits (fst e)) K} =
      {e \<in> set (greedy_match n). prefix (ebits (fst e)) K} \<union> leafents q" (is "?L = ?R")
  proof
    show "?L \<subseteq> ?R"
    proof
      fix e assume e: "e \<in> ?L"
      then obtain x where x: "x \<in> set (m_children q)" "e \<in> set (greedy_match (snd x))" using qi by (auto simp: greedy_inner)
      show "e \<in> ?R"
      proof (cases "m_is_leaf (snd x)")
        case True then show ?thesis using leaf_child [OF w x(1) True x(2)] by blast
      next
        case False
        have xk: "ebits (fst x) \<noteq> []" using rwf_child(3) [OF w x(1)] False by simp
        have "prefix (p @ ebits (fst x)) K" using dead_child [OF w x(1) _ x(2), of K] e q(3) by auto
        then have "hd (ebits (fst x)) = K ! length p" using prefix_hd xk by blast
        then have "fst x = m_key n"
          using sibling_differs [OF w q(1) Cons.prems(2) hn x(1) False] by blast
        then have "snd x = n" using children_unique [OF w q(1)] x(1) by (metis prod.collapse)
        then show ?thesis using x e by simp
      qed
    qed
    show "?R \<subseteq> ?L" using leafents_bits [OF w] pq q(1) qi by (force simp: greedy_inner)
  qed
  then show ?case using Cons.IH [OF q(2) qi pq] by auto
qed simp

lemma climb_step:
  assumes "rwf p n"
  shows "(\<exists>e. climb (n # up) = Some e \<and> leafents n = {e}) \<or> (climb (n # up) = climb up \<and> leafents n = {})"
proof (cases "omap_find (m_children n) nul")
  case None
  then have "leafents n = {}" by (auto simp: leafents_def map_of_eq_None_iff image_iff)
  with None show ?thesis by simp
next
  case (Some c)
  then have c: "(nul, c) \<in> set (m_children n)" by (rule map_of_SomeD)
  have l: "m_is_leaf c" using rwf_child [OF assms(1) c] by simp
  then obtain e where e: "m_value c = Some e" using rwf_child(2) [OF assms(1) c] by (auto elim: rwf_leafD)
  have u: "c' = c" if "(nul, c') \<in> set (m_children n)" for c' using children_unique [OF assms(1) c that] by simp
  have "leafents n = {e}"
  proof (intro equalityI subsetI)
    fix x assume "x \<in> leafents n"
    then obtain c' where "(nul, c') \<in> set (m_children n)" "m_value c' = Some x" by (auto simp: leafents_def)
    with u [of c'] e show "x \<in> {e}" by simp
  next
    fix x assume "x \<in> {e}"
    then show "x \<in> leafents n" using c l e unfolding leafents_def by blast
  qed
  with l e Some show ?thesis by simp
qed

text \<open>\<open>longest S e\<close>: the search result \<open>e\<close> is the longest entry of \<open>S\<close>, if there is one.\<close>

definition longest :: "(RtEntry \<times> bool) set \<Rightarrow> (RtEntry \<times> bool) option \<Rightarrow> bool" where
  "longest S res \<longleftrightarrow>
     (case res of None \<Rightarrow> S = {}
      | Some e \<Rightarrow> e \<in> S \<and> (\<forall>e'\<in>S. length (ebits (fst e')) \<le> length (ebits (fst e))))"

lemma longest_insert:
  "longest S res \<Longrightarrow> (\<And>e'. e' \<in> S \<Longrightarrow> length (ebits (fst e')) \<le> length (ebits (fst e))) \<Longrightarrow>
     longest ({e} \<union> S) (Some e)"
  by (auto simp: longest_def)

lemma path_shorter:
  assumes "rwf [] r" "on_path r up n p" "q \<in> set up" "e \<in> leafents q"
  shows "length (ebits (fst e)) \<le> length p"
  using assms(2,3)
proof (induction up arbitrary: n p)
  case (Cons a up)
  then obtain p' where q: "on_path r up a p'" "p = p' @ ebits (m_key a)" by auto
  show ?case
  proof (cases "q = a")
    case True
    then show ?thesis using leafents_bits(1) [OF on_path_rwf [OF assms(1) q(1)], of e] assms(4) q(2) by simp
  next
    case False
    then show ?thesis using Cons.IH [OF q(1)] Cons.prems(2) q(2) by simp
  qed
qed simp

lemma climb_longest:
  assumes "rwf [] r" "on_path r up n p"
  shows "longest (\<Union>q\<in>set (n # up). leafents q) (climb (n # up))"
  using assms(2)
proof (induction up arbitrary: n p)
  case Nil
  then show ?case using climb_step [OF on_path_rwf [OF assms(1) Nil], of "[]"] by (auto simp: longest_def)
next
  case (Cons a up)
  then obtain p' where q: "on_path r up a p'" by auto
  have IH: "longest (\<Union>q\<in>set (a # up). leafents q) (climb (a # up))" by (rule Cons.IH [OF q])
  have w: "rwf p n" by (rule on_path_rwf [OF assms(1) Cons.prems])
  consider (hit) e where "climb (n # a # up) = Some e" "leafents n = {e}"
    | (miss) "climb (n # a # up) = climb (a # up)" "leafents n = {}"
    using climb_step [OF w] by blast
  then show ?case
  proof cases
    case hit
    have e: "length p \<le> length (ebits (fst e))" using leafents_bits(1) [OF w, of e] hit by simp
    have "longest ({e} \<union> (\<Union>q\<in>set (a # up). leafents q)) (Some e)"
    proof (rule longest_insert [OF IH])
      fix e' assume "e' \<in> (\<Union>q\<in>set (a # up). leafents q)"
      then obtain q where "q \<in> set (a # up)" "e' \<in> leafents q" by blast
      from path_shorter [OF assms(1) Cons.prems this] e show "length (ebits (fst e')) \<le> length (ebits (fst e))" by simp
    qed
    moreover have "(\<Union>q\<in>set (n # a # up). leafents q) = {e} \<union> (\<Union>q\<in>set (a # up). leafents q)" using hit by auto
    ultimately show ?thesis using hit by simp
  next
    case miss
    then have "(\<Union>q\<in>set (n # a # up). leafents q) = (\<Union>q\<in>set (a # up). leafents q)" by auto
    with IH miss show ?thesis by metis
  qed
qed

definition entries :: "radix_tree \<Rightarrow> (RtEntry \<times> bool) list" where
  "entries t = (case m_root t of None \<Rightarrow> [] | Some r \<Rightarrow> greedy_match r)"

definition twf :: "radix_tree \<Rightarrow> bool" where
  "twf t \<longleftrightarrow> m_size t = length (entries t) \<and>
     (case m_root t of None \<Rightarrow> True | Some r \<Rightarrow> rwf [] r \<and> \<not> m_is_leaf r \<and> m_key r = nul)"

lemma find_root:
  assumes "rwf [] r" "\<not> m_is_leaf r" "m_key r = nul"
  obtains n up p where "find_node key 0 r [] = Some (n, up)" "found r key up n p"
  using find_node_found(1) [of r "[]" r "[]" key 0] assms by auto

text \<open>The key of the node found, compared once more by the callers of \<open>find_node\<close>.\<close>

lemma key_sub_test:
  assumes "rwf [] r" "found r key up n p" "\<not> m_is_leaf n"
  obtains s where "radix_substr key (m_depth n) (radix_length (m_key n)) = Some s"
    "s = m_key n \<longleftrightarrow> prefix (p @ ebits (m_key n)) (abits key)"
proof -
  have w: "rwf p n" and P: "prefix p (abits key)" using on_path_rwf assms by (auto simp: found_def)
  note i = rwf_innerD [OF w assms(3)]
  have len: "radix_length (m_key n) = int (length (ebits (m_key n)))"
    using i(1) by (simp add: radix_length_def length_ebits key_ok_def canon_def)
  obtain s where s: "radix_substr key (m_depth n) (radix_length (m_key n)) = Some s"
    using substr_some [of "m_depth n" "radix_length (m_key n)" key] i(2,5) len by auto
  have "s = m_key n \<longleftrightarrow> ebits s = ebits (m_key n)" using canon_inj [OF substr_bits(1) [OF s] i(1)] by auto
  also have "\<dots> \<longleftrightarrow> take (length (ebits (m_key n))) (drop (length p) (abits key)) = ebits (m_key n)"
    using substr_bits(2) [OF s] by (simp only: len i(5) nat_int)
  also have "\<dots> \<longleftrightarrow> prefix (p @ ebits (m_key n)) (abits key)" by (rule prefix_extend [OF P])
  finally show thesis using s that by blast
qed

lemma found_matches:
  assumes "rwf [] r" "found r key up n p" "\<not> m_is_leaf n" "m_prefixLen key = 32"
    and ns: "ns = (if prefix (p @ ebits (m_key n)) (abits key) then n # up else up)"
  shows "{e \<in> set (greedy_match r). prefix (ebits (fst e)) (abits key)} = (\<Union>q\<in>set ns. leafents q)"
    "longest (\<Union>q\<in>set ns. leafents q) (climb ns)"
proof -
  let ?K = "abits key"
  have path: "on_path r up n p" using assms by (simp add: found_def)
  have w: "rwf p n" by (rule on_path_rwf [OF assms(1) path])
  have *: "{e \<in> set (greedy_match r). prefix (ebits (fst e)) ?K} = (\<Union>q\<in>set ns. leafents q) \<and>
    longest (\<Union>q\<in>set ns. leafents q) (climb ns)"
  proof (cases "prefix (p @ ebits (m_key n)) ?K")
    case True
    have "\<not> prefix (p @ ebits (m_key n) @ ebits (fst x)) ?K" if x: "x \<in> set (m_children n)" "\<not> m_is_leaf (snd x)" for x
    proof
      assume a: "prefix (p @ ebits (m_key n) @ ebits (fst x)) ?K"
      have ne: "ebits (fst x) \<noteq> []" using rwf_child(3) [OF w x(1)] x(2) by simp
      have "hd (ebits (fst x)) = ?K ! length (p @ ebits (m_key n))" using prefix_hd [of "p @ ebits (m_key n)"] a ne by simp
      moreover have "length (p @ ebits (m_key n)) < 32"
        using prefix_length_le [OF a] ne by (cases "ebits (fst x)") auto
      ultimately show False using assms(2-4) True x by (auto simp: found_def)
    qed
    then show ?thesis
      using path_matches [OF assms(1) path assms(3) True] node_matches [OF w assms(3) True] climb_longest [OF assms(1) path] True ns
      by auto
  next
    case False
    then have f: "up \<noteq> []" "hd (ebits (m_key n)) = ?K ! length p" using assms(2,3) by (auto simp: found_def)
    then obtain q up' where up: "up = q # up'" by (cases up) auto
    then obtain p' where q: "(m_key n, n) \<in> set (m_children q)" "on_path r up' q p'" "p = p' @ ebits (m_key q)" using path by auto
    have wq: "rwf p' q" by (rule on_path_rwf [OF assms(1) q(2)])
    have qi: "\<not> m_is_leaf q" by (rule rwf_child(4) [OF wq q(1)])
    have pq: "prefix (p' @ ebits (m_key q)) ?K" using assms(2) q(3) by (simp add: found_def)
    have "\<not> prefix (p' @ ebits (m_key q) @ ebits (fst x)) ?K" if x: "x \<in> set (m_children q)" "\<not> m_is_leaf (snd x)" for x
    proof
      assume a: "prefix (p' @ ebits (m_key q) @ ebits (fst x)) ?K"
      have ne: "ebits (fst x) \<noteq> []" using rwf_child(3) [OF wq x(1)] x(2) by simp
      have "hd (ebits (fst x)) = ?K ! length p" using prefix_hd [of p "ebits (fst x)" ?K] a ne q(3) by simp
      then have "fst x = m_key n" using sibling_differs [OF wq q(1) assms(3) f(2) x] by blast
      with a False q(3) show False by simp
    qed
    then show ?thesis
      using path_matches [OF assms(1) q(2) qi pq] node_matches [OF wq qi pq] climb_longest [OF assms(1) q(2)] False ns up
      by auto
  qed
  show "{e \<in> set (greedy_match r). prefix (ebits (fst e)) ?K} = (\<Union>q\<in>set ns. leafents q)"
    "longest (\<Union>q\<in>set ns. leafents q) (climb ns)" using * by auto
qed

lemma longest_match_spec:
  assumes "twf t" "m_prefixLen key = 32"
  obtains res where "longest_match key t = Some res" "longest {e \<in> set (entries t). prefix (ebits (fst e)) (abits key)} res"
proof (cases "m_root t")
  case None
  then show thesis using that [of None] by (simp add: longest_match_def entries_def longest_def)
next
  case (Some r)
  then have r: "rwf [] r" "\<not> m_is_leaf r" "m_key r = nul" using assms by (auto simp: twf_def)
  from find_root [OF r, of key] obtain n up p where f: "find_node key 0 r [] = Some (n, up)" "found r key up n p" .
  show thesis
  proof (cases "m_is_leaf n")
    case True
    have path: "on_path r up n p" "prefix p (abits key)" "int (length p) = 32" "up \<noteq> []"
      using f(2) True assms(2) by (auto simp: found_def)
    then obtain zs where "abits key = p @ zs" by (auto simp: prefix_def)
    then have pk: "p = abits key" using length_abits [of key] path(3) by simp
    from rwf_leafD [OF on_path_rwf [OF r(1) path(1)] True] obtain val
      where v: "n = RNode nul (int (length p)) True (Some val) []" "ebits (fst val) = p" .
    obtain q up' where up: "up = q # up'" using path(4) by (cases up) auto
    with path obtain p' where q: "(m_key n, n) \<in> set (m_children q)" "on_path r up' q p'" "p = p' @ ebits (m_key q)" by auto
    have wq: "rwf p' q" by (rule on_path_rwf [OF r(1) q(2)])
    have "val \<in> leafents q" using q(1) v(1) by (auto simp: leafents_def)
    from leafents_bits [OF wq this] have "val \<in> {e \<in> set (greedy_match q). prefix (ebits (fst e)) (abits key)}"
      using pk q(3) by simp
    then have "val \<in> set (greedy_match r)"
      using path_matches [OF r(1) q(2) rwf_child(4) [OF wq q(1)], of "abits key"] pk q(3) by auto
    then have "longest {e \<in> set (entries t). prefix (ebits (fst e)) (abits key)} (Some val)"
      using Some v pk by (auto simp: longest_def entries_def dest: prefix_length_le)
    then show thesis using that [of "Some val"] Some f True v by (simp add: longest_match_def)
  next
    case False
    from key_sub_test [OF r(1) f(2) False] obtain s
      where s: "radix_substr key (m_depth n) (radix_length (m_key n)) = Some s"
        "s = m_key n \<longleftrightarrow> prefix (p @ ebits (m_key n)) (abits key)" .
    let ?ns = "if prefix (p @ ebits (m_key n)) (abits key) then n # up else up"
    have "longest {e \<in> set (entries t). prefix (ebits (fst e)) (abits key)} (climb ?ns)"
      using found_matches [OF r(1) f(2) False assms(2) refl] Some by (simp add: entries_def)
    moreover have "longest_match key t = Some (climb ?ns)"
      using Some f False s by (auto simp: longest_match_def simp del: climb.simps)
    ultimately show thesis using that by blast
  qed
qed

end
