(* ===== verification/Radix_Update.thy ===== *)
theory Radix_Update
  imports Radix_Tree
begin

text \<open>
  Insertion and removal in the radix tree: both keep the tree well formed and change its
  entries by exactly the one entry concerned.
\<close>

section \<open>Changing the children of a node\<close>

lemma omap_assign_mset: "omap_find m k = None \<Longrightarrow> mset (omap_assign k v m) = add_mset (k, v) (mset m)"
  by (induction k v m rule: omap_assign.induct) (auto split: if_splits)

lemma omap_assign_length: "omap_find m k = None \<Longrightarrow> length (omap_assign k v m) = Suc (length m)"
  using omap_assign_mset [of m k v] by (metis size_add_mset size_mset)

lemma omap_assign_set: "omap_find m k = None \<Longrightarrow> set (omap_assign k v m) = insert (k, v) (set m)"
  using omap_assign_mset [of m k v] by (metis set_mset_mset set_mset_add_mset_insert)

lemma omap_assign_erase: "omap_wf m \<Longrightarrow> omap_assign k v (omap_erase k m) = omap_assign k v m"
proof (induction m)
  case (Cons e m)
  obtain a b where e: "e = (a, b)" by (cases e)
  have m: "omap_erase k m = m" if "k \<le> a" using Cons.prems that e by (force simp: omap_wf_Cons omap_erase_def filter_id_conv)
  have "omap_assign k v m = (k, v) # m" if "k \<le> a"
  proof (cases m)
    case (Cons x m')
    then show ?thesis using Cons.prems that e \<open>omap_wf (e # m)\<close> by (cases x) (auto simp: omap_wf_Cons)
  qed simp
  with m Cons e show ?case by (auto simp: omap_erase_def omap_wf_Cons not_less le_less)
qed (simp add: omap_erase_def)

lemma omap_erase_mset: "omap_wf m \<Longrightarrow> (k, v) \<in> set m \<Longrightarrow> mset m = add_mset (k, v) (mset (omap_erase k m))"
proof (induction m)
  case (Cons e m)
  show ?case
  proof (cases "fst e = k")
    case True
    then have "omap_erase k m = m" using Cons.prems by (force simp: omap_wf_Cons omap_erase_def filter_id_conv)
    moreover have "e = (k, v)" using True Cons.prems by (cases e) (force simp: omap_wf_Cons)
    ultimately show ?thesis by (simp add: omap_erase_def)
  next
    case False
    then show ?thesis using Cons by (auto simp: omap_wf_Cons omap_erase_def)
  qed
qed simp

lemma omap_erase_fresh: "omap_find (omap_erase k m) k = None"
  by (simp add: omap_find_erase)

lemma mset_greedy: "\<not> m_is_leaf n \<Longrightarrow> mset (greedy_match n) = (\<Sum>x\<in>#mset (m_children n). mset (greedy_match (snd x)))"
  by (simp add: greedy_inner mset_concat sum_mset_sum_list [symmetric] mset_map [symmetric] comp_def image_mset.compositionality del: mset_map)

lemma add_child:
  assumes "rwf p q" "\<not> m_is_leaf q" "omap_find (m_children q) k = None" "k = m_key c" "rwf (p @ ebits (m_key q)) c"
    and "m_is_leaf c \<or> ebits k \<noteq> []" "dense c"
    and "\<And>x. x \<in> set (m_children q) \<Longrightarrow> \<not> m_is_leaf c \<Longrightarrow> \<not> m_is_leaf (snd x) \<Longrightarrow> hd (ebits (fst x)) \<noteq> hd (ebits k)"
  shows "rwf p (with_children (omap_assign k c (m_children q)) q)"
    "mset (greedy_match (with_children (omap_assign k c (m_children q)) q)) = mset (greedy_match q) + mset (greedy_match c)"
proof -
  note i = rwf_innerD [OF assms(1,2)]
  show "rwf p (with_children (omap_assign k c (m_children q)) q)"
  proof (rule rwf_with_children [OF assms(1,2) omap_assign_wf [OF i(3)]])
    show "first_bits_differ (omap_assign k c (m_children q))"
      using i(4) assms(8) unfolding first_bits_differ_def omap_assign_set [OF assms(3)] by fastforce
    fix x assume "x \<in> set (omap_assign k c (m_children q))"
    then consider "x = (k, c)" | "x \<in> set (m_children q)" unfolding omap_assign_set [OF assms(3)] by blast
    then show "fst x = m_key (snd x) \<and> rwf (p @ ebits (m_key q)) (snd x) \<and>
      (m_is_leaf (snd x) \<or> ebits (fst x) \<noteq> []) \<and> dense (snd x)"
      by cases (use assms(4-7) rwf_child [OF assms(1), of x] in auto)
  qed
  show "mset (greedy_match (with_children (omap_assign k c (m_children q)) q)) = mset (greedy_match q) + mset (greedy_match c)"
    using assms(2) by (simp add: mset_greedy omap_assign_mset [OF assms(3)])
qed

lemma del_child:
  assumes "rwf p q" "(k, c) \<in> set (m_children q)"
  shows "rwf p (with_children (omap_erase k (m_children q)) q)"
    "mset (greedy_match q) = mset (greedy_match (with_children (omap_erase k (m_children q)) q)) + mset (greedy_match c)"
    "length (m_children q) = Suc (length (omap_erase k (m_children q)))"
proof -
  note qi = rwf_child(4) [OF assms]
  note i = rwf_innerD [OF assms(1) qi]
  show "rwf p (with_children (omap_erase k (m_children q)) q)"
  proof (rule rwf_with_children [OF assms(1) qi omap_erase_wf [OF i(3)]])
    show "first_bits_differ (omap_erase k (m_children q))"
      using i(4) by (auto simp: first_bits_differ_def omap_erase_set)
  qed (use rwf_child [OF assms(1)] in \<open>auto simp: omap_erase_set\<close>)
  show "mset (greedy_match q) = mset (greedy_match (with_children (omap_erase k (m_children q)) q)) + mset (greedy_match c)"
    using qi omap_erase_mset [OF i(3) assms(2)] by (simp add: mset_greedy)
  show "length (m_children q) = Suc (length (omap_erase k (m_children q)))"
    using omap_erase_mset [OF i(3) assms(2)] by (metis size_add_mset size_mset)
qed

lemma swap_child:
  assumes "rwf p q" "(k, c) \<in> set (m_children q)" "\<not> m_is_leaf c"
    and "rwf (p @ ebits (m_key q)) c'" "\<not> m_is_leaf c'" "dense c'" "k' = m_key c'" "ebits k' \<noteq> []"
    and "hd (ebits k') = hd (ebits k)" "q' = with_children (omap_assign k' c' (omap_erase k (m_children q))) q"
  shows "rwf p q'" "mset (greedy_match q') + mset (greedy_match c) = mset (greedy_match q) + mset (greedy_match c')"
    "length (m_children q') = length (m_children q)" "m_key q' = m_key q" "\<not> m_is_leaf q'" "dense q \<Longrightarrow> dense q'"
proof -
  let ?d = "with_children (omap_erase k (m_children q)) q"
  note d = del_child [OF assms(1,2)]
  note qi = rwf_child(4) [OF assms(1,2)]
  have others: "hd (ebits (fst x)) \<noteq> hd (ebits k')" if "x \<in> set (m_children ?d)" "\<not> m_is_leaf (snd x)" for x
    using sibling_differs [OF assms(1-3) assms(9) [symmetric]] that by (auto simp: omap_erase_set)
  have fresh: "omap_find (m_children ?d) k' = None"
  proof (rule ccontr)
    assume "omap_find (m_children ?d) k' \<noteq> None"
    then obtain x where x: "(k', x) \<in> set (m_children ?d)" by (auto dest: map_of_SomeD)
    then have "\<not> m_is_leaf x"
      using rwf_child [OF d(1) x] assms(8) by (auto elim: rwf_leafD)
    with others [OF x] show False by simp
  qed
  have a: "rwf p (with_children (omap_assign k' c' (m_children ?d)) ?d)"
      "mset (greedy_match (with_children (omap_assign k' c' (m_children ?d)) ?d)) = mset (greedy_match ?d) + mset (greedy_match c')"
    by (rule add_child [OF d(1) _ fresh assms(7)]; use assms qi others in auto)+
  have q': "q' = with_children (omap_assign k' c' (m_children ?d)) ?d" using assms(10) by (simp add: with_children_def)
  show "rwf p q'" using a q' by simp
  show "mset (greedy_match q') + mset (greedy_match c) = mset (greedy_match q) + mset (greedy_match c')"
    using a(2) d(2) q' by simp
  show len: "length (m_children q') = length (m_children q)" using q' omap_assign_length [OF fresh] d(3) by simp
  show "m_key q' = m_key q" "\<not> m_is_leaf q'" using assms(10) qi by simp_all
  show "dense q'" if "dense q"
  proof -
    from that consider y where "y \<in> set (m_children q)" "m_is_leaf (snd y)" | "2 \<le> length (m_children q)" using qi by (auto simp: dense_def)
    then show ?thesis
    proof cases
      case 1
      then have "fst y \<noteq> k" using children_unique [OF assms(1,2)] assms(3) by (metis prod.collapse)
      then have "y \<in> set (m_children q')" using 1 q' omap_assign_set [OF fresh] by (auto simp: omap_erase_set)
      with 1 show ?thesis by (auto simp: dense_def)
    qed (simp add: dense_def len)
  qed
qed

lemma mset_chain: "A + q = R + Q \<Longrightarrow> Q + n = q + m \<Longrightarrow> A + n = R + m" for A q R Q n m :: "'a multiset"
proof -
  assume a: "A + q = R + Q" "Q + n = q + m"
  have "(A + n) + q = (A + q) + n" by (simp add: ac_simps)
  also have "\<dots> = R + (Q + n)" using a(1) by (simp add: ac_simps)
  also have "\<dots> = (R + m) + q" using a(2) by (simp add: ac_simps)
  finally show ?thesis by simp
qed

lemma on_path_dense: "rwf [] r \<Longrightarrow> on_path r up n p \<Longrightarrow> up \<noteq> [] \<Longrightarrow> dense n"
proof (cases up)
  case (Cons q up')
  moreover assume "rwf [] r" "on_path r up n p"
  ultimately obtain p' where "(m_key n, n) \<in> set (m_children q)" "rwf p' q" using on_path_rwf by fastforce
  then show ?thesis using rwf_child(5) by fastforce
qed simp

lemma replug_spec:
  assumes "rwf [] r" "on_path r up n p" "\<not> m_is_leaf n" "rwf p n'" "\<not> m_is_leaf n'" "up \<noteq> [] \<Longrightarrow> dense n'" "m_key n' = m_key n"
  shows "rwf [] (replug n' up) \<and> m_key (replug n' up) = m_key r \<and> \<not> m_is_leaf (replug n' up) \<and>
    mset (greedy_match (replug n' up)) + mset (greedy_match n) = mset (greedy_match r) + mset (greedy_match n')"
  using assms(2-)
proof (induction up arbitrary: n n' p)
  case (Cons q up)
  then obtain p' where q: "(m_key n, n) \<in> set (m_children q)" "on_path r up q p'" "p = p' @ ebits (m_key q)" by auto
  have w: "rwf p' q" by (rule on_path_rwf [OF assms(1) q(2)])
  let ?q = "with_children (omap_assign (m_key n') n' (m_children q)) q"
  have ne: "ebits (m_key n) \<noteq> []" using rwf_child(3) [OF w q(1)] Cons.prems(2) by simp
  have q': "?q = with_children (omap_assign (m_key n') n' (omap_erase (m_key n) (m_children q))) q"
    using rwf_innerD(3) [OF w rwf_child(4) [OF w q(1)]] Cons.prems(6) by (simp add: omap_assign_erase)
  note s = swap_child [OF w q(1) Cons.prems(2) _ Cons.prems(4) _ refl _ _ q']
  have d: "up \<noteq> [] \<Longrightarrow> dense q" by (rule on_path_dense [OF assms(1) q(2)])
  have s1: "rwf p' ?q" "mset (greedy_match ?q) + mset (greedy_match n) = mset (greedy_match q) + mset (greedy_match n')"
    "m_key ?q = m_key q" "\<not> m_is_leaf ?q" "dense q \<Longrightarrow> dense ?q"
    by (rule s; use Cons.prems q(3) ne in simp)+
  have "rwf [] (replug ?q up) \<and> m_key (replug ?q up) = m_key r \<and> \<not> m_is_leaf (replug ?q up) \<and>
    mset (greedy_match (replug ?q up)) + mset (greedy_match q) = mset (greedy_match r) + mset (greedy_match ?q)"
    by (rule Cons.IH [OF q(2) rwf_child(4) [OF w q(1)] s1(1,4) _ s1(3)]) (use d s1(5) in blast)
  then show ?case using mset_chain [OF _ s1(2), of "mset (greedy_match (replug ?q up))" "mset (greedy_match r)"] by simp
qed simp

section \<open>Insertion\<close>

lemma leaf_ok:
  assumes "key_ok key" "prefix P (abits key)" "int (length P) = m_prefixLen key"
  shows "rwf P (RNode nul (int (length P)) True (Some (key, v)) [])" "ebits key = P"
proof -
  from assms(2) obtain zs where "abits key = P @ zs" by (auto simp: prefix_def)
  then show "ebits key = P" using assms(3) by (simp add: ebits_def flip: assms(3))
  then show "rwf P (RNode nul (int (length P)) True (Some (key, v)) [])" using assms by (auto simp: rwf_leaf_iff)
qed

lemma drop_prefix_bits:
  assumes "key_ok key" "prefix P (abits key)" "int (length P) < m_prefixLen key"
  shows "prefix (P @ take (nat (m_prefixLen key - int (length P))) (drop (length P) (abits key))) (abits key)"
    "length (P @ take (nat (m_prefixLen key - int (length P))) (drop (length P) (abits key))) = nat (m_prefixLen key)"
    "take (nat (m_prefixLen key - int (length P))) (drop (length P) (abits key)) \<noteq> []"
    "hd (take (nat (m_prefixLen key - int (length P))) (drop (length P) (abits key))) = abits key ! length P"
proof -
  let ?Q = "take (nat (m_prefixLen key - int (length P))) (drop (length P) (abits key))"
  from assms(2) obtain zs where z: "abits key = P @ zs" by (auto simp: prefix_def)
  have l: "length zs = 32 - length P" using length_abits [of key] z by simp
  show "prefix (P @ ?Q) (abits key)" using z by (simp add: take_is_prefix)
  show len: "length (P @ ?Q) = nat (m_prefixLen key)" using assms(1,3) z l by (auto simp: key_ok_def)
  then show ne: "?Q \<noteq> []" using assms(3) by auto
  then show "hd ?Q = abits key ! length P" using z by (cases zs) (auto simp: nth_append)
qed

text \<open>A fresh branch: an inner node for the rest of the key, with its leaf.\<close>

lemma branch_ok:
  assumes "key_ok key" "prefix P (abits key)" "int (length P) < m_prefixLen key"
    and "radix_substr key (int (length P)) (m_prefixLen key - int (length P)) = Some s"
    and "c = RNode s (int (length P)) False w [(nul, RNode nul (m_prefixLen key) True (Some (key, v)) [])]"
  shows "rwf P c" "dense c" "ebits s \<noteq> []" "hd (ebits s) = abits key ! length P" "mset (greedy_match c) = {#(key, v)#}"
proof -
  let ?Q = "take (nat (m_prefixLen key - int (length P))) (drop (length P) (abits key))"
  note d = drop_prefix_bits [OF assms(1-3)]
  have s: "canon s" "ebits s = ?Q" using substr_bits [OF assms(4)] by auto
  have n: "length (P @ ebits s) = nat (m_prefixLen key)" using d(2) by (simp only: s(2))
  then have len: "int (length (P @ ebits s)) = m_prefixLen key" using assms(1) by (simp add: key_ok_def)
  have "rwf (P @ ebits s) (RNode nul (int (length (P @ ebits s))) True (Some (key, v)) [])"
    by (rule leaf_ok [OF assms(1) _ len]) (use d(1) s in simp)
  moreover note len
  moreover have "length P + length (ebits s) \<le> 32" using n assms(1) by (auto simp: key_ok_def)
  ultimately show "rwf P c" using assms(5) s
    by (auto simp: rwf_inner_iff omap_wf_def first_bits_differ_def dense_def)
  show "dense c" using assms(5) by (simp add: dense_def)
  show "ebits s \<noteq> []" "hd (ebits s) = abits key ! length P" using d s by auto
  show "mset (greedy_match c) = {#(key, v)#}" using assms(5) by (simp add: greedy_inner greedy_leaf)
qed

lemma dense_assign:
  assumes "omap_find (m_children n) k = None" "dense n \<or> m_is_leaf c"
  shows "dense (with_children (omap_assign k c (m_children n)) n)"
  using assms by (auto simp: dense_def omap_assign_set omap_assign_length)

lemma no_leaf_no_nul:
  assumes "rwf p n" "\<And>x. x \<in> set (m_children n) \<Longrightarrow> \<not> m_is_leaf (snd x)"
  shows "omap_find (m_children n) nul = None"
proof (rule ccontr)
  assume "omap_find (m_children n) nul \<noteq> None"
  then obtain c where c: "(nul, c) \<in> set (m_children n)" by (auto dest: map_of_SomeD)
  from rwf_child [OF assms(1) c] assms(2) [OF c] show False by simp
qed

lemma append_ok:
  assumes "rwf p n" "\<not> m_is_leaf n" "key_ok key" "prefix (p @ ebits (m_key n)) (abits key)"
    and "int (length (p @ ebits (m_key n))) \<le> m_prefixLen key"
    and f: "\<And>x. x \<in> set (m_children n) \<Longrightarrow> if int (length (p @ ebits (m_key n))) = m_prefixLen key then \<not> m_is_leaf (snd x)
              else m_is_leaf (snd x) \<or> hd (ebits (fst x)) \<noteq> abits key ! length (p @ ebits (m_key n))"
  shows "\<exists>n'. append_node n (key, v) = Some n' \<and> rwf p n' \<and> \<not> m_is_leaf n' \<and> m_key n' = m_key n \<and>
    (dense n \<longrightarrow> dense n') \<and> mset (greedy_match n') = add_mset (key, v) (mset (greedy_match n))"
proof -
  let ?P = "p @ ebits (m_key n)"
  note i = rwf_innerD [OF assms(1,2)]
  have depth: "m_depth n + radix_length (m_key n) = int (length ?P)"
    using i(1,5) by (simp add: radix_length_def length_ebits key_ok_def canon_def)
  show ?thesis
  proof (cases "int (length ?P) = m_prefixLen key")
    case True
    let ?c = "RNode nul (int (length ?P)) True (Some (key, v)) []"
    have fresh: "omap_find (m_children n) nul = None" using no_leaf_no_nul [OF assms(1)] f True by auto
    have c: "rwf ?P ?c" by (rule leaf_ok(1) [OF assms(3,4) True])
    note a = add_child [OF assms(1,2) fresh _ c]
    show ?thesis
      using a dense_assign [OF fresh, of ?c] True depth assms(2)
      by (auto simp: append_node_def radix_length_def dense_def greedy_leaf simp del: of_nat_add length_append)
  next
    case False
    then have lt: "int (length ?P) < m_prefixLen key" using assms(5) by simp
    obtain s where s: "radix_substr key (int (length ?P)) (m_prefixLen key - int (length ?P)) = Some s"
      using substr_some [of "int (length ?P)" "m_prefixLen key - int (length ?P)" key] lt assms(3) by (auto simp: key_ok_def)
    define c where "c = RNode s (int (length ?P)) False (Some (key, v)) [(nul, RNode nul (m_prefixLen key) True (Some (key, v)) [])]"
    note b = branch_ok [OF assms(3,4) lt s c_def]
    have others: "hd (ebits (fst x)) \<noteq> hd (ebits s)" if "x \<in> set (m_children n)" "\<not> m_is_leaf (snd x)" for x
      using f [OF that(1)] that(2) False b(4) by simp
    have fresh: "omap_find (m_children n) s = None"
    proof (rule ccontr)
      assume "omap_find (m_children n) s \<noteq> None"
      then obtain x where x: "(s, x) \<in> set (m_children n)" by (auto dest: map_of_SomeD)
      then have "\<not> m_is_leaf x" using rwf_child [OF assms(1) x] b(3) by (auto elim: rwf_leafD)
      with others [OF x] show False by simp
    qed
    have k: "s = m_key c" "\<not> m_is_leaf c" by (simp_all add: c_def)
    have a: "rwf p (with_children (omap_assign s c (m_children n)) n)"
      "mset (greedy_match (with_children (omap_assign s c (m_children n)) n)) = mset (greedy_match n) + mset (greedy_match c)"
      by (rule add_child [OF assms(1,2) fresh k(1) b(1)]; use b others in auto)+
    have "append_node n (key, v) = Some (with_children (omap_assign s c (m_children n)) n)"
      using False depth s by (simp add: append_node_def radix_length_def Let_def c_def)
    with a b(5) k dense_assign [OF fresh, of c] assms(2) show ?thesis by auto
  qed
qed

lemma append_undefined:
  assumes "rwf p n" "\<not> m_is_leaf n" "m_prefixLen key < int (length (p @ ebits (m_key n)))"
  shows "append_node n (key, v) = None"
proof -
  note i = rwf_innerD [OF assms(1,2)]
  have "m_depth n + radix_length (m_key n) = int (length (p @ ebits (m_key n)))"
    using i(1,5) by (simp add: radix_length_def length_ebits key_ok_def canon_def)
  then show ?thesis using assms(3) by (simp add: append_node_def radix_length_def Let_def radix_substr_def)
qed

lemma common_bits_spec:
  assumes "c = common_bits k key d m i" "i + m \<le> nat (m_prefixLen k)" "key_ok k" "d + i + m \<le> 32"
  shows "i \<le> c" "c \<le> i + m" "\<And>j. i \<le> j \<Longrightarrow> j < c \<Longrightarrow> ebits k ! j = abits key ! (d + j)"
    "c < i + m \<Longrightarrow> ebits k ! c \<noteq> abits key ! (d + c)"
proof -
  have eq: "entry_bit k j = entry_bit key (j + d) \<longleftrightarrow> ebits k ! j = abits key ! (d + j)"
    if "j < nat (m_prefixLen k)" "d + j < 32" for j
  proof -
    have "j < 32" using that(1) assms(3) by (auto simp: key_ok_def)
    then show ?thesis using that by (simp add: ebits_def abits_def add.commute)
  qed
  have *: "i \<le> c \<and> c \<le> i + m \<and> (\<forall>j. i \<le> j \<longrightarrow> j < c \<longrightarrow> ebits k ! j = abits key ! (d + j)) \<and>
    (c < i + m \<longrightarrow> ebits k ! c \<noteq> abits key ! (d + c))"
    using assms(1,2,4)
  proof (induction m arbitrary: i)
    case (Suc m)
    have e: "entry_bit k i = entry_bit key (i + d) \<longleftrightarrow> ebits k ! i = abits key ! (d + i)" using eq [of i] Suc.prems by simp
    show ?case
    proof (cases "entry_bit k i = entry_bit key (i + d)")
      case True
      then have c: "c = common_bits k key d m (Suc i)" using Suc.prems by simp
      have IH: "Suc i \<le> c \<and> c \<le> Suc i + m \<and> (\<forall>j. Suc i \<le> j \<longrightarrow> j < c \<longrightarrow> ebits k ! j = abits key ! (d + j)) \<and>
        (c < Suc i + m \<longrightarrow> ebits k ! c \<noteq> abits key ! (d + c))"
        by (rule Suc.IH [OF c]) (use Suc.prems in auto)
      have "ebits k ! j = abits key ! (d + j)" if "i \<le> j" "j < c" for j
        using IH e True that by (cases "j = i") (simp_all add: Suc_le_eq)
      with IH show ?thesis by simp
    next
      case False
      then have "c = i" using Suc.prems by simp
      then show ?thesis using False e by auto
    qed
  qed simp
  show "i \<le> c" "c \<le> i + m" "c < i + m \<Longrightarrow> ebits k ! c \<noteq> abits key ! (d + c)"
    "\<And>j. i \<le> j \<Longrightarrow> j < c \<Longrightarrow> ebits k ! j = abits key ! (d + j)" using * by auto
qed

text \<open>A node split after \<open>c\<close> bits: the two halves of its key and the lower part of the node.\<close>

lemma split_node:
  assumes "rwf p n" "\<not> m_is_leaf n" "0 < c" "c < length (ebits (m_key n))"
    and "radix_substr (m_key n) 0 (int c) = Some a" "radix_substr (m_key n) (int c) (radix_length (m_key n) - int c) = Some b"
    and "n' = RNode b (m_depth n + int c) (m_is_leaf n) (m_value n) (m_children n)"
  shows "canon a" "ebits a = take c (ebits (m_key n))" "canon b" "ebits b = drop c (ebits (m_key n))"
    "rwf (p @ ebits a) n'" "dense n \<Longrightarrow> dense n'" "greedy_match n' = greedy_match n"
proof -
  note i = rwf_innerD [OF assms(1,2)]
  have ok: "key_ok (m_key n)" using i(1) by simp
  have len: "length (ebits (m_key n)) = nat (m_prefixLen (m_key n))" by (rule length_ebits [OF ok])
  show a: "canon a" "ebits a = take c (ebits (m_key n))"
    using substr_bits [OF assms(5)] assms(4) len by (auto simp: ebits_def min_def)
  show b: "canon b" "ebits b = drop c (ebits (m_key n))"
    using substr_bits [OF assms(6)] assms(4) len by (auto simp: ebits_def radix_length_def drop_take nat_diff_distrib')
  have pa: "(p @ ebits a) @ ebits b = p @ ebits (m_key n)" using a b by simp
  have "rwf (p @ ebits a) (RNode b (int (length (p @ ebits a))) False (m_value n) (m_children n))"
  proof (rule rwf.inner [OF b(1)])
    show "length (p @ ebits a) + length (ebits b) \<le> 32" using i(2) a b by simp
    show "\<forall>x\<in>set (m_children n). fst x = m_key (snd x) \<and> rwf ((p @ ebits a) @ ebits b) (snd x) \<and>
        (m_is_leaf (snd x) \<or> ebits (fst x) \<noteq> []) \<and> dense (snd x)"
      unfolding pa using rwf_child [OF assms(1)] by blast
  qed (use i in auto)
  moreover have "int (length (p @ ebits a)) = m_depth n + int c" using i(5) a assms(4) by simp
  ultimately show "rwf (p @ ebits a) n'" using assms(2,7) by simp
  show "dense n'" if "dense n" using that assms(7) by (simp add: dense_def)
  show "greedy_match n' = greedy_match n" using assms(2,7) by (simp add: greedy_inner)
qed

lemma two_children:
  assumes "canon a" "length p + length (ebits a) \<le> 32" "m_key n' = kn" "\<not> m_is_leaf n'" "rwf (p @ ebits a) n'" "ebits kn \<noteq> []" "dense n'"
    and "m_key b = kb" "rwf (p @ ebits a) b" "m_is_leaf b \<or> ebits kb \<noteq> [] \<and> hd (ebits kb) \<noteq> hd (ebits kn)" "dense b"
    and A: "A = RNode a (int (length p)) False None (omap_assign kb b (omap_assign kn n' []))"
  shows "rwf p A" "dense A" "mset (greedy_match A) = mset (greedy_match n') + mset (greedy_match b)"
proof -
  have ne: "kb \<noteq> kn" using assms(6,8-10) by (auto elim: rwf_leafD)
  have cs: "set (omap_assign kb b [(kn, n')]) = {(kb, b), (kn, n')}" "length (omap_assign kb b [(kn, n')]) = 2"
    "mset (omap_assign kb b [(kn, n')]) = {#(kb, b), (kn, n')#}" using ne by auto
  have "omap_wf (omap_assign kb b [(kn, n')])" by (rule omap_assign_wf) (simp add: omap_wf_def)
  moreover have "first_bits_differ (omap_assign kb b [(kn, n')])"
    unfolding first_bits_differ_def cs using assms(4,10) by auto
  ultimately show "rwf p A" unfolding A using assms cs(1)
    by (intro rwf.inner) (auto)
  show "dense A" unfolding A by (simp add: dense_def cs(2) del: omap_assign.simps(2)) 
  show "mset (greedy_match A) = mset (greedy_match n') + mset (greedy_match b)"
    unfolding A using cs(3) by (simp add: mset_greedy del: omap_assign.simps(2))
qed

lemma prepend_count:
  assumes "rwf p n" "\<not> m_is_leaf n" "ebits (m_key n) \<noteq> []" "key_ok key" "prefix p (abits key)"
    and "\<not> prefix (p @ ebits (m_key n)) (abits key)" "hd (ebits (m_key n)) = abits key ! length p"
    and "int (length p) < m_prefixLen key"
    and c: "c = common_bits (m_key n) key (length p) (nat (min (radix_length (m_key n)) (m_prefixLen key - int (length p)))) 0"
  shows "0 < c" "c < length (ebits (m_key n))" "int (length p + c) \<le> m_prefixLen key"
    "prefix (p @ take c (ebits (m_key n))) (abits key)"
    "int (length p + c) < m_prefixLen key \<Longrightarrow> ebits (m_key n) ! c \<noteq> abits key ! (length p + c)"
proof -
  let ?k = "m_key n" and ?K = "abits key"
  note i = rwf_innerD [OF assms(1,2)]
  have ok: "key_ok ?k" using i(1) by simp
  have len: "radix_length ?k = int (length (ebits ?k))" using ok by (simp add: radix_length_def length_ebits key_ok_def)
  let ?m = "nat (min (radix_length ?k) (m_prefixLen key - int (length p)))"
  have m: "?m \<le> length (ebits ?k)" "length p + ?m \<le> nat (m_prefixLen key)" "0 < ?m" "length p + ?m \<le> 32"
    using len assms(3,4,8) i(2) by (auto simp: key_ok_def)
  have len': "length (ebits ?k) = nat (m_prefixLen ?k)" by (rule length_ebits [OF ok])
  note cb = common_bits_spec [OF c, unfolded add_0]
  have c1: "c \<le> ?m" "\<And>j. j < c \<Longrightarrow> ebits ?k ! j = ?K ! (length p + j)" "c < ?m \<Longrightarrow> ebits ?k ! c \<noteq> ?K ! (length p + c)"
    using cb m ok len' by auto
  show c0: "0 < c"
  proof (rule ccontr)
    assume "\<not> 0 < c"
    with c1(3) m(3) have "ebits ?k ! 0 \<noteq> ?K ! length p" by auto
    with assms(3,7) show False by (simp add: hd_conv_nth)
  qed
  have tk: "take c (drop (length p) ?K) = take c (ebits ?k)"
  proof (rule nth_equalityI)
    have "c \<le> 32 - length p" "c \<le> length (ebits ?k)" using c1(1) m by linarith+
    then show "length (take c (drop (length p) ?K)) = length (take c (ebits ?k))" by simp
  qed (use c1(2) prefix_length_le [OF assms(5)] in simp)
  have pre: "prefix (p @ take c (ebits ?k)) ?K"
    using prefix_extend [OF assms(5), of "take c (ebits ?k)"] tk c1(1) m(1) by simp
  then show "prefix (p @ take c (ebits ?k)) ?K" .
  show cl: "c < length (ebits ?k)"
  proof (rule ccontr)
    assume "\<not> c < length (ebits ?k)"
    then have "take c (ebits ?k) = ebits ?k" by simp
    with pre assms(6) show False by simp
  qed
  show le: "int (length p + c) \<le> m_prefixLen key" using c1(1) m(2) assms(8) by auto
  show "ebits ?k ! c \<noteq> ?K ! (length p + c)" if "int (length p + c) < m_prefixLen key"
    by (rule c1(3)) (use that cl len in auto)
qed

lemma prepend_ok:
  assumes "rwf p' q" "(m_key n, n) \<in> set (m_children q)" "\<not> m_is_leaf n" "p = p' @ ebits (m_key q)" "key_ok key"
    and "prefix p (abits key)" "\<not> prefix (p @ ebits (m_key n)) (abits key)" "hd (ebits (m_key n)) = abits key ! length p"
    and "int (length p) < m_prefixLen key"
  shows "\<exists>q'. prepend_node q n (key, v) = Some q' \<and> rwf p' q' \<and> \<not> m_is_leaf q' \<and> m_key q' = m_key q \<and>
    (dense q \<longrightarrow> dense q') \<and> mset (greedy_match q') = add_mset (key, v) (mset (greedy_match q))"
proof -
  let ?k = "m_key n" and ?K = "abits key"
  have w: "rwf p n" and ne: "ebits ?k \<noteq> []" and dn: "dense n" using rwf_child [OF assms(1,2)] assms(3,4) by auto
  note i = rwf_innerD [OF w assms(3)]
  define c where "c = common_bits ?k key (length p) (nat (min (radix_length ?k) (m_prefixLen key - int (length p)))) 0"
  note pc = prepend_count [OF w assms(3) ne assms(5-9) c_def]
  have len: "radix_length ?k = int (length (ebits ?k))" using i(1) by (simp add: radix_length_def length_ebits key_ok_def canon_def)
  obtain a b where ab: "radix_substr ?k 0 (int c) = Some a" "radix_substr ?k (int c) (radix_length ?k - int c) = Some b"
    using substr_some [of 0 "int c" ?k] substr_some [of "int c" "radix_length ?k - int c" ?k] pc(2) i(2) len by auto
  define n' where "n' = RNode b (m_depth n + int c) (m_is_leaf n) (m_value n) (m_children n)"
  note sp = split_node [OF w assms(3) pc(1,2) ab n'_def]
  have n': "m_key n' = b" "\<not> m_is_leaf n'" using assms(3) by (simp_all add: n'_def)
  have lens: "length p + length (ebits a) \<le> 32" "length (ebits a) = c" "ebits b \<noteq> []" "hd (ebits b) = ebits ?k ! c"
    using i(2) sp(2,4) pc(2) by (auto simp: hd_drop_conv_nth)
  have ha: "ebits a \<noteq> []" "hd (ebits a) = hd (ebits ?k)" using sp(2) pc(1) ne by auto
  have P: "prefix (p @ ebits a) ?K" "length (p @ ebits a) = length p + c" using pc(4) sp(2) lens by simp_all
  have "\<exists>kb B. rwf (p @ ebits a) B \<and> m_key B = kb \<and> (m_is_leaf B \<or> ebits kb \<noteq> [] \<and> hd (ebits kb) \<noteq> hd (ebits b)) \<and> dense B \<and>
     mset (greedy_match B) = {#(key, v)#} \<and> prepend_node q n (key, v) =
       Some (with_children (omap_assign a (RNode a (int (length p)) False None (omap_assign kb B (omap_assign b n' [])))
         (omap_erase ?k (m_children q))) q)"
  proof (cases "int c = m_prefixLen key - int (length p)")
    case True
    let ?B = "RNode nul (int (length (p @ ebits a))) True (Some (key, v)) []"
    have "rwf (p @ ebits a) ?B" by (rule leaf_ok(1) [OF assms(5) P(1)]) (use P(2) True in simp)
    moreover have "prepend_node q n (key, v) =
       Some (with_children (omap_assign a (RNode a (int (length p)) False None (omap_assign nul ?B (omap_assign b n' [])))
         (omap_erase ?k (m_children q))) q)"
      using True ab pc(1) i(5) P(2) c_def by (simp add: prepend_node_def Let_def radix_length_def n'_def)
    ultimately show ?thesis by (intro exI [of _ nul] exI [of _ ?B]) (simp add: greedy_leaf dense_def)
  next
    case False
    then have lt: "int (length (p @ ebits a)) < m_prefixLen key" using pc(3) P(2) by simp
    obtain s where s: "radix_substr key (int (length (p @ ebits a))) (m_prefixLen key - int (length (p @ ebits a))) = Some s"
      using substr_some [of "int (length (p @ ebits a))" "m_prefixLen key - int (length (p @ ebits a))" key] lt assms(5)
      by (auto simp: key_ok_def)
    define B where "B = RNode s (int (length (p @ ebits a))) False None [(nul, RNode nul (m_prefixLen key) True (Some (key, v)) [])]"
    note br = branch_ok [OF assms(5) P(1) lt s B_def]
    have "hd (ebits s) \<noteq> hd (ebits b)" using br(4) lens(4) pc(5) lt P(2) by simp
    moreover have "prepend_node q n (key, v) =
       Some (with_children (omap_assign a (RNode a (int (length p)) False None (omap_assign s B (omap_assign b n' [])))
         (omap_erase ?k (m_children q))) q)"
      using False ab pc(1) i(5) P(2) c_def s
      by (simp add: prepend_node_def Let_def radix_length_def n'_def B_def diff_diff_eq)
    ultimately show ?thesis using br by (intro exI [of _ s] exI [of _ B]) (simp add: B_def)
  qed
  then obtain kb B where B: "rwf (p @ ebits a) B" "m_key B = kb" "m_is_leaf B \<or> ebits kb \<noteq> [] \<and> hd (ebits kb) \<noteq> hd (ebits b)"
    "dense B" "mset (greedy_match B) = {#(key, v)#}"
    and pn: "prepend_node q n (key, v) = Some (with_children (omap_assign a (RNode a (int (length p)) False None
        (omap_assign kb B (omap_assign b n' []))) (omap_erase ?k (m_children q))) q)" by blast
  define A where "A = RNode a (int (length p)) False None (omap_assign kb B (omap_assign b n' []))"
  note A = two_children [OF sp(1) lens(1) n' sp(5) lens(3) sp(6) [OF dn] B(2,1,3,4) A_def]
  have Ak: "a = m_key A" "\<not> m_is_leaf A" by (simp_all add: A_def)
  have A1: "rwf (p' @ ebits (m_key q)) A" using A(1) assms(4) by simp
  note sw = swap_child [OF assms(1-3) A1 Ak(2) A(2) Ak(1) ha refl]
  have "mset (greedy_match (with_children (omap_assign a A (omap_erase ?k (m_children q))) q)) =
      add_mset (key, v) (mset (greedy_match q))"
    using sw(2) A(3) B(5) sp(7) by simp
  then show ?thesis using sw pn by (auto simp: A_def)
qed

lemma prepend_undefined:
  assumes "rwf p n" "\<not> m_is_leaf n" "m_prefixLen key < int (length p)"
  shows "prepend_node q n (key, v) = None"
proof -
  have "nat (min (radix_length (m_key n)) (m_prefixLen key - int (length p))) = 0" using assms(3) by auto
  then show ?thesis using rwf_depth [OF assms(1)] by (simp add: prepend_node_def Let_def radix_length_def)
qed

text \<open>
  When can an insertion go wrong? The search compares the bits of the address beyond the
  prefix length with the tree. It runs past the key when a node below the key's length lies on the
  zero-extended address: an entry there, or a branching of two entries.
\<close>

definition clash :: "RtEntry \<Rightarrow> (RtEntry \<times> bool) list \<Rightarrow> bool" where
  "clash key es \<longleftrightarrow> (\<exists>e1\<in>set es. \<exists>e2\<in>set es.
     let P = longest_common_prefix (ebits (fst e1)) (ebits (fst e2))
     in m_prefixLen key < int (length P) \<and> prefix P (abits key))"

lemma lcp_split: "a \<noteq> b \<Longrightarrow> longest_common_prefix (P @ a # xs) (P @ b # ys) = P"
  by (induction P) auto

lemma lcp_same: "longest_common_prefix xs xs = xs"
  by (induction xs) auto

lemma rwf_nonempty: "rwf p n \<Longrightarrow> dense n \<Longrightarrow> greedy_match n \<noteq> []"
proof (induction rule: rwf.induct)
  case (inner k p cs d v)
  from inner.prems obtain x where "x \<in> set cs" by (cases cs) (auto simp: dense_def)
  with inner.IH have "greedy_match (snd x) \<noteq> []" by blast
  with \<open>x \<in> set cs\<close> show ?case by (auto simp: greedy_inner)
qed (simp add: greedy_leaf)

text \<open>The path of an inner node below the root is an entry or a branching of two.\<close>

lemma inner_path:
  assumes "rwf p n" "\<not> m_is_leaf n" "dense n"
  shows "\<exists>e1\<in>set (greedy_match n). \<exists>e2\<in>set (greedy_match n).
    longest_common_prefix (ebits (fst e1)) (ebits (fst e2)) = p @ ebits (m_key n)"
proof (cases "\<exists>y\<in>set (m_children n). m_is_leaf (snd y)")
  case True
  then obtain y where y: "y \<in> set (m_children n)" "m_is_leaf (snd y)" by blast
  have "greedy_match (snd y) \<noteq> []" using rwf_nonempty rwf_child [OF assms(1) y(1)] by blast
  then obtain e where "e \<in> set (greedy_match (snd y))" by (cases "greedy_match (snd y)") auto
  then have "e \<in> leafents n" using leaf_child [OF assms(1) y] by blast
  from leafents_bits [OF assms(1) this] show ?thesis by (metis lcp_same)
next
  case False
  with assms(2,3) obtain x y cs where cs: "m_children n = x # y # cs"
    by (cases "m_children n"; cases "tl (m_children n)") (auto simp: dense_def)
  have xy: "x \<in> set (m_children n)" "y \<in> set (m_children n)" using cs by auto
  have ne: "fst x \<noteq> fst y" using rwf_innerD(3) [OF assms(1,2)] cs by (auto simp: omap_wf_def)
  have e: "\<exists>e\<in>set (greedy_match (snd z)). \<exists>zs. ebits (fst e) = (p @ ebits (m_key n)) @ hd (ebits (fst z)) # zs"
    if z: "z \<in> set (m_children n)" for z
  proof -
    note c = rwf_child [OF assms(1) z]
    have "greedy_match (snd z) \<noteq> []" using rwf_nonempty c by blast
    then obtain e where e: "e \<in> set (greedy_match (snd z))" by (cases "greedy_match (snd z)") auto
    have "prefix ((p @ ebits (m_key n)) @ ebits (fst z)) (ebits (fst e))" using rwf_entries [OF c(2) e] c(1) by simp
    moreover have "ebits (fst z) \<noteq> []" using c(3) False z by blast
    ultimately show ?thesis using e by (cases "ebits (fst z)") (auto simp: prefix_def)
  qed
  from e [OF xy(1)] e [OF xy(2)] obtain e1 z1 e2 z2 where
    es: "e1 \<in> set (greedy_match (snd x))" "ebits (fst e1) = (p @ ebits (m_key n)) @ hd (ebits (fst x)) # z1"
      "e2 \<in> set (greedy_match (snd y))" "ebits (fst e2) = (p @ ebits (m_key n)) @ hd (ebits (fst y)) # z2" by blast
  have "hd (ebits (fst x)) \<noteq> hd (ebits (fst y))"
    using rwf_innerD(4) [OF assms(1,2)] xy ne False by (auto simp: first_bits_differ_def)
  then have "longest_common_prefix (ebits (fst e1)) (ebits (fst e2)) = p @ ebits (m_key n)"
    unfolding es(2,4) by (rule lcp_split)
  moreover have "e1 \<in> set (greedy_match n)" "e2 \<in> set (greedy_match n)" using es xy assms(2) by (auto simp: greedy_inner)
  ultimately show ?thesis by blast
qed

lemma on_path_entries: "rwf [] r \<Longrightarrow> on_path r up n p \<Longrightarrow> set (greedy_match n) \<subseteq> set (greedy_match r)"
proof (induction up arbitrary: n p)
  case (Cons q up)
  then obtain p' where q: "(m_key n, n) \<in> set (m_children q)" "on_path r up q p'" by auto
  have "\<not> m_is_leaf q" by (rule rwf_child(4) [OF on_path_rwf [OF Cons.prems(1) q(2)] q(1)])
  then have "set (greedy_match n) \<subseteq> set (greedy_match q)" using q(1) by (force simp: greedy_inner)
  then show ?case using Cons.IH [OF Cons.prems(1) q(2)] by blast
qed simp

lemma no_clash_path:
  assumes "rwf [] r" "on_path r up n p" "\<not> m_is_leaf n" "prefix (p @ ebits (m_key n)) (abits key)"
    "\<not> clash key (greedy_match r)" "m_key r = nul" "key_ok key"
  shows "int (length (p @ ebits (m_key n))) \<le> m_prefixLen key"
proof (cases "up = []")
  case True
  then show ?thesis using assms by (simp add: key_ok_def)
next
  case False
  from inner_path [OF on_path_rwf [OF assms(1,2)] assms(3) on_path_dense [OF assms(1,2) False]]
    on_path_entries [OF assms(1,2)]
  obtain e1 e2 where "e1 \<in> set (greedy_match r)" "e2 \<in> set (greedy_match r)"
    "longest_common_prefix (ebits (fst e1)) (ebits (fst e2)) = p @ ebits (m_key n)" by blast
  then show ?thesis using assms(4,5) by (fastforce simp: clash_def Let_def not_less)
qed

lemma distinct_concat_map:
  "(\<And>x. x \<in> set xs \<Longrightarrow> distinct (f x)) \<Longrightarrow> sorted_wrt (\<lambda>x y. set (f x) \<inter> set (f y) = {}) xs \<Longrightarrow> distinct (concat (map f xs))"
  by (induction xs) auto

lemma rwf_distinct: "rwf p n \<Longrightarrow> distinct (map (ebits \<circ> fst) (greedy_match n))"
proof (induction rule: rwf.induct)
  case (inner k p cs d v)
  have w: "rwf p (RNode k d False v cs)" by (rule rwf.inner) (use inner in blast)+
  let ?f = "\<lambda>x. map (ebits \<circ> fst) (greedy_match (snd x))"
  have dj: "set (?f x) \<inter> set (?f y) = {}" if xy: "x \<in> set cs" "y \<in> set cs" "fst x < fst y" for x y
  proof (rule ccontr)
    assume "set (?f x) \<inter> set (?f y) \<noteq> {}"
    then obtain e e' where e: "e \<in> set (greedy_match (snd x))" "e' \<in> set (greedy_match (snd y))" "ebits (fst e) = ebits (fst e')"
      by auto
    have cx: "x \<in> set (m_children (RNode k d False v cs))" and cy: "y \<in> set (m_children (RNode k d False v cs))" using xy by auto
    note x = rwf_child [OF w cx] and y = rwf_child [OF w cy]
    have lf: "ebits (fst z) = []" if "m_is_leaf (snd z)" "fst z = m_key (snd z)" "rwf q (snd z)" for z q
      using that by (auto elim: rwf_leafD)
    have px: "prefix ((p @ ebits k) @ ebits (fst x)) (ebits (fst e))" "prefix ((p @ ebits k) @ ebits (fst y)) (ebits (fst e))"
      using rwf_entries [OF x(2) e(1)] rwf_entries [OF y(2) e(2)] x(1) y(1) e(3) by simp_all
    have le: "ebits (fst e) = p @ ebits k" if "m_is_leaf (snd x)"
      using leafents_bits(1) [OF w leaf_child [OF w cx that e(1)]] by simp
    have le': "ebits (fst e) = p @ ebits k" if "m_is_leaf (snd y)"
      using leafents_bits(1) [OF w leaf_child [OF w cy that e(2)]] e(3) by simp
    consider "m_is_leaf (snd x)" | "m_is_leaf (snd y)" | "\<not> m_is_leaf (snd x)" "\<not> m_is_leaf (snd y)" by blast
    then show False
    proof cases
      case 1
      with le px(2) have "ebits (fst y) = []" by simp
      moreover have "fst x = nul" using 1 x by (auto elim: rwf_leafD)
      moreover have "canon (fst y)" using rwf_canon [OF y(2)] y(1) by simp
      ultimately show False using xy(3) ebits_Nil_iff by auto
    next
      case 2
      with le' px(1) have "ebits (fst x) = []" by simp
      moreover have "fst y = nul" using 2 y by (auto elim: rwf_leafD)
      moreover have "canon (fst x)" using rwf_canon [OF x(2)] x(1) by simp
      ultimately show False using xy(3) ebits_Nil_iff by auto
    next
      case 3
      then have "ebits (fst x) \<noteq> []" "ebits (fst y) \<noteq> []" using x(3) y(3) by auto
      then have "hd (ebits (fst x)) = hd (ebits (fst y))" using prefix_hd [OF px(1)] prefix_hd [OF px(2)] by simp
      then show False using sibling_differs [OF w, of "fst x" "snd x" "hd (ebits (fst y))" y] 3 cx cy less_imp_neq [OF xy(3)] by auto
    qed
  qed
  have "sorted_wrt (\<lambda>x y. fst x < fst y) cs" using inner(3) by (simp add: omap_wf_def sorted_wrt_map)
  then have "sorted_wrt (\<lambda>x y. set (?f x) \<inter> set (?f y) = {}) cs"
    by (rule sorted_wrt_mono_rel [rotated]) (rule dj)
  moreover have "\<And>x. x \<in> set cs \<Longrightarrow> distinct (?f x)" using inner.IH by blast
  ultimately have "distinct (concat (map ?f cs))" by (intro distinct_concat_map)
  then show ?case by (simp add: greedy_inner map_concat comp_def)
qed (simp add: greedy_leaf)

text \<open>A search that ends in no leaf and does not run past the key: the key is not in the tree.\<close>

lemma found_fresh:
  assumes "rwf [] r" "m_key r = nul" "found r key up n p" "\<not> m_is_leaf n" "key_ok key"
    and "if prefix (p @ ebits (m_key n)) (abits key) then int (length (p @ ebits (m_key n))) \<le> m_prefixLen key
         else int (length p) < m_prefixLen key"
    and e: "e \<in> set (greedy_match r)" "ebits (fst e) = ebits key"
  shows False
proof -
  let ?K = "abits key"
  have eK: "prefix (ebits (fst e)) ?K" using e(2) ebits_prefix by simp
  have eL: "int (length (ebits (fst e))) = m_prefixLen key" using e(2) assms(5) by (simp add: length_ebits key_ok_def)
  have path: "on_path r up n p" using assms(3) by (simp add: found_def)
  have w: "rwf p n" by (rule on_path_rwf [OF assms(1) path])
  have ups: "length (ebits (fst e)) \<le> length p" if "e \<in> (\<Union>q\<in>set up. leafents q)"
    using path_shorter [OF assms(1) path] that by blast
  show False
  proof (cases "prefix (p @ ebits (m_key n)) ?K")
    case True
    then have le: "int (length (p @ ebits (m_key n))) \<le> m_prefixLen key" using assms(6) by simp
    have "e \<in> set (greedy_match n) \<or> e \<in> (\<Union>q\<in>set up. leafents q)"
      using path_matches [OF assms(1) path assms(4) True] e(1) eK by blast
    then show False
    proof
      assume "e \<in> set (greedy_match n)"
      then obtain x where x: "x \<in> set (m_children n)" "e \<in> set (greedy_match (snd x))" using assms(4) by (auto simp: greedy_inner)
      have ff: "if int (length p + length (ebits (m_key n))) = m_prefixLen key then \<not> m_is_leaf (snd x)
              else m_is_leaf (snd x) \<or> hd (ebits (fst x)) \<noteq> ?K ! (length p + length (ebits (m_key n)))"
        using assms(3,4) True x(1) by (simp only: found_def if_False if_True simp_thms) blast
      show False
      proof (cases "m_is_leaf (snd x)")
        case lf: True
        have "ebits (fst e) = p @ ebits (m_key n)" by (rule leafents_bits(1) [OF w leaf_child [OF w x(1) lf x(2)]])
        then show False using ff lf eL by simp
      next
        case False
        have ne: "ebits (fst x) \<noteq> []" using rwf_child(3) [OF w x(1)] False by simp
        have pe: "prefix ((p @ ebits (m_key n)) @ ebits (fst x)) (ebits (fst e))"
          using rwf_entries [OF rwf_child(2) [OF w x(1)] x(2)] rwf_child(1) [OF w x(1)] by simp
        then have "hd (ebits (fst x)) = ?K ! length (p @ ebits (m_key n))"
          using prefix_hd [OF prefix_order.trans [OF pe eK] ne] by simp
        moreover have "length (p @ ebits (m_key n)) < length (ebits (fst e))"
          using prefix_length_le [OF pe] ne by (cases "ebits (fst x)") auto
        ultimately show False using ff False eL by simp
      qed
    next
      assume u: "e \<in> (\<Union>q\<in>set up. leafents q)"
      then obtain q up' where up: "up = q # up'" by (cases up) auto
      then obtain p' where q: "(m_key n, n) \<in> set (m_children q)" "on_path r up' q p'" using path by auto
      have "ebits (m_key n) \<noteq> []" using rwf_child(3) [OF on_path_rwf [OF assms(1) q(2)] q(1)] assms(4) by simp
      then show False using ups [OF u] eL le by (cases "ebits (m_key n)") auto
    qed
  next
    case False
    then have lt: "int (length p) < m_prefixLen key" using assms(6) by simp
    have f: "up \<noteq> []" "hd (ebits (m_key n)) = ?K ! length p" using assms(3,4) False by (auto simp: found_def)
    then obtain q up' where up: "up = q # up'" by (cases up) auto
    then obtain p' where q: "(m_key n, n) \<in> set (m_children q)" "on_path r up' q p'" "p = p' @ ebits (m_key q)" using path by auto
    have wq: "rwf p' q" by (rule on_path_rwf [OF assms(1) q(2)])
    have qi: "\<not> m_is_leaf q" by (rule rwf_child(4) [OF wq q(1)])
    have pq: "prefix (p' @ ebits (m_key q)) ?K" using assms(3) q(3) by (simp add: found_def)
    have "e \<in> set (greedy_match q) \<or> e \<in> (\<Union>q\<in>set up'. leafents q)"
      using path_matches [OF assms(1) q(2) qi pq] e(1) eK by blast
    then have "e \<in> set (greedy_match q)" using ups up lt eL by auto
    then obtain x where x: "x \<in> set (m_children q)" "e \<in> set (greedy_match (snd x))" using qi by (auto simp: greedy_inner)
    show False
    proof (cases "m_is_leaf (snd x)")
      case True
      have "ebits (fst e) = p" using leafents_bits(1) [OF wq leaf_child [OF wq x(1) True x(2)]] q(3) by simp
      then show False using eL lt by simp
    next
      case xi: False
      have ne: "ebits (fst x) \<noteq> []" using rwf_child(3) [OF wq x(1)] xi by simp
      have pe: "prefix (p @ ebits (fst x)) (ebits (fst e))"
        using rwf_entries [OF rwf_child(2) [OF wq x(1)] x(2)] rwf_child(1) [OF wq x(1)] q(3) by simp
      have pK: "prefix (p @ ebits (fst x)) ?K" by (rule prefix_order.trans [OF pe eK])
      have "fst x = m_key n"
        using sibling_differs [OF wq q(1) assms(4) f(2) x(1) xi] prefix_hd [OF pK ne] by blast
      with pK False show False by simp
    qed
  qed
qed

lemma found_leaf:
  assumes "rwf [] r" "found r key up n p" "m_is_leaf n" "key_ok key"
  obtains q up' p' val where "up = q # up'" "on_path r up' q p'" "rwf p' q" "(nul, n) \<in> set (m_children q)" "p = p' @ ebits (m_key q)"
    "n = RNode nul (int (length p)) True (Some val) []" "ebits (fst val) = ebits key" "val \<in> set (greedy_match r)"
proof -
  have f: "on_path r up n p" "prefix p (abits key)" "int (length p) = m_prefixLen key" "up \<noteq> []"
    using assms(2,3) by (auto simp: found_def)
  from rwf_leafD [OF on_path_rwf [OF assms(1) f(1)] assms(3)] obtain val
    where v: "n = RNode nul (int (length p)) True (Some val) []" "ebits (fst val) = p" .
  obtain q up' where up: "up = q # up'" using f(4) by (cases up) auto
  then obtain p' where q: "on_path r up' q p'" "(nul, n) \<in> set (m_children q)" "p = p' @ ebits (m_key q)" using f(1) v(1) by auto
  have "ebits key = p" by (rule leaf_ok(2) [OF assms(4) f(2,3)])
  moreover have "val \<in> set (greedy_match r)" using on_path_entries [OF assms(1) f(1)] v(1) by (simp add: greedy_leaf)
  ultimately show thesis using that up q v on_path_rwf [OF assms(1) q(1)] by blast
qed

lemma empty_node_ok: "rwf [] empty_node" "\<not> m_is_leaf empty_node" "m_key empty_node = nul" "greedy_match empty_node = []"
  by (simp_all add: empty_node_def rwf_inner_iff first_bits_differ_def greedy_inner)

text \<open>The node that an insertion puts in place of the root; \<open>None\<close> when the code is undefined.\<close>

definition new_root :: "rnode \<Rightarrow> rnode list \<Rightarrow> RtEntry \<times> bool \<Rightarrow> rnode option" where
  "new_root n up val =
     (if up = [] then append_node n val
      else case radix_substr (fst val) (m_depth n) (radix_length (m_key n)) of None \<Rightarrow> None
           | Some s \<Rightarrow> if s = m_key n then map_option (\<lambda>n. replug n up) (append_node n val)
                      else map_option (\<lambda>p. replug p (tl up)) (prepend_node (hd up) n val))"

lemma insert_val_root:
  "insert_val val t =
     (let root = (case m_root t of None \<Rightarrow> empty_node | Some r \<Rightarrow> r) in
      case find_node (fst val) 0 root [] of
        None \<Rightarrow> None
      | Some (node, up) \<Rightarrow>
          if m_is_leaf node then Some (t\<lparr>m_root := Some root\<rparr>, False)
          else map_option (\<lambda>r. (\<lparr>m_size = m_size t + 1, m_root = Some r\<rparr>, True)) (new_root node up val))"
  by (auto simp: insert_val_def new_root_def Let_def split: option.splits)

definition runs_past :: "RtEntry \<Rightarrow> rnode \<Rightarrow> bool list \<Rightarrow> bool" where
  "runs_past key n p \<longleftrightarrow>
     m_prefixLen key < int (if prefix (p @ ebits (m_key n)) (abits key) then length (p @ ebits (m_key n)) else length p)"

lemma new_root_ok:
  assumes r: "rwf [] r" "\<not> m_is_leaf r" "m_key r = nul" and k: "key_ok key"
    and f: "found r key up n p" and l: "\<not> m_is_leaf n" and np: "\<not> runs_past key n p"
  shows "\<exists>r'. new_root n up (key, v) = Some r' \<and>
     rwf [] r' \<and> \<not> m_is_leaf r' \<and> m_key r' = nul \<and> mset (greedy_match r') = add_mset (key, v) (mset (greedy_match r)) \<and>
     (\<forall>e\<in>set (greedy_match r). ebits (fst e) \<noteq> ebits key)"
proof -
  have path: "on_path r up n p" using f by (simp add: found_def)
  have w: "rwf p n" by (rule on_path_rwf [OF r(1) path])
  from key_sub_test [OF r(1) f l] obtain s
    where s: "radix_substr key (m_depth n) (radix_length (m_key n)) = Some s"
      "s = m_key n \<longleftrightarrow> prefix (p @ ebits (m_key n)) (abits key)" .
  show ?thesis
  proof (cases "prefix (p @ ebits (m_key n)) (abits key)")
    case True
    have le: "int (length (p @ ebits (m_key n))) \<le> m_prefixLen key" using np True by (simp add: runs_past_def)
    have ff: "if int (length (p @ ebits (m_key n))) = m_prefixLen key then \<not> m_is_leaf (snd x)
        else m_is_leaf (snd x) \<or> hd (ebits (fst x)) \<noteq> abits key ! length (p @ ebits (m_key n))"
      if "x \<in> set (m_children n)" for x
      using f l True that by (simp only: found_def if_False if_True simp_thms length_append) blast
    from append_ok [OF w l k True le ff] obtain n' where
      n': "append_node n (key, v) = Some n'" "rwf p n'" "\<not> m_is_leaf n'" "m_key n' = m_key n" "dense n \<longrightarrow> dense n'"
        "mset (greedy_match n') = add_mset (key, v) (mset (greedy_match n))" by blast
    have rp: "rwf [] (replug n' up) \<and> m_key (replug n' up) = m_key r \<and> \<not> m_is_leaf (replug n' up) \<and>
        mset (greedy_match (replug n' up)) + mset (greedy_match n) = mset (greedy_match r) + mset (greedy_match n')"
      by (rule replug_spec [OF r(1) path l n'(2,3) _ n'(4)]) (use n'(5) on_path_dense [OF r(1) path] in blast)
    have "\<forall>e\<in>set (greedy_match r). ebits (fst e) \<noteq> ebits key"
      using found_fresh [OF r(1,3) f l k] True le by auto
    then show ?thesis using n' rp s True r(3) by (cases "up = []") (auto simp: new_root_def)
  next
    case False
    have g: "up \<noteq> []" "hd (ebits (m_key n)) = abits key ! length p" "int (length p) \<noteq> m_prefixLen key" "prefix p (abits key)"
      using f l False by (auto simp: found_def)
    then obtain q up' where up: "up = q # up'" by (cases up) auto
    then obtain p' where q: "(m_key n, n) \<in> set (m_children q)" "on_path r up' q p'" "p = p' @ ebits (m_key q)" using path by auto
    have wq: "rwf p' q" by (rule on_path_rwf [OF r(1) q(2)])
    have qi: "\<not> m_is_leaf q" by (rule rwf_child(4) [OF wq q(1)])
    have lt: "int (length p) < m_prefixLen key" using g(3) np False by (simp add: runs_past_def)
    from prepend_ok [OF wq q(1) l q(3) k g(4) False g(2) lt] obtain q' where
      q': "prepend_node q n (key, v) = Some q'" "rwf p' q'" "\<not> m_is_leaf q'" "m_key q' = m_key q" "dense q \<longrightarrow> dense q'"
        "mset (greedy_match q') = add_mset (key, v) (mset (greedy_match q))" by blast
    have rp: "rwf [] (replug q' up') \<and> m_key (replug q' up') = m_key r \<and> \<not> m_is_leaf (replug q' up') \<and>
        mset (greedy_match (replug q' up')) + mset (greedy_match q) = mset (greedy_match r) + mset (greedy_match q')"
      by (rule replug_spec [OF r(1) q(2) qi q'(2,3) _ q'(4)]) (use q'(5) on_path_dense [OF r(1) q(2)] in blast)
    have "\<forall>e\<in>set (greedy_match r). ebits (fst e) \<noteq> ebits key"
      using found_fresh [OF r(1,3) f l k] False lt by auto
    then show ?thesis using q' rp s False up r(3) by (auto simp: new_root_def)
  qed
qed

lemma new_root_undefined:
  assumes "rwf [] r" "m_key r = nul" "key_ok key" "found r key up n p" "\<not> m_is_leaf n" "runs_past key n p"
  shows "new_root n up (key, v) = None"
proof -
  have path: "on_path r up n p" using assms(4) by (simp add: found_def)
  have w: "rwf p n" by (rule on_path_rwf [OF assms(1) path])
  have "up \<noteq> []" using path assms(2,3,6) by (auto simp: runs_past_def key_ok_def)
  moreover from key_sub_test [OF assms(1,4,5)] obtain s
    where "radix_substr key (m_depth n) (radix_length (m_key n)) = Some s"
      "s = m_key n \<longleftrightarrow> prefix (p @ ebits (m_key n)) (abits key)" .
  ultimately show ?thesis
    using append_undefined [OF w assms(5), of key v] prepend_undefined [OF w assms(5), of key _ v] assms(6)
    by (auto simp: new_root_def runs_past_def split: if_splits)
qed

lemma no_clash_runs:
  assumes "rwf [] r" "m_key r = nul" "key_ok key" "found r key up n p" "\<not> m_is_leaf n" "\<not> clash key (greedy_match r)"
  shows "\<not> runs_past key n p"
proof (cases "prefix (p @ ebits (m_key n)) (abits key)")
  case True
  have path: "on_path r up n p" using assms(4) by (simp add: found_def)
  show ?thesis using no_clash_path [OF assms(1) path assms(5) True assms(6,2,3)] True by (simp add: runs_past_def)
next
  case False
  then obtain q up' p' where q: "on_path r up' q p'" "p = p' @ ebits (m_key q)" "(m_key n, n) \<in> set (m_children q)"
    using assms(4,5) by (cases up) (auto simp: found_def)
  have "\<not> m_is_leaf q" by (rule rwf_child(4) [OF on_path_rwf [OF assms(1) q(1)] q(3)])
  moreover have "prefix (p' @ ebits (m_key q)) (abits key)" using assms(4) q(2) by (simp add: found_def)
  ultimately show ?thesis using no_clash_path [OF assms(1) q(1) _ _ assms(6,2,3)] q(2) False by (simp add: runs_past_def)
qed

text \<open>An insertion is defined unless the key clashes with the entries; when it is defined, it is right.\<close>

lemma insert_cases:
  assumes "twf t" "key_ok key"
  shows "insert_val (key, v) t = None \<and> clash key (entries t) \<or>
    (\<exists>t' b. insert_val (key, v) t = Some (t', b) \<and> twf t' \<and>
      (b \<longleftrightarrow> (\<forall>e\<in>set (entries t). ebits (fst e) \<noteq> ebits key)) \<and>
      mset (entries t') = (if b then add_mset (key, v) (mset (entries t)) else mset (entries t)))"
proof -
  define r where "r = (case m_root t of None \<Rightarrow> empty_node | Some r \<Rightarrow> r)"
  have r: "rwf [] r" "\<not> m_is_leaf r" "m_key r = nul" and es: "greedy_match r = entries t"
    using assms(1) empty_node_ok by (auto simp: r_def twf_def entries_def split: option.splits)
  from find_root [OF r, of key] obtain n up p where f: "find_node key 0 r [] = Some (n, up)" "found r key up n p" .
  consider (leaf) "m_is_leaf n" | (past) "\<not> m_is_leaf n" "runs_past key n p" | (fresh) "\<not> m_is_leaf n" "\<not> runs_past key n p" by blast
  then show ?thesis
  proof cases
    case leaf
    from found_leaf [OF r(1) f(2) leaf assms(2)] have "\<exists>e\<in>set (entries t). ebits (fst e) = ebits key" using es by metis
    moreover have "insert_val (key, v) t = Some (t\<lparr>m_root := Some r\<rparr>, False)"
      using f leaf by (simp add: insert_val_root flip: r_def)
    moreover have "twf (t\<lparr>m_root := Some r\<rparr>)" "entries (t\<lparr>m_root := Some r\<rparr>) = entries t"
      using r es assms(1) by (auto simp: twf_def entries_def)
    ultimately show ?thesis by auto
  next
    case past
    then have "clash key (entries t)" using no_clash_runs [OF r(1,3) assms(2) f(2)] es by auto
    moreover have "insert_val (key, v) t = None"
      using f(1) past new_root_undefined [OF r(1,3) assms(2) f(2) past] by (simp add: insert_val_root flip: r_def)
    ultimately show ?thesis by blast
  next
    case fresh
    from new_root_ok [OF r assms(2) f(2) fresh, of v] es obtain r' where
      r': "new_root n up (key, v) = Some r'" "rwf [] r'" "\<not> m_is_leaf r'" "m_key r' = nul"
        "mset (greedy_match r') = add_mset (key, v) (mset (entries t))" "\<forall>e\<in>set (entries t). ebits (fst e) \<noteq> ebits key" by auto
    let ?t = "\<lparr>m_size = m_size t + 1, m_root = Some r'\<rparr>"
    have "insert_val (key, v) t = Some (?t, True)" using f fresh(1) r'(1) by (simp add: insert_val_root flip: r_def)
    moreover have "length (greedy_match r') = Suc (length (entries t))" using r'(5) by (metis size_mset size_add_mset)
    then have "twf ?t" using r' assms(1) by (simp add: twf_def entries_def)
    ultimately show ?thesis using r'(5,6) by (auto simp: entries_def)
  qed
qed

section \<open>Removal\<close>

lemma join_node:
  assumes "rwf p g" "m_children g = [(ku, u)]" "\<not> m_is_leaf u" "ebits (m_key g) \<noteq> []"
    and "u' = RNode (radix_join (m_key g) (m_key u)) (m_depth g) False (m_value u) (m_children u)"
  shows "rwf p u'" "dense u'" "ebits (m_key u') \<noteq> []" "hd (ebits (m_key u')) = hd (ebits (m_key g))"
    "greedy_match u' = greedy_match g"
proof -
  have in_g: "(ku, u) \<in> set (m_children g)" using assms(2) by simp
  note c = rwf_child [OF assms(1) in_g]
  have gi: "\<not> m_is_leaf g" and w: "rwf (p @ ebits (m_key g)) u" using c by auto
  note i = rwf_innerD [OF assms(1) gi] and j = rwf_innerD [OF w assms(3)]
  have len: "m_prefixLen (m_key g) + m_prefixLen (m_key u) \<le> 32"
    using j(2) i(1) j(1) by (auto simp: length_ebits canon_def key_ok_def)
  note jb = join_bits [OF i(1) j(1) len]
  have "rwf p (RNode (radix_join (m_key g) (m_key u)) (int (length p)) False (m_value u) (m_children u))"
  proof (rule rwf.inner [OF jb(1)])
    show "length p + length (ebits (radix_join (m_key g) (m_key u))) \<le> 32" using j(2) jb(2) by simp
    show "\<forall>x\<in>set (m_children u). fst x = m_key (snd x) \<and> rwf (p @ ebits (radix_join (m_key g) (m_key u))) (snd x) \<and>
        (m_is_leaf (snd x) \<or> ebits (fst x) \<noteq> []) \<and> dense (snd x)"
      using rwf_child [OF w] jb(2) by simp
  qed (use j in auto)
  then show "rwf p u'" using assms(5) i(5) by simp
  show "dense u'" using c(5) assms(3,5) by (simp add: dense_def)
  show "ebits (m_key u') \<noteq> []" "hd (ebits (m_key u')) = hd (ebits (m_key g))" using jb(2) assms(4,5) by auto
  show "greedy_match u' = greedy_match g" using assms(2,3,5) gi by (simp add: greedy_inner)
qed

lemma merge_up_spec:
  assumes "rwf [] r" "on_path r up g p" "\<not> m_is_leaf g" "rwf p g'" "m_key g' = m_key g" "\<not> m_is_leaf g'"
    and "up \<noteq> [] \<Longrightarrow> m_children g' \<noteq> []"
  shows "rwf [] (merge_up g' up) \<and> m_key (merge_up g' up) = m_key r \<and> \<not> m_is_leaf (merge_up g' up) \<and>
    mset (greedy_match (merge_up g' up)) + mset (greedy_match g) = mset (greedy_match r) + mset (greedy_match g')"
proof (cases up)
  case Nil
  then show ?thesis using assms by (simp add: merge_up_def)
next
  case (Cons h up')
  then obtain p' where h: "(m_key g, g) \<in> set (m_children h)" "on_path r up' h p'" "p = p' @ ebits (m_key h)" using assms(2) by auto
  have wh: "rwf p' h" by (rule on_path_rwf [OF assms(1) h(2)])
  have gk: "ebits (m_key g) \<noteq> []" using rwf_child(3) [OF wh h(1)] assms(3) by simp
  show ?thesis
  proof (cases "\<exists>ku u. m_children g' = [(ku, u)] \<and> \<not> m_is_leaf u")
    case True
    then obtain ku u where u: "m_children g' = [(ku, u)]" "\<not> m_is_leaf u" by blast
    define u' where "u' = RNode (radix_join (m_key g') (m_key u)) (m_depth g') False (m_value u) (m_children u)"
    have k: "ebits (m_key g') \<noteq> []" using gk assms(5) by simp
    note jn = join_node [OF assms(4) u k u'_def]
    have w: "rwf (p' @ ebits (m_key h)) u'" using jn(1) h(3) by simp
    have ui: "\<not> m_is_leaf u'" by (simp add: u'_def)
    have hd: "hd (ebits (m_key u')) = hd (ebits (m_key g))" using jn(4) assms(5) by simp
    define h' where "h' = with_children (omap_assign (m_key u') u' (omap_erase (m_key g) (m_children h))) h"
    note sw = swap_child [OF wh h(1) assms(3) w ui jn(2) refl jn(3) hd h'_def]
    have hi: "\<not> m_is_leaf h" by (rule rwf_child(4) [OF wh h(1)])
    have rp: "rwf [] (replug h' up') \<and> m_key (replug h' up') = m_key r \<and> \<not> m_is_leaf (replug h' up') \<and>
        mset (greedy_match (replug h' up')) + mset (greedy_match h) = mset (greedy_match r) + mset (greedy_match h')"
      by (rule replug_spec [OF assms(1) h(2) hi sw(1,5) _ sw(4)]) (use sw(6) on_path_dense [OF assms(1) h(2)] in blast)
    have "merge_up g' up = replug h' up'"
      using Cons u assms(5) by (simp add: merge_up_def u'_def h'_def Let_def)
    then show ?thesis using rp mset_chain [OF _ sw(2), of "mset (greedy_match (replug h' up'))" "mset (greedy_match r)"] jn(5) by simp
  next
    case False
    then have eq: "merge_up g' up = replug g' up"
      using Cons by (auto simp: merge_up_def split: list.splits prod.splits)
    have "dense g'" using False assms(7) Cons by (cases "m_children g'"; cases "tl (m_children g')") (auto simp: dense_def)
    then show ?thesis unfolding eq using replug_spec [OF assms(1,2,3,4,6) _ assms(5)] by blast
  qed
qed

lemma erase_leaf_spec:
  assumes "rwf [] r" "on_path r up q p" "(nul, c) \<in> set (m_children q)" "m_is_leaf c" "greedy_match c = [val]"
  shows "rwf [] (erase_leaf q up) \<and> m_key (erase_leaf q up) = m_key r \<and> \<not> m_is_leaf (erase_leaf q up) \<and>
    mset (greedy_match r) = add_mset val (mset (greedy_match (erase_leaf q up)))"
proof -
  have w: "rwf p q" by (rule on_path_rwf [OF assms(1,2)])
  have qi: "\<not> m_is_leaf q" by (rule rwf_child(4) [OF w assms(3)])
  define q' where "q' = with_children (omap_erase nul (m_children q)) q"
  note d = del_child [OF w assms(3), folded q'_def]
  have q': "m_key q' = m_key q" "\<not> m_is_leaf q'" "m_children q' = omap_erase nul (m_children q)" using qi by (simp_all add: q'_def)
  have mq: "mset (greedy_match q) = add_mset val (mset (greedy_match q'))" using d(2) assms(5) by simp
  show ?thesis
  proof (cases up)
    case Nil
    then show ?thesis using assms(2) d(1) q' mq by (simp add: erase_leaf_def Let_def q'_def)
  next
    case (Cons g up')
    then obtain p' where g: "(m_key q, q) \<in> set (m_children g)" "on_path r up' g p'" "p = p' @ ebits (m_key g)" using assms(2) by auto
    have wg: "rwf p' g" by (rule on_path_rwf [OF assms(1) g(2)])
    have gi: "\<not> m_is_leaf g" by (rule rwf_child(4) [OF wg g(1)])
    consider "1 < length (m_children q')" | "m_children q' = []" | "length (m_children q') = 1"
      by (cases "m_children q'") auto
    then show ?thesis
    proof cases
      case 1
      then have "erase_leaf q up = replug q' up" using Cons by (simp add: erase_leaf_def Let_def q'_def)
      moreover have "dense q'" using 1 by (simp add: dense_def)
      ultimately show ?thesis using replug_spec [OF assms(1,2) qi d(1) q'(2) _ q'(1)] mq by auto
    next
      case 2
      define g' where "g' = with_children (omap_erase (m_key q) (m_children g)) g"
      note dg = del_child [OF wg g(1), folded g'_def]
      have g': "m_key g' = m_key g" "\<not> m_is_leaf g'" "m_children g' = omap_erase (m_key q) (m_children g)" using gi by (simp_all add: g'_def)
      have ne: "m_children g' \<noteq> []" if "up' \<noteq> []"
      proof -
        have "dense g" by (rule on_path_dense [OF assms(1) g(2) that])
        then consider y where "y \<in> set (m_children g)" "m_is_leaf (snd y)" | "2 \<le> length (m_children g)" using gi by (auto simp: dense_def)
        then show ?thesis
        proof cases
          case 1
          then have "fst y \<noteq> m_key q" using children_unique [OF wg g(1)] qi by (metis prod.collapse)
          then show ?thesis using 1 g'(3) by (auto simp: omap_erase_def filter_empty_conv)
        qed (use dg(3) g'(3) in auto)
      qed
      have "erase_leaf q up = merge_up g' up'" using Cons 2 by (simp add: erase_leaf_def Let_def q'_def g'_def)
      moreover have "mset (greedy_match q') = {#}" using 2 q'(2) by (simp add: mset_greedy)
      ultimately show ?thesis
        using merge_up_spec [OF assms(1) g(2) gi dg(1) g'(1,2) ne] dg(2) mq by auto
    next
      case 3
      then have "m_children q' \<noteq> []" by auto
      moreover from this 3 have "erase_leaf q up = merge_up q' up" using Cons by (simp add: erase_leaf_def Let_def q'_def)
      ultimately show ?thesis using merge_up_spec [OF assms(1,2) qi d(1) q'(1,2)] mq by auto
    qed
  qed
qed

lemma filter_mset_all: "\<forall>e\<in>set xs. P e \<Longrightarrow> filter_mset P (mset xs) = mset xs"
  by (simp flip: mset_filter)

lemma erase_ok:
  assumes "twf t" "m_prefixLen key = 32"
  shows "\<exists>t' b. erase key t = Some (t', b) \<and> twf t' \<and> (b \<longleftrightarrow> (\<exists>e\<in>set (entries t). ebits (fst e) = ebits key)) \<and>
    mset (entries t') = filter_mset (\<lambda>e. ebits (fst e) \<noteq> ebits key) (mset (entries t))"
proof (cases "m_root t")
  case None
  then show ?thesis using assms(1) by (auto simp: erase_def entries_def)
next
  case (Some r)
  then have r: "rwf [] r" "\<not> m_is_leaf r" "m_key r = nul" and es: "greedy_match r = entries t"
    using assms(1) by (auto simp: twf_def entries_def)
  have k: "key_ok key" using assms(2) by (simp add: key_ok_def)
  have dist: "distinct (map (ebits \<circ> fst) (entries t))" using rwf_distinct [OF r(1)] es by simp
  from find_root [OF r, of key] obtain n up p where f: "find_node key 0 r [] = Some (n, up)" "found r key up n p" .
  show ?thesis
  proof (cases "m_is_leaf n")
    case True
    from found_leaf [OF r(1) f(2) True k] obtain q up' p' val where
      q: "up = q # up'" "on_path r up' q p'" "(nul, n) \<in> set (m_children q)"
        "n = RNode nul (int (length p)) True (Some val) []" "ebits (fst val) = ebits key" "val \<in> set (greedy_match r)" by metis
    have "greedy_match n = [val]" using q(4) by (simp add: greedy_leaf)
    from erase_leaf_spec [OF r(1) q(2,3) True this]
    have e: "rwf [] (erase_leaf q up')" "m_key (erase_leaf q up') = nul" "\<not> m_is_leaf (erase_leaf q up')"
      "mset (entries t) = add_mset val (mset (greedy_match (erase_leaf q up')))" using r(3) es by auto
    let ?t = "\<lparr>m_size = m_size t - 1, m_root = Some (erase_leaf q up')\<rparr>"
    have "erase key t = Some (?t, True)" using Some f True q(1) by (simp add: erase_def)
    moreover have "length (entries t) = Suc (length (greedy_match (erase_leaf q up')))" using e(4) by (metis size_mset size_add_mset)
    then have "twf ?t" using e assms(1) by (simp add: twf_def entries_def)
    moreover have "mset (greedy_match (erase_leaf q up')) = filter_mset (\<lambda>e. ebits (fst e) \<noteq> ebits key) (mset (entries t))"
    proof -
      have "distinct (map (ebits \<circ> fst) (val # greedy_match (erase_leaf q up')))"
        using dist e(4) by (metis mset.simps(2) mset_eq_imp_distinct_iff mset_map)
      then have "\<forall>e\<in>set (greedy_match (erase_leaf q up')). ebits (fst e) \<noteq> ebits key" using q(5) by (auto simp: image_iff)
      then show ?thesis unfolding e(4) using q(5) by (simp add: filter_mset_all)
    qed
    moreover have "entries ?t = greedy_match (erase_leaf q up')" by (simp add: entries_def)
    moreover have "\<exists>e\<in>set (entries t). ebits (fst e) = ebits key" using q(5,6) es by auto
    ultimately show ?thesis by (intro exI [of _ ?t] exI [of _ True]) simp
  next
    case False
    have w: "rwf p n" "prefix p (abits key)" using f(2) on_path_rwf [OF r(1)] by (auto simp: found_def)
    have c: "if prefix (p @ ebits (m_key n)) (abits key) then int (length (p @ ebits (m_key n))) \<le> m_prefixLen key
        else int (length p) < m_prefixLen key"
    proof (cases "prefix (p @ ebits (m_key n)) (abits key)")
      case True
      then show ?thesis using rwf_innerD(2) [OF w(1) False] assms(2) by simp
    next
      case np: False
      then have "int (length p) \<noteq> 32" using f(2) False assms(2) by (auto simp: found_def)
      then show ?thesis using np prefix_length_le [OF w(2)] assms(2) by simp
    qed
    have fresh: "\<forall>e\<in>set (entries t). ebits (fst e) \<noteq> ebits key"
      using found_fresh [OF r(1,3) f(2) False k c] es by auto
    moreover have "erase key t = Some (t, False)" using Some f False by (simp add: erase_def)
    moreover have "filter_mset (\<lambda>e. ebits (fst e) \<noteq> ebits key) (mset (entries t)) = mset (entries t)"
      using fresh by (rule filter_mset_all)
    ultimately show ?thesis using assms(1) by auto
  qed
qed

section \<open>The tree as a table of prefixes\<close>

text \<open>What the tree stands for: a map from bit lists to values.\<close>

definition tbl :: "radix_tree \<Rightarrow> bool list \<rightharpoonup> bool" where
  "tbl t = map_of (map (\<lambda>e. (ebits (fst e), snd e)) (entries t))"

lemma twf_distinct: "twf t \<Longrightarrow> distinct (map (ebits \<circ> fst) (entries t))"
  by (auto simp: twf_def entries_def intro: rwf_distinct split: option.splits)

lemma tbl_eq: "twf t \<Longrightarrow> tbl t b = Some v \<longleftrightarrow> (\<exists>e\<in>set (entries t). ebits (fst e) = b \<and> snd e = v)"
proof -
  assume "twf t"
  then have "distinct (map fst (map (\<lambda>e. (ebits (fst e), snd e)) (entries t)))"
    using twf_distinct by (simp add: comp_def)
  from map_of_eq_Some_iff [OF this] show ?thesis by (auto simp: tbl_def image_iff)
qed

lemma tbl_none: "tbl t b = None \<longleftrightarrow> (\<forall>e\<in>set (entries t). ebits (fst e) \<noteq> b)"
  by (auto simp: tbl_def map_of_eq_None_iff image_iff)

lemma tbl_cong:
  assumes "twf t" "twf t'" "mset (entries t') = mset (entries t)"
  shows "tbl t' = tbl t"
proof
  fix b
  have "set (entries t') = set (entries t)" using assms(3) by (rule mset_eq_setD)
  then show "tbl t' b = tbl t b" using tbl_eq [OF assms(1)] tbl_eq [OF assms(2)] by (metis option.exhaust)
qed

lemma twf_new: "twf new_tree" "tbl new_tree = Map.empty" "twf (clear t)" "tbl (clear t) = Map.empty"
  by (simp_all add: twf_def new_tree_def clear_def entries_def tbl_def)

lemma insert_some_tbl:
  assumes "twf t" "key_ok key" "insert_val (key, v) t = Some (t', b)"
  shows "twf t'" "b \<longleftrightarrow> tbl t (ebits key) = None" "tbl t' = (if b then (tbl t)(ebits key \<mapsto> v) else tbl t)"
    "m_size t' = (if b then m_size t + 1 else m_size t)"
proof -
  from insert_cases [OF assms(1,2), of v] assms(3) have t': "twf t'"
    "b \<longleftrightarrow> (\<forall>e\<in>set (entries t). ebits (fst e) \<noteq> ebits key)"
    "mset (entries t') = (if b then add_mset (key, v) (mset (entries t)) else mset (entries t))" by auto
  have "tbl t' = (tbl t)(ebits key \<mapsto> v)" if b
  proof
    fix x
    have set: "set (entries t') = insert (key, v) (set (entries t))"
      using t'(3) that by (metis set_mset_add_mset_insert set_mset_mset)
    have fresh: "\<forall>e\<in>set (entries t). ebits (fst e) \<noteq> ebits key" using t'(2) that by simp
    have "tbl t' x = Some w \<longleftrightarrow> ((tbl t)(ebits key \<mapsto> v)) x = Some w" for w
      unfolding tbl_eq [OF t'(1)] set using tbl_eq [OF assms(1), of x w] fresh by auto
    then show "tbl t' x = ((tbl t)(ebits key \<mapsto> v)) x" by (metis option.exhaust)
  qed
  moreover have "tbl t' = tbl t" if "\<not> b" using tbl_cong [OF assms(1) t'(1)] t'(3) that by simp
  ultimately show "tbl t' = (if b then (tbl t)(ebits key \<mapsto> v) else tbl t)" by simp
  show "twf t'" "b \<longleftrightarrow> tbl t (ebits key) = None" using t' by (simp_all add: tbl_none)
  have "length (entries t') = (if b then Suc (length (entries t)) else length (entries t))"
    using t'(3) by (metis size_add_mset size_mset)
  then show "m_size t' = (if b then m_size t + 1 else m_size t)" using t'(1) assms(1) by (simp add: twf_def)
qed

lemma insert_defined:
  assumes "twf t" "key_ok key" "\<not> clash key (entries t)"
  shows "\<exists>t' b. insert_val (key, v) t = Some (t', b)"
  using insert_cases [OF assms(1,2), of v] assms(3) by blast

lemma erase_tbl:
  assumes "twf t" "m_prefixLen key = 32"
  shows "\<exists>t' b. erase key t = Some (t', b) \<and> twf t' \<and> (b \<longleftrightarrow> tbl t (ebits key) \<noteq> None) \<and> tbl t' = (tbl t)(ebits key := None)"
proof -
  from erase_ok [OF assms] obtain t' b where t': "erase key t = Some (t', b)" "twf t'"
    "b \<longleftrightarrow> (\<exists>e\<in>set (entries t). ebits (fst e) = ebits key)"
    "mset (entries t') = filter_mset (\<lambda>e. ebits (fst e) \<noteq> ebits key) (mset (entries t))" by blast
  have set: "set (entries t') = {e \<in> set (entries t). ebits (fst e) \<noteq> ebits key}"
    using t'(4) by (metis set_mset_filter set_mset_mset)
  have "tbl t' = (tbl t)(ebits key := None)"
  proof
    fix x
    have "tbl t' x = Some w \<longleftrightarrow> ((tbl t)(ebits key := None)) x = Some w" for w
    proof (cases "x = ebits key")
      case False
      then have "(\<exists>e\<in>set (entries t'). ebits (fst e) = x \<and> snd e = w) \<longleftrightarrow> (\<exists>e\<in>set (entries t). ebits (fst e) = x \<and> snd e = w)"
        unfolding set by blast
      with False show ?thesis by (simp add: tbl_eq [OF t'(2)] tbl_eq [OF assms(1)])
    qed (auto simp: tbl_eq [OF t'(2)] set)
    then show "tbl t' x = ((tbl t)(ebits key := None)) x" by (metis option.exhaust)
  qed
  moreover have "b \<longleftrightarrow> tbl t (ebits key) \<noteq> None" unfolding tbl_none t'(3) by simp
  ultimately show ?thesis using t'(1,2) by blast
qed

text \<open>The value at the longest prefix of \<open>a\<close> in a table, the reference for \<open>longest_match\<close>.\<close>

fun best :: "(bool list \<rightharpoonup> bool) \<Rightarrow> bool list \<Rightarrow> nat \<Rightarrow> bool option" where
  "best m a 0 = m []"
| "best m a (Suc n) = (case m (take (Suc n) a) of Some v \<Rightarrow> Some v | None \<Rightarrow> best m a n)"

lemma best_none: "best m a n = None \<longleftrightarrow> (\<forall>i\<le>n. m (take i a) = None)"
  by (induction n) (auto split: option.splits simp: le_Suc_eq)

lemma best_some: "m (take i a) = Some v \<Longrightarrow> i \<le> n \<Longrightarrow> (\<And>j. i < j \<Longrightarrow> j \<le> n \<Longrightarrow> m (take j a) = None) \<Longrightarrow> best m a n = Some v"
proof (induction n)
  case (Suc n)
  then show ?case by (cases "i = Suc n") (auto simp: le_Suc_eq)
qed simp

lemma best_hit: "best m a n = Some v \<Longrightarrow> \<exists>i\<le>n. m (take i a) = Some v \<and> (\<forall>j. i < j \<longrightarrow> j \<le> n \<longrightarrow> m (take j a) = None)"
proof (induction n)
  case (Suc n)
  show ?case
  proof (cases "m (take (Suc n) a)")
    case None
    then obtain i where i: "i \<le> n" "m (take i a) = Some v" "\<forall>j. i < j \<longrightarrow> j \<le> n \<longrightarrow> m (take j a) = None" using Suc by auto
    then have "\<forall>j. i < j \<longrightarrow> j \<le> Suc n \<longrightarrow> m (take j a) = None" using None by (auto simp: le_Suc_eq)
    then show ?thesis using i by (intro exI [of _ i]) simp
  qed (use Suc in auto)
qed simp

lemma longest_match_best:
  assumes "twf t" "m_prefixLen key = 32"
  shows "\<exists>res. longest_match key t = Some res \<and> map_option snd res = best (tbl t) (abits key) 32"
proof -
  let ?K = "abits key"
  from longest_match_spec [OF assms] obtain res where
    res: "longest_match key t = Some res" "longest {e \<in> set (entries t). prefix (ebits (fst e)) ?K} res" .
  have "map_option snd res = best (tbl t) ?K 32"
  proof (cases res)
    case None
    then have "\<forall>e\<in>set (entries t). \<not> prefix (ebits (fst e)) ?K" using res(2) by (auto simp: longest_def)
    then have "tbl t (take i ?K) = None" for i unfolding tbl_none using take_is_prefix by metis
    then show ?thesis using None best_none [of "tbl t" ?K 32] by simp
  next
    case (Some e)
    then have e: "e \<in> set (entries t)" "prefix (ebits (fst e)) ?K"
      "\<And>e'. e' \<in> set (entries t) \<Longrightarrow> prefix (ebits (fst e')) ?K \<Longrightarrow> length (ebits (fst e')) \<le> length (ebits (fst e))"
      using res(2) by (auto simp: longest_def)
    let ?i = "length (ebits (fst e))"
    have "take ?i ?K = ebits (fst e)" using e(2) by (auto simp: prefix_def)
    then have "tbl t (take ?i ?K) = Some (snd e)" using tbl_eq [OF assms(1)] e(1) by auto
    moreover have "?i \<le> 32" using prefix_length_le [OF e(2)] by simp
    moreover have "tbl t (take j ?K) = None" if "?i < j" "j \<le> 32" for j
    proof (unfold tbl_none, intro ballI notI)
      fix e' assume "e' \<in> set (entries t)" "ebits (fst e') = take j ?K"
      with e(3) [of e'] that show False by (simp add: take_is_prefix)
    qed
    ultimately show ?thesis using Some best_some [of "tbl t" ?i ?K "snd e" 32] by simp
  qed
  with res(1) show ?thesis by blast
qed

section \<open>Sequences of operations\<close>

datatype op = Ins RtEntry bool | Del u32

fun op_ok :: "op \<Rightarrow> bool" where
  "op_ok (Ins k v) = key_ok k"
| "op_ok (Del a) = True"

fun run_tree :: "op list \<Rightarrow> radix_tree \<Rightarrow> radix_tree option" where
  "run_tree [] t = Some t"
| "run_tree (Ins k v # ops) t = Option.bind (insert_val (k, v) t) (\<lambda>(t', _). run_tree ops t')"
| "run_tree (Del a # ops) t = Option.bind (erase (RtEntry a 32) t) (\<lambda>(t', _). run_tree ops t')"

text \<open>The same operations on a map from prefixes to values: an insertion keeps an existing entry.\<close>

fun run_map :: "op list \<Rightarrow> (bool list \<rightharpoonup> bool) \<Rightarrow> (bool list \<rightharpoonup> bool)" where
  "run_map [] m = m"
| "run_map (Ins k v # ops) m = run_map ops (if m (ebits k) = None then m(ebits k \<mapsto> v) else m)"
| "run_map (Del a # ops) m = run_map ops (m(ebits (RtEntry a 32) := None))"

lemma run_tree_map: "list_all op_ok ops \<Longrightarrow> twf t \<Longrightarrow> run_tree ops t = Some t' \<Longrightarrow> twf t' \<and> tbl t' = run_map ops (tbl t)"
proof (induction ops arbitrary: t)
  case (Cons o1 ops)
  show ?case
  proof (cases o1)
    case (Ins k v)
    with Cons.prems obtain u b where u: "insert_val (k, v) t = Some (u, b)" "run_tree ops u = Some t'" by (auto simp: Option.bind_eq_Some_conv)
    have "key_ok k" using Cons.prems(1) Ins by simp
    note i = insert_some_tbl [OF Cons.prems(2) this u(1)]
    have "tbl u = (if tbl t (ebits k) = None then (tbl t)(ebits k \<mapsto> v) else tbl t)" using i(2,3) by simp
    with Cons.IH [OF _ i(1) u(2)] Cons.prems(1) Ins show ?thesis by simp
  next
    case (Del a)
    from erase_tbl [OF Cons.prems(2), of "RtEntry a 32"] obtain u b where
      u: "erase (RtEntry a 32) t = Some (u, b)" "twf u" "tbl u = (tbl t)(ebits (RtEntry a 32) := None)" by auto
    with Cons.IH [OF _ u(2)] Cons.prems Del show ?thesis by (simp add: fun_upd_def)
  qed
qed simp

lemma card_tbl: "twf t \<Longrightarrow> m_size t = card (dom (tbl t))"
proof -
  assume t: "twf t"
  have "dom (tbl t) = (ebits \<circ> fst) ` set (entries t)" by (auto simp: tbl_def dom_map_of_conv_image_fst image_image)
  also have "card \<dots> = length (entries t)" using twf_distinct [OF t] by (metis distinct_card length_map set_map)
  finally show ?thesis using t by (simp add: twf_def)
qed

text \<open>
  C14. The radix tree is a table of prefixes. After any sequence of insertions and removals of addresses that is
  defined, the tree holds exactly the entries of a map on which the same operations are
  done, its size is their number, and the search for an address finds the value of its longest prefix in the map.
\<close>

theorem radix_refines:
  assumes "list_all op_ok ops" "run_tree ops new_tree = Some t" "m = run_map ops Map.empty"
  shows "tbl t = m \<and> m_size t = card (dom m) \<and>
    (\<exists>res. longest_match (RtEntry a 32) t = Some res \<and> map_option snd res = best m (abits (RtEntry a 32)) 32)"
proof -
  have t: "twf t" "tbl t = m" using run_tree_map [OF assms(1) twf_new(1) assms(2)] assms(3) twf_new(2) by auto
  then show ?thesis using card_tbl longest_match_best [OF t(1), of "RtEntry a 32"] by simp
qed

theorem radix_refines_witness:
  "case run_tree [Ins (RtEntry 0x0A000000 8) True, Ins (RtEntry 0x0A010000 16) False, Del 7] new_tree of
     Some t \<Rightarrow> \<exists>res. longest_match (RtEntry 0x0A010203 32) t = Some res \<and>
       map_option snd res = best (run_map [Ins (RtEntry 0x0A000000 8) True, Ins (RtEntry 0x0A010000 16) False, Del 7] Map.empty)
         (abits (RtEntry 0x0A010203 32)) 32
   | None \<Rightarrow> False"
proof -
  let ?ops = "[Ins (RtEntry 0x0A000000 8) True, Ins (RtEntry 0x0A010000 16) False, Del 7]"
  have "run_tree ?ops new_tree \<noteq> None" by code_simp
  then obtain t where t: "run_tree ?ops new_tree = Some t" by blast
  have "list_all op_ok ?ops" by code_simp
  from radix_refines [OF this t refl, of "0x0A010203"] t show ?thesis by simp
qed

text \<open>
  When insertion is defined. An insertion of any prefix into a well-formed tree is defined unless the prefix, extended
  with the bits of its address, runs into an entry or a branching of two entries below it. An insertion of a
  single address is always defined.
\<close>

theorem insert_defined_unless_clash:
  assumes "twf t" "key_ok key" "m_prefixLen key = 32 \<or> \<not> clash key (entries t)"
  shows "\<exists>t' b. insert_val (key, v) t = Some (t', b) \<and> twf t' \<and> (b \<longleftrightarrow> tbl t (ebits key) = None)"
proof -
  have "\<not> clash key (entries t)" using assms(3) by (auto simp: clash_def Let_def dest: prefix_length_le)
  with insert_defined [OF assms(1,2)] obtain t' b where "insert_val (key, v) t = Some (t', b)" by blast
  with insert_some_tbl [OF assms(1,2)] show ?thesis by blast
qed

theorem insert_defined_unless_clash_witness:
  "\<exists>t' b. insert_val (RtEntry 0x0A000000 8, True) new_tree = Some (t', b) \<and> twf t' \<and> (b \<longleftrightarrow> tbl new_tree (ebits (RtEntry 0x0A000000 8)) = None)"
  by (rule insert_defined_unless_clash [OF twf_new(1)]) (simp_all add: key_ok_def clash_def entries_def new_tree_def)

end
