(* ===== verification/Ip_Window.thy ===== *)
theory Ip_Window
  imports Ordered_Map
begin

text \<open>
  The request counter of the address filter (\<^verbatim>\<open>IpMap\<close> of \<^verbatim>\<open>blacklist.cpp\<close>): per address a window that
  slides by whole seconds, each worth \<open>m_requestsPerSec\<close> requests.
\<close>

section \<open>Counting requests (IpMap)\<close>

text \<open>Time points and durations of the steady clock, in nanoseconds.\<close>

type_synonym time = int

abbreviation one_sec :: time where "one_sec \<equiv> 1000000000"

record Window =
  m_tpStart :: time
  m_count :: int

definition new_Window :: "time \<Rightarrow> Window" where
  "new_Window now = \<lparr>m_tpStart = now, m_count = 1\<rparr>"

record IpMap =
  m_requestsPerSec :: int
  m_wndSizeSec :: int
  m_ipwnd :: "(u32 \<times> Window) list"

definition m_wndSize :: "IpMap \<Rightarrow> time" where
  "m_wndSize m = m_wndSizeSec m * one_sec"

text \<open>The body of \<^verbatim>\<open>inc\<close> for a known address: the new window and whether the limit is exceeded.\<close>

definition inc_window :: "IpMap \<Rightarrow> time \<Rightarrow> Window \<Rightarrow> Window \<times> bool" where
  "inc_window m now wnd =
     (let tp_end = m_tpStart wnd + m_wndSize m;
          bump = (\<lambda>w. let c = m_count w + 1 in (w\<lparr>m_count := c\<rparr>, m_wndSizeSec m * m_requestsPerSec m < c))
      in if tp_end + m_wndSize m < now then (new_Window now, False)
         else if tp_end + one_sec < now then
           let secs = (now - tp_end) div one_sec;
               cnt = m_count wnd - secs * m_requestsPerSec m
           in if cnt \<le> 0 then (new_Window now, False)
              else bump (wnd\<lparr>m_count := cnt, m_tpStart := m_tpStart wnd + secs * one_sec\<rparr>)
         else bump wnd)"

fun next_key :: "u32 \<Rightarrow> (u32 \<times> Window) list \<Rightarrow> (u32 \<times> Window) option" where
  "next_key a [] = None"
| "next_key a ((k, w) # ws) = (if a < k then Some (k, w) else next_key a ws)"

definition neighbor :: "u32 \<Rightarrow> (u32 \<times> Window) list \<Rightarrow> (u32 \<times> Window) option" where
  "neighbor addr ws =
     (case next_key addr ws of Some x \<Rightarrow> Some x
      | None \<Rightarrow> (case ws of [] \<Rightarrow> None | x # _ \<Rightarrow> Some x))"

definition removeItAndNeighbor :: "u32 \<Rightarrow> bool \<Rightarrow> time \<Rightarrow> IpMap \<Rightarrow> IpMap" where
  "removeItAndNeighbor addr triggered now m =
     (let ws = (if triggered then omap_erase addr (m_ipwnd m) else m_ipwnd m)
      in case neighbor addr ws of
           None \<Rightarrow> m\<lparr>m_ipwnd := ws\<rparr>
         | Some (k, wnd) \<Rightarrow>
             if m_tpStart wnd + m_wndSize m + m_wndSize m \<le> now then m\<lparr>m_ipwnd := omap_erase k ws\<rparr>
             else m\<lparr>m_ipwnd := ws\<rparr>)"

definition inc :: "time \<Rightarrow> u32 \<Rightarrow> IpMap \<Rightarrow> bool \<times> IpMap" where
  "inc now addr m =
     (case omap_find (m_ipwnd m) addr of
        Some wnd \<Rightarrow>
          (case inc_window m now wnd of
             (wnd', triggered) \<Rightarrow>
               (triggered, removeItAndNeighbor addr triggered now (m\<lparr>m_ipwnd := omap_assign addr wnd' (m_ipwnd m)\<rparr>)))
      | None \<Rightarrow>
          (False, removeItAndNeighbor addr False now (m\<lparr>m_ipwnd := omap_emplace addr (new_Window now) (m_ipwnd m)\<rparr>)))"

section \<open>The map after a request\<close>

lemma next_key_in: "next_key a ws = Some x \<Longrightarrow> x \<in> set ws"
  by (induction a ws rule: next_key.induct) (auto split: if_splits)

lemma neighbor_in: "neighbor a ws = Some x \<Longrightarrow> x \<in> set ws"
  by (auto simp: neighbor_def dest: next_key_in split: option.splits list.splits)

lemma remove_params [simp]:
  "m_requestsPerSec (removeItAndNeighbor a b t m) = m_requestsPerSec m"
  "m_wndSizeSec (removeItAndNeighbor a b t m) = m_wndSizeSec m"
  by (auto simp: removeItAndNeighbor_def Let_def split: option.splits list.splits prod.splits)

lemma remove_effect:
  "m_ipwnd (removeItAndNeighbor addr trg now m) = (if trg then omap_erase addr (m_ipwnd m) else m_ipwnd m) \<or>
   (\<exists>k wnd. (k, wnd) \<in> set (m_ipwnd m) \<and> m_tpStart wnd + m_wndSize m + m_wndSize m \<le> now \<and>
     m_ipwnd (removeItAndNeighbor addr trg now m) = omap_erase k (if trg then omap_erase addr (m_ipwnd m) else m_ipwnd m))"
proof -
  let ?ws = "if trg then omap_erase addr (m_ipwnd m) else m_ipwnd m"
  have sub: "set ?ws \<subseteq> set (m_ipwnd m)" by (auto simp: omap_erase_set)
  show ?thesis
  proof (cases "neighbor addr ?ws")
    case None
    then show ?thesis by (simp add: removeItAndNeighbor_def Let_def)
  next
    case (Some x)
    then have "x \<in> set (m_ipwnd m)" using neighbor_in sub by blast
    moreover obtain k wnd where "x = (k, wnd)" by fastforce
    ultimately show ?thesis using Some by (simp only: removeItAndNeighbor_def Let_def option.case prod.case) auto
  qed
qed

lemma remove_wf: "omap_wf (m_ipwnd m) \<Longrightarrow> omap_wf (m_ipwnd (removeItAndNeighbor a b t m))"
  using remove_effect [of a b t m] by (auto simp: omap_erase_wf)

lemma remove_subset: "set (m_ipwnd (removeItAndNeighbor a b t m)) \<subseteq> set (m_ipwnd m)"
  using remove_effect [of a b t m] by (auto simp: omap_erase_set split: if_splits)

lemma remove_find:
  assumes "omap_wf (m_ipwnd m)" "\<not> trg \<or> a \<noteq> addr"
    and "\<And>w. omap_find (m_ipwnd m) a = Some w \<Longrightarrow> now < m_tpStart w + m_wndSize m + m_wndSize m"
  shows "omap_find (m_ipwnd (removeItAndNeighbor addr trg now m)) a = omap_find (m_ipwnd m) a"
  using remove_effect [of addr trg now m]
proof
  assume "m_ipwnd (removeItAndNeighbor addr trg now m) = (if trg then omap_erase addr (m_ipwnd m) else m_ipwnd m)"
  then show ?thesis using assms(2) by (auto simp: omap_find_erase)
next
  assume "\<exists>k wnd. (k, wnd) \<in> set (m_ipwnd m) \<and> m_tpStart wnd + m_wndSize m + m_wndSize m \<le> now \<and>
     m_ipwnd (removeItAndNeighbor addr trg now m) = omap_erase k (if trg then omap_erase addr (m_ipwnd m) else m_ipwnd m)"
  then obtain k wnd where k: "(k, wnd) \<in> set (m_ipwnd m)" "m_tpStart wnd + m_wndSize m + m_wndSize m \<le> now"
    "m_ipwnd (removeItAndNeighbor addr trg now m) = omap_erase k (if trg then omap_erase addr (m_ipwnd m) else m_ipwnd m)" by blast
  have "omap_find (m_ipwnd m) k = Some wnd" using k(1) omap_wf_distinct [OF assms(1)] by simp
  then have "k \<noteq> a" using assms(3) k(2) by force
  then show ?thesis using k(3) assms(2) by (auto simp: omap_find_erase)
qed

lemma inc_params [simp]:
  "m_requestsPerSec (snd (inc t a m)) = m_requestsPerSec m" "m_wndSizeSec (snd (inc t a m)) = m_wndSizeSec m"
  by (auto simp: inc_def split: option.splits prod.splits)

lemma inc_wf: "omap_wf (m_ipwnd m) \<Longrightarrow> omap_wf (m_ipwnd (snd (inc t a m)))"
  by (auto simp: inc_def intro!: remove_wf omap_assign_wf omap_emplace_wf split: option.splits prod.splits)

section \<open>Who is stopped\<close>

text \<open>A history of requests, the newest first.\<close>

inductive ip_run :: "IpMap \<Rightarrow> (time \<times> u32) list \<Rightarrow> IpMap \<Rightarrow> time \<Rightarrow> bool" for m0 where
  start: "m_ipwnd m0 = [] \<Longrightarrow> ip_run m0 [] m0 now"
| request: "ip_run m0 h m now \<Longrightarrow> now \<le> t \<Longrightarrow> inc t a m = (trg, m') \<Longrightarrow> ip_run m0 ((t, a) # h) m' t"

definition requests :: "u32 \<Rightarrow> time \<Rightarrow> (time \<times> u32) list \<Rightarrow> int" where
  "requests a from h = int (length (filter (\<lambda>e. snd e = a \<and> from \<le> fst e) h))"

definition window_ok :: "IpMap \<Rightarrow> (time \<times> u32) list \<Rightarrow> time \<Rightarrow> u32 \<Rightarrow> Window \<Rightarrow> bool" where
  "window_ok m h now a w \<longleftrightarrow> (\<exists>from k. 0 \<le> k \<and> from \<le> now \<and> m_tpStart w = from + k * one_sec \<and> m_tpStart w \<le> now \<and>
     m_count w + k * m_requestsPerSec m \<le> requests a from h)"

lemma requests_Cons: "requests a from ((t, b) # h) = requests a from h + (if b = a \<and> from \<le> t then 1 else 0)"
  by (simp add: requests_def)

lemma window_later: "window_ok m h now a w \<Longrightarrow> now \<le> t \<Longrightarrow> b \<noteq> a \<Longrightarrow> window_ok m ((t, b) # h) t a w"
proof -
  assume a: "window_ok m h now a w" "now \<le> t" "b \<noteq> a"
  then obtain s k where "0 \<le> k" "s \<le> now" "m_tpStart w = s + k * one_sec" "m_tpStart w \<le> now"
    "m_count w + k * m_requestsPerSec m \<le> requests a s h" unfolding window_ok_def by blast
  with a show ?thesis unfolding window_ok_def by (intro exI [of _ s] exI [of _ k]) (simp add: requests_Cons)
qed

lemma inc_window_ok:
  assumes "window_ok m h now a w" "now \<le> t" "inc_window m t w = (w', trg)" "0 \<le> m_requestsPerSec m" "0 \<le> m_wndSizeSec m"
  shows "window_ok m ((t, a) # h) t a w'"
    "trg \<Longrightarrow> \<exists>from k. 0 \<le> k \<and> from \<le> t \<and> t \<le> from + (m_wndSizeSec m + k + 1) * one_sec \<and>
       m_requestsPerSec m * (m_wndSizeSec m + k) < requests a from ((t, a) # h)"
proof -
  from assms(1) obtain s k where w: "0 \<le> k" "s \<le> now" "m_tpStart w = s + k * one_sec" "m_tpStart w \<le> now"
    "m_count w + k * m_requestsPerSec m \<le> requests a s h" unfolding window_ok_def by blast
  define R W e where "R = m_requestsPerSec m" and "W = m_wndSizeSec m" and "e = m_tpStart w + m_wndSize m"
  have e: "e = s + (k + W) * one_sec" using w(3) by (simp add: e_def W_def m_wndSize_def algebra_simps)
  have rq: "requests a s ((t, a) # h) = requests a s h + 1" using w(2) assms(2) by (simp add: requests_Cons)
  define q where "q = (t - e) div one_sec"
  have q: "q * one_sec \<le> t - e" "t - e < (q + 1) * one_sec" unfolding q_def by (simp_all add: algebra_simps)
  have fresh: "window_ok m ((t, a) # h) t a (new_Window t)"
    unfolding window_ok_def by (intro exI [of _ t] exI [of _ 0]) (simp add: new_Window_def requests_Cons requests_def)
  have *: "window_ok m ((t, a) # h) t a w' \<and> (trg \<longrightarrow> (\<exists>from k. 0 \<le> k \<and> from \<le> t \<and> t \<le> from + (W + k + 1) * one_sec \<and>
       R * (W + k) < requests a from ((t, a) # h)))"
  proof (cases "e + m_wndSize m < t")
    case True
    then have "w' = new_Window t" "\<not> trg" using assms(3) by (simp_all add: inc_window_def e_def)
    then show ?thesis using fresh by simp
  next
    case n1: False
    show ?thesis
    proof (cases "e + one_sec < t")
      case True
      show ?thesis
      proof (cases "m_count w - q * R \<le> 0")
        case c: True
        then have "w' = new_Window t" "\<not> trg" using assms(3) n1 True by (simp_all add: inc_window_def e_def q_def R_def Let_def)
        then show ?thesis using fresh by simp
      next
        case False
        then have w': "m_count w' = m_count w - q * R + 1" "m_tpStart w' = m_tpStart w + q * one_sec" "trg \<longleftrightarrow> W * R < m_count w'"
          using assms(3) n1 True by (auto simp: inc_window_def e_def q_def R_def W_def Let_def)
        have q1: "0 \<le> q" using True q(2) by simp
        have kq: "0 \<le> k + q" "m_tpStart w' = s + (k + q) * one_sec" "m_tpStart w' \<le> t"
          "m_count w' + (k + q) * R \<le> requests a s ((t, a) # h)" "t \<le> s + (W + (k + q) + 1) * one_sec"
          using w w' q1 q rq e assms(5) by (auto simp: algebra_simps R_def W_def)
        have "window_ok m ((t, a) # h) t a w'"
          unfolding window_ok_def by (intro exI [of _ s] exI [of _ "k + q"]) (use kq w(2) assms(2) in \<open>simp add: R_def\<close>)
        moreover have "R * (W + (k + q)) < requests a s ((t, a) # h)" if trg
          using w'(3) that kq(4) by (simp add: algebra_simps)
        moreover have "s \<le> t" using w(2) assms(2) by simp
        ultimately show ?thesis using kq(1,5) by blast
      qed
    next
      case False
      then have w': "m_count w' = m_count w + 1" "m_tpStart w' = m_tpStart w" "trg \<longleftrightarrow> W * R < m_count w'"
        using assms(3) n1 by (auto simp: inc_window_def e_def R_def W_def Let_def)
      have kq: "m_count w' + k * R \<le> requests a s ((t, a) # h)" "t \<le> s + (W + k + 1) * one_sec"
        using w w' rq e False by (auto simp: algebra_simps R_def)
      have "window_ok m ((t, a) # h) t a w'"
        unfolding window_ok_def by (intro exI [of _ s] exI [of _ k]) (use kq w w' assms(2) in \<open>simp add: R_def\<close>)
      moreover have "R * (W + k) < requests a s ((t, a) # h)" if trg
        using w'(3) that kq(1) by (simp add: algebra_simps)
      moreover have "s \<le> t" using w(2) assms(2) by simp
      ultimately show ?thesis using kq(2) w(1) by blast
    qed
  qed
  show "window_ok m ((t, a) # h) t a w'" using * by blast
  show "\<exists>from k. 0 \<le> k \<and> from \<le> t \<and> t \<le> from + (m_wndSizeSec m + k + 1) * one_sec \<and>
       m_requestsPerSec m * (m_wndSizeSec m + k) < requests a from ((t, a) # h)" if trg
    using * that unfolding R_def W_def by blast
qed

lemma ip_run_inv:
  assumes "ip_run m0 h m now" "0 \<le> m_requestsPerSec m0" "0 \<le> m_wndSizeSec m0"
  shows "omap_wf (m_ipwnd m) \<and> m_requestsPerSec m = m_requestsPerSec m0 \<and> m_wndSizeSec m = m_wndSizeSec m0 \<and>
    (\<forall>x\<in>set (m_ipwnd m). window_ok m h now (fst x) (snd x))"
  using assms(1)
proof induction
  case (request h m now t a trg m')
  then have wf: "omap_wf (m_ipwnd m)" and p: "m_requestsPerSec m = m_requestsPerSec m0" "m_wndSizeSec m = m_wndSizeSec m0"
    and ok: "\<And>x. x \<in> set (m_ipwnd m) \<Longrightarrow> window_ok m h now (fst x) (snd x)" by auto
  have m': "m' = snd (inc t a m)" using request.hyps by simp
  have ok': "window_ok m ((t, a) # h) t (fst x) (snd x)" if "x \<in> set (m_ipwnd m)" "fst x \<noteq> a" for x
    by (rule window_later [OF ok [OF that(1)] request.hyps(2)]) (use that in auto)
  have "window_ok m ((t, a) # h) t (fst x) (snd x)" if x: "x \<in> set (m_ipwnd m')" for x
  proof (cases "omap_find (m_ipwnd m) a")
    case None
    then have "set (m_ipwnd m') \<subseteq> insert (a, new_Window t) (set (m_ipwnd m))"
      using m' remove_subset [of a False t "m\<lparr>m_ipwnd := omap_emplace a (new_Window t) (m_ipwnd m)\<rparr>"]
      by (auto simp: inc_def omap_emplace_set)
    moreover have "window_ok m ((t, a) # h) t a (new_Window t)"
      unfolding window_ok_def by (intro exI [of _ t] exI [of _ 0]) (simp add: new_Window_def requests_Cons requests_def)
    moreover have "fst y \<noteq> a" if "y \<in> set (m_ipwnd m)" for y
      using None that by (auto simp: map_of_eq_None_iff)
    ultimately show ?thesis using x ok' by (cases "x = (a, new_Window t)") auto
  next
    case (Some w)
    obtain w' g where iw: "inc_window m t w = (w', g)" by fastforce
    have "set (m_ipwnd m') \<subseteq> set (omap_assign a w' (m_ipwnd m))"
      using m' Some iw remove_subset [of a g t "m\<lparr>m_ipwnd := omap_assign a w' (m_ipwnd m)\<rparr>"] by (simp add: inc_def)
    then have "omap_find (omap_assign a w' (m_ipwnd m)) (fst x) = Some (snd x)"
      using x omap_wf_distinct [OF omap_assign_wf [OF wf]] by (cases x) auto
    then have c: "(fst x = a \<and> snd x = w') \<or> (fst x \<noteq> a \<and> x \<in> set (m_ipwnd m))"
      using wf by (cases x) (auto simp: omap_find_assign split: if_splits dest: map_of_SomeD)
    have "window_ok m h now a w" using ok [OF map_of_SomeD [OF Some]] by simp
    from inc_window_ok(1) [OF this request.hyps(2) iw] p assms(2,3) c ok' show ?thesis by auto
  qed
  moreover have "m_requestsPerSec m' = m_requestsPerSec m" "m_wndSizeSec m' = m_wndSizeSec m" using m' by simp_all
  ultimately show ?case using p wf m' by (auto simp: inc_wf window_ok_def)
qed simp

text \<open>
  Only floods are stopped. When the counter reports an address, then for some \<open>k\<close> it has sent more than
  \<open>requests_per_sec * (window_size + k)\<close> requests within the last \<open>window_size + k + 1\<close> seconds, whatever requests of
  other addresses lie in between.
\<close>

theorem rate_limit:
  assumes "ip_run m0 h m now" "0 \<le> m_requestsPerSec m0" "0 \<le> m_wndSizeSec m0" "now \<le> t" "inc t a m = (True, m')"
  shows "\<exists>from k. 0 \<le> k \<and> from \<le> t \<and> t \<le> from + (m_wndSizeSec m0 + k + 1) * one_sec \<and>
    m_requestsPerSec m0 * (m_wndSizeSec m0 + k) < requests a from ((t, a) # h)"
proof -
  note i = ip_run_inv [OF assms(1-3)]
  obtain w where w: "omap_find (m_ipwnd m) a = Some w" using assms(5) by (auto simp: inc_def split: option.splits)
  then obtain w' where iw: "inc_window m t w = (w', True)" using assms(5) by (auto simp: inc_def split: prod.splits)
  have "window_ok m h now a w" using i map_of_SomeD [OF w] by auto
  from inc_window_ok(2) [OF this assms(4) iw] i assms(2,3) show ?thesis by simp
qed

theorem rate_limit_witness:
  "\<exists>from k. 0 \<le> k \<and> from \<le> 0 \<and> 0 \<le> from + (1 + k + 1) * one_sec \<and> 1 * (1 + k) < requests 5 from [(0, 5), (0, 5)]"
proof -
  let ?m0 = "\<lparr>m_requestsPerSec = 1, m_wndSizeSec = 1, m_ipwnd = []\<rparr>"
  let ?m1 = "\<lparr>m_requestsPerSec = 1, m_wndSizeSec = 1, m_ipwnd = [(5, \<lparr>m_tpStart = 0, m_count = 1\<rparr>)]\<rparr>"
  have "inc 0 5 ?m0 = (False, ?m1)"
    by (simp add: inc_def removeItAndNeighbor_def neighbor_def new_Window_def m_wndSize_def)
  then have "ip_run ?m0 [(0, 5)] ?m1 0" using ip_run.request [OF ip_run.start, of ?m0 0 0 5 False] by simp
  moreover have "inc 0 5 ?m1 = (True, ?m0)"
    by (simp add: inc_def inc_window_def removeItAndNeighbor_def neighbor_def m_wndSize_def Let_def omap_erase_def)
  ultimately show ?thesis using rate_limit [of ?m0 "[(0, 5)]" ?m1 0 0 5 ?m0] by simp
qed

text \<open>A sequence of requests and what the counter reports for each.\<close>

fun inc_all :: "(time \<times> u32) list \<Rightarrow> IpMap \<Rightarrow> bool list" where
  "inc_all [] m = []"
| "inc_all ((t, a) # es) m = (case inc t a m of (triggered, m') \<Rightarrow> triggered # inc_all es m')"

lemma inc_other:
  assumes "omap_wf (m_ipwnd m)" "b \<noteq> a"
    and "\<And>w. omap_find (m_ipwnd m) a = Some w \<Longrightarrow> t < m_tpStart w + m_wndSize m + m_wndSize m"
  shows "omap_find (m_ipwnd (snd (inc t b m))) a = omap_find (m_ipwnd m) a"
proof (cases "omap_find (m_ipwnd m) b")
  case None
  have "omap_find (m_ipwnd (removeItAndNeighbor b False t (m\<lparr>m_ipwnd := omap_emplace b (new_Window t) (m_ipwnd m)\<rparr>))) a =
    omap_find (omap_emplace b (new_Window t) (m_ipwnd m)) a"
    using remove_find [of "m\<lparr>m_ipwnd := omap_emplace b (new_Window t) (m_ipwnd m)\<rparr>" False a b t] assms
    by (simp add: omap_emplace_wf omap_find_emplace m_wndSize_def)
  then show ?thesis using None assms(1,2) by (simp add: inc_def omap_find_emplace)
next
  case (Some w)
  obtain w' g where iw: "inc_window m t w = (w', g)" by fastforce
  have "omap_find (m_ipwnd (removeItAndNeighbor b g t (m\<lparr>m_ipwnd := omap_assign b w' (m_ipwnd m)\<rparr>))) a =
    omap_find (omap_assign b w' (m_ipwnd m)) a"
    using remove_find [of "m\<lparr>m_ipwnd := omap_assign b w' (m_ipwnd m)\<rparr>" g a b t] assms
    by (simp add: omap_assign_wf omap_find_assign m_wndSize_def)
  then show ?thesis using Some iw assms(1,2) by (simp add: inc_def omap_find_assign)
qed

lemma inc_same:
  assumes "omap_wf (m_ipwnd m)" "0 < m_wndSizeSec m" "t0 \<le> t" "t \<le> t0 + m_wndSize m"
    and "if c = 0 then omap_find (m_ipwnd m) a = None
         else \<exists>w. omap_find (m_ipwnd m) a = Some w \<and> m_count w = c \<and> t0 \<le> m_tpStart w" "0 \<le> c"
    and "c + 1 \<le> m_wndSizeSec m * m_requestsPerSec m"
  shows "\<exists>w. omap_find (m_ipwnd (snd (inc t a m))) a = Some w \<and> m_count w = c + 1 \<and> t0 \<le> m_tpStart w"
proof -
  have pos: "0 < m_wndSize m" using assms(2) by (simp add: m_wndSize_def)
  show ?thesis
  proof (cases "c = 0")
    case True
    then have n: "omap_find (m_ipwnd m) a = None" using assms(5) by simp
    have "omap_find (m_ipwnd (removeItAndNeighbor a False t (m\<lparr>m_ipwnd := omap_emplace a (new_Window t) (m_ipwnd m)\<rparr>))) a =
      omap_find (omap_emplace a (new_Window t) (m_ipwnd m)) a"
      using remove_find [of "m\<lparr>m_ipwnd := omap_emplace a (new_Window t) (m_ipwnd m)\<rparr>" False a a t] assms(1) n pos
      by (simp add: omap_emplace_wf omap_find_emplace m_wndSize_def new_Window_def)
    then show ?thesis using n assms(1,3) True by (simp add: inc_def omap_find_emplace new_Window_def)
  next
    case False
    then obtain w where w: "omap_find (m_ipwnd m) a = Some w" "m_count w = c" "t0 \<le> m_tpStart w" using assms(5) by auto
    define w' where "w' = w\<lparr>m_count := c + 1\<rparr>"
    have iw: "inc_window m t w = (w', False)" using w assms(4,7) pos by (simp add: inc_window_def Let_def w'_def)
    have "omap_find (m_ipwnd (removeItAndNeighbor a False t (m\<lparr>m_ipwnd := omap_assign a w' (m_ipwnd m)\<rparr>))) a =
      omap_find (omap_assign a w' (m_ipwnd m)) a"
      using remove_find [of "m\<lparr>m_ipwnd := omap_assign a w' (m_ipwnd m)\<rparr>" False a a t] assms(1,4) w pos
      by (simp add: omap_assign_wf omap_find_assign m_wndSize_def w'_def)
    then show ?thesis using w iw assms(1) by (simp add: inc_def omap_find_assign w'_def)
  qed
qed

lemma burst_aux:
  assumes "omap_wf (m_ipwnd m)" "0 < m_wndSizeSec m" "\<forall>e\<in>set es. t0 \<le> fst e \<and> fst e \<le> t0 + m_wndSize m"
    and "if c = 0 then omap_find (m_ipwnd m) a = None
         else \<exists>w. omap_find (m_ipwnd m) a = Some w \<and> m_count w = c \<and> t0 \<le> m_tpStart w"
    and "0 \<le> c" "c \<le> m_wndSizeSec m * m_requestsPerSec m" "0 < m_requestsPerSec m"
    and "m_wndSizeSec m * m_requestsPerSec m < c + int (length (filter (\<lambda>e. snd e = a) es))"
  shows "\<exists>i<length es. snd (es ! i) = a \<and> inc_all es m ! i"
  using assms
proof (induction es arbitrary: m c)
  case (Cons e es)
  obtain t b where e: "e = (t, b)" by (cases e)
  obtain g m' where im: "inc t b m = (g, m')" by fastforce
  then have m': "m' = snd (inc t b m)" by simp
  have p: "m_wndSizeSec m' = m_wndSizeSec m" "m_requestsPerSec m' = m_requestsPerSec m" "omap_wf (m_ipwnd m')" "m_wndSize m' = m_wndSize m"
    using m' inc_wf Cons.prems(1) by (simp_all add: m_wndSize_def)
  have t: "t0 \<le> t" "t \<le> t0 + m_wndSize m" using Cons.prems(3) e by auto
  have pos: "0 < m_wndSize m" using Cons.prems(2) by (simp add: m_wndSize_def)
  have rec: "\<exists>i<length (e # es). snd ((e # es) ! i) = a \<and> inc_all (e # es) m ! i"
    if "\<exists>i<length es. snd (es ! i) = a \<and> inc_all es m' ! i"
    using that im e by (metis (mono_tags, lifting) Suc_less_eq case_prod_conv inc_all.simps(2) length_Cons nth_Cons_Suc)
  show ?case
  proof (cases "b = a")
    case False
    have "omap_find (m_ipwnd m') a = omap_find (m_ipwnd m) a"
      unfolding m' by (rule inc_other [OF Cons.prems(1) False]) (use Cons.prems(4) t pos in \<open>auto split: if_splits\<close>)
    then have "if c = 0 then omap_find (m_ipwnd m') a = None
         else \<exists>w. omap_find (m_ipwnd m') a = Some w \<and> m_count w = c \<and> t0 \<le> m_tpStart w" using Cons.prems(4) by simp
    from Cons.IH [OF p(3) _ _ this] Cons.prems p e False rec show ?thesis by simp
  next
    case True
    show ?thesis
    proof (cases "c + 1 \<le> m_wndSizeSec m * m_requestsPerSec m")
      case le: True
      from inc_same [OF Cons.prems(1,2) t Cons.prems(4,5) le] True
      have "if c + 1 = 0 then omap_find (m_ipwnd m') a = None
         else \<exists>w. omap_find (m_ipwnd m') a = Some w \<and> m_count w = c + 1 \<and> t0 \<le> m_tpStart w" using Cons.prems(5) m' by simp
      from Cons.IH [OF p(3) _ _ this] Cons.prems p e True rec le show ?thesis by simp
    next
      case gt: False
      moreover have "0 < m_wndSizeSec m * m_requestsPerSec m" using Cons.prems(2,7) by (rule mult_pos_pos)
      ultimately have c: "c = m_wndSizeSec m * m_requestsPerSec m" "c \<noteq> 0" using Cons.prems(6) by auto
      then obtain w where w: "omap_find (m_ipwnd m) a = Some w" "m_count w = c" "t0 \<le> m_tpStart w" using Cons.prems(4) by auto
      have "inc_window m t w = (w\<lparr>m_count := c + 1\<rparr>, True)" using w t pos gt by (simp add: inc_window_def Let_def)
      then have "g" using im True w(1) by (simp add: inc_def)
      then show ?thesis using im e True by (intro exI [of _ 0]) simp
    qed
  qed
qed simp

text \<open>
  Floods are stopped. If an address that the counter does not know sends more than
  \<open>requests_per_sec * window_size\<close> requests within one window, one of them is reported, whatever other requests lie
  in between.
\<close>

theorem burst_stopped:
  assumes "omap_wf (m_ipwnd m)" "0 < m_wndSizeSec m" "0 < m_requestsPerSec m" "omap_find (m_ipwnd m) a = None"
    and "\<forall>e\<in>set es. t0 \<le> fst e \<and> fst e \<le> t0 + m_wndSizeSec m * one_sec"
    and "m_wndSizeSec m * m_requestsPerSec m < int (length (filter (\<lambda>e. snd e = a) es))"
  shows "\<exists>i<length es. snd (es ! i) = a \<and> inc_all es m ! i"
  by (rule burst_aux [OF assms(1,2), where c = 0 and ?t0.0 = t0]) (use assms in \<open>simp_all add: m_wndSize_def\<close>)

theorem burst_stopped_witness:
  "\<exists>i<length [(0 :: time, 5), (1, 6), (2, 5)]. snd ([(0 :: time, 5), (1, 6), (2, 5)] ! i) = (5 :: u32) \<and>
     inc_all [(0, 5), (1, 6), (2, 5)] \<lparr>m_requestsPerSec = 1, m_wndSizeSec = 1, m_ipwnd = []\<rparr> ! i"
  using burst_stopped [of "\<lparr>m_requestsPerSec = 1, m_wndSizeSec = 1, m_ipwnd = []\<rparr>" 5 "[(0, 5), (1, 6), (2, 5)]" 0] by (simp del: inc_all.simps)

end
