(* ===== verification/Blacklist.thy ===== *)
theory Blacklist
  imports Radix_Update Ip_Window
begin

text \<open>
  The address filter of the HTTP server (\<^verbatim>\<open>BlackListImpl\<close> of \<^verbatim>\<open>blacklist.cpp\<close>): a table of rules, request
  counting per address, bans with a timeout. The interface to the table is the locale \<open>prefix_table\<close>.
\<close>

section \<open>Prefix tables\<close>

text \<open>What the filter relies on in its table, for the full-length keys of single addresses.\<close>

locale prefix_table =
  fixes ins :: "RtEntry \<times> bool \<Rightarrow> 't \<Rightarrow> ('t \<times> bool) option"
    and del :: "RtEntry \<Rightarrow> 't \<Rightarrow> ('t \<times> bool) option"
    and look :: "RtEntry \<Rightarrow> 't \<Rightarrow> (RtEntry \<times> bool) option option"
    and tab :: "'t \<Rightarrow> bool list \<rightharpoonup> bool"
    and wf :: "'t \<Rightarrow> bool"
  assumes ins_host: "wf t \<Longrightarrow> m_prefixLen k = 32 \<Longrightarrow> \<exists>t' b. ins (k, v) t = Some (t', b) \<and> wf t' \<and>
      tab t' = (if tab t (abits k) = None then (tab t)(abits k \<mapsto> v) else tab t)"
    and del_host: "wf t \<Longrightarrow> m_prefixLen k = 32 \<Longrightarrow> \<exists>t' b. del k t = Some (t', b) \<and> wf t' \<and> tab t' = (tab t)(abits k := None)"
    and look_host: "wf t \<Longrightarrow> m_prefixLen k = 32 \<Longrightarrow>
      \<exists>res. look k t = Some res \<and> map_option snd res = best (tab t) (abits k) 32"
begin

lemma best_host: "length a = 32 \<Longrightarrow> m a = Some v \<Longrightarrow> best m a 32 = Some v"
  by (rule best_some [of _ 32]) auto

lemma best_other:
  assumes "length a = 32" "length b = 32" "a \<noteq> b"
  shows "best (m(b := x)) a 32 = best m a 32"
proof -
  have "(m(b := x)) (take i a) = m (take i a)" if "i \<le> 32" for i
    using assms that by (cases "i = 32") auto
  then have "best (m(b := x)) a n = best m a n" if "n \<le> 32" for n
    using that
  proof (induction n)
    case (Suc n)
    then show ?case by (metis Suc_leD best.simps(2))
  qed (use assms in auto)
  then show ?thesis by simp
qed

lemma ban_lookup:
  assumes "wf t" "m_prefixLen k = 32" "tab t (abits k) = None" "ins (k, v) t = Some (t', b)"
  shows "wf t'" "\<exists>e. look k t' = Some (Some e) \<and> snd e = v" "tab t' = (tab t)(abits k \<mapsto> v)"
proof -
  obtain t2 b2 where "ins (k, v) t = Some (t2, b2)" "wf t2" "tab t2 = (tab t)(abits k \<mapsto> v)"
    using ins_host [OF assms(1,2), of v] assms(3) by auto
  then show w: "wf t'" and t: "tab t' = (tab t)(abits k \<mapsto> v)" using assms(4) by auto
  from look_host [OF w assms(2)] best_host [of "abits k" "tab t'" v] t
  show "\<exists>e. look k t' = Some (Some e) \<and> snd e = v" by (auto simp: map_option_case split: option.splits)
qed

lemma unban_restores:
  assumes "wf t" "m_prefixLen k = 32" "tab t = m(abits k \<mapsto> v)" "m (abits k) = None" "del k t = Some (t', b)"
  shows "wf t'" "tab t' = m"
  using del_host [OF assms(1,2)] assms(3-5) by force+

lemma look_other:
  assumes "wf t" "m_prefixLen k = 32" "m_prefixLen k' = 32" "abits k \<noteq> abits k'" "tab t = m(abits k' := x)"
  shows "\<exists>res. look k t = Some res \<and> map_option snd res = best m (abits k) 32"
  using look_host [OF assms(1,2)] best_other [of "abits k" "abits k'"] assms(4,5) by simp

end

lemma ebits_host: "m_prefixLen k = 32 \<Longrightarrow> ebits k = abits k"
  by (simp add: ebits_def)

lemma no_clash_host: "m_prefixLen k = 32 \<Longrightarrow> twf t \<Longrightarrow> \<not> clash k es"
  by (auto simp: clash_def Let_def dest: prefix_length_le)

interpretation rt: prefix_table insert_val erase longest_match tbl twf
proof
  fix t k v assume t: "twf t" and k: "m_prefixLen k = 32"
  have "key_ok k" using k by (simp add: key_ok_def)
  then obtain t' b where "insert_val (k, v) t = Some (t', b)" using insert_defined [OF t _ no_clash_host [OF k t]] by blast
  with insert_some_tbl [OF t \<open>key_ok k\<close>] k
  show "\<exists>t' b. insert_val (k, v) t = Some (t', b) \<and> twf t' \<and>
      tbl t' = (if tbl t (abits k) = None then (tbl t)(abits k \<mapsto> v) else tbl t)"
    by (force simp: ebits_host)
  from erase_tbl [OF t k] show "\<exists>t' b. erase k t = Some (t', b) \<and> twf t' \<and> tbl t' = (tbl t)(abits k := None)"
    using k by (auto simp: ebits_host)
  show "\<exists>res. longest_match k t = Some res \<and> map_option snd res = best (tbl t) (abits k) 32"
    by (rule longest_match_best [OF t k])
qed

section \<open>The filter (BlackListImpl)\<close>

text \<open>
  The warnings that do not end the reading of the rules, with their line. An error ends it with
  an exception, and the program with it, after the log has printed the message.
\<close>

datatype warning = Superseded nat | AllSuperseded nat

record BlackListImpl =
  m_table :: radix_tree
  m_defaultAllow :: bool
  m_warns :: "warning list"
  banEnabled :: bool
  m_ipmap :: IpMap
  m_banTimeout :: time
  m_bannedIPs :: "(time \<times> u32) list"

text \<open>A call returns, throws, or behaves in an undefined way.\<close>

datatype 'a bl_result = Done 'a | Throws string | Undef

fun bl_bind :: "'a bl_result \<Rightarrow> ('a \<Rightarrow> 'b bl_result) \<Rightarrow> 'b bl_result" where
  "bl_bind (Done x) f = f x"
| "bl_bind (Throws e) f = Throws e"
| "bl_bind Undef f = Undef"

definition defined :: "'a option \<Rightarrow> 'a bl_result" where
  "defined x = (case x of None \<Rightarrow> Undef | Some y \<Rightarrow> Done y)"

definition new_BlackList :: "int \<Rightarrow> int \<Rightarrow> int \<Rightarrow> BlackListImpl" where
  "new_BlackList requests_per_sec window_size_sec ban_ip_sec =
     \<lparr>m_table = new_tree, m_defaultAllow = True, m_warns = [], banEnabled = (requests_per_sec \<noteq> 0),
      m_ipmap = \<lparr>m_requestsPerSec = requests_per_sec, m_wndSizeSec = window_size_sec, m_ipwnd = []\<rparr>,
      m_banTimeout = ban_ip_sec * one_sec, m_bannedIPs = []\<rparr>"

text \<open>\<^verbatim>\<open>ntohl\<close> on a little-endian machine.\<close>

definition ntohl :: "u32 \<Rightarrow> u32" where
  "ntohl a = push_bit 24 (a AND 0xFF) OR push_bit 8 (a AND 0xFF00) OR drop_bit 8 (a AND 0xFF0000) OR drop_bit 24 a"

definition addEntry :: "u32 \<Rightarrow> bool \<Rightarrow> bool \<Rightarrow> int \<Rightarrow> BlackListImpl \<Rightarrow> BlackListImpl bl_result" where
  "addEntry addr networkOrder allow len s =
     (let addr = (if networkOrder then ntohl addr else addr) in
      bl_bind (defined (insert_val (RtEntry addr len, allow) (m_table s))) (\<lambda>(t, _). Done (s\<lparr>m_table := t\<rparr>)))"

definition removeEntry :: "u32 \<Rightarrow> bool \<Rightarrow> BlackListImpl \<Rightarrow> BlackListImpl bl_result" where
  "removeEntry addr networkOrder s =
     (let addr = (if networkOrder then ntohl addr else addr) in
      bl_bind (defined (erase (RtEntry addr 32) (m_table s))) (\<lambda>(t, _). Done (s\<lparr>m_table := t\<rparr>)))"

definition find_addr :: "u32 \<Rightarrow> bool \<Rightarrow> BlackListImpl \<Rightarrow> (bool \<times> bool) bl_result" where
  "find_addr addr networkOrder s =
     (let addr = (if networkOrder then ntohl addr else addr) in
      bl_bind (defined (longest_match (RtEntry addr 32) (m_table s)))
        (\<lambda>it. Done (case it of None \<Rightarrow> (False, m_defaultAllow s) | Some e \<Rightarrow> (True, snd e))))"

fun unban_loop :: "time \<Rightarrow> (time \<times> u32) list \<Rightarrow> BlackListImpl \<Rightarrow> BlackListImpl bl_result" where
  "unban_loop now [] s = Done (s\<lparr>m_bannedIPs := []\<rparr>)"
| "unban_loop now ((t, addr) # items) s =
     (if now < t then Done (s\<lparr>m_bannedIPs := (t, addr) # items\<rparr>)
      else bl_bind (removeEntry addr False s) (\<lambda>s. unban_loop now items s))"

definition unban :: "time \<Rightarrow> BlackListImpl \<Rightarrow> BlackListImpl bl_result" where
  "unban now s = unban_loop now (m_bannedIPs s) s"

definition ban :: "time \<Rightarrow> u32 \<Rightarrow> BlackListImpl \<Rightarrow> BlackListImpl bl_result" where
  "ban now addr s =
     bl_bind (addEntry addr False False 32 s) (\<lambda>s.
       Done (if m_banTimeout s = 0 then s else s\<lparr>m_bannedIPs := m_bannedIPs s @ [(now + m_banTimeout s, addr)]\<rparr>))"

text \<open>\<^verbatim>\<open>processIp\<close>; \<open>t1\<close>, \<open>t2\<close>, \<open>t3\<close> are the clock readings of \<^verbatim>\<open>unban\<close>, \<^verbatim>\<open>inc\<close> and \<^verbatim>\<open>ban\<close>.\<close>

definition processIp :: "time \<Rightarrow> time \<Rightarrow> time \<Rightarrow> u32 \<Rightarrow> bool \<Rightarrow> BlackListImpl \<Rightarrow> (bool \<times> BlackListImpl) bl_result" where
  "processIp t1 t2 t3 addr networkOrder s =
     bl_bind (if banEnabled s \<and> m_banTimeout s \<noteq> 0 then unban t1 s else Done s) (\<lambda>s.
       let addr = (if networkOrder then ntohl addr else addr) in
       bl_bind (find_addr addr False s) (\<lambda>(_, allow).
         if \<not> allow then Done (False, s)
         else if \<not> banEnabled s then Done (True, s)
         else
           (case inc t2 addr (m_ipmap s) of
              (triggered, m) \<Rightarrow>
                let s = s\<lparr>m_ipmap := m\<rparr> in
                if triggered then bl_bind (ban t3 addr s) (\<lambda>s. Done (False, s)) else Done (True, s))))"

section \<open>The operations on a well-formed table\<close>

definition host_bits :: "u32 \<Rightarrow> bool list" where
  "host_bits a = abits (RtEntry a 32)"

lemma host_inj: "host_bits a = host_bits b \<longleftrightarrow> a = b"
  using abits_inj [of "RtEntry a 32" "RtEntry b 32"] by (auto simp: host_bits_def)

lemma length_host [simp]: "length (host_bits a) = 32"
  by (simp add: host_bits_def)

definition decide :: "(bool list \<rightharpoonup> bool) \<Rightarrow> bool \<Rightarrow> u32 \<Rightarrow> bool \<times> bool" where
  "decide m dflt a = (case best m (host_bits a) 32 of None \<Rightarrow> (False, dflt) | Some v \<Rightarrow> (True, v))"

lemma find_addr_ok: "twf (m_table s) \<Longrightarrow> find_addr a False s = Done (decide (tbl (m_table s)) (m_defaultAllow s) a)"
proof -
  assume "twf (m_table s)"
  then obtain res where "longest_match (RtEntry a 32) (m_table s) = Some res" "best (tbl (m_table s)) (host_bits a) 32 = map_option snd res"
    using rt.look_host [of "m_table s" "RtEntry a 32"] by (auto simp: host_bits_def)
  then show ?thesis by (cases res) (auto simp: find_addr_def defined_def decide_def)
qed

lemma removeEntry_ok:
  assumes "twf (m_table s)"
  obtains t where "removeEntry a False s = Done (s\<lparr>m_table := t\<rparr>)" "twf t" "tbl t = (tbl (m_table s))(host_bits a := None)"
  using rt.del_host [OF assms, of "RtEntry a 32"] by (auto simp: removeEntry_def defined_def host_bits_def)

lemma addEntry_ok:
  assumes "twf (m_table s)"
  obtains t where "addEntry a False v 32 s = Done (s\<lparr>m_table := t\<rparr>)" "twf t"
    "tbl t = (if tbl (m_table s) (host_bits a) = None then (tbl (m_table s))(host_bits a \<mapsto> v) else tbl (m_table s))"
proof -
  obtain t b where "insert_val (RtEntry a 32, v) (m_table s) = Some (t, b)" "twf t"
    "tbl t = (if tbl (m_table s) (abits (RtEntry a 32)) = None then (tbl (m_table s))(abits (RtEntry a 32) \<mapsto> v) else tbl (m_table s))"
    using rt.ins_host [OF assms, of "RtEntry a 32" v] by auto
  then show thesis using that by (simp add: addEntry_def defined_def host_bits_def)
qed

lemma unban_loop_ok:
  assumes "twf (m_table s)"
  shows "\<exists>t. unban_loop now items s =
      Done (s\<lparr>m_table := t, m_bannedIPs := dropWhile (\<lambda>x. fst x \<le> now) items\<rparr>) \<and> twf t \<and>
      tbl t = (\<lambda>x. if x \<in> host_bits ` snd ` set (takeWhile (\<lambda>x. fst x \<le> now) items) then None else tbl (m_table s) x)"
  using assms
proof (induction items arbitrary: s)
  case Nil
  then show ?case by (intro exI [of _ "m_table s"]) simp
next
  case (Cons it items)
  obtain T a where it: "it = (T, a)" by (cases it)
  show ?case
  proof (cases "now < T")
    case True
    then show ?thesis using Cons.prems it by (intro exI [of _ "m_table s"]) simp
  next
    case False
    from removeEntry_ok [OF Cons.prems, of a] obtain t1
      where t1: "removeEntry a False s = Done (s\<lparr>m_table := t1\<rparr>)" "twf t1" "tbl t1 = (tbl (m_table s))(host_bits a := None)" .
    have "\<exists>t. unban_loop now items (s\<lparr>m_table := t1\<rparr>) =
          Done (s\<lparr>m_table := t, m_bannedIPs := dropWhile (\<lambda>x. fst x \<le> now) items\<rparr>) \<and> twf t \<and>
        tbl t = (\<lambda>x. if x \<in> host_bits ` snd ` set (takeWhile (\<lambda>x. fst x \<le> now) items) then None else tbl t1 x)"
      using Cons.IH [of "s\<lparr>m_table := t1\<rparr>"] t1(2) by (simp cong: if_cong)
    then obtain t where t: "unban_loop now items (s\<lparr>m_table := t1\<rparr>) =
          Done (s\<lparr>m_table := t, m_bannedIPs := dropWhile (\<lambda>x. fst x \<le> now) items\<rparr>)" "twf t"
        "tbl t = (\<lambda>x. if x \<in> host_bits ` snd ` set (takeWhile (\<lambda>x. fst x \<le> now) items) then None else tbl t1 x)" by blast
    have "tbl t = (\<lambda>x. if x \<in> host_bits ` snd ` set (takeWhile (\<lambda>x. fst x \<le> now) (it # items)) then None else tbl (m_table s) x)"
      using t(3) t1(3) False it by (auto simp: fun_eq_iff)
    then show ?thesis using t t1 False it by (intro exI [of _ t]) simp
  qed
qed

section \<open>Runs of the filter\<close>

text \<open>
  A running filter: calls of \<^verbatim>\<open>processIp\<close> for any address, with the readings of the steady clock in order.
\<close>

inductive bl_run :: "BlackListImpl \<Rightarrow> time \<Rightarrow> BlackListImpl \<Rightarrow> time \<Rightarrow> bool" for s0 t0 where
  start: "bl_run s0 t0 s0 t0"
| call: "bl_run s0 t0 s now \<Longrightarrow> now \<le> t1 \<Longrightarrow> t1 \<le> t2 \<Longrightarrow> t2 \<le> t3 \<Longrightarrow>
    processIp t1 t2 t3 addr networkOrder s = Done (ok, s') \<Longrightarrow> bl_run s0 t0 s' t3"

lemma bl_run_trans: "bl_run s1 t1 s2 t2 \<Longrightarrow> bl_run s0 t0 s1 t1 \<Longrightarrow> bl_run s0 t0 s2 t2"
  by (induction rule: bl_run.induct) (auto intro: bl_run.call)

text \<open>A filter after its rules are loaded, with bans that end.\<close>

definition bl_loaded :: "BlackListImpl \<Rightarrow> bool" where
  "bl_loaded s \<longleftrightarrow> twf (m_table s) \<and> m_bannedIPs s = [] \<and> banEnabled s \<and> 0 < m_banTimeout s"

definition banned :: "u32 \<Rightarrow> time \<Rightarrow> BlackListImpl \<Rightarrow> bool" where
  "banned a t s \<longleftrightarrow> (\<exists>x\<in>set (m_bannedIPs s). snd x = a \<and> t < fst x)"

text \<open>The decision of the loaded rules alone.\<close>

definition rules_allow :: "BlackListImpl \<Rightarrow> u32 \<Rightarrow> bool" where
  "rules_allow s a \<longleftrightarrow> snd (decide (tbl (m_table s)) (m_defaultAllow s) a)"

definition binv :: "BlackListImpl \<Rightarrow> time \<Rightarrow> BlackListImpl \<Rightarrow> bool" where
  "binv s0 now s \<longleftrightarrow> twf (m_table s) \<and> banEnabled s \<and> m_banTimeout s = m_banTimeout s0 \<and> m_defaultAllow s = m_defaultAllow s0 \<and>
     sorted (map fst (m_bannedIPs s)) \<and> (\<forall>x\<in>set (m_bannedIPs s). fst x \<le> now + m_banTimeout s0) \<and>
     (\<forall>x. length x \<noteq> 32 \<longrightarrow> tbl (m_table s) x = tbl (m_table s0) x) \<and>
     (\<forall>a. tbl (m_table s0) (host_bits a) = None \<longrightarrow> length (filter (\<lambda>x. snd x = a) (m_bannedIPs s)) \<le> 1 \<and>
        tbl (m_table s) (host_bits a) = (if a \<in> snd ` set (m_bannedIPs s) then Some False else None))"

lemma binv_start: "bl_loaded s0 \<Longrightarrow> binv s0 t0 s0"
  by (auto simp: binv_def bl_loaded_def)

lemma sorted_dropWhile_filter:
  "sorted (map fst xs) \<Longrightarrow> dropWhile (\<lambda>x. fst x \<le> now) xs = filter (\<lambda>x. now < fst x) xs" for now :: int
proof (induction xs)
  case (Cons x xs)
  show ?case
  proof (cases "fst x \<le> now")
    case False
    with Cons.prems have "\<forall>y\<in>set xs. now < fst y" by auto
    with False show ?thesis by (simp add: filter_id_conv)
  qed (use Cons in simp)
qed simp

lemma sorted_takeWhile_filter:
  "sorted (map fst xs) \<Longrightarrow> takeWhile (\<lambda>x. fst x \<le> now) xs = filter (\<lambda>x. fst x \<le> now) xs" for now :: int
proof (induction xs)
  case (Cons x xs)
  show ?case
  proof (cases "fst x \<le> now")
    case False
    with Cons.prems have "\<forall>y\<in>set xs. \<not> fst y \<le> now" by auto
    with False show ?thesis by (simp add: filter_empty_conv)
  qed (use Cons in simp)
qed simp

lemma length_filter_filter: "length (filter P (filter Q xs)) \<le> length (filter P xs)"
  by (induction xs) auto

lemma at_most_one:
  assumes "length (filter (\<lambda>x. snd x = a) xs) \<le> 1" "x \<in> set xs" "y \<in> set xs" "snd x = a" "snd y = a"
  shows "x = y"
proof -
  have "x \<in> set (filter (\<lambda>x. snd x = a) xs)" "y \<in> set (filter (\<lambda>x. snd x = a) xs)" using assms by auto
  then show ?thesis using assms(1) by (cases "filter (\<lambda>x. snd x = a) xs") auto
qed

text \<open>The first part of a call: expired bans are lifted.\<close>

lemma unban_inv:
  assumes "binv s0 now s" "now \<le> t1"
  obtains s1 where "unban t1 s = Done s1" "binv s0 t1 s1" "m_bannedIPs s1 = filter (\<lambda>x. t1 < fst x) (m_bannedIPs s)"
    "m_ipmap s1 = m_ipmap s"
proof -
  note i = assms(1) [unfolded binv_def]
  have srt: "sorted (map fst (m_bannedIPs s))" using i by blast
  note fl = sorted_dropWhile_filter [OF srt, of t1] sorted_takeWhile_filter [OF srt, of t1]
  from unban_loop_ok [of s t1 "m_bannedIPs s"] i obtain t where
    t: "unban_loop t1 (m_bannedIPs s) s = Done (s\<lparr>m_table := t, m_bannedIPs := filter (\<lambda>x. t1 < fst x) (m_bannedIPs s)\<rparr>)" "twf t"
      "tbl t = (\<lambda>x. if x \<in> host_bits ` snd ` set (filter (\<lambda>x. fst x \<le> t1) (m_bannedIPs s)) then None else tbl (m_table s) x)"
    unfolding fl by blast
  let ?s1 = "s\<lparr>m_table := t, m_bannedIPs := filter (\<lambda>x. t1 < fst x) (m_bannedIPs s)\<rparr>"
  have "sorted (map fst (filter (\<lambda>x. t1 < fst x) (m_bannedIPs s)))" using srt by (rule sorted_filter)
  moreover have "\<forall>x\<in>set (m_bannedIPs s). fst x \<le> t1 + m_banTimeout s0" using i assms(2) by fastforce
  moreover have "tbl t x = tbl (m_table s0) x" if "length x \<noteq> 32" for x
    using that i unfolding t(3) by auto
  moreover have "length (filter (\<lambda>x. snd x = a) (m_bannedIPs ?s1)) \<le> 1 \<and>
      tbl t (host_bits a) = (if a \<in> snd ` set (m_bannedIPs ?s1) then Some False else None)"
    if a: "tbl (m_table s0) (host_bits a) = None" for a
  proof
    have one: "length (filter (\<lambda>x. snd x = a) (m_bannedIPs s)) \<le> 1"
      and tb: "tbl (m_table s) (host_bits a) = (if a \<in> snd ` set (m_bannedIPs s) then Some False else None)" using i a by blast+
    show "length (filter (\<lambda>x. snd x = a) (m_bannedIPs ?s1)) \<le> 1"
      using one length_filter_filter [of "\<lambda>x. snd x = a" "\<lambda>x. t1 < fst x" "m_bannedIPs s"] by simp
    show "tbl t (host_bits a) = (if a \<in> snd ` set (m_bannedIPs ?s1) then Some False else None)"
    proof (cases "a \<in> snd ` set (m_bannedIPs s)")
      case True
      then obtain x where x: "x \<in> set (m_bannedIPs s)" "snd x = a" by blast
      have u: "y = x" if "y \<in> set (m_bannedIPs s)" "snd y = a" for y using at_most_one [OF one that(1) x(1) that(2) x(2)] .
      have "host_bits a \<in> host_bits ` snd ` set (filter (\<lambda>x. fst x \<le> t1) (m_bannedIPs s)) \<longleftrightarrow> fst x \<le> t1"
        using u x by (force simp: host_inj)
      moreover have "a \<in> snd ` set (filter (\<lambda>x. t1 < fst x) (m_bannedIPs s)) \<longleftrightarrow> t1 < fst x"
        using u x by force
      ultimately show ?thesis unfolding t(3) tb using True by simp
    next
      case False
      then show ?thesis unfolding t(3) tb by auto
    qed
  qed
  ultimately have "binv s0 t1 ?s1" using i t(2) by (simp add: binv_def)
  then show thesis using that [of ?s1] t(1) by (simp add: unban_def)
qed

lemma best_cong: "(\<And>i. i \<le> n \<Longrightarrow> m (take i a) = m' (take i a)) \<Longrightarrow> best m a n = best m' a n"
proof (induction n)
  case (Suc n)
  have "best m a n = best m' a n" by (rule Suc.IH) (use Suc.prems in simp)
  moreover have "m (take (Suc n) a) = m' (take (Suc n) a)" by (rule Suc.prems) simp
  ultimately show ?case by (simp split: option.split)
qed simp

lemma decide_inv:
  assumes "binv s0 now s" "tbl (m_table s0) (host_bits a) = None"
  shows "snd (decide (tbl (m_table s)) (m_defaultAllow s) a) \<longleftrightarrow> a \<notin> snd ` set (m_bannedIPs s) \<and> rules_allow s0 a"
proof -
  note i = assms(1) [unfolded binv_def]
  have tb: "tbl (m_table s) (host_bits a) = (if a \<in> snd ` set (m_bannedIPs s) then Some False else None)" using i assms(2) by blast
  show ?thesis
  proof (cases "a \<in> snd ` set (m_bannedIPs s)")
    case True
    then have "best (tbl (m_table s)) (host_bits a) 32 = Some False" using rt.best_host [of "host_bits a"] tb by simp
    with True show ?thesis by (simp add: decide_def)
  next
    case False
    have "best (tbl (m_table s)) (host_bits a) 32 = best (tbl (m_table s0)) (host_bits a) 32"
    proof (rule best_cong)
      fix n assume "n \<le> (32 :: nat)"
      then show "tbl (m_table s) (take n (host_bits a)) = tbl (m_table s0) (take n (host_bits a))"
        using i tb False assms(2) by (cases "n = 32") auto
    qed
    with False i show ?thesis by (simp add: rules_allow_def decide_def)
  qed
qed

lemma ban_inv:
  assumes "binv s0 t1 s" "t1 \<le> t3" "0 < m_banTimeout s0" "snd (decide (tbl (m_table s)) (m_defaultAllow s) a)"
  obtains s' where "ban t3 a s = Done s'" "binv s0 t3 s'" "m_bannedIPs s' = m_bannedIPs s @ [(t3 + m_banTimeout s0, a)]"
proof -
  note i = assms(1) [unfolded binv_def]
  from addEntry_ok [of s a False] i obtain t where
    t: "addEntry a False False 32 s = Done (s\<lparr>m_table := t\<rparr>)" "twf t"
      "tbl t = (if tbl (m_table s) (host_bits a) = None then (tbl (m_table s))(host_bits a \<mapsto> False) else tbl (m_table s))" by blast
  let ?s' = "s\<lparr>m_table := t, m_bannedIPs := m_bannedIPs s @ [(t3 + m_banTimeout s0, a)]\<rparr>"
  have "sorted (map fst (m_bannedIPs ?s'))" using i assms(2) by (fastforce simp: sorted_append)
  moreover have "\<forall>x\<in>set (m_bannedIPs ?s'). fst x \<le> t3 + m_banTimeout s0" using i assms(2) by fastforce
  moreover have "\<forall>x. length x \<noteq> 32 \<longrightarrow> tbl t x = tbl (m_table s0) x" using i t(3) by auto
  moreover have "length (filter (\<lambda>x. snd x = b) (m_bannedIPs ?s')) \<le> 1 \<and>
      tbl t (host_bits b) = (if b \<in> snd ` set (m_bannedIPs ?s') then Some False else None)"
    if b: "tbl (m_table s0) (host_bits b) = None" for b
  proof (cases "b = a")
    case True
    then have "a \<notin> snd ` set (m_bannedIPs s)" using decide_inv [OF assms(1)] b assms(4) by simp
    moreover from this have "filter (\<lambda>x. snd x = a) (m_bannedIPs s) = []" by (auto simp: filter_empty_conv)
    ultimately show ?thesis using True i b t(3) by auto
  next
    case False
    then show ?thesis using i b t(3) by (auto simp: host_inj)
  qed
  ultimately have "binv s0 t3 ?s'" using i t(2) by (simp add: binv_def)
  moreover have "ban t3 a s = Done ?s'" using t(1) i assms(3) by (simp add: ban_def)
  ultimately show thesis using that by simp
qed

lemma process_ok:
  assumes "binv s0 now s" "now \<le> t1" "t1 \<le> t2" "t2 \<le> t3" "0 < m_banTimeout s0" "a = (if n then ntohl addr else addr)"
  obtains s1 s' ok tr where "binv s0 t1 s1" "m_bannedIPs s1 = filter (\<lambda>x. t1 < fst x) (m_bannedIPs s)"
    "tr = fst (inc t2 a (m_ipmap s))" "ok = snd (decide (tbl (m_table s1)) (m_defaultAllow s1) a)"
    "processIp t1 t2 t3 addr n s = Done (ok \<and> \<not> tr, s')" "binv s0 t3 s'"
    "m_bannedIPs s' = m_bannedIPs s1 @ (if ok \<and> tr then [(t3 + m_banTimeout s0, a)] else [])"
proof -
  from unban_inv [OF assms(1,2)] obtain s1 where
    s1: "unban t1 s = Done s1" "binv s0 t1 s1" "m_bannedIPs s1 = filter (\<lambda>x. t1 < fst x) (m_bannedIPs s)" "m_ipmap s1 = m_ipmap s" .
  note i = s1(2) [unfolded binv_def]
  have s: "banEnabled s" "m_banTimeout s \<noteq> 0" using assms(1,5) by (auto simp: binv_def)
  obtain tr m where im: "inc t2 a (m_ipmap s) = (tr, m)" by fastforce
  define ok where "ok = snd (decide (tbl (m_table s1)) (m_defaultAllow s1) a)"
  have f: "find_addr a False s1 = Done (decide (tbl (m_table s1)) (m_defaultAllow s1) a)" using find_addr_ok i by blast
  have later: "binv s0 t3 s1'" if "binv s0 t1 s1'" for s1'
  proof -
    have "t1 \<le> t3" using assms(3,4) by simp
    then show ?thesis using that unfolding binv_def by fastforce
  qed
  have p: "processIp t1 t2 t3 addr n s =
    (if \<not> ok then Done (False, s1)
     else if tr then bl_bind (ban t3 a (s1\<lparr>m_ipmap := m\<rparr>)) (\<lambda>s. Done (False, s)) else Done (True, s1\<lparr>m_ipmap := m\<rparr>))"
    using s s1(1,4) im f i assms(6) by (auto simp: processIp_def ok_def Let_def split: prod.splits)
  have im1: "binv s0 t1 (s1\<lparr>m_ipmap := m\<rparr>)" using s1(2) by (simp add: binv_def)
  consider "\<not> ok" | "ok" "\<not> tr" | "ok" "tr" by blast
  then show thesis
  proof cases
    case 3
    have "snd (decide (tbl (m_table (s1\<lparr>m_ipmap := m\<rparr>))) (m_defaultAllow (s1\<lparr>m_ipmap := m\<rparr>)) a)" using 3 by (simp add: ok_def)
    from ban_inv [OF im1 _ assms(5) this, of t3] assms(3,4) obtain s' where
      "ban t3 a (s1\<lparr>m_ipmap := m\<rparr>) = Done s'" "binv s0 t3 s'" "m_bannedIPs s' = m_bannedIPs s1 @ [(t3 + m_banTimeout s0, a)]" by auto
    then show thesis using that [OF s1(2,3) _ ok_def, of tr s'] 3 p im by simp
  qed (use that [OF s1(2,3) _ ok_def, of tr] p im later [OF s1(2)] later [OF im1] in auto)
qed

lemma bl_run_inv:
  assumes "bl_run s0 t0 s now" "bl_loaded s0"
  shows "binv s0 now s"
  using assms(1)
proof induction
  case start
  show ?case by (rule binv_start [OF assms(2)])
next
  case (call s now t1 t2 t3 addr networkOrder ok s')
  have "0 < m_banTimeout s0" using assms(2) by (simp add: bl_loaded_def)
  from process_ok [OF call.IH call.hyps(2-4) this refl, of networkOrder addr] call.hyps(5) show ?case by auto
qed

section \<open>Properties\<close>

text \<open>
  C19. What the filter decides. In every state of a running filter, for an address without a rule of its own,
  the call returns, and the address is admitted exactly when its ban, if any, has ended, the rule with
  the longest matching prefix (or the default) allows it, and it is not over its request
  limit now. It is then banned exactly in the last case, for the ban time from now, and bans that have
  ended are forgotten.
\<close>

theorem filter_decision:
  assumes "bl_loaded s0" "bl_run s0 t0 s now" "now \<le> t1" "t1 \<le> t2" "t2 \<le> t3"
    and "a = (if n then ntohl addr else addr)" "tbl (m_table s0) (host_bits a) = None"
    and "over = fst (inc t2 a (m_ipmap s))" "pass = (\<not> banned a t1 s \<and> rules_allow s0 a)"
  shows "\<exists>s'. processIp t1 t2 t3 addr n s = Done (pass \<and> \<not> over, s') \<and>
    m_bannedIPs s' = filter (\<lambda>x. t1 < fst x) (m_bannedIPs s) @ (if pass \<and> over then [(t3 + m_banTimeout s0, a)] else [])"
proof -
  have "0 < m_banTimeout s0" using assms(1) by (simp add: bl_loaded_def)
  from process_ok [OF bl_run_inv [OF assms(2,1)] assms(3-5) this assms(6)] obtain s1 s' ok tr where
    p: "binv s0 t1 s1" "m_bannedIPs s1 = filter (\<lambda>x. t1 < fst x) (m_bannedIPs s)" "tr = fst (inc t2 a (m_ipmap s))"
      "ok = snd (decide (tbl (m_table s1)) (m_defaultAllow s1) a)" "processIp t1 t2 t3 addr n s = Done (ok \<and> \<not> tr, s')"
      "m_bannedIPs s' = m_bannedIPs s1 @ (if ok \<and> tr then [(t3 + m_banTimeout s0, a)] else [])" .
  have "ok = pass" using decide_inv [OF p(1) assms(7)] p(2,4) assms(9) by (auto simp: banned_def)
  with p assms(8) show ?thesis by auto
qed

lemma new_BlackList_loaded: "r \<noteq> 0 \<Longrightarrow> 0 < b \<Longrightarrow> bl_loaded (new_BlackList r w b)"
  by (simp add: bl_loaded_def new_BlackList_def twf_new)

lemma new_BlackList_table [simp]: "m_table (new_BlackList r w b) = new_tree"
  by (simp add: new_BlackList_def)

theorem filter_decision_witness:
  "\<exists>s'. processIp 0 0 0 5 False (new_BlackList 3 1 3) = Done (True, s') \<and> m_bannedIPs s' = []"
proof -
  let ?s = "new_BlackList 3 1 3"
  have "\<not> banned 5 0 ?s" "m_bannedIPs ?s = []" "rules_allow ?s 5" "\<not> fst (inc 0 5 (m_ipmap ?s))"
    by (simp_all add: banned_def new_BlackList_def rules_allow_def decide_def best_none [THEN iffD2] twf_new inc_def)
  then show ?thesis
    using filter_decision [OF new_BlackList_loaded bl_run.start, of 3 3 0 0 0 0 5 False 5 1 _ True] by (simp add: twf_new)
qed

text \<open>
  A ban lasts. Once an address without a rule of its own is banned until \<open>T\<close>, every later call for it before
  \<open>T\<close> refuses it, whatever calls for other addresses come in between.
\<close>

theorem ban_lasts:
  assumes "bl_loaded s0" "bl_run s0 t0 s1 n1" "(T, a) \<in> set (m_bannedIPs s1)" "tbl (m_table s0) (host_bits a) = None"
    and "bl_run s1 n1 s2 n2" "n2 \<le> t1" "t1 \<le> t2" "t2 \<le> t3" "t1 < T" "a = (if n then ntohl addr else addr)"
  shows "\<exists>s'. processIp t1 t2 t3 addr n s2 = Done (False, s')"
proof -
  have pos: "0 < m_banTimeout s0" using assms(1) by (simp add: bl_loaded_def)
  have mono: "n2 \<le> t1 \<Longrightarrow> (T, a) \<in> set (m_bannedIPs s2)" using assms(5,9)
  proof (induction arbitrary: t1)
    case start
    show ?case by (rule assms(3))
  next
    case (call s now u1 u2 u3 b m ok s')
    have run: "bl_run s0 t0 s now" by (rule bl_run_trans [OF call.hyps(1) assms(2)])
    have lt: "u1 < T" using call.hyps(3,4) call.prems by simp
    then have "(T, a) \<in> set (m_bannedIPs s)" using call.IH [of u1] call.hyps(2) by simp
    moreover from process_ok [OF bl_run_inv [OF run assms(1)] call.hyps(2-4) pos refl, of m b]
    obtain r where "m_bannedIPs s' = filter (\<lambda>x. u1 < fst x) (m_bannedIPs s) @ r" using call.hyps(5) by fastforce
    ultimately show ?case using lt by auto
  qed
  have run: "bl_run s0 t0 s2 n2" by (rule bl_run_trans [OF assms(5,2)])
  from process_ok [OF bl_run_inv [OF run assms(1)] assms(6-8) pos assms(10)] obtain u s' ok tr where
    p: "binv s0 t1 u" "m_bannedIPs u = filter (\<lambda>x. t1 < fst x) (m_bannedIPs s2)"
      "ok = snd (decide (tbl (m_table u)) (m_defaultAllow u) a)" "processIp t1 t2 t3 addr n s2 = Done (ok \<and> \<not> tr, s')" by metis
  have "a \<in> snd ` set (m_bannedIPs u)" using mono assms(6,9) p(2) by force
  then have "\<not> ok" using decide_inv [OF p(1) assms(4)] p(3) by simp
  with p(4) show ?thesis by auto
qed

lemma demo_ban:
  "\<exists>s1. bl_run (new_BlackList 1 1 3) 0 s1 0 \<and> (3 * one_sec, 5) \<in> set (m_bannedIPs s1)"
proof -
  let ?s0 = "new_BlackList 1 1 3"
  let ?s1 = "?s0\<lparr>m_ipmap := \<lparr>m_requestsPerSec = 1, m_wndSizeSec = 1, m_ipwnd = [(5, \<lparr>m_tpStart = 0, m_count = 1\<rparr>)]\<rparr>\<rparr>"
  let ?s2 = "?s0\<lparr>m_ipmap := \<lparr>m_requestsPerSec = 1, m_wndSizeSec = 1, m_ipwnd = []\<rparr>\<rparr>"
  have t: "twf (m_table ?s1)" "twf (m_table ?s0)" "twf (m_table ?s2)" by (simp_all add: twf_new)
  have d: "decide (tbl new_tree) True 5 = (False, True)" by (simp add: decide_def best_none [THEN iffD2] twf_new)
  have p1: "processIp 0 0 0 5 False ?s0 = Done (True, ?s1)"
    using find_addr_ok [OF t(2), of 5] d
    by (simp add: processIp_def unban_def new_BlackList_def inc_def removeItAndNeighbor_def neighbor_def new_Window_def m_wndSize_def)
  from addEntry_ok [OF t(3), of 5 False] obtain t' where a: "addEntry 5 False False 32 ?s2 = Done (?s2\<lparr>m_table := t'\<rparr>)" .
  have "processIp 0 0 0 5 False ?s1 = Done (False, ?s2\<lparr>m_table := t', m_bannedIPs := [(3 * one_sec, 5)]\<rparr>)"
    using find_addr_ok [OF t(1), of 5] d a
    by (simp add: processIp_def unban_def new_BlackList_def inc_def inc_window_def removeItAndNeighbor_def neighbor_def m_wndSize_def Let_def
        omap_erase_def ban_def)
  from bl_run.call [OF bl_run.call [OF bl_run.start _ _ _ p1] _ _ _ this] show ?thesis by force
qed

theorem ban_lasts_witness:
  "\<exists>s s'. bl_run (new_BlackList 1 1 3) 0 s 0 \<and> processIp 1 1 1 5 False s = Done (False, s')"
proof -
  from demo_ban obtain s where s: "bl_run (new_BlackList 1 1 3) 0 s 0" "(3 * one_sec, 5) \<in> set (m_bannedIPs s)" by blast
  have "\<exists>s'. processIp 1 1 1 5 False s = Done (False, s')"
    by (rule ban_lasts [OF new_BlackList_loaded s _ bl_run.start]) (simp_all add: twf_new)
  with s show ?thesis by blast
qed

end
