(* ===== verification/Text_Scan.thy ===== *)
theory Text_Scan
  imports Graft_Prelude
begin

text \<open>
  What the hand-written equivalents of the regular expressions share: the character classes \<^verbatim>\<open>\s\<close> and \<^verbatim>\<open>[0-9]\<close>, the pieces of a
  text between separators, and the value of a string of digits.
\<close>

definition rx_space :: "char \<Rightarrow> bool" where
  "rx_space c \<longleftrightarrow> c = CHR '' '' \<or> (of_char c :: nat) \<in> {9, 10, 11, 12, 13}"

definition rx_digit :: "char \<Rightarrow> bool" where
  "rx_digit c \<longleftrightarrow> 48 \<le> (of_char c :: nat) \<and> (of_char c :: nat) \<le> 57"

fun split_on :: "char \<Rightarrow> string \<Rightarrow> string list" where
  "split_on c [] = [[]]"
| "split_on c (x # xs) =
     (if x = c then [] # split_on c xs
      else (case split_on c xs of [] \<Rightarrow> [[x]] | w # ws \<Rightarrow> (x # w) # ws))"

definition digit_val :: "char \<Rightarrow> nat" where
  "digit_val c = of_char c - 48"

definition num_val :: "nat \<Rightarrow> string \<Rightarrow> nat" where
  "num_val base w = foldl (\<lambda>n c. n * base + digit_val c) 0 w"

end
