(* ===== verification/Blacklist_Rules.thy ===== *)
theory Blacklist_Rules
  imports Blacklist Text_Scan
begin

text \<open>
  The rule file of the address filter: the substitutions and the grammar of a line, the
  addition of a rule, and what the table decides once the file is read.
\<close>

section \<open>Reading rules\<close>

abbreviation CR :: char where "CR \<equiv> CHR 0x0D"
abbreviation LF :: char where "LF \<equiv> CHR 0x0A"

fun before_comment :: "string \<Rightarrow> (string \<times> string) option" where
  "before_comment [] = None"
| "before_comment [x] = None"
| "before_comment (x # y # xs) =
     (if x = CHR '';'' \<and> y = CHR '';'' then Some ([], xs)
      else map_option (\<lambda>(a, b). (x # a, b)) (before_comment (y # xs)))"

text \<open>
  The two substitutions on a line. In both, \<^verbatim>\<open>.\<close> does not match a carriage return, so a line with one in
  the wrong place stays as it is. The first greedy \<^verbatim>\<open>\s*\<close> takes all leading blanks; the lazy
  group ends at the first \<^verbatim>\<open>;;\<close>.
\<close>

definition drop_final_cr :: "string \<Rightarrow> string" where
  "drop_final_cr b = (if b \<noteq> [] \<and> last b = CR then butlast b else b)"

definition strip_comment :: "string \<Rightarrow> string" where
  "strip_comment s =
     (case before_comment (dropWhile rx_space s) of
        None \<Rightarrow> s
      | Some (a, b) \<Rightarrow> if CR \<in> set a \<or> CR \<in> set (drop_final_cr b) then s else a)"

definition trim :: "string \<Rightarrow> string" where
  "trim s = (let a = rev (dropWhile rx_space (rev (dropWhile rx_space s))) in if CR \<in> set a then s else a)"

text \<open>\<^verbatim>\<open>^(allow|deny)\s+(all|((\d{1,3}\.\d{1,3}\.\d{1,3}\.\d{1,3})(/(\d{1,2}))?))$\<close>\<close>

datatype rule = RuleAll bool | RuleNet bool "string list" "string option"

definition digits :: "nat \<Rightarrow> string \<Rightarrow> bool" where
  "digits n w \<longleftrightarrow> w \<noteq> [] \<and> length w \<le> n \<and> list_all rx_digit w"

definition parse_target :: "bool \<Rightarrow> string \<Rightarrow> rule option" where
  "parse_target allow r =
     (if r = ''all'' then Some (RuleAll allow)
      else
        let ip = split_on (CHR ''.'') (takeWhile (\<lambda>c. c \<noteq> CHR ''/'') r);
            suffix = dropWhile (\<lambda>c. c \<noteq> CHR ''/'') r
        in if length ip = 4 \<and> list_all (digits 3) ip \<and> (suffix = [] \<or> digits 2 (tl suffix))
           then Some (RuleNet allow ip (if suffix = [] then None else Some (tl suffix)))
           else None)"

definition parse_rule :: "string \<Rightarrow> rule option" where
  "parse_rule s =
     (let (verb, rest) = (if take 5 s = ''allow'' then (Some True, drop 5 s)
                          else if take 4 s = ''deny'' then (Some False, drop 4 s) else (None, s))
      in case verb of
           None \<Rightarrow> None
         | Some allow \<Rightarrow>
             if rest \<noteq> [] \<and> rx_space (hd rest) then parse_target allow (dropWhile rx_space rest) else None)"

text \<open>
  \<^verbatim>\<open>inet_aton\<close> on four fields of digits, as the C library reads them: a leading zero means octal.
  The result is in host_bits order, as the code has it after \<^verbatim>\<open>ntohl\<close>.
\<close>

definition field_val :: "string \<Rightarrow> nat option" where
  "field_val w =
     (if hd w = CHR ''0'' \<and> list_ex (\<lambda>c. digit_val c \<ge> 8) w then None
      else
        let n = num_val (if hd w = CHR ''0'' then 8 else 10) w
        in if n \<le> 255 then Some n else None)"

definition inet_aton :: "string list \<Rightarrow> u32 option" where
  "inet_aton ip =
     (case map field_val ip of
        [Some a, Some b, Some c, Some d] \<Rightarrow>
          Some (((word_of_nat a * 256 + word_of_nat b) * 256 + word_of_nat c) * 256 + word_of_nat d)
      | _ \<Rightarrow> None)"

definition rule_mask :: "int \<Rightarrow> u32" where
  "rule_mask len = (if len < 32 then NOT (push_bit (nat (32 - len)) 1 - 1) else - 1)"

definition addRule :: "bool \<Rightarrow> string list \<Rightarrow> int \<Rightarrow> nat \<Rightarrow> BlackListImpl \<Rightarrow> BlackListImpl bl_result" where
  "addRule allow ip len line s =
     (case inet_aton ip of
        None \<Rightarrow> Throws ''invalid address error; addRule''
      | Some addr \<Rightarrow>
          let addr = addr AND rule_mask len in
          bl_bind (find_addr addr False s) (\<lambda>(known, _).
            if known then Done (s\<lparr>m_warns := m_warns s @ [Superseded line]\<rparr>)
            else bl_bind (defined (insert_val (RtEntry addr len, allow) (m_table s))) (\<lambda>(t, _). Done (s\<lparr>m_table := t\<rparr>))))"

fun readLines :: "nat \<Rightarrow> bool \<Rightarrow> string list \<Rightarrow> BlackListImpl \<Rightarrow> BlackListImpl bl_result" where
  "readLines line terminator_found [] s = Done s"
| "readLines line terminator_found (l # ls) s =
     (let l = trim (strip_comment l) in
      if l = [] then readLines (Suc line) terminator_found ls s
      else if terminator_found then Done (s\<lparr>m_warns := m_warns s @ [AllSuperseded line]\<rparr>)
      else case parse_rule l of
        None \<Rightarrow> Throws ''invalid rule''
      | Some (RuleAll allow) \<Rightarrow> readLines (Suc line) True ls (s\<lparr>m_defaultAllow := allow\<rparr>)
      | Some (RuleNet allow ip len) \<Rightarrow>
          let prefix_len = (case len of None \<Rightarrow> 32 | Some w \<Rightarrow> int (num_val 10 w)) in
          if prefix_len = 0 \<or> 32 < prefix_len then Throws ''invalid mask''
          else bl_bind (addRule allow ip prefix_len line s) (\<lambda>s. readLines (Suc line) False ls s))"

definition readRules :: "string \<Rightarrow> BlackListImpl \<Rightarrow> BlackListImpl bl_result" where
  "readRules text s = readLines 1 False (split_on LF text) (s\<lparr>m_table := clear (m_table s)\<rparr>)"

section \<open>The reference reading of a rule file\<close>

definition net_key :: "string list \<Rightarrow> int \<Rightarrow> RtEntry option" where
  "net_key ip len = map_option (\<lambda>a. RtEntry (a AND rule_mask len) len) (inet_aton ip)"

text \<open>The rules of a file in order, up to the first \<^verbatim>\<open>allow all\<close> or \<^verbatim>\<open>deny all\<close>, which gives the default.\<close>

fun file_rules :: "string list \<Rightarrow> (RtEntry \<times> bool) list \<times> bool option" where
  "file_rules [] = ([], None)"
| "file_rules (l # ls) =
     (let l = trim (strip_comment l) in
      if l = [] then file_rules ls
      else case parse_rule l of
        None \<Rightarrow> ([], None)
      | Some (RuleAll allow) \<Rightarrow> ([], Some allow)
      | Some (RuleNet allow ip len) \<Rightarrow>
          (case net_key ip (case len of None \<Rightarrow> 32 | Some w \<Rightarrow> int (num_val 10 w)) of
             None \<Rightarrow> ([], None)
           | Some k \<Rightarrow> (let (rs, d) = file_rules ls in ((k, allow) # rs, d))))"

text \<open>The meaning of a list of rules: the first that contains the address decides.\<close>

fun first_match :: "(RtEntry \<times> bool) list \<Rightarrow> u32 \<Rightarrow> bool option" where
  "first_match [] a = None"
| "first_match ((k, v) # rs) a = (if prefix (ebits k) (host_bits a) then Some v else first_match rs a)"

text \<open>A rule is wider than an earlier one that contains its base address.\<close>

definition wider :: "RtEntry \<times> bool \<Rightarrow> RtEntry \<times> bool \<Rightarrow> bool" where
  "wider e r \<longleftrightarrow> m_prefixLen (fst r) < m_prefixLen (fst e) \<and> prefix (ebits (fst e)) (host_bits (m_addr (fst r)))"

definition no_wider :: "(RtEntry \<times> bool) list \<Rightarrow> bool" where
  "no_wider rs \<longleftrightarrow> sorted_wrt (\<lambda>e r. \<not> wider e r) rs"

lemma first_match_append: "first_match (xs @ ys) a = (case first_match xs a of Some v \<Rightarrow> Some v | None \<Rightarrow> first_match ys a)"
  by (induction xs a rule: first_match.induct) auto

lemma first_match_some: "first_match rs a = Some v \<Longrightarrow> \<exists>e\<in>set rs. prefix (ebits (fst e)) (host_bits a)"
  by (induction rs a rule: first_match.induct) (auto split: if_splits)

lemma first_match_none: "first_match rs a = None \<longleftrightarrow> (\<forall>e\<in>set rs. \<not> prefix (ebits (fst e)) (host_bits a))"
  by (induction rs a rule: first_match.induct) auto

lemma host_abits: "host_bits (m_addr k) = abits k"
  by (simp add: host_bits_def abits_def entry_bit_def)

lemma rule_prefix: "prefix (ebits k) (host_bits (m_addr k))"
  unfolding host_abits by (rule ebits_prefix)

section \<open>Adding a rule\<close>

lemma best_add:
  assumes "best m (host_bits b) 32 = None" "length p \<le> 32" "prefix p (host_bits b)"
  shows "best (m(p \<mapsto> v)) (host_bits a) 32 =
    (case best m (host_bits a) 32 of Some x \<Rightarrow> Some x | None \<Rightarrow> if prefix p (host_bits a) then Some v else None)"
proof (cases "prefix p (host_bits a)")
  case False
  have "best (m(p \<mapsto> v)) (host_bits a) 32 = best m (host_bits a) 32"
  proof (rule best_cong)
    fix i show "(m(p \<mapsto> v)) (take i (host_bits a)) = m (take i (host_bits a))" using False take_is_prefix [of i "host_bits a"] by auto
  qed
  with False show ?thesis by (simp split: option.split)
next
  case True
  have short: "m (take i (host_bits a)) = None" if "i \<le> length p" for i
  proof -
    have "take i (host_bits a) = take i p" "take i (host_bits b) = take i p" using that True assms(3) by (auto simp: prefix_def)
    moreover have "m (take i (host_bits b)) = None" using assms(1,2) that by (auto simp: best_none)
    ultimately show ?thesis by metis
  qed
  have at: "take (length p) (host_bits a) = p" using True by (auto simp: prefix_def)
  have ne: "take i (host_bits a) \<noteq> p" if "i \<le> 32" "i \<noteq> length p" for i
  proof
    assume "take i (host_bits a) = p"
    then have "length (take i (host_bits a)) = length p" by simp
    with that show False by simp
  qed
  show ?thesis
  proof (cases "best m (host_bits a) 32")
    case None
    then have n: "\<forall>i\<le>32. m (take i (host_bits a)) = None" by (simp add: best_none)
    have "best (m(p \<mapsto> v)) (host_bits a) 32 = Some v"
      by (rule best_some [of _ "length p"]) (simp_all add: at assms(2) n ne)
    with None True show ?thesis by simp
  next
    case (Some x)
    then obtain i where i: "i \<le> 32" "m (take i (host_bits a)) = Some x" "\<And>j. i < j \<Longrightarrow> j \<le> 32 \<Longrightarrow> m (take j (host_bits a)) = None"
      using best_hit by blast
    have "length p < i" using short i(2) by (metis not_le option.distinct(1))
    then have "best (m(p \<mapsto> v)) (host_bits a) 32 = Some x"
      by (intro best_some [of _ i]) (simp_all add: i ne)
    with Some show ?thesis by simp
  qed
qed

definition tells :: "BlackListImpl \<Rightarrow> (RtEntry \<times> bool) list \<Rightarrow> bool" where
  "tells s rs \<longleftrightarrow> twf (m_table s) \<and> (\<forall>a. best (tbl (m_table s)) (host_bits a) 32 = first_match rs a)"

lemma addRule_tells:
  assumes "tells s acc" "net_key ip len = Some k" "0 < len" "len \<le> 32" "addRule allow ip len line s = Done s'"
    and "\<forall>e\<in>set acc. \<not> wider e (k, allow)"
  shows "tells s' (acc @ [(k, allow)]) \<and> m_defaultAllow s' = m_defaultAllow s"
proof -
  have w: "twf (m_table s)" and fm: "\<And>a. best (tbl (m_table s)) (host_bits a) 32 = first_match acc a" using assms(1) by (auto simp: tells_def)
  from assms(2) obtain addr where ad: "inet_aton ip = Some addr" "k = RtEntry (addr AND rule_mask len) len" by (auto simp: net_key_def)
  let ?b = "addr AND rule_mask len"
  have k: "key_ok k" "m_addr k = ?b" "m_prefixLen k = len" using assms(3,4) ad(2) by (auto simp: key_ok_def)
  have f: "find_addr ?b False s = Done (decide (tbl (m_table s)) (m_defaultAllow s) ?b)" by (rule find_addr_ok [OF w])
  show ?thesis
  proof (cases "first_match acc ?b")
    case None
    then have b: "best (tbl (m_table s)) (host_bits ?b) 32 = None" using fm by simp
    then have "fst (decide (tbl (m_table s)) (m_defaultAllow s) ?b) = False" by (simp add: decide_def)
    then obtain t x where t: "insert_val (k, allow) (m_table s) = Some (t, x)" "s' = s\<lparr>m_table := t\<rparr>"
      using assms(5) ad f by (auto simp: addRule_def defined_def Let_def split: option.splits prod.splits)
    have p: "length (ebits k) \<le> 32" "prefix (ebits k) (host_bits ?b)" using rule_prefix [of k] k(2) by (auto simp: ebits_def)
    have "take (length (ebits k)) (host_bits ?b) = ebits k" using p(2) by (auto simp: prefix_def)
    then have "tbl (m_table s) (ebits k) = None" using b p(1) by (auto simp: best_none)
    with insert_some_tbl [OF w k(1) t(1)] have "twf t" "tbl t = (tbl (m_table s))(ebits k \<mapsto> allow)" by auto
    then show ?thesis using t(2) best_add [OF b p, of allow] fm by (auto simp: tells_def first_match_append split: option.splits)
  next
    case (Some v)
    then have "fst (decide (tbl (m_table s)) (m_defaultAllow s) ?b) = True" using fm by (simp add: decide_def)
    then have s': "m_table s' = m_table s" "m_defaultAllow s' = m_defaultAllow s"
      using assms(5) ad f by (auto simp: addRule_def Let_def split: prod.splits)
    from first_match_some [OF Some] obtain e where e: "e \<in> set acc" "prefix (ebits (fst e)) (host_bits ?b)" by blast
    then have le: "m_prefixLen (fst e) \<le> len" using assms(6) k(2,3) by (force simp: wider_def)
    have "length (ebits (fst e)) \<le> length (ebits k)" using le k by (simp add: ebits_def)
    then have "prefix (ebits (fst e)) (ebits k)" using prefix_length_prefix [OF e(2) rule_prefix [of k, unfolded k(2)]] by blast
    then have "first_match acc a \<noteq> None" if "prefix (ebits k) (host_bits a)" for a
      using that e(1) first_match_none [of acc a] prefix_order.trans by blast
    then have "first_match (acc @ [(k, allow)]) a = first_match acc a" for a
      by (auto simp: first_match_append split: option.splits)
    then show ?thesis using s' w fm by (simp add: tells_def)
  qed
qed

lemma readLines_rest: "readLines line True ls s = Done s' \<Longrightarrow> m_table s' = m_table s \<and> m_defaultAllow s' = m_defaultAllow s"
  by (induction ls arbitrary: line) (auto simp: Let_def split: if_splits)

lemma readLines_tells:
  assumes "readLines line False ls s = Done s'" "file_rules ls = (rs, d)" "tells s acc" "no_wider (acc @ rs)"
  shows "tells s' (acc @ rs) \<and> m_defaultAllow s' = (case d of Some v \<Rightarrow> v | None \<Rightarrow> m_defaultAllow s)"
  using assms
proof (induction ls arbitrary: line s acc rs)
  case (Cons l ls)
  let ?l = "trim (strip_comment l)"
  show ?case
  proof (cases "?l = []")
    case True
    then show ?thesis using Cons by (simp add: Let_def)
  next
    case ne: False
    show ?thesis
    proof (cases "parse_rule ?l")
      case None
      then show ?thesis using Cons.prems(1) ne by (simp add: Let_def)
    next
      case (Some rl)
      show ?thesis
      proof (cases rl)
        case (RuleAll allow)
        then have "readLines (Suc line) True ls (s\<lparr>m_defaultAllow := allow\<rparr>) = Done s'" "rs = []" "d = Some allow"
          using Cons.prems(1,2) ne Some by (simp_all add: Let_def)
        then show ?thesis using readLines_rest [of "Suc line" ls "s\<lparr>m_defaultAllow := allow\<rparr>" s'] Cons.prems(3)
          by (simp add: tells_def)
      next
        case (RuleNet allow ip len)
        let ?len = "case len of None \<Rightarrow> 32 | Some w \<Rightarrow> int (num_val 10 w)"
        have r1: "?len \<noteq> 0" "?len \<le> 32" "bl_bind (addRule allow ip ?len line s) (\<lambda>s. readLines (Suc line) False ls s) = Done s'"
          using Cons.prems(1) ne Some RuleNet by (auto simp: Let_def split: if_splits)
        have pos: "0 < ?len" using r1(1) by (auto split: option.splits)
        from r1(3) obtain s1 where s1: "addRule allow ip ?len line s = Done s1" "readLines (Suc line) False ls s1 = Done s'"
          by (cases "addRule allow ip ?len line s") auto
        then obtain k where k: "net_key ip ?len = Some k" by (auto simp: addRule_def net_key_def split: option.splits)
        obtain rs' where rs: "file_rules ls = (rs', d)" "rs = (k, allow) # rs'"
          using Cons.prems(2) ne Some RuleNet k by (auto simp: Let_def split: prod.splits)
        have nw: "no_wider ((acc @ [(k, allow)]) @ rs')" using Cons.prems(4) rs(2) by simp
        have "\<forall>e\<in>set acc. \<not> wider e (k, allow)" using Cons.prems(4) rs(2) by (auto simp: no_wider_def sorted_wrt_append)
        from addRule_tells [OF Cons.prems(3) k pos r1(2) s1(1) this]
        have t: "tells s1 (acc @ [(k, allow)])" "m_defaultAllow s1 = m_defaultAllow s" by auto
        from Cons.IH [OF s1(2) rs(1) t(1) nw] t(2) rs(2) show ?thesis by (simp cong: option.case_cong)
      qed
    qed
  qed
qed auto

section \<open>Properties\<close>

text \<open>
  C37. The rules of the file decide in order. When the file is read without an error and no rule is wider than an
  earlier one that contains its base address, then the filter decides every address by the
  first rule of the file that contains it, and by the last line \<^verbatim>\<open>allow all\<close> or \<^verbatim>\<open>deny all\<close> when none does.
\<close>

theorem rules_first_match:
  assumes "readRules text s = Done s'" "file_rules (split_on LF text) = (rs, d)" "no_wider rs"
  shows "find_addr a False s' = Done (case first_match rs a of Some v \<Rightarrow> (True, v)
    | None \<Rightarrow> (False, case d of Some v \<Rightarrow> v | None \<Rightarrow> m_defaultAllow s))"
proof -
  let ?s = "s\<lparr>m_table := clear (m_table s)\<rparr>"
  have "tells ?s []" by (simp add: tells_def twf_new best_none)
  with readLines_tells [of 1 "split_on LF text" ?s s' rs d "[]"] assms
  have t: "tells s' rs" "m_defaultAllow s' = (case d of Some v \<Rightarrow> v | None \<Rightarrow> m_defaultAllow s)"
    by (auto simp: readRules_def split: option.splits)
  then have "find_addr a False s' = Done (decide (tbl (m_table s')) (m_defaultAllow s') a)" by (intro find_addr_ok) (simp add: tells_def)
  then show ?thesis using t by (simp add: decide_def tells_def split: option.splits)
qed

theorem rules_first_match_witness:
  "\<exists>s'. readRules (''deny 1.1.1.0/24'' @ [LF] @ ''allow 1.1.0.0/16'' @ [LF] @ ''deny all'') (new_BlackList 0 0 0) = Done s' \<and>
     find_addr 0x01010203 False s' = Done (True, True) \<and> find_addr 0x01010103 False s' = Done (True, False)"
proof -
  let ?t = "''deny 1.1.1.0/24'' @ [LF] @ ''allow 1.1.0.0/16'' @ [LF] @ ''deny all''"
  let ?rs = "[(RtEntry 0x01010100 24, False), (RtEntry 0x01010000 16, True)]"
  have "case readRules ?t (new_BlackList 0 0 0) of Done _ \<Rightarrow> True | _ \<Rightarrow> False" by code_simp
  then obtain s' where s': "readRules ?t (new_BlackList 0 0 0) = Done s'" by (auto split: bl_result.splits)
  have f: "file_rules (split_on LF ?t) = (?rs, Some False)" "no_wider ?rs" by code_simp+
  have "first_match ?rs 0x01010203 = Some True" "first_match ?rs 0x01010103 = Some False" by code_simp+
  with rules_first_match [OF s' f] s' show ?thesis by simp
qed

text \<open>
  A harmless file can be undefined behaviour. Three rules for two networks and the wider network around them,
  the narrower ones first as the order asks: adding the third makes the search in the radix tree run past the end of
  the key, and the shift that follows has a negative count.
\<close>

theorem rules_undefined:
  "readRules (''allow 10.0.1.0/24'' @ [LF] @ ''allow 10.0.2.0/24'' @ [LF] @ ''deny 10.0.0.0/16'') (new_BlackList 0 0 0) = Undef"
  by code_simp

text \<open>
  A wider rule is lost. The second rule is dropped as superseded although the first covers only a part of
  it: an address outside the first is decided by the default.
\<close>

theorem wider_rule_lost:
  "case readRules (''allow 10.0.0.0/24'' @ [LF] @ ''deny 10.0.0.0/16'') (new_BlackList 0 0 0) of
     Done s \<Rightarrow> find_addr 0x0A000505 False s = Done (False, True) \<and> m_warns s = [Superseded 2]
   | _ \<Rightarrow> False"
  by code_simp

text \<open>
  A rule for a single address does not survive a ban. The address 0.0.0.5 is allowed by its own rule while all others are
  denied. Its flood is refused once; the ban does not override the rule, so the next request is admitted, but when
  the ban ends it takes the rule with it, and the address is refused from then on.
\<close>

theorem own_rule_lost:
  "case readRules (''allow 0.0.0.5'' @ [LF] @ ''deny all'') (new_BlackList 1 1 1) of
     Done s \<Rightarrow>
       (case processIp 0 0 0 5 False s of Done (ok1, s1) \<Rightarrow>
       (case processIp 0 0 0 5 False s1 of Done (ok2, s2) \<Rightarrow>
       (case processIp 1 1 1 5 False s2 of Done (ok3, s3) \<Rightarrow>
       (case processIp (2 * one_sec) (2 * one_sec) (2 * one_sec) 5 False s3 of Done (ok4, s4) \<Rightarrow>
          ok1 \<and> \<not> ok2 \<and> ok3 \<and> \<not> ok4 \<and> tbl (m_table s4) (host_bits 5) = None
        | _ \<Rightarrow> False) | _ \<Rightarrow> False) | _ \<Rightarrow> False) | _ \<Rightarrow> False)
   | _ \<Rightarrow> False"
  by code_simp

end
