(* ===== verification/Mpmc_Queue.thy ===== *)
theory Mpmc_Queue
  imports Graft_Prelude
begin

text \<open>
  The bounded queue of the thread pool (\<^verbatim>\<open>thread_pool/mpmc_bounded_queue.hpp\<close>), which many threads use at once without
  locks. A call of \<^verbatim>\<open>push\<close> or \<^verbatim>\<open>pop\<close> is a program counter with the local variables that are still needed,
  one step of it is one access to the shared memory, and a run is any interleaving of the steps of any number of threads.
  Accesses take effect in the order of the run; the acquire and release orders of the cell sequences are what the C++ memory
  model asks for this where the data of a cell is concerned.
\<close>

unbundle bit_operations_syntax

section \<open>Data\<close>

type_synonym size_t = "64 word"

text \<open>The data of a cell is \<open>None\<close> when the cell was default constructed or moved from.\<close>

record ('p, 'a) Cell =
  sequence :: 'p
  c_data :: "'a option"

record ('p, 'a) MPMC =
  m_buffer :: "('p, 'a) Cell list"
  m_buffer_mask :: 'p
  m_enqueue_pos :: 'p
  m_dequeue_pos :: 'p

datatype mpmc_error = InvalidArgument string

definition mpmc_new :: "size_t \<Rightarrow> mpmc_error + (size_t, 'a) MPMC" where
  "mpmc_new sz =
    (let size_is_power_of_2 = 2 \<le> sz \<and> sz AND (sz - 1) = 0
     in if \<not> size_is_power_of_2 then Inl (InvalidArgument ''buffer size should be a power of 2'')
        else Inr \<lparr>m_buffer = map (\<lambda>i. \<lparr>sequence = of_nat i, c_data = None\<rparr>) [0..<unat sz],
                  m_buffer_mask = sz - 1, m_enqueue_pos = 0, m_dequeue_pos = 0\<rparr>)"

section \<open>Calls of push and pop\<close>

text \<open>
  \<open>PushLoad v\<close> is about to load \<^verbatim>\<open>m_enqueue_pos\<close>, \<open>PushSeq v pos\<close> the sequence of the cell, \<open>PushCas v pos\<close> is about to do the
  exchange, \<open>PushWrite v pos\<close> owns the cell and is about to write its data, \<open>PushStore pos\<close> to store its sequence,
  and \<open>Pushed b\<close> has returned. The states of \<^verbatim>\<open>pop\<close> are alike.
\<close>

datatype ('p, 'a) pc =
    Idle
  | PushLoad 'a | PushSeq 'a 'p | PushCas 'a 'p | PushWrite 'a 'p | PushStore 'p | Pushed bool
  | PopLoad | PopSeq 'p | PopCas 'p | PopRead 'p | PopStore "'a option" 'p | Popped "'a option option"

text \<open>
  A successful exchange is recorded as an event: the value pushed, or the data the cell has at that moment.
\<close>

datatype 'a event = EPush 'a | EPop "'a option"

definition cell_of :: "size_t \<Rightarrow> (size_t, 'a) MPMC \<Rightarrow> nat" where
  "cell_of pos q = unat (pos AND m_buffer_mask q)"

definition set_data :: "nat \<Rightarrow> 'a option \<Rightarrow> ('p, 'a) MPMC \<Rightarrow> ('p, 'a) MPMC" where
  "set_data c d q = q\<lparr>m_buffer := (m_buffer q)[c := (m_buffer q ! c)\<lparr>c_data := d\<rparr>]\<rparr>"

definition set_sequence :: "nat \<Rightarrow> 'p \<Rightarrow> ('p, 'a) MPMC \<Rightarrow> ('p, 'a) MPMC" where
  "set_sequence c s q = q\<lparr>m_buffer := (m_buffer q)[c := (m_buffer q ! c)\<lparr>sequence := s\<rparr>]\<rparr>"

text \<open>
  One step of a call. \<open>weak\<close> says that a weak exchange fails although the value is the expected one. The difference of
  sequence and position is computed on signed integers.
\<close>

fun push_step :: "bool \<Rightarrow> (size_t, 'a) pc \<Rightarrow> (size_t, 'a) MPMC \<Rightarrow> (size_t, 'a) pc \<times> (size_t, 'a) MPMC \<times> 'a event list" where
  "push_step weak (PushLoad v) q = (PushSeq v (m_enqueue_pos q), q, [])"
| "push_step weak (PushSeq v pos) q =
    (let cell = m_buffer q ! cell_of pos q;
         dif = sint (sequence cell) - sint pos
     in if dif = 0 then (PushCas v pos, q, [])
        else if dif < 0 then (Pushed False, q, [])
        else (PushLoad v, q, []))"
| "push_step weak (PushCas v pos) q =
    (if m_enqueue_pos q = pos \<and> \<not> weak then (PushWrite v pos, q\<lparr>m_enqueue_pos := pos + 1\<rparr>, [EPush v])
     else (PushSeq v (m_enqueue_pos q), q, []))"
| "push_step weak (PushWrite v pos) q = (PushStore pos, set_data (cell_of pos q) (Some v) q, [])"
| "push_step weak (PushStore pos) q = (Pushed True, set_sequence (cell_of pos q) (pos + 1) q, [])"
| "push_step weak p q = (p, q, [])"

fun pop_step :: "bool \<Rightarrow> (size_t, 'a) pc \<Rightarrow> (size_t, 'a) MPMC \<Rightarrow> (size_t, 'a) pc \<times> (size_t, 'a) MPMC \<times> 'a event list" where
  "pop_step weak PopLoad q = (PopSeq (m_dequeue_pos q), q, [])"
| "pop_step weak (PopSeq pos) q =
    (let cell = m_buffer q ! cell_of pos q;
         dif = sint (sequence cell) - sint (pos + 1)
     in if dif = 0 then (PopCas pos, q, [])
        else if dif < 0 then (Popped None, q, [])
        else (PopLoad, q, []))"
| "pop_step weak (PopCas pos) q =
    (if m_dequeue_pos q = pos \<and> \<not> weak
     then (PopRead pos, q\<lparr>m_dequeue_pos := pos + 1\<rparr>, [EPop (c_data (m_buffer q ! cell_of pos q))])
     else (PopSeq (m_dequeue_pos q), q, []))"
| "pop_step weak (PopRead pos) q =
    (PopStore (c_data (m_buffer q ! cell_of pos q)) pos, set_data (cell_of pos q) None q, [])"
| "pop_step weak (PopStore d pos) q =
    (Popped (Some d), set_sequence (cell_of pos q) (pos + m_buffer_mask q + 1) q, [])"
| "pop_step weak p q = (p, q, [])"

definition is_push :: "('p, 'a) pc \<Rightarrow> bool" where
  "is_push p = (case p of PushLoad _ \<Rightarrow> True | PushSeq _ _ \<Rightarrow> True | PushCas _ _ \<Rightarrow> True | PushWrite _ _ \<Rightarrow> True
     | PushStore _ \<Rightarrow> True | _ \<Rightarrow> False)"

definition call_step :: "bool \<Rightarrow> (size_t, 'a) pc \<Rightarrow> (size_t, 'a) MPMC \<Rightarrow> (size_t, 'a) pc \<times> (size_t, 'a) MPMC \<times> 'a event list" where
  "call_step weak p q = (if is_push p then push_step weak p q else pop_step weak p q)"

definition at_rest :: "('p, 'a) pc \<Rightarrow> bool" where
  "at_rest p = (case p of Idle \<Rightarrow> True | Pushed _ \<Rightarrow> True | Popped _ \<Rightarrow> True | _ \<Rightarrow> False)"

section \<open>Interleaved runs\<close>

text \<open>
  \<open>mpmc_run q0 es q thr\<close>: from the queue \<open>q0\<close> with all threads idle the interleaved calls have led to the queue \<open>q\<close> with
  the threads at \<open>thr\<close>, and \<open>es\<close> are the exchanges that succeeded, in their order.
\<close>

inductive mpmc_run :: "(size_t, 'a) MPMC \<Rightarrow> 'a event list \<Rightarrow> (size_t, 'a) MPMC \<Rightarrow> (nat \<Rightarrow> (size_t, 'a) pc) \<Rightarrow> bool"
  for q0 where
  start: "mpmc_run q0 [] q0 (\<lambda>_. Idle)"
| call_push: "mpmc_run q0 es q thr \<Longrightarrow> at_rest (thr i) \<Longrightarrow> mpmc_run q0 es q (thr(i := PushLoad v))"
| call_pop: "mpmc_run q0 es q thr \<Longrightarrow> at_rest (thr i) \<Longrightarrow> mpmc_run q0 es q (thr(i := PopLoad))"
| step: "mpmc_run q0 es q thr \<Longrightarrow> call_step weak (thr i) q = (p, q', e) \<Longrightarrow> mpmc_run q0 (es @ e) q' (thr(i := p))"

section \<open>The abstract bounded queue\<close>

text \<open>What the exchanges mean: a first in, first out queue of at most \<open>n\<close> elements.\<close>

fun fifo :: "nat \<Rightarrow> 'a event list \<Rightarrow> 'a list \<Rightarrow> 'a list option" where
  "fifo n [] xs = Some xs"
| "fifo n (EPush v # es) xs = (if length xs < n then fifo n es (xs @ [v]) else None)"
| "fifo n (EPop d # es) xs = (case xs of [] \<Rightarrow> None | x # ys \<Rightarrow> if d = Some x then fifo n es ys else None)"

definition pushes :: "'a event list \<Rightarrow> 'a list" where
  "pushes es = concat (map (\<lambda>e. case e of EPush v \<Rightarrow> [v] | EPop _ \<Rightarrow> []) es)"

definition pops :: "'a event list \<Rightarrow> 'a option list" where
  "pops es = concat (map (\<lambda>e. case e of EPush v \<Rightarrow> [] | EPop d \<Rightarrow> [d]) es)"

lemma pushes_simps [simp]:
  "pushes [] = []" "pushes (EPush v # es) = v # pushes es" "pushes (EPop d # es) = pushes es" "pushes (es @ fs) = pushes es @ pushes fs"
  by (simp_all add: pushes_def)

lemma pops_simps [simp]:
  "pops [] = []" "pops (EPush v # es) = pops es" "pops (EPop d # es) = d # pops es" "pops (es @ fs) = pops es @ pops fs"
  by (simp_all add: pops_def)

lemma fifo_append: "fifo n (es @ fs) xs = Option.bind (fifo n es xs) (fifo n fs)"
  by (induction n es xs rule: fifo.induct) (auto split: list.splits)

end
