(* ===== verification/Mpmc_Ticket.thy ===== *)
theory Mpmc_Ticket
  imports Mpmc_Queue
begin

text \<open>
  The bounded queue with unbounded positions. Every push and every pop that succeeds draws a ticket, its position; the cell
  of a ticket is its remainder by the size of the buffer. The invariant says in which of four phases each cell is and who owns it.
\<close>

section \<open>The ticket machine\<close>

definition tcell :: "nat \<Rightarrow> (nat, 'a) MPMC \<Rightarrow> nat" where
  "tcell pos q = pos mod Suc (m_buffer_mask q)"

fun tstep :: "bool \<Rightarrow> (nat, 'a) pc \<Rightarrow> (nat, 'a) MPMC \<Rightarrow> (nat, 'a) pc \<times> (nat, 'a) MPMC \<times> 'a event list" where
  "tstep weak (PushLoad v) q = (PushSeq v (m_enqueue_pos q), q, [])"
| "tstep weak (PushSeq v pos) q =
    (let s = sequence (m_buffer q ! tcell pos q)
     in if s = pos then (PushCas v pos, q, []) else if s < pos then (Pushed False, q, []) else (PushLoad v, q, []))"
| "tstep weak (PushCas v pos) q =
    (if m_enqueue_pos q = pos \<and> \<not> weak then (PushWrite v pos, q\<lparr>m_enqueue_pos := pos + 1\<rparr>, [EPush v])
     else (PushSeq v (m_enqueue_pos q), q, []))"
| "tstep weak (PushWrite v pos) q = (PushStore pos, set_data (tcell pos q) (Some v) q, [])"
| "tstep weak (PushStore pos) q = (Pushed True, set_sequence (tcell pos q) (pos + 1) q, [])"
| "tstep weak PopLoad q = (PopSeq (m_dequeue_pos q), q, [])"
| "tstep weak (PopSeq pos) q =
    (let s = sequence (m_buffer q ! tcell pos q)
     in if s = pos + 1 then (PopCas pos, q, []) else if s < pos + 1 then (Popped None, q, []) else (PopLoad, q, []))"
| "tstep weak (PopCas pos) q =
    (if m_dequeue_pos q = pos \<and> \<not> weak
     then (PopRead pos, q\<lparr>m_dequeue_pos := pos + 1\<rparr>, [EPop (c_data (m_buffer q ! tcell pos q))])
     else (PopSeq (m_dequeue_pos q), q, []))"
| "tstep weak (PopRead pos) q = (PopStore (c_data (m_buffer q ! tcell pos q)) pos, set_data (tcell pos q) None q, [])"
| "tstep weak (PopStore d pos) q = (Popped (Some d), set_sequence (tcell pos q) (pos + m_buffer_mask q + 1) q, [])"
| "tstep weak p q = (p, q, [])"

section \<open>Owners of a cell\<close>

fun pushing :: "('p, 'a) pc \<Rightarrow> 'p option" where
  "pushing (PushWrite v k) = Some k"
| "pushing (PushStore k) = Some k"
| "pushing _ = None"

fun popping :: "('p, 'a) pc \<Rightarrow> 'p option" where
  "popping (PopRead k) = Some k"
| "popping (PopStore d k) = Some k"
| "popping _ = None"

text \<open>
  The phases of the cell that ticket \<open>u\<close> will use, when \<open>u\<close> is one of the next \<open>n\<close> tickets to be drawn: free for \<open>u\<close>, being
  written by the push of ticket \<open>u - n\<close>, holding its value, or being emptied by the pop of that ticket.
\<close>

definition phase :: "nat \<Rightarrow> 'a list \<Rightarrow> (nat, 'a) MPMC \<Rightarrow> (nat \<Rightarrow> (nat, 'a) pc) \<Rightarrow> nat \<Rightarrow> bool" where
  "phase n xs q thr u =
    (let c = m_buffer q ! (u mod n) in
       sequence c = u \<and> u < m_dequeue_pos q + n
     \<or> sequence c + n = u \<and> m_dequeue_pos q + n \<le> u \<and> (\<exists>i. pushing (thr i) = Some (u - n))
     \<or> sequence c + n = u + 1 \<and> m_dequeue_pos q + n \<le> u \<and> c_data c = Some (xs ! (u - n))
     \<or> sequence c + n = u + 1 \<and> n \<le> u \<and> u < m_dequeue_pos q + n \<and> (\<exists>i. popping (thr i) = Some (u - n)))"

text \<open>What a thread knows of the queue at each point of its call.\<close>

fun thread_ok :: "nat \<Rightarrow> 'a list \<Rightarrow> (nat, 'a) MPMC \<Rightarrow> (nat, 'a) pc \<Rightarrow> bool" where
  "thread_ok n xs q (PushSeq v pos) = (pos \<le> m_enqueue_pos q)"
| "thread_ok n xs q (PushCas v pos) =
    (pos \<le> m_enqueue_pos q \<and> (pos = m_enqueue_pos q \<longrightarrow> sequence (m_buffer q ! (pos mod n)) = pos))"
| "thread_ok n xs q (PushWrite v k) =
    (m_dequeue_pos q \<le> k \<and> k < m_enqueue_pos q \<and> sequence (m_buffer q ! (k mod n)) = k \<and> xs ! k = v)"
| "thread_ok n xs q (PushStore k) =
    (m_dequeue_pos q \<le> k \<and> k < m_enqueue_pos q \<and> sequence (m_buffer q ! (k mod n)) = k \<and>
     c_data (m_buffer q ! (k mod n)) = Some (xs ! k))"
| "thread_ok n xs q (PopSeq pos) = (pos \<le> m_dequeue_pos q)"
| "thread_ok n xs q (PopCas pos) =
    (pos \<le> m_dequeue_pos q \<and> (pos = m_dequeue_pos q \<longrightarrow> sequence (m_buffer q ! (pos mod n)) = pos + 1))"
| "thread_ok n xs q (PopRead k) =
    (k < m_dequeue_pos q \<and> m_enqueue_pos q \<le> k + n \<and> sequence (m_buffer q ! (k mod n)) = k + 1 \<and>
     c_data (m_buffer q ! (k mod n)) = Some (xs ! k))"
| "thread_ok n xs q (PopStore d k) =
    (k < m_dequeue_pos q \<and> m_enqueue_pos q \<le> k + n \<and> sequence (m_buffer q ! (k mod n)) = k + 1 \<and> d = Some (xs ! k))"
| "thread_ok n xs q _ = True"

definition alone :: "('t \<Rightarrow> 'k option) \<Rightarrow> bool" where
  "alone f = (\<forall>i j k. f i = Some k \<and> f j = Some k \<longrightarrow> i = j)"

definition tinv :: "nat \<Rightarrow> 'a list \<Rightarrow> (nat, 'a) MPMC \<Rightarrow> (nat \<Rightarrow> (nat, 'a) pc) \<Rightarrow> bool" where
  "tinv n xs q thr =
    (2 \<le> n \<and> length (m_buffer q) = n \<and> m_buffer_mask q = n - 1 \<and> length xs = m_enqueue_pos q \<and>
     m_dequeue_pos q \<le> m_enqueue_pos q \<and> m_enqueue_pos q \<le> m_dequeue_pos q + n \<and>
     alone (\<lambda>i. pushing (thr i)) \<and> alone (\<lambda>i. popping (thr i)) \<and>
     (\<forall>i. thread_ok n xs q (thr i)) \<and>
     (\<forall>u. m_enqueue_pos q \<le> u \<and> u < m_enqueue_pos q + n \<longrightarrow> phase n xs q thr u))"

lemma tinvD:
  assumes "tinv n xs q thr"
  shows "2 \<le> n" "length (m_buffer q) = n" "m_buffer_mask q = n - 1" "length xs = m_enqueue_pos q"
    "m_dequeue_pos q \<le> m_enqueue_pos q" "m_enqueue_pos q \<le> m_dequeue_pos q + n"
    "alone (\<lambda>i. pushing (thr i))" "alone (\<lambda>i. popping (thr i))" "thread_ok n xs q (thr i)"
    "m_enqueue_pos q \<le> u \<Longrightarrow> u < m_enqueue_pos q + n \<Longrightarrow> phase n xs q thr u" "tcell k q = k mod n"
  using assms by (simp_all add: tinv_def tcell_def)

lemma mod_window_le:
  assumes "i mod n = j mod n" "i \<le> j" "j < i + n"
  shows "i = (j :: nat)"
proof -
  have "n dvd j - i" using assms(1,2) mod_eq_dvd_iff_nat [of i j n] by simp
  moreover have "j - i < n" using assms by linarith
  ultimately have "\<not> 0 < j - i" using nat_dvd_not_less by blast
  with assms(2) show ?thesis by simp
qed

lemma mod_window: "i mod n = j mod n \<Longrightarrow> i < j + n \<Longrightarrow> j < i + n \<Longrightarrow> i = (j :: nat)"
  using mod_window_le [of i n j] mod_window_le [of j n i] by (cases "i \<le> j") simp_all

lemma mod_Suc_ne: "2 \<le> n \<Longrightarrow> Suc k mod n \<noteq> k mod (n :: nat)"
  using mod_window [of "Suc k" n k] by fastforce

lemma alone_upd: "alone (\<lambda>i. f (thr i)) \<Longrightarrow> f p = f (thr i) \<or> f p = None \<Longrightarrow> alone (\<lambda>j. f ((thr(i := p)) j))"
  unfolding alone_def by (metis fun_upd_apply option.distinct(1))

lemma alone_new: "alone (\<lambda>i. f (thr i)) \<Longrightarrow> (\<And>j. f (thr j) \<noteq> f p) \<Longrightarrow> alone (\<lambda>j. f ((thr(i := p)) j))"
  by (auto simp: alone_def)

lemma owner_kept: "(\<exists>j. f (thr j) = Some k) \<Longrightarrow> f (thr i) \<noteq> Some k \<Longrightarrow> (\<exists>j. f ((thr(i := p)) j) = Some k)"
  by (metis fun_upd_other)

text \<open>Steps that do not change the queue, and calls.\<close>

lemma tinv_local:
  assumes "tinv n xs q thr" "pushing p = None" "popping p = None" "pushing (thr i) = None" "popping (thr i) = None"
    and "thread_ok n xs q p"
  shows "tinv n xs q (thr(i := p))"
proof -
  have ph: "phase n xs q (thr(i := p)) u" if "phase n xs q thr u" for u
    using that assms(2-5) unfolding phase_def Let_def by (elim disjE) (metis fun_upd_apply option.distinct(1))+
  show ?thesis using assms ph alone_upd [of pushing thr p i] alone_upd [of popping thr p i] by (auto simp: tinv_def)
qed

section \<open>Steps that change the queue\<close>

lemma set_data_sequence [simp]: "sequence (m_buffer (set_data c d q) ! c') = sequence (m_buffer q ! c')"
  by (cases "c < length (m_buffer q)") (simp_all add: set_data_def nth_list_update list_update_beyond)

lemma set_sequence_data [simp]: "c_data (m_buffer (set_sequence c s q) ! c') = c_data (m_buffer q ! c')"
  by (cases "c < length (m_buffer q)") (simp_all add: set_sequence_def nth_list_update list_update_beyond)

lemma set_simps [simp]:
  "m_buffer_mask (set_data c d q) = m_buffer_mask q" "m_buffer_mask (set_sequence c s q) = m_buffer_mask q"
  "m_enqueue_pos (set_data c d q) = m_enqueue_pos q" "m_enqueue_pos (set_sequence c s q) = m_enqueue_pos q"
  "m_dequeue_pos (set_data c d q) = m_dequeue_pos q" "m_dequeue_pos (set_sequence c s q) = m_dequeue_pos q"
  "length (m_buffer (set_data c d q)) = length (m_buffer q)" "length (m_buffer (set_sequence c s q)) = length (m_buffer q)"
  by (simp_all add: set_data_def set_sequence_def)

lemma set_nth:
  "c < length (m_buffer q) \<Longrightarrow> c_data (m_buffer (set_data c d q) ! c') = (if c' = c then d else c_data (m_buffer q ! c'))"
  "c < length (m_buffer q) \<Longrightarrow> sequence (m_buffer (set_sequence c s q) ! c') = (if c' = c then s else sequence (m_buffer q ! c'))"
  by (auto simp: set_data_def set_sequence_def nth_list_update)

lemma tinv_lt: "tinv n xs q thr \<Longrightarrow> k mod n < length (m_buffer q)"
  by (simp add: tinv_def)

lemma free_cell:
  assumes "tinv n xs q thr" "sequence (m_buffer q ! (m_enqueue_pos q mod n)) = m_enqueue_pos q"
  shows "m_enqueue_pos q < m_dequeue_pos q + n"
  using tinvD(10) [OF assms(1), of "m_enqueue_pos q"] tinvD(1) [OF assms(1)] assms(2) by (auto simp: phase_def Let_def)

lemma full_cell:
  assumes "tinv n xs q thr" "sequence (m_buffer q ! (m_dequeue_pos q mod n)) = m_dequeue_pos q + 1"
  shows "m_dequeue_pos q < m_enqueue_pos q" "c_data (m_buffer q ! (m_dequeue_pos q mod n)) = Some (xs ! m_dequeue_pos q)"
proof -
  note i = tinvD [OF assms(1)]
  show "m_dequeue_pos q < m_enqueue_pos q"
    using i(10) [of "m_enqueue_pos q"] i(1,5) assms(2) by (cases "m_dequeue_pos q = m_enqueue_pos q") (auto simp: phase_def Let_def)
  then show "c_data (m_buffer q ! (m_dequeue_pos q mod n)) = Some (xs ! m_dequeue_pos q)"
    using i(10) [of "m_dequeue_pos q + n"] i(1,6) assms(2) by (auto simp: phase_def Let_def)
qed

lemma push_cas_inv:
  assumes "tinv n xs q thr" "thr i = PushCas v (m_enqueue_pos q)"
  shows "tinv n (xs @ [v]) (q\<lparr>m_enqueue_pos := m_enqueue_pos q + 1\<rparr>) (thr(i := PushWrite v (m_enqueue_pos q)))"
proof -
  note i = tinvD [OF assms(1)]
  let ?E = "m_enqueue_pos q" and ?q = "q\<lparr>m_enqueue_pos := m_enqueue_pos q + 1\<rparr>" and ?t = "thr(i := PushWrite v (m_enqueue_pos q))"
  have s: "sequence (m_buffer q ! (?E mod n)) = ?E" using i(9) [of i] assms(2) by simp
  note f = free_cell [OF assms(1) s]
  have fresh: "pushing (thr j) \<noteq> Some ?E" for j using i(9) [of j] by (cases "thr j") auto
  have ne: "Suc ?E \<le> k + n" if "sequence (m_buffer q ! (k mod n)) = Suc k" "?E \<le> k + n" for k
    using that s i(1) by (cases "?E = k + n") auto
  have th: "thread_ok n (xs @ [v]) ?q (?t j)" for j
    using i(9) [of j] i(4,5) f s ne by (cases "thr j") (auto simp: nth_append)
  have ph: "phase n (xs @ [v]) ?q ?t u" if u: "?E + 1 \<le> u" "u < ?E + 1 + n" for u
  proof (cases "u = ?E + n")
    case True
    then show ?thesis using s f i(5) by (auto simp: phase_def Let_def intro!: exI [of _ i])
  next
    case False
    then have "phase n xs q thr u" using i(10) u by simp
    moreover have "m_dequeue_pos q + n \<le> u \<Longrightarrow> (xs @ [v]) ! (u - n) = xs ! (u - n)"
      using u False i(4) by (auto simp: nth_append)
    moreover have "(\<exists>j. pushing (thr j) = Some k) \<Longrightarrow> (\<exists>j. pushing (?t j) = Some k)"
      "(\<exists>j. popping (thr j) = Some k) \<Longrightarrow> (\<exists>j. popping (?t j) = Some k)" for k
      by (rule owner_kept; simp add: assms(2))+
    ultimately show ?thesis unfolding phase_def Let_def by (elim disjE) auto
  qed
  have "alone (\<lambda>j. pushing (?t j))" using alone_new [of pushing thr "PushWrite v ?E" i] i(7) fresh by simp
  moreover have "alone (\<lambda>j. popping (?t j))" using alone_upd [of popping thr "PushWrite v ?E" i] i(8) by simp
  ultimately show ?thesis using i(1-6) f th ph unfolding tinv_def by simp
qed

lemma same_ticket:
  assumes "tinv n xs q thr" "pushing (thr i) = Some k" "pushing (thr j) = Some l" "k mod n = l mod n"
  shows "i = j"
proof -
  have "m_dequeue_pos q \<le> k \<and> k < m_enqueue_pos q" using tinvD(9) [OF assms(1), of i] assms(2) by (cases "thr i") auto
  moreover have "m_dequeue_pos q \<le> l \<and> l < m_enqueue_pos q" using tinvD(9) [OF assms(1), of j] assms(3) by (cases "thr j") auto
  ultimately have "k = l" using mod_window [OF assms(4)] tinvD(6) [OF assms(1)] by simp
  with assms tinvD(7) [OF assms(1)] show ?thesis by (auto simp: alone_def)
qed

lemma same_pop_ticket:
  assumes "tinv n xs q thr" "popping (thr i) = Some k" "popping (thr j) = Some l" "k mod n = l mod n"
  shows "i = j"
proof -
  have "k < m_dequeue_pos q \<and> m_enqueue_pos q \<le> k + n" using tinvD(9) [OF assms(1), of i] assms(2) by (cases "thr i") auto
  moreover have "l < m_dequeue_pos q \<and> m_enqueue_pos q \<le> l + n" using tinvD(9) [OF assms(1), of j] assms(3) by (cases "thr j") auto
  ultimately have "k = l" using mod_window [OF assms(4)] tinvD(5) [OF assms(1)] by simp
  with assms tinvD(8) [OF assms(1)] show ?thesis by (auto simp: alone_def)
qed

lemma push_or_pop:
  assumes "tinv n xs q thr" "pushing (thr i) = Some k" "popping (thr j) = Some l"
  shows "k mod n \<noteq> l mod n"
proof
  assume e: "k mod n = l mod n"
  have "sequence (m_buffer q ! (k mod n)) = k" using tinvD(9) [OF assms(1), of i] assms(2) by (cases "thr i") auto
  moreover have "sequence (m_buffer q ! (l mod n)) = Suc l" using tinvD(9) [OF assms(1), of j] assms(3) by (cases "thr j") auto
  ultimately show False using e mod_Suc_ne [OF tinvD(1) [OF assms(1)], of l] by simp
qed

lemma push_write_inv:
  assumes "tinv n xs q thr" "thr i = PushWrite v k"
  shows "tinv n xs (set_data (k mod n) (Some v) q) (thr(i := PushStore k))"
proof -
  note i = tinvD [OF assms(1)] and n = set_nth(1) [OF tinv_lt [OF assms(1)]]
  let ?q = "set_data (k mod n) (Some v) q" and ?t = "thr(i := PushStore k)"
  have own: "m_dequeue_pos q \<le> k" "k < m_enqueue_pos q" "sequence (m_buffer q ! (k mod n)) = k" "xs ! k = v"
    using i(9) [of i] assms(2) by auto
  have th: "thread_ok n xs ?q (?t j)" for j
    using i(9) [of j] own same_ticket [OF assms(1), of i k j] push_or_pop [OF assms(1), of i k j] assms(2)
    by (cases "thr j") (auto simp: n)
  have ph: "phase n xs ?q ?t u" if u: "m_enqueue_pos q \<le> u" "u < m_enqueue_pos q + n" for u
  proof -
    have t: "pushing (?t j) = pushing (thr j)" "popping (?t j) = popping (thr j)" for j using assms(2) by auto
    have "u = k + n" if "u mod n = k mod n" using mod_window [of u n "k + n"] that u own(1,2) i(6) by simp
    then have "sequence (m_buffer q ! (u mod n)) + n \<noteq> u + 1" if "u mod n = k mod n" using that own(3) by simp
    then show ?thesis using i(10) [OF u] unfolding phase_def Let_def t by (auto simp: n)
  qed
  have "alone (\<lambda>j. pushing (?t j))" using alone_upd [of pushing thr "PushStore k" i] i(7) assms(2) by simp
  moreover have "alone (\<lambda>j. popping (?t j))" using alone_upd [of popping thr "PushStore k" i] i(8) by simp
  ultimately show ?thesis using i(1-6) th ph unfolding tinv_def by simp
qed

lemma push_store_inv:
  assumes "tinv n xs q thr" "thr i = PushStore k"
  shows "tinv n xs (set_sequence (k mod n) (k + 1) q) (thr(i := Pushed True))"
proof -
  note i = tinvD [OF assms(1)] and n = set_nth(2) [OF tinv_lt [OF assms(1)]]
  let ?q = "set_sequence (k mod n) (k + 1) q" and ?t = "thr(i := Pushed True)"
  have own: "m_dequeue_pos q \<le> k" "k < m_enqueue_pos q" "sequence (m_buffer q ! (k mod n)) = k"
    "c_data (m_buffer q ! (k mod n)) = Some (xs ! k)" using i(9) [of i] assms(2) by auto
  have th: "thread_ok n xs ?q (?t j)" for j
    using i(9) [of j] own same_ticket [OF assms(1), of i k j] push_or_pop [OF assms(1), of i k j] assms(2) mod_Suc_ne [OF i(1)] mod_Suc_ne [OF i(1), THEN not_sym]
    by (cases "thr j") (auto simp: n)
  have ph: "phase n xs ?q ?t u" if u: "m_enqueue_pos q \<le> u" "u < m_enqueue_pos q + n" for u
  proof (cases "u mod n = k mod n")
    case True
    then have "u = k + n" using mod_window [of u n "k + n"] u own(1,2) i(6) by simp
    then show ?thesis using own by (auto simp: phase_def Let_def n)
  next
    case False
    then have ne: "u - n \<noteq> k" if "n \<le> u" using that by (auto simp: le_mod_geq)
    have "n \<le> u \<Longrightarrow> (\<exists>j. pushing (thr j) = Some (u - n)) \<Longrightarrow> (\<exists>j. pushing (?t j) = Some (u - n))"
      "(\<exists>j. popping (thr j) = Some (u - n)) \<Longrightarrow> (\<exists>j. popping (?t j) = Some (u - n))"
      by (rule owner_kept; use ne in \<open>force simp: assms(2)\<close>)+
    with i(10) [OF u] False show ?thesis unfolding phase_def Let_def by (elim disjE) (auto simp: n)
  qed
  have "alone (\<lambda>j. pushing (?t j))" using alone_upd [of pushing thr "Pushed True" i] i(7) by simp
  moreover have "alone (\<lambda>j. popping (?t j))" using alone_upd [of popping thr "Pushed True" i] i(8) by simp
  ultimately show ?thesis using i(1-6) th ph unfolding tinv_def by simp
qed

lemma pop_cas_inv:
  assumes "tinv n xs q thr" "thr i = PopCas (m_dequeue_pos q)"
  shows "tinv n xs (q\<lparr>m_dequeue_pos := m_dequeue_pos q + 1\<rparr>) (thr(i := PopRead (m_dequeue_pos q)))"
proof -
  note i = tinvD [OF assms(1)]
  let ?D = "m_dequeue_pos q" and ?q = "q\<lparr>m_dequeue_pos := m_dequeue_pos q + 1\<rparr>" and ?t = "thr(i := PopRead (m_dequeue_pos q))"
  have s: "sequence (m_buffer q ! (?D mod n)) = ?D + 1" using i(9) [of i] assms(2) by simp
  note f = full_cell [OF assms(1) s]
  have fresh: "popping (thr j) \<noteq> Some ?D" for j using i(9) [of j] by (cases "thr j") auto
  have ne: "Suc ?D \<le> k" if "sequence (m_buffer q ! (k mod n)) = k" "?D \<le> k" for k
    using that s by (cases "k = ?D") auto
  have th: "thread_ok n xs ?q (?t j)" for j
    using i(9) [of j] i(6) f s ne by (cases "thr j") auto
  have ph: "phase n xs ?q ?t u" if u: "m_enqueue_pos q \<le> u" "u < m_enqueue_pos q + n" for u
  proof (cases "u = ?D + n")
    case True
    then show ?thesis using s by (auto simp: phase_def Let_def intro!: exI [of _ i])
  next
    case False
    have "(\<exists>j. pushing (thr j) = Some k) \<Longrightarrow> (\<exists>j. pushing (?t j) = Some k)"
      "(\<exists>j. popping (thr j) = Some k) \<Longrightarrow> (\<exists>j. popping (?t j) = Some k)" for k
      by (rule owner_kept; simp add: assms(2))+
    with i(10) [OF u] False show ?thesis unfolding phase_def Let_def by (elim disjE) auto
  qed
  have "alone (\<lambda>j. popping (?t j))" using alone_new [of popping thr "PopRead ?D" i] i(8) fresh by simp
  moreover have "alone (\<lambda>j. pushing (?t j))" using alone_upd [of pushing thr "PopRead ?D" i] i(7) by simp
  ultimately show ?thesis using i(1-6) f th ph unfolding tinv_def by simp
qed

lemma pop_read_inv:
  assumes "tinv n xs q thr" "thr i = PopRead k"
  shows "tinv n xs (set_data (k mod n) None q) (thr(i := PopStore (c_data (m_buffer q ! (k mod n))) k))"
proof -
  note i = tinvD [OF assms(1)] and n = set_nth(1) [OF tinv_lt [OF assms(1)]]
  let ?q = "set_data (k mod n) None q" and ?p = "PopStore (c_data (m_buffer q ! (k mod n))) k"
  have own: "k < m_dequeue_pos q" "m_enqueue_pos q \<le> k + n" "sequence (m_buffer q ! (k mod n)) = k + 1"
    "c_data (m_buffer q ! (k mod n)) = Some (xs ! k)" using i(9) [of i] assms(2) by auto
  have th: "thread_ok n xs ?q ((thr(i := ?p)) j)" for j
    using i(9) [of j] own same_pop_ticket [OF assms(1), of i k j] push_or_pop [OF assms(1), of j _ i k] assms(2)
    by (cases "thr j") (auto simp: n)
  have ph: "phase n xs ?q (thr(i := ?p)) u" if u: "m_enqueue_pos q \<le> u" "u < m_enqueue_pos q + n" for u
  proof -
    have t: "pushing ((thr(i := ?p)) j) = pushing (thr j)" "popping ((thr(i := ?p)) j) = popping (thr j)" for j using assms(2) by auto
    have "u = k + n" if "u mod n = k mod n" using mod_window [of u n "k + n"] that u own(1,2) i(5) by simp
    then have "\<not> m_dequeue_pos q + n \<le> u" if "u mod n = k mod n" using that own(1) by simp
    then show ?thesis using i(10) [OF u] unfolding phase_def Let_def t by (auto simp: n)
  qed
  have "alone (\<lambda>j. popping ((thr(i := ?p)) j))" using alone_upd [of popping thr ?p i] i(8) assms(2) by simp
  moreover have "alone (\<lambda>j. pushing ((thr(i := ?p)) j))" using alone_upd [of pushing thr ?p i] i(7) by simp
  ultimately show ?thesis using i(1-6) th ph unfolding tinv_def by simp
qed

lemma pop_store_inv:
  assumes "tinv n xs q thr" "thr i = PopStore d k"
  shows "tinv n xs (set_sequence (k mod n) (k + n) q) (thr(i := Popped (Some d)))"
proof -
  note i = tinvD [OF assms(1)] and n = set_nth(2) [OF tinv_lt [OF assms(1)]]
  let ?q = "set_sequence (k mod n) (k + n) q" and ?t = "thr(i := Popped (Some d))"
  have own: "k < m_dequeue_pos q" "m_enqueue_pos q \<le> k + n" "sequence (m_buffer q ! (k mod n)) = k + 1"
    using i(9) [of i] assms(2) by auto
  have th: "thread_ok n xs ?q (?t j)" for j
    using i(9) [of j] own same_pop_ticket [OF assms(1), of i k j] push_or_pop [OF assms(1), of j _ i k] assms(2)
      mod_Suc_ne [OF i(1), of k]
    by (cases "thr j") (auto simp: n)
  have ph: "phase n xs ?q ?t u" if u: "m_enqueue_pos q \<le> u" "u < m_enqueue_pos q + n" for u
  proof (cases "u mod n = k mod n")
    case True
    then have "u = k + n" using mod_window [of u n "k + n"] u own(1,2) i(5) by simp
    then show ?thesis using own by (auto simp: phase_def Let_def n)
  next
    case False
    then have ne: "u - n \<noteq> k" if "n \<le> u" using that by (auto simp: le_mod_geq)
    have "n \<le> u \<Longrightarrow> (\<exists>j. popping (thr j) = Some (u - n)) \<Longrightarrow> (\<exists>j. popping (?t j) = Some (u - n))"
      "(\<exists>j. pushing (thr j) = Some (u - n)) \<Longrightarrow> (\<exists>j. pushing (?t j) = Some (u - n))"
      by (rule owner_kept; use ne in \<open>force simp: assms(2)\<close>)+
    with i(10) [OF u] False show ?thesis unfolding phase_def Let_def by (elim disjE) (auto simp: n)
  qed
  have "alone (\<lambda>j. pushing (?t j))" using alone_upd [of pushing thr "Popped (Some d)" i] i(7) by simp
  moreover have "alone (\<lambda>j. popping (?t j))" using alone_upd [of popping thr "Popped (Some d)" i] i(8) by simp
  ultimately show ?thesis using i(1-6) th ph unfolding tinv_def by simp
qed

lemma tstep_inv:
  assumes "tinv n xs q thr" "tstep weak (thr i) q = (p, q', e)"
  shows "tinv n (xs @ pushes e) q' (thr(i := p))"
proof -
  note d = tinvD [OF assms(1)]
  have n: "k + m_buffer_mask q + 1 = k + n" for k using d(1,3) by simp
  show ?thesis
  proof (cases "thr i")
    case (PushCas v pos)
    show ?thesis
    proof (cases "m_enqueue_pos q = pos \<and> \<not> weak")
      case True
      with PushCas assms show ?thesis using push_cas_inv [OF assms(1), of i v] by auto
    next
      case False
      with PushCas assms show ?thesis by (auto intro!: tinv_local)
    qed
  next
    case (PushWrite v k)
    with assms show ?thesis using push_write_inv [OF assms(1) PushWrite] by (simp add: d(11))
  next
    case (PushStore k)
    with assms show ?thesis using push_store_inv [OF assms(1) PushStore] by (simp add: d(11))
  next
    case (PopCas pos)
    show ?thesis
    proof (cases "m_dequeue_pos q = pos \<and> \<not> weak")
      case True
      with PopCas assms show ?thesis using pop_cas_inv [OF assms(1), of i] by auto
    next
      case False
      with PopCas assms show ?thesis by (auto intro!: tinv_local)
    qed
  next
    case (PopRead k)
    with assms show ?thesis using pop_read_inv [OF assms(1) PopRead] by (simp add: d(11))
  next
    case (PopStore v k)
    with assms show ?thesis using pop_store_inv [OF assms(1) PopStore] n [of k] by (auto simp: d(11))
  next
    case (Pushed b)
    then have "p = thr i" "q' = q" "e = []" using assms(2) by simp_all
    with assms(1) show ?thesis by simp
  next
    case (Popped r)
    then have "p = thr i" "q' = q" "e = []" using assms(2) by simp_all
    with assms(1) show ?thesis by simp
  qed (use assms d(9) [of i] in \<open>auto simp: d(11) Let_def split: if_splits intro!: tinv_local\<close>)
qed

end
