(* ===== verification/Mpmc_Correct.thy ===== *)
theory Mpmc_Correct
  imports Mpmc_Ticket
begin

text \<open>
  The bounded queue of the source against the ticket machine: as long as fewer than \<open>2 ^ 63\<close> minus its size elements have been
  pushed, no position wraps and each step is a step of the ticket machine. From its invariant follow the order of the
  elements, the exclusive use of the cells, the meaning of a refusal and the end of every call.
\<close>

unbundle bit_operations_syntax

section \<open>Steps of the source are steps on tickets\<close>

definition emb_cell :: "(nat, 'a) Cell \<Rightarrow> (size_t, 'a) Cell" where
  "emb_cell c = \<lparr>sequence = of_nat (sequence c), c_data = c_data c\<rparr>"

definition emb :: "(nat, 'a) MPMC \<Rightarrow> (size_t, 'a) MPMC" where
  "emb q = \<lparr>m_buffer = map emb_cell (m_buffer q), m_buffer_mask = of_nat (m_buffer_mask q),
     m_enqueue_pos = of_nat (m_enqueue_pos q), m_dequeue_pos = of_nat (m_dequeue_pos q)\<rparr>"

abbreviation emb_pc :: "(nat, 'a) pc \<Rightarrow> (size_t, 'a) pc" where
  "emb_pc \<equiv> map_pc of_nat id"

lemma emb_simps [simp]:
  "m_buffer_mask (emb q) = of_nat (m_buffer_mask q)" "m_enqueue_pos (emb q) = of_nat (m_enqueue_pos q)"
  "m_dequeue_pos (emb q) = of_nat (m_dequeue_pos q)"
  "sequence (emb_cell c) = of_nat (sequence c)" "c_data (emb_cell c) = c_data c"
  "j < length (m_buffer q) \<Longrightarrow> m_buffer (emb q) ! j = emb_cell (m_buffer q ! j)"
  by (simp_all add: emb_def emb_cell_def)

lemma emb_set:
  "emb (set_data c d q) = set_data c d (emb q)" "emb (set_sequence c s q) = set_sequence c (of_nat s) (emb q)"
  by (cases "c < length (m_buffer q)"; simp add: emb_def set_data_def set_sequence_def map_update emb_cell_def list_update_beyond)+

lemma emb_pos:
  "emb (q\<lparr>m_enqueue_pos := e\<rparr>) = (emb q)\<lparr>m_enqueue_pos := of_nat e\<rparr>"
  "emb (q\<lparr>m_dequeue_pos := e\<rparr>) = (emb q)\<lparr>m_dequeue_pos := of_nat e\<rparr>"
  by (simp_all add: emb_def)

lemma emb_owner:
  "popping (emb_pc x) = map_option of_nat (popping x)" "pushing (emb_pc x) = map_option of_nat (pushing x)"
  by (cases x; simp)+

lemma sint_small: "k < 2 ^ 63 \<Longrightarrow> sint (of_nat k :: size_t) = int k"
  by (simp add: signed_of_nat signed_take_bit_int_eq_self)

lemma small_eq: "i < 2 ^ 63 \<Longrightarrow> j < 2 ^ 63 \<Longrightarrow> (of_nat i :: size_t) = of_nat j \<longleftrightarrow> i = j"
  by (metis sint_small of_nat_eq_iff)

lemma cell_emb:
  assumes "m_buffer_mask q = 2 ^ k - 1" "k < 64"
  shows "cell_of (of_nat pos) (emb q) = pos mod 2 ^ k"
proof -
  have "(of_nat (2 ^ k - 1) :: size_t) = mask k" by (simp add: mask_eq_exp_minus_1 of_nat_diff)
  then have "cell_of (of_nat pos) (emb q) = unat (take_bit k (of_nat pos :: size_t))"
    using assms(1) by (simp add: cell_of_def flip: take_bit_eq_mask)
  also have "\<dots> = take_bit k (pos mod 2 ^ 64)" by (simp add: unsigned_take_bit_eq unat_of_nat)
  also have "\<dots> = pos mod 2 ^ k"
    unfolding take_bit_eq_mod using assms(2) by (intro mod_mod_cancel le_imp_power_dvd) simp
  finally show ?thesis .
qed

text \<open>Every position and every sequence stays below the bound.\<close>

lemma tinv_sequence:
  assumes "tinv n xs q thr" "c < n"
  shows "sequence (m_buffer q ! c) < m_enqueue_pos q + n"
proof -
  let ?E = "m_enqueue_pos q"
  have n: "0 < n" using assms(2) by simp
  obtain u where u: "u mod n = c" "?E \<le> u" "u < ?E + n"
  proof
    let ?u = "?E + (n + c - ?E mod n) mod n"
    have "?E mod n \<le> n + c" using n by (meson less_imp_le_nat mod_less_divisor trans_le_add1)
    then have "(?E mod n + (n + c - ?E mod n)) mod n = c" using assms(2) by simp
    then show "?u mod n = c" by (simp add: mod_simps)
    show "?E \<le> ?u" "?u < ?E + n" using n by simp_all
  qed
  with tinvD(1) [OF assms(1)] tinvD(10) [OF assms(1) u(2,3)] show ?thesis unfolding phase_def Let_def by auto
qed

lemma step_emb:
  assumes "tinv n xs q thr" "n = 2 ^ k" "m_enqueue_pos q + n < 2 ^ 63" "tstep weak (thr i) q = (p, q', e)"
  shows "call_step weak (emb_pc (thr i)) (emb q) = (emb_pc p, emb q', e)"
proof -
  note d = tinvD [OF assms(1)]
  have k: "k < 63"
  proof (rule ccontr)
    assume "\<not> k < 63"
    then have "(2 :: nat) ^ 63 \<le> 2 ^ k" by (intro power_increasing) simp_all
    with assms(2,3) show False by linarith
  qed
  have cell: "cell_of (of_nat pos) (emb q) = pos mod n" "pos mod n < length (m_buffer q)" for pos
    using cell_emb [of q k pos] k d(1-3) assms(2) by simp_all
  have seq: "sint (of_nat (sequence (m_buffer q ! (pos mod n))) :: size_t) = int (sequence (m_buffer q ! (pos mod n)))" for pos
    using tinv_sequence [OF assms(1), of "pos mod n"] assms(3) d(1) by (intro sint_small) simp
  obtain P where P: "thr i = P" by simp
  have pos: "thread_ok n xs q P" using d(9) [of i] P by simp
  have st: "tstep weak P q = (p, q', e)" using assms(4) P by simp
  note s = P call_step_def is_push_def cell d(11) seq emb_set emb_pos
  show ?thesis
  proof (cases P)
    case (PushSeq v j)
    with pos have "sint (of_nat j :: size_t) = int j" using assms(3) by (intro sint_small) simp
    with st PushSeq show ?thesis by (auto simp: s Let_def split: if_splits)
  next
    case (PopSeq j)
    with pos have "j + 1 < 2 ^ 63" using assms(3) d(1,5) by simp
    then have "sint (of_nat j + 1 :: size_t) = int j + 1" using sint_small [of "Suc j"] by (simp add: add.commute)
    with st PopSeq show ?thesis by (auto simp: s Let_def split: if_splits)
  next
    case (PushCas v j)
    with pos have "(of_nat (m_enqueue_pos q) :: size_t) = of_nat j \<longleftrightarrow> m_enqueue_pos q = j" using assms(3) by (intro small_eq) auto
    with st PushCas show ?thesis by (auto simp: s split: if_splits)
  next
    case (PopCas j)
    with pos have "(of_nat (m_dequeue_pos q) :: size_t) = of_nat j \<longleftrightarrow> m_dequeue_pos q = j" using assms(3) d(5) by (intro small_eq) auto
    with st PopCas show ?thesis by (auto simp: s split: if_splits)
  qed (use st in \<open>auto simp: s add.commute option.map_id\<close>)
qed

text \<open>The exchanges are those of the abstract queue.\<close>

lemma tstep_fifo:
  assumes "tinv n xs q thr" "tstep weak (thr i) q = (p, q', e)"
  shows "fifo n e (drop (m_dequeue_pos q) xs) = Some (drop (m_dequeue_pos q') (xs @ pushes e)) \<and>
    m_dequeue_pos q' = m_dequeue_pos q + length (pops e) \<and> m_dequeue_pos q + length (pops e) \<le> length xs \<and>
    (\<forall>j < length (pops e). pops e ! j = Some (xs ! (m_dequeue_pos q + j)))"
proof -
  note d = tinvD [OF assms(1)]
  have c: "thr i = PushCas v (m_enqueue_pos q) \<Longrightarrow> length (drop (m_dequeue_pos q) xs) < n" for v
    using free_cell [OF assms(1)] d(1,4) d(9) [of i] by auto
  have "thr i = PopCas (m_dequeue_pos q) \<Longrightarrow> drop (m_dequeue_pos q) xs = xs ! m_dequeue_pos q # drop (Suc (m_dequeue_pos q)) xs"
    using full_cell(1) [OF assms(1)] d(4) d(9) [of i] by (intro Cons_nth_drop_Suc [symmetric]) auto
  moreover have "thr i = PopCas (m_dequeue_pos q) \<Longrightarrow> c_data (m_buffer q ! (m_dequeue_pos q mod n)) = Some (xs ! m_dequeue_pos q)"
    using full_cell(2) [OF assms(1)] d(9) [of i] by auto
  moreover have "thr i = PopCas (m_dequeue_pos q) \<Longrightarrow> Suc (m_dequeue_pos q) \<le> length xs"
    using full_cell(1) [OF assms(1)] d(4) d(9) [of i] by auto
  ultimately show ?thesis using assms(2) c d(4,5)
    by (cases "thr i") (auto simp: d(11) Let_def less_diff_conv2 split: if_splits)
qed

section \<open>Runs\<close>

lemma pow2_nat: "n AND (n - 1) = 0 \<Longrightarrow> 0 < n \<Longrightarrow> \<exists>k. n = 2 ^ k" for n :: nat
proof (induction n rule: less_induct)
  case (less n)
  show ?case
  proof (cases "even n")
    case True
    then obtain m where m: "n = 2 * m" by blast
    then have "(2 * m) AND (2 * (m - 1) + 1) = 0" using less.prems by (cases m) simp_all
    then have "m AND (m - 1) = 0" using and_nat_unfold [of "2 * m" "2 * (m - 1) + 1"] by (auto split: if_splits)
    then obtain k where "m = 2 ^ k" using less.IH [of m] m less.prems(2) by auto
    then show ?thesis using m by (intro exI [of _ "Suc k"]) simp
  next
    case False
    then obtain m where m: "n = 2 * m + 1" by (blast elim: oddE)
    then have "(2 * m + 1) AND (2 * m) = 0" using less.prems by simp
    then have "m = 0" using and_nat_unfold [of "2 * m + 1" "2 * m"] by (auto split: if_splits)
    then show ?thesis using m by (intro exI [of _ 0]) simp
  qed
qed

lemma mpmc_new_some:
  assumes "mpmc_new sz = Inr q0"
  obtains k where "unat sz = 2 ^ k" "2 \<le> unat sz"
    "q0 = emb \<lparr>m_buffer = map (\<lambda>i. \<lparr>sequence = i, c_data = None\<rparr>) [0..<unat sz], m_buffer_mask = unat sz - 1,
       m_enqueue_pos = 0, m_dequeue_pos = 0\<rparr>"
proof -
  have a: "2 \<le> sz" "sz AND (sz - 1) = 0" using assms by (auto simp: mpmc_new_def Let_def split: if_splits)
  have u: "2 \<le> unat sz" using a(1) by (simp add: word_le_nat_alt)
  then have m: "unat (sz - 1) = unat sz - 1" by (intro unat_minus_one) auto
  have "unat sz AND (unat sz - 1) = unat (sz AND (sz - 1))" by (simp add: unsigned_and_eq m)
  then have "unat sz AND (unat sz - 1) = 0" using a(2) by simp
  from pow2_nat [OF this] u obtain k where k: "unat sz = 2 ^ k" by auto
  have "of_nat (unat sz - 1) = sz - 1" unfolding m [symmetric] by simp
  then have "q0 = emb \<lparr>m_buffer = map (\<lambda>i. \<lparr>sequence = i, c_data = None\<rparr>) [0..<unat sz], m_buffer_mask = unat sz - 1,
       m_enqueue_pos = 0, m_dequeue_pos = 0\<rparr>"
    using assms a by (auto simp: mpmc_new_def emb_def emb_cell_def comp_def)
  with k u show thesis by (rule that)
qed

lemma tinv_start:
  assumes "2 \<le> n"
  shows "tinv n [] \<lparr>m_buffer = map (\<lambda>i. \<lparr>sequence = i, c_data = None\<rparr>) [0..<n], m_buffer_mask = n - 1,
       m_enqueue_pos = 0, m_dequeue_pos = 0\<rparr> (\<lambda>_. Idle)"
  using assms by (auto simp: tinv_def alone_def phase_def)

lemma mpmc_run_tickets:
  assumes "mpmc_run q0 es q thr" "mpmc_new sz = Inr q0" "length (pushes es) + unat sz < 2 ^ 63"
  obtains tq tthr where "tinv (unat sz) (pushes es) tq tthr" "q = emb tq" "thr = (\<lambda>i. emb_pc (tthr i))"
    "fifo (unat sz) es [] = Some (drop (m_dequeue_pos tq) (pushes es))" "m_dequeue_pos tq = length (pops es)"
    "\<forall>j < length (pops es). pops es ! j = Some (pushes es ! j)"
proof -
  let ?n = "unat sz"
  obtain k where k: "?n = 2 ^ k" "2 \<le> ?n" using mpmc_new_some [OF assms(2)] by metis
  let ?P = "\<lambda>es q thr tq tthr. tinv ?n (pushes es) tq tthr \<and> q = emb tq \<and> thr = (\<lambda>i. emb_pc (tthr i)) \<and>
    fifo ?n es [] = Some (drop (m_dequeue_pos tq) (pushes es)) \<and> m_dequeue_pos tq = length (pops es) \<and>
    (\<forall>j < length (pops es). pops es ! j = Some (pushes es ! j))"
  have "\<exists>tq tthr. ?P es q thr tq tthr" using assms(1,3)
  proof (induction rule: mpmc_run.induct)
    case start
    obtain q where "q0 = emb q" "tinv ?n [] q (\<lambda>_. Idle)" "m_dequeue_pos q = 0"
      using mpmc_new_some [OF assms(2)] tinv_start [OF k(2)] by (metis MPMC.select_convs(4))
    then have "?P [] q0 (\<lambda>_. Idle) q (\<lambda>_. Idle)" by simp
    then show ?case by blast
  next
    case (call_push es q thr i v)
    then obtain tq tthr where p: "?P es q thr tq tthr" by blast
    have "pushing (tthr i) = None" "popping (tthr i) = None"
      using call_push.hyps(2) p by (cases "tthr i"; simp add: at_rest_def)+
    then have "?P es q (thr(i := PushLoad v)) tq (tthr(i := PushLoad v))" using p by (auto intro!: tinv_local)
    then show ?case by blast
  next
    case (call_pop es q thr i)
    then obtain tq tthr where p: "?P es q thr tq tthr" by blast
    have "pushing (tthr i) = None" "popping (tthr i) = None"
      using call_pop.hyps(2) p by (cases "tthr i"; simp add: at_rest_def)+
    then have "?P es q (thr(i := PopLoad)) tq (tthr(i := PopLoad))" using p by (auto intro!: tinv_local)
    then show ?case by blast
  next
    case (step es q thr weak i p q' e)
    then have b: "length (pushes es) + ?n < 2 ^ 63" by simp
    with step.IH obtain tq tthr where p: "?P es q thr tq tthr" by blast
    obtain tp tq' te where t: "tstep weak (tthr i) tq = (tp, tq', te)" by (cases "tstep weak (tthr i) tq")
    have "m_enqueue_pos tq + ?n < 2 ^ 63" using b p tinvD(4) by metis
    then have e: "p = emb_pc tp" "q' = emb tq'" "e = te"
      using step_emb [where thr = tthr and i = i and q = tq, OF _ k(1) _ t] p step.hyps(2) by auto
    have ti: "tinv ?n (pushes es) tq tthr" using p by blast
    note f = tstep_fifo [OF ti t] and i = tstep_inv [OF ti t]
    have "pops (es @ te) ! j = Some (pushes (es @ te) ! j)" if "j < length (pops (es @ te))" for j
      using that p f tinvD(4,5) [OF ti] by (cases "j < length (pops es)") (auto simp: nth_append dest!: spec [of _ "j - length (pops es)"])
    then have "?P (es @ te) q' (thr(i := p)) tq' (tthr(i := tp))" using p f i e by (auto simp: fifo_append)
    then show ?case using e by blast
  qed
  with that show thesis by blast
qed

section \<open>Calls that run alone\<close>

text \<open>\<open>alone_run k p q\<close> runs \<open>k\<close> steps of one call with no step of another thread in between and no spurious failure.\<close>

primrec alone_run :: "nat \<Rightarrow> (size_t, 'a) pc \<Rightarrow> (size_t, 'a) MPMC \<Rightarrow> (size_t, 'a) pc \<times> (size_t, 'a) MPMC" where
  "alone_run 0 p q = (p, q)"
| "alone_run (Suc k) p q = (case call_step False p q of (p', q', _) \<Rightarrow> alone_run k p' q')"

fun rank :: "(nat, 'a) MPMC \<Rightarrow> (nat, 'a) pc \<Rightarrow> nat" where
  "rank q (PushLoad v) = 5"
| "rank q (PushSeq v pos) = (if pos = m_enqueue_pos q then 4 else 6)"
| "rank q (PushCas v pos) = (if pos = m_enqueue_pos q then 3 else 5)"
| "rank q (PushWrite v pos) = 2"
| "rank q (PushStore pos) = 1"
| "rank q PopLoad = 5"
| "rank q (PopSeq pos) = (if pos = m_dequeue_pos q then 4 else 6)"
| "rank q (PopCas pos) = (if pos = m_dequeue_pos q then 3 else 5)"
| "rank q (PopRead pos) = 2"
| "rank q (PopStore d pos) = 1"
| "rank q _ = 0"

lemma rank_zero: "rank q p = 0 \<longleftrightarrow> at_rest p"
  by (cases p) (auto simp: at_rest_def)

lemma sequence_le:
  assumes "tinv n xs q thr"
  shows "sequence (m_buffer q ! (m_enqueue_pos q mod n)) \<le> m_enqueue_pos q"
    "sequence (m_buffer q ! (m_dequeue_pos q mod n)) \<le> m_dequeue_pos q + 1"
proof -
  note d = tinvD [OF assms]
  show "sequence (m_buffer q ! (m_enqueue_pos q mod n)) \<le> m_enqueue_pos q"
    using d(10) [of "m_enqueue_pos q"] d(1) by (auto simp: phase_def Let_def)
  have "phase n xs q thr (if m_dequeue_pos q = m_enqueue_pos q then m_enqueue_pos q else m_dequeue_pos q + n)"
    using d(1,5,6,10) by simp
  then show "sequence (m_buffer q ! (m_dequeue_pos q mod n)) \<le> m_dequeue_pos q + 1"
    using d(1) by (auto simp: phase_def Let_def split: if_splits)
qed

lemma rank_decreases:
  assumes "tinv n xs q thr" "tstep False P q = (p, q', e)" "\<not> at_rest P"
  shows "rank q' p < rank q P" "m_enqueue_pos q' + rank q' p \<le> m_enqueue_pos q + rank q P"
  using assms(2,3) sequence_le [OF assms(1)] tinvD(11) [OF assms(1)]
  by (cases P; auto simp: Let_def at_rest_def split: if_splits)+

lemma alone_ends_aux:
  assumes "tinv n xs q thr" "n = 2 ^ k" "m_enqueue_pos q + rank q (thr i) + n < 2 ^ 63"
  shows "\<exists>j \<le> rank q (thr i). at_rest (fst (alone_run j (emb_pc (thr i)) (emb q)))"
  using assms(1,3)
proof (induction "rank q (thr i)" arbitrary: q thr xs rule: less_induct)
  case less
  show ?case
  proof (cases "at_rest (thr i)")
    case True
    then have "at_rest (emb_pc (thr i))" by (cases "thr i") (simp_all add: at_rest_def)
    then show ?thesis by (intro exI [of _ 0]) simp
  next
    case False
    obtain p q' e where t: "tstep False (thr i) q = (p, q', e)" by (cases "tstep False (thr i) q")
    note r = rank_decreases [OF less.prems(1) t False]
    have "call_step False (emb_pc (thr i)) (emb q) = (emb_pc p, emb q', e)"
      by (rule step_emb [OF less.prems(1) assms(2) _ t]) (use less.prems(2) in simp)
    moreover obtain j where "j \<le> rank q' p" "at_rest (fst (alone_run j (emb_pc p) (emb q')))"
      using less.hyps [OF _ tstep_inv [OF less.prems(1) t]] r less.prems(2) by auto
    ultimately show ?thesis using r(1) by (intro exI [of _ "Suc j"]) simp
  qed
qed

section \<open>Refused calls\<close>

lemma ticket_of_cell:
  assumes "tinv n xs q thr" "pos < m_enqueue_pos q"
  obtains u where "u mod n = pos mod n" "pos + n \<le> u" "m_enqueue_pos q \<le> u" "u < m_enqueue_pos q + n" "phase n xs q thr u"
proof -
  note d = tinvD [OF assms(1)]
  let ?E = "m_enqueue_pos q"
  let ?u = "?E + (n + pos mod n - ?E mod n) mod n"
  have n: "0 < n" using d(1) by simp
  have "?E mod n \<le> n + pos mod n" using n by (meson less_imp_le_nat mod_less_divisor trans_le_add1)
  then have "(?E mod n + (n + pos mod n - ?E mod n)) mod n = pos mod n" by simp
  then have u: "?u mod n = pos mod n" by (simp add: mod_simps)
  have "pos < ?u" using assms(2) by simp
  then have "pos + n \<le> ?u" using mod_window_le [of pos n ?u] u by (cases "?u < pos + n") simp_all
  moreover have "?u < ?E + n" using n by simp
  ultimately show thesis using that [OF u] d(10) [of ?u] by simp
qed

lemma refusal_aux:
  assumes "tinv n xs q thr" "tstep weak (thr i) q = (p, q', e)" "\<not> at_rest (thr i)"
  shows "p = Pushed False \<Longrightarrow> m_enqueue_pos q = m_dequeue_pos q + n \<or> (\<exists>j. popping (thr j) \<noteq> None)"
    "p = Popped None \<Longrightarrow> m_enqueue_pos q = m_dequeue_pos q \<or> (\<exists>j. pushing (thr j) \<noteq> None)"
proof -
  note d = tinvD [OF assms(1)]
  have pos: "thread_ok n xs q (thr i)" by (rule d(9))
  show "m_enqueue_pos q = m_dequeue_pos q + n \<or> (\<exists>j. popping (thr j) \<noteq> None)" if r: "p = Pushed False"
  proof -
    obtain v k where k: "thr i = PushSeq v k" "sequence (m_buffer q ! (k mod n)) < k"
      using assms(2,3) r by (cases "thr i") (auto simp: at_rest_def d(11) Let_def split: if_splits)
    have "k = m_enqueue_pos q"
    proof (rule ccontr)
      assume "k \<noteq> m_enqueue_pos q"
      then have "k < m_enqueue_pos q" using pos k(1) by simp
      then obtain u where "u mod n = k mod n" "k + n \<le> u" "phase n xs q thr u" by (rule ticket_of_cell [OF assms(1)])
      with k(2) show False by (auto simp: phase_def Let_def)
    qed
    with k(2) d(10) [of k] d(1,6) show ?thesis by (auto simp: phase_def Let_def)
  qed
  show "m_enqueue_pos q = m_dequeue_pos q \<or> (\<exists>j. pushing (thr j) \<noteq> None)" if r: "p = Popped None"
  proof -
    obtain k where k: "thr i = PopSeq k" "sequence (m_buffer q ! (k mod n)) \<le> k"
      using assms(2,3) r by (cases "thr i") (auto simp: at_rest_def d(11) Let_def split: if_splits)
    show ?thesis
    proof (cases "k < m_enqueue_pos q")
      case True
      then obtain u where "u mod n = k mod n" "k + n \<le> u" "phase n xs q thr u" by (rule ticket_of_cell [OF assms(1)])
      with k(2) d(1) show ?thesis by (auto simp: phase_def Let_def)
    next
      case False
      then show ?thesis using pos k(1) d(5) by simp
    qed
  qed
qed

section \<open>Scheduled runs\<close>

text \<open>A mpmc_schedule names the threads that make a step, in their order; it gives concrete runs.\<close>

datatype 'a turn = Push nat 'a | Pop nat | Step nat

fun mpmc_schedule :: "'a turn list \<Rightarrow> 'a event list \<times> (size_t, 'a) MPMC \<times> (nat \<Rightarrow> (size_t, 'a) pc)
    \<Rightarrow> ('a event list \<times> (size_t, 'a) MPMC \<times> (nat \<Rightarrow> (size_t, 'a) pc)) option" where
  "mpmc_schedule [] s = Some s"
| "mpmc_schedule (Push i v # ts) (es, q, thr) = (if at_rest (thr i) then mpmc_schedule ts (es, q, thr(i := PushLoad v)) else None)"
| "mpmc_schedule (Pop i # ts) (es, q, thr) = (if at_rest (thr i) then mpmc_schedule ts (es, q, thr(i := PopLoad)) else None)"
| "mpmc_schedule (Step i # ts) (es, q, thr) =
    (case call_step False (thr i) q of (p, q', e) \<Rightarrow> mpmc_schedule ts (es @ e, q', thr(i := p)))"

lemma mpmc_schedule_run:
  "mpmc_schedule ts s = Some (es', q', thr') \<Longrightarrow> s = (es, q, thr) \<Longrightarrow> mpmc_run q0 es q thr \<Longrightarrow> mpmc_run q0 es' q' thr'"
  by (induction ts s arbitrary: es q thr rule: mpmc_schedule.induct)
    (auto split: if_splits prod.splits intro: call_push call_pop step)

definition demo_queue :: "(size_t, nat) MPMC" where
  "demo_queue = \<lparr>m_buffer = [\<lparr>sequence = 0, c_data = None\<rparr>, \<lparr>sequence = 1, c_data = None\<rparr>], m_buffer_mask = 1,
     m_enqueue_pos = 0, m_dequeue_pos = 0\<rparr>"

lemma demo_queue_new: "mpmc_new 2 = Inr demo_queue"
  by (simp add: mpmc_new_def demo_queue_def upt_rec)

definition demo_turns :: "nat turn list" where
  "demo_turns = [Push 0 7, Push 1 8, Step 0, Step 1, Step 0, Step 1, Step 0, Step 1, Step 1, Step 1]"

definition demo_mid :: "nat event list \<times> (size_t, nat) MPMC \<times> (nat \<Rightarrow> (size_t, nat) pc)" where
  "demo_mid = the (mpmc_schedule demo_turns ([], demo_queue, \<lambda>_. Idle))"

definition demo_late :: "nat event list \<times> (size_t, nat) MPMC \<times> (nat \<Rightarrow> (size_t, nat) pc)" where
  "demo_late = the (mpmc_schedule [Step 0, Step 0, Pop 2, Step 2, Step 2, Step 2, Step 2, Pop 3, Step 3] demo_mid)"

lemma demo_eval:
  "mpmc_schedule demo_turns ([], demo_queue, \<lambda>_. Idle) \<noteq> None"
  "mpmc_schedule [Step 0, Step 0, Pop 2, Step 2, Step 2, Step 2, Step 2, Pop 3, Step 3] demo_mid \<noteq> None"
  "fst demo_mid = [EPush 7, EPush 8]" "snd (snd demo_mid) 0 = PushWrite 7 0" "snd (snd demo_mid) 1 = PushWrite 8 1"
  "fst demo_late = [EPush 7, EPush 8, EPop (Some 7)]" "snd (snd demo_late) 2 = PopStore (Some 7) 0"
  by code_simp+

lemma demo_runs:
  "mpmc_run demo_queue (fst demo_mid) (fst (snd demo_mid)) (snd (snd demo_mid))"
  "mpmc_run demo_queue (fst demo_late) (fst (snd demo_late)) (snd (snd demo_late))"
proof -
  show m: "mpmc_run demo_queue (fst demo_mid) (fst (snd demo_mid)) (snd (snd demo_mid))"
    using demo_eval(1) by (intro mpmc_schedule_run [OF _ refl start]) (auto simp: demo_mid_def)
  show "mpmc_run demo_queue (fst demo_late) (fst (snd demo_late)) (snd (snd demo_late))"
    using demo_eval(2) by (intro mpmc_schedule_run [OF _ _ m]) (auto simp: demo_late_def)
qed

section \<open>Properties\<close>

text \<open>
  C15. First in, first out. Whatever the interleaving of any number of threads, the exchanges that succeeded are, in their
  order, a history of a bounded first in, first out queue of the given size; a pop that has taken its value holds the
  one its exchange stands for; no two threads hold the same ticket.
\<close>

theorem mpmc_fifo:
  assumes "mpmc_new sz = Inr q0" "mpmc_run q0 es q thr" "length (pushes es) + unat sz < 2 ^ 63"
  shows "\<exists>xs. fifo (unat sz) es [] = Some xs \<and> pushes es = map the (pops es) @ xs \<and> length xs \<le> unat sz \<and>
    (\<forall>i d pos. thr i = PopStore d pos \<longrightarrow> unat pos < length (pops es) \<and> d = pops es ! unat pos) \<and>
    (\<forall>i j pos. popping (thr i) = Some pos \<and> popping (thr j) = Some pos \<longrightarrow> i = j)"
proof -
  obtain tq tthr where t: "tinv (unat sz) (pushes es) tq tthr" "q = emb tq" "thr = (\<lambda>i. emb_pc (tthr i))"
    "fifo (unat sz) es [] = Some (drop (m_dequeue_pos tq) (pushes es))" "m_dequeue_pos tq = length (pops es)"
    "\<forall>j < length (pops es). pops es ! j = Some (pushes es ! j)"
    by (rule mpmc_run_tickets [OF assms(2,1,3)])
  note d = tinvD [OF t(1)]
  have "map the (pops es) = take (length (pops es)) (pushes es)" using t(5,6) d(4,5) by (auto intro!: nth_equalityI)
  then have "pushes es = map the (pops es) @ drop (m_dequeue_pos tq) (pushes es)" by (simp add: t(5))
  moreover have "unat pos < length (pops es) \<and> d = pops es ! unat pos" if held: "thr i = PopStore d pos" for i d pos
  proof -
    obtain k where k: "tthr i = PopStore d k" "pos = of_nat k" using held t(3) by (cases "tthr i") (auto simp: option.map_id)
    with d(9) [of i] have "k < length (pops es)" "d = Some (pushes es ! k)" by (auto simp: t(5))
    moreover have "unat pos = k" using k(2) \<open>k < length (pops es)\<close> assms(3) d(4,5) t(5) by (simp add: unat_of_nat)
    ultimately show ?thesis using t(6) by simp
  qed
  moreover have "i = j" if p: "popping (thr i) = Some pos" "popping (thr j) = Some pos" for i j pos
  proof -
    have low: "k < 2 ^ 63" if "popping (tthr i) = Some k" for i k
      using that d(9) [of i] assms(3) d(4,5) by (cases "tthr i") auto
    obtain k l where "popping (tthr i) = Some k" "popping (tthr j) = Some l" "of_nat k = pos" "of_nat l = pos"
      using p t(3) by (auto simp: emb_owner)
    moreover from this have "k < 2 ^ 63" "l < 2 ^ 63" using low by blast+
    moreover from calculation have "k = l" using small_eq [of k l] by simp
    ultimately show ?thesis using d(8) unfolding alone_def by blast
  qed
  ultimately show ?thesis using t(4) d(4,6) by (intro exI [of _ "drop (m_dequeue_pos tq) (pushes es)"]) auto
qed

theorem mpmc_fifo_witness:
  "fifo 2 (fst demo_late) [] = Some [8] \<and> snd (snd demo_late) 2 = PopStore (pops (fst demo_late) ! 0) 0"
proof -
  have "length (pushes (fst demo_late)) = 2" "unat (2 :: size_t) = 2" by (simp_all add: demo_eval)
  then have b: "length (pushes (fst demo_late)) + unat (2 :: size_t) < 2 ^ 63" by (simp only:) simp
  from mpmc_fifo [OF demo_queue_new demo_runs(2) b] obtain xs
    where xs: "fifo (unat (2 :: size_t)) (fst demo_late) [] = Some xs" "pushes (fst demo_late) = map the (pops (fst demo_late)) @ xs"
      and p: "\<forall>i d pos. snd (snd demo_late) i = PopStore d pos \<longrightarrow> unat pos < length (pops (fst demo_late)) \<and>
        d = pops (fst demo_late) ! unat pos" by (elim exE conjE)
  have "pops (fst demo_late) ! unat (0 :: size_t) = Some 7" by (rule p [rule_format, OF demo_eval(7), THEN conjunct2, symmetric])
  with xs demo_eval(6,7) show ?thesis by simp
qed

text \<open>
  No two threads use a cell at once: whenever two threads are between their exchange and the store of the sequence
  number, which is where they access the data of a cell, they are at different cells.
\<close>

theorem mpmc_exclusive:
  assumes "mpmc_new sz = Inr q0" "mpmc_run q0 es q thr" "length (pushes es) + unat sz < 2 ^ 63"
    and "i \<noteq> j" "Some k \<in> {pushing (thr i), popping (thr i)}" "Some l \<in> {pushing (thr j), popping (thr j)}"
  shows "cell_of k q \<noteq> cell_of l q"
proof -
  obtain m where m: "unat sz = 2 ^ m" "2 \<le> unat sz" using mpmc_new_some [OF assms(1)] by metis
  obtain tq tthr where t: "tinv (unat sz) (pushes es) tq tthr" "q = emb tq" "thr = (\<lambda>i. emb_pc (tthr i))"
    by (rule mpmc_run_tickets [OF assms(2,1,3)])
  note d = tinvD [OF t(1)]
  have "unat sz < 2 ^ 64" by (rule order_less_le_trans [OF unsigned_less]) simp
  then have "(2 :: nat) ^ m < 2 ^ 64" by (simp add: m(1))
  then have m64: "m < 64" by (rule power_less_imp_less_exp [rotated]) simp
  have c: "cell_of (of_nat x) q = x mod unat sz" for x using cell_emb [of tq m x] m m64 d(3) t(2) by simp
  obtain k' where k: "k = of_nat k'" "Some k' \<in> {pushing (tthr i), popping (tthr i)}"
    using assms(5) t(3) by (cases "tthr i") auto
  obtain l' where l: "l = of_nat l'" "Some l' \<in> {pushing (tthr j), popping (tthr j)}"
    using assms(6) t(3) by (cases "tthr j") auto
  have "k' mod unat sz \<noteq> l' mod unat sz"
    using same_ticket [OF t(1), of i k' j l'] same_pop_ticket [OF t(1), of i k' j l'] push_or_pop [OF t(1), of i k' j l']
      push_or_pop [OF t(1), of j l' i k'] k(2) l(2) assms(4) by auto
  then show ?thesis by (simp add: k(1) l(1) c)
qed

theorem mpmc_exclusive_witness:
  "cell_of 0 (fst (snd demo_mid)) \<noteq> cell_of 1 (fst (snd demo_mid))"
  by (rule mpmc_exclusive [OF demo_queue_new demo_runs(1), of 0 1]) (simp_all add: demo_eval del: One_nat_def)

text \<open>
  What a refusal means. A push is refused only when the queue holds as many elements as its size or another thread is in the
  middle of a pop; a pop finds nothing only when the queue is empty or another thread is in the middle of a push.
\<close>

theorem mpmc_refusal:
  assumes "mpmc_new sz = Inr q0" "mpmc_run q0 es q thr" "length (pushes es) + unat sz < 2 ^ 63"
    and "call_step weak (thr i) q = (p, q', e)" "\<not> at_rest (thr i)"
  shows "(p = Pushed False \<longrightarrow> (\<exists>xs. fifo (unat sz) es [] = Some xs \<and> length xs = unat sz) \<or> (\<exists>j. popping (thr j) \<noteq> None)) \<and>
    (p = Popped None \<longrightarrow> fifo (unat sz) es [] = Some [] \<or> (\<exists>j. pushing (thr j) \<noteq> None))"
proof -
  obtain m where m: "unat sz = 2 ^ m" using mpmc_new_some [OF assms(1)] by metis
  obtain tq tthr where t: "tinv (unat sz) (pushes es) tq tthr" "q = emb tq" "thr = (\<lambda>i. emb_pc (tthr i))"
    "fifo (unat sz) es [] = Some (drop (m_dequeue_pos tq) (pushes es))"
    by (rule mpmc_run_tickets [OF assms(2,1,3)])
  note d = tinvD [OF t(1)]
  obtain tp tq' te where s: "tstep weak (tthr i) tq = (tp, tq', te)" by (cases "tstep weak (tthr i) tq")
  have "p = emb_pc tp" using step_emb [OF t(1) m _ s] assms(3,4) d(4) t(2,3) by simp
  moreover have "\<not> at_rest (tthr i)" using assms(5) t(3) by (cases "tthr i") (simp_all add: at_rest_def)
  moreover have "(\<exists>j. popping (thr j) \<noteq> None) \<longleftrightarrow> (\<exists>j. popping (tthr j) \<noteq> None)"
    "(\<exists>j. pushing (thr j) \<noteq> None) \<longleftrightarrow> (\<exists>j. pushing (tthr j) \<noteq> None)" using t(3) by (simp_all add: emb_owner)
  moreover have "p = Pushed False \<Longrightarrow> tp = Pushed False" "p = Popped None \<Longrightarrow> tp = Popped None"
    using \<open>p = emb_pc tp\<close> by (cases tp; simp)+
  ultimately show ?thesis using refusal_aux [OF t(1) s] t(4) d(4) by (intro conjI impI) (auto simp del: ex_simps)
qed

theorem mpmc_refusal_witness:
  "\<exists>thr. mpmc_run demo_queue (fst demo_mid) (fst (snd demo_mid)) thr \<and>
     call_step False (thr 3) (fst (snd demo_mid)) = (Popped None, fst (snd demo_mid), []) \<and> (\<exists>j. pushing (thr j) \<noteq> None)"
proof -
  let ?q = "fst (snd demo_mid)" and ?u = "(snd (snd demo_mid))(3 := PopLoad)"
  let ?t = "?u(3 := PopSeq 0)"
  have "snd (snd demo_mid) 3 = Idle" by code_simp
  then have r0: "mpmc_run demo_queue (fst demo_mid) ?q ?u"
    using call_pop [OF demo_runs(1), of 3] by (simp add: at_rest_def)
  have c0: "call_step False (?u 3) ?q = (PopSeq 0, ?q, [])" by code_simp
  from mpmc_run.step [OF r0, of False 3, OF c0] have r: "mpmc_run demo_queue (fst demo_mid) ?q ?t" by simp
  have c: "call_step False (?t 3) ?q = (Popped None, ?q, [])" by code_simp
  have "fifo 2 (fst demo_mid) [] \<noteq> Some []" by (simp add: demo_eval)
  then have "\<exists>j. pushing (?t j) \<noteq> None"
    using mpmc_refusal [OF demo_queue_new r _ c] by (auto simp add: demo_eval at_rest_def split: if_splits)
  with r c show ?thesis by blast
qed

text \<open>
  C16. A call that runs alone ends: from every state that the threads can reach together, a call of push or pop that is no longer
  disturbed returns after at most six more steps, wherever the other threads were stopped.
\<close>

theorem mpmc_call_ends:
  assumes "mpmc_new sz = Inr q0" "mpmc_run q0 es q thr" "length (pushes es) + unat sz + 6 < 2 ^ 63"
  shows "\<exists>k \<le> 6. at_rest (fst (alone_run k (thr i) q))"
proof -
  obtain m where m: "unat sz = 2 ^ m" using mpmc_new_some [OF assms(1)] by metis
  obtain tq tthr where t: "tinv (unat sz) (pushes es) tq tthr" "q = emb tq" "thr = (\<lambda>i. emb_pc (tthr i))"
    using mpmc_run_tickets [OF assms(2,1)] assms(3) by (metis add_lessD1)
  have r: "rank tq (tthr i) \<le> 6" by (cases "tthr i") auto
  then obtain k where "k \<le> rank tq (tthr i)" "at_rest (fst (alone_run k (thr i) q))"
    using alone_ends_aux [OF t(1) m, of i] assms(3) tinvD(4) [OF t(1)] t(2,3) by auto
  with r show ?thesis by (meson le_trans)
qed

theorem mpmc_call_ends_witness:
  "\<exists>k \<le> 6. at_rest (fst (alone_run k (PushWrite 7 0) (fst (snd demo_mid))))"
  using mpmc_call_ends [OF demo_queue_new demo_runs(1), of 0] by (simp add: demo_eval)

end
