(* ===== verification/Thread_Pool.thy ===== *)
theory Thread_Pool
  imports Mpmc_Correct
begin

text \<open>
  The thread pool (\<^verbatim>\<open>thread_pool/thread_pool.hpp\<close>, \<^verbatim>\<open>worker.hpp\<close>, \<^verbatim>\<open>thread_pool_options.hpp\<close>). A queue is the list of its elements, which is
  what the bounded queue is to its callers; since a call can also be refused while another thread is in the middle of its own, every
  call takes a flag that says so. Threads are addresses into a list of all workers ever started; the slots of the pool name the
  current ones. A thread's function is cut where it touches shared state.
\<close>

section \<open>Options\<close>

record ThreadPoolOptions =
  m_thread_count :: nat
  m_queue_size :: nat
  m_workers_expelling_interval_ms :: nat

definition new_ThreadPoolOptions :: "nat \<Rightarrow> ThreadPoolOptions" where
  "new_ThreadPoolOptions hw = \<lparr>m_thread_count = max 2 hw, m_queue_size = 1024, m_workers_expelling_interval_ms = 1000\<rparr>"

definition setThreadCount :: "nat \<Rightarrow> ThreadPoolOptions \<Rightarrow> ThreadPoolOptions" where
  "setThreadCount c o' = o'\<lparr>m_thread_count := max 2 c\<rparr>"

definition setQueueSize :: "nat \<Rightarrow> ThreadPoolOptions \<Rightarrow> ThreadPoolOptions" where
  "setQueueSize n o' = o'\<lparr>m_queue_size := max 1 n\<rparr>"

section \<open>Workers and the pool\<close>

text \<open>
  \<open>Looking\<close> is the test of the loop, \<open>Taken\<close> has popped a job, \<open>Running\<close> has set the time point and is in the handler, \<open>After\<close> has
  returned from it, \<open>Gone\<close> has left the loop. The time point \<open>None\<close> is \<^verbatim>\<open>maxTimePoint()\<close>.
\<close>

datatype 'j wstate = Looking | Taken 'j | Running 'j | After | Gone

record 'j Worker =
  w_id :: nat
  m_timePoint :: "int option"
  m_running_flag :: bool
  w_state :: "'j wstate"

record 'j ThreadPool =
  m_queues :: "'j list list"
  p_queue_size :: nat
  m_workers :: "nat list"
  p_threads :: "'j Worker list"
  activeCount :: nat
  expelledCount :: nat
  m_next_worker :: size_t
  defaultPeriodMs :: int
  p_finished :: "'j list"

datatype pool_error = BadQueueSize | QueueFull | OutOfRange

definition start_worker :: "nat \<Rightarrow> 'j ThreadPool \<Rightarrow> nat \<times> 'j ThreadPool" where
  "start_worker i p =
    (length (p_threads p),
     p\<lparr>p_threads := p_threads p @ [\<lparr>w_id = i, m_timePoint = None, m_running_flag = True, w_state = Looking\<rparr>],
       activeCount := activeCount p + 1\<rparr>)"

text \<open>The constructor makes the queues, which throws for a bad size, and starts a worker for each.\<close>

definition new_ThreadPool :: "ThreadPoolOptions \<Rightarrow> pool_error + 'j ThreadPool" where
  "new_ThreadPool o' =
    (case mpmc_new (of_nat (m_queue_size o')) :: mpmc_error + (size_t, 'j) MPMC of
       Inl _ \<Rightarrow> Inl BadQueueSize
     | Inr _ \<Rightarrow>
         Inr (foldl (\<lambda>p i. case start_worker i p of (a, p') \<Rightarrow> p'\<lparr>m_workers := m_workers p' @ [a]\<rparr>)
               \<lparr>m_queues = replicate (m_thread_count o') [], p_queue_size = m_queue_size o', m_workers = [], p_threads = [],
                activeCount = 0, expelledCount = 0, m_next_worker = 0,
                defaultPeriodMs = int (m_workers_expelling_interval_ms o'), p_finished = []\<rparr>
               [0..<m_thread_count o']))"

section \<open>Posting a job\<close>

text \<open>The identity of a thread that is not a worker: \<^verbatim>\<open>static thread_local size_t tss_id = -1u\<close>.\<close>

definition no_worker :: size_t where
  "no_worker = 0xFFFFFFFF"

definition getWorkerIdx :: "size_t \<Rightarrow> 'j ThreadPool \<Rightarrow> nat \<times> 'j ThreadPool" where
  "getWorkerIdx id' p =
    (if of_nat (length (m_workers p)) < id'
     then (unat (m_next_worker p mod of_nat (length (m_workers p))), p\<lparr>m_next_worker := m_next_worker p + 1\<rparr>)
     else (unat id', p))"

definition tryPost :: "bool \<Rightarrow> size_t \<Rightarrow> 'j \<Rightarrow> 'j ThreadPool \<Rightarrow> pool_error + (bool \<times> 'j ThreadPool)" where
  "tryPost busy id' j p =
    (case getWorkerIdx id' p of (i, p') \<Rightarrow>
       if length (m_queues p') \<le> i then Inl OutOfRange
       else if length (m_queues p' ! i) < p_queue_size p' \<and> \<not> busy
       then Inr (True, p'\<lparr>m_queues := (m_queues p')[i := m_queues p' ! i @ [j]]\<rparr>)
       else Inr (False, p'))"

fun post_loop :: "bool list \<Rightarrow> nat \<Rightarrow> size_t \<Rightarrow> 'j \<Rightarrow> 'j ThreadPool \<Rightarrow> pool_error + 'j ThreadPool" where
  "post_loop busy 0 id' j p = Inl QueueFull"
| "post_loop busy (Suc k) id' j p =
    (case tryPost (case busy of [] \<Rightarrow> False | b # _ \<Rightarrow> b) id' j p of
       Inl e \<Rightarrow> Inl e
     | Inr (ok, p') \<Rightarrow> if ok then Inr p' else post_loop (tl busy) k id' j p')"

definition post :: "bool list \<Rightarrow> size_t \<Rightarrow> 'j \<Rightarrow> bool \<Rightarrow> 'j ThreadPool \<Rightarrow> pool_error + 'j ThreadPool" where
  "post busy id' j to_any_queue p = post_loop busy (if to_any_queue then length (m_workers p) else 1) id' j p"

section \<open>The function of a worker thread\<close>

definition upd_worker :: "nat \<Rightarrow> ('j Worker \<Rightarrow> 'j Worker) \<Rightarrow> 'j ThreadPool \<Rightarrow> 'j ThreadPool" where
  "upd_worker a f p = p\<lparr>p_threads := (p_threads p)[a := f (p_threads p ! a)]\<rparr>"

definition try_pop :: "bool \<Rightarrow> nat \<Rightarrow> 'j ThreadPool \<Rightarrow> ('j \<times> 'j ThreadPool) option" where
  "try_pop busy i p =
    (case m_queues p ! i of
       [] \<Rightarrow> None
     | j # js \<Rightarrow> if busy then None else Some (j, p\<lparr>m_queues := (m_queues p)[i := js]\<rparr>))"

definition steal_from :: "nat \<Rightarrow> 'j ThreadPool \<Rightarrow> nat" where
  "steal_from i p = (i + 1) mod length (m_workers p)"

definition threadFunc :: "bool \<times> bool \<Rightarrow> int \<Rightarrow> nat \<Rightarrow> 'j ThreadPool \<Rightarrow> 'j ThreadPool" where
  "threadFunc busy now a p =
    (let w = p_threads p ! a; i = w_id w in
     case w_state w of
       Looking \<Rightarrow>
         if \<not> m_running_flag w then upd_worker a (\<lambda>w. w\<lparr>w_state := Gone\<rparr>) (p\<lparr>activeCount := activeCount p - 1\<rparr>)
         else (case try_pop (fst busy) i p of
             Some (j, p') \<Rightarrow> upd_worker a (\<lambda>w. w\<lparr>w_state := Taken j\<rparr>) p'
           | None \<Rightarrow>
               (case try_pop (snd busy) (steal_from i p) p of
                  Some (j, p') \<Rightarrow> upd_worker a (\<lambda>w. w\<lparr>w_state := Taken j\<rparr>) p'
                | None \<Rightarrow> p))
     | Taken j \<Rightarrow> upd_worker a (\<lambda>w. w\<lparr>m_timePoint := Some (now + defaultPeriodMs p), w_state := Running j\<rparr>) p
     | Running j \<Rightarrow> upd_worker a (\<lambda>w. w\<lparr>w_state := After\<rparr>) (p\<lparr>p_finished := p_finished p @ [j]\<rparr>)
     | After \<Rightarrow> upd_worker a (\<lambda>w. w\<lparr>m_timePoint := None, w_state := Looking\<rparr>) p
     | Gone \<Rightarrow> p)"

section \<open>Expelling and stopping workers\<close>

definition expel_slot :: "int \<Rightarrow> nat \<Rightarrow> 'j ThreadPool \<Rightarrow> 'j ThreadPool" where
  "expel_slot now i p =
    (let a = m_workers p ! i in
     case m_timePoint (p_threads p ! a) of
       None \<Rightarrow> p
     | Some tp \<Rightarrow>
         if now < tp then p
         else (case start_worker i (upd_worker a (\<lambda>w. w\<lparr>m_running_flag := False\<rparr>) p) of (a', p') \<Rightarrow>
                 p'\<lparr>m_workers := (m_workers p')[i := a'], expelledCount := expelledCount p' + 1\<rparr>))"

definition expelWorkers :: "int \<Rightarrow> 'j ThreadPool \<Rightarrow> 'j ThreadPool" where
  "expelWorkers now p = fold (expel_slot now) [0..<length (m_workers p)] p"

text \<open>The destructor stops every worker of a slot; it then waits until no thread is active.\<close>

definition stop_all :: "'j ThreadPool \<Rightarrow> 'j ThreadPool" where
  "stop_all p = fold (\<lambda>a. upd_worker a (\<lambda>w. w\<lparr>m_running_flag := False\<rparr>)) (m_workers p) p"

section \<open>Runs of the pool\<close>

text \<open>
  \<open>pool_run p0 js p\<close>: posts, steps of worker threads and calls of \<open>expelWorkers\<close>, in any order, have led from \<open>p0\<close> to \<open>p\<close>, and \<open>js\<close> are
  the jobs posted with success. A call of \<open>expelWorkers\<close> can see the threads between its iterations, so each slot is a step of its own.
\<close>

inductive pool_run :: "'j ThreadPool \<Rightarrow> 'j list \<Rightarrow> 'j ThreadPool \<Rightarrow> bool" for p0 where
  start: "pool_run p0 [] p0"
| post: "pool_run p0 js p \<Longrightarrow> post busy id' j any p = Inr p' \<Longrightarrow> pool_run p0 (js @ [j]) p'"
| full: "pool_run p0 js p \<Longrightarrow> tryPost busy id' j p = Inr (False, p') \<Longrightarrow> pool_run p0 js p'"
| work: "pool_run p0 js p \<Longrightarrow> a < length (p_threads p) \<Longrightarrow> pool_run p0 js (threadFunc busy2 now a p)"
| expel: "pool_run p0 js p \<Longrightarrow> i < length (m_workers p) \<Longrightarrow> pool_run p0 js (expel_slot now i p)"

section \<open>The invariant\<close>

fun held :: "'j wstate \<Rightarrow> 'j list" where
  "held (Taken j) = [j]"
| "held (Running j) = [j]"
| "held _ = []"

definition in_hand :: "'j ThreadPool \<Rightarrow> 'j list" where
  "in_hand p = concat (map (\<lambda>w. held (w_state w)) (p_threads p))"

definition live :: "'j Worker \<Rightarrow> bool" where
  "live w \<longleftrightarrow> w_state w \<noteq> Gone"

definition timed :: "'j Worker \<Rightarrow> bool" where
  "timed w \<longleftrightarrow> (m_timePoint w \<noteq> None \<longleftrightarrow> (case w_state w of Running _ \<Rightarrow> True | After \<Rightarrow> True | _ \<Rightarrow> False))"

definition slot_ok :: "'j ThreadPool \<Rightarrow> nat \<Rightarrow> bool" where
  "slot_ok p i \<longleftrightarrow> (let a = m_workers p ! i in
     a < length (p_threads p) \<and> w_id (p_threads p ! a) = i \<and> m_running_flag (p_threads p ! a) \<and> live (p_threads p ! a))"

definition thread_ok2 :: "nat \<Rightarrow> 'j ThreadPool \<Rightarrow> nat \<Rightarrow> bool" where
  "thread_ok2 n p a \<longleftrightarrow> (let w = p_threads p ! a in w_id w < n \<and> timed w \<and> (m_running_flag w \<longrightarrow> m_workers p ! w_id w = a))"

definition pinv :: "nat \<Rightarrow> nat \<Rightarrow> 'j list \<Rightarrow> 'j ThreadPool \<Rightarrow> bool" where
  "pinv n qs js p \<longleftrightarrow>
     0 < n \<and> length (m_queues p) = n \<and> length (m_workers p) = n \<and> p_queue_size p = qs \<and>
     (\<forall>q\<in>set (m_queues p). length q \<le> qs) \<and>
     (\<forall>i<n. slot_ok p i) \<and> (\<forall>a<length (p_threads p). thread_ok2 n p a) \<and>
     activeCount p = length (filter live (p_threads p)) \<and> expelledCount p + n = length (p_threads p) \<and>
     mset js = mset (concat (m_queues p)) + mset (in_hand p) + mset (p_finished p)"

lemma mset_concat_update:
  "a < length xss \<Longrightarrow> mset (concat (xss[a := ys])) + mset (xss ! a) = mset (concat xss) + mset ys"
  by (induction xss arbitrary: a) (auto simp: algebra_simps split: nat.splits)

lemma filter_update:
  "a < length xs \<Longrightarrow> length (filter P (xs[a := y])) + (if P (xs ! a) then 1 else 0) = length (filter P xs) + (if P y then 1 else 0)"
proof (induction xs arbitrary: a)
  case (Cons x xs)
  then show ?case by (cases a) (auto split: if_splits dest: Cons.IH)
qed simp

lemma in_hand_upd:
  assumes "a < length (p_threads p)"
  shows "mset (in_hand (upd_worker a f p)) + mset (held (w_state (p_threads p ! a))) = mset (in_hand p) + mset (held (w_state (f (p_threads p ! a))))"
  using mset_concat_update [of a "map (\<lambda>w. held (w_state w)) (p_threads p)" "held (w_state (f (p_threads p ! a)))"] assms
  by (simp add: in_hand_def upd_worker_def map_update)

lemma upd_worker_simps [simp]:
  "m_queues (upd_worker a f p) = m_queues p" "p_queue_size (upd_worker a f p) = p_queue_size p" "m_workers (upd_worker a f p) = m_workers p"
  "activeCount (upd_worker a f p) = activeCount p" "expelledCount (upd_worker a f p) = expelledCount p"
  "p_finished (upd_worker a f p) = p_finished p" "length (p_threads (upd_worker a f p)) = length (p_threads p)"
  "defaultPeriodMs (upd_worker a f p) = defaultPeriodMs p"
  by (simp_all add: upd_worker_def)

lemma upd_worker_nth:
  "a < length (p_threads p) \<Longrightarrow> p_threads (upd_worker a f p) ! b = (if b = a then f (p_threads p ! a) else p_threads p ! b)"
  by (simp add: upd_worker_def nth_list_update)

text \<open>A step of one thread that keeps the slots: what has to be shown is about that thread, the queues and the jobs.\<close>

lemma pinv_upd:
  assumes "pinv n qs js p" "a < length (p_threads p)" "w = p_threads p ! a"
    and "w_id (f w) = w_id w" "timed (f w)" "m_running_flag (f w) = m_running_flag w" "m_running_flag w \<Longrightarrow> live (f w) = live w"
    and "length (m_queues p') = n" "\<forall>q\<in>set (m_queues p'). length q \<le> qs"
    and "p_threads p' = p_threads p" "m_workers p' = m_workers p" "p_queue_size p' = p_queue_size p" "expelledCount p' = expelledCount p"
    and "activeCount p' + (if live w then 1 else 0) = activeCount p + (if live (f w) then 1 else 0)"
    and "mset js + mset (held (w_state w)) =
      mset (concat (m_queues p')) + mset (in_hand p) + mset (held (w_state (f w))) + mset (p_finished p')"
  shows "pinv n qs js (upd_worker a f p')"
proof -
  let ?p = "upd_worker a f p'"
  have a: "a < length (p_threads p')" and w: "p_threads p' ! a = w" using assms by simp_all
  have slots: "slot_ok p i" if "i < n" for i using assms(1) that by (simp add: pinv_def)
  have threads: "thread_ok2 n p b" if "b < length (p_threads p)" for b using assms(1) that by (simp add: pinv_def)
  have "slot_ok ?p i" if "i < n" for i
    using slots [OF that] assms(3,4,6,7) w by (auto simp: slot_ok_def Let_def upd_worker_nth [OF a] assms(10,11))
  moreover have "thread_ok2 n ?p b" if "b < length (p_threads ?p)" for b
    using threads [of b] that assms(3-6) w by (auto simp: thread_ok2_def Let_def upd_worker_nth [OF a] assms(10,11))
  moreover have "activeCount ?p = length (filter live (p_threads ?p))"
    using filter_update [of a "p_threads p" live "f w"] assms(1-3,10,14) by (auto simp: pinv_def upd_worker_def split: if_splits)
  moreover have "mset js = mset (concat (m_queues ?p)) + mset (in_hand ?p) + mset (p_finished ?p)"
  proof -
    have "in_hand p' = in_hand p" by (simp add: in_hand_def assms(10))
    then have h: "mset (in_hand ?p) + mset (held (w_state w)) = mset (in_hand p) + mset (held (w_state (f w)))"
      using in_hand_upd [OF a, of f] w by simp
    have "mset js + mset (held (w_state w)) =
        mset (concat (m_queues p')) + (mset (in_hand p) + mset (held (w_state (f w)))) + mset (p_finished p')"
      using assms(15) by (simp only: add.assoc)
    also have "\<dots> = mset (concat (m_queues p')) + mset (in_hand ?p) + mset (p_finished p') + mset (held (w_state w))"
      unfolding h [symmetric] by (simp only: ac_simps)
    finally show ?thesis
      by (simp only: add_right_cancel upd_worker_simps)
  qed
  ultimately show ?thesis using assms(1,8,9,11-13) by (auto simp: pinv_def assms(10))
qed

lemma try_pop_some:
  assumes "try_pop b i p = Some (j, p')" "i < length (m_queues p)"
  shows "\<exists>qs. p' = p\<lparr>m_queues := qs\<rparr> \<and> length qs = length (m_queues p) \<and> mset (concat (m_queues p)) = mset (concat qs) + {#j#} \<and>
    (\<forall>k. (\<forall>q\<in>set (m_queues p). length q \<le> k) \<longrightarrow> (\<forall>q\<in>set qs. length q \<le> k))"
proof -
  obtain js where js: "m_queues p ! i = j # js" "p' = p\<lparr>m_queues := (m_queues p)[i := js]\<rparr>"
    using assms(1) by (auto simp: try_pop_def split: list.splits if_splits)
  have "mset (concat (m_queues p)) = mset (concat ((m_queues p)[i := js])) + {#j#}"
    using mset_concat_update [OF assms(2), of js] js(1) by simp
  moreover have "length js \<le> k" if "\<forall>q\<in>set (m_queues p). length q \<le> k" for k using that js(1) assms(2) nth_mem by fastforce
  ultimately show ?thesis using js(2) set_update_subset_insert [of "m_queues p" i js] by (auto intro!: exI [of _ "(m_queues p)[i := js]"])
qed

lemma take_job_inv:
  assumes "pinv n qs js p" "a < length (p_threads p)" "w_state (p_threads p ! a) = Looking" "try_pop b i p = Some (j, p')" "i < n"
  shows "pinv n qs js (upd_worker a (\<lambda>w. w\<lparr>w_state := Taken j\<rparr>) p')"
proof -
  have "i < length (m_queues p)" using assms(1,5) by (simp add: pinv_def)
  from try_pop_some [OF assms(4) this] obtain Q where Q: "p' = p\<lparr>m_queues := Q\<rparr>" "length Q = length (m_queues p)"
    "mset (concat (m_queues p)) = mset (concat Q) + {#j#}" "\<forall>k. (\<forall>q\<in>set (m_queues p). length q \<le> k) \<longrightarrow> (\<forall>q\<in>set Q. length q \<le> k)"
    by blast
  have t: "timed (p_threads p ! a)" using assms(1,2) by (simp add: pinv_def thread_ok2_def Let_def)
  show ?thesis
    by (rule pinv_upd [OF assms(1,2) refl]) (use assms(1,3) Q t in \<open>simp_all add: pinv_def live_def timed_def\<close>)
qed

lemma threadFunc_inv:
  assumes "pinv n qs js p" "a < length (p_threads p)"
  shows "pinv n qs js (threadFunc b now a p)"
proof -
  have w: "w_id (p_threads p ! a) < n" "timed (p_threads p ! a)" using assms by (simp_all add: pinv_def thread_ok2_def Let_def)
  have len: "length (m_queues p) = n" "\<forall>q\<in>set (m_queues p). length q \<le> qs" "0 < n" "length (m_workers p) = n" using assms(1) by (simp_all add: pinv_def)
  have js: "mset js = mset (concat (m_queues p)) + mset (in_hand p) + mset (p_finished p)" using assms(1) by (simp add: pinv_def)
  have act: "activeCount p = length (filter live (p_threads p))" using assms(1) by (simp add: pinv_def)
  show ?thesis
  proof (cases "w_state (p_threads p ! a)")
    case Looking
    have pos: "live (p_threads p ! a) \<Longrightarrow> 0 < activeCount p" unfolding act using assms(2) by (auto simp: filter_empty_conv)
    have st: "steal_from i p < n" for i using len by (simp add: steal_from_def)
    have "pinv n qs js (upd_worker a (\<lambda>w. w\<lparr>w_state := Gone\<rparr>) (p\<lparr>activeCount := activeCount p - 1\<rparr>))" if "\<not> m_running_flag (p_threads p ! a)"
      by (rule pinv_upd [OF assms refl]) (use Looking len js w pos that in \<open>simp_all add: timed_def live_def\<close>)
    then show ?thesis using take_job_inv [OF assms Looking _ w(1)] take_job_inv [OF assms Looking _ st] assms(1) Looking
      by (auto simp: threadFunc_def Let_def split: option.splits)
  next
    case (Taken j)
    have "pinv n qs js (upd_worker a (\<lambda>w. w\<lparr>m_timePoint := Some (now + defaultPeriodMs p), w_state := Running j\<rparr>) p)"
      by (rule pinv_upd [OF assms refl]) (use Taken len js w in \<open>simp_all add: timed_def live_def\<close>)
    then show ?thesis by (simp add: threadFunc_def Let_def Taken)
  next
    case (Running j)
    have "pinv n qs js (upd_worker a (\<lambda>w. w\<lparr>w_state := After\<rparr>) (p\<lparr>p_finished := p_finished p @ [j]\<rparr>))"
      by (rule pinv_upd [OF assms refl]) (use Running len js w in \<open>simp_all add: timed_def live_def\<close>)
    then show ?thesis by (simp add: threadFunc_def Let_def Running)
  next
    case After
    have "pinv n qs js (upd_worker a (\<lambda>w. w\<lparr>m_timePoint := None, w_state := Looking\<rparr>) p)"
      by (rule pinv_upd [OF assms refl]) (use After len js w in \<open>simp_all add: timed_def live_def\<close>)
    then show ?thesis by (simp add: threadFunc_def Let_def After)
  next
    case Gone
    then show ?thesis using assms(1) by (simp add: threadFunc_def Let_def)
  qed
qed

lemma pinv_cong:
  assumes "pinv n qs js p" "m_workers p' = m_workers p" "p_threads p' = p_threads p" "p_queue_size p' = p_queue_size p"
    "activeCount p' = activeCount p" "expelledCount p' = expelledCount p" "p_finished p' = p_finished p"
    and "length (m_queues p') = n" "\<forall>q\<in>set (m_queues p'). length q \<le> qs"
    and "mset js' + mset (concat (m_queues p)) = mset js + mset (concat (m_queues p'))"
  shows "pinv n qs js' p'"
proof -
  have "mset js' = mset (concat (m_queues p')) + mset (in_hand p) + mset (p_finished p)"
  proof -
    have "mset js' + mset (concat (m_queues p)) =
        mset (concat (m_queues p')) + mset (in_hand p) + mset (p_finished p) + mset (concat (m_queues p))"
      using assms(1,10) by (simp add: pinv_def ac_simps)
    then show ?thesis by (simp only: add_right_cancel)
  qed
  then show ?thesis using assms(1-9) by (simp add: pinv_def slot_ok_def thread_ok2_def in_hand_def Let_def)
qed

lemma getWorkerIdx_frame:
  "getWorkerIdx id' p = (i, p') \<Longrightarrow> \<exists>x. p' = p\<lparr>m_next_worker := x\<rparr>"
  by (auto simp: getWorkerIdx_def split: if_splits intro: exI [of _ "m_next_worker p"])

lemma tryPost_inv:
  assumes "pinv n qs js p" "tryPost busy id' j p = Inr (ok, p')"
  shows "pinv n qs (if ok then js @ [j] else js) p'"
proof -
  obtain i p1 where g: "getWorkerIdx id' p = (i, p1)" by (cases "getWorkerIdx id' p")
  then obtain x where x: "p1 = p\<lparr>m_next_worker := x\<rparr>" using getWorkerIdx_frame by blast
  have len: "length (m_queues p) = n" "\<forall>q\<in>set (m_queues p). length q \<le> qs" "p_queue_size p = qs" using assms(1) by (simp_all add: pinv_def)
  show ?thesis
  proof (cases ok)
    case True
    then have i: "i < n" "length (m_queues p ! i) < qs" and p': "p' = p1\<lparr>m_queues := (m_queues p)[i := m_queues p ! i @ [j]]\<rparr>"
      using assms(2) g x len by (auto simp: tryPost_def split: if_splits)
    have "mset (js @ [j]) + mset (concat (m_queues p)) = mset js + mset (concat ((m_queues p)[i := m_queues p ! i @ [j]]))"
      using mset_concat_update [of i "m_queues p" "m_queues p ! i @ [j]"] i(1) len(1) by (simp add: union_mset_add_mset_left)
    moreover have "\<forall>q\<in>set ((m_queues p)[i := m_queues p ! i @ [j]]). length q \<le> qs"
      using len i(2) set_update_subset_insert [of "m_queues p" i] by fastforce
    ultimately have "pinv n qs (js @ [j]) p'" using len by (intro pinv_cong [OF assms(1)]) (simp_all add: p' x)
    then show ?thesis using True by simp
  next
    case False
    then have "p' = p1" using assms(2) g by (auto simp: tryPost_def split: if_splits)
    moreover have "pinv n qs js p1" using len by (intro pinv_cong [OF assms(1)]) (simp_all add: x)
    ultimately show ?thesis using False by simp
  qed
qed

lemma post_loop_inv: "pinv n qs js p \<Longrightarrow> post_loop busy k id' j p = Inr p' \<Longrightarrow> pinv n qs (js @ [j]) p'"
proof (induction k arbitrary: busy p)
  case (Suc k)
  then obtain ok p1 where t: "tryPost (case busy of [] \<Rightarrow> False | b # _ \<Rightarrow> b) id' j p = Inr (ok, p1)"
    by (auto split: sum.splits)
  from tryPost_inv [OF Suc.prems(1) this] show ?case using Suc.IH [of p1 "tl busy"] Suc.prems(2) t by (cases ok) auto
qed simp

lemma expel_slot_inv:
  assumes "pinv n qs js p" "i < n"
  shows "pinv n qs js (expel_slot now i p)"
proof -
  let ?a = "m_workers p ! i" and ?N = "length (p_threads p)"
  let ?W = "p_threads p"
  let ?new = "\<lparr>w_id = i, m_timePoint = None, m_running_flag = True, w_state = Looking\<rparr>"
  have slots: "slot_ok p k" if "k < n" for k using assms(1) that by (simp add: pinv_def)
  have threads: "thread_ok2 n p b" if "b < ?N" for b using assms(1) that by (simp add: pinv_def)
  have len: "length (m_workers p) = n" "activeCount p = length (filter live ?W)" "expelledCount p + n = ?N"
    "mset js = mset (concat (m_queues p)) + mset (in_hand p) + mset (p_finished p)"
    using assms(1) by (simp_all add: pinv_def)
  have a: "?a < ?N" "w_id (?W ! ?a) = i" using slots [OF assms(2)] by (simp_all add: slot_ok_def Let_def)
  let ?T = "?W[?a := (?W ! ?a)\<lparr>m_running_flag := False\<rparr>] @ [?new]"
  let ?p = "p\<lparr>p_threads := ?T, activeCount := activeCount p + 1, m_workers := (m_workers p)[i := ?N], expelledCount := expelledCount p + 1\<rparr>"
  have nth: "?T ! b = (if b = ?a then (?W ! ?a)\<lparr>m_running_flag := False\<rparr> else if b = ?N then ?new else ?W ! b)" if "b \<le> ?N" for b
    using that a(1) by (auto simp: nth_append nth_list_update)
  have "slot_ok ?p k" if "k < n" for k
  proof (cases "k = i")
    case True
    then show ?thesis using len(1) that a(1) nth [of ?N] by (simp add: slot_ok_def Let_def live_def)
  next
    case False
    have k: "m_workers p ! k < ?N" "w_id (?W ! (m_workers p ! k)) = k" using slots [OF that] by (simp_all add: slot_ok_def Let_def)
    then have "m_workers p ! k \<noteq> ?a" using a(2) False by auto
    then show ?thesis using slots [OF that] nth [of "m_workers p ! k"] k False len(1) assms(2) by (simp add: slot_ok_def Let_def)
  qed
  moreover have "thread_ok2 n ?p b" if "b < Suc ?N" for b
  proof (cases "b = ?N")
    case True
    then show ?thesis using nth [of ?N] a(1) assms(2) len(1) by (simp add: thread_ok2_def Let_def timed_def)
  next
    case False
    then have b: "b < ?N" using that by simp
    have "m_running_flag (?W ! b) \<Longrightarrow> b \<noteq> ?a \<Longrightarrow> w_id (?W ! b) \<noteq> i" using threads [OF b] by (auto simp: thread_ok2_def Let_def)
    then show ?thesis using threads [OF b] nth [of b] b by (auto simp: thread_ok2_def Let_def timed_def)
  qed
  moreover have "length (filter live ?T) = length (filter live ?W) + 1"
    using filter_update [OF a(1), of live "(?W ! ?a)\<lparr>m_running_flag := False\<rparr>"] by (simp add: live_def split: if_splits)
  moreover have "map (\<lambda>w. held (w_state w)) (?W[?a := (?W ! ?a)\<lparr>m_running_flag := False\<rparr>]) = map (\<lambda>w. held (w_state w)) ?W"
    using a(1) by (auto intro!: nth_equalityI simp: nth_list_update)
  then have "in_hand ?p = in_hand p" by (simp add: in_hand_def)
  ultimately have "pinv n qs js ?p" using assms(1) len by (simp add: pinv_def)
  moreover have "expel_slot now i p = p \<or> expel_slot now i p = ?p"
    by (auto simp: expel_slot_def Let_def start_worker_def upd_worker_def split: option.splits)
  ultimately show ?thesis using assms(1) by auto
qed

lemma new_pool_inv:
  fixes p :: "'j ThreadPool"
  assumes "new_ThreadPool o' = Inr p" "2 \<le> m_thread_count o'"
  shows "pinv (m_thread_count o') (m_queue_size o') [] p"
proof -
  let ?n = "m_thread_count o'"
  let ?step = "\<lambda>p i. case start_worker i p of (a, p') \<Rightarrow> p'\<lparr>m_workers := m_workers p' @ [a]\<rparr>"
  let ?p0 = "\<lparr>m_queues = replicate ?n [], p_queue_size = m_queue_size o', m_workers = [], p_threads = [],
     activeCount = 0, expelledCount = 0, m_next_worker = 0, defaultPeriodMs = int (m_workers_expelling_interval_ms o'), p_finished = []\<rparr> :: 'j ThreadPool"
  let ?w = "\<lambda>i. \<lparr>w_id = i, m_timePoint = None, m_running_flag = True, w_state = Looking\<rparr>"
  have "foldl ?step ?p0 [0..<k] = ?p0\<lparr>m_workers := [0..<k], p_threads := map ?w [0..<k], activeCount := k\<rparr>" for k
    by (induction k) (simp_all add: start_worker_def)
  then have p: "p = ?p0\<lparr>m_workers := [0..<?n], p_threads := map ?w [0..<?n], activeCount := ?n\<rparr>"
    using assms(1) by (simp add: new_ThreadPool_def split: sum.splits)
  show ?thesis using assms(2)
    by (auto simp: p pinv_def slot_ok_def thread_ok2_def timed_def live_def in_hand_def Let_def map_replicate_const comp_def concat_replicate_trivial)
qed

lemma pool_run_inv:
  "pool_run p0 js p \<Longrightarrow> pinv n qs [] p0 \<Longrightarrow> pinv n qs js p"
proof (induction rule: pool_run.induct)
  case (post js p busy id' j any p')
  then show ?case using post_loop_inv by (auto simp: post_def)
next
  case (full js p busy id' j p')
  then show ?case using tryPost_inv by fastforce
next
  case (work js p a busy2 now)
  then show ?case by (simp add: threadFunc_inv)
next
  case (expel js p i now)
  then have "i < n" by (simp add: pinv_def)
  with expel show ?case by (simp add: expel_slot_inv)
qed

section \<open>Where a job goes\<close>

lemma getWorkerIdx_io:
  assumes "length (m_workers p) = n" "0 < n" "of_nat n < id'" "n < 2 ^ 64"
  shows "getWorkerIdx id' p = (unat (m_next_worker p) mod n, p\<lparr>m_next_worker := m_next_worker p + 1\<rparr>)"
  using assms by (simp add: getWorkerIdx_def unat_mod unat_of_nat)

lemma tryPost_io:
  assumes "length (m_workers p) = n" "length (m_queues p) = n" "0 < n" "of_nat n < id'" "n < 2 ^ 64"
  shows "tryPost b id' j p =
    (let i = unat (m_next_worker p) mod n; p' = p\<lparr>m_next_worker := m_next_worker p + 1\<rparr> in
     if length (m_queues p ! i) < p_queue_size p \<and> \<not> b then Inr (True, p'\<lparr>m_queues := (m_queues p)[i := m_queues p ! i @ [j]]\<rparr>)
     else Inr (False, p'))"
  using assms mod_less_divisor [OF assms(3), of "unat (m_next_worker p)"] by (auto simp: tryPost_def getWorkerIdx_io Let_def)

text \<open>The tries of a post go round the queues; the first with room gets the job.\<close>

lemma post_loop_io:
  assumes "length (m_workers p) = n" "length (m_queues p) = n" "0 < n" "of_nat n < id'" "n < 2 ^ 64"
    and "unat (m_next_worker p) + k < 2 ^ 64"
  shows "case post_loop [] k id' j p of
      Inl e \<Rightarrow> e = QueueFull \<and> (\<forall>d<k. p_queue_size p \<le> length (m_queues p ! ((unat (m_next_worker p) + d) mod n)))
    | Inr p' \<Rightarrow> \<exists>i<n. length (m_queues p ! i) < p_queue_size p \<and> m_queues p' = (m_queues p)[i := m_queues p ! i @ [j]]"
  using assms
proof (induction k arbitrary: p)
  case 0
  then show ?case by simp
next
  case (Suc k)
  let ?i = "unat (m_next_worker p) mod n" and ?p = "p\<lparr>m_next_worker := m_next_worker p + 1\<rparr>"
  have t: "tryPost False id' j p = (if length (m_queues p ! ?i) < p_queue_size p
      then Inr (True, ?p\<lparr>m_queues := (m_queues p)[?i := m_queues p ! ?i @ [j]]\<rparr>) else Inr (False, ?p))"
    using tryPost_io [OF Suc.prems(1-5), of False] by (simp add: Let_def)
  show ?case
  proof (cases "length (m_queues p ! ?i) < p_queue_size p")
    case True
    then show ?thesis using t Suc.prems(3) by (auto intro!: exI [of _ ?i])
  next
    case False
    have nx: "unat (m_next_worker p + 1) = unat (m_next_worker p) + 1" using Suc.prems(6) by (simp add: unat_word_ariths)
    have ih: "case post_loop [] k id' j ?p of
      Inl e \<Rightarrow> e = QueueFull \<and> (\<forall>d<k. p_queue_size p \<le> length (m_queues p ! ((unat (m_next_worker p) + 1 + d) mod n)))
    | Inr p' \<Rightarrow> \<exists>i<n. length (m_queues p ! i) < p_queue_size p \<and> m_queues p' = (m_queues p)[i := m_queues p ! i @ [j]]"
      using Suc.IH [of ?p] Suc.prems nx by (simp split: sum.splits)
    moreover have "post_loop [] (Suc k) id' j p = post_loop [] k id' j ?p" using t False by simp
    moreover have "p_queue_size p \<le> length (m_queues p ! ((unat (m_next_worker p) + d) mod n))"
      if "\<forall>d<k. p_queue_size p \<le> length (m_queues p ! ((unat (m_next_worker p) + 1 + d) mod n))" "d < Suc k" for d
      using that False by (cases d) auto
    ultimately show ?thesis by (simp split: sum.splits)
  qed
qed

lemma all_slots:
  assumes "0 < n" "i < (n :: nat)"
  obtains d where "d < n" "(m + d) mod n = i"
proof
  let ?d = "(n + i - m mod n) mod n"
  have "m mod n \<le> n + i" using assms(1) by (meson less_imp_le_nat mod_less_divisor trans_le_add1)
  then have "(m mod n + (n + i - m mod n)) mod n = i" using assms(2) by simp
  then show "(m + ?d) mod n = i" by (simp add: mod_simps)
  show "?d < n" using assms(1) by simp
qed

section \<open>Stopping\<close>

definition run_out :: "int \<Rightarrow> nat \<Rightarrow> 'j ThreadPool \<Rightarrow> 'j ThreadPool" where
  "run_out now a p = (threadFunc (False, False) now a ^^ 4) p"

lemma fold_upd_worker:
  "length (p_threads (fold (\<lambda>a. upd_worker a f) as p)) = length (p_threads p)"
  "m_queues (fold (\<lambda>a. upd_worker a f) as p) = m_queues p" "activeCount (fold (\<lambda>a. upd_worker a f) as p) = activeCount p"
  by (induction as arbitrary: p) simp_all

lemma stop_flag:
  assumes "list_all (\<lambda>a. a < length (p_threads p)) as" "b < length (p_threads p)"
  shows "p_threads (fold (\<lambda>a. upd_worker a (\<lambda>w. w\<lparr>m_running_flag := False\<rparr>)) as p) ! b =
    (if b \<in> set as then (p_threads p ! b)\<lparr>m_running_flag := False\<rparr> else p_threads p ! b)"
  using assms by (induction as arbitrary: p) (auto simp: upd_worker_nth)

text \<open>A thread whose flag is down takes no job and is gone after four steps; the others and the queues are not touched.\<close>

definition down :: "'j ThreadPool \<Rightarrow> nat \<Rightarrow> bool" where
  "down p a \<longleftrightarrow> \<not> m_running_flag (p_threads p ! a)"

lemma down_step:
  assumes "a < length (p_threads p)" "down p a"
  shows "length (p_threads (threadFunc b now a p)) = length (p_threads p)" "m_queues (threadFunc b now a p) = m_queues p"
    "down (threadFunc b now a p) a" "c \<noteq> a \<Longrightarrow> p_threads (threadFunc b now a p) ! c = p_threads p ! c"
  using assms by (auto simp: threadFunc_def down_def Let_def upd_worker_nth upd_worker_def nth_list_update split: wstate.splits)

lemma down_out:
  assumes "a < length (p_threads p)" "down p a"
  shows "w_state (p_threads (run_out now a p) ! a) = Gone" "m_queues (run_out now a p) = m_queues p"
    "length (p_threads (run_out now a p)) = length (p_threads p)" "c \<noteq> a \<Longrightarrow> p_threads (run_out now a p) ! c = p_threads p ! c"
proof -
  let ?f = "threadFunc (False, False) now a"
  have d: "a < length (p_threads ((?f ^^ k) p)) \<and> down ((?f ^^ k) p) a \<and> m_queues ((?f ^^ k) p) = m_queues p \<and>
    length (p_threads ((?f ^^ k) p)) = length (p_threads p) \<and> (\<forall>c. c \<noteq> a \<longrightarrow> p_threads ((?f ^^ k) p) ! c = p_threads p ! c)" for k
    using assms by (induction k) (auto simp: down_step)
  define left where "left = (\<lambda>w :: 'a wstate. case w of Taken _ \<Rightarrow> 4 | Running _ \<Rightarrow> 3 | After \<Rightarrow> 2 | Looking \<Rightarrow> 1 | Gone \<Rightarrow> (0 :: nat))"
  have step: "left (w_state (p_threads (?f q) ! a)) = left (w_state (p_threads q ! a)) - 1"
    if "a < length (p_threads q)" "down q a" for q :: "'a ThreadPool"
    using that by (auto simp: threadFunc_def down_def Let_def upd_worker_def left_def split: wstate.splits)
  have "left (w_state (p_threads ((?f ^^ k) p) ! a)) = left (w_state (p_threads p ! a)) - k" for k
  proof (induction k)
    case (Suc k)
    then show ?case using step [of "(?f ^^ k) p"] d [of k] by simp
  qed simp
  from this [of 4] have "left (w_state (p_threads (run_out now a p) ! a)) = 0" by (auto simp: run_out_def left_def split: wstate.splits)
  then show "w_state (p_threads (run_out now a p) ! a) = Gone" by (auto simp: left_def split: wstate.splits)
  show "m_queues (run_out now a p) = m_queues p" "length (p_threads (run_out now a p)) = length (p_threads p)"
    "c \<noteq> a \<Longrightarrow> p_threads (run_out now a p) ! c = p_threads p ! c" using d [of 4] unfolding run_out_def by blast+
qed

lemma all_out:
  assumes "distinct as" "\<forall>a\<in>set as. a < length (p_threads p) \<and> down p a"
  shows "(\<forall>a\<in>set as. w_state (p_threads (fold (run_out now) as p) ! a) = Gone) \<and>
    m_queues (fold (run_out now) as p) = m_queues p \<and> length (p_threads (fold (run_out now) as p)) = length (p_threads p) \<and>
    (\<forall>c. c \<notin> set as \<longrightarrow> p_threads (fold (run_out now) as p) ! c = p_threads p ! c)"
  using assms
proof (induction as arbitrary: p)
  case (Cons a as)
  let ?p = "run_out now a p"
  have a: "a < length (p_threads p)" "down p a" "a \<notin> set as" using Cons.prems by auto
  note o = down_out [OF a(1,2), where now = now]
  have "\<forall>b\<in>set as. b < length (p_threads ?p) \<and> down ?p b"
  proof
    fix b assume "b \<in> set as"
    with a(3) have "b \<noteq> a" by auto
    with \<open>b \<in> set as\<close> Cons.prems(2) o(3) o(4) [of b] show "b < length (p_threads ?p) \<and> down ?p b" by (simp add: down_def)
  qed
  with Cons.IH [of ?p] Cons.prems(1) o a(3) show ?case by auto
qed simp

definition counted :: "'j ThreadPool \<Rightarrow> bool" where
  "counted p \<longleftrightarrow> activeCount p = length (filter live (p_threads p))"

lemma counted_upd:
  assumes "a < length (p_threads p)" "counted p" "live (f (p_threads p ! a)) = live (p_threads p ! a)"
  shows "counted (upd_worker a f p)"
  using assms filter_update [OF assms(1), of live "f (p_threads p ! a)"] by (auto simp: counted_def upd_worker_def split: if_splits)

lemma counted_step:
  assumes "a < length (p_threads p)" "down p a" "counted p"
  shows "counted (threadFunc b now a p)"
proof (cases "w_state (p_threads p ! a)")
  case Looking
  then show ?thesis using assms filter_update [OF assms(1), of live "(p_threads p ! a)\<lparr>w_state := Gone\<rparr>"]
    by (simp add: threadFunc_def Let_def down_def counted_def upd_worker_def live_def)
next
  case (Running j)
  have "counted (p\<lparr>p_finished := p_finished p @ [j]\<rparr>)" using assms(3) by (simp add: counted_def)
  then show ?thesis using assms(1) Running by (simp add: threadFunc_def Let_def) (rule counted_upd; simp add: live_def)
qed (use assms in \<open>auto simp: threadFunc_def Let_def live_def intro!: counted_upd\<close>)

lemma counted_out:
  assumes "a < length (p_threads p)" "down p a" "counted p"
  shows "counted (run_out now a p)"
proof -
  let ?f = "threadFunc (False, False) now a"
  have "a < length (p_threads ((?f ^^ k) p)) \<and> down ((?f ^^ k) p) a \<and> counted ((?f ^^ k) p)" for k
    using assms by (induction k) (auto simp: down_step counted_step)
  then show ?thesis by (simp add: run_out_def)
qed

lemma counted_all_out:
  assumes "distinct as" "\<forall>a\<in>set as. a < length (p_threads p) \<and> down p a" "counted p"
  shows "counted (fold (run_out now) as p)"
  using assms
proof (induction as arbitrary: p)
  case (Cons a as)
  have a: "a < length (p_threads p)" "down p a" "a \<notin> set as" using Cons.prems by auto
  note o = down_out [OF a(1,2), where now = now]
  have "\<forall>b\<in>set as. b < length (p_threads (run_out now a p)) \<and> down (run_out now a p) b"
    using Cons.prems(2) o(3,4) a(3) by (auto simp: down_def) (metis o(4))+
  with Cons.IH [of "run_out now a p"] Cons.prems counted_out [OF a(1,2)] show ?case by simp
qed simp

lemma live_count: "length (filter live xs) = length (filter (\<lambda>b. b) (map live xs))"
  by (simp add: filter_map comp_def)

section \<open>Overdue workers\<close>

definition overdue :: "int \<Rightarrow> 'j ThreadPool \<Rightarrow> nat \<Rightarrow> bool" where
  "overdue now p i \<longleftrightarrow> (case m_timePoint (p_threads p ! (m_workers p ! i)) of None \<Rightarrow> False | Some tp \<Rightarrow> tp \<le> now)"

lemma expel_slot_effect:
  assumes "pinv n qs js p" "i < n"
  shows "\<not> overdue now (expel_slot now i p) i" "k < n \<Longrightarrow> k \<noteq> i \<Longrightarrow> overdue now (expel_slot now i p) k = overdue now p k"
    "expelledCount (expel_slot now i p) = expelledCount p + (if overdue now p i then 1 else 0)"
    "in_hand (expel_slot now i p) = in_hand p" "m_queues (expel_slot now i p) = m_queues p"
proof -
  have sl: "slot_ok p k" if "k < n" for k using assms(1) that by (simp add: pinv_def)
  have i: "m_workers p ! i < length (p_threads p)" "w_id (p_threads p ! (m_workers p ! i)) = i" "length (m_workers p) = n"
    using sl [OF assms(2)] assms(1) by (simp_all add: slot_ok_def Let_def pinv_def)
  note defs = expel_slot_def Let_def start_worker_def upd_worker_def overdue_def
  show "\<not> overdue now (expel_slot now i p) i"
    using i assms(2) by (auto simp: defs nth_append split: option.splits)
  show "expelledCount (expel_slot now i p) = expelledCount p + (if overdue now p i then 1 else 0)"
    by (auto simp: defs split: option.splits)
  show "m_queues (expel_slot now i p) = m_queues p" by (auto simp: defs split: option.splits)
  have "map (\<lambda>w. held (w_state w)) ((p_threads p)[m_workers p ! i := (p_threads p ! (m_workers p ! i))\<lparr>m_running_flag := False\<rparr>]) =
      map (\<lambda>w. held (w_state w)) (p_threads p)" using i(1) by (auto intro!: nth_equalityI simp: nth_list_update)
  then show "in_hand (expel_slot now i p) = in_hand p" by (auto simp: in_hand_def defs split: option.splits)
  show "overdue now (expel_slot now i p) k = overdue now p k" if "k < n" "k \<noteq> i"
  proof -
    have k: "m_workers p ! k < length (p_threads p)" "w_id (p_threads p ! (m_workers p ! k)) = k"
      using sl [OF that(1)] by (simp_all add: slot_ok_def Let_def)
    then have "m_workers p ! k \<noteq> m_workers p ! i" using i(2) that(2) by auto
    then show ?thesis using that i k by (auto simp: defs nth_append nth_list_update split: option.splits)
  qed
qed

lemma expel_upto:
  assumes "pinv n qs js p" "m \<le> n"
  shows "pinv n qs js (fold (expel_slot now) [0..<m] p) \<and> (\<forall>i<m. \<not> overdue now (fold (expel_slot now) [0..<m] p) i) \<and>
    (\<forall>i<n. m \<le> i \<longrightarrow> overdue now (fold (expel_slot now) [0..<m] p) i = overdue now p i) \<and>
    expelledCount (fold (expel_slot now) [0..<m] p) = expelledCount p + length (filter (overdue now p) [0..<m]) \<and>
    in_hand (fold (expel_slot now) [0..<m] p) = in_hand p \<and> m_queues (fold (expel_slot now) [0..<m] p) = m_queues p"
  using assms(2)
proof (induction m)
  case 0
  then show ?case using assms(1) by simp
next
  case (Suc m)
  let ?p = "fold (expel_slot now) [0..<m] p"
  have m: "m < n" and I: "pinv n qs js ?p" using Suc by simp_all
  note e = expel_slot_effect [OF I m, where now = now]
  have "\<not> overdue now (expel_slot now m ?p) i" if "i < Suc m" for i
    using e(1) e(2) [of i] that Suc m by (cases "i = m") simp_all
  moreover have "overdue now (expel_slot now m ?p) i = overdue now p i" if "i < n" "Suc m \<le> i" for i
    using e(2) [of i] that Suc by simp
  ultimately show ?case using expel_slot_inv [OF I m] e(3-5) Suc m by simp
qed

section \<open>Properties\<close>

definition demo_options :: ThreadPoolOptions where
  "demo_options = setThreadCount 2 (setQueueSize 2 (new_ThreadPoolOptions 4))"

definition demo_pool :: "nat ThreadPool" where
  "demo_pool = (case new_ThreadPool demo_options of Inr p \<Rightarrow> p | Inl _ \<Rightarrow> undefined)"

lemma demo_pool_new: "new_ThreadPool demo_options = Inr demo_pool" "m_thread_count demo_options = 2" "m_queue_size demo_options = 2"
proof -
  show q: "m_thread_count demo_options = 2" "m_queue_size demo_options = 2"
    by (simp_all add: demo_options_def setThreadCount_def setQueueSize_def new_ThreadPoolOptions_def)
  have "mpmc_new (of_nat 2 :: size_t) = (Inr demo_queue :: mpmc_error + (size_t, nat) MPMC)" using demo_queue_new by simp
  then show "new_ThreadPool demo_options = Inr demo_pool" by (simp add: demo_pool_def new_ThreadPool_def q)
qed

text \<open>
  C17. Every job is run once. In every state of the pool the jobs posted so far are, with their multiplicity, those in the queues, those a
  worker has taken and not finished, and those finished: none is lost and none is run twice, also when its worker is expelled while
  running it. Every slot has a worker that is alive and looks for jobs, and the count of active workers is the number of threads that have not left.
\<close>

theorem pool_runs_once:
  assumes "new_ThreadPool o' = Inr p0" "2 \<le> m_thread_count o'" "pool_run p0 js p"
  shows "mset js = mset (concat (m_queues p)) + mset (in_hand p) + mset (p_finished p) \<and>
    (\<forall>i < m_thread_count o'. slot_ok p i) \<and> activeCount p = length (filter live (p_threads p)) \<and>
    length (p_threads p) = m_thread_count o' + expelledCount p"
  using pool_run_inv [OF assms(3) new_pool_inv [OF assms(1,2)]] by (simp add: pinv_def)

theorem pool_runs_once_witness:
  "\<exists>p. pool_run demo_pool [5] p \<and> mset [5] = mset (concat (m_queues p)) + mset (in_hand p) + mset (p_finished p)"
proof -
  have "post [] no_worker 5 True demo_pool \<noteq> Inl e" for e by (cases e) code_simp+
  then obtain p where "post [] no_worker 5 True demo_pool = Inr p" by (metis sum.exhaust_sel)
  then have r: "pool_run demo_pool ([] @ [5]) p" by (rule pool_run.post [OF pool_run.start])
  with pool_runs_once [OF demo_pool_new(1) _ r] show ?thesis by (auto simp: demo_pool_new)
qed

lemma concat_full: "(\<forall>q\<in>set qs. length q \<le> k) \<Longrightarrow> length (concat qs) = length qs * k \<longleftrightarrow> (\<forall>q\<in>set qs. length q = k)"
proof (induction qs)
  case (Cons q qs)
  have "length (concat qs) \<le> length qs * k" using Cons.prems by (induction qs) (auto intro: add_mono)
  with Cons show ?case by auto
qed simp

lemma post_io:
  assumes "pinv n s js p" "2 \<le> n" "n < 2 ^ 32 - 1" "unat (m_next_worker p) + n < 2 ^ 64"
  shows "if length (concat (m_queues p)) = n * s then post [] no_worker j True p = Inl QueueFull
    else \<exists>p' i. post [] no_worker j True p = Inr p' \<and> i < n \<and> length (m_queues p ! i) < s \<and> m_queues p' = (m_queues p)[i := m_queues p ! i @ [j]]"
proof -
  have i: "length (m_queues p) = n" "length (m_workers p) = n" "p_queue_size p = s" "\<forall>q\<in>set (m_queues p). length q \<le> s"
    using assms(1) by (simp_all add: pinv_def)
  have "of_nat n < no_worker" using assms(3) by (simp add: no_worker_def word_less_nat_alt unat_of_nat)
  note l = post_loop_io [OF i(2,1) _ this, of n j]
  have all: "(\<forall>d < n. s \<le> length (m_queues p ! ((unat (m_next_worker p) + d) mod n))) \<longleftrightarrow> (\<forall>i < n. s \<le> length (m_queues p ! i))"
    using all_slots [of n] assms(2) by (metis mod_less_divisor not_numeral_le_zero not_gr_zero)
  have c: "length (concat (m_queues p)) = n * s \<longleftrightarrow> (\<forall>i < n. s \<le> length (m_queues p ! i))"
    using concat_full [OF i(4)] i(1,4) by (auto simp: all_set_conv_all_nth le_antisym)
  show ?thesis using l assms(2-4) all c unfolding post_def i by (auto split: sum.splits simp: i(3))
qed

text \<open>
  Where a post goes. The thread of the event loop, which is no worker, posts a job with a try for every queue. When no pop is
  under way, the post throws exactly when every queue is full; otherwise the job is appended to one queue that has room and no other changes. The
  bound on the counter of posts keeps it from wrapping during the call.
\<close>

theorem post_finds_queue:
  assumes "new_ThreadPool o' = Inr p0" "2 \<le> m_thread_count o'" "m_thread_count o' < 2 ^ 32 - 1" "pool_run p0 js p"
    and "unat (m_next_worker p) + m_thread_count o' < 2 ^ 64"
  shows "if length (concat (m_queues p)) = m_thread_count o' * m_queue_size o' then post [] no_worker j True p = Inl QueueFull
    else \<exists>p' i. post [] no_worker j True p = Inr p' \<and> i < m_thread_count o' \<and> length (m_queues p ! i) < m_queue_size o' \<and>
      m_queues p' = (m_queues p)[i := m_queues p ! i @ [j]]"
  by (rule post_io [OF pool_run_inv [OF assms(4) new_pool_inv [OF assms(1,2)]] assms(2,3,5)])

theorem post_finds_queue_witness:
  "\<exists>p'. post [] no_worker 5 True demo_pool = Inr p' \<and> (m_queues p' = [[5], []] \<or> m_queues p' = [[], [5]])"
proof -
  have q: "m_queues demo_pool = [[], []]" "m_next_worker demo_pool = 0" by code_simp+
  have "\<exists>p' i. post [] no_worker 5 True demo_pool = Inr p' \<and> i < 2 \<and> m_queues p' = (m_queues demo_pool)[i := m_queues demo_pool ! i @ [5]]"
    using post_finds_queue [OF demo_pool_new(1) _ _ pool_run.start, of 5] by (auto simp: demo_pool_new q)
  then show ?thesis by (auto simp: q less_Suc_eq numeral_2_eq_2)
qed

text \<open>
  A slow job does not keep its slot. After \<open>expelWorkers\<close> no slot has a worker whose time is over; one worker was started for each that had,
  no job was taken from a worker or from a queue, and the pool is as before otherwise.
\<close>

theorem slow_jobs_give_way:
  assumes "new_ThreadPool o' = Inr p0" "2 \<le> m_thread_count o'" "pool_run p0 js p" "p' = expelWorkers now p"
  shows "(\<forall>i < m_thread_count o'. slot_ok p' i \<and> \<not> overdue now p' i) \<and>
    expelledCount p' = expelledCount p + length (filter (overdue now p) [0..<m_thread_count o']) \<and>
    in_hand p' = in_hand p \<and> m_queues p' = m_queues p"
proof -
  have I: "pinv (m_thread_count o') (m_queue_size o') js p" by (rule pool_run_inv [OF assms(3) new_pool_inv [OF assms(1,2)]])
  then have "length (m_workers p) = m_thread_count o'" by (simp add: pinv_def)
  then have "p' = fold (expel_slot now) [0..<m_thread_count o'] p" using assms(4) by (simp add: expelWorkers_def)
  with expel_upto [OF I le_refl, of now] show ?thesis by (simp add: pinv_def)
qed

definition demo_stuck :: "nat ThreadPool" where
  "demo_stuck = threadFunc (False, False) 10 0 (threadFunc (False, False) 10 0
     (case post [] no_worker 5 True demo_pool of Inr p \<Rightarrow> p | Inl _ \<Rightarrow> undefined))"

lemma demo_stuck_run: "pool_run demo_pool [5] demo_stuck" "in_hand demo_stuck = [5]" "filter (overdue 2000 demo_stuck) [0..<2] = [0]"
proof -
  have "post [] no_worker 5 True demo_pool \<noteq> Inl e" for e by (cases e) code_simp+
  then obtain p where p: "post [] no_worker 5 True demo_pool = Inr p" by (metis sum.exhaust_sel)
  have t: "length (p_threads p) = length (p_threads demo_pool)" "length (p_threads (threadFunc b t 0 q)) = length (p_threads q)" for b t and q :: "nat ThreadPool"
  proof -
    show "length (p_threads (threadFunc b t 0 q)) = length (p_threads q)"
      by (auto simp: threadFunc_def Let_def try_pop_def split: wstate.splits option.splits list.splits if_splits)
    have "(case post [] no_worker 5 True demo_pool of Inr p \<Rightarrow> length (p_threads p) | _ \<Rightarrow> 0) = 2" "length (p_threads demo_pool) = 2" by code_simp+
    then show "length (p_threads p) = length (p_threads demo_pool)" using p by simp
  qed
  have "length (p_threads demo_pool) = 2" by code_simp
  then have "pool_run demo_pool ([] @ [5]) demo_stuck" unfolding demo_stuck_def p sum.case
    by (intro pool_run.work pool_run.post [OF pool_run.start p]) (simp_all add: t)
  then show "pool_run demo_pool [5] demo_stuck" by simp
  show "in_hand demo_stuck = [5]" "filter (overdue 2000 demo_stuck) [0..<2] = [0]" by code_simp+
qed

theorem slow_jobs_give_way_witness:
  "expelledCount (expelWorkers 2000 demo_stuck) = expelledCount demo_stuck + 1 \<and> in_hand (expelWorkers 2000 demo_stuck) = [5] \<and>
   \<not> overdue 2000 (expelWorkers 2000 demo_stuck) 0"
  using slow_jobs_give_way [OF demo_pool_new(1) _ demo_stuck_run(1) refl, of 2000] by (simp add: demo_pool_new demo_stuck_run(2,3))

text \<open>
  C18. The pool stops. Once the destructor has lowered the flags of the current workers, every thread of the pool, the expelled ones
  included, leaves its loop after four more steps if its handler returns; then no thread is active, which ends the destructor's wait. The jobs still
  in the queues are not run.
\<close>

theorem pool_stops:
  assumes "new_ThreadPool o' = Inr p0" "2 \<le> m_thread_count o'" "pool_run p0 js p"
    and "p' = fold (run_out now) [0..<length (p_threads p)] (stop_all p)"
  shows "activeCount p' = 0 \<and> (\<forall>w\<in>set (p_threads p'). w_state w = Gone) \<and> m_queues p' = m_queues p"
proof -
  let ?N = "length (p_threads p)"
  have I: "pinv (m_thread_count o') (m_queue_size o') js p" by (rule pool_run_inv [OF assms(3) new_pool_inv [OF assms(1,2)]])
  have th: "thread_ok2 (m_thread_count o') p a" if "a < ?N" for a using I that by (simp add: pinv_def)
  have sl: "list_all (\<lambda>a. a < ?N) (m_workers p)" "length (m_workers p) = m_thread_count o'"
    using I by (auto simp: pinv_def slot_ok_def Let_def list_all_length)
  note f = stop_flag [OF sl(1)]
  have down: "down (stop_all p) a" if "a < ?N" for a
    using f [OF that] th [OF that] sl(2) unfolding stop_all_def down_def
    by (auto simp: thread_ok2_def Let_def in_set_conv_nth)
  have len: "length (p_threads (stop_all p)) = ?N" "m_queues (stop_all p) = m_queues p" "activeCount (stop_all p) = activeCount p"
    by (simp_all add: stop_all_def fold_upd_worker)
  have "map live (p_threads (stop_all p)) = map live (p_threads p)"
    by (rule nth_equalityI) (simp_all add: len f [folded stop_all_def] live_def)
  then have "counted (stop_all p)" using I len(3)
    by (simp add: counted_def pinv_def live_count)
  have as: "distinct [0..<?N]" "\<forall>a\<in>set [0..<?N]. a < length (p_threads (stop_all p)) \<and> down (stop_all p) a"
    using down len(1) by simp_all
  have "\<forall>a<?N. w_state (p_threads p' ! a) = Gone" "m_queues p' = m_queues p" "length (p_threads p') = ?N"
    using all_out [OF as, of now] len assms(4) by auto
  moreover from this(1,3) have g: "\<forall>w\<in>set (p_threads p'). w_state w = Gone" by (simp add: all_set_conv_all_nth)
  moreover have "counted p'" using counted_all_out [OF as \<open>counted (stop_all p)\<close>] assms(4) by simp
  then have "activeCount p' = 0" using g by (simp add: counted_def live_def)
  ultimately show ?thesis by simp
qed

theorem pool_stops_witness:
  "activeCount (fold (run_out 20) [0..<length (p_threads demo_stuck)] (stop_all demo_stuck)) = 0"
  using pool_stops [OF demo_pool_new(1) _ demo_stuck_run(1) refl, of 20] by (simp add: demo_pool_new)

text \<open>
  A worker that posts tries its own queue only: when that queue is full the post throws although another queue is empty, against the
  documentation of \<^verbatim>\<open>to_any_queue\<close>.
\<close>

theorem worker_posts_to_itself:
  "post [] 0 9 True (demo_pool\<lparr>m_queues := [[7, 8], []]\<rparr>) = Inl QueueFull"
  by code_simp

end
