(* ===== verification/Client_Log.thy ===== *)
theory Client_Log
  imports Task_Manager
begin

text \<open>
  Tasks and the connections they answer. A task of a client holds its connection until it answers; what an operation of \<^verbatim>\<open>TaskManager\<close> does to
  the connections is read off \<open>tm_out\<close>: \<open>told S tm tm'\<close> says that, among the tasks, only those of \<open>S\<close> have let a connection go, that each of them
  has finished it by a reply, and that no connection was finished that its task still holds, nor one twice
  when no two tasks hold the same.
\<close>

definition client_of :: "('l, 'g) TaskManager \<Rightarrow> task_id \<Rightarrow> nat option" where
  "client_of tm b = (case t_kind (tm_tasks tm b) of ClientTask co \<Rightarrow> co | _ \<Rightarrow> None)"

lemma client_of_Some: "client_of tm b = Some c \<longleftrightarrow> t_kind (tm_tasks tm b) = ClientTask (Some c)"
  by (simp add: client_of_def split: task_kind.split)

definition new_outs :: "('l, 'g) TaskManager \<Rightarrow> ('l, 'g) TaskManager \<Rightarrow> out_event list" where
  "new_outs tm tm' = drop (length (tm_out tm)) (tm_out tm')"

fun is_finish :: "out_event \<Rightarrow> bool" where
  "is_finish (FinishClient c) = True"
| "is_finish _ = False"

lemma is_finish_iff: "is_finish e \<longleftrightarrow> (\<exists>c. e = FinishClient c)"
  by (cases e) auto

definition one_task :: "('l, 'g) TaskManager \<Rightarrow> bool" where
  "one_task tm \<longleftrightarrow> (\<forall>x y c. client_of tm x = Some c \<longrightarrow> client_of tm y = Some c \<longrightarrow> x = y)"

definition told :: "task_id set \<Rightarrow> ('l, 'g) TaskManager \<Rightarrow> ('l, 'g) TaskManager \<Rightarrow> bool" where
  "told S tm tm' \<longleftrightarrow> tm_next tm \<le> tm_next tm' \<and> prefix (tm_out tm) (tm_out tm') \<and>
     (\<forall>b. client_of tm' b \<noteq> client_of tm b \<longrightarrow>
        b \<in> S \<and> client_of tm' b = None \<and> FinishClient (the (client_of tm b)) \<in> set (new_outs tm tm')) \<and>
     (\<forall>c. FinishClient c \<in> set (new_outs tm tm') \<longrightarrow> (\<exists>b\<in>S. client_of tm b = Some c \<and> client_of tm' b = None)) \<and>
     (one_task tm \<longrightarrow> distinct (filter is_finish (new_outs tm tm')))"

definition quiet :: "('l, 'g) TaskManager \<Rightarrow> ('l, 'g) TaskManager \<Rightarrow> bool" where
  "quiet tm tm' \<longleftrightarrow> tm_next tm = tm_next tm' \<and> client_of tm' = client_of tm \<and> prefix (tm_out tm) (tm_out tm') \<and>
     (\<forall>c. FinishClient c \<notin> set (new_outs tm tm'))"

lemma new_outs_trans:
  "prefix (tm_out a) (tm_out b) \<Longrightarrow> prefix (tm_out b) (tm_out c) \<Longrightarrow> new_outs a c = new_outs a b @ new_outs b c"
  by (auto simp: new_outs_def prefix_def)

lemma quiet_trans: "quiet a b \<Longrightarrow> quiet b c \<Longrightarrow> quiet a c"
  unfolding quiet_def using new_outs_trans [of a b c] prefix_order.trans [of "tm_out a" "tm_out b" "tm_out c"] by simp

lemma quiet_refl [simp]: "quiet tm tm"
  by (simp add: quiet_def new_outs_def)

lemma quiet_told: "quiet tm tm' \<Longrightarrow> told S tm tm'"
proof -
  assume q: "quiet tm tm'"
  then have "filter is_finish (new_outs tm tm') = []" by (auto simp: quiet_def is_finish_iff filter_empty_conv)
  with q show ?thesis by (simp add: quiet_def told_def)
qed

lemma told_refl [simp]: "told S tm tm"
  by (simp add: quiet_told)

lemma told_mono: "told S tm tm' \<Longrightarrow> S \<subseteq> T \<Longrightarrow> told T tm tm'"
  unfolding told_def by blast

lemma told_keeps: "told S a b \<Longrightarrow> x \<notin> S \<or> client_of a x = None \<Longrightarrow> client_of b x = client_of a x"
  unfolding told_def by metis

lemma told_lost: "told S a b \<Longrightarrow> client_of b x \<noteq> client_of a x \<Longrightarrow>
    x \<in> S \<and> client_of b x = None \<and> FinishClient (the (client_of a x)) \<in> set (new_outs a b)"
  unfolding told_def by blast

lemma told_finished: "told S a b \<Longrightarrow> FinishClient c \<in> set (new_outs a b) \<Longrightarrow> \<exists>x\<in>S. client_of a x = Some c \<and> client_of b x = None"
  unfolding told_def by blast

lemma told_prefix: "told S a b \<Longrightarrow> prefix (tm_out a) (tm_out b) \<and> tm_next a \<le> tm_next b"
  unfolding told_def by blast

lemma told_one: "told S a b \<Longrightarrow> one_task a \<Longrightarrow> distinct (filter is_finish (new_outs a b))"
  unfolding told_def by blast

lemma told_one_task: "told S a b \<Longrightarrow> one_task a \<Longrightarrow> one_task b"
  unfolding one_task_def using told_lost by (metis option.distinct(1))

lemma told_trans:
  assumes "told S a b" "told S b c" shows "told S a c"
proof -
  have o: "new_outs a c = new_outs a b @ new_outs b c"
    using told_prefix [OF assms(1)] told_prefix [OF assms(2)] by (simp add: new_outs_trans)
  have p: "tm_next a \<le> tm_next c" "prefix (tm_out a) (tm_out c)"
    using told_prefix [OF assms(1)] told_prefix [OF assms(2)] prefix_order.trans by (force, blast)
  have l: "x \<in> S \<and> client_of c x = None \<and> FinishClient (the (client_of a x)) \<in> set (new_outs a c)" if n: "client_of c x \<noteq> client_of a x" for x
  proof (cases "client_of b x = client_of a x")
    case True
    then show ?thesis using told_lost [OF assms(2), of x] n by (simp add: o)
  next
    case False
    then show ?thesis using told_lost [OF assms(1), of x] told_keeps [OF assms(2), of x] by (simp add: o)
  qed
  have f: "\<exists>x\<in>S. client_of a x = Some k \<and> client_of c x = None" if k: "FinishClient k \<in> set (new_outs a c)" for k
  proof (cases "FinishClient k \<in> set (new_outs a b)")
    case True
    then obtain x where "x \<in> S" "client_of a x = Some k" "client_of b x = None" using told_finished [OF assms(1)] by blast
    moreover from this have "client_of c x = None" using told_keeps [OF assms(2), of x] by simp
    ultimately show ?thesis by blast
  next
    case False
    then obtain x where x: "x \<in> S" "client_of b x = Some k" "client_of c x = None" using k told_finished [OF assms(2)] by (auto simp: o)
    then have "client_of a x = Some k" using told_lost [OF assms(1), of x] by (cases "client_of b x = client_of a x") auto
    with x show ?thesis by blast
  qed
  have d: "distinct (filter is_finish (new_outs a c))" if one: "one_task a"
  proof -
    have "FinishClient k \<notin> set (new_outs b c)" if k: "FinishClient k \<in> set (new_outs a b)" for k
    proof
      assume "FinishClient k \<in> set (new_outs b c)"
      then obtain y where y: "client_of b y = Some k" using told_finished [OF assms(2)] by blast
      then have "client_of a y = Some k" using told_lost [OF assms(1), of y] by (cases "client_of b y = client_of a y") auto
      moreover obtain x where "client_of a x = Some k" "client_of b x = None" using told_finished [OF assms(1) k] by blast
      ultimately show False using one y unfolding one_task_def by (metis option.distinct(1))
    qed
    then show ?thesis
      using told_one [OF assms(1) one] told_one [OF assms(2) told_one_task [OF assms(1) one]] by (auto simp: o is_finish_iff)
  qed
  show ?thesis unfolding told_def using p l f d by blast
qed

lemmas told_quiet = told_trans [OF _ quiet_told]
lemmas quiet_told_trans = told_trans [OF quiet_told]

section \<open>The operations on one task\<close>

named_theorems tm_quiet

lemma quiet_fields [tm_quiet]:
  "tm_tasks tm' = tm_tasks tm \<Longrightarrow> tm_next tm' = tm_next tm \<Longrightarrow> tm_out tm' = tm_out tm \<Longrightarrow> quiet tm tm'"
  by (simp add: quiet_def client_of_def fun_eq_iff new_outs_def)

lemma quiet_upd_task: "t_kind (f (tm_tasks tm b)) = t_kind (tm_tasks tm b) \<Longrightarrow> quiet tm (upd_task b f tm)"
  by (simp add: quiet_def client_of_def fun_eq_iff new_outs_def upd_task_def)

lemma quiet_emit: "(\<And>c. e \<noteq> FinishClient c) \<Longrightarrow> quiet tm (emit e tm)"
  by (auto simp: quiet_def client_of_def fun_eq_iff new_outs_def emit_def)

lemma quiet_count: "quiet tm (count_by c n tm)"
  by (rule quiet_fields) (simp_all add: count_by_def)

lemma quiet_schedule: "quiet tm (schedule E b tm)"
  by (auto simp: schedule_def timer_push_def upd_task_def quiet_def client_of_def fun_eq_iff new_outs_def split: task_kind.split prod.split)

lemma quiet_finalize: "quiet tm (finalize E b tm)"
  by (simp add: finalize_def releaseItself_def quiet_upd_task quiet_schedule split: task_kind.split)

lemma quiet_getId: "quiet tm (snd (getId E b tm))"
  by (auto simp: getId_def Let_def upd_task_def quiet_def client_of_def fun_eq_iff new_outs_def)

lemma quiet_respond_send: "quiet tm (respond_send c st s tm)"
proof -
  obtain code cnt where r: "resp_code_of st = (code, cnt)" by fastforce
  define tm1 where "tm1 = (case cnt of None \<Rightarrow> tm | Some c \<Rightarrow> count_by c 1 tm)"
  have 1: "quiet tm tm1" unfolding tm1_def by (simp add: quiet_count split: option.split)
  have 2: "quiet tm1 (emit (SendReply c code s) tm1)" "quiet tm1 (emit (SendErrorReply c code s) tm1)" by (rule quiet_emit, simp)+
  have 3: "quiet tm1 (count_by HttpRespBytes (byte_delta (length s)) (emit (SendReply c code s) tm1))"
    by (rule quiet_trans [OF 2(1) quiet_count])
  show ?thesis unfolding respond_send_def r prod.case Let_def tm1_def [symmetric]
    using quiet_trans [OF 1 3] quiet_trans [OF 1 2(2)] by simp
qed

lemma told_finish:
  assumes "client_of tm b = Some c" "tm_tasks tm' = (tm_tasks tm)(b := t)" "t_kind t = ClientTask None"
    "tm_out tm' = tm_out tm @ [FinishClient c]" "tm_next tm' = tm_next tm"
  shows "told {b} tm tm'"
proof -
  have "client_of tm' x = (if x = b then None else client_of tm x)" for x by (simp add: client_of_def assms(2,3))
  then show ?thesis using assms(1,4,5) by (simp add: told_def new_outs_def)
qed

lemma told_respond: "told {b} tm (respond b s tm)"
proof (cases "client_of tm b")
  case None
  have "quiet tm (onClientDone tm)" by (rule quiet_fields) (simp_all add: onClientDone_def)
  then show ?thesis using None by (auto simp: respond_def client_of_def Let_def quiet_told split: task_kind.splits)
next
  case (Some c)
  let ?st = "t_status (tm_tasks tm b)"
  define tm1 where "tm1 = respond_send c ?st s tm"
  have q: "quiet tm tm1" unfolding tm1_def by (rule quiet_respond_send)
  then have k: "client_of tm1 b = Some c" using Some by (simp add: quiet_def)
  have r: "respond b s tm = upd_task b (\<lambda>t. t\<lparr>t_kind := ClientTask None\<rparr>)
      (if ?st \<noteq> StAgain then onClientDone (emit (FinishClient c) tm1) else emit (FinishClient c) tm1)"
    using Some by (simp add: respond_def client_of_Some Let_def tm1_def)
  have "told {b} tm1 (respond b s tm)"
    by (rule told_finish [OF k, of _ "(tm_tasks tm1 b)\<lparr>t_kind := ClientTask None\<rparr>"])
      (simp_all add: r upd_task_def onClientDone_def emit_def)
  then show ?thesis by (rule quiet_told_trans [OF q])
qed

lemma told_respondAndDie: "told {b} tm (respondAndDie E b s die tm)"
proof -
  define tm1 where "tm1 = (case t_kind (tm_tasks tm b) of ClientTask _ \<Rightarrow> respond b s tm | _ \<Rightarrow> tm)"
  have "told {b} tm tm1" unfolding tm1_def by (simp add: told_respond split: task_kind.split)
  moreover have "quiet tm1 (respondAndDie E b s die tm)"
  proof -
    define tm2 where "tm2 = (if m_uuid (t_ctx (tm_tasks tm1 b)) \<noteq> 0
      then tm1\<lparr>m_postponedTasks := (m_postponedTasks tm1)(m_uuid (t_ctx (tm_tasks tm1 b)) := None)\<rparr> else tm1)"
    have "quiet tm1 tm2" unfolding tm2_def by (simp add: quiet_fields)
    then show ?thesis unfolding respondAndDie_def Let_def tm1_def [symmetric] tm2_def [symmetric]
      by (simp add: quiet_trans [OF _ quiet_finalize])
  qed
  ultimately show ?thesis by (rule told_quiet)
qed

lemma quiet_us_send: "quiet tm (us_send E us tm)"
proof -
  have k: "client_of (us_send E us tm) = client_of tm" "tm_next (us_send E us tm) = tm_next tm"
    by (auto simp: us_send_def Let_def getId_def upd_task_def client_of_def fun_eq_iff emit_def count_by_def split: option.split prod.split if_splits)
  have "\<exists>bt url eh b. tm_out (us_send E us tm) = tm_out tm @ [SendUpstream bt url eh b]"
    by (auto simp: us_send_def Let_def getId_def upd_task_def emit_def count_by_def split: option.split prod.split if_splits)
  then show ?thesis using k by (auto simp: quiet_def new_outs_def)
qed

lemma quiet_start_sender: "quiet tm (start_sender E r tm)"
  by (auto simp: start_sender_def Let_def intro!: quiet_fields quiet_trans [OF quiet_fields quiet_us_send] split: option.split)

lemma quiet_sendUpstream: "sendUpstream E b tm = Inr tm' \<Longrightarrow> quiet tm tm'"
  by (auto simp: sendUpstream_def quiet_start_sender split: sum.splits)

lemma quiet_call_handler:
  assumes "call_handler h b after tm = Inr tm'" "\<And>st t. t_kind (after st t) = t_kind t"
  shows "quiet tm tm'"
proof -
  obtain f g where "tm' = (upd_task b f tm)\<lparr>m_gcm := g\<rparr>" "t_kind (f (tm_tasks tm b)) = t_kind (tm_tasks tm b)"
    using assms by (auto simp: call_handler_def Let_def split: handler_result.splits)
  then show ?thesis using quiet_trans [OF quiet_upd_task quiet_fields, of f tm b tm'] by (simp add: upd_task_def)
qed

lemma kind_after [simp]: "t_kind (take_output c t) = t_kind t" "t_kind (setLastStatus st t) = t_kind t" "t_kind (setError e st t) = t_kind t"
  by (simp_all add: take_output_def setLastStatus_def setError_def)

lemma quiet_run:
  "runPreAction b tm = Inr tm' \<Longrightarrow> quiet tm tm'" "runPostAction b tm = Inr tm' \<Longrightarrow> quiet tm tm'"
  "runWorkerActionFromTheThreadPool b tm = Inr tm' \<Longrightarrow> quiet tm tm'"
  by (auto simp: runPreAction_def runPostAction_def runWorkerActionFromTheThreadPool_def Let_def elim!: quiet_call_handler split: option.splits)

lemma quiet_runWorkerAction: "quiet tm (runWorkerAction b tm)"
  unfolding runWorkerAction_def by (simp add: quiet_fields)

lemma quiet_postponeTask: "quiet tm (postponeTask E b tm)"
proof -
  obtain u tm1 where g: "getId E b tm = (u, tm1)" by fastforce
  have 1: "quiet tm tm1" using quiet_getId [of tm E b] g by simp
  obtain r fut where e: "el_extract (tm_now tm1) u (m_futurePostponeUuids tm1) = (r, fut)" by fastforce
  have "quiet tm1 (postponeTask E b tm)"
    using quiet_trans [OF quiet_upd_task quiet_fields, of "\<lambda>t. t\<lparr>t_input := the r\<rparr>" tm1 b "postponeTask E b tm"]
    by (cases r) (simp_all add: postponeTask_def g e upd_task_def quiet_fields)
  then show ?thesis by (rule quiet_trans [OF 1])
qed

lemma told_processOk: "told {b} tm (processOk E b tm)"
proof -
  let ?u = "m_nextUuid (t_ctx (tm_tasks tm b))"
  define tm1 where "tm1 = (if ?u = 0 then tm
     else case m_postponedTasks tm ?u of
            None \<Rightarrow> tm\<lparr>m_futurePostponeUuids := el_add (tm_now tm) ?u (t_input (tm_tasks tm b)) (m_futurePostponeUuids tm)\<rparr>
          | Some bt_next \<Rightarrow> (upd_task bt_next (\<lambda>t. t\<lparr>t_input := t_input (tm_tasks tm b)\<rparr>) tm)
              \<lparr>m_readyToResume := m_readyToResume tm @ [bt_next], m_postponedTasks := (m_postponedTasks tm)(?u := None)\<rparr>)"
  have "quiet tm tm1"
  proof (cases "m_postponedTasks tm ?u")
    case (Some n)
    then show ?thesis
      using quiet_trans [OF quiet_upd_task quiet_fields, of "\<lambda>t. t\<lparr>t_input := t_input (tm_tasks tm b)\<rparr>" tm n tm1]
      by (cases "?u = 0") (simp_all add: tm1_def upd_task_def)
  qed (simp add: tm1_def quiet_fields)
  then show ?thesis unfolding processOk_def Let_def tm1_def [symmetric] by (rule quiet_told_trans [OF _ told_respondAndDie])
qed

lemma told_overflow: "told {b} tm (checkThreadPoolOverflow E b tm)"
  unfolding checkThreadPoolOverflow_def by (simp add: quiet_told_trans [OF quiet_upd_task told_respondAndDie])

lemma told_run_action: "run_action E a b tm = Inr tm' \<Longrightarrow> told {b} tm tm'"
  by (cases a) (auto simp: processForward_def told_overflow told_processOk told_respondAndDie quiet_postponeTask quiet_runWorkerAction
      intro: quiet_told dest: quiet_sendUpstream quiet_run)

lemma told_process: "process E b st tm = Inr (st', tm') \<Longrightarrow> told {b} tm tm'"
  by (auto simp: process_def split: option.splits sum.splits dest: told_run_action)

lemma told_dispatch: "dispatch E n b st tm = Some (Inr tm') \<Longrightarrow> told {b} tm tm'"
proof (induction n arbitrary: st tm)
  case 0
  then show ?case by (cases st) simp_all
next
  case (Suc n)
  show ?case
  proof (cases "st = EXIT")
    case False
    then have d: "dispatch E (Suc n) b st tm = (case process E b st tm of Inl e \<Rightarrow> Some (Inl e) | Inr (st', tm') \<Rightarrow> dispatch E n b st' tm')"
      by (cases st) simp_all
    then obtain st1 tm1 where p: "process E b st tm = Inr (st1, tm1)" and "dispatch E n b st1 tm1 = Some (Inr tm')"
      using Suc.prems by (auto split: sum.splits)
    then show ?thesis using Suc.IH told_trans [OF told_process [OF p]] by blast
  qed (use Suc.prems in simp)
qed

lemma told_Execute: "Execute E n b tm = Some (Inr tm') \<Longrightarrow> told {b} tm tm'"
  unfolding Execute_def by (rule told_dispatch)

section \<open>The events\<close>

lemma told_any: "told S tm tm' \<Longrightarrow> told UNIV tm tm'"
  by (simp add: told_mono)

lemma told_onTimer: "onTimer E n b tm = Some (Inr tm') \<Longrightarrow> told UNIV tm tm'"
  unfolding onTimer_def using quiet_told_trans [OF quiet_upd_task told_any [OF told_Execute]] by (metis kind_after(2))

lemma told_graft_job: "graft_job b tm = Inr tm' \<Longrightarrow> told UNIV tm tm'"
proof -
  assume "graft_job b tm = Inr tm'"
  then obtain tm1 where r: "runWorkerActionFromTheThreadPool b tm = Inr tm1"
    and t: "tm' = tm1\<lparr>tm_jobs := remove1 b (tm_jobs tm1), m_resQueue := m_resQueue tm1 @ [b]\<rparr>"
    by (auto simp: graft_job_def split: sum.splits)
  have "quiet tm1 tm'" unfolding t by (rule quiet_fields) simp_all
  then show ?thesis using quiet_run(3) [OF r] by (blast intro: quiet_told quiet_trans)
qed

lemma told_cb_event: "cb_event E n k tm = Some (Inr tm') \<Longrightarrow> told UNIV tm tm'"
proof (induction k arbitrary: tm)
  case (Suc k)
  show ?case
  proof (cases "m_resQueue tm")
    case Nil
    then show ?thesis using Suc.prems by (simp add: tryProcessReadyJob_def)
  next
    case (Cons b q)
    let ?tm = "tm\<lparr>m_resQueue := q, m_cntJobDone := m_cntJobDone tm + 1\<rparr>"
    obtain tm1 where d: "dispatch E n b WORKER_ACTION_DONE ?tm = Some (Inr tm1)" and c: "cb_event E n k tm1 = Some (Inr tm')"
      using Suc.prems Cons by (auto simp: tryProcessReadyJob_def split: option.splits sum.splits)
    have "quiet tm ?tm" by (rule quiet_fields) simp_all
    from quiet_told_trans [OF this told_any [OF told_dispatch [OF d]]] Suc.IH [OF c] show ?thesis by (rule told_trans)
  qed
qed simp

lemma told_upstreamDone: "upstreamDoneProcess E n us st err tm = Some (Inr tm') \<Longrightarrow> told UNIV tm tm'"
proof -
  assume a: "upstreamDoneProcess E n us st err tm = Some (Inr tm')"
  define tm1 where "tm1 = count_by (if st = StOk then UpstrmRespOk else UpstrmRespErr) 1 tm"
  have q: "quiet tm tm1" unfolding tm1_def by (rule quiet_count)
  have d: "told UNIV tm1 (respondAndDie E b s True (upd_task b (setError e s') tm1))" for b s e s'
    by (rule told_any [OF quiet_told_trans [OF quiet_upd_task told_respondAndDie]]) simp
  have p: "told UNIV tm1 (tm1\<lparr>tm_promises := p\<rparr>)" for p by (rule quiet_told [OF quiet_fields]) simp_all
  have "told UNIV tm1 tm'"
    using a unfolding upstreamDoneProcess_def Let_def tm1_def [symmetric]
    by (auto split: task_kind.splits if_splits intro: d p told_any [OF told_Execute])
  then show ?thesis by (rule quiet_told_trans [OF q])
qed

lemma told_onUpstreamEvent: "onUpstreamEvent E n us ev reply len tm = Some (Inr tm') \<Longrightarrow> told UNIV tm tm'"
proof -
  assume a: "onUpstreamEvent E n us ev reply len tm = Some (Inr tm')"
  obtain st err cl where e: "ev_handler_us us ev = (st, err, cl)" by (cases "ev_handler_us us ev")
  define tm1 where "tm1 = (if ev = EvHttpReply then count_by UpstrmRespBytes (byte_delta len) (upd_task (us_task us) (\<lambda>t. t\<lparr>t_input := reply\<rparr>) tm) else tm)"
  define tm2 where "tm2 = tm1\<lparr>tm_senders := remove1 us (tm_senders tm1), m_upstreamManager := um_done (m_upstreamManager tm1)\<rparr>"
  have "quiet tm tm1" unfolding tm1_def by (simp add: quiet_trans [OF quiet_upd_task quiet_count])
  moreover have "quiet tm1 tm2" unfolding tm2_def by (rule quiet_fields) simp_all
  ultimately have q: "quiet tm tm2" by (rule quiet_trans)
  obtain tm3 r where "upstreamDoneProcess E n us st err tm2 = Some (Inr tm3)" and t: "tm' = start_sender E r tm3"
    using a unfolding onUpstreamEvent_def e prod.case Let_def tm1_def [symmetric] tm2_def [symmetric]
    by (auto split: option.splits sum.splits)
  then have "told UNIV tm tm3" using quiet_told_trans [OF q] told_upstreamDone by blast
  then show ?thesis unfolding t by (rule told_quiet [OF _ quiet_start_sender])
qed

lemma told_resume_all: "resume_all E n k tm = Some (Inr tm') \<Longrightarrow> told UNIV tm tm'"
proof (induction k arbitrary: tm)
  case 0
  then show ?case by (subst (asm) resume_all.simps) (auto split: list.splits)
next
  case (Suc k)
  show ?case
  proof (cases "m_readyToResume tm")
    case (Cons b q)
    then obtain tm1 where x: "Execute E n b (snd (getId E b tm)) = Some (Inr tm1)"
      and r: "resume_all E n k (tm1\<lparr>m_readyToResume := tl (m_readyToResume tm1)\<rparr>) = Some (Inr tm')"
      using Suc.prems by (subst (asm) resume_all.simps) (auto split: option.splits sum.splits)
    have "quiet tm1 (tm1\<lparr>m_readyToResume := tl (m_readyToResume tm1)\<rparr>)" by (rule quiet_fields) simp_all
    then have "told UNIV tm (tm1\<lparr>m_readyToResume := tl (m_readyToResume tm1)\<rparr>)"
      by (rule told_quiet [OF quiet_told_trans [OF quiet_getId told_any [OF told_Execute [OF x]]]])
    then show ?thesis using Suc.IH [OF r] by (rule told_trans)
  qed (use Suc.prems in \<open>subst (asm) resume_all.simps, simp\<close>)
qed

lemma told_expire_task: "told UNIV tm (expire_task E u tm)"
  unfolding expire_task_def
  by (auto split: option.split intro!: told_any [OF quiet_told_trans [OF quiet_trans [OF quiet_getId quiet_upd_task] told_respondAndDie]])

lemma told_expire_loop: "told UNIV tm (expire_loop E q tm)"
proof (induction E q tm rule: expire_loop.induct)
  case (2 E t u q tm)
  have "told UNIV tm (tm\<lparr>m_expireTaskQueue := x\<rparr>)" for x by (rule quiet_told [OF quiet_fields]) simp_all
  then show ?case using 2 told_trans [OF told_expire_task 2] by simp
qed (simp add: quiet_told [OF quiet_fields])

lemma told_postponed: "executePostponedTasks E n k tm = Some (Inr tm') \<Longrightarrow> told UNIV tm tm'"
  by (auto simp: executePostponedTasks_def split: option.splits sum.splits dest!: told_resume_all intro: told_trans [OF _ told_expire_loop])

lemma told_timers: "timer_eval E n k tm = Some (Inr tm') \<Longrightarrow> told UNIV tm tm'"
proof (induction k arbitrary: tm)
  case 0
  then show ?case by (subst (asm) timer_eval.simps) (auto split: list.splits if_splits)
next
  case (Suc k)
  show ?case
  proof (cases "\<exists>t q. m_timerList tm = t # q \<and> timer_fired tm t")
    case True
    then obtain t q where t: "m_timerList tm = t # q" "timer_fired tm t" by blast
    then obtain tm1 where x: "onTimer E n (tm_ptr t) (tm\<lparr>m_timerList := q\<rparr>) = Some (Inr tm1)" and r: "timer_eval E n k tm1 = Some (Inr tm')"
      using Suc.prems by (subst (asm) timer_eval.simps) (auto split: option.splits sum.splits)
    have "quiet tm (tm\<lparr>m_timerList := q\<rparr>)" by (rule quiet_fields) simp_all
    from quiet_told_trans [OF this told_onTimer [OF x]] Suc.IH [OF r] show ?thesis by (rule told_trans)
  next
    case False
    then show ?thesis using Suc.prems by (subst (asm) timer_eval.simps) (auto split: list.splits)
  qed
qed

text \<open>A task is made under a number that no client task has.\<close>

definition fresh_tasks :: "('l, 'g) TaskManager \<Rightarrow> bool" where
  "fresh_tasks tm \<longleftrightarrow> (\<forall>b\<ge>tm_next tm. client_of tm b = None)"

lemma told_fresh: "told S tm tm' \<Longrightarrow> fresh_tasks tm \<Longrightarrow> fresh_tasks tm'"
  unfolding fresh_tasks_def using told_keeps told_prefix by (metis order_trans)

lemma quiet_create:
  assumes "fresh_tasks tm" "t_kind t \<in> range PeriodicTask \<union> range UpstreamTask"
  shows "told S tm (snd (create_task t tm))"
proof -
  have "client_of (snd (create_task t tm)) = client_of tm"
    using assms by (auto simp: create_task_def client_of_def fun_eq_iff fresh_tasks_def)
  then show ?thesis by (simp add: told_def new_outs_def create_task_def)
qed

lemma told_blocking:
  fixes tm :: "('l, 'g) TaskManager"
  assumes "upstreamBlocking E out l tm = Inr tm'" "fresh_tasks tm"
  shows "told UNIV tm tm'"
proof -
  define t :: "('l, 'g) Task" where "t = new_Task (UpstreamTask out) empty_Input [] \<lparr>pre_action = None, worker_action = None, post_action = None, h3_name = []\<rparr> l"
  have "told UNIV tm (snd (create_task t tm))" using assms(2) by (rule quiet_create) (simp add: t_def new_Task_def)
  moreover have "quiet (snd (create_task t tm)) tm'"
    using assms(1) by (simp add: upstreamBlocking_def Let_def split_beta quiet_sendUpstream flip: t_def)
  ultimately show ?thesis by (rule told_quiet)
qed

lemma told_periodic:
  assumes "fresh_tasks tm"
  shows "told UNIV tm (addPeriodicTask E h3 l i ii f tm)"
proof -
  define t where "t = new_Task (PeriodicTask \<lparr>m_timeout_ms = i, m_initial_timeout_ms = (case ii of None \<Rightarrow> i | Some i \<Rightarrow> i),
    m_random_factor = f, m_initial_run = True\<rparr>) empty_Input [] h3 l"
  have "told UNIV tm (snd (create_task t tm))" using assms by (rule quiet_create) (simp add: t_def new_Task_def)
  then show ?thesis unfolding addPeriodicTask_def Let_def t_def [symmetric] by (simp add: split_beta told_quiet [OF _ quiet_schedule])
qed

end
