(* ===== verification/Graftlet_Deps.thy ===== *)
theory Graftlet_Deps
  imports Ordered_Map Text_Scan "HOL-Library.Word" "HOL-Library.List_Lexorder" "HOL-Library.Char_ord"
begin

text \<open>
  The dependency graph of the graftlets (\<^verbatim>\<open>GraftletLoader::DependencyGraph\<close> in \<^verbatim>\<open>GraftletLoader.cpp\<close>): reading the dependencies, removing the graftlets
  whose dependencies are not met, and the search for cycles by depth first search with three colours.
\<close>

unbundle bit_operations_syntax

section \<open>The graph\<close>

type_synonym dep_list = "(string \<times> int) list"

record DependencyGraph =
  m_graph :: "(string \<times> dep_list) list"
  m_dll2ver :: "(string \<times> int) list"

definition empty_graph :: DependencyGraph where
  "empty_graph = \<lparr>m_graph = [], m_dll2ver = []\<rparr>"

datatype graftlet_error =
    StoiOutOfRange | VersionShift | GraftletAssert string | MissingVertex string | CycleFound string
  | LibraryThrows | GraftletThrows string | DuplicateException string

definition GRAFTLET_MKVER :: "int \<Rightarrow> int \<Rightarrow> graftlet_error + int" where
  "GRAFTLET_MKVER Ma mi =
    (if 2 ^ 24 \<le> Ma then Inl VersionShift
     else Inr (sint (push_bit 8 (word_of_int Ma :: 32 word) OR word_of_int mi)))"

definition stoi :: "string \<Rightarrow> graftlet_error + int" where
  "stoi w = (let n = int (num_val 10 w) in if n < 2 ^ 31 then Inr n else Inl StoiOutOfRange)"

text \<open>\<^verbatim>\<open>^\s*([^:\s]*)\s*(:\s*([0-9]+)\s*(\.\s*([0-9]+))?)?\s*$\<close>: the name and the digits of the two numbers.\<close>

definition parse_minor :: "string \<Rightarrow> string option option" where
  "parse_minor s =
    (if s = [] then Some None
     else if hd s \<noteq> CHR ''.'' then None
     else let t = dropWhile rx_space (tl s); mi = takeWhile rx_digit t
          in if mi = [] \<or> dropWhile rx_space (drop (length mi) t) \<noteq> [] then None else Some (Some mi))"

definition parse_version :: "string \<Rightarrow> (string \<times> string option) option option" where
  "parse_version s =
    (if s = [] then Some None
     else if hd s \<noteq> CHR '':'' then None
     else let t = dropWhile rx_space (tl s); ma = takeWhile rx_digit t
          in if ma = [] then None
             else map_option (\<lambda>mi. Some (ma, mi)) (parse_minor (dropWhile rx_space (drop (length ma) t))))"

definition parse_dep :: "string \<Rightarrow> (string \<times> (string \<times> string option) option) option" where
  "parse_dep s =
    (let t = dropWhile rx_space s; name = takeWhile (\<lambda>c. c \<noteq> CHR '':'' \<and> \<not> rx_space c) t
     in map_option (Pair name) (parse_version (dropWhile rx_space (drop (length name) t))))"

definition min_version :: "(string \<times> string option) option \<Rightarrow> graftlet_error + int" where
  "min_version v =
    (case v of
       None \<Rightarrow> Inr 0
     | Some (ma, mi) \<Rightarrow>
         (case stoi ma of
            Inl e \<Rightarrow> Inl e
          | Inr Ma \<Rightarrow>
              (case (case mi of None \<Rightarrow> Inr 0 | Some w \<Rightarrow> stoi w) of
                 Inl e \<Rightarrow> Inl e
               | Inr m \<Rightarrow> GRAFTLET_MKVER Ma m)))"

text \<open>A list that does not have the format is the single entry with an empty name.\<close>

fun dep_entries :: "string list \<Rightarrow> dep_list \<Rightarrow> graftlet_error + dep_list" where
  "dep_entries [] acc = Inr acc"
| "dep_entries (nv # nvs) acc =
    (case parse_dep nv of
       None \<Rightarrow> Inr [([], 0)]
     | Some (name, v) \<Rightarrow>
         if name = [] then Inr [([], 0)]
         else (case min_version v of
             Inl e \<Rightarrow> Inl e
           | Inr minver \<Rightarrow> dep_entries nvs (acc @ [(name, minver)])))"

definition parse_dependencies :: "string \<Rightarrow> graftlet_error + dep_list" where
  "parse_dependencies deps = (if deps = [] then Inr [] else dep_entries (split_on (CHR '','') deps) [])"

fun initialize_from :: "bool \<Rightarrow> (string \<times> int \<times> string) list \<Rightarrow> DependencyGraph \<Rightarrow> graftlet_error + DependencyGraph" where
  "initialize_from ndebug [] g = Inr g"
| "initialize_from ndebug ((name, ver, deps) # vec) g =
    (case parse_dependencies deps of
       Inl e \<Rightarrow> Inl e
     | Inr l \<Rightarrow>
         if omap_find (m_graph g) name \<noteq> None \<and> \<not> ndebug then Inl (GraftletAssert ''res.second'')
         else initialize_from ndebug vec
           (g\<lparr>m_graph := omap_emplace name l (m_graph g), m_dll2ver := omap_emplace name ver (m_dll2ver g)\<rparr>))"

definition initialize :: "bool \<Rightarrow> (string \<times> int \<times> string) list \<Rightarrow> graftlet_error + DependencyGraph" where
  "initialize ndebug vec = initialize_from ndebug vec empty_graph"

section \<open>Removing failed dependants\<close>

definition invalid_format :: "dep_list \<Rightarrow> bool" where
  "invalid_format l = (length l = 1 \<and> fst (hd l) = [])"

definition ver_of :: "DependencyGraph \<Rightarrow> string \<Rightarrow> int" where
  "ver_of g d = (case omap_find (m_dll2ver g) d of Some v \<Rightarrow> v | None \<Rightarrow> 0)"

definition dep_ok :: "DependencyGraph \<Rightarrow> string \<times> int \<Rightarrow> bool" where
  "dep_ok g d = (omap_find (m_graph g) (fst d) \<noteq> None \<and> \<not> ver_of g (fst d) < snd d)"

definition entry_ok :: "DependencyGraph \<Rightarrow> dep_list \<Rightarrow> bool" where
  "entry_ok g l = (\<not> invalid_format l \<and> list_all (dep_ok g) l)"

definition failed_entry :: "DependencyGraph \<Rightarrow> string option" where
  "failed_entry g = map_option fst (List.find (\<lambda>e. \<not> entry_ok g (snd e)) (m_graph g))"

definition erase_dll :: "string \<Rightarrow> DependencyGraph \<Rightarrow> DependencyGraph" where
  "erase_dll n g = g\<lparr>m_graph := omap_erase n (m_graph g), m_dll2ver := omap_erase n (m_dll2ver g)\<rparr>"

lemma find_SomeD: "List.find P xs = Some x \<Longrightarrow> P x \<and> x \<in> set xs"
  by (auto simp: find_Some_iff)

lemma failed_entry_in: "failed_entry g = Some n \<Longrightarrow> n \<in> fst ` set (m_graph g)"
  by (force simp: failed_entry_def dest!: find_SomeD)

lemma erase_shorter: "failed_entry g = Some n \<Longrightarrow> length (m_graph (erase_dll n g)) < length (m_graph g)"
  by (auto simp: erase_dll_def omap_erase_def dest!: failed_entry_in intro!: length_filter_less)

text \<open>Each turn of the outer loop removes the first entry that fails; the loop ends with a turn that removes none.\<close>

function removeFailed :: "string list \<Rightarrow> DependencyGraph \<Rightarrow> string list \<times> DependencyGraph" where
  "removeFailed res g =
    (case failed_entry g of
       None \<Rightarrow> (res, g)
     | Some n \<Rightarrow> removeFailed (res @ [n]) (erase_dll n g))"
  by pat_completeness auto
termination by (relation "measure (\<lambda>(res, g). length (m_graph g))") (auto simp: erase_shorter)

declare removeFailed.simps [simp del]

definition removeFailedDependants :: "DependencyGraph \<Rightarrow> string list \<times> DependencyGraph" where
  "removeFailedDependants g = removeFailed [] g"

section \<open>Cycles\<close>

datatype color = White | Gray | Black

type_synonym colors = "(string \<times> color) list"

definition set_color :: "string \<Rightarrow> color \<Rightarrow> colors \<Rightarrow> colors" where
  "set_color n x clr = map (\<lambda>e. (fst e, if fst e = n then x else snd e)) clr"

definition children :: "(string \<times> dep_list) list \<Rightarrow> string \<Rightarrow> string list" where
  "children g n = (case omap_find g n of Some l \<Rightarrow> map fst l | None \<Rightarrow> [])"

datatype scan = NoWhite | WhiteChild string | GrayChild string | NoVertex string

fun scan_children :: "colors \<Rightarrow> string list \<Rightarrow> scan" where
  "scan_children clr [] = NoWhite"
| "scan_children clr (c # cs) =
    (case omap_find clr c of
       None \<Rightarrow> NoVertex c
     | Some Gray \<Rightarrow> GrayChild c
     | Some White \<Rightarrow> WhiteChild c
     | Some Black \<Rightarrow> scan_children clr cs)"

datatype dfs_result = Finished colors | Cycle "string list" string | Missing string

definition whites :: "colors \<Rightarrow> nat" where
  "whites clr = length (filter (\<lambda>e. snd e = White) clr)"

lemma whites_paint: "x \<noteq> White \<Longrightarrow> whites (set_color n x clr) \<le> whites clr"
  by (induction clr) (auto simp: whites_def set_color_def)

lemma whites_paint_less: "x \<noteq> White \<Longrightarrow> (n, White) \<in> set clr \<Longrightarrow> whites (set_color n x clr) < whites clr"
proof (induction clr)
  case (Cons e clr)
  show ?case
  proof (cases "e = (n, White)")
    case True
    then show ?thesis using Cons.prems(1) whites_paint [of x n clr] by (auto simp: whites_def set_color_def)
  next
    case False
    then show ?thesis using Cons by (auto simp: whites_def set_color_def)
  qed
qed simp

lemma scan_white: "scan_children clr cs = WhiteChild c \<Longrightarrow> omap_find clr c = Some White \<and> c \<in> set cs"
  by (induction clr cs rule: scan_children.induct) (auto split: option.splits color.splits)

text \<open>The search below one vertex; \<open>path\<close> holds the vertices above the current one.\<close>

function dfs :: "(string \<times> dep_list) list \<Rightarrow> colors \<Rightarrow> string list \<Rightarrow> string \<Rightarrow> dfs_result" where
  "dfs g clr path cur =
    (case scan_children clr (children g cur) of
       NoVertex c \<Rightarrow> Missing c
     | GrayChild c \<Rightarrow> Cycle (dropWhile (\<lambda>x. x \<noteq> c) path @ [cur]) c
     | WhiteChild c \<Rightarrow> dfs g (set_color c Gray clr) (path @ [cur]) c
     | NoWhite \<Rightarrow>
         if path = [] then Finished (set_color cur Black clr)
         else dfs g (set_color cur Black clr) (butlast path) (last path))"
  by pat_completeness auto
termination
proof (relation "measures [\<lambda>(g, clr, path, cur). whites clr, \<lambda>(g, clr, path, cur). length path]", goal_cases)
  case (2 g clr path cur)
  then show ?case using whites_paint [of Black cur clr] by auto
next
  case (3 g clr path cur c)
  then have "(c, White) \<in> set clr" using scan_white map_of_SomeD by fastforce
  then show ?case using whites_paint_less [of Gray c clr] by simp
qed simp

declare dfs.simps [simp del]

lemma dfs_whites: "dfs g clr path cur = Finished clr' \<Longrightarrow> whites clr' \<le> whites clr"
proof (induction g clr path cur rule: dfs.induct)
  case (1 g clr path cur)
  have paint: "whites (set_color cur Black clr) \<le> whites clr" by (rule whites_paint) simp
  show ?case
  proof (cases "scan_children clr (children g cur)")
    case NoWhite
    show ?thesis
    proof (cases "path = []")
      case False
      with NoWhite 1(3) have "dfs g (set_color cur Black clr) (butlast path) (last path) = Finished clr'"
        by (simp add: dfs.simps [of g clr path cur])
      from 1(1) [OF NoWhite False this] paint show ?thesis by simp
    qed (use NoWhite 1(3) paint in \<open>auto simp: dfs.simps [of g clr "[]" cur]\<close>)
  next
    case (WhiteChild c)
    have "whites (set_color c Gray clr) \<le> whites clr" by (rule whites_paint) simp
    then show ?thesis using WhiteChild 1(2) [OF WhiteChild] 1(3) by (auto simp: dfs.simps [of g clr path cur])
  qed (use 1(3) in \<open>auto simp: dfs.simps [of g clr path cur]\<close>)
qed

function visit_all :: "(string \<times> dep_list) list \<Rightarrow> colors \<Rightarrow> dfs_result" where
  "visit_all g clr =
    (case List.find (\<lambda>e. snd e = White) clr of
       None \<Rightarrow> Finished clr
     | Some (n, _) \<Rightarrow>
         (case dfs g (set_color n Gray clr) [] n of
            Finished clr' \<Rightarrow> visit_all g clr'
          | r \<Rightarrow> r))"
  by pat_completeness auto
termination
proof (relation "measure (\<lambda>(g, clr). whites clr)", goal_cases)
  case (2 g clr e n w clr')
  then have "(n, White) \<in> set clr" by (auto dest!: find_SomeD)
  then have "whites (set_color n Gray clr) < whites clr" by (intro whites_paint_less) simp_all
  then show ?case using dfs_whites [OF 2(3)] by simp
qed simp

declare visit_all.simps [simp del]

definition cycle_message :: "string list \<Rightarrow> string \<Rightarrow> string" where
  "cycle_message cyc c = ''graftlet dependency cycle found: '' @ concat (map (\<lambda>n. n @ '' -> '') cyc) @ c"

definition findCycles :: "bool \<Rightarrow> DependencyGraph \<Rightarrow> graftlet_error + string" where
  "findCycles dont_throw g =
    (case visit_all (m_graph g) (map (\<lambda>e. (fst e, White)) (m_graph g)) of
       Finished _ \<Rightarrow> Inr []
     | Cycle cyc c \<Rightarrow> if dont_throw then Inr (cycle_message cyc c) else Inl (CycleFound (cycle_message cyc c))
     | Missing c \<Rightarrow> Inl (MissingVertex c))"

end
