(* ===== verification/Graftlet_Graph.thy ===== *)
theory Graftlet_Graph
  imports Graftlet_Deps
begin

text \<open>
  What the dependency graph of the graftlets guarantees: the graftlets kept are the largest set that supports itself, and the search finds a cycle
  exactly when there is one.
\<close>

section \<open>The largest supported set\<close>

definition supported :: "DependencyGraph \<Rightarrow> string set \<Rightarrow> bool" where
  "supported g S \<longleftrightarrow> (\<forall>n\<in>S. \<exists>l. omap_find (m_graph g) n = Some l \<and> \<not> invalid_format l \<and> (\<forall>(d, v)\<in>set l. d \<in> S \<and> v \<le> ver_of g d))"

abbreviation kept :: "DependencyGraph \<Rightarrow> string set" where
  "kept g \<equiv> dom (omap_find (m_graph g))"

lemma erase_simps [simp]:
  "omap_find (m_graph (erase_dll n g)) x = (if x = n then None else omap_find (m_graph g) x)"
  "x \<noteq> n \<Longrightarrow> ver_of (erase_dll n g) x = ver_of g x"
  by (simp_all add: erase_dll_def omap_find_erase ver_of_def)

lemma kept_erase [simp]: "kept (erase_dll n g) = kept g - {n}"
  by (auto simp: dom_def)

lemma supported_kept: "supported g S \<Longrightarrow> S \<subseteq> kept g"
  by (fastforce simp: supported_def)

lemma failed_unsupported:
  assumes "failed_entry g = Some n" "distinct (map fst (m_graph g))" "supported g S"
  shows "n \<notin> S"
proof
  assume "n \<in> S"
  obtain l where l: "(n, l) \<in> set (m_graph g)" "\<not> entry_ok g l" using assms(1) by (auto simp: failed_entry_def dest!: find_SomeD)
  then have f: "omap_find (m_graph g) n = Some l" using assms(2) by simp
  obtain l' where "omap_find (m_graph g) n = Some l'" "\<not> invalid_format l'" "\<forall>(d, v)\<in>set l'. d \<in> S \<and> v \<le> ver_of g d"
    using assms(3) \<open>n \<in> S\<close> unfolding supported_def by blast
  then have "\<not> invalid_format l" and d: "\<forall>(d, v)\<in>set l. d \<in> S \<and> v \<le> ver_of g d" by (simp_all add: f)
  moreover have "dep_ok g e" if "e \<in> set l" for e
    using d that supported_kept [OF assms(3)] by (cases e) (force simp: dep_ok_def)
  ultimately have "entry_ok g l" by (simp add: entry_ok_def list_all_iff)
  with l(2) show False by simp
qed

lemma supported_cong:
  assumes "\<And>x. x \<in> S \<Longrightarrow> omap_find (m_graph g') x = omap_find (m_graph g) x \<and> ver_of g' x = ver_of g x" "supported g S"
  shows "supported g' S"
  unfolding supported_def
proof
  fix n assume n: "n \<in> S"
  then obtain l where l: "omap_find (m_graph g) n = Some l" "\<not> invalid_format l" "\<forall>(d, v)\<in>set l. d \<in> S \<and> v \<le> ver_of g d"
    using assms(2) unfolding supported_def by blast
  then have "\<forall>(d, v)\<in>set l. d \<in> S \<and> v \<le> ver_of g' d" using assms(1) by fastforce
  with l n assms(1) show "\<exists>l. omap_find (m_graph g') n = Some l \<and> \<not> invalid_format l \<and> (\<forall>(d, v)\<in>set l. d \<in> S \<and> v \<le> ver_of g' d)"
    by auto
qed

lemma supported_erase: "n \<notin> S \<Longrightarrow> supported (erase_dll n g) S \<longleftrightarrow> supported g S"
  by (intro iffI; erule supported_cong [rotated]) auto

lemma none_failed_supported: "failed_entry g = None \<Longrightarrow> supported g (kept g)"
  by (fastforce simp: failed_entry_def find_None_iff supported_def entry_ok_def list_all_iff dep_ok_def dest: map_of_SomeD)

lemma removeFailed_spec:
  "removeFailed res g = (res', g') \<Longrightarrow> distinct (map fst (m_graph g)) \<Longrightarrow>
    (\<forall>S. supported g S \<longrightarrow> S \<subseteq> kept g') \<and> supported g (kept g') \<and> kept g' \<subseteq> kept g \<and>
    (\<forall>n\<in>kept g'. omap_find (m_graph g') n = omap_find (m_graph g) n \<and> ver_of g' n = ver_of g n) \<and>
    (\<exists>rs. res' = res @ rs \<and> distinct rs \<and> set rs = kept g - kept g')"
proof (induction res g rule: removeFailed.induct)
  case (1 res g)
  show ?case
  proof (cases "failed_entry g")
    case None
    then have "res' = res" "g' = g" using 1(2) by (simp_all add: removeFailed.simps [of res g])
    then show ?thesis using none_failed_supported [OF None] supported_kept by auto
  next
    case (Some n)
    let ?g = "erase_dll n g"
    have n: "n \<in> kept g" using failed_entry_in [OF Some] by (metis dom_map_of_conv_image_fst)
    have r: "removeFailed (res @ [n]) ?g = (res', g')" using 1(2) Some by (simp add: removeFailed.simps [of res g])
    have "distinct (map fst (m_graph ?g))" using 1(3) by (simp add: erase_dll_def omap_erase_def distinct_map_filter)
    from 1(1) [OF Some r this] obtain rs where
      ih: "\<forall>S. supported ?g S \<longrightarrow> S \<subseteq> kept g'" "supported ?g (kept g')" "kept g' \<subseteq> kept ?g"
        "\<forall>x\<in>kept g'. omap_find (m_graph g') x = omap_find (m_graph ?g) x \<and> ver_of g' x = ver_of ?g x"
        "res' = (res @ [n]) @ rs" "distinct rs" "set rs = kept ?g - kept g'" by blast
    have out: "n \<notin> kept g'" using ih(3) by auto
    have "S \<subseteq> kept g'" if "supported g S" for S
      using ih(1) supported_erase [of n S g] failed_unsupported [OF Some 1(3) that] that by blast
    moreover have "supported g (kept g')" using ih(2) supported_erase [OF out] by blast
    moreover have "omap_find (m_graph g') x = omap_find (m_graph g) x \<and> ver_of g' x = ver_of g x" if "x \<in> kept g'" for x
    proof -
      have "x \<noteq> n" using that out by blast
      then show ?thesis using ih(4) that by auto
    qed
    moreover have "res' = res @ (n # rs)" "distinct (n # rs)" "set (n # rs) = kept g - kept g'" using ih(5-7) n out by auto
    ultimately show ?thesis using ih(3) by auto
  qed
qed

lemma removeFailed_distinct: "removeFailed res g = (res', g') \<Longrightarrow> distinct (map fst (m_graph g)) \<Longrightarrow> distinct (map fst (m_graph g'))"
proof (induction res g rule: removeFailed.induct)
  case (1 res g)
  have "distinct (map fst (m_graph (erase_dll n g)))" for n using 1(3) by (simp add: erase_dll_def omap_erase_def distinct_map_filter)
  with 1 show ?case by (cases "failed_entry g") (auto simp: removeFailed.simps [of res g])
qed

text \<open>
  C29. What is kept. Removing the graftlets with failed dependencies leaves the largest set of graftlets in which every one has a well-formed list of
  dependencies and finds each of them in the set with at least the version it asks for; it reports each of the others once, and changes nothing of those kept.
\<close>

theorem removal_keeps_largest:
  assumes "distinct (map fst (m_graph g))" "removeFailedDependants g = (res, g')"
  shows "supported g (kept g') \<and> (\<forall>S. supported g S \<longrightarrow> S \<subseteq> kept g') \<and> distinct res \<and> set res = kept g - kept g' \<and>
    (\<forall>n\<in>kept g'. omap_find (m_graph g') n = omap_find (m_graph g) n)"
  using removeFailed_spec [of "[]" g res g'] assms by (auto simp: removeFailedDependants_def)

definition demo_graph :: DependencyGraph where
  "demo_graph =
     \<lparr>m_graph = [(''a'', [(''b'', 0)]), (''b'', [(''a'', 256)]), (''c'', [(''b'', 259)]), (''d'', [(''c'', 0)]), (''e'', [([], 0)])],
      m_dll2ver = [(''a'', 256), (''b'', 258), (''c'', 256), (''d'', 256), (''e'', 256)]\<rparr>"

lemma demo_parse: "parse_dependencies ''b'' = Inr [(''b'', 0)] \<and> parse_dependencies ''a : 1.0'' = Inr [(''a'', 256)] \<and> parse_dependencies ''a b'' = Inr [([], 0)]"
  by code_simp

definition demo_kept :: DependencyGraph where
  "demo_kept = \<lparr>m_graph = [(''a'', [(''b'', 0)]), (''b'', [(''a'', 256)])], m_dll2ver = [(''a'', 256), (''b'', 258)]\<rparr>"

lemma demo_removal: "removeFailedDependants demo_graph = ([''c'', ''d'', ''e''], demo_kept)" "distinct (map fst (m_graph demo_graph))"
  by code_simp+

theorem removal_keeps_largest_witness: "supported demo_graph {''a'', ''b''} \<and> kept demo_kept = {''a'', ''b''}"
proof -
  have "kept demo_kept = {''a'', ''b''}" by (auto simp: demo_kept_def split: if_splits)
  with removal_keeps_largest [OF demo_removal(2,1)] show ?thesis by simp
qed

section \<open>Depth first search\<close>

definition edges :: "(string \<times> dep_list) list \<Rightarrow> (string \<times> string) set" where
  "edges g = {(a, b). b \<in> set (children g a)}"

definition closed_graph :: "(string \<times> dep_list) list \<Rightarrow> bool" where
  "closed_graph g \<longleftrightarrow> (\<forall>a. set (children g a) \<subseteq> dom (omap_find g))"

lemma kept_closed:
  assumes "supported g (kept g)"
  shows "closed_graph (m_graph g)"
  unfolding closed_graph_def
proof (intro allI subsetI)
  fix a c assume c: "c \<in> set (children (m_graph g) a)"
  then obtain l where l: "omap_find (m_graph g) a = Some l" "c \<in> fst ` set l"
    by (cases "omap_find (m_graph g) a") (simp_all add: children_def)
  then have "\<forall>(d, v)\<in>set l. d \<in> kept g" using assms unfolding supported_def by (metis (mono_tags, lifting) case_prod_beta' domI option.inject)
  with l(2) show "c \<in> kept g" by auto
qed

definition colored :: "color \<Rightarrow> colors \<Rightarrow> string set" where
  "colored x clr = {n. omap_find clr n = Some x}"

lemma find_set_color: "omap_find (set_color n x clr) m = (if m = n then map_option (\<lambda>_. x) (omap_find clr m) else omap_find clr m)"
  by (induction clr) (auto simp: set_color_def)

lemma colored_set [simp]:
  "omap_find clr n \<noteq> None \<Longrightarrow> colored x (set_color n y clr) = (if x = y then insert n (colored x clr) else colored x clr - {n})"
  by (auto simp: colored_def find_set_color split: if_splits)

lemma keys_set_color [simp]: "map fst (set_color n y clr) = map fst clr"
  by (simp add: set_color_def comp_def)

lemma dom_set_color [simp]: "dom (omap_find (set_color n y clr)) = dom (omap_find clr)"
  by (auto simp: dom_def find_set_color split: if_splits)

text \<open>The vertices that are done: closed under the edges and on no cycle.\<close>

definition done_ok :: "(string \<times> string) set \<Rightarrow> string set \<Rightarrow> bool" where
  "done_ok R B \<longleftrightarrow> R `` B \<subseteq> B \<and> (\<forall>b\<in>B. (b, b) \<notin> R\<^sup>+)"

lemma done_step:
  assumes "done_ok R B" "R `` {n} \<subseteq> B" "n \<notin> B"
  shows "done_ok R (insert n B)"
proof -
  have "y \<in> B" if "(x, y) \<in> R\<^sup>*" "x \<in> B" for x y
    using that assms(1) by (induction rule: rtrancl_induct) (auto simp: done_ok_def)
  then have "(n, n) \<notin> R\<^sup>+" using assms(2,3) by (blast dest: tranclD)
  with assms show ?thesis by (auto simp: done_ok_def)
qed

text \<open>The gray vertices are the path to the current one.\<close>

fun chained :: "(string \<times> string) set \<Rightarrow> string list \<Rightarrow> bool" where
  "chained R (x # y # xs) = ((x, y) \<in> R \<and> chained R (y # xs))"
| "chained R _ = True"

lemma chained_append: "chained R (xs @ [y, z]) \<longleftrightarrow> chained R (xs @ [y]) \<and> (y, z) \<in> R"
  by (induction R xs rule: chained.induct) auto

lemma chained_butlast: "chained R (xs @ [y]) \<Longrightarrow> chained R xs"
  by (induction R xs rule: chained.induct) auto

lemma chained_dropWhile: "chained R (xs @ [y]) \<Longrightarrow> chained R (dropWhile P xs @ [y])"
  by (induction R xs rule: chained.induct) auto

lemma chained_reach: "chained R (x # xs) \<Longrightarrow> (x, last (x # xs)) \<in> R\<^sup>*"
  by (induction xs arbitrary: x) (auto intro: converse_rtrancl_into_rtrancl)

definition searching :: "(string \<times> dep_list) list \<Rightarrow> colors \<Rightarrow> string list \<Rightarrow> bool" where
  "searching g clr st \<longleftrightarrow> distinct (map fst clr) \<and> dom (omap_find clr) = dom (omap_find g) \<and> distinct st \<and> colored Gray clr = set st \<and> chained (edges g) st \<and>
     done_ok (edges g) (colored Black clr)"

lemma scan_cases:
  "case scan_children clr cs of
     NoWhite \<Rightarrow> set cs \<subseteq> colored Black clr
   | WhiteChild c \<Rightarrow> c \<in> set cs \<and> omap_find clr c = Some White
   | GrayChild c \<Rightarrow> c \<in> set cs \<and> omap_find clr c = Some Gray
   | NoVertex c \<Rightarrow> c \<in> set cs \<and> omap_find clr c = None"
  by (induction clr cs rule: scan_children.induct) (auto simp: colored_def split: option.splits color.splits scan.splits)

lemma gray_cycle:
  assumes "searching g clr (path @ [cur])" "c \<in> set (children g cur)" "omap_find clr c = Some Gray" "cyc = dropWhile (\<lambda>x. x \<noteq> c) path @ [cur]"
  shows "hd cyc = c \<and> chained (edges g) (cyc @ [c]) \<and> distinct cyc"
proof -
  have c: "c \<in> set (path @ [cur])" "(cur, c) \<in> edges g" using assms(1-3) by (auto simp: searching_def colored_def edges_def)
  have h: "hd cyc = c"
  proof (cases "dropWhile (\<lambda>x. x \<noteq> c) path")
    case Nil
    then have "c = cur" "cyc = [cur]" using c(1) assms(4) by (auto simp: dropWhile_eq_Nil_conv)
    then show ?thesis by simp
  next
    case (Cons a as)
    then show ?thesis using hd_dropWhile [of "\<lambda>x. x \<noteq> c" path] assms(4) by simp
  qed
  have "chained (edges g) cyc" unfolding assms(4) by (rule chained_dropWhile) (use assms(1) in \<open>simp add: searching_def\<close>)
  then have ch: "chained (edges g) (cyc @ [c])" using c(2) assms(4) chained_append [of "edges g" "dropWhile (\<lambda>x. x \<noteq> c) path" cur c] by simp
  have "distinct cyc" using assms(1) set_dropWhileD [of _ "\<lambda>x. x \<noteq> c" path] by (auto simp: assms(4) searching_def)
  with h ch show ?thesis by blast
qed

definition real_cycle :: "(string \<times> dep_list) list \<Rightarrow> string list \<Rightarrow> string \<Rightarrow> bool" where
  "real_cycle g cyc c \<longleftrightarrow> cyc \<noteq> [] \<and> hd cyc = c \<and> chained (edges g) (cyc @ [c]) \<and> distinct cyc"

lemma dfs_spec:
  "dfs g clr path cur = r \<Longrightarrow> closed_graph g \<Longrightarrow> searching g clr (path @ [cur]) \<Longrightarrow>
    (case r of Finished clr' \<Rightarrow> searching g clr' [] | Cycle cyc c \<Rightarrow> real_cycle g cyc c | Missing c \<Rightarrow> False)"
proof (induction g clr path cur arbitrary: r rule: dfs.induct)
  case (1 g clr path cur)
  note s = 1(5)
  have cur: "omap_find clr cur = Some Gray" using s by (auto simp: searching_def colored_def)
  note sc = scan_cases [where clr = clr and cs = "children g cur"]
  show ?case
  proof (cases "scan_children clr (children g cur)")
    case NoWhite
    let ?clr = "set_color cur Black clr"
    have "edges g `` {cur} \<subseteq> colored Black clr" using sc NoWhite by (auto simp: edges_def)
    moreover have "cur \<notin> colored Black clr" using cur by (simp add: colored_def)
    moreover have "done_ok (edges g) (colored Black clr)" using s by (simp add: searching_def)
    ultimately have "done_ok (edges g) (insert cur (colored Black clr))" by (intro done_step)
    then have p: "searching g ?clr path" using s cur chained_butlast [of "edges g" path cur] by (auto simp: searching_def)
    show ?thesis
    proof (cases "path = []")
      case True
      then show ?thesis using p cur 1(3) NoWhite by (auto simp: dfs.simps [of g clr "[]" cur])
    next
      case False
      then have "dfs g ?clr (butlast path) (last path) = r" using 1(3) NoWhite by (simp add: dfs.simps [of g clr path cur])
      from 1(1) [OF NoWhite False this 1(4)] p False cur show ?thesis by (auto split: dfs_result.splits)
    qed
  next
    case (WhiteChild c)
    then have c: "c \<in> set (children g cur)" "omap_find clr c = Some White" using sc by auto
    moreover have "set (path @ [cur]) = colored Gray clr" using s by (simp only: searching_def)
    ultimately have "c \<notin> set (path @ [cur])" by (simp only: colored_def) simp
    moreover have "colored Black (set_color c Gray clr) = colored Black clr" using c(2) by (auto simp: colored_def find_set_color)
    ultimately have "searching g (set_color c Gray clr) ((path @ [cur]) @ [c])"
      using c s chained_append [of "edges g" path cur c] by (auto simp: searching_def edges_def)
    moreover have "dfs g (set_color c Gray clr) (path @ [cur]) c = r" using 1(3) WhiteChild by (simp add: dfs.simps [of g clr path cur])
    ultimately show ?thesis using 1(2) [OF WhiteChild _ 1(4)] c(2) by (auto split: dfs_result.splits)
  next
    case (GrayChild c)
    then have "c \<in> set (children g cur)" "omap_find clr c = Some Gray" using sc by auto
    from gray_cycle [OF s this refl] GrayChild 1(3) show ?thesis by (auto simp: dfs.simps [of g clr path cur] real_cycle_def)
  next
    case (NoVertex c)
    then have c: "c \<in> set (children g cur)" "omap_find clr c = None" using sc by auto
    have "dom (omap_find clr) = dom (omap_find g)" using s by (simp only: searching_def)
    then have "c \<in> dom (omap_find clr)" using 1(4) c(1) unfolding closed_graph_def by blast
    with c(2) show ?thesis by (simp add: domIff)
  qed
qed


lemma visit_spec:
  "visit_all g clr = r \<Longrightarrow> closed_graph g \<Longrightarrow> searching g clr [] \<Longrightarrow>
    (case r of Finished clr' \<Rightarrow> searching g clr' [] \<and> colored White clr' = {} | Cycle cyc c \<Rightarrow> real_cycle g cyc c | Missing c \<Rightarrow> False)"
proof (induction g clr arbitrary: r rule: visit_all.induct)
  case (1 g clr)
  show ?case
  proof (cases "List.find (\<lambda>e. snd e = White) clr")
    case None
    then have "(n, White) \<notin> set clr" for n by (auto simp: find_None_iff)
    then have "colored White clr = {}" by (auto simp: colored_def dest: map_of_SomeD)
    then show ?thesis using 1(2,4) None by (auto simp: visit_all.simps [of g clr])
  next
    case (Some e)
    obtain n w where e: "e = (n, w)" by fastforce
    then have "(n, w) \<in> set clr" using Some by (auto dest: find_SomeD)
    moreover have "w = White" using Some e by (auto dest: find_SomeD)
    ultimately have n: "omap_find clr n = Some White" using 1(4) by (simp add: searching_def)
    then have "colored Black (set_color n Gray clr) = colored Black clr" by (auto simp: colored_def find_set_color)
    then have s: "searching g (set_color n Gray clr) ([] @ [n])" using 1(4) n by (simp add: searching_def)
    note d = dfs_spec [OF refl 1(3) s]
    show ?thesis
    proof (cases "dfs g (set_color n Gray clr) [] n")
      case (Finished clr')
      then have "visit_all g clr' = r" using 1(2) Some e by (simp add: visit_all.simps [of g clr])
      from 1(1) [OF Some e [symmetric] Finished this 1(3)] d Finished show ?thesis by simp
    next
      case (Cycle cyc c)
      then have "r = Cycle cyc c" using 1(2) Some e by (simp add: visit_all.simps [of g clr])
      with d Cycle show ?thesis by simp
    next
      case (Missing c)
      with d show ?thesis by simp
    qed
  qed
qed


lemma chained_trancl: "chained R (cyc @ [c]) \<Longrightarrow> cyc \<noteq> [] \<Longrightarrow> (hd cyc, c) \<in> R\<^sup>+"
proof (induction cyc)
  case (Cons x cyc)
  then show ?case by (cases cyc) (auto intro: trancl_into_trancl2)
qed simp

lemma findCycles_spec:
  assumes "distinct (map fst (m_graph g0))" "removeFailedDependants g0 = (res, g)"
  shows "(findCycles False g = Inr [] \<and> acyclic (edges (m_graph g))) \<or>
    (\<exists>cyc c. findCycles False g = Inl (CycleFound (cycle_message cyc c)) \<and> real_cycle (m_graph g) cyc c \<and> \<not> acyclic (edges (m_graph g)))"
proof -
  let ?g = "m_graph g" and ?clr = "map (\<lambda>e. (fst e, White)) (m_graph g)"
  note rs = removeFailed_spec [OF assms(2) [unfolded removeFailedDependants_def] assms(1)]
  have "supported g (kept g)" by (rule supported_cong [of _ _ g0]) (use rs in auto)
  then have cl: "closed_graph ?g" by (rule kept_closed)
  have d: "distinct (map fst ?g)" by (rule removeFailed_distinct [OF assms(2) [unfolded removeFailedDependants_def] assms(1)])
  have f: "omap_find (map (\<lambda>e. (fst e, White)) xs) n = map_option (\<lambda>_. White) (omap_find xs n)" for xs :: "(string \<times> dep_list) list" and n
    by (induction xs) auto
  have s: "searching ?g ?clr []"
    using d by (auto simp: searching_def colored_def done_ok_def f comp_def dom_def)
  note v = visit_spec [OF refl cl s]
  show ?thesis
  proof (cases "visit_all ?g ?clr")
    case (Finished clr')
    then have v: "searching ?g clr' []" "colored White clr' = {}" using v by simp_all
    have "(n, n) \<notin> (edges ?g)\<^sup>+" for n
    proof
      assume n: "(n, n) \<in> (edges ?g)\<^sup>+"
      then obtain m where "(n, m) \<in> edges ?g" by (blast dest: tranclD)
      then have "n \<in> dom (omap_find clr')" using v(1) by (auto simp: edges_def children_def searching_def split: option.splits)
      then obtain x where x: "omap_find clr' n = Some x" by auto
      have "x \<noteq> White" "x \<noteq> Gray" using x v by (auto simp: colored_def searching_def)
      then have "n \<in> colored Black clr'" using x by (cases x) (auto simp: colored_def)
      then show False using n v(1) by (auto simp: searching_def done_ok_def)
    qed
    then show ?thesis using Finished by (simp add: findCycles_def acyclic_def)
  next
    case (Cycle cyc c)
    then have r: "real_cycle ?g cyc c" using v by simp
    then have "\<not> acyclic (edges ?g)" using chained_trancl [of "edges ?g" cyc c] by (auto simp: real_cycle_def acyclic_def)
    with r Cycle show ?thesis by (intro disjI2 exI [of _ cyc] exI [of _ c]) (simp add: findCycles_def)
  next
    case (Missing c)
    with v show ?thesis by simp
  qed
qed

text \<open>
  C30. The search for cycles is exact. On the graph that is left after the removal it never looks for a vertex that is not there, it reports nothing exactly when
  the dependencies are acyclic, and what it reports is a simple cycle of graftlets each of which depends on the next.
\<close>

theorem find_cycles_exact:
  assumes "distinct (map fst (m_graph g0))" "removeFailedDependants g0 = (res, g)"
  shows "(findCycles False g = Inr [] \<and> acyclic (edges (m_graph g))) \<or>
    (\<exists>cyc c. findCycles False g = Inl (CycleFound (cycle_message cyc c)) \<and> real_cycle (m_graph g) cyc c \<and> \<not> acyclic (edges (m_graph g)))"
  using assms by (rule findCycles_spec)


theorem find_cycles_exact_witness:
  "findCycles False demo_kept = Inl (CycleFound ''graftlet dependency cycle found: a -> b -> a'') \<and> \<not> acyclic (edges (m_graph demo_kept))"
proof -
  have f: "findCycles False demo_kept = Inl (CycleFound ''graftlet dependency cycle found: a -> b -> a'')" by code_simp
  with find_cycles_exact [OF demo_removal(2,1)] show ?thesis by auto
qed

end
