(* ===== verification/Graftlet_Loader.thy ===== *)
theory Graftlet_Loader
  imports Graftlet_Graph Router
begin

text \<open>
  The loader of graftlets (\<^verbatim>\<open>GraftletLoader.h\<close>, \<^verbatim>\<open>GraftletLoader.cpp\<close>, \<^verbatim>\<open>IGraftlet.h\<close>, \<^verbatim>\<open>GraftletRegistry.h\<close>): which shared libraries of a directory are accepted,
  the check of their dependencies, and the end points they offer. A library is what the loader can see of it: the answers of its exported functions, where
  \<open>None\<close> is a call that throws. What a graftlet does when it is initialised is a parameter.
\<close>

section \<open>Graftlets\<close>

record 'h IGraftlet =
  i_inited :: bool
  i_clsName :: string
  i_map :: "(string \<times> (string \<times> method_bits \<times> 'h)) list"

definition register_endpoint :: "string \<Rightarrow> 'h \<Rightarrow> string \<Rightarrow> method_bits \<Rightarrow> 'h IGraftlet \<Rightarrow> graftlet_error + 'h IGraftlet" where
  "register_endpoint name h endpoint ms g =
    (if omap_find (i_map g) name \<noteq> None then Inl (GraftletThrows (''function '' @ name @ '' already registered''))
     else Inr (g\<lparr>i_map := omap_emplace name (endpoint, ms, h) (i_map g)\<rparr>))"

definition init_graftlet :: "('h IGraftlet \<Rightarrow> graftlet_error + 'h IGraftlet) \<Rightarrow> 'h IGraftlet \<Rightarrow> graftlet_error + 'h IGraftlet" where
  "init_graftlet initOnce g = (if i_inited g then Inr g else initOnce (g\<lparr>i_inited := True\<rparr>))"

definition graftlet_endpoints :: "'h IGraftlet \<Rightarrow> (string \<times> method_bits \<times> 'h) list" where
  "graftlet_endpoints g = map snd (i_map g)"

section \<open>Libraries\<close>

record 'h DllFile =
  f_directory :: bool
  f_extension :: string
  f_path :: string
  f_loads :: bool
  f_symbols :: "string list"
  f_abi :: "string option"
  f_registry :: "'h IGraftlet option option"
  f_version :: "int option"
  f_name :: "string option"
  f_dependencies :: "string option"
  f_check_fw :: "(int \<Rightarrow> bool option)"

record 'h GraftletLoader =
  m_name2lib :: "(string \<times> (int \<times> string \<times> string)) list"
  m_name2registries :: "(string \<times> 'h IGraftlet option) list"
  m_name2gls :: "(string \<times> (string \<times> 'h IGraftlet) list) list"
  m_exceptionMap :: "(string \<times> (int \<times> int) list) list"
  m_fwVersion :: int

text \<open>The exceptions and the version of the framework are static: a new loader finds those that were set.\<close>

definition new_GraftletLoader :: "(string \<times> (int \<times> int) list) list \<Rightarrow> int \<Rightarrow> 'h GraftletLoader" where
  "new_GraftletLoader ex fw = \<lparr>m_name2lib = [], m_name2registries = [], m_name2gls = [], m_exceptionMap = ex, m_fwVersion = fw\<rparr>"

fun exception_rows :: "(string \<times> (int \<times> int) list) list \<Rightarrow> (string \<times> (int \<times> int) list) list \<Rightarrow> graftlet_error + (string \<times> (int \<times> int) list) list" where
  "exception_rows [] m = Inr m"
| "exception_rows ((name, vec) # gel) m =
    (if omap_find m name \<noteq> None then Inl (DuplicateException name) else exception_rows gel (omap_emplace name vec m))"

definition setGraftletsExceptionList :: "(string \<times> (int \<times> int) list) list \<Rightarrow> 'h GraftletLoader \<Rightarrow> graftlet_error + 'h GraftletLoader" where
  "setGraftletsExceptionList gel L =
    (case exception_rows gel [] of Inl e \<Rightarrow> Inl e | Inr m \<Rightarrow> Inr (L\<lparr>m_exceptionMap := m\<rparr>))"

definition is_in_GEL :: "'h GraftletLoader \<Rightarrow> string \<Rightarrow> int \<Rightarrow> bool" where
  "is_in_GEL L name ver =
    (case omap_find (m_exceptionMap L) name of None \<Rightarrow> False | Some rngs \<Rightarrow> list_ex (\<lambda>(m, M). m \<le> ver \<and> ver \<le> M) rngs)"

definition call :: "'a option \<Rightarrow> ('a \<Rightarrow> graftlet_error + 'b) \<Rightarrow> graftlet_error + 'b" where
  "call f k = (case f of None \<Rightarrow> Inl LibraryThrows | Some x \<Rightarrow> k x)"

text \<open>
  A library that has been asked for its name, version and dependencies is either accepted or skipped: from there on exceptions are caught, the one for a name
  that is already taken included. An exception of the calls before that is passed on.
\<close>

definition accept_library :: "'h DllFile \<Rightarrow> 'h IGraftlet option \<Rightarrow> int \<Rightarrow> string \<Rightarrow> string \<Rightarrow> 'h GraftletLoader \<Rightarrow> 'h GraftletLoader" where
  "accept_library f reg ver name deps L =
    (if is_in_GEL L name ver \<or> f_check_fw f (m_fwVersion L) \<noteq> Some True \<or> omap_find (m_name2lib L) name \<noteq> None then L
     else L\<lparr>m_name2lib := omap_emplace name (ver, f_path f, deps) (m_name2lib L),
            m_name2registries := omap_emplace name reg (m_name2registries L)\<rparr>)"

definition load_file :: "string \<Rightarrow> string \<Rightarrow> 'h DllFile \<Rightarrow> 'h GraftletLoader \<Rightarrow> graftlet_error + 'h GraftletLoader" where
  "load_file signature extension f L =
    (if f_directory f \<or> f_extension f \<noteq> ''.'' @ extension then Inr L
     else if \<not> f_loads f then Inr L
     else if \<not> list_all (\<lambda>s. s \<in> set (f_symbols f)) [''getBuildSignature'', ''getGraftletName'', ''getGraftletVersion'', ''getGraftletRegistry''] then Inr L
     else call (f_abi f) (\<lambda>abi.
       if abi \<noteq> signature then Inr L
       else call (f_registry f) (\<lambda>reg. call (f_version f) (\<lambda>ver. call (f_name f) (\<lambda>name.
         call (if ''getGraftletDependencies'' \<in> set (f_symbols f) then f_dependencies f else Some []) (\<lambda>deps.
           Inr (accept_library f reg ver name deps L)))))))"

fun findGraftletsInDirectory :: "string \<Rightarrow> string \<Rightarrow> 'h DllFile list \<Rightarrow> 'h GraftletLoader \<Rightarrow> graftlet_error + 'h GraftletLoader" where
  "findGraftletsInDirectory signature extension [] L = Inr L"
| "findGraftletsInDirectory signature extension (f # fs) L =
    (case load_file signature extension f L of Inl e \<Rightarrow> Inl e | Inr L' \<Rightarrow> findGraftletsInDirectory signature extension fs L')"

section \<open>The check of the dependencies\<close>

definition dep_vector :: "'h GraftletLoader \<Rightarrow> (string \<times> int \<times> string) list" where
  "dep_vector L = map (\<lambda>(name, ver, path, deps). (name, ver, deps)) (m_name2lib L)"

definition erase_libraries :: "string list \<Rightarrow> 'h GraftletLoader \<Rightarrow> 'h GraftletLoader" where
  "erase_libraries ns L =
    L\<lparr>m_name2lib := fold omap_erase ns (m_name2lib L), m_name2registries := fold omap_erase ns (m_name2registries L)\<rparr>"

definition checkDependencies :: "bool \<Rightarrow> 'h GraftletLoader \<Rightarrow> graftlet_error + 'h GraftletLoader" where
  "checkDependencies ndebug L =
    (case initialize ndebug (dep_vector L) of
       Inl e \<Rightarrow> Inl e
     | Inr g \<Rightarrow>
         (let (res, g') = removeFailedDependants g; L' = erase_libraries res L in
          if length (m_name2lib L') \<noteq> length (m_name2registries L') \<and> \<not> ndebug then Inl (GraftletAssert ''gl.m_name2lib.size() == gl.m_name2registries.size()'')
          else (case findCycles False g' of Inl e \<Rightarrow> Inl e | Inr _ \<Rightarrow> Inr L')))"

fun find_all :: "string \<Rightarrow> 'h DllFile list list \<Rightarrow> 'h GraftletLoader \<Rightarrow> graftlet_error + 'h GraftletLoader" where
  "find_all signature [] L = Inr L"
| "find_all signature (d # ds) L =
    (case findGraftletsInDirectory signature ''so'' d L of Inl e \<Rightarrow> Inl e | Inr L' \<Rightarrow> find_all signature ds L')"

definition initGraftlets ::
  "bool \<Rightarrow> string \<Rightarrow> (string \<times> (int \<times> int) list) list \<Rightarrow> int \<Rightarrow> 'h DllFile list list \<Rightarrow> 'h GraftletLoader option \<Rightarrow> graftlet_error + 'h GraftletLoader" where
  "initGraftlets ndebug signature ex fw dirs loader =
    (case loader of
       Some L \<Rightarrow> Inr L
     | None \<Rightarrow> (case find_all signature dirs (new_GraftletLoader ex fw) of Inl e \<Rightarrow> Inl e | Inr L \<Rightarrow> checkDependencies ndebug L))"

section \<open>End points\<close>

definition buildAndResolve :: "('h IGraftlet \<Rightarrow> graftlet_error + 'h IGraftlet) \<Rightarrow> string \<Rightarrow> 'h GraftletLoader \<Rightarrow> graftlet_error + 'h GraftletLoader" where
  "buildAndResolve initOnce name L =
    (if omap_find (m_name2gls L) name \<noteq> None then Inr L
     else (case omap_find (m_name2registries L) name of
         None \<Rightarrow> Inl (GraftletThrows (''Cannot find dll name:'' @ name))
       | Some None \<Rightarrow> Inl (GraftletThrows (''Cannot resolve dll name:'' @ name))
       | Some (Some g) \<Rightarrow>
           (case init_graftlet initOnce g of
              Inl e \<Rightarrow> Inl e
            | Inr g' \<Rightarrow> Inr (L\<lparr>m_name2gls := omap_emplace name [(i_clsName g', g')] (m_name2gls L)\<rparr>))))"

fun prepareEndpoints :: "('h IGraftlet \<Rightarrow> graftlet_error + 'h IGraftlet) \<Rightarrow> string list \<Rightarrow> 'h GraftletLoader \<Rightarrow> graftlet_error + 'h GraftletLoader" where
  "prepareEndpoints initOnce [] L = Inr L"
| "prepareEndpoints initOnce (n # ns) L =
    (case buildAndResolve initOnce n L of Inl e \<Rightarrow> Inl e | Inr L' \<Rightarrow> prepareEndpoints initOnce ns L')"

definition getEndpoints :: "('h IGraftlet \<Rightarrow> graftlet_error + 'h IGraftlet) \<Rightarrow> 'h GraftletLoader \<Rightarrow> graftlet_error + ('h GraftletLoader \<times> (string \<times> method_bits \<times> 'h) list)" where
  "getEndpoints initOnce L =
    (case prepareEndpoints initOnce (map fst (m_name2lib L)) L of
       Inl e \<Rightarrow> Inl e
     | Inr L' \<Rightarrow> Inr (L', concat (map (\<lambda>(name, m). concat (map (\<lambda>(cls, g). graftlet_endpoints g) m)) (m_name2gls L'))))"


section \<open>The loader after a successful start\<close>

definition loader_ok :: "'h GraftletLoader \<Rightarrow> bool" where
  "loader_ok L \<longleftrightarrow> omap_wf (m_name2lib L) \<and> omap_wf (m_name2registries L) \<and> fst ` set (m_name2lib L) = fst ` set (m_name2registries L)"

lemma accept_ok: "loader_ok L \<Longrightarrow> loader_ok (accept_library f reg ver name deps L)"
  by (auto simp: accept_library_def loader_ok_def omap_emplace_wf omap_emplace_keys)

lemma load_file_ok: "load_file sg ext f L = Inr L' \<Longrightarrow> loader_ok L \<Longrightarrow> loader_ok L'"
  by (auto simp: load_file_def call_def accept_ok split: if_splits option.splits)

lemma find_directory_ok: "findGraftletsInDirectory sg ext fs L = Inr L' \<Longrightarrow> loader_ok L \<Longrightarrow> loader_ok L'"
  by (induction sg ext fs L rule: findGraftletsInDirectory.induct) (auto split: sum.splits intro: load_file_ok)

lemma find_all_ok: "find_all sg ds L = Inr L' \<Longrightarrow> loader_ok L \<Longrightarrow> loader_ok L'"
  by (induction sg ds L rule: find_all.induct) (auto split: sum.splits intro: find_directory_ok)

lemma fold_erase_find: "omap_find (fold omap_erase ns m) k = (if k \<in> set ns then None else omap_find m k)"
  by (induction ns arbitrary: m) (auto simp: omap_find_erase)

lemma fold_erase_wf: "omap_wf m \<Longrightarrow> omap_wf (fold omap_erase ns m)"
  by (induction ns arbitrary: m) (auto simp: omap_erase_wf)

lemma fold_erase_keys: "fst ` set (fold omap_erase ns m) = fst ` set m - set ns"
  by (induction ns arbitrary: m) (auto simp: omap_erase_set)

lemma erase_libraries_ok: "loader_ok L \<Longrightarrow> loader_ok (erase_libraries ns L)"
  by (simp add: loader_ok_def erase_libraries_def fold_erase_wf fold_erase_keys)

definition read_deps :: "string \<Rightarrow> dep_list option" where
  "read_deps d = (case parse_dependencies d of Inr l \<Rightarrow> Some l | Inl _ \<Rightarrow> None)"

lemma initialize_from_spec:
  "initialize_from nd vec g = Inr g' \<Longrightarrow> distinct (map fst vec) \<Longrightarrow> omap_wf (m_graph g) \<Longrightarrow> omap_wf (m_dll2ver g) \<Longrightarrow>
    (\<forall>n\<in>fst ` set vec. omap_find (m_graph g) n = None \<and> omap_find (m_dll2ver g) n = None) \<Longrightarrow>
    omap_wf (m_graph g') \<and> (\<forall>e\<in>set vec. read_deps (snd (snd e)) \<noteq> None) \<and>
    (\<forall>n. omap_find (m_graph g') n = (case map_of vec n of None \<Rightarrow> omap_find (m_graph g) n | Some e \<Rightarrow> read_deps (snd e)) \<and>
         omap_find (m_dll2ver g') n = (case map_of vec n of None \<Rightarrow> omap_find (m_dll2ver g) n | Some e \<Rightarrow> Some (fst e)))"
proof (induction nd vec g rule: initialize_from.induct)
  case (2 nd name ver deps vec g)
  obtain l where l: "parse_dependencies deps = Inr l" using 2(2) by (cases "parse_dependencies deps") auto
  let ?g = "g\<lparr>m_graph := omap_emplace name l (m_graph g), m_dll2ver := omap_emplace name ver (m_dll2ver g)\<rparr>"
  have n: "omap_find (m_graph g) name = None" "omap_find (m_dll2ver g) name = None" "name \<notin> fst ` set vec" using 2(3,6) by auto
  then have r: "initialize_from nd vec ?g = Inr g'" using 2(2) l by auto
  have f: "omap_find (m_graph ?g) x = (if x = name then Some l else omap_find (m_graph g) x)"
    "omap_find (m_dll2ver ?g) x = (if x = name then Some ver else omap_find (m_dll2ver g) x)" for x
    using 2(4,5) n by (simp_all add: omap_find_emplace)
  have "map_of vec name = None" using n(3) by (simp add: map_of_eq_None_iff)
  moreover have "omap_wf (m_graph g') \<and> (\<forall>e\<in>set vec. read_deps (snd (snd e)) \<noteq> None) \<and>
    (\<forall>n. omap_find (m_graph g') n = (case map_of vec n of None \<Rightarrow> omap_find (m_graph ?g) n | Some e \<Rightarrow> read_deps (snd e)) \<and>
         omap_find (m_dll2ver g') n = (case map_of vec n of None \<Rightarrow> omap_find (m_dll2ver ?g) n | Some e \<Rightarrow> Some (fst e)))"
  proof (rule 2(1) [OF l _ r])
    show "\<forall>x\<in>fst ` set vec. omap_find (m_graph ?g) x = None \<and> omap_find (m_dll2ver ?g) x = None" unfolding f using 2(6) n(3) by auto
  qed (use 2(3-5) n in \<open>auto simp: omap_emplace_wf\<close>)
  ultimately show ?case unfolding f using l by (auto simp: read_deps_def)
qed simp

lemma dep_vector_find: "map_of (map (\<lambda>(name, ver, path, deps). (name, ver, deps)) xs) n = map_option (\<lambda>(ver, path, deps). (ver, deps)) (map_of xs n)"
  by (induction xs) auto

text \<open>The graftlets a graftlet names among its dependencies.\<close>

definition depends :: "'h GraftletLoader \<Rightarrow> (string \<times> string) set" where
  "depends L = {(a, b). \<exists>ver path deps l. omap_find (m_name2lib L) a = Some (ver, path, deps) \<and> read_deps deps = Some l \<and> b \<in> fst ` set l}"

text \<open>
  C28. After a successful start every graftlet that is loaded has a well-formed list of dependencies, each of them is loaded too with at least the version asked
  for, no graftlet depends on itself through others, and the libraries and the registries are those of the same names.
\<close>

theorem loaded_dependencies_met:
  assumes "initGraftlets nd sg ex fw dirs None = Inr L"
  shows "loader_ok L \<and> acyclic (depends L) \<and>
    (\<forall>(name, ver, path, deps)\<in>set (m_name2lib L). \<exists>l. read_deps deps = Some l \<and> \<not> invalid_format l \<and>
       (\<forall>(d, minver)\<in>set l. \<exists>ver' r. omap_find (m_name2lib L) d = Some (ver', r) \<and> minver \<le> ver'))"
proof -
  obtain L0 where L0: "find_all sg dirs (new_GraftletLoader ex fw) = Inr L0" "checkDependencies nd L0 = Inr L"
    using assms by (auto simp: initGraftlets_def split: sum.splits)
  have ok0: "loader_ok L0" by (rule find_all_ok [OF L0(1)]) (simp add: loader_ok_def new_GraftletLoader_def)
  obtain g res g' s where g: "initialize_from nd (dep_vector L0) empty_graph = Inr g" and r: "removeFailedDependants g = (res, g')"
    and L: "L = erase_libraries res L0" and c: "findCycles False g' = Inr s"
    using L0(2) by (auto simp: checkDependencies_def initialize_def Let_def split: sum.splits prod.splits if_splits)
  let ?lib = "omap_find (m_name2lib L0)"
  have vec: "map_of (dep_vector L0) n = map_option (\<lambda>(ver, path, deps). (ver, deps)) (?lib n)" for n
    by (simp add: dep_vector_def dep_vector_find)
  have dv: "distinct (map fst (dep_vector L0))" using ok0 omap_wf_distinct by (auto simp: dep_vector_def loader_ok_def comp_def case_prod_beta')
  have ini: "omap_wf (m_graph g)" "\<forall>e\<in>set (dep_vector L0). read_deps (snd (snd e)) \<noteq> None"
      "\<forall>n. omap_find (m_graph g) n = (case map_of (dep_vector L0) n of None \<Rightarrow> None | Some e \<Rightarrow> read_deps (snd e)) \<and>
           omap_find (m_dll2ver g) n = (case map_of (dep_vector L0) n of None \<Rightarrow> None | Some e \<Rightarrow> Some (fst e))"
    using initialize_from_spec [OF g dv] by (simp_all add: empty_graph_def cong: option.case_cong)
  have gf: "omap_find (m_graph g) n = (case ?lib n of None \<Rightarrow> None | Some (ver, path, deps) \<Rightarrow> read_deps deps)" for n
    using ini(3) by (simp add: vec split: option.splits)
  have gv: "ver_of g n = ver" if "?lib n = Some (ver, path, deps)" for n ver path deps
    using ini(3) that by (simp add: vec ver_of_def)
  have rd: "read_deps deps \<noteq> None" if "?lib n = Some (ver, path, deps)" for n ver path deps
  proof -
    have "(n, ver, path, deps) \<in> set (m_name2lib L0)" by (rule map_of_SomeD [OF that])
    then have "(n, ver, deps) \<in> set (dep_vector L0)" by (force simp: dep_vector_def)
    with ini(2) show ?thesis by fastforce
  qed
  have dg: "distinct (map fst (m_graph g))" using ini(1) by (rule omap_wf_distinct)
  note rs = removeFailed_spec [OF r [unfolded removeFailedDependants_def] dg]
  have kg: "kept g = dom ?lib" using rd by (auto simp: gf dom_def split: option.splits)
  have lf: "omap_find (m_name2lib L) n = (if n \<in> kept g' then ?lib n else None)" for n
    using rs kg by (auto simp: L erase_libraries_def fold_erase_find)
  have gf': "omap_find (m_graph g') n = (case omap_find (m_name2lib L) n of None \<Rightarrow> None | Some (ver, path, deps) \<Rightarrow> read_deps deps)" for n
    using rs gf [of n] by (auto simp: lf)
  have "(a, b) \<in> edges (m_graph g') \<longleftrightarrow> (a, b) \<in> depends L" for a b
    using gf' [of a] by (cases "omap_find (m_graph g') a"; cases "omap_find (m_name2lib L) a")
      (simp_all add: edges_def children_def depends_def split: prod.splits, metis)
  then have "edges (m_graph g') = depends L" by auto
  moreover have "acyclic (edges (m_graph g'))" using findCycles_spec [OF dg r] c by auto
  moreover have "loader_ok L" unfolding L by (rule erase_libraries_ok [OF ok0])
  moreover have "\<exists>l. read_deps deps = Some l \<and> \<not> invalid_format l \<and>
       (\<forall>(d, minver)\<in>set l. \<exists>ver' r. omap_find (m_name2lib L) d = Some (ver', r) \<and> minver \<le> ver')"
    if m: "(name, ver, path, deps) \<in> set (m_name2lib L)" for name ver path deps
  proof -
    have "distinct (map fst (m_name2lib L))" using \<open>loader_ok L\<close> omap_wf_distinct by (auto simp: loader_ok_def)
    then have f: "omap_find (m_name2lib L) name = Some (ver, path, deps)" using m by simp
    then have k: "name \<in> kept g'" "?lib name = Some (ver, path, deps)" by (auto simp: lf split: if_splits)
    obtain l where l: "omap_find (m_graph g) name = Some l" "\<not> invalid_format l" "\<forall>(d, v)\<in>set l. d \<in> kept g' \<and> v \<le> ver_of g d"
      using rs [THEN conjunct2, THEN conjunct1] k(1) unfolding supported_def by blast
    have "\<exists>ver' r. omap_find (m_name2lib L) d = Some (ver', r) \<and> v \<le> ver'" if "(d, v) \<in> set l" for d v
    proof -
      have d: "d \<in> kept g'" "v \<le> ver_of g d" using l(3) that by auto
      then have "d \<in> dom ?lib" using rs [THEN conjunct2, THEN conjunct2, THEN conjunct1] kg by blast
      then obtain e where "?lib d = Some e" by auto
      then obtain ver' path' deps' where "?lib d = Some (ver', path', deps')" by (cases e) auto
      with d gv [OF this] show ?thesis by (auto simp: lf)
    qed
    with l(1,2) k(2) show ?thesis by (auto simp: gf)
  qed
  ultimately show ?thesis by auto
qed


definition demo_dll :: "string \<Rightarrow> int \<Rightarrow> string \<Rightarrow> unit DllFile" where
  "demo_dll name ver deps =
     \<lparr>f_directory = False, f_extension = ''.so'', f_path = name @ ''.so'', f_loads = True,
      f_symbols = [''getBuildSignature'', ''getGraftletName'', ''getGraftletVersion'', ''getGraftletRegistry'', ''getGraftletDependencies''],
      f_abi = Some ''abi'', f_registry = Some (Some \<lparr>i_inited = False, i_clsName = name, i_map = []\<rparr>), f_version = Some ver, f_name = Some name,
      f_dependencies = Some deps, f_check_fw = (\<lambda>v. Some (256 \<le> v))\<rparr>"

theorem loaded_dependencies_met_witness:
  "\<exists>L. initGraftlets False ''abi'' [] 256 [[demo_dll ''b'' 258 [], demo_dll ''a'' 256 ''b:1.1'', demo_dll ''c'' 256 ''b:2.0'']] None = Inr L \<and>
     map fst (m_name2lib L) = [''a'', ''b''] \<and> acyclic (depends L)"
proof -
  let ?r = "initGraftlets False ''abi'' [] 256 [[demo_dll ''b'' 258 [], demo_dll ''a'' 256 ''b:1.1'', demo_dll ''c'' 256 ''b:2.0'']] None"
  have "(case ?r of Inr L \<Rightarrow> map fst (m_name2lib L) | Inl e \<Rightarrow> []) = [''a'', ''b'']" by code_simp
  then obtain L where L: "?r = Inr L" "map fst (m_name2lib L) = [''a'', ''b'']" by (cases ?r) auto
  moreover have "acyclic (depends L)" using loaded_dependencies_met [OF L(1)] by (elim conjE)
  ultimately show ?thesis by (intro exI [of _ L] conjI)
qed

text \<open>After that the registry of every library is found: resolving its end points fails only through the graftlet itself.\<close>

lemma resolve_finds_registry:
  "loader_ok L \<Longrightarrow> n \<in> fst ` set (m_name2lib L) \<Longrightarrow> omap_find (m_name2registries L) n \<noteq> None"
  by (auto simp: loader_ok_def map_of_eq_None_iff)

end
