(* ===== verification/Config.thy ===== *)
theory Config
  imports Text_Scan Upstream_Manager Rta_Fee
begin

text \<open>
  The configuration of a node (\<^verbatim>\<open>supernode/server.cpp\<close> 250-601, \<^verbatim>\<open>supernode.cpp\<close> 32-56): the command line, the sections of the ini file, the
  directories of the graftlets and the lines of the section \<^verbatim>\<open>[upstream]\<close>. The parsers of boost (command line, ini file, conversion of a value) and the
  file system are arguments.
\<close>

section \<open>Outside\<close>

text \<open>A node of the property tree: \<open>None\<close> is a missing path or a value that does not convert.\<close>

record 'pt ptree_api =
  pt_child :: "'pt \<Rightarrow> string \<Rightarrow> 'pt option"
  pt_string :: "'pt \<Rightarrow> string \<Rightarrow> string option"
  pt_int :: "'pt \<Rightarrow> string \<Rightarrow> int option"
  pt_size :: "'pt \<Rightarrow> string \<Rightarrow> u64 option"
  pt_bool :: "'pt \<Rightarrow> string \<Rightarrow> bool option"
  pt_double :: "'pt \<Rightarrow> string \<Rightarrow> rat option"
  pt_names :: "'pt \<Rightarrow> string list"

record fs_api =
  fs_remove_filename :: "string \<Rightarrow> string"
  fs_join :: "string \<Rightarrow> string \<Rightarrow> string"
  fs_complete :: "string \<Rightarrow> string \<Rightarrow> string"
  fs_absolute :: "string \<Rightarrow> string"
  fs_is_relative :: "string \<Rightarrow> bool"
  fs_is_directory :: "string \<Rightarrow> bool"
  fs_current_path :: string
  fs_less :: "string \<Rightarrow> string \<Rightarrow> bool"

record cmdline =
  vm_help :: bool
  vm_version :: bool
  vm_config_file :: "string option"
  vm_log_level :: "string option"
  vm_log_console :: "bool option"
  vm_log_file :: "string option"
  vm_log_format :: "string option"

record 'pt config_env =
  cf_pt :: "'pt ptree_api"
  cf_fs :: fs_api
  cf_parse_command_line :: "string list \<Rightarrow> cmdline option"
  cf_read_ini :: "string \<Rightarrow> 'pt option"
  cf_HOME :: "string option"

text \<open>\<open>ExitProcess\<close> is a call of \<^verbatim>\<open>exit\<close>, \<open>PtreeError\<close> an exception of the property tree, \<open>NullString\<close> a string made of a null pointer.\<close>

datatype config_error =
  ExitProcess int | IniFileError string | PtreeError string | ConfigExit string | StdOutOfRange string | NullString

fun get_or :: "string \<Rightarrow> 'a option \<Rightarrow> ('a \<Rightarrow> config_error + 'b) \<Rightarrow> config_error + 'b" where
  "get_or key None f = Inl (PtreeError key)"
| "get_or key (Some x) f = f x"

fun cf_then :: "config_error + 'a \<Rightarrow> ('a \<Rightarrow> config_error + 'b) \<Rightarrow> config_error + 'b" where
  "cf_then (Inl e) f = Inl e"
| "cf_then (Inr x) f = f x"

definition or_default :: "'a option \<Rightarrow> 'a \<Rightarrow> 'a" where
  "or_default x d = (case x of None \<Rightarrow> d | Some y \<Rightarrow> y)"

section \<open>Texts\<close>

fun before_comment_mark :: "string \<Rightarrow> string" where
  "before_comment_mark (a # b # s) = (if a = CHR '';'' \<and> b = CHR '';'' then [] else a # before_comment_mark (b # s))"
| "before_comment_mark s = s"

definition trim_right :: "string \<Rightarrow> string" where
  "trim_right s = rev (dropWhile rx_space (rev s))"

definition trim_comments :: "string \<Rightarrow> string" where
  "trim_comments s = trim_right (before_comment_mark s)"

section \<open>Logging\<close>

record log_settings =
  log_filename :: string
  log_console :: bool
  log_format :: string
  log_level :: string

definition DEFAULT_LOG_FORMAT :: string where
  "DEFAULT_LOG_FORMAT =
     ''%datetime{%Y-%M-%d %H:%m:%s.%g}'' @ [CHR 0x09] @ ''%thread'' @ [CHR 0x09] @ ''%level'' @ [CHR 0x09] @ ''%logger'' @ [CHR 0x09] @
     ''%rfile:%line'' @ [CHR 0x09] @ ''%msg''"

definition init_log :: "'pt ptree_api \<Rightarrow> 'pt \<Rightarrow> cmdline \<Rightarrow> config_error + log_settings" where
  "init_log P config vm =
    get_or ''logging'' (pt_child P config ''logging'') (\<lambda>log_conf.
      let level = or_default (map_option trim_comments (pt_string P log_conf ''loglevel'')) ''3'';
          file = or_default (map_option trim_comments (pt_string P log_conf ''logfile'')) [];
          console = or_default (pt_bool P log_conf ''console'') True;
          format = or_default (map_option trim_comments (pt_string P log_conf ''log-format'')) [];
          level = or_default (vm_log_level vm) level;
          file = or_default (vm_log_file vm) file;
          console = or_default (vm_log_console vm) console;
          format = or_default (vm_log_format vm) format;
          format = (if format = [] then DEFAULT_LOG_FORMAT else format)
      in Inr \<lparr>log_filename = file, log_console = console, log_format = format, log_level = level\<rparr>)"

section \<open>Directories of graftlets\<close>

text \<open>\<^verbatim>\<open>std::set<fs::path>\<close>, ordered by the order of paths.\<close>

fun path_insert :: "(string \<Rightarrow> string \<Rightarrow> bool) \<Rightarrow> string \<Rightarrow> string list \<Rightarrow> string list" where
  "path_insert lt p [] = [p]"
| "path_insert lt p (q # qs) =
    (if lt p q then p # q # qs else if lt q p then q # path_insert lt p qs else q # qs)"

definition same_path :: "fs_api \<Rightarrow> string \<Rightarrow> string \<Rightarrow> bool" where
  "same_path F p q \<longleftrightarrow> \<not> fs_less F p q \<and> \<not> fs_less F q p"

definition dir_candidates :: "fs_api \<Rightarrow> string \<Rightarrow> string \<Rightarrow> string list" where
  "dir_candidates F self_dir p =
    (if fs_is_relative F p then
       (let path1 = fs_complete F p self_dir; path2 = fs_complete F p (fs_current_path F) in
        (if fs_is_directory F path1 then [path1] else []) @
        (if \<not> same_path F self_dir (fs_current_path F) \<and> fs_is_directory F path2 then [path2] else []))
     else if fs_is_directory F p then [p] else [])"

fun remove_duplicates :: "fs_api \<Rightarrow> string list \<Rightarrow> string list \<Rightarrow> string list" where
  "remove_duplicates F seen [] = []"
| "remove_duplicates F seen (p # ps) =
    (if list_ex (same_path F p) seen then remove_duplicates F seen ps else p # remove_duplicates F (p # seen) ps)"

definition initGraftletDirs :: "fs_api \<Rightarrow> string \<Rightarrow> string option \<Rightarrow> string list" where
  "initGraftletDirs F argv0 dirs_opt =
    (let self_dir = fs_remove_filename F argv0 in
     case dirs_opt of
       None \<Rightarrow> [fs_complete F ''graftlets'' self_dir]
     | Some dirs \<Rightarrow>
         if dirs = [] then []
         else (let paths = fold (path_insert (fs_less F)) (split_on (CHR '':'') dirs) []
               in remove_duplicates F [] (concat (map (dir_candidates F self_dir) paths))))"

section \<open>Substitutions\<close>

text \<open>\<^verbatim>\<open>std::stoi\<close> and \<^verbatim>\<open>std::stod\<close> on digits; \<open>to_binary64\<close> rounds to a double, \<open>None\<close> is an overflow or an inexact result below the normal numbers.\<close>

definition stoi_digits :: "string \<Rightarrow> config_error + int" where
  "stoi_digits w = (let n = int (num_val 10 w) in if n < 2 ^ 31 then Inr n else Inl (StdOutOfRange ''stoi''))"

definition unit64 :: "rat \<Rightarrow> rat" where
  "unit64 x = max (2 ^ floorlog 2 (nat \<lfloor>x * 2 ^ 1100\<rfloor>) / 2 ^ 1153) (1 / 2 ^ 1074)"

definition to_binary64 :: "rat \<Rightarrow> rat option" where
  "to_binary64 x =
    (let d = of_int (round_half_even (x / unit64 x)) * unit64 x in
     if 2 ^ 1024 \<le> d \<or> d < 1 / 2 ^ 1022 \<and> d \<noteq> x then None else Some d)"

definition decimal_val :: "string \<Rightarrow> string \<Rightarrow> rat" where
  "decimal_val ip fp = of_nat (num_val 10 (ip @ fp)) / 10 ^ length fp"

definition stod_digits :: "string \<Rightarrow> string \<Rightarrow> config_error + rat" where
  "stod_digits ip fp = (case to_binary64 (decimal_val ip fp) of None \<Rightarrow> Inl (StdOutOfRange ''stod'') | Some d \<Rightarrow> Inr d)"

text \<open>
  \<^verbatim>\<open>^\s*([^,\s]+)\s*(,\s*(\d+)\s*(,\s*(true|false|0|1)\s*(,\s*(\d+\.?\d*)\s*)?)?)?\s*$\<close>: the submatches 1, 3, 5 and 7, the last as the digits
  before and after the point. Each part is followed by spaces and then the end or a comma.
\<close>

definition skip :: "string \<Rightarrow> string" where
  "skip s = dropWhile rx_space s"

fun after_comma :: "string \<Rightarrow> string option" where
  "after_comma (c # s) = (if c = CHR '','' then Some (skip s) else None)"
| "after_comma [] = None"

definition parse_timeout :: "string \<Rightarrow> (string \<times> string) option" where
  "parse_timeout s =
    (let ip = takeWhile rx_digit s; r = drop (length ip) s;
         r1 = (case r of c # t \<Rightarrow> if c = CHR ''.'' then t else r | [] \<Rightarrow> []);
         fp = (if r1 = r then [] else takeWhile rx_digit r1); r2 = drop (length fp) r1
     in if ip = [] \<or> skip r2 \<noteq> [] then None else Some (ip, fp))"

definition parse_keep :: "string \<Rightarrow> (bool \<times> string) option" where
  "parse_keep s =
    (case List.find (\<lambda>(w, b). take (length w) s = w) [(''true'', True), (''false'', False), (''0'', False), (''1'', True)] of
       None \<Rightarrow> None | Some (w, b) \<Rightarrow> Some (b, skip (drop (length w) s)))"

definition parse_line :: "string \<Rightarrow> (string \<times> (string \<times> (bool \<times> (string \<times> string) option) option) option) option" where
  "parse_line s0 =
    (let s = skip s0; uri = takeWhile (\<lambda>c. c \<noteq> CHR '','' \<and> \<not> rx_space c) s; r = skip (drop (length uri) s) in
     if uri = [] then None
     else if r = [] then Some (uri, None)
     else Option.bind (after_comma r) (\<lambda>r.
       let cnt = takeWhile rx_digit r; r = skip (drop (length cnt) r) in
       if cnt = [] then None
       else if r = [] then Some (uri, Some (cnt, None))
       else Option.bind (after_comma r) (\<lambda>r.
         Option.bind (parse_keep r) (\<lambda>(keep, r).
           if r = [] then Some (uri, Some (cnt, Some (keep, None)))
           else Option.bind (after_comma r) (\<lambda>r.
             Option.bind (parse_timeout r) (\<lambda>t. Some (uri, Some (cnt, Some (keep, Some t)))))))))"

definition line_error :: "string \<Rightarrow> string \<Rightarrow> config_error" where
  "line_error name v =
     ConfigExit (''invalid [upstream] format line with name '' @ [CHR 0x27] @ name @ [CHR 0x27] @ '' : '' @ [CHR 0x27] @ v @ [CHR 0x27])"

definition parseSubstitutionItem :: "string \<Rightarrow> string \<Rightarrow> config_error + string \<times> int \<times> bool \<times> rat" where
  "parseSubstitutionItem name v =
    (case parse_line (trim_comments v) of
       None \<Rightarrow> Inl (line_error name v)
     | Some (uri, None) \<Rightarrow> Inr (uri, 0, False, 0)
     | Some (uri, Some (cnt, rest)) \<Rightarrow>
         cf_then (stoi_digits cnt) (\<lambda>n.
           case rest of
             None \<Rightarrow> Inr (uri, n, False, 0)
           | Some (keep, None) \<Rightarrow> Inr (uri, n, keep, 0)
           | Some (keep, Some (ip, fp)) \<Rightarrow> cf_then (stod_digits ip fp) (\<lambda>t. Inr (uri, n, keep, t))))"

type_synonym substitutions = "(string \<times> string \<times> int \<times> bool \<times> rat) list"

fun read_substitutions :: "'pt ptree_api \<Rightarrow> 'pt \<Rightarrow> string list \<Rightarrow> substitutions \<Rightarrow> config_error + substitutions" where
  "read_substitutions P conf [] subs = Inr subs"
| "read_substitutions P conf (name # names) subs =
    get_or name (pt_string P conf name) (\<lambda>v.
      cf_then (parseSubstitutionItem name v) (\<lambda>item.
        read_substitutions P conf names (if map_of subs name = None then subs @ [(name, item)] else subs)))"

section \<open>Options\<close>

record CommonOpts =
  testnet :: bool
  data_dir :: string
  wallet_public_address :: string

record IPFilterOpts =
  requests_per_sec :: int
  window_size_sec :: int
  ban_ip_sec :: int
  rules_filename :: string

record ConfigOpts =
  config_filename :: string
  http_address :: string
  coap_address :: string
  http_connection_timeout :: rat
  upstream_request_timeout :: rat
  workers_count :: int
  worker_queue_len :: int
  workers_expelling_interval_ms :: int
  cryptonode_rpc_address :: string
  timer_poll_interval_ms :: int
  log_trunc_to_size :: int
  graftlet_dirs :: "string list"
  lru_timeout_ms :: int
  ipfilter :: IPFilterOpts
  common :: CommonOpts

definition check_asserts :: "ConfigOpts \<Rightarrow> bool" where
  "check_asserts c \<longleftrightarrow>
     http_address c \<noteq> [] \<and> coap_address c \<noteq> [] \<and> 0 < http_connection_timeout c \<and> 0 < upstream_request_timeout c \<and>
     0 < workers_expelling_interval_ms c \<and> 0 < timer_poll_interval_ms c \<and> 0 < lru_timeout_ms c \<and>
     (requests_per_sec (ipfilter c) = 0 \<or> 0 < window_size_sec (ipfilter c))"

definition read_ipfilter :: "'pt ptree_api \<Rightarrow> fs_api \<Rightarrow> string \<Rightarrow> 'pt \<Rightarrow> IPFilterOpts" where
  "read_ipfilter P F argv0 conf =
    (let rules = or_default (pt_string P conf ''rules'') [];
         rules = (if rules = [] then []
                  else let r = trim_comments rules in
                       if fs_is_relative F r then fs_complete F r (fs_remove_filename F argv0) else r)
     in \<lparr>requests_per_sec = or_default (pt_int P conf ''requests-per-sec'') 0,
         window_size_sec = or_default (pt_int P conf ''window-size-sec'') 0,
         ban_ip_sec = or_default (pt_int P conf ''ban-ip-sec'') 0, rules_filename = rules\<rparr>)"

definition DATA_PATH :: string where "DATA_PATH = ''supernode/data''"

definition prepareDataDir :: "'pt config_env \<Rightarrow> string \<Rightarrow> config_error + string" where
  "prepareDataDir E dir =
    (if dir \<noteq> [] then Inr dir
     else case cf_HOME E of
         None \<Rightarrow> Inl NullString
       | Some home \<Rightarrow> Inr (fs_join (cf_fs E) (fs_join (cf_fs E) (fs_absolute (cf_fs E) home) ''.graft/'') DATA_PATH))"

text \<open>The section \<^verbatim>\<open>[server]\<close>.\<close>

definition read_server :: "'pt ptree_api \<Rightarrow> string \<Rightarrow> 'pt \<Rightarrow> ConfigOpts \<Rightarrow> config_error + ConfigOpts" where
  "read_server P filename conf c =
    get_or ''http-address'' (pt_string P conf ''http-address'') (\<lambda>http.
    get_or ''coap-address'' (pt_string P conf ''coap-address'') (\<lambda>coap.
    get_or ''timer-poll-interval-ms'' (pt_int P conf ''timer-poll-interval-ms'') (\<lambda>poll.
    get_or ''http-connection-timeout'' (pt_double P conf ''http-connection-timeout'') (\<lambda>hct.
    get_or ''workers-count'' (pt_int P conf ''workers-count'') (\<lambda>wc.
    get_or ''worker-queue-len'' (pt_int P conf ''worker-queue-len'') (\<lambda>wql.
    get_or ''upstream-request-timeout'' (pt_double P conf ''upstream-request-timeout'') (\<lambda>urt.
    get_or ''lru-timeout-ms'' (pt_int P conf ''lru-timeout-ms'') (\<lambda>lru.
    get_or ''data-dir'' (pt_string P conf ''data-dir'') (\<lambda>dir.
      Inr (c\<lparr>config_filename := filename, http_address := http, coap_address := coap, timer_poll_interval_ms := poll,
             http_connection_timeout := hct, workers_count := wc, worker_queue_len := wql,
             workers_expelling_interval_ms := or_default (pt_int P conf ''workers-expelling-interval-ms'') 1000,
             upstream_request_timeout := urt, lru_timeout_ms := lru,
             common := \<lparr>testnet = or_default (pt_bool P conf ''testnet'') False, data_dir = dir,
                        wallet_public_address = or_default (pt_string P conf ''wallet-public-address'') []\<rparr>\<rparr>))))))))))"

text \<open>\<open>None\<close> for the options is the uninitialised record of the first start.\<close>

record loaded =
  ld_opts :: ConfigOpts
  ld_log :: log_settings
  ld_subs :: substitutions

definition load_config :: "'pt config_env \<Rightarrow> string \<Rightarrow> cmdline \<Rightarrow> string \<Rightarrow> 'pt \<Rightarrow> ConfigOpts \<Rightarrow> config_error + loaded" where
  "load_config E argv0 vm filename config c0 =
    (let P = cf_pt E; F = cf_fs E in
     cf_then (init_log P config vm) (\<lambda>lg.
     get_or ''server'' (pt_child P config ''server'') (\<lambda>server_conf.
     cf_then (read_server P filename server_conf c0) (\<lambda>c1.
       let c2 = (case pt_child P config ''ipfilter'' of None \<Rightarrow> c1 | Some conf \<Rightarrow> c1\<lparr>ipfilter := read_ipfilter P F argv0 conf\<rparr>) in
     get_or ''graftlets'' (pt_child P config ''graftlets'') (\<lambda>graftlets_conf.
       let c3 = c2\<lparr>graftlet_dirs := initGraftletDirs F argv0 (pt_string P graftlets_conf ''dirs'')\<rparr> in
     get_or ''cryptonode'' (pt_child P config ''cryptonode'') (\<lambda>cryptonode_conf.
     get_or ''rpc-address'' (pt_string P cryptonode_conf ''rpc-address'') (\<lambda>rpc.
     get_or ''logging'' (pt_child P config ''logging'') (\<lambda>log_conf.
       let c4 = c3\<lparr>cryptonode_rpc_address := rpc, log_trunc_to_size := or_default (pt_int P log_conf ''trunc-to-size'') (-1)\<rparr> in
     get_or ''upstream'' (pt_child P config ''upstream'') (\<lambda>uri_subst_conf.
     cf_then (read_substitutions P uri_subst_conf (pt_names P uri_subst_conf) []) (\<lambda>subs.
     cf_then (prepareDataDir E (data_dir (common c4))) (\<lambda>dir.
       Inr \<lparr>ld_opts = c4\<lparr>common := (common c4)\<lparr>data_dir := dir\<rparr>\<rparr>, ld_log = lg, ld_subs = subs\<rparr>)))))))))))"

text \<open>\<^verbatim>\<open>GraftServer::initConfigOption\<close>; the argument \<open>c0\<close> is what the options held before.\<close>

definition initConfigOption :: "'pt config_env \<Rightarrow> string list \<Rightarrow> ConfigOpts \<Rightarrow> config_error + loaded" where
  "initConfigOption E argv c0 =
    (case cf_parse_command_line E argv of
       None \<Rightarrow> Inl (ExitProcess 1)
     | Some vm \<Rightarrow>
         if vm_help vm \<or> vm_version vm then Inl (ExitProcess 0)
         else
           (let filename = (case vm_config_file vm of Some f \<Rightarrow> f | None \<Rightarrow> []);
                filename = (if filename = [] then fs_join (cf_fs E) (fs_remove_filename (cf_fs E) (hd argv)) ''config.ini'' else filename)
            in case cf_read_ini E filename of
                 None \<Rightarrow> Inl (IniFileError filename)
               | Some config \<Rightarrow> load_config E (hd argv) vm filename config c0))"

text \<open>\<^verbatim>\<open>Supernode::initConfigOption\<close>: the options of the stake wallet, and the address that may not be empty.\<close>

record ConfigOptsEx =
  cx_opts :: ConfigOpts
  stake_wallet_name :: string
  stake_wallet_refresh_interval_ms :: u64
  stake_wallet_refresh_interval_random_factor :: rat

definition Supernode_initConfigOption :: "'pt config_env \<Rightarrow> string list \<Rightarrow> ConfigOpts \<Rightarrow> config_error + loaded \<times> ConfigOptsEx" where
  "Supernode_initConfigOption E argv c0 =
    cf_then (initConfigOption E argv c0) (\<lambda>ld.
      let P = cf_pt E; filename = config_filename (ld_opts ld) in
      case cf_read_ini E filename of
        None \<Rightarrow> Inl (IniFileError filename)
      | Some config \<Rightarrow>
          get_or ''server'' (pt_child P config ''server'') (\<lambda>server_conf.
            if wallet_public_address (common (ld_opts ld)) = []
            then Inl (ConfigExit (''Configuration parameter '' @ [CHR 0x27] @ ''wallet-public-address'' @ [CHR 0x27] @ '' cannot be empty.''))
            else Inr (ld,
              \<lparr>cx_opts = ld_opts ld,
               stake_wallet_name = or_default (pt_string P server_conf ''stake-wallet-name'') ''stake-wallet'',
               stake_wallet_refresh_interval_ms = or_default (pt_size P server_conf ''stake-wallet-refresh-interval-ms'') 5000,
               stake_wallet_refresh_interval_random_factor =
                 or_default (pt_double P server_conf ''stake-wallet-refresh-interval-random-factor'') 0\<rparr>)))"

section \<open>Lines\<close>

lemma space_digit: "rx_space c \<Longrightarrow> \<not> rx_digit c"
  by (auto simp: rx_space_def rx_digit_def)

lemma skip_spaces: "list_all rx_space sp \<Longrightarrow> skip (sp @ s) = skip s"
  by (induction sp) (auto simp: skip_def)

lemma skip_start: "s \<noteq> [] \<Longrightarrow> \<not> rx_space (hd s) \<Longrightarrow> skip s = s"
  by (cases s) (auto simp: skip_def)

lemma skip_simps [simp]: "skip [] = []" "skip (CHR '','' # s) = CHR '','' # s"
  by (simp_all add: skip_def rx_space_def)

lemma after_comma_spaces: "list_all rx_space sp \<Longrightarrow> after_comma (CHR '','' # sp @ s) = Some (skip s)"
  by (simp add: skip_spaces)

lemma digits_run:
  assumes "list_all rx_digit ds" "r = [] \<or> \<not> rx_digit (hd r)"
  shows "takeWhile rx_digit (ds @ r) = ds"
  using assms by (induction ds) (auto simp: takeWhile_eq_Nil_iff)

lemma digit_of_char: "d < 10 \<Longrightarrow> rx_digit (digit_char d) \<and> digit_val (digit_char d) = d"
  by (simp add: rx_digit_def digit_val_def digit_char_def)

lemma nat_digits: "list_all rx_digit (nat_to_string n) \<and> num_val 10 (nat_to_string n) = n"
proof (induction n rule: nat_to_string.induct)
  case (1 n)
  then show ?case
    by (cases "n < 10") (simp_all add: nat_to_string.simps [of n] digit_of_char num_val_def)
qed

lemma comma_not_digit [simp]: "\<not> rx_digit (CHR '','')" "\<not> rx_space (CHR '','')" "\<not> rx_digit (CHR ''t'')"
  by (simp_all add: rx_digit_def rx_space_def)

lemma comma_head:
  assumes "list_all rx_space sp" "h = hd (sp @ CHR '','' # r)"
  shows "\<not> rx_digit h" "h = CHR '','' \<or> rx_space h" "h \<noteq> CHR '';''"
proof -
  show h: "h = CHR '','' \<or> rx_space h" using assms by (cases sp) simp_all
  then show "\<not> rx_digit h" using space_digit [of h] by auto
  from h show "h \<noteq> CHR '';''" by (auto simp: rx_space_def)
qed

lemma take_number:
  assumes "list_all rx_space sp"
  shows "takeWhile rx_digit (nat_to_string n @ sp @ CHR '','' # r) = nat_to_string n"
  by (rule digits_run) (use comma_head(1) [OF assms refl] nat_digits in simp_all)

lemma number_start: "skip (nat_to_string n @ r) = nat_to_string n @ r"
proof -
  obtain d ds where d: "nat_to_string n = d # ds" by (cases "nat_to_string n") auto
  then have "rx_digit d" using nat_digits [of n] by simp
  then have "\<not> rx_space d" using space_digit by blast
  then show ?thesis by (simp add: d skip_def)
qed

lemma parse_timeout_number: "list_all rx_space sp \<Longrightarrow> parse_timeout (nat_to_string k @ sp) = Some (nat_to_string k, [])"
proof -
  assume sp: "list_all rx_space sp"
  have t: "takeWhile rx_digit (nat_to_string k @ sp) = nat_to_string k"
    by (rule digits_run) (use nat_digits sp in \<open>cases sp; auto dest: space_digit\<close>)+
  have "skip sp = []" using skip_spaces [OF sp, of "[]"] by simp
  moreover have "(case sp of c # t \<Rightarrow> if c = CHR ''.'' then t else sp | [] \<Rightarrow> []) = sp"
    using sp by (cases sp) (auto simp: rx_space_def)
  ultimately show ?thesis by (simp add: parse_timeout_def t)
qed

lemma parse_keep_word: "parse_keep ((if keep then ''true'' else ''false'') @ r) = Some (keep, skip r)"
  by (simp add: parse_keep_def)

lemma before_comment_append:
  "before_comment_mark u = u \<Longrightarrow> r \<noteq> [] \<Longrightarrow> hd r \<noteq> CHR '';'' \<Longrightarrow> before_comment_mark (u @ r) = u @ before_comment_mark r"
  by (induction u rule: before_comment_mark.induct) (auto simp: neq_Nil_conv split: if_splits)

lemma comment_cut: "c = [] \<or> (\<exists>t. c = '';;'' @ t) \<Longrightarrow> before_comment_mark c = []"
  by auto

lemma trim_right_spaces: "list_all rx_space sp \<Longrightarrow> b \<noteq> [] \<Longrightarrow> \<not> rx_space (last b) \<Longrightarrow> trim_right (b @ sp) = b"
proof -
  assume a: "list_all rx_space sp" "b \<noteq> []" "\<not> rx_space (last b)"
  have "dropWhile rx_space (rev sp @ rev b) = dropWhile rx_space (rev b)"
    using a(1) by (intro dropWhile_append2) (auto simp: list_all_iff)
  also have "\<dots> = rev b" using a(2,3) by (cases b rule: rev_cases) auto
  finally show ?thesis by (simp add: trim_right_def)
qed

lemma to_binary64_nat:
  assumes "k < 2 ^ 53"
  shows "to_binary64 (of_nat k) = Some (of_nat k)"
proof (cases "k = 0")
  case False
  define l where "l = floorlog 2 k"
  have l: "l \<le> 53" unfolding l_def using assms False floorlog_le_iff [of 2 k 53] by simp
  have "\<lfloor>(of_nat k :: rat) * 2 ^ 1100\<rfloor> = int (k * 2 ^ 1100)"
    by (metis floor_of_nat of_nat_mult of_nat_numeral of_nat_power)
  then have "nat \<lfloor>(of_nat k :: rat) * 2 ^ 1100\<rfloor> = k * 2 ^ 1100" by simp
  then have fl: "floorlog 2 (nat \<lfloor>(of_nat k :: rat) * 2 ^ 1100\<rfloor>) = l + 1100"
    using floorlog_power [of k 2 1100] False by (simp add: l_def)
  have u: "unit64 (of_nat k) = 2 ^ l / 2 ^ 53"
  proof -
    have "(2 :: rat) ^ (l + 1100) / 2 ^ 1153 = 2 ^ l / 2 ^ 53" by (simp add: power_add)
    moreover have "(1 :: rat) / 2 ^ 1074 \<le> 2 ^ l / 2 ^ 53" by (rule frac_le) (simp_all add: power_increasing)
    ultimately show ?thesis unfolding unit64_def fl by (simp add: max_def)
  qed
  have q: "(of_nat k :: rat) / unit64 (of_nat k) = of_int (int k * 2 ^ (53 - l))"
  proof -
    have "(2 :: rat) ^ 53 = 2 ^ l * 2 ^ (53 - l)" using l by (simp only: power_add [symmetric] le_add_diff_inverse)
    then have "(of_nat k :: rat) / (2 ^ l / 2 ^ 53) = of_nat k * (2 ^ l * 2 ^ (53 - l)) / 2 ^ l" by (simp only: divide_divide_eq_right)
    also have "\<dots> = of_nat k * 2 ^ (53 - l)" by simp
    finally have "(of_nat k :: rat) / (2 ^ l / 2 ^ 53) = of_nat k * 2 ^ (53 - l)" .
    then show ?thesis by (simp only: u of_int_mult of_int_of_nat_eq of_int_power of_int_numeral)
  qed
  have "of_int (round_half_even (of_nat k / unit64 (of_nat k))) * unit64 (of_nat k) = (of_nat k :: rat) / unit64 (of_nat k) * unit64 (of_nat k)"
    unfolding q round_half_even_int ..
  then have r: "of_int (round_half_even (of_nat k / unit64 (of_nat k))) * unit64 (of_nat k) = (of_nat k :: rat)" by (simp add: u)
  have "(of_nat k :: rat) < 2 ^ 1024"
  proof -
    have "(of_nat k :: rat) < of_nat (2 ^ 53)" using assms by (simp only: of_nat_less_iff)
    also have "\<dots> \<le> 2 ^ 1024" by simp
    finally show ?thesis .
  qed
  then show ?thesis by (simp add: to_binary64_def r)
qed (use round_half_even_int [of 0] in \<open>simp add: to_binary64_def Let_def\<close>)

text \<open>A line as it would be written: four fields with spaces around them and a comment after them.\<close>

definition upstream_line :: "string list \<Rightarrow> string \<Rightarrow> nat \<Rightarrow> bool \<Rightarrow> nat \<Rightarrow> string \<Rightarrow> string" where
  "upstream_line sp uri cnt keep secs comment =
     sp ! 0 @ uri @ sp ! 1 @ '','' @ sp ! 2 @ nat_to_string cnt @ sp ! 3 @ '','' @ sp ! 4 @ (if keep then ''true'' else ''false'') @
     sp ! 5 @ '','' @ sp ! 6 @ nat_to_string secs @ sp ! 7 @ comment"

lemma parse_upstream_line:
  assumes "uri \<noteq> []" "\<forall>c\<in>set uri. c \<noteq> CHR '','' \<and> \<not> rx_space c" "w = (if keep then ''true'' else ''false'')"
    and sp: "list_all rx_space s0" "list_all rx_space s1" "list_all rx_space s2" "list_all rx_space s3"
      "list_all rx_space s4" "list_all rx_space s5" "list_all rx_space s6"
  shows "parse_line (s0 @ uri @ s1 @ '','' @ s2 @ nat_to_string cnt @ s3 @ '','' @ s4 @ w @ s5 @ '','' @ s6 @ nat_to_string secs) =
     Some (uri, Some (nat_to_string cnt, Some (keep, Some (nat_to_string secs, []))))"
proof -
  have "\<not> rx_space (hd uri)" using assms(1,2) by (cases uri) auto
  then have u: "skip (uri @ r) = uri @ r" for r using assms(1) by (intro skip_start) auto
  have tu: "takeWhile (\<lambda>c. c \<noteq> CHR '','' \<and> \<not> rx_space c) (uri @ s1 @ CHR '','' # r) = uri" for r
    using assms(2) comma_head(2) [OF sp(2) refl, of r] by (auto simp: takeWhile_append2 takeWhile_eq_Nil_iff)
  have k: "skip (w @ r) = w @ r" for r by (simp add: assms(3) skip_def rx_space_def)
  have kw: "parse_keep (w @ r) = Some (keep, skip r)" for r unfolding assms(3) by (rule parse_keep_word)
  have t: "parse_timeout (nat_to_string secs) = Some (nat_to_string secs, [])" using parse_timeout_number [of "[]" secs] by simp
  have n: "skip (nat_to_string secs) = nat_to_string secs" using number_start [of secs "[]"] by simp
  show ?thesis
    unfolding parse_line_def Let_def
    by (simp add: skip_spaces sp u tu assms(1) number_start n take_number k kw t)
qed

lemma no_semicolon: "list_all rx_space sp \<Longrightarrow> CHR '';'' \<notin> set sp" "CHR '';'' \<notin> set (nat_to_string n)"
proof -
  have "\<not> rx_space (CHR '';'')" by (simp add: rx_space_def)
  then show "list_all rx_space sp \<Longrightarrow> CHR '';'' \<notin> set sp" by (auto simp: list_all_iff)
  have "\<not> rx_digit (CHR '';'')" by (simp add: rx_digit_def)
  then show "CHR '';'' \<notin> set (nat_to_string n)" using nat_digits [of n] by (auto simp: list_all_iff)
qed

lemma before_comment_skip: "CHR '';'' \<notin> set a \<Longrightarrow> before_comment_mark (a @ x) = a @ before_comment_mark x"
proof (induction a)
  case (Cons c a)
  then show ?case by (cases "a @ x") auto
qed simp

lemma trim_upstream_line:
  assumes "uri \<noteq> []" "before_comment_mark uri = uri" "list_all rx_space s0" "list_all rx_space s7" "hd r \<noteq> CHR '';''" "CHR '';'' \<notin> set r" "r \<noteq> []"
    "comment = [] \<or> (\<exists>t. comment = '';;'' @ t)"
  shows "trim_comments (s0 @ uri @ (r @ nat_to_string secs @ s7) @ comment) = s0 @ uri @ r @ nat_to_string secs"
proof -
  have "before_comment_mark (s0 @ uri @ (r @ nat_to_string secs @ s7) @ comment) = s0 @ uri @ r @ nat_to_string secs @ s7"
    using assms(1-7) comment_cut [OF assms(8)] by (simp add: before_comment_skip no_semicolon before_comment_append)
  moreover obtain ds d where d: "nat_to_string secs = ds @ [d]" by (cases "nat_to_string secs" rule: rev_cases) auto
  moreover have "\<not> rx_space d" using nat_digits [of secs] d space_digit by auto
  ultimately show ?thesis
    using trim_right_spaces [OF assms(4), of "s0 @ uri @ r @ nat_to_string secs"] by (simp add: trim_comments_def)
qed

text \<open>
  C24. A line of the section \<^verbatim>\<open>[upstream]\<close> is read as it was written, whatever spaces stand around its fields and whatever comment follows: the address, the
  number of connections, the flag and a timeout in whole seconds, as long as the address has no space, comma or comment mark in it, the number fits an
  \<^verbatim>\<open>int\<close> and the timeout a double.
\<close>

theorem upstream_line_roundtrip:
  assumes "uri \<noteq> []" "\<forall>c\<in>set uri. c \<noteq> CHR '','' \<and> \<not> rx_space c" "before_comment_mark uri = uri" "\<forall>i<8. list_all rx_space (sp ! i)"
    and "comment = [] \<or> (\<exists>t. comment = '';;'' @ t)" "cnt < 2 ^ 31" "secs < 2 ^ 53"
  shows "parseSubstitutionItem name (upstream_line sp uri cnt keep secs comment) = Inr (uri, int cnt, keep, of_nat secs)"
proof -
  have sp: "list_all rx_space (sp ! 0)" "list_all rx_space (sp ! 1)" "list_all rx_space (sp ! 2)" "list_all rx_space (sp ! 3)"
    "list_all rx_space (sp ! 4)" "list_all rx_space (sp ! 5)" "list_all rx_space (sp ! 6)" "list_all rx_space (sp ! 7)"
    using assms(4) by simp_all
  define w where "w = (if keep then ''true'' else ''false'')"
  define r where "r = sp ! 1 @ '','' @ sp ! 2 @ nat_to_string cnt @ sp ! 3 @ '','' @ sp ! 4 @ w @ sp ! 5 @ '','' @ sp ! 6"
  have "CHR '';'' \<notin> set w" by (simp add: w_def)
  then have r: "CHR '';'' \<notin> set r" "r \<noteq> []" by (simp_all add: r_def no_semicolon sp del: One_nat_def)
  then have "hd r \<noteq> CHR '';''" by (metis hd_in_set)
  then have "trim_comments (upstream_line sp uri cnt keep secs comment) = sp ! 0 @ uri @ r @ nat_to_string secs"
    using trim_upstream_line [OF assms(1,3) sp(1,8) _ r assms(5)] by (simp add: upstream_line_def r_def w_def)
  then have "parse_line (trim_comments (upstream_line sp uri cnt keep secs comment)) =
      Some (uri, Some (nat_to_string cnt, Some (keep, Some (nat_to_string secs, []))))"
    using parse_upstream_line [OF assms(1,2) w_def sp(1-7)] by (simp add: r_def)
  moreover have "stoi_digits (nat_to_string cnt) = Inr (int cnt)" using nat_digits [of cnt] assms(6) by (simp add: stoi_digits_def)
  moreover have "stod_digits (nat_to_string secs) [] = Inr (of_nat secs)"
    using nat_digits [of secs] to_binary64_nat [OF assms(7)] by (simp add: stod_digits_def decimal_val_def)
  ultimately show ?thesis by (simp add: parseSubstitutionItem_def)
qed

theorem upstream_line_roundtrip_witness:
  "parseSubstitutionItem ''walletnode'' (upstream_line (replicate 8 '' '') ''127.0.0.1:28694/dapi/v2.0'' 5 True 30 '';; wallet node'') =
     Inr (''127.0.0.1:28694/dapi/v2.0'', 5, True, 30)"
proof -
  have "\<forall>i<8. list_all rx_space (replicate 8 '' '' ! i)" by (simp add: rx_space_def)
  moreover have "\<exists>t. '';; wallet node'' = '';;'' @ t" by simp
  ultimately show ?thesis
    using upstream_line_roundtrip [of "''127.0.0.1:28694/dapi/v2.0''" "replicate 8 '' ''" "'';; wallet node''" 5 30 "''walletnode''" True]
    by (simp add: rx_space_def)
qed

section \<open>What a successful start has read\<close>

lemma get_or_Inr: "get_or k x f = Inr y \<longleftrightarrow> (\<exists>z. x = Some z \<and> f z = Inr y)"
  by (cases x) auto

lemma cf_then_Inr: "cf_then x f = Inr y \<longleftrightarrow> (\<exists>z. x = Inr z \<and> f z = Inr y)"
  by (cases x) auto

lemma read_substitutions_spec:
  "read_substitutions P conf names subs = Inr subs' \<Longrightarrow> map_of subs' name =
     (case map_of subs name of
        Some i \<Rightarrow> Some i
      | None \<Rightarrow> if name \<notin> set names then None
                else (case pt_string P conf name of
                        Some v \<Rightarrow> (case parseSubstitutionItem name v of Inr i \<Rightarrow> Some i | Inl _ \<Rightarrow> None)
                      | None \<Rightarrow> None))"
proof (induction P conf names subs rule: read_substitutions.induct)
  case (2 P conf n names subs)
  then obtain v i where v: "pt_string P conf n = Some v" "parseSubstitutionItem n v = Inr i"
    and r: "read_substitutions P conf names (if map_of subs n = None then subs @ [(n, i)] else subs) = Inr subs'"
    by (auto simp: get_or_Inr cf_then_Inr)
  show ?case unfolding 2(1) [OF r] using v by (auto split: option.splits)
qed (auto split: option.splits)

lemma read_substitutions_lines:
  "read_substitutions P conf names subs = Inr subs' \<Longrightarrow> \<forall>name\<in>set names. \<exists>v i. pt_string P conf name = Some v \<and> parseSubstitutionItem name v = Inr i"
  by (induction P conf names subs rule: read_substitutions.induct) (auto simp: get_or_Inr cf_then_Inr)

definition conn_of :: "rat \<Rightarrow> string \<times> int \<times> bool \<times> rat \<Rightarrow> 'b ConnItem" where
  "conn_of urt = (\<lambda>(u, n, keep, t). new_ConnItem 1 u n keep (if t < 1 / 100000 then urt else t))"

lemma um_init_items:
  "m_conn2item (um_init rpc urt subs :: 'b UpstreamManager) name = map_option (conn_of urt) (map_of subs name) \<and>
   m_default (um_init rpc urt subs :: 'b UpstreamManager) = new_ConnItem 0 rpc 0 False urt"
proof -
  define f :: "string \<times> string \<times> int \<times> bool \<times> rat \<Rightarrow> 'b UpstreamManager \<Rightarrow> 'b UpstreamManager" where
    "f = (\<lambda>(name, u, maxc, keep, timeout) um.
             if m_conn2item um name \<noteq> None then um
             else um\<lparr>m_conn2item := (m_conn2item um)(name \<mapsto> new_ConnItem 1 u maxc keep (if timeout < 1 / 100000 then urt else timeout))\<rparr>)"
  have "m_conn2item (fold f subs um) name = (case m_conn2item um name of Some c \<Rightarrow> Some c | None \<Rightarrow> map_option (conn_of urt) (map_of subs name)) \<and>
      m_default (fold f subs um) = m_default um" for um
  proof (induction subs arbitrary: um)
    case (Cons e subs)
    obtain n u c k t where e: "e = (n, u, c, k, t)" by (cases e) auto
    have "m_conn2item (f e um) name = (case m_conn2item um name of Some c \<Rightarrow> Some c | None \<Rightarrow> if name = n then Some (conn_of urt (u, c, k, t)) else None) \<and>
        m_default (f e um) = m_default um"
      by (simp add: e f_def conn_of_def split: option.splits)
    with Cons [of "f e um"] show ?case by (simp add: e split: option.splits)
  qed (simp split: option.splits)
  from this [of "\<lparr>m_cntUpstreamSender = 0, m_cntUpstreamSenderDone = 0, m_default = new_ConnItem 0 rpc 0 False urt, m_conn2item = Map.empty\<rparr>"]
  show ?thesis unfolding um_init_def f_def [symmetric] by simp
qed

lemma read_server_Inr: "read_server P filename conf c = Inr c' \<Longrightarrow> config_filename c' = filename"
  unfolding read_server_def get_or_Inr by clarsimp

lemma load_config_Inr:
  assumes "load_config E argv0 vm filename config c0 = Inr ld"
  shows "config_filename (ld_opts ld) = filename \<and> (\<exists>dir. prepareDataDir E dir = Inr (data_dir (common (ld_opts ld)))) \<and>
    (\<exists>conf. pt_child (cf_pt E) config ''upstream'' = Some conf \<and>
       read_substitutions (cf_pt E) conf (pt_names (cf_pt E) conf) [] = Inr (ld_subs ld))"
  using assms unfolding load_config_def Let_def get_or_Inr cf_then_Inr
  by (elim exE conjE) (drule read_server_Inr, auto split: option.splits)

text \<open>
  C23. The upstream manager of a configured node is that of its configuration file. After a successful start every line of \<^verbatim>\<open>[upstream]\<close> was well formed, the manager made
  of the options has one connection item for each name, with the address, limit, flag and timeout of its line (the general timeout where the line has
  none), no other, and the default item has the address of the cryptonode; the node has an address to announce under and a data directory.
\<close>

theorem configured_upstream:
  fixes um :: "'b UpstreamManager"
  assumes "Supernode_initConfigOption E argv c0 = Inr (ld, cx)" "um = um_init (cryptonode_rpc_address (cx_opts cx)) (upstream_request_timeout (cx_opts cx)) (ld_subs ld)"
    and "\<And>a b. fs_join (cf_fs E) a b = [] \<Longrightarrow> b = []"
  shows "\<exists>config conf. cf_read_ini E (config_filename (cx_opts cx)) = Some config \<and> pt_child (cf_pt E) config ''upstream'' = Some conf \<and>
    (\<forall>name. m_conn2item um name =
       (if name \<in> set (pt_names (cf_pt E) conf) then
          (case pt_string (cf_pt E) conf name of
             Some v \<Rightarrow> (case parseSubstitutionItem name v of Inr i \<Rightarrow> Some (conn_of (upstream_request_timeout (cx_opts cx)) i) | Inl _ \<Rightarrow> None)
           | None \<Rightarrow> None)
        else None)) \<and>
    (\<forall>name\<in>set (pt_names (cf_pt E) conf). m_conn2item um name \<noteq> None) \<and> m_uri (m_default um) = cryptonode_rpc_address (cx_opts cx) \<and>
    wallet_public_address (common (cx_opts cx)) \<noteq> [] \<and> data_dir (common (cx_opts cx)) \<noteq> []"
proof -
  have cx: "cx_opts cx = ld_opts ld" "wallet_public_address (common (ld_opts ld)) \<noteq> []" and "initConfigOption E argv c0 = Inr ld"
    using assms(1) by (auto simp: Supernode_initConfigOption_def cf_then_Inr get_or_Inr Let_def split: option.splits if_splits)
  then obtain vm filename config where l: "cf_read_ini E filename = Some config" "load_config E (hd argv) vm filename config c0 = Inr ld"
    by (auto simp: initConfigOption_def Let_def split: option.splits if_splits)
  note ld = load_config_Inr [OF l(2)]
  then obtain conf where conf: "pt_child (cf_pt E) config ''upstream'' = Some conf"
      "read_substitutions (cf_pt E) conf (pt_names (cf_pt E) conf) [] = Inr (ld_subs ld)" by blast
  have n: "config_filename (ld_opts ld) = filename" using ld by blast
  obtain dir where "prepareDataDir E dir = Inr (data_dir (common (ld_opts ld)))" using ld by blast
  then have d: "data_dir (common (ld_opts ld)) \<noteq> []"
    by (auto simp: prepareDataDir_def DATA_PATH_def dest!: assms(3) split: option.splits if_splits)
  have m: "m_conn2item um name = map_option (conn_of (upstream_request_timeout (ld_opts ld))) (map_of (ld_subs ld) name)" for name
    unfolding assms(2) cx(1) using um_init_items by blast
  have "m_uri (m_default um) = cryptonode_rpc_address (ld_opts ld)"
    unfolding assms(2) cx(1) by (simp add: um_init_items new_ConnItem_def)
  moreover have "m_conn2item um name =
       (if name \<in> set (pt_names (cf_pt E) conf) then
          (case pt_string (cf_pt E) conf name of
             Some v \<Rightarrow> (case parseSubstitutionItem name v of Inr i \<Rightarrow> Some (conn_of (upstream_request_timeout (ld_opts ld)) i) | Inl _ \<Rightarrow> None)
           | None \<Rightarrow> None)
        else None)" for name
    unfolding m read_substitutions_spec [OF conf(2)] by (simp split: option.splits sum.splits)
  moreover from this read_substitutions_lines [OF conf(2)] have "\<forall>name\<in>set (pt_names (cf_pt E) conf). m_conn2item um name \<noteq> None" by fastforce
  ultimately show ?thesis unfolding cx(1) n using l(1) conf(1) cx(2) d by blast
qed

definition demo_tree :: "(string \<times> (string \<times> string) list) list ptree_api" where
  "demo_tree =
     \<lparr>pt_child = (\<lambda>t k. map_option (\<lambda>kv. [([], kv)]) (map_of t k)), pt_string = (\<lambda>t k. map_of (snd (hd t)) k), pt_int = (\<lambda>_ _. Some 1),
      pt_size = (\<lambda>_ _. None), pt_bool = (\<lambda>_ _. None), pt_double = (\<lambda>_ _. Some 1), pt_names = (\<lambda>t. map fst (snd (hd t)))\<rparr>"

definition demo_config :: "(string \<times> (string \<times> string) list) list config_env" where
  "demo_config =
     \<lparr>cf_pt = demo_tree,
      cf_fs = \<lparr>fs_remove_filename = (\<lambda>_. ''/opt''), fs_join = (\<lambda>a b. a @ ''/'' @ b), fs_complete = (\<lambda>a b. b @ ''/'' @ a), fs_absolute = (\<lambda>a. a),
        fs_is_relative = (\<lambda>p. p = [] \<or> hd p \<noteq> CHR ''/''), fs_is_directory = (\<lambda>_. True), fs_current_path = ''/opt'', fs_less = (\<lambda>a b. length a < length b)\<rparr>,
      cf_parse_command_line = (\<lambda>_. Some \<lparr>vm_help = False, vm_version = False, vm_config_file = None, vm_log_level = None, vm_log_console = None,
        vm_log_file = None, vm_log_format = None\<rparr>),
      cf_read_ini = (\<lambda>_. Some [(''logging'', []), (''graftlets'', []), (''cryptonode'', [(''rpc-address'', ''127.0.0.1:28681'')]),
        (''server'', [(''http-address'', ''0.0.0.0:28690''), (''coap-address'', ''udp://0.0.0.0:18991''), (''data-dir'', []), (''wallet-public-address'', ''F8'')]),
        (''upstream'', [(''walletnode'', ''127.0.0.1:28694 ;; the wallet'')])]),
      cf_HOME = Some ''/home/graft''\<rparr>"

definition demo_options :: ConfigOpts where
  "demo_options =
     \<lparr>config_filename = [], http_address = [], coap_address = [], http_connection_timeout = 0, upstream_request_timeout = 0, workers_count = 0,
      worker_queue_len = 0, workers_expelling_interval_ms = 0, cryptonode_rpc_address = [], timer_poll_interval_ms = 0, log_trunc_to_size = 0,
      graftlet_dirs = [], lru_timeout_ms = 0,
      ipfilter = \<lparr>requests_per_sec = 0, window_size_sec = 0, ban_ip_sec = 0, rules_filename = []\<rparr>,
      common = \<lparr>testnet = False, data_dir = [], wallet_public_address = []\<rparr>\<rparr>"

theorem configured_upstream_witness:
  "\<exists>ld cx. Supernode_initConfigOption demo_config [''supernode''] demo_options = Inr (ld, cx) \<and>
     m_conn2item (um_init (cryptonode_rpc_address (cx_opts cx)) (upstream_request_timeout (cx_opts cx)) (ld_subs ld) :: nat UpstreamManager) ''walletnode'' =
       Some (new_ConnItem 1 ''127.0.0.1:28694'' 0 False (upstream_request_timeout (cx_opts cx))) \<and>
     data_dir (common (cx_opts cx)) = ''/home/graft/.graft//supernode/data''"
proof -
  let ?r = "Supernode_initConfigOption demo_config [''supernode''] demo_options"
  have c: "case ?r of Inr (ld, cx) \<Rightarrow> data_dir (common (cx_opts cx)) = ''/home/graft/.graft//supernode/data'' | Inl _ \<Rightarrow> False" by code_simp
  then obtain ld cx where r: "?r = Inr (ld, cx)" "data_dir (common (cx_opts cx)) = ''/home/graft/.graft//supernode/data''"
    by (auto split: sum.splits)
  define um where "um = (um_init (cryptonode_rpc_address (cx_opts cx)) (upstream_request_timeout (cx_opts cx)) (ld_subs ld) :: nat UpstreamManager)"
  have p: "parseSubstitutionItem ''walletnode'' ''127.0.0.1:28694 ;; the wallet'' = Inr (''127.0.0.1:28694'', 0, False, 0)" by code_simp
  have "fs_join (cf_fs demo_config) a b = [] \<Longrightarrow> b = []" for a b by (simp add: demo_config_def)
  from configured_upstream [OF r(1) um_def this] have
    "m_conn2item um ''walletnode'' = Some (new_ConnItem 1 ''127.0.0.1:28694'' 0 False (upstream_request_timeout (cx_opts cx)))"
    by (auto simp: demo_config_def demo_tree_def p conn_of_def split: if_splits)
  with r show ?thesis unfolding um_def by blast
qed

text \<open>
  The directories of a list of them: each is a directory, none is there twice, and every directory that a listed path stands for is among them, up to the
  comparison of paths.
\<close>

lemma remove_duplicates_set: "d \<in> set (remove_duplicates F seen ps) \<Longrightarrow> d \<in> set ps \<and> \<not> list_ex (same_path F d) seen"
proof (induction ps arbitrary: seen)
  case (Cons p ps)
  then show ?case by (fastforce split: if_splits)
qed simp

lemma remove_duplicates_distinct: "sorted_wrt (\<lambda>a b. \<not> same_path F b a) (remove_duplicates F seen ps)"
  by (induction ps arbitrary: seen) (auto dest!: remove_duplicates_set)

lemma remove_duplicates_all: "d \<in> set ps \<Longrightarrow> \<exists>d'\<in>set (remove_duplicates F seen ps) \<union> set seen. d' = d \<or> same_path F d d'"
proof (induction ps arbitrary: seen)
  case (Cons p ps)
  show ?case
  proof (cases "d = p")
    case True
    then show ?thesis by (auto simp: list_ex_iff)
  next
    case False
    with Cons.prems have "d \<in> set ps" by simp
    from Cons.IH [OF this, of seen] Cons.IH [OF this, of "p # seen"] show ?thesis by auto
  qed
qed simp

lemma path_insert_set:
  "set (path_insert lt p ps) \<subseteq> insert p (set ps) \<and> set ps \<subseteq> set (path_insert lt p ps) \<and> (\<exists>q\<in>set (path_insert lt p ps). q = p \<or> \<not> lt p q \<and> \<not> lt q p)"
  by (induction ps) auto

lemma path_set:
  "set (fold (path_insert lt) ps acc) \<subseteq> set ps \<union> set acc \<and> set acc \<subseteq> set (fold (path_insert lt) ps acc) \<and>
   (\<forall>p\<in>set ps. \<exists>q\<in>set (fold (path_insert lt) ps acc). q = p \<or> \<not> lt p q \<and> \<not> lt q p)"
proof (induction ps arbitrary: acc)
  case (Cons p ps)
  show ?case using Cons.IH [of "path_insert lt p acc"] path_insert_set [of lt p acc] by auto
qed simp

lemma graftlet_dirs_found:
  assumes "dirs \<noteq> []" "ds = initGraftletDirs F argv0 (Some dirs)"
  shows "(\<forall>d\<in>set ds. fs_is_directory F d) \<and> sorted_wrt (\<lambda>a b. \<not> same_path F b a) ds \<and>
    (\<forall>p\<in>set (split_on (CHR '':'') dirs). \<exists>q\<in>set (split_on (CHR '':'') dirs). (q = p \<or> same_path F p q) \<and>
       (\<forall>d\<in>set (dir_candidates F (fs_remove_filename F argv0) q). \<exists>d'\<in>set ds. d' = d \<or> same_path F d d'))"
proof -
  let ?self = "fs_remove_filename F argv0" and ?paths = "fold (path_insert (fs_less F)) (split_on (CHR '':'') dirs) []"
  let ?cs = "concat (map (dir_candidates F ?self) ?paths)"
  have ds: "ds = remove_duplicates F [] ?cs" using assms by (simp add: initGraftletDirs_def Let_def)
  have c: "fs_is_directory F d" if "d \<in> set (dir_candidates F s p)" for d s p
    using that unfolding dir_candidates_def Let_def by (simp split: if_splits) blast
  have "\<forall>d\<in>set ds. fs_is_directory F d" using c by (auto simp: ds dest!: remove_duplicates_set)
  moreover have "\<exists>q\<in>set (split_on (CHR '':'') dirs). (q = p \<or> same_path F p q) \<and>
       (\<forall>d\<in>set (dir_candidates F ?self q). \<exists>d'\<in>set ds. d' = d \<or> same_path F d d')" if p: "p \<in> set (split_on (CHR '':'') dirs)" for p
  proof -
    obtain q where q: "q \<in> set ?paths" "q = p \<or> same_path F p q"
      using path_set [THEN conjunct2, THEN conjunct2, rule_format, OF p, of "fs_less F" "[]"] unfolding same_path_def by blast
    have "set ?paths \<subseteq> set (split_on (CHR '':'') dirs)" using path_set [THEN conjunct1, of "fs_less F" _ "[]"] by simp
    with q(1) have "q \<in> set (split_on (CHR '':'') dirs)" by (rule rev_subsetD)
    moreover have "\<exists>d'\<in>set ds. d' = d \<or> same_path F d d'" if "d \<in> set (dir_candidates F ?self q)" for d
    proof -
      have "d \<in> set ?cs" using q(1) that by auto
      from remove_duplicates_all [OF this, of F "[]"] show ?thesis by (simp add: ds)
    qed
    ultimately show ?thesis using q(2) by blast
  qed
  ultimately show ?thesis using remove_duplicates_distinct by (auto simp: ds)
qed

end
