(* ===== verification/Server.thy ===== *)
theory Server
  imports Node_Routes Blacklist_Rules Client_Log Graftlet_Loader Config
begin

text \<open>
  The server around the task manager: start-up and stop of \<^verbatim>\<open>GraftServer\<close> and \<^verbatim>\<open>ConnectionBase\<close> (\<^verbatim>\<open>server.cpp\<close>, \<^verbatim>\<open>supernode.cpp\<close>,
  \<^verbatim>\<open>connection.cpp\<close>), the loop of the looper, and the events of an HTTP connection. Sockets and the parser of requests belong to mongoose: a request comes
  with its method, target and input already cut out. What the start does to the global context (\<^verbatim>\<open>initMisc\<close>) is in \<open>Rta_Node\<close>.
\<close>

unbundle bit_operations_syntax

section \<open>Start-up\<close>

record looper_flags =
  l_stop :: bool
  l_forceStop :: bool

definition new_looper_flags :: looper_flags where
  "new_looper_flags = \<lparr>l_stop = False, l_forceStop = False\<rparr>"

text \<open>The base of all connections; of the looper it holds, the two flags that stop it are kept here, the rest is the \<open>TaskManager\<close>.\<close>

record 'h ConnectionBase =
  cb_stop :: bool
  m_blackList :: "BlackListImpl option"
  cb_sysInfo :: bool
  m_looperReady :: bool
  cb_looper :: "looper_flags option"
  m_conManagers :: "(string \<times> 'h Root) list"

definition new_ConnectionBase :: "'h ConnectionBase" where
  "new_ConnectionBase =
    \<lparr>cb_stop = False, m_blackList = None, cb_sysInfo = False, m_looperReady = False, cb_looper = None, m_conManagers = []\<rparr>"

datatype start_error = AssertFailed string | ExitError string | RuntimeError string | GraftletError graftlet_error | ConfigError config_error | UndefinedBehaviour

text \<open>An assertion is checked unless the program was built without them.\<close>

definition cpp_assert :: "bool \<Rightarrow> string \<Rightarrow> bool \<Rightarrow> 'a \<Rightarrow> start_error + 'a" where
  "cpp_assert ndebug what b x = (if b \<or> ndebug then Inr x else Inl (AssertFailed what))"

fun and_then :: "start_error + 'a \<Rightarrow> ('a \<Rightarrow> start_error + 'b) \<Rightarrow> start_error + 'b" where
  "and_then (Inl e) f = Inl e"
| "and_then (Inr x) f = f x"

definition blacklist_exit :: "string \<Rightarrow> start_error" where
  "blacklist_exit e = ExitError (''Cannot load blacklist, '' @ [CHR 0x27] @ e @ [CHR 0x27])"

definition loadBlacklist :: "bool \<Rightarrow> (string \<Rightarrow> string option) \<Rightarrow> IPFilterOpts \<Rightarrow> 'h ConnectionBase \<Rightarrow> start_error + 'h ConnectionBase" where
  "loadBlacklist ndebug read_file ip cb =
    and_then (cpp_assert ndebug ''!m_blackList'' (m_blackList cb = None) cb) (\<lambda>cb.
      let bl = new_BlackList (requests_per_sec ip) (window_size_sec ip) (ban_ip_sec ip) in
      if rules_filename ip = [] then Inr (cb\<lparr>m_blackList := Some bl\<rparr>)
      else case read_file (rules_filename ip) of
          None \<Rightarrow> Inl (blacklist_exit (''cannot open file: '' @ rules_filename ip))
        | Some text \<Rightarrow>
            (case readRules text bl of
               Done bl' \<Rightarrow> Inr (cb\<lparr>m_blackList := Some bl'\<rparr>)
             | Throws e \<Rightarrow> Inl (blacklist_exit e)
             | Undef \<Rightarrow> Inl UndefinedBehaviour))"

definition createSystemInfoCounter :: "'h ConnectionBase \<Rightarrow> 'h ConnectionBase" where
  "createSystemInfoCounter cb = cb\<lparr>cb_sysInfo := True\<rparr>"

text \<open>The constructor of the task manager checks the options by assertions.\<close>

definition createLooper :: "bool \<Rightarrow> ConfigOpts \<Rightarrow> 'h ConnectionBase \<Rightarrow> start_error + 'h ConnectionBase" where
  "createLooper ndebug opts cb =
    and_then (cpp_assert ndebug ''m_sysInfo && !m_looper'' (cb_sysInfo cb \<and> cb_looper cb = None) cb) (\<lambda>cb.
    and_then (cpp_assert ndebug ''check_asserts'' (check_asserts opts) cb) (\<lambda>cb.
      Inr (cb\<lparr>cb_looper := Some new_looper_flags, m_looperReady := True\<rparr>)))"

definition emplace_manager :: "bool \<Rightarrow> string \<Rightarrow> string \<Rightarrow> 'h ConnectionBase \<Rightarrow> start_error + 'h ConnectionBase" where
  "emplace_manager ndebug what pr cb =
    cpp_assert ndebug what (omap_find (m_conManagers cb) pr = None)
      (cb\<lparr>m_conManagers := omap_emplace pr new_Root (m_conManagers cb)\<rparr>)"

definition initConnectionManagers :: "bool \<Rightarrow> 'h ConnectionBase \<Rightarrow> start_error + 'h ConnectionBase" where
  "initConnectionManagers ndebug cb =
    and_then (emplace_manager ndebug ''res1.second'' ''HTTP'' cb) (emplace_manager ndebug ''res2.second'' ''COAP'')"

definition upd_manager :: "string \<Rightarrow> ('h Root \<Rightarrow> 'h Root) \<Rightarrow> 'h ConnectionBase \<Rightarrow> 'h ConnectionBase" where
  "upd_manager pr f cb = cb\<lparr>m_conManagers := map (\<lambda>(p, rt). (p, if p = pr then f rt else rt)) (m_conManagers cb)\<rparr>"

definition setCoapRouters :: "'h \<Rightarrow> 'h Root \<Rightarrow> 'h Root" where
  "setCoapRouters h3_test rt =
    addRouter (addRoute ''/test2'' METHOD_GET h3_test (addRoute ''/test1'' METHOD_GET h3_test (addRoute ''/test'' METHOD_GET h3_test
      (new_Router ''/coap'')))) rt"

text \<open>\<open>h3\<close> makes the triple of actions that has only a worker action.\<close>

definition initGraftletRouters :: "('w \<Rightarrow> 'h) \<Rightarrow> (string \<times> method_bits \<times> 'w) list \<Rightarrow> 'h Root \<Rightarrow> 'h Root" where
  "initGraftletRouters h3 endpoints rt =
    (if endpoints = [] then rt
     else addRouter (fold (\<lambda>(e, m, h). addRoute e m (h3 h)) endpoints (new_Router [])) rt)"

definition checkRoutes :: "'h Root \<Rightarrow> start_error + unit" where
  "checkRoutes rt =
    (let s = dbgCheckConflictRoutes rt in if s \<noteq> [] then Inl (RuntimeError (''Routes conflict found:'' @ s)) else Inr ())"

text \<open>\<open>bind_ok\<close> tells whether the address of a protocol can be bound.\<close>

fun bind_managers :: "r3_api \<Rightarrow> (string \<Rightarrow> bool) \<Rightarrow> (string \<times> 'h Root) list \<Rightarrow> start_error + (string \<times> 'h Root) list" where
  "bind_managers api bind_ok [] = Inr []"
| "bind_managers api bind_ok ((p, rt) # ms) =
    (let rt' = snd (arm api rt) in
     and_then (checkRoutes rt') (\<lambda>_.
       if \<not> bind_ok p then Inl (ExitError ''Cannot bind'')
       else and_then (bind_managers api bind_ok ms) (\<lambda>ms'. Inr ((p, rt') # ms'))))"

record ('w, 'h) GraftServer =
  m_connectionBase :: "'h ConnectionBase"
  m_graftletLoader :: "'w GraftletLoader option"

definition new_GraftServer :: "('w, 'h) GraftServer" where
  "new_GraftServer = \<lparr>m_connectionBase = new_ConnectionBase, m_graftletLoader = None\<rparr>"

record ('w, 'h) start_env =
  s_ndebug :: bool
  s_read_file :: "string \<Rightarrow> string option"
  s_opts :: ConfigOpts
  s_r3 :: r3_api
  s_bind_ok :: "string \<Rightarrow> bool"
  s_signature :: string
  s_exceptions :: "(string \<times> (int \<times> int) list) list"
  s_fwVersion :: int
  s_dirs :: "'w DllFile list list"
  s_initOnce :: "'w IGraftlet \<Rightarrow> graftlet_error + 'w IGraftlet"
  s_h3 :: "'w \<Rightarrow> 'h"
  s_misc :: "start_error option"
  s_generic :: "'h Root \<Rightarrow> 'h Root"
  s_http :: "'h Root \<Rightarrow> 'h Root"
  s_coap_test :: 'h

fun graftlet_call :: "graftlet_error + 'a \<Rightarrow> start_error + 'a" where
  "graftlet_call (Inl e) = Inl (GraftletError e)"
| "graftlet_call (Inr x) = Inr x"

text \<open>
  \<^verbatim>\<open>GraftServer::init\<close> after the options have been read. \<open>s_generic\<close> and \<open>s_http\<close> are \<open>addGenericCallbackRoute\<close> and \<open>setHttpRouters\<close>; \<open>s_misc\<close> is the exception
  of \<^verbatim>\<open>addGlobalCtxCleaner\<close>, \<^verbatim>\<open>initGlobalContext\<close> and \<^verbatim>\<open>initMisc\<close>, if they throw one: these work on the global context and the periodic tasks only.
\<close>

definition init_server :: "('w, 'h) start_env \<Rightarrow> ('w, 'h) GraftServer \<Rightarrow> start_error + ('w, 'h) GraftServer" where
  "init_server S sv =
    and_then (loadBlacklist (s_ndebug S) (s_read_file S) (ipfilter (s_opts S)) (createSystemInfoCounter (m_connectionBase sv))) (\<lambda>cb.
    and_then (createLooper (s_ndebug S) (s_opts S) cb) (\<lambda>cb.
    and_then (graftlet_call (initGraftlets (s_ndebug S) (s_signature S) (s_exceptions S) (s_fwVersion S) (s_dirs S) (m_graftletLoader sv))) (\<lambda>L.
    and_then (case s_misc S of Some e \<Rightarrow> Inl e | None \<Rightarrow> Inr ()) (\<lambda>_.
    and_then (initConnectionManagers (s_ndebug S) cb) (\<lambda>cb.
    and_then (graftlet_call (getEndpoints (s_initOnce S) L)) (\<lambda>(L, endpoints).
      let cb = upd_manager ''HTTP'' (initGraftletRouters (s_h3 S) endpoints)
                 (upd_manager ''COAP'' (setCoapRouters (s_coap_test S))
                   (upd_manager ''HTTP'' (s_http S) (upd_manager ''HTTP'' (s_generic S) cb)))
      in and_then (bind_managers (s_r3 S) (s_bind_ok S) (m_conManagers cb)) (\<lambda>ms.
           Inr \<lparr>m_connectionBase = cb\<lparr>m_conManagers := ms\<rparr>, m_graftletLoader = Some L\<rparr>)))))))"

definition looper_stop :: "bool \<Rightarrow> bool \<Rightarrow> looper_flags \<Rightarrow> start_error + looper_flags" where
  "looper_stop ndebug force l =
    cpp_assert ndebug ''!m_stop || !m_forceStop'' (\<not> l_stop l \<or> \<not> l_forceStop l) (l\<lparr>l_stop := True, l_forceStop := (l_forceStop l \<or> force)\<rparr>)"

definition stop_server :: "bool \<Rightarrow> bool \<Rightarrow> ('w, 'h) GraftServer \<Rightarrow> start_error + ('w, 'h) GraftServer" where
  "stop_server ndebug force sv =
    (case cb_looper (m_connectionBase sv) of
       None \<Rightarrow> Inl (if ndebug then UndefinedBehaviour else AssertFailed ''m_looper'')
     | Some l \<Rightarrow> and_then (looper_stop ndebug force l) (\<lambda>l'.
         Inr (sv\<lparr>m_connectionBase := (m_connectionBase sv)\<lparr>cb_stop := True, cb_looper := Some l'\<rparr>\<rparr>)))"

section \<open>The loop\<close>

fun tm_then :: "('l, 'g) tm_result option \<Rightarrow> (('l, 'g) TaskManager \<Rightarrow> (tm_error + 'a) option) \<Rightarrow> (tm_error + 'a) option" where
  "tm_then None f = None"
| "tm_then (Some (Inl e)) f = Some (Inl e)"
| "tm_then (Some (Inr tm)) f = f tm"

fun checkUpstreamBlockingIO :: "tm_env \<Rightarrow> (Output \<times> 'l) list \<Rightarrow> ('l, 'g) TaskManager \<Rightarrow> ('l, 'g) tm_result option" where
  "checkUpstreamBlockingIO E [] tm = Some (Inr tm)"
| "checkUpstreamBlockingIO E ((out, l) # q) tm = tm_then (Some (upstreamBlocking E out l tm)) (checkUpstreamBlockingIO E q)"

fun checkPeriodicTaskIO :: "tm_env \<Rightarrow> (('l, 'g) Handler3 \<times> 'l \<times> int \<times> int option \<times> rat) list \<Rightarrow> ('l, 'g) TaskManager \<Rightarrow> ('l, 'g) TaskManager" where
  "checkPeriodicTaskIO E [] tm = tm"
| "checkPeriodicTaskIO E ((h3, l, i, ii, f) # q) tm = checkPeriodicTaskIO E q (addPeriodicTask E h3 l i ii f tm)"

text \<open>
  One turn of the loop in \<^verbatim>\<open>Looper::serve\<close> after the poll, with the contents of the two request queues; the result says whether the loop is left.
  The call of \<^verbatim>\<open>expelWorkers\<close> concerns the pool only, whose state is that of \<open>Thread_Pool\<close>.
\<close>

definition serve_turn :: "tm_env \<Rightarrow> nat \<Rightarrow> nat \<Rightarrow> (Output \<times> 'l) list \<Rightarrow> (('l, 'g) Handler3 \<times> 'l \<times> int \<times> int option \<times> rat) list \<Rightarrow>
    looper_flags \<Rightarrow> ('l, 'g) TaskManager \<Rightarrow> (tm_error + bool \<times> ('l, 'g) TaskManager) option" where
  "serve_turn E n k promises periodics fl tm =
    (if l_forceStop fl then Some (Inr (canStop tm, tm))
     else
       tm_then (timer_eval E n k tm) (\<lambda>tm.
       tm_then (checkUpstreamBlockingIO E promises tm) (\<lambda>tm.
       tm_then (executePostponedTasks E n k (checkPeriodicTaskIO E periodics tm)) (\<lambda>tm.
         Some (Inr (l_stop fl \<and> canStop tm, tm))))))"

section \<open>Periodic tasks of a supernode\<close>

text \<open>
  \<open>h3\<close> makes the triple of actions of a worker action; the tasks are those of \<^verbatim>\<open>addGlobalCtxCleaner\<close> and \<^verbatim>\<open>startSupernodePeriodicTasks\<close>: the clean-up of the global
  context, the announce of the node, unless its interval is zero, and the synchronisation with the cryptonode every second.
\<close>

definition addGlobalCtxCleaner :: "tm_env \<Rightarrow> ('h \<Rightarrow> ('l, 'g) Handler3) \<Rightarrow> 'h \<Rightarrow> 'l \<Rightarrow> ConfigOpts \<Rightarrow> ('l, 'g) TaskManager \<Rightarrow> ('l, 'g) TaskManager" where
  "addGlobalCtxCleaner E h3 cleaner l opts tm = addPeriodicTask E (h3 cleaner) l (lru_timeout_ms opts) None 0 tm"

definition startSupernodePeriodicTasks ::
    "tm_env \<Rightarrow> ('h \<Rightarrow> ('l, 'g) Handler3) \<Rightarrow> 'h \<Rightarrow> 'h \<Rightarrow> 'l \<Rightarrow> ConfigOptsEx \<Rightarrow> ('l, 'g) TaskManager \<Rightarrow> ('l, 'g) TaskManager" where
  "startSupernodePeriodicTasks E h3 announce sync l cx tm =
    (let tm1 = (if 0 < stake_wallet_refresh_interval_ms cx
                then addPeriodicTask E (h3 announce) l (uint (stake_wallet_refresh_interval_ms cx)) (Some 1000)
                       (stake_wallet_refresh_interval_random_factor cx) tm
                else tm)
     in addPeriodicTask E (h3 sync) l 1000 None 0 tm1)"

section \<open>HTTP connections\<close>

datatype conn_handler = EvHandlerHttp | EvHandlerCoap | TaskHandler task_id | EmptyHandler

record client =
  cl_timer :: "int option"
  cl_close_immediately :: bool
  cl_send_and_close :: bool
  cl_handler :: conn_handler

record ('l, 'g) http_state =
  hs_tm :: "('l, 'g) TaskManager"
  hs_base :: "('l, 'g) Handler3 ConnectionBase"
  hs_clients :: "nat \<Rightarrow> client"

record http_request =
  hm_method :: string
  hm_uri :: string
  hm_message_len :: nat
  hm_input :: Input
  hm_remote_port :: "16 word"

definition m_methods :: "(string \<times> int) list" where
  "m_methods = [(''GET'', 2), (''POST'', 4), (''PUT'', 8), (''DELETE'', 16), (''HEAD'', 64)]"

text \<open>\<^verbatim>\<open>strncmp\<close> of a terminated string with the first \<open>n\<close> characters of another.\<close>

fun strncmp_eq :: "string \<Rightarrow> string \<Rightarrow> nat \<Rightarrow> bool" where
  "strncmp_eq a b 0 = True"
| "strncmp_eq a b (Suc n) =
    (let x = (case a of [] \<Rightarrow> CHR 0x00 | c # _ \<Rightarrow> c); y = (case b of [] \<Rightarrow> CHR 0x00 | c # _ \<Rightarrow> c)
     in x = y \<and> (x = CHR 0x00 \<or> strncmp_eq (tl a) (tl b) n))"

definition translateMethod :: "string \<Rightarrow> int" where
  "translateMethod meth =
    (case List.find (\<lambda>m. strncmp_eq (fst m) meth (length meth)) m_methods of Some m \<Rightarrow> snd m | None \<Rightarrow> -1)"

definition upd_client :: "nat \<Rightarrow> (client \<Rightarrow> client) \<Rightarrow> ('l, 'g) http_state \<Rightarrow> ('l, 'g) http_state" where
  "upd_client c f hs = hs\<lparr>hs_clients := (hs_clients hs)(c := f (hs_clients hs c))\<rparr>"

definition upd_tm :: "(('l, 'g) TaskManager \<Rightarrow> ('l, 'g) TaskManager) \<Rightarrow> ('l, 'g) http_state \<Rightarrow> ('l, 'g) http_state" where
  "upd_tm f hs = hs\<lparr>hs_tm := f (hs_tm hs)\<rparr>"

text \<open>
  What the replies of a run of the manager do to the connections they finish (\<^verbatim>\<open>ConnectionManager::respond\<close>): the connection is closed once everything
  is sent, and its events go to the empty handler.
\<close>

fun finish_client :: "out_event \<Rightarrow> (nat \<Rightarrow> client) \<Rightarrow> nat \<Rightarrow> client" where
  "finish_client (FinishClient c) cls = cls(c := (cls c)\<lparr>cl_send_and_close := True, cl_handler := EmptyHandler\<rparr>)"
| "finish_client _ cls = cls"

definition after_run :: "('l, 'g) TaskManager \<Rightarrow> ('l, 'g) http_state \<Rightarrow> ('l, 'g) http_state" where
  "after_run tm hs = hs\<lparr>hs_tm := tm, hs_clients := fold finish_client (new_outs (hs_tm hs) tm) (hs_clients hs)\<rparr>"

definition http_root :: "('l, 'g) http_state \<Rightarrow> ('l, 'g) Handler3 Root" where
  "http_root hs = (case omap_find (m_conManagers (hs_base hs)) ''HTTP'' of Some rt \<Rightarrow> rt | None \<Rightarrow> new_Root)"

definition on_http_request :: "tm_env \<Rightarrow> nat \<Rightarrow> r3_api \<Rightarrow> 'l \<Rightarrow> nat \<Rightarrow> http_request \<Rightarrow> ('l, 'g) http_state \<Rightarrow> (tm_error + ('l, 'g) http_state) option" where
  "on_http_request E n api l c hm hs =
    (let hs1 = upd_tm (count_by HttpReqBytes (byte_delta (hm_message_len hm)))
                 (upd_client c (\<lambda>cl. cl\<lparr>cl_timer := None\<rparr>) (upd_tm (count_by HttpReqTotal 1) hs));
         meth = translateMethod (hm_method hm)
     in if meth < 0 then Some (Inr hs1)
        else case match_route api (hm_uri hm) meth (http_root hs1) of
            Some (vars, h3) \<Rightarrow>
              (let hs2 = upd_tm (count_by HttpReqRouted 1) hs1;
                   (bt, tm) = create_task (new_Task (ClientTask (Some c)) ((hm_input hm)\<lparr>in_port := hm_remote_port hm\<rparr>) vars h3 l) (hs_tm hs2);
                   hs3 = upd_client c (\<lambda>cl. cl\<lparr>cl_handler := TaskHandler bt\<rparr>) (hs2\<lparr>hs_tm := tm\<rparr>)
               in tm_then (onNewClient E n bt (hs_tm hs3)) (\<lambda>tm. Some (Inr (after_run tm hs3))))
          | None \<Rightarrow>
              Some (Inr (upd_client c (\<lambda>cl. cl\<lparr>cl_send_and_close := True\<rparr>)
                (upd_tm (emit (SendErrorReply c 500 ''invalid parameter'')) (upd_tm (count_by HttpReqUnrouted 1) hs1)))))"




section \<open>CoAP messages\<close>

text \<open>
  \<open>coap_options\<close> are the options of a message in their order, with their numbers; the reply to a CoAP client is the same as for HTTP. The code writes the
  number of a path option into each option it looks at, and takes its value.
\<close>

record coap_message =
  code_class :: nat
  code_detail :: int
  coap_options :: "(nat \<times> string) list"
  payload :: string

datatype coap_event = CoapCon | CoapNoc | CoapAck | CoapRst

datatype coap_error = CoapAssert string | CoapUndefined | CoapTask tm_error

definition coap_uri :: "(nat \<times> string) list \<Rightarrow> string" where
  "coap_uri opts = concat (map (\<lambda>(number, v). ''/'' @ v) opts)"

definition coap_method :: "bool \<Rightarrow> int \<Rightarrow> coap_error + int" where
  "coap_method ndebug i =
    (if \<not> ndebug \<and> \<not> i < 5 then Inl (CoapAssert ''i<size'')
     else if 0 \<le> i \<and> i < 5 then Inr (snd (m_methods ! nat i)) else Inl CoapUndefined)"

definition coap_root :: "('l, 'g) http_state \<Rightarrow> ('l, 'g) Handler3 Root" where
  "coap_root hs = (case omap_find (m_conManagers (hs_base hs)) ''COAP'' of Some rt \<Rightarrow> rt | None \<Rightarrow> new_Root)"

text \<open>The first component of the result tells whether an acknowledgement was sent.\<close>

definition on_coap :: "bool \<Rightarrow> tm_env \<Rightarrow> nat \<Rightarrow> r3_api \<Rightarrow> 'l \<Rightarrow> nat \<Rightarrow> coap_event \<Rightarrow> coap_message \<Rightarrow> ('l, 'g) http_state \<Rightarrow>
    bool \<times> (coap_error + ('l, 'g) http_state) option" where
  "on_coap ndebug E n api l c ev cm hs =
    (if code_class cm \<noteq> 0 \<or> ev \<in> {CoapAck, CoapRst} then (False, Some (Inr hs))
     else (ev = CoapCon,
       case coap_method ndebug (code_detail cm - 1) of
         Inl e \<Rightarrow> Some (Inl e)
       | Inr meth \<Rightarrow>
           (case match_route api (coap_uri (coap_options cm)) meth (coap_root hs) of
              None \<Rightarrow> Some (Inr hs)
            | Some (vars, h3) \<Rightarrow>
                (let (bt, tm) = create_task (new_Task (ClientTask (Some c)) (empty_Input\<lparr>body := payload cm\<rparr>) vars h3 l) (hs_tm hs);
                     hs1 = upd_client c (\<lambda>cl. cl\<lparr>cl_handler := TaskHandler bt\<rparr>) (hs\<lparr>hs_tm := tm\<rparr>)
                 in case onNewClient E n bt (hs_tm hs1) of
                      None \<Rightarrow> None
                    | Some (Inl e) \<Rightarrow> Some (Inl (CoapTask e))
                    | Some (Inr tm) \<Rightarrow> Some (Inr (after_run tm hs1))))))"


section \<open>Start and restart\<close>

lemma and_then_Inr: "and_then x f = Inr y \<longleftrightarrow> (\<exists>z. x = Inr z \<and> f z = Inr y)"
  by (cases x) auto

lemma cpp_assert_Inr: "cpp_assert nd w b x = Inr y \<longleftrightarrow> (b \<or> nd) \<and> y = x"
  by (auto simp: cpp_assert_def)

lemma loadBlacklist_Inr:
  "loadBlacklist nd rf ip cb = Inr cb' \<Longrightarrow> (m_blackList cb = None \<or> nd) \<and> (\<exists>bl. cb' = cb\<lparr>m_blackList := Some bl\<rparr>)"
  by (auto simp: loadBlacklist_def and_then_Inr cpp_assert_Inr Let_def split: if_splits option.splits bl_result.splits)

lemma arm_check [simp]: "dbgCheckConflictRoutes (snd (arm api rt)) = dbgCheckConflictRoutes rt"
  by (simp add: arm_def Let_def dbgCheckConflictRoutes_def root_routes_def)

lemma bind_managers_Inr:
  "bind_managers api ok ms = Inr ms' \<longleftrightarrow>
    (\<forall>(p, rt)\<in>set ms. dbgCheckConflictRoutes rt = [] \<and> ok p) \<and> ms' = map (\<lambda>(p, rt). (p, snd (arm api rt))) ms"
proof (induction ms arbitrary: ms')
  case (Cons m ms)
  show ?case using Cons by (cases m) (auto simp: Let_def and_then_Inr checkRoutes_def)
qed auto

definition coap_router :: "'h \<Rightarrow> 'h Router" where
  "coap_router h = addRoute ''/test2'' METHOD_GET h (addRoute ''/test1'' METHOD_GET h (addRoute ''/test'' METHOD_GET h (new_Router ''/coap'')))"

lemma coap_twice:
  "m_routers rt = coap_router h # rs \<Longrightarrow> dbgCheckConflictRoutes (setCoapRouters h' rt) = ''/coap/test2''"
  by (simp add: setCoapRouters_def coap_router_def addRouter_def addRoute_def new_Router_def dbgCheckConflictRoutes_def
      root_routes_def METHOD_GET_def)

text \<open>The managers that a start leaves: the protocol names are the keys, in their order.\<close>

lemma graftlet_call_Inr: "graftlet_call x = Inr y \<longleftrightarrow> x = Inr y"
  by (cases x) auto

lemmas start_unfold = init_server_def and_then_Inr graftlet_call_Inr createLooper_def cpp_assert_Inr initConnectionManagers_def emplace_manager_def
  Let_def upd_manager_def bind_managers_Inr createSystemInfoCounter_def

lemma init_server_managers:
  assumes "init_server S new_GraftServer = Inr sv"
  shows "\<exists>rtc rth bl L eps. m_conManagers (m_connectionBase sv) = [(''COAP'', rtc), (''HTTP'', rth)] \<and> m_routers rtc = [coap_router (s_coap_test S)] \<and>
    m_blackList (m_connectionBase sv) = Some bl \<and> cb_sysInfo (m_connectionBase sv) \<and> cb_looper (m_connectionBase sv) = Some new_looper_flags \<and>
    initGraftlets (s_ndebug S) (s_signature S) (s_exceptions S) (s_fwVersion S) (s_dirs S) None = Inr L \<and>
    getEndpoints (s_initOnce S) L = Inr (the (m_graftletLoader sv), eps) \<and>
    rth = snd (arm (s_r3 S) (initGraftletRouters (s_h3 S) eps (s_http S (s_generic S new_Root)))) \<and>
    dbgCheckConflictRoutes (initGraftletRouters (s_h3 S) eps (s_http S (s_generic S new_Root))) = []"
proof -
  have lt: "''COAP'' < ''HTTP''" "\<not> ''HTTP'' < ''COAP''" by code_simp+
  show ?thesis
    using assms
    by (auto simp: start_unfold new_GraftServer_def new_ConnectionBase_def setCoapRouters_def coap_router_def arm_def
        addRouter_def new_Root_def lt dest!: loadBlacklist_Inr)
qed

text \<open>The first start of a supernode without graftlets and without a rule file succeeds, and the HTTP manager has the routes of the node.\<close>

definition node_env where
  "node_env nd opts api E reply h =
     \<lparr>s_ndebug = nd, s_read_file = (\<lambda>_. None), s_opts = opts, s_r3 = api, s_bind_ok = (\<lambda>_. True), s_signature = ''abi'', s_exceptions = [],
      s_fwVersion = 256, s_dirs = [], s_initOnce = Inr, s_h3 = h3_worker, s_misc = None, s_generic = addGenericCallbackRoute E,
      s_http = setHttpRouters E reply, s_coap_test = h\<rparr>"

lemma no_graftlets: "initGraftlets nd sg ex fw [] None = Inr (new_GraftletLoader ex fw)"
  by (simp add: initGraftlets_def checkDependencies_def new_GraftletLoader_def dep_vector_def initialize_def empty_graph_def
      removeFailedDependants_def removeFailed.simps failed_entry_def erase_libraries_def findCycles_def visit_all.simps)

lemma no_endpoints: "getEndpoints io (new_GraftletLoader ex fw) = Inr (new_GraftletLoader ex fw, [])"
  by (simp add: getEndpoints_def new_GraftletLoader_def)

lemma node_starts:
  assumes "rules_filename (ipfilter opts) = []" "check_asserts opts"
  shows "\<exists>sv. init_server (node_env nd opts api E reply h) new_GraftServer = Inr sv \<and> \<not> cb_stop (m_connectionBase sv) \<and>
    omap_find (m_conManagers (m_connectionBase sv)) ''HTTP'' = Some (snd (arm api (node_root E reply)))"
proof -
  have lt: "''COAP'' < ''HTTP''" "\<not> ''HTTP'' < ''COAP''" by code_simp+
  have c: "dbgCheckConflictRoutes (setCoapRouters h new_Root) = []"
    by (simp add: setCoapRouters_def addRouter_def addRoute_def new_Router_def new_Root_def dbgCheckConflictRoutes_def root_routes_def METHOD_GET_def)
  have g: "dbgCheckConflictRoutes (setHttpRouters E reply (addGenericCallbackRoute E new_Root)) = []"
    using node_check_clear(3) by (simp add: node_root_def)
  show ?thesis
    by (simp add: init_server_def node_env_def createSystemInfoCounter_def loadBlacklist_def new_GraftServer_def new_ConnectionBase_def assms
        cpp_assert_def Let_def no_graftlets no_endpoints
        createLooper_def initConnectionManagers_def emplace_manager_def upd_manager_def lt initGraftletRouters_def bind_managers_Inr
        checkRoutes_def c g node_root_def)
qed

lemma second_start_fails:
  assumes "init_server S new_GraftServer = Inr sv" "stop_server nd force sv = Inr sv1"
  shows "\<exists>e. init_server S' sv1 = Inl e"
proof (rule ccontr)
  assume "\<nexists>e. init_server S' sv1 = Inl e"
  then obtain sv' where sv': "init_server S' sv1 = Inr sv'" by (cases "init_server S' sv1") auto
  obtain rtc rth where m: "m_conManagers (m_connectionBase sv) = [(''COAP'', rtc), (''HTTP'', rth)]" "m_routers rtc = [coap_router (s_coap_test S)]"
    using init_server_managers [OF assms(1)] by blast
  have k: "m_conManagers (m_connectionBase sv1) = [(''COAP'', rtc), (''HTTP'', rth)]"
    using assms(2) by (auto simp: stop_server_def and_then_Inr m split: option.splits)
  have lt: "''COAP'' < ''HTTP''" "\<not> ''HTTP'' < ''COAP''" by code_simp+
  have "dbgCheckConflictRoutes (setCoapRouters (s_coap_test S') rtc) = []"
    using sv' by (auto simp: start_unfold k lt dest!: loadBlacklist_Inr)
  with coap_twice [OF m(2), of "s_coap_test S'"] show False by simp
qed

text \<open>
  C22. A server cannot be started a second time. \<^verbatim>\<open>Supernode::run\<close> calls \<^verbatim>\<open>init\<close> again after a restart was requested, with the connection base of the first start:
  whatever the options, the files and the addresses of the second start, it ends in an error. With assertions the black list is found in place; without
  them the routers are added twice and the check of the routes fails.
\<close>

theorem restart_fails:
  assumes "init_server S new_GraftServer = Inr sv" "stop_server nd force sv = Inr sv1"
  shows "\<exists>e. init_server S' sv1 = Inl e"
  using assms by (rule second_start_fails)

definition demo_opts :: ConfigOpts where
  "demo_opts = demo_options\<lparr>http_address := ''0.0.0.0:28690'', coap_address := ''udp://0.0.0.0:18991'', http_connection_timeout := 360,
     upstream_request_timeout := 360, workers_expelling_interval_ms := 1000, timer_poll_interval_ms := 1000, lru_timeout_ms := 60000\<rparr>"

definition demo_start ::
  "((string \<times> string) list \<Rightarrow> Input \<Rightarrow> (string, string, nat) hst \<Rightarrow> (string, string, nat) hst \<times> outcome,
    (nat rta_local, (string, string, nat) rta_global) Handler3) start_env" where
  "demo_start = node_env True demo_opts demo_r3 (demo_rta demo_codec) [] (h3_pre (healthcheckHandler (demo_rta demo_codec)))"

theorem restart_fails_witness:
  "\<exists>sv sv1 e. init_server demo_start new_GraftServer = Inr sv \<and> stop_server False False sv = Inr sv1 \<and> init_server demo_start sv1 = Inl e"
proof -
  obtain sv where sv: "init_server demo_start new_GraftServer = Inr sv"
    using node_starts [of demo_opts True demo_r3 "demo_rta demo_codec" "[]" "h3_pre (healthcheckHandler (demo_rta demo_codec))"]
    by (auto simp: demo_start_def demo_opts_def demo_options_def check_asserts_def)
  then have "cb_looper (m_connectionBase sv) = Some new_looper_flags" using init_server_managers by blast
  then obtain sv1 where "stop_server False False sv = Inr sv1"
    by (simp add: stop_server_def looper_stop_def cpp_assert_def new_looper_flags_def)
  with restart_fails [OF sv, of False False sv1 demo_start] sv show ?thesis by blast
qed


section \<open>Starting from the command line\<close>

text \<open>
  \<^verbatim>\<open>GraftServer::init\<close> of a supernode as a whole, and the loop of \<^verbatim>\<open>Supernode::run\<close>: \<open>dir_files\<close> lists the files of a directory, \<open>sigs\<close> are the signals
  that end one turn of serving after the other. A restart keeps only the first word of the command line.
\<close>

datatype RunRes = SignalShutdown | SignalTerminate | SignalRestart

fun config_call :: "config_error + 'a \<Rightarrow> start_error + 'a" where
  "config_call (Inl e) = Inl (ConfigError e)"
| "config_call (Inr x) = Inr x"

definition supernode_init :: "'pt config_env \<Rightarrow> (string \<Rightarrow> 'w DllFile list) \<Rightarrow> ('w, 'h) start_env \<Rightarrow> string list \<Rightarrow>
    ConfigOpts \<times> ('w, 'h) GraftServer \<Rightarrow> start_error + ConfigOpts \<times> ('w, 'h) GraftServer" where
  "supernode_init C dir_files S argv = (\<lambda>(c, sv).
    and_then (config_call (Supernode_initConfigOption C argv c)) (\<lambda>(ld, cx).
    and_then (init_server (S\<lparr>s_opts := cx_opts cx, s_dirs := map dir_files (graftlet_dirs (cx_opts cx))\<rparr>) sv) (\<lambda>sv'.
      Inr (cx_opts cx, sv'))))"

fun supernode_run :: "'pt config_env \<Rightarrow> (string \<Rightarrow> 'w DllFile list) \<Rightarrow> ('w, 'h) start_env \<Rightarrow> string list \<Rightarrow> RunRes list \<Rightarrow>
    ConfigOpts \<times> ('w, 'h) GraftServer \<Rightarrow> start_error + ConfigOpts \<times> ('w, 'h) GraftServer" where
  "supernode_run C dir_files S argv [] st = supernode_init C dir_files S argv st"
| "supernode_run C dir_files S argv (sig # sigs) st =
    and_then (supernode_init C dir_files S argv st) (\<lambda>(c, sv).
    and_then (stop_server (s_ndebug S) (sig = SignalTerminate) sv) (\<lambda>sv'.
      if sig = SignalRestart then supernode_run C dir_files S [hd argv] sigs (c, sv') else Inr (c, sv')))"

lemma run_restart_fails: "\<exists>e. supernode_run C df S argv (SignalRestart # sigs) (c, new_GraftServer) = Inl e"
proof (rule ccontr)
  assume "\<nexists>e. supernode_run C df S argv (SignalRestart # sigs) (c, new_GraftServer) = Inl e"
  then obtain r where "supernode_run C df S argv (SignalRestart # sigs) (c, new_GraftServer) = Inr r"
    by (cases "supernode_run C df S argv (SignalRestart # sigs) (c, new_GraftServer)") auto
  then obtain c1 sv1 sv2 where i: "supernode_init C df S argv (c, new_GraftServer) = Inr (c1, sv1)" "stop_server (s_ndebug S) False sv1 = Inr sv2"
    and r: "supernode_run C df S [hd argv] sigs (c1, sv2) = Inr r"
    by (auto simp: and_then_Inr)
  obtain S1 where S1: "init_server S1 new_GraftServer = Inr sv1" using i(1) by (auto simp: supernode_init_def and_then_Inr)
  have "\<exists>z. supernode_init C df S [hd argv] (c1, sv2) = Inr z" using r by (cases sigs) (auto simp: and_then_Inr)
  then obtain S2 sv3 where "init_server S2 sv2 = Inr sv3" by (auto simp: supernode_init_def and_then_Inr)
  with second_start_fails [OF S1 i(2), of S2] show False by simp
qed

section \<open>The loop and the events of the manager\<close>

lemma tm_reach_trans: "tm_reach E b c \<Longrightarrow> tm_reach E a b \<Longrightarrow> tm_reach E a c"
  by (induction rule: tm_reach.induct) (auto intro: tm_reach.intros)

lemma tm_event_reach: "tm_event E a b \<Longrightarrow> tm_reach E a b"
  by (blast intro: tm_reach.intros)

lemma checkUpstreamBlockingIO_reach: "checkUpstreamBlockingIO E q tm = Some (Inr tm') \<Longrightarrow> tm_reach E tm tm'"
proof (induction E q tm rule: checkUpstreamBlockingIO.induct)
  case (2 E out l q tm)
  obtain tm1 where "upstreamBlocking E out l tm = Inr tm1" "checkUpstreamBlockingIO E q tm1 = Some (Inr tm')"
    using 2(2) by (cases "upstreamBlocking E out l tm") auto
  with 2(1) show ?case by (blast intro: tm_reach_trans tm_event_reach tm_event.blocking)
qed (auto intro: tm_reach.start)

lemma checkPeriodicTaskIO_reach: "tm_reach E tm (checkPeriodicTaskIO E q tm)"
  by (induction E q tm rule: checkPeriodicTaskIO.induct) (auto intro: tm_reach.start tm_reach_trans tm_event_reach tm_event.periodic)

lemma tm_then_Inr: "tm_then x f = Some (Inr y) \<longleftrightarrow> (\<exists>tm. x = Some (Inr tm) \<and> f tm = Some (Inr y))"
  by (cases x; cases "the x") auto

text \<open>A stop, forced or not, only lets the loop be left once no task, upstream request or job is pending.\<close>

lemma loop_left_when_idle:
  "serve_turn E n k promises periodics fl tm = Some (Inr (True, tm')) \<Longrightarrow> canStop tm' \<and> (l_stop fl \<or> l_forceStop fl)"
  by (auto simp: serve_turn_def tm_then_Inr split: if_splits)

lemma serve_turn_reach:
  assumes "serve_turn E n k promises periodics fl tm = Some (Inr (left, tm'))"
  shows "tm_reach E tm tm'"
proof (cases "l_forceStop fl")
  case False
  then obtain tm1 tm2 where "timer_eval E n k tm = Some (Inr tm1)" "checkUpstreamBlockingIO E promises tm1 = Some (Inr tm2)"
    and "executePostponedTasks E n k (checkPeriodicTaskIO E periodics tm2) = Some (Inr tm')"
    using assms by (auto simp: serve_turn_def tm_then_Inr)
  then show ?thesis
    by (blast intro: tm_reach_trans tm_event_reach tm_event.timers tm_event.postponed checkUpstreamBlockingIO_reach checkPeriodicTaskIO_reach)
qed (use assms in \<open>auto simp: serve_turn_def intro: tm_reach.start\<close>)


lemma periodic_tasks_reach:
  "tm_reach E tm (startSupernodePeriodicTasks E h3 announce sync l cx (addGlobalCtxCleaner E h3 cleaner l opts tm))"
proof -
  have p: "tm_reach E tm (addPeriodicTask E h l i ii f t)" if "tm_reach E tm t" for h i ii f t
    by (rule tm_reach_trans [OF tm_event_reach that]) (rule tm_event.periodic)
  show ?thesis unfolding addGlobalCtxCleaner_def startSupernodePeriodicTasks_def Let_def
    by (auto intro!: p tm_reach.start)
qed

section \<open>Requests\<close>

lemma strncmp_prefix: "CHR 0x00 \<notin> set b \<Longrightarrow> strncmp_eq a b (length b) \<longleftrightarrow> prefix b a"
proof (induction b arbitrary: a)
  case (Cons x b)
  then show ?case by (cases a) auto
qed simp

text \<open>
  The method of a request is looked up by a comparison of as many characters as the request has: the first name in the table of which the request's
  method is a prefix is taken, so that \<^verbatim>\<open>P\<close> is a POST, \<^verbatim>\<open>H\<close> a HEAD and an empty method a GET.
\<close>

theorem method_by_prefix:
  assumes "CHR 0x00 \<notin> set m"
  shows "translateMethod m = (case List.find (\<lambda>e. prefix m (fst e)) m_methods of Some e \<Rightarrow> snd e | None \<Rightarrow> -1)"
  using strncmp_prefix [OF assms] by (simp add: translateMethod_def)

theorem method_by_prefix_witness: "translateMethod ''P'' = 4"
proof -
  have "translateMethod ''P'' = (case List.find (\<lambda>e. prefix ''P'' (fst e)) m_methods of Some e \<Rightarrow> snd e | None \<Rightarrow> -1)"
    by (rule method_by_prefix) simp
  then show ?thesis by (simp add: m_methods_def)
qed

definition demo_client :: client where
  "demo_client = \<lparr>cl_timer = Some 360, cl_close_immediately = False, cl_send_and_close = False, cl_handler = EvHandlerHttp\<rparr>"

definition demo_http :: "(unit, unit) http_state" where
  "demo_http = \<lparr>hs_tm = demo_tm,
     hs_base = new_ConnectionBase\<lparr>m_conManagers :=
       [(''HTTP'', snd (arm demo_r3 (addRouter (addRoute ''/a'' METHOD_GET demo_h3 (new_Router [])) new_Root)))]\<rparr>,
     hs_clients = (\<lambda>_. demo_client)\<rparr>"

definition demo_request :: "string \<Rightarrow> http_request" where
  "demo_request m = \<lparr>hm_method = m, hm_uri = ''/a'', hm_message_len = 40, hm_input = empty_Input, hm_remote_port = 7\<rparr>"

lemma demo_get: "translateMethod (hm_method (demo_request ''GET'')) = 2" "hm_uri (demo_request ''GET'') = ''/a''"
  by code_simp+

lemma demo_root:
  "m_node (http_root demo_http) = [\<lparr>r_endpoint = ''/a'', r_methods = METHOD_GET, r_h3 = demo_h3\<rparr>]"
  "r3_match demo_r3 (r3_view (m_node (http_root demo_http))) ''/a'' 2 = Some (0, [])"
proof -
  show n: "m_node (http_root demo_http) = [\<lparr>r_endpoint = ''/a'', r_methods = METHOD_GET, r_h3 = demo_h3\<rparr>]"
    by (simp add: demo_http_def http_root_def arm_def Let_def addRouter_def addRoute_def new_Router_def new_Root_def root_routes_def)
  have "r3_match demo_r3 [(METHOD_GET, ''/a'')] ''/a'' 2 = Some (0, [])" by code_simp
  then show "r3_match demo_r3 (r3_view (m_node (http_root demo_http))) ''/a'' 2 = Some (0, [])" by (simp add: n r3_view_def)
qed

lemma demo_unknown: "translateMethod (hm_method (demo_request ''PATCH'')) = -1"
  by code_simp

text \<open>
  A request with a method that is not in the table is left alone: the connection has no timer any more, nothing is sent, it is not closed, and no task is made for it.
\<close>

theorem unknown_method_unanswered:
  assumes "translateMethod (hm_method hm) < 0"
  shows "\<exists>hs'. on_http_request E n api l c hm hs = Some (Inr hs') \<and> hs_clients hs' c = (hs_clients hs c)\<lparr>cl_timer := None\<rparr> \<and>
    tm_out (hs_tm hs') = tm_out (hs_tm hs) \<and> tm_tasks (hs_tm hs') = tm_tasks (hs_tm hs) \<and> tm_jobs (hs_tm hs') = tm_jobs (hs_tm hs)"
  using assms by (simp add: on_http_request_def Let_def upd_tm_def upd_client_def count_by_def)

theorem unknown_method_unanswered_witness:
  "\<exists>hs'. on_http_request demo_env 8 demo_r3 () 5 (demo_request ''PATCH'') demo_http = Some (Inr hs') \<and>
     hs_clients hs' 5 = demo_client\<lparr>cl_timer := None\<rparr> \<and> tm_out (hs_tm hs') = []"
proof -
  have d: "hs_clients demo_http 5 = demo_client" "tm_out (hs_tm demo_http) = []" by (simp_all add: demo_http_def demo_tm_def)
  from unknown_method_unanswered [of "demo_request ''PATCH''" demo_env 8 demo_r3 "()" 5 demo_http] show ?thesis by (auto simp: demo_unknown d)
qed

lemma http_root_upd [simp]: "http_root (upd_tm f hs) = http_root hs" "http_root (upd_client c g hs) = http_root hs"
  by (simp_all add: http_root_def upd_tm_def upd_client_def)

lemma fold_finish:
  "fold finish_client outs cls c =
    (if FinishClient c \<in> set outs then (cls c)\<lparr>cl_send_and_close := True, cl_handler := EmptyHandler\<rparr> else cls c)"
proof (induction outs arbitrary: cls)
  case (Cons e outs)
  then show ?case by (cases e) auto
qed simp

lemma after_run_tm [simp]: "hs_tm (after_run tm hs) = tm" "hs_base (after_run tm hs) = hs_base hs"
  by (simp_all add: after_run_def)

lemma after_run_client:
  "hs_clients (after_run tm hs) c = (if FinishClient c \<in> set (new_outs (hs_tm hs) tm)
     then (hs_clients hs c)\<lparr>cl_send_and_close := True, cl_handler := EmptyHandler\<rparr> else hs_clients hs c)"
  by (simp add: after_run_def fold_finish)

lemma answered_client: "answered b tm \<longleftrightarrow> client_of tm b = None"
  by (auto simp: answered_def client_of_def split: task_kind.split)

text \<open>What a run of a new task does to the connection it was made for.\<close>

lemma told_own_client:
  assumes "told {b} tm tm'" "client_of tm b = Some c"
  shows "client_of tm' b = Some c \<and> FinishClient c \<notin> set (new_outs tm tm') \<or> client_of tm' b = None \<and> FinishClient c \<in> set (new_outs tm tm')"
  using told_lost [OF assms(1), of b] told_finished [OF assms(1), of c] assms(2) by (cases "client_of tm' b = client_of tm b") auto

text \<open>
  C20. A request with a known method is served. When it matches a route whose pre and post actions return only final statuses, a task is made for it.
  Afterwards the task has either answered, and then the connection is closed once the reply is sent and has the empty handler; or it has not, and then it is
  where the manager will find it, and it handles the events of the connection. When the request matches no route, an error 500 is sent and the
  connection is closed after it. The only failure is a forward to an unknown upstream substitution.
\<close>

theorem known_method_served:
  fixes hs :: "('l, 'g) http_state"
  assumes "0 \<le> translateMethod (hm_method hm)" "8 \<le> n"
    and "m = match_route api (hm_uri hm) (translateMethod (hm_method hm)) (http_root hs)"
    and "\<forall>(vs, h3) \<in> set_option m.
      some_handler (h3_flags_of h3) \<and> returns_in settled (pre_action h3) \<and> returns_in settled (post_action h3)"
  shows "(m \<noteq> None \<and> (\<exists>hs'. on_http_request E n api l c hm hs = Some (Inr hs') \<and>
        (if t_kind (tm_tasks (hs_tm hs') (tm_next (hs_tm hs))) = ClientTask (Some c)
         then under_way (tm_next (hs_tm hs)) (hs_tm hs') \<and> cl_handler (hs_clients hs' c) = TaskHandler (tm_next (hs_tm hs))
         else answered (tm_next (hs_tm hs)) (hs_tm hs') \<and> FinishClient c \<in> set (new_outs (hs_tm hs) (hs_tm hs')) \<and>
           cl_send_and_close (hs_clients hs' c) \<and> cl_handler (hs_clients hs' c) = EmptyHandler))) \<or>
    (m \<noteq> None \<and> (\<exists>u. on_http_request E n api l c hm hs = Some (Inl (UpstreamFailure (UriSubstitutionNotFound u))))) \<or>
    (m = None \<and> (\<exists>hs'. on_http_request E n api l c hm hs = Some (Inr hs') \<and> cl_send_and_close (hs_clients hs' c) \<and>
        tm_out (hs_tm hs') = tm_out (hs_tm hs) @ [SendErrorReply c 500 ''invalid parameter'']))"
proof (cases m)
  case None
  then show ?thesis
    using assms(1,3) by (simp add: on_http_request_def Let_def upd_tm_def upd_client_def count_by_def emit_def http_root_def)
next
  case (Some p)
  obtain vs h3 where p: "m = Some (vs, h3)" using Some by (cases p) simp
  then have mr: "match_route api (hm_uri hm) (translateMethod (hm_method hm)) (http_root hs) = Some (vs, h3)" using assms(3) by simp
  let ?b = "tm_next (hs_tm hs)"
  let ?t = "new_Task (ClientTask (Some c)) ((hm_input hm)\<lparr>in_port := hm_remote_port hm\<rparr>) vs h3 l"
  define hs1 where "hs1 = upd_tm (count_by HttpReqRouted 1) (upd_tm (count_by HttpReqBytes (byte_delta (hm_message_len hm)))
    (upd_client c (\<lambda>cl. cl\<lparr>cl_timer := None\<rparr>) (upd_tm (count_by HttpReqTotal 1) hs)))"
  define tm1 where "tm1 = snd (create_task ?t (hs_tm hs1))"
  define hs3 where "hs3 = upd_client c (\<lambda>cl. cl\<lparr>cl_handler := TaskHandler ?b\<rparr>) (hs1\<lparr>hs_tm := tm1\<rparr>)"
  have b: "tm_next (hs_tm hs1) = ?b" "tm_out (hs_tm hs1) = tm_out (hs_tm hs)" by (simp_all add: hs1_def upd_tm_def upd_client_def count_by_def)
  have s: "hs_tm hs3 = tm1" "cl_handler (hs_clients hs3 c) = TaskHandler ?b" by (simp_all add: hs3_def upd_client_def)
  have r: "on_http_request E n api l c hm hs = tm_then (onNewClient E n ?b tm1) (\<lambda>tm. Some (Inr (after_run tm hs3)))"
    using assms(1) b by (simp add: on_http_request_def Let_def mr create_task_def tm1_def hs3_def flip: hs1_def) (simp add: upd_client_def)
  let ?tm = "tm1\<lparr>m_cntBaseTask := m_cntBaseTask tm1 + 1\<rparr>"
  have t: "tm_tasks tm1 ?b = ?t" by (simp add: tm1_def create_task_def b)
  have h: "t_h3 ?t = h3" "t_status ?t = StNone" "t_kind ?t = ClientTask (Some c)" by (simp_all add: new_Task_def new_Ctx_def)
  have k: "client_of ?tm ?b = Some c" by (simp add: client_of_Some t h)
  have o: "new_outs ?tm tm' = new_outs tm1 tm'" "new_outs (hs_tm hs) tm' = new_outs tm1 tm'" for tm' :: "('l, 'g) TaskManager"
    by (simp_all add: new_outs_def tm1_def create_task_def b)
  have out: "(\<exists>tm'. Execute E n ?b ?tm = Some (Inr tm') \<and> (answered ?b tm' \<or> under_way ?b tm')) \<or>
      (\<exists>u. Execute E n ?b ?tm = Some (Inl (UpstreamFailure (UriSubstitutionNotFound u))))"
    by (rule execute_outcome) (use assms(2,4) p in \<open>simp_all add: t h entry_status_def\<close>)
  show ?thesis
  proof (cases "\<exists>tm'. Execute E n ?b ?tm = Some (Inr tm')")
    case True
    then obtain tm' where x: "Execute E n ?b ?tm = Some (Inr tm')" and f: "answered ?b tm' \<or> under_way ?b tm'" using out by auto
    have "on_http_request E n api l c hm hs = Some (Inr (after_run tm' hs3))" by (simp add: r onNewClient_def x)
    then show ?thesis using told_own_client [OF told_Execute [OF x] k] p f
      by (auto simp: after_run_client s o answered_client client_of_Some [symmetric])
  qed (use p out in \<open>auto simp: r onNewClient_def\<close>)
qed

theorem known_method_served_witness:
  "\<exists>hs'. on_http_request demo_env 8 demo_r3 () 5 (demo_request ''GET'') demo_http = Some (Inr hs') \<and>
     tm_out (hs_tm hs') = [SendReply 5 200 ''done'', FinishClient 5] \<and>
     answered 1 (hs_tm hs') \<and> cl_send_and_close (hs_clients hs' 5) \<and> cl_handler (hs_clients hs' 5) = EmptyHandler"
proof -
  let ?r = "on_http_request demo_env 8 demo_r3 () 5 (demo_request ''GET'') demo_http"
  have m: "match_route demo_r3 (hm_uri (demo_request ''GET'')) (translateMethod (hm_method (demo_request ''GET''))) (http_root demo_http) = Some ([], demo_h3)"
    by (simp add: demo_get match_route_def demo_root(2)) (simp add: demo_root(1))
  have g: "0 \<le> translateMethod (hm_method (demo_request ''GET''))" by (simp add: demo_get)
  have run: "map_option (\<lambda>r. case r of Inr hs \<Rightarrow> (tm_out (hs_tm hs), t_kind (tm_tasks (hs_tm hs) 1)) | Inl _ \<Rightarrow> ([], ClientTask (Some 5))) ?r =
      Some ([SendReply 5 200 ''done'', FinishClient 5], ClientTask None)" by code_simp
  have s: "returns_in settled (Some ok_handler)" by (rule ok_handler_returns) (simp add: settled_def)
  have n: "tm_next (hs_tm demo_http) = 1" by (simp add: demo_http_def demo_tm_def)
  have h: "\<forall>(vs, h3) \<in> set_option (Some ([] :: vars_t, demo_h3)).
      some_handler (h3_flags_of h3) \<and> returns_in settled (pre_action h3) \<and> returns_in settled (post_action h3)"
    using s by (auto simp: demo_h3_def some_handler_def)
  from known_method_served [where E = demo_env and l = "()" and c = 5, OF g order_refl m [symmetric] h] run n show ?thesis by auto
qed

section \<open>The events of the connections\<close>























text \<open>
  The target of a CoAP message is made of the values of all its options, whatever their numbers: a request for \<^verbatim>\<open>/coap/test\<close> with a query or a content
  format looks for another target, and is acknowledged and dropped.
\<close>

theorem coap_takes_all_options:
  "coap_uri [(11, ''coap''), (11, ''test''), (15, ''a=1'')] = ''/coap/test/a=1'' \<and> coap_uri [(11, ''coap''), (11, ''test'')] = ''/coap/test''"
  by (simp add: coap_uri_def)

text \<open>An empty message, which is of the class of requests, has detail zero: the method is read before the start of the table.\<close>

lemma empty_coap_message:
  "code_class cm = 0 \<Longrightarrow> code_detail cm = 0 \<Longrightarrow> ev \<in> {CoapCon, CoapNoc} \<Longrightarrow> snd (on_coap nd E n api l c ev cm hs) = Some (Inl CoapUndefined)"
  by (auto simp: on_coap_def coap_method_def)

end
