(* ===== verification/System_Info.thy ===== *)
theory System_Info
  imports Config Node_Routes Task_Model
begin

text \<open>
  The answer of \<^verbatim>\<open>/sys_info\<close> (\<^verbatim>\<open>sys_info_request.cpp\<close>, \<^verbatim>\<open>sys_info_request.h\<close>): the counters of the task manager and the options of the node, with
  the conversions to the unsigned fields of the answer. Printing the answer is an argument.
\<close>

section \<open>The answer\<close>

record Configuratioon =
  ri_config_filename :: string
  ri_http_address :: string
  ri_coap_address :: string
  ri_http_connection_timeout :: u32
  ri_upstream_request_timeout :: u32
  ri_workers_count :: u32
  ri_worker_queue_len :: u32
  ri_cryptonode_rpc_address :: string
  ri_timer_poll_interval_ms :: u32
  ri_lru_timeout_ms :: u32
  ri_graftlet_dirs :: "string list"
  ri_testnet :: bool
  ri_data_dir :: string
  ri_stake_wallet_name :: string
  ri_stake_wallet_refresh_interval_ms :: u32
  ri_watchonly_wallets_path :: string
  ri_log_level :: u32
  ri_log_trunc_to_size :: u32
  ri_log_console :: bool
  ri_log_filename :: string
  ri_log_categories :: string

record Running =
  ri_http_request_total :: u64
  ri_http_request_routed :: u64
  ri_http_request_unrouted :: u64
  ri_http_resp_status_ok :: u64
  ri_http_resp_status_error :: u64
  ri_http_resp_status_drop :: u64
  ri_http_resp_status_busy :: u64
  ri_http_req_bytes_raw :: u64
  ri_http_resp_bytes_raw :: u64
  ri_upstrm_http_req :: u64
  ri_upstrm_http_resp_ok :: u64
  ri_upstrm_http_resp_err :: u64
  ri_upstrm_http_req_bytes_raw :: u64
  ri_upstrm_http_resp_bytes_raw :: u64
  ri_uptime_sec :: u32

text \<open>The fields \<^verbatim>\<open>version\<close>, \<^verbatim>\<open>dapi\<close> and \<^verbatim>\<open>graftlets\<close> of the answer keep their empty initial values.\<close>

record SysInfoResponse =
  si_configuration :: Configuratioon
  si_running_info :: Running

definition empty_Configuratioon :: Configuratioon where
  "empty_Configuratioon =
     \<lparr>ri_config_filename = [], ri_http_address = [], ri_coap_address = [], ri_http_connection_timeout = 0, ri_upstream_request_timeout = 0,
      ri_workers_count = 0, ri_worker_queue_len = 0, ri_cryptonode_rpc_address = [], ri_timer_poll_interval_ms = 0, ri_lru_timeout_ms = 0,
      ri_graftlet_dirs = [], ri_testnet = False, ri_data_dir = [], ri_stake_wallet_name = [], ri_stake_wallet_refresh_interval_ms = 0,
      ri_watchonly_wallets_path = [], ri_log_level = 0, ri_log_trunc_to_size = 0, ri_log_console = False, ri_log_filename = [], ri_log_categories = []\<rparr>"

section \<open>The handler\<close>

text \<open>A double is cut to an integer; out of the range of the type the conversion is undefined. An \<^verbatim>\<open>int\<close> is taken modulo \<open>2 ^ 32\<close>.\<close>

definition double_to_u32 :: "rat \<Rightarrow> u32 option" where
  "double_to_u32 x = (if - 1 < x \<and> x < 2 ^ 32 then Some (if x < 0 then 0 else of_int \<lfloor>x\<rfloor>) else None)"

definition running_info :: "(SysCounter \<Rightarrow> u64) \<Rightarrow> u32 \<Rightarrow> Running" where
  "running_info rsi uptime =
     \<lparr>ri_http_request_total = rsi HttpReqTotal, ri_http_request_routed = rsi HttpReqRouted, ri_http_request_unrouted = rsi HttpReqUnrouted,
      ri_http_resp_status_ok = rsi HttpRespOk, ri_http_resp_status_error = rsi HttpRespError, ri_http_resp_status_drop = rsi HttpRespDrop,
      ri_http_resp_status_busy = rsi HttpRespBusy, ri_http_req_bytes_raw = rsi HttpReqBytes, ri_http_resp_bytes_raw = rsi HttpRespBytes,
      ri_upstrm_http_req = rsi UpstrmReq, ri_upstrm_http_resp_ok = rsi UpstrmRespOk, ri_upstrm_http_resp_err = rsi UpstrmRespErr,
      ri_upstrm_http_req_bytes_raw = rsi UpstrmReqBytes, ri_upstrm_http_resp_bytes_raw = rsi UpstrmRespBytes, ri_uptime_sec = uptime\<rparr>"

definition shown_configuration :: "ConfigOpts \<Rightarrow> Configuratioon option" where
  "shown_configuration co =
     (case (double_to_u32 (http_connection_timeout co), double_to_u32 (upstream_request_timeout co)) of
        (Some hct, Some urt) \<Rightarrow> Some (empty_Configuratioon
          \<lparr>ri_config_filename := config_filename co, ri_http_address := http_address co, ri_coap_address := coap_address co,
           ri_http_connection_timeout := hct, ri_upstream_request_timeout := urt, ri_workers_count := of_int (workers_count co),
           ri_worker_queue_len := of_int (worker_queue_len co), ri_cryptonode_rpc_address := ConfigOpts.cryptonode_rpc_address co,
           ri_timer_poll_interval_ms := of_int (timer_poll_interval_ms co), ri_lru_timeout_ms := of_int (lru_timeout_ms co),
           ri_graftlet_dirs := graftlet_dirs co, ri_log_trunc_to_size := of_int (log_trunc_to_size co)\<rparr>)
      | _ \<Rightarrow> None)"

definition sys_info_response :: "(SysCounter \<Rightarrow> u64) \<Rightarrow> u32 \<Rightarrow> ConfigOpts \<Rightarrow> SysInfoResponse option" where
  "sys_info_response rsi uptime co =
     map_option (\<lambda>cfg. \<lparr>si_configuration = cfg, si_running_info = running_info rsi uptime\<rparr>) (shown_configuration co)"

text \<open>The handler on the state of a request: the body of the output is the printed answer. \<open>None\<close> is an undefined conversion.\<close>

definition system_info_handler where
  "system_info_handler print rsi uptime co vars input s =
     map_option (\<lambda>r. sysInfoHandler (print r) vars input s) (sys_info_response rsi uptime co)"

section \<open>Facts\<close>

text \<open>With the options that the assertions allow, and timeouts below \<open>2 ^ 32\<close> seconds, the request is answered and the global context untouched.\<close>

lemma sys_info_answers:
  assumes "check_asserts co" "http_connection_timeout co < 2 ^ 32" "upstream_request_timeout co < 2 ^ 32"
  shows "\<exists>r. system_info_handler print rsi uptime co vars input s = Some (s\<lparr>h_out := (h_out s)\<lparr>body := print r\<rparr>\<rparr>, Ret StOk) \<and>
    si_running_info r = running_info rsi uptime"
  using assms by (auto simp: system_info_handler_def sys_info_response_def shown_configuration_def double_to_u32_def sysInfoHandler_def check_asserts_def)

text \<open>What is shown is not always what is set: the value for an untruncated log is shown as the largest number.\<close>

lemma untruncated_log_shown: "log_trunc_to_size co = -1 \<Longrightarrow> shown_configuration co = Some c \<Longrightarrow> ri_log_trunc_to_size c = 2 ^ 32 - 1"
  by (auto simp: shown_configuration_def split: option.splits)

end
