(* ===== verification/Strand.thy ===== *)
theory Strand
  imports Graft_Prelude
begin

text \<open>
  The strand of a wallet (\<^verbatim>\<open>thread_pool/strand.hpp\<close>): handlers of one wallet run one after the other on the threads of the pool. A post is a push to the
  queue of the strand followed by a job in the pool; the push consists of taking a cell of the lock-free queue and of publishing it (\<open>Mpmc_Queue\<close>), and
  between the two other threads may do anything. The size of the counter is not bounded here: it counts calls that are under way.
\<close>

section \<open>State\<close>

datatype 't loop_point = AtPop "'t option" | InHandler 't | AtSub "'t option"

record 't strand =
  s_cells :: "('t \<times> bool) list"
  s_head :: nat
  s_deferred :: nat
  s_posting :: nat
  s_calls :: nat
  s_loops :: "'t loop_point list"
  s_done :: "'t list"
  s_failed :: bool
  s_aborted :: bool

text \<open>
  \<open>s_cells\<close> are the handlers in the order of their tickets, with their publication, \<open>s_head\<close> the next to be popped; \<open>s_posting\<close> are the posts between
  push and the job in the pool, \<open>s_calls\<close> the jobs in the pool, \<open>s_loops\<close> the threads inside the loop of \<^verbatim>\<open>invokeCall\<close>. The functor of a
  loop is empty at first (\<open>None\<close>) and keeps the last handler after it has run. \<open>s_failed\<close> records that a pop found no handler, \<open>s_aborted\<close> that the
  assertion on it has ended the program.
\<close>

definition new_strand :: "'t strand" where
  "new_strand = \<lparr>s_cells = [], s_head = 0, s_deferred = 0, s_posting = 0, s_calls = 0, s_loops = [], s_done = [], s_failed = False, s_aborted = False\<rparr>"

section \<open>Steps\<close>

text \<open>\<^verbatim>\<open>post\<close>: the push, which is lost when the queue is full, and the job, which the pool may refuse by an exception.\<close>

definition reserve_cell :: "nat \<Rightarrow> 't \<Rightarrow> 't strand \<Rightarrow> 't strand option" where
  "reserve_cell queue_size t s =
    (if length (s_cells s) - s_head s < queue_size then Some (s\<lparr>s_cells := s_cells s @ [(t, False)]\<rparr>) else None)"

definition publish_cell :: "nat \<Rightarrow> 't strand \<Rightarrow> 't strand option" where
  "publish_cell i s =
    (if i < length (s_cells s) \<and> \<not> snd (s_cells s ! i)
     then Some (s\<lparr>s_cells := (s_cells s)[i := (fst (s_cells s ! i), True)], s_posting := s_posting s + 1\<rparr>) else None)"

definition push_refused :: "nat \<Rightarrow> 't strand \<Rightarrow> 't strand option" where
  "push_refused queue_size s =
    (if length (s_cells s) - s_head s < queue_size then None else Some (s\<lparr>s_posting := s_posting s + 1\<rparr>))"

definition post_call :: "bool \<Rightarrow> 't strand \<Rightarrow> 't strand option" where
  "post_call accepted s =
    (if s_posting s = 0 then None
     else Some (s\<lparr>s_posting := s_posting s - 1, s_calls := s_calls s + (if accepted then 1 else 0)\<rparr>))"

text \<open>
  \<^verbatim>\<open>invokeCall\<close>: the increment, the pop with its assertion, the end of the handler, and the decrement. Without assertions (\<open>ndebug\<close>) the functor is
  called after a failed pop too: an empty one throws, which is suppressed, and one that still holds the last handler runs it again.
\<close>

definition invoke_add :: "'t strand \<Rightarrow> 't strand option" where
  "invoke_add s =
    (if s_calls s = 0 then None
     else Some (s\<lparr>s_calls := s_calls s - 1, s_deferred := s_deferred s + 1,
       s_loops := (if s_deferred s = 0 then s_loops s @ [AtPop None] else s_loops s)\<rparr>))"

definition invoke_pop :: "bool \<Rightarrow> nat \<Rightarrow> 't strand \<Rightarrow> 't strand option" where
  "invoke_pop ndebug k s =
    (if k < length (s_loops s) then
       (case s_loops s ! k of
          AtPop held \<Rightarrow>
            if s_head s < length (s_cells s) \<and> snd (s_cells s ! s_head s)
            then Some (s\<lparr>s_loops := (s_loops s)[k := InHandler (fst (s_cells s ! s_head s))], s_head := s_head s + 1\<rparr>)
            else if \<not> ndebug then Some (s\<lparr>s_failed := True, s_aborted := True\<rparr>)
            else Some (s\<lparr>s_loops := (s_loops s)[k := (case held of Some t \<Rightarrow> InHandler t | None \<Rightarrow> AtSub None)], s_failed := True\<rparr>)
        | _ \<Rightarrow> None)
     else None)"

definition handler_end :: "nat \<Rightarrow> 't strand \<Rightarrow> 't strand option" where
  "handler_end k s =
    (if k < length (s_loops s) then
       (case s_loops s ! k of
          InHandler t \<Rightarrow> Some (s\<lparr>s_loops := (s_loops s)[k := AtSub (Some t)], s_done := s_done s @ [t]\<rparr>)
        | _ \<Rightarrow> None)
     else None)"

definition remove_at :: "nat \<Rightarrow> 'a list \<Rightarrow> 'a list" where
  "remove_at k xs = take k xs @ drop (Suc k) xs"

definition invoke_sub :: "nat \<Rightarrow> 't strand \<Rightarrow> 't strand option" where
  "invoke_sub k s =
    (if k < length (s_loops s) then
       (case s_loops s ! k of
          AtSub held \<Rightarrow>
            Some (s\<lparr>s_deferred := s_deferred s - 1,
              s_loops := (if 1 < s_deferred s then (s_loops s)[k := AtPop held] else remove_at k (s_loops s))\<rparr>)
        | _ \<Rightarrow> None)
     else None)"

datatype 't strand_event =
  Reserve 't | Publish nat | Refused | PostCall bool | Add | Pop nat | HandlerEnd nat | Sub nat

fun strand_step :: "bool \<Rightarrow> nat \<Rightarrow> 't strand_event \<Rightarrow> 't strand \<Rightarrow> 't strand option" where
  "strand_step nd n (Reserve t) s = reserve_cell n t s"
| "strand_step nd n (Publish i) s = publish_cell i s"
| "strand_step nd n Refused s = push_refused n s"
| "strand_step nd n (PostCall ok) s = post_call ok s"
| "strand_step nd n Add s = invoke_add s"
| "strand_step nd n (Pop k) s = invoke_pop nd k s"
| "strand_step nd n (HandlerEnd k) s = handler_end k s"
| "strand_step nd n (Sub k) s = invoke_sub k s"

fun strand_run :: "bool \<Rightarrow> nat \<Rightarrow> 't strand_event list \<Rightarrow> 't strand \<Rightarrow> 't strand option" where
  "strand_run nd n [] s = Some s"
| "strand_run nd n (e # es) s = (if s_aborted s then None else Option.bind (strand_step nd n e s) (strand_run nd n es))"

section \<open>One at a time, in order\<close>

fun in_handler :: "'t loop_point list \<Rightarrow> 't list" where
  "in_handler [] = []"
| "in_handler (InHandler t # ls) = t # in_handler ls"
| "in_handler (AtPop h # ls) = in_handler ls"
| "in_handler (AtSub h # ls) = in_handler ls"

lemma in_handler_append [simp]: "in_handler (ls @ ms) = in_handler ls @ in_handler ms"
  by (induction ls rule: in_handler.induct) simp_all

lemma in_handler_le: "length (in_handler ls) \<le> length ls"
  by (induction ls rule: in_handler.induct) simp_all

lemmas strand_defs = reserve_cell_def publish_cell_def push_refused_def post_call_def invoke_add_def invoke_pop_def handler_end_def invoke_sub_def

lemma one_loop: "length ls = Suc 0 \<Longrightarrow> k < length ls \<Longrightarrow> k = 0 \<and> ls = [ls ! 0]"
  by (cases ls) auto

text \<open>There is a loop exactly while the counter is positive.\<close>

definition loop_inv :: "'t strand \<Rightarrow> bool" where
  "loop_inv s \<longleftrightarrow> length (s_loops s) = (if s_deferred s = 0 then 0 else 1)"

lemma loop_inv_step: "strand_step nd n e s = Some s' \<Longrightarrow> loop_inv s \<Longrightarrow> loop_inv s'"
proof (cases e)
  case (Sub k)
  assume a: "strand_step nd n e s = Some s'" "loop_inv s"
  then obtain h where k: "k < length (s_loops s)"
    and s': "s' = s\<lparr>s_deferred := s_deferred s - 1,
         s_loops := (if 1 < s_deferred s then (s_loops s)[k := AtPop h] else remove_at k (s_loops s))\<rparr>"
    by (auto simp: Sub invoke_sub_def split: if_splits loop_point.splits)
  then have "length (s_loops s) = Suc 0" "s_deferred s \<noteq> 0" using a(2) by (auto simp: loop_inv_def split: if_splits)
  with k show ?thesis by (auto simp: loop_inv_def s' remove_at_def)
qed (auto simp: strand_defs loop_inv_def split: if_splits loop_point.splits option.splits)

lemma loop_inv_run: "strand_run nd n es s = Some s' \<Longrightarrow> loop_inv s \<Longrightarrow> loop_inv s'"
  by (induction nd n es s rule: strand_run.induct) (auto split: Option.bind_splits if_splits intro: loop_inv_step)

lemma loop_only:
  assumes "loop_inv s" "k < length (s_loops s)" "s_loops s ! k = p"
  shows "k = 0" "s_loops s = [p]" "s_deferred s \<noteq> 0"
proof -
  have l: "length (s_loops s) = Suc 0" and d: "s_deferred s \<noteq> 0" using assms(1,2) by (auto simp: loop_inv_def split: if_splits)
  from one_loop [OF l assms(2)] show "k = 0" "s_loops s = [p]" using assms(3) by auto
  show "s_deferred s \<noteq> 0" by (rule d)
qed

text \<open>Until a pop finds no handler, those that were popped ran in their order.\<close>

definition sinv :: "'t strand \<Rightarrow> bool" where
  "sinv s \<longleftrightarrow> loop_inv s \<and> (\<not> s_failed s \<longrightarrow> s_head s \<le> length (s_cells s) \<and>
     s_done s @ in_handler (s_loops s) = map fst (take (s_head s) (s_cells s)) \<and> list_all snd (take (s_head s) (s_cells s)))"

lemma failed_stays: "strand_step nd n e s = Some s' \<Longrightarrow> s_failed s \<Longrightarrow> s_failed s'"
  by (cases e) (auto simp: strand_defs split: if_splits loop_point.splits)

lemma strand_step_inv:
  assumes a: "strand_step nd n e s = Some s'" "sinv s"
  shows "sinv s'"
proof (cases "s_failed s'")
  case True
  with a loop_inv_step [OF a(1)] show ?thesis by (simp add: sinv_def)
next
  case False
  have l': "loop_inv s'" and l: "loop_inv s" using a loop_inv_step [OF a(1)] by (simp_all add: sinv_def)
  have nf: "\<not> s_failed s" using False failed_stays [OF a(1)] by blast
  then have d: "s_done s @ in_handler (s_loops s) = map fst (take (s_head s) (s_cells s))" "list_all snd (take (s_head s) (s_cells s))"
      "s_head s \<le> length (s_cells s)"
    using a(2) by (simp_all add: sinv_def)
  show ?thesis
  proof (cases e)
    case (Publish i)
    then have s': "i < length (s_cells s)" "\<not> snd (s_cells s ! i)"
      "s' = s\<lparr>s_cells := (s_cells s)[i := (fst (s_cells s ! i), True)], s_posting := s_posting s + 1\<rparr>"
      using a(1) by (auto simp: publish_cell_def split: if_splits)
    have "\<not> i < s_head s"
    proof
      assume i: "i < s_head s"
      then have "take (s_head s) (s_cells s) ! i = s_cells s ! i" "i < length (take (s_head s) (s_cells s))" using s'(1) by simp_all
      then have "snd (s_cells s ! i)" using d(2) unfolding list_all_length by metis
      with s'(2) show False ..
    qed
    then have "take (s_head s) (s_cells s') = take (s_head s) (s_cells s)" by (simp add: s'(3))
    with d l' show ?thesis unfolding sinv_def s'(3) by simp
  next
    case (Pop k)
    then obtain h where k: "k < length (s_loops s)" "s_loops s ! k = AtPop h" and t: "s_head s < length (s_cells s) \<and> snd (s_cells s ! s_head s)"
      using a(1) False by (auto simp: invoke_pop_def split: if_splits loop_point.splits)
    note o = loop_only [OF l k]
    have s': "s' = s\<lparr>s_loops := [InHandler (fst (s_cells s ! s_head s))], s_head := s_head s + 1\<rparr>"
      using a(1) k t o by (simp add: Pop invoke_pop_def)
    have "take (Suc (s_head s)) (s_cells s) = take (s_head s) (s_cells s) @ [s_cells s ! s_head s]"
      using t by (simp add: take_Suc_conv_app_nth)
    then show ?thesis using d t o l' by (simp add: sinv_def s')
  next
    case (HandlerEnd k)
    then obtain t where k: "k < length (s_loops s)" "s_loops s ! k = InHandler t"
      and s': "s' = s\<lparr>s_loops := (s_loops s)[k := AtSub (Some t)], s_done := s_done s @ [t]\<rparr>"
      using a(1) by (auto simp: handler_end_def split: if_splits loop_point.splits)
    from loop_only [OF l k] show ?thesis using d l' by (simp add: s' sinv_def)
  next
    case (Sub k)
    then obtain h where k: "k < length (s_loops s)" "s_loops s ! k = AtSub h"
      and s': "s' = s\<lparr>s_deferred := s_deferred s - 1,
           s_loops := (if 1 < s_deferred s then (s_loops s)[k := AtPop h] else remove_at k (s_loops s))\<rparr>"
      using a(1) by (auto simp: invoke_sub_def split: if_splits loop_point.splits)
    from loop_only [OF l k] show ?thesis using d l' by (simp add: s' sinv_def remove_at_def)
  qed (use a(1) d l' in \<open>auto simp: strand_defs sinv_def split: if_splits\<close>)
qed

lemma sinv_run: "strand_run nd n es s = Some s' \<Longrightarrow> sinv s \<Longrightarrow> sinv s'"
  by (induction nd n es s rule: strand_run.induct) (auto split: Option.bind_splits if_splits intro: strand_step_inv)

lemma sinv_new: "sinv new_strand"
  by (simp add: sinv_def loop_inv_def new_strand_def)

text \<open>With assertions the state in which the program ends still has the order: the failing pop runs nothing.\<close>

definition ainv :: "'t strand \<Rightarrow> bool" where
  "ainv s \<longleftrightarrow> (s_failed s \<longrightarrow> s_aborted s) \<and> s_done s @ in_handler (s_loops s) = map fst (take (s_head s) (s_cells s))"

lemma aborted_step:
  assumes "strand_step False n e s = Some s'" "\<not> s_aborted s" "ainv s" "sinv s"
  shows "ainv s'"
proof (cases "s_failed s'")
  case False
  then show ?thesis using strand_step_inv [OF assms(1,4)] by (simp add: ainv_def sinv_def)
next
  case True
  then obtain k where e: "e = Pop k" using assms by (cases e) (auto simp: strand_defs ainv_def split: if_splits loop_point.splits)
  have "s' = s\<lparr>s_failed := True, s_aborted := True\<rparr>"
    using assms True by (auto simp: e invoke_pop_def ainv_def split: if_splits loop_point.splits)
  then show ?thesis using assms(3) by (simp add: ainv_def)
qed

lemma aborted_run: "strand_run False n es s = Some s' \<Longrightarrow> ainv s \<Longrightarrow> sinv s \<Longrightarrow> ainv s'"
proof (induction es arbitrary: s)
  case (Cons e es)
  then obtain s1 where "\<not> s_aborted s" "strand_step False n e s = Some s1" "strand_run False n es s1 = Some s'"
    by (auto split: Option.bind_splits if_splits)
  with Cons aborted_step strand_step_inv show ?case by blast
qed simp

lemma aborted_order:
  assumes "strand_run ndebug n es new_strand = Some s" "\<not> ndebug"
  shows "s_done s @ in_handler (s_loops s) = take (s_head s) (map fst (s_cells s))"
proof -
  have r: "strand_run False n es new_strand = Some s" using assms by simp
  have "ainv (new_strand :: 'a strand)" by (simp add: ainv_def new_strand_def)
  from aborted_run [OF r this sinv_new] show ?thesis by (simp add: ainv_def take_map)
qed

text \<open>
  C25. Handlers of a strand never run at the same time, and they run in the order of their tickets as long as every pop finds a handler. Whatever the threads do, at
  most one of them is inside the loop; and until the first pop that finds nothing the handlers that have run, followed by the one that is running, are an
  initial part of the handlers in the order in which they took their cells. With assertions such a pop ends the program, so nothing runs after it.
\<close>

theorem strand_serial:
  assumes "strand_run ndebug queue_size es new_strand = Some s"
  shows "length (s_loops s) \<le> 1 \<and> length (in_handler (s_loops s)) \<le> 1 \<and>
    (\<not> s_failed s \<or> \<not> ndebug \<longrightarrow> s_done s @ in_handler (s_loops s) = take (s_head s) (map fst (s_cells s)))"
proof -
  have "sinv s" by (rule sinv_run [OF assms sinv_new])
  moreover have "s_done s @ in_handler (s_loops s) = take (s_head s) (map fst (s_cells s))" if "\<not> ndebug"
    using aborted_order [OF assms that] .
  moreover have "length (in_handler (s_loops s)) \<le> length (s_loops s)" by (rule in_handler_le)
  ultimately show ?thesis by (auto simp: sinv_def loop_inv_def take_map split: if_splits)
qed

theorem strand_serial_witness:
  "\<exists>s. strand_run False 2 [Reserve ''a'', Publish 0, PostCall True, Add, Reserve ''b'', Publish 1, Pop 0, PostCall True, Add] new_strand = Some s \<and>
     length (s_loops s) \<le> 1 \<and> s_done s @ in_handler (s_loops s) = [''a'']"
proof -
  let ?r = "strand_run False 2 [Reserve ''a'', Publish 0, PostCall True, Add, Reserve ''b'', Publish 1, Pop 0, PostCall True, Add] new_strand"
  have c: "map_option (\<lambda>s. (s_head s, s_cells s)) ?r = Some (1, [(''a'', True), (''b'', True)])" by code_simp
  then obtain s where s: "?r = Some s" "s_head s = 1" "s_cells s = [(''a'', True), (''b'', True)]" by auto
  from strand_serial [OF s(1)] s show ?thesis by auto
qed

section \<open>Nothing is lost\<close>

text \<open>
  One push at a time: between the two halves of a push no other push begins; the threads of the pool do what they like meanwhile. No push is refused and the
  pool takes every job.
\<close>

fun one_push :: "bool \<Rightarrow> 't strand_event list \<Rightarrow> bool" where
  "one_push busy [] = True"
| "one_push busy (Reserve t # es) = (\<not> busy \<and> one_push True es)"
| "one_push busy (Publish i # es) = one_push False es"
| "one_push busy (Refused # es) = False"
| "one_push busy (PostCall ok # es) = (ok \<and> one_push busy es)"
| "one_push busy (e # es) = one_push busy es"

fun in_loop :: "'t loop_point list \<Rightarrow> nat" where
  "in_loop [] = 0"
| "in_loop (AtPop h # ls) = in_loop ls"
| "in_loop (InHandler t # ls) = Suc (in_loop ls)"
| "in_loop (AtSub h # ls) = Suc (in_loop ls)"

text \<open>All cells but one that is being pushed are published, and each published handler that has not been popped has a call on its way.\<close>

definition pushed :: "bool \<Rightarrow> 't strand \<Rightarrow> nat" where
  "pushed busy s = length (s_cells s) - (if busy then 1 else 0)"

definition pinv_strand :: "bool \<Rightarrow> 't strand \<Rightarrow> bool" where
  "pinv_strand busy s \<longleftrightarrow> sinv s \<and> \<not> s_failed s \<and> \<not> s_aborted s \<and> (busy \<longrightarrow> s_cells s \<noteq> [] \<and> \<not> snd (last (s_cells s))) \<and>
     list_all snd (take (pushed busy s) (s_cells s)) \<and>
     pushed busy s + in_loop (s_loops s) = s_head s + s_posting s + s_calls s + s_deferred s"

lemma pinv_reserve:
  assumes "reserve_cell n t s = Some s'" "pinv_strand False s"
  shows "pinv_strand True s'"
proof -
  have "s' = s\<lparr>s_cells := s_cells s @ [(t, False)]\<rparr>" using assms(1) by (auto simp: reserve_cell_def split: if_splits)
  moreover have "sinv s'" using strand_step_inv [of True n "Reserve t" s s'] assms by (simp add: pinv_strand_def)
  ultimately show ?thesis using assms(2) by (simp add: pinv_strand_def pushed_def)
qed

lemma pinv_publish:
  assumes "publish_cell i s = Some s'" "pinv_strand busy s"
  shows "busy \<and> pinv_strand False s'"
proof -
  have i: "i < length (s_cells s)" "\<not> snd (s_cells s ! i)"
    and s': "s' = s\<lparr>s_cells := (s_cells s)[i := (fst (s_cells s ! i), True)], s_posting := s_posting s + 1\<rparr>"
    using assms(1) by (auto simp: publish_cell_def split: if_splits)
  have all: "list_all snd (take (pushed busy s) (s_cells s))" using assms(2) by (simp add: pinv_strand_def)
  have ni: "\<not> i < pushed busy s"
  proof
    assume "i < pushed busy s"
    then have "take (pushed busy s) (s_cells s) ! i = s_cells s ! i" "i < length (take (pushed busy s) (s_cells s))" using i(1) by simp_all
    then show False using all i(2) unfolding list_all_length by metis
  qed
  then have b: "busy" "i = length (s_cells s) - 1" using i(1) by (auto simp: pushed_def split: if_splits)
  obtain cs c where cs: "s_cells s = cs @ [c]" using i(1) by (metis length_0_conv less_nat_zero_code rev_exhaust)
  have "s_cells s' = cs @ [(fst c, True)]" using b by (simp add: s' cs nth_append)
  moreover have "sinv s'" using strand_step_inv [of True 0 "Publish i" s s'] assms by (simp add: pinv_strand_def)
  moreover have "list_all snd cs" "length cs + in_loop (s_loops s) = s_head s + s_posting s + s_calls s + s_deferred s"
    using assms(2) b(1) by (simp_all add: pinv_strand_def pushed_def cs)
  ultimately show ?thesis using b(1) assms(2) by (simp add: pinv_strand_def pushed_def s')
qed

lemma pinv_step:
  assumes "strand_step nd n e s = Some s'" "pinv_strand busy s" "e \<in> {PostCall True, Add} \<union> range Pop \<union> range HandlerEnd \<union> range Sub"
  shows "pinv_strand busy s'"
proof -
  have inv: "sinv s'" by (rule strand_step_inv [OF assms(1)]) (use assms(2) in \<open>simp add: pinv_strand_def\<close>)
  have l: "loop_inv s" and p: "\<not> s_failed s" "\<not> s_aborted s" "list_all snd (take (pushed busy s) (s_cells s))"
      "pushed busy s + in_loop (s_loops s) = s_head s + s_posting s + s_calls s + s_deferred s"
    using assms(2) by (simp_all add: pinv_strand_def sinv_def)
  have b: "busy \<longrightarrow> s_cells s \<noteq> [] \<and> \<not> snd (last (s_cells s))" using assms(2) by (simp add: pinv_strand_def)
  note pd = pinv_strand_def pushed_def
  consider "e = PostCall True" | "e = Add" | k where "e = Pop k" | k where "e = HandlerEnd k" | k where "e = Sub k" using assms(3) by auto
  then show ?thesis
  proof cases
    case 1
    then have "0 < s_posting s" "s' = s\<lparr>s_posting := s_posting s - 1, s_calls := s_calls s + 1\<rparr>"
      using assms(1) by (auto simp: post_call_def split: if_splits)
    with inv p b show ?thesis by (simp add: pd)
  next
    case 2
    then have "0 < s_calls s" and s': "s' = s\<lparr>s_calls := s_calls s - 1, s_deferred := s_deferred s + 1,
        s_loops := (if s_deferred s = 0 then s_loops s @ [AtPop None] else s_loops s)\<rparr>"
      using assms(1) by (auto simp: invoke_add_def split: if_splits)
    then show ?thesis using inv p b l by (simp add: pd loop_inv_def split: if_splits)
  next
    case 3
    then obtain h where k: "k < length (s_loops s)" "s_loops s ! k = AtPop h" using assms(1) by (auto simp: invoke_pop_def split: if_splits loop_point.splits)
    note o = loop_only [OF l k]
    have h: "s_head s < pushed busy s" using p(4) o by simp
    then have "take (pushed busy s) (s_cells s) ! s_head s = s_cells s ! s_head s" "s_head s < length (s_cells s)" by (simp_all add: pushed_def)
    then have r: "s_head s < length (s_cells s) \<and> snd (s_cells s ! s_head s)" using p(3) h unfolding list_all_length
      by (metis length_take min_less_iff_conj)
    have "s' = s\<lparr>s_loops := [InHandler (fst (s_cells s ! s_head s))], s_head := s_head s + 1\<rparr>"
      using assms(1) k o r by (simp add: 3 invoke_pop_def)
    with inv p b o show ?thesis by (simp add: pd)
  next
    case 4
    then obtain t where k: "k < length (s_loops s)" "s_loops s ! k = InHandler t"
      and s': "s' = s\<lparr>s_loops := (s_loops s)[k := AtSub (Some t)], s_done := s_done s @ [t]\<rparr>"
      using assms(1) by (auto simp: handler_end_def split: if_splits loop_point.splits)
    with inv p b loop_only [OF l k] show ?thesis by (simp add: pd)
  next
    case 5
    then obtain h where k: "k < length (s_loops s)" "s_loops s ! k = AtSub h"
      and s': "s' = s\<lparr>s_deferred := s_deferred s - 1,
           s_loops := (if 1 < s_deferred s then (s_loops s)[k := AtPop h] else remove_at k (s_loops s))\<rparr>"
      using assms(1) by (auto simp: invoke_sub_def split: if_splits loop_point.splits)
    note o = loop_only [OF l k]
    show ?thesis
    proof (cases "1 < s_deferred s")
      case True
      with inv p b o show ?thesis by (simp add: pd s')
    next
      case False
      then have "s_deferred s = 1" using o(3) by simp
      with inv p b o show ?thesis by (simp add: pd s' remove_at_def)
    qed
  qed
qed

lemma pinv_run: "one_push busy es \<Longrightarrow> strand_run nd n es s = Some s' \<Longrightarrow> pinv_strand busy s \<Longrightarrow> \<exists>busy'. pinv_strand busy' s'"
proof (induction busy es arbitrary: s rule: one_push.induct [case_names none reserve publish refused post add pop handler sub])
  case (reserve busy t es)
  then obtain s1 where s1: "reserve_cell n t s = Some s1" "strand_run nd n es s1 = Some s'" by (auto split: Option.bind_splits if_splits)
  with reserve(2,4) pinv_reserve [OF s1(1)] show ?case by (intro reserve(1) [OF _ s1(2)]) auto
next
  case (publish busy i es)
  then obtain s1 where s1: "publish_cell i s = Some s1" "strand_run nd n es s1 = Some s'" by (auto split: Option.bind_splits if_splits)
  with publish(2) pinv_publish [OF s1(1) publish(4)] show ?case by (intro publish(1) [OF _ s1(2)]) auto
next
  case (post busy ok es)
  then obtain s1 where s1: "strand_step nd n (PostCall True) s = Some s1" "strand_run nd n es s1 = Some s'" by (auto split: Option.bind_splits if_splits)
  with post(2) pinv_step [OF s1(1) post(4)] show ?case by (intro post(1) [OF _ s1(2)]) auto
next
  case (add busy es)
  then obtain s1 where s1: "strand_step nd n Add s = Some s1" "strand_run nd n es s1 = Some s'" by (auto split: Option.bind_splits if_splits)
  with add(2) pinv_step [OF s1(1) add(4)] show ?case by (intro add(1) [OF _ s1(2)]) auto
next
  case (pop busy k es)
  then obtain s1 where s1: "strand_step nd n (Pop k) s = Some s1" "strand_run nd n es s1 = Some s'" by (auto split: Option.bind_splits if_splits)
  with pop(2) pinv_step [OF s1(1) pop(4)] show ?case by (intro pop(1) [OF _ s1(2)]) auto
next
  case (handler busy k es)
  then obtain s1 where s1: "strand_step nd n (HandlerEnd k) s = Some s1" "strand_run nd n es s1 = Some s'" by (auto split: Option.bind_splits if_splits)
  with handler(2) pinv_step [OF s1(1) handler(4)] show ?case by (intro handler(1) [OF _ s1(2)]) auto
next
  case (sub busy k es)
  then obtain s1 where s1: "strand_step nd n (Sub k) s = Some s1" "strand_run nd n es s1 = Some s'" by (auto split: Option.bind_splits if_splits)
  with sub(2) pinv_step [OF s1(1) sub(4)] show ?case by (intro sub(1) [OF _ s1(2)]) auto
qed auto

text \<open>
  C26. With one push at a time nothing is lost. When no push begins before the last one is complete, whatever the threads of the pool do in between, no push is
  refused by a full queue and the pool takes every job, then the assertion in the loop never fails, and whenever no call is under way every handler whose push is
  complete has run, once and in the order of the pushes.
\<close>

theorem strand_runs_all:
  assumes "one_push False es" "strand_run ndebug queue_size es new_strand = Some s"
  shows "\<not> s_failed s \<and> (s_posting s = 0 \<and> s_calls s = 0 \<and> s_loops s = [] \<longrightarrow> s_done s = map fst (filter snd (s_cells s)))"
proof -
  have "pinv_strand False new_strand" by (simp add: pinv_strand_def sinv_new) (simp add: new_strand_def pushed_def)
  from pinv_run [OF assms this] obtain busy where p: "pinv_strand busy s" by blast
  have "s_done s = map fst (filter snd (s_cells s))" if "s_posting s = 0" "s_calls s = 0" "s_loops s = []"
  proof -
    have "s_deferred s = 0" using p that(3) by (simp add: pinv_strand_def sinv_def loop_inv_def split: if_splits)
    then have h: "s_head s = pushed busy s" using p that by (simp add: pinv_strand_def)
    have all: "list_all snd (take (pushed busy s) (s_cells s))" using p by (simp add: pinv_strand_def)
    have "filter snd (s_cells s) = take (pushed busy s) (s_cells s)"
    proof (cases busy)
      case False
      then show ?thesis using all by (simp add: pushed_def list_all_iff)
    next
      case True
      then obtain cs c where cs: "s_cells s = cs @ [c]" "\<not> snd c" using p by (cases "s_cells s" rule: rev_cases) (auto simp: pinv_strand_def)
      then show ?thesis using all True by (simp add: pushed_def list_all_iff)
    qed
    then show ?thesis using p that(3) by (simp add: pinv_strand_def sinv_def h)
  qed
  with p show ?thesis by (auto simp: pinv_strand_def)
qed

theorem strand_runs_all_witness:
  "\<exists>s. strand_run False 2 [Reserve ''a'', Publish 0, PostCall True, Reserve ''b'', Add, Pop 0, Publish 1, PostCall True, Add, HandlerEnd 0, Sub 0, Pop 0,
        HandlerEnd 0, Sub 0] new_strand = Some s \<and> s_done s = [''a'', ''b'']"
proof -
  let ?es = "[Reserve ''a'', Publish 0, PostCall True, Reserve ''b'', Add, Pop 0, Publish 1, PostCall True, Add, HandlerEnd 0, Sub 0, Pop 0,
    HandlerEnd 0, Sub 0]"
  have c: "map_option (\<lambda>s. (s_posting s, s_calls s, s_loops s, s_cells s)) (strand_run False 2 ?es new_strand) = Some (0, 0, [], [(''a'', True), (''b'', True)])"
    by code_simp
  then obtain s where s: "strand_run False 2 ?es new_strand = Some s" "s_posting s = 0" "s_calls s = 0" "s_loops s = []"
    "s_cells s = [(''a'', True), (''b'', True)]" by auto
  have "one_push False ?es" by simp
  from strand_runs_all [OF this s(1)] s show ?thesis by auto
qed

text \<open>
  Two posters at the same time break it: the first has taken a cell and not published it, the second has posted its handler, and the call of the second finds no
  handler to pop. The assertion fails; without it the empty functor is called, and the handler of the second runs only when the call of the first comes.
\<close>

lemma two_posters_fail:
  "map_option (\<lambda>s. (s_aborted s, s_done s)) (strand_run False 256 [Reserve ''a'', Reserve ''b'', Publish 1, PostCall True, Add, Pop 0] new_strand) =
     Some (True, [])"
  "map_option (\<lambda>s. (s_failed s, s_done s, s_loops s))
     (strand_run True 256 [Reserve ''a'', Reserve ''b'', Publish 1, PostCall True, Add, Pop 0, Sub 0] new_strand) = Some (True, [], [])"
  by code_simp+

text \<open>
  Without assertions a pop that finds nothing in a later turn of the loop runs the handler of the turn before a second time: \<^verbatim>\<open>a\<close> has run, \<^verbatim>\<open>b\<close> has a cell that is
  not published, and the call of \<^verbatim>\<open>c\<close> is counted while \<^verbatim>\<open>a\<close> runs.
\<close>

lemma handler_runs_again:
  "map_option (\<lambda>s. (s_done s, in_handler (s_loops s)))
     (strand_run True 256 [Reserve ''a'', Publish 0, PostCall True, Add, Pop 0, Reserve ''b'', Reserve ''c'', Publish 2, PostCall True, Add, HandlerEnd 0, Sub 0,
        Pop 0] new_strand) = Some ([''a''], [''a''])"
  by code_simp

text \<open>A full queue loses the handler and keeps its call, which then finds nothing to pop.\<close>

lemma full_queue_fails:
  "map_option (\<lambda>s. (s_aborted s, s_done s))
     (strand_run False 1 [Reserve ''a'', Publish 0, PostCall True, Refused, PostCall True, Add, Pop 0, HandlerEnd 0, Sub 0, Add, Pop 0] new_strand) =
   Some (True, [''a''])"
  by code_simp

end
