(* ===== verification/Wallet_Url.thy ===== *)
theory Wallet_Url
  imports Inout Router Text_Scan
begin

text \<open>
  Callbacks of the wallet node: the address a client names in the header \<^verbatim>\<open>X-Callback\<close> (\<^verbatim>\<open>wallet_requests.cpp\<close> 9-40), its parts
  (\<^verbatim>\<open>wallet_manager.cpp\<close>, \<^verbatim>\<open>URL\<close>) and the task that sends the result there (\<^verbatim>\<open>WebHookCallback\<close>).
\<close>

section \<open>The header\<close>

text \<open>The first position at which a text occurs in another, as \<^verbatim>\<open>std::search\<close> and \<^verbatim>\<open>std::string::find\<close> give it.\<close>

fun find_sub :: "string \<Rightarrow> string \<Rightarrow> nat option" where
  "find_sub pat [] = (if pat = [] then Some 0 else None)"
| "find_sub pat (c # s) = (if take (length pat) (c # s) = pat then Some 0 else map_option Suc (find_sub pat s))"

definition WEBHOOK_CALLBACK_HEADER_TAG :: string where "WEBHOOK_CALLBACK_HEADER_TAG = ''X-Callback''"

definition REMOTE_HOST_PATTERN :: string where "REMOTE_HOST_PATTERN = ''0.0.0.0''"

definition getCallbackString :: "Input \<Rightarrow> string" where
  "getCallbackString input =
    (case List.find (\<lambda>h. fst h = WEBHOOK_CALLBACK_HEADER_TAG) (headers input) of
       None \<Rightarrow> []
     | Some (n, url) \<Rightarrow>
         (case find_sub REMOTE_HOST_PATTERN url of
            None \<Rightarrow> url
          | Some pos \<Rightarrow> take pos url @ host input @ drop (pos + length REMOTE_HOST_PATTERN) url))"

section \<open>Addresses\<close>

record URL =
  u_protocol :: string
  u_host :: string
  u_port :: string
  u_path :: string
  u_query :: string

definition to_lower :: "char \<Rightarrow> char" where
  "to_lower c = (let n = of_char c :: nat in if 65 \<le> n \<and> n \<le> 90 then char_of (n + 32) else c)"

text \<open>
  \<open>None\<close>: the port would begin behind its end, because the first colon comes after the first slash; the range of iterators is not one, and the library
  throws or reads outside the text.
\<close>

definition parse_URL :: "string \<Rightarrow> URL option" where
  "parse_URL s =
    (case find_sub ''://'' s of
       None \<Rightarrow> Some \<lparr>u_protocol = map to_lower s, u_host = [], u_port = [], u_path = [], u_query = []\<rparr>
     | Some p \<Rightarrow>
         (let r = drop (p + 3) s;
              port_i = length (takeWhile (\<lambda>c. c \<noteq> CHR '':'') r); path_i = length (takeWhile (\<lambda>c. c \<noteq> CHR ''/'') r);
              tail = drop path_i r; path = takeWhile (\<lambda>c. c \<noteq> CHR ''?'') tail; query = tl (drop (length path) tail)
          in if port_i = length r
             then Some \<lparr>u_protocol = map to_lower (take p s), u_host = map to_lower (take path_i r), u_port = ''80'', u_path = path, u_query = query\<rparr>
             else if path_i < port_i + 1 then None
             else Some \<lparr>u_protocol = map to_lower (take p s), u_host = map to_lower (take port_i r),
                        u_port = take (path_i - (port_i + 1)) (drop (port_i + 1) r), u_path = path, u_query = query\<rparr>))"

section \<open>Web hooks\<close>

definition webhook :: "string \<Rightarrow> Output option" where
  "webhook url_s =
    map_option (\<lambda>u. empty_Output\<lparr>proto := u_protocol u, host := u_host u, out_port := u_port u, out_path := u_path u, query_string := u_query u\<rparr>)
      (parse_URL url_s)"

text \<open>The action of the periodic task: the first time it forwards the result, then it stops. The key in the local context is the name of the function.\<close>

definition webhook_action :: "Output \<Rightarrow> string set \<Rightarrow> Output \<Rightarrow> (string set \<times> Output) \<times> Status" where
  "webhook_action result keys output =
    (if ''operator()'' \<in> keys then ((keys, output), StStop) else ((insert ''operator()'' keys, result), StForward))"

section \<open>Facts\<close>

lemma webhook_once:
  "webhook_action r ks o1 = ((ks', o2), st) \<Longrightarrow> ''operator()'' \<notin> ks \<Longrightarrow>
    o2 = r \<and> st = StForward \<and> snd (webhook_action r ks' o2) = StStop"
  by (auto simp: webhook_action_def)

lemma find_sub_none: "hd pat \<notin> set s \<Longrightarrow> pat \<noteq> [] \<Longrightarrow> find_sub pat s = None"
  by (induction s) (auto simp: neq_Nil_conv)

lemma find_sub_here: "take (length pat) s = pat \<Longrightarrow> find_sub pat s = Some 0"
  by (cases s) auto

lemma find_sub_skip: "hd pat \<notin> set a \<Longrightarrow> pat \<noteq> [] \<Longrightarrow> find_sub pat (a @ s) = map_option ((+) (length a)) (find_sub pat s)"
proof (induction a)
  case (Cons c a)
  then have "take (length pat) (c # a @ s) \<noteq> pat" by (auto simp: neq_Nil_conv)
  with Cons show ?case by (cases "find_sub pat s") (auto simp: comp_def)
qed (cases "find_sub pat s"; simp)

lemma take_until: "x \<notin> set a \<Longrightarrow> b = [] \<or> hd b = x \<Longrightarrow> takeWhile (\<lambda>c. c \<noteq> x) (a @ b) = a"
  by (induction a) (auto simp: takeWhile_eq_Nil_iff)

definition lower_text :: "string \<Rightarrow> bool" where
  "lower_text s \<longleftrightarrow> (\<forall>c\<in>set s. to_lower c = c)"

text \<open>
  An address is taken apart as it was put together: protocol and host in small letters, a port, a path that begins with a slash and a query after it. A path
  with a colon in it is read correctly only behind an explicit port, and a query needs a path before it.
\<close>

theorem url_roundtrip:
  assumes "lower_text pr" "CHR '':'' \<notin> set pr" "lower_text h" "CHR '':'' \<notin> set h" "CHR ''/'' \<notin> set h" "CHR ''/'' \<notin> set port"
    and "path = [] \<or> hd path = CHR ''/''" "CHR ''?'' \<notin> set path" "path = [] \<Longrightarrow> query = []"
  shows "parse_URL (pr @ ''://'' @ h @ '':'' @ port @ path @ (if query = [] then [] else ''?'' @ query)) =
    Some \<lparr>u_protocol = pr, u_host = h, u_port = port, u_path = path, u_query = query\<rparr>"
proof -
  let ?q = "if query = [] then [] else ''?'' @ query"
  define t where "t = path @ ?q"
  define r where "r = h @ CHR '':'' # port @ t"
  have low: "map to_lower pr = pr" "map to_lower h = h" using assms(1,3) by (simp_all add: lower_text_def map_idI)
  have f: "find_sub ''://'' (pr @ ''://'' @ r) = Some (length pr)"
    using find_sub_skip [of "''://''" pr "''://'' @ r"] assms(2) by (simp add: find_sub_here)
  have t: "t = [] \<or> hd t = CHR ''/''" using assms(7,9) by (cases path) (auto simp: t_def)
  have p: "takeWhile (\<lambda>c. c \<noteq> CHR '':'') r = h" unfolding r_def by (rule take_until) (use assms(4) in simp_all)
  have s: "takeWhile (\<lambda>c. c \<noteq> CHR ''/'') r = h @ CHR '':'' # port"
    using take_until [of "CHR ''/''" "h @ CHR '':'' # port" t] assms(5,6) t by (simp add: r_def)
  have q: "takeWhile (\<lambda>c. c \<noteq> CHR ''?'') t = path" unfolding t_def by (rule take_until) (use assms(8) in simp_all)
  have "parse_URL (pr @ ''://'' @ r) = Some \<lparr>u_protocol = pr, u_host = h, u_port = port, u_path = path, u_query = query\<rparr>"
  proof -
    have d: "drop (length pr + 3) (pr @ ''://'' @ r) = r" "take (length pr) (pr @ ''://'' @ r) = pr" by simp_all
    have e: "drop (length (h @ CHR '':'' # port)) r = t" "take (length h) r = h" "length r \<noteq> length h"
      "take (length (h @ CHR '':'' # port) - (length h + 1)) (drop (length h + 1) r) = port" "\<not> length (h @ CHR '':'' # port) < length h + 1"
      by (simp_all add: r_def)
    have "tl (drop (length path) t) = query" by (simp add: t_def)
    then show ?thesis unfolding parse_URL_def f option.case Let_def d p s e q low using e(3) by simp
  qed
  then show ?thesis by (simp add: r_def t_def)
qed

theorem url_roundtrip_witness:
  "parse_URL ''http://localhost:8080/callback?id=a:b'' =
     Some \<lparr>u_protocol = ''http'', u_host = ''localhost'', u_port = ''8080'', u_path = ''/callback'', u_query = ''id=a:b''\<rparr>"
  using url_roundtrip [of "''http''" "''localhost''" "''8080''" "''/callback''" "''id=a:b''"]
  by (simp add: lower_text_def to_lower_def)

text \<open>Without a port, a colon in the path or in the query makes the address unreadable.\<close>

lemma colon_in_path: "parse_URL ''http://localhost/callback?time=10:30'' = None"
  by code_simp

end
