(* ===== verification/Wallet_Node.thy ===== *)
theory Wallet_Node
  imports Wallet_Url
begin

text \<open>
  The wallet node (\<^verbatim>\<open>wallet_manager.cpp\<close>, \<^verbatim>\<open>wallet_requests.cpp\<close>): requests are answered at once, the work is a job for the pool or for the strand of a wallet
  (\<open>Strand\<close>), and its result, or the error, is sent to the address of the callback. The wallet library of the cryptonode and the printing of the
  results are arguments; a call of the library may throw.
\<close>

section \<open>The wallet library\<close>

text \<open>\<open>NoReturn\<close> is no exception: the program aborts (a failed assertion) or, built without assertions, reads past the end of a text.\<close>

datatype wallet_exc = StdException string | UnknownException | NoReturn

type_synonym 'a wcall = "wallet_exc + 'a"

fun w_then :: "'a wcall \<Rightarrow> ('a \<Rightarrow> 'b wcall) \<Rightarrow> 'b wcall" where
  "w_then (Inl e) f = Inl e"
| "w_then (Inr x) f = f x"

record payment_details =
  p_tx_hash :: string
  p_amount :: u64
  p_block_height :: u64
  p_timestamp :: u64
  p_unlock_time :: u64

record confirmed_transfer =
  k_amount_in :: u64
  k_amount_out :: u64
  k_change :: u64
  k_block_height :: u64
  k_timestamp :: u64
  k_payment_id :: string
  k_dests :: "(u64 \<times> string) list"

record unconfirmed_transfer =
  f_amount_in :: u64
  f_amount_out :: u64
  f_change :: u64
  f_timestamp :: u64
  f_payment_id :: string
  f_state_failed :: bool

text \<open>Hashes and payment ids come as the hexadecimal text that \<^verbatim>\<open>pod_to_hex\<close> makes of them, destinations with their printed address.\<close>

record ('w, 'k, 'c) wallet_api =
  wa_new :: "bool \<Rightarrow> string \<Rightarrow> 'w wcall"
  wa_set_seed_language :: "string \<Rightarrow> 'w \<Rightarrow> 'w"
  wa_generate :: "string \<Rightarrow> 'w \<Rightarrow> 'w wcall"
  wa_restore :: "string \<Rightarrow> 'k \<Rightarrow> 'w \<Rightarrow> 'w wcall"
  wa_words_to_bytes :: "string \<Rightarrow> 'k option"
  wa_account_data :: "string \<Rightarrow> 'w \<Rightarrow> string wcall"
  wa_address :: "'w \<Rightarrow> string"
  wa_view_key :: "'w \<Rightarrow> string"
  wa_seed :: "'w \<Rightarrow> string option"
  wa_load :: "string \<Rightarrow> string \<Rightarrow> 'w \<Rightarrow> 'w wcall"
  wa_load_cache :: "'c option \<Rightarrow> 'w \<Rightarrow> 'w wcall"
  wa_store_cache :: "'w \<Rightarrow> 'c wcall"
  wa_refresh :: "'w \<Rightarrow> 'w wcall"
  wa_balance :: "'w \<Rightarrow> u64"
  wa_unlocked :: "'w \<Rightarrow> u64"
  wa_transactions :: "(u64 \<times> string) list \<Rightarrow> 'w \<Rightarrow> ((string \<times> u64) list \<times> 'w) wcall"
  wa_height :: "'w \<Rightarrow> u64"
  wa_payments :: "'w \<Rightarrow> (string \<times> payment_details) list"
  wa_payments_out :: "'w \<Rightarrow> (string \<times> confirmed_transfer) list"
  wa_unconfirmed_out :: "'w \<Rightarrow> (string \<times> unconfirmed_transfer) list"

section \<open>Results\<close>

record TransactionInfo =
  DirectionOut :: bool
  Pending :: bool
  Failed :: bool
  Amount :: u64
  Fee :: u64
  BlockHeight :: u64
  Hash :: string
  Timestamp :: u64
  PaymentId :: string
  Transfers :: "(u64 \<times> string) list"
  Confirmations :: u64
  UnlockTime :: u64

definition empty_info :: TransactionInfo where
  "empty_info = \<lparr>DirectionOut = False, Pending = False, Failed = False, Amount = 0, Fee = 0, BlockHeight = 0, Hash = [], Timestamp = 0,
     PaymentId = [], Transfers = [], Confirmations = 0, UnlockTime = 0\<rparr>"

datatype wallet_result =
    AccountResult string string string string string
  | BalanceResult string string
  | TransferResult string "string list"
  | HistoryResult "TransactionInfo list"

text \<open>A payment id of which all but the first 16 characters are zeros is shown by these; \<^verbatim>\<open>substr\<close> throws on a shorter text.\<close>

definition short_payment_id :: "string \<Rightarrow> string" where
  "short_payment_id p = (if list_all (\<lambda>c. c = CHR ''0'') (drop 16 p) then take 16 p else p)"

definition payment_in :: "u64 \<Rightarrow> string \<times> payment_details \<Rightarrow> TransactionInfo" where
  "payment_in wallet_height = (\<lambda>(pid, d).
     empty_info\<lparr>PaymentId := short_payment_id pid, Amount := p_amount d, DirectionOut := False, Hash := p_tx_hash d, BlockHeight := p_block_height d,
       Timestamp := p_timestamp d, Confirmations := wallet_height - p_block_height d, UnlockTime := p_unlock_time d\<rparr>)"

definition payment_out :: "u64 \<Rightarrow> string \<times> confirmed_transfer \<Rightarrow> TransactionInfo" where
  "payment_out wallet_height = (\<lambda>(hash, d).
     let change = (if k_change d = - 1 then 0 else k_change d); fee = k_amount_in d - k_amount_out d
     in empty_info\<lparr>PaymentId := short_payment_id (k_payment_id d), Amount := k_amount_in d - change - fee, Fee := fee, DirectionOut := True, Hash := hash,
          BlockHeight := k_block_height d, Timestamp := k_timestamp d, Confirmations := wallet_height - k_block_height d, Transfers := k_dests d\<rparr>)"

definition payment_pending :: "string \<times> unconfirmed_transfer \<Rightarrow> TransactionInfo" where
  "payment_pending = (\<lambda>(hash, d).
     empty_info\<lparr>PaymentId := short_payment_id (f_payment_id d), Amount := f_amount_in d - f_change d, Fee := f_amount_in d - f_amount_out d,
       DirectionOut := True, Failed := f_state_failed d, Pending := True, Hash := hash, Timestamp := f_timestamp d, Confirmations := 0\<rparr>)"

text \<open>The payments that are not yet confirmed on the way in are an empty list: the call that would fill it is commented out.\<close>

definition transaction_history :: "('w, 'k, 'c) wallet_api \<Rightarrow> 'w \<Rightarrow> TransactionInfo list" where
  "transaction_history W w =
     map (payment_in (wa_height W w)) (wa_payments W w) @ map (payment_out (wa_height W w)) (wa_payments_out W w) @
     map payment_pending (wa_unconfirmed_out W w)"

section \<open>State\<close>

datatype wallet_op = OpBalance | OpTransfer "(u64 \<times> string) list" | OpHistory

datatype wallet_job = JobCreate string string string | JobRestore string string string | JobWallet nat string string string wallet_op string

text \<open>
  Wallets are objects behind shared pointers, found in the global context under \<^verbatim>\<open>wallet_\<close> and their address; \<open>wn_strands\<close> are the jobs posted to
  the strand of each. The web hooks go to the queue of periodic tasks, which holds \<open>wn_room\<close> of them. A wallet stays in the context for ten minutes after
  its last use: \<open>wn_expires\<close> is the second from which a cleanup of the context may drop it, \<open>wn_now\<close> the clock.
\<close>

record ('w, 'c) wallet_node =
  wn_testnet :: bool
  wn_rpc :: string
  wn_context :: "string \<rightharpoonup> nat"
  wn_expires :: "string \<Rightarrow> int"
  wn_now :: int
  wn_heap :: "nat \<Rightarrow> 'w"
  wn_next :: nat
  wn_files :: "string \<rightharpoonup> 'c"
  wn_pool :: "wallet_job list"
  wn_strands :: "nat \<Rightarrow> wallet_job list"
  wn_hooks :: "Output list"
  wn_room :: nat

definition getContextWalletId :: "string \<Rightarrow> string" where
  "getContextWalletId public_address = ''wallet_'' @ public_address"

definition WALLET_MEMORY_CACHE_TTL_SECONDS :: int where "WALLET_MEMORY_CACHE_TTL_SECONDS = 10 * 60"

text \<open>Every access of the context renews the time of a wallet; the cleanups drop those of the buckets they reach (\<open>dropped\<close>).\<close>

definition renewWallet :: "string \<Rightarrow> ('w, 'c) wallet_node \<Rightarrow> ('w, 'c) wallet_node" where
  "renewWallet wallet_id s = s\<lparr>wn_expires := (wn_expires s)(wallet_id := wn_now s + WALLET_MEMORY_CACHE_TTL_SECONDS)\<rparr>"


definition registerWallet :: "string \<Rightarrow> nat \<Rightarrow> ('w, 'c) wallet_node \<Rightarrow> ('w, 'c) wallet_node" where
  "registerWallet wallet_id a s = renewWallet wallet_id (s\<lparr>wn_context := (wn_context s)(wallet_id \<mapsto> a)\<rparr>)"

definition createWallet :: "('w, 'k, 'c) wallet_api \<Rightarrow> ('w, 'c) wallet_node \<Rightarrow> (nat \<times> ('w, 'c) wallet_node) wcall" where
  "createWallet W s =
    w_then (wa_new W (wn_testnet s) (wn_rpc s)) (\<lambda>w.
      Inr (wn_next s, s\<lparr>wn_heap := (wn_heap s)(wn_next s := w), wn_next := wn_next s + 1\<rparr>))"

definition getWalletCacheFileName :: "string \<Rightarrow> string" where
  "getWalletCacheFileName i =
    (if length i < 2 then ''wallets/'' @ i @ ''.cache'' else ''wallets/'' @ take 2 i @ ''/'' @ i @ ''.cache'')"

section \<open>Callbacks\<close>

text \<open>\<^verbatim>\<open>invoke\<close>: a full queue only leaves a line in the log.\<close>

definition invoke_hook :: "Output \<Rightarrow> ('w, 'c) wallet_node \<Rightarrow> ('w, 'c) wallet_node" where
  "invoke_hook out s = (if length (wn_hooks s) < wn_room s then s\<lparr>wn_hooks := wn_hooks s @ [out]\<rparr> else s)"

definition error_body :: "string \<Rightarrow> string" where
  "error_body e = ''{'' @ [CHR 0x27] @ ''Error'' @ [CHR 0x27] @ '':'' @ [CHR 0x27] @ e @ [CHR 0x27] @ '','' @ [CHR 0x27] @ ''Result'' @ [CHR 0x27] @ '':-1}''"

text \<open>\<open>None\<close>: the address of the callback cannot be read (\<open>parse_URL\<close>), which is undefined; every job with an address reads it, also after an exception.\<close>

definition invoke_error_http :: "string \<Rightarrow> wallet_exc \<Rightarrow> ('w, 'c) wallet_node \<Rightarrow> ('w, 'c) wallet_node option" where
  "invoke_error_http url e s =
    (if e = NoReturn then None
     else if url = [] then Some s
     else map_option (\<lambda>r. invoke_hook (r\<lparr>body := error_body (case e of StdException w \<Rightarrow> w | _ \<Rightarrow> ''unhandled exception'')\<rparr>) s) (webhook url))"

text \<open>
  The common part of both \<^verbatim>\<open>runAsync\<close> functions, after the work has changed the state and filled the body of the result or thrown. What it changed before it threw
  stays.
\<close>

definition finish_async :: "string \<Rightarrow> ('w, 'c) wallet_node \<times> (string option) wcall \<Rightarrow> ('w, 'c) wallet_node option" where
  "finish_async url = (\<lambda>(s, res).
    (case res of
       Inl e \<Rightarrow> invoke_error_http url e s
     | Inr b \<Rightarrow>
         (if url = [] then Some s
          else map_option (\<lambda>r. invoke_hook (case b of None \<Rightarrow> r | Some t \<Rightarrow> r\<lparr>body := t\<rparr>) s) (webhook url))))"

section \<open>Accounts\<close>

text \<open>\<open>keep\<close> pairs a failing call with the state at that point.\<close>

fun keep :: "'s \<Rightarrow> 'a wcall \<Rightarrow> ('a \<Rightarrow> 's \<times> 'b wcall) \<Rightarrow> 's \<times> 'b wcall" where
  "keep s (Inl e) f = (s, Inl e)"
| "keep s (Inr x) f = f x"

definition set_wallet :: "nat \<Rightarrow> 'w \<Rightarrow> ('w, 'c) wallet_node \<Rightarrow> ('w, 'c) wallet_node" where
  "set_wallet a w s = s\<lparr>wn_heap := (wn_heap s)(a := w)\<rparr>"

text \<open>What follows the generation of the keys in both requests: the cache is stored and the wallet registered under its address.\<close>

definition finish_account :: "('w, 'k, 'c) wallet_api \<Rightarrow> (wallet_result \<Rightarrow> string) \<Rightarrow> nat \<Rightarrow> string \<Rightarrow> ('w, 'c) wallet_node \<Rightarrow>
    ('w, 'c) wallet_node \<times> (string option) wcall" where
  "finish_account W print a password s =
    (let w = wn_heap s a in
     keep s (wa_account_data W password w) (\<lambda>account_data.
     keep s (case wa_seed W w of None \<Rightarrow> Inl (StdException (''Can'' @ [CHR 0x27] @ ''t get seed for new wallet'')) | Some sd \<Rightarrow> Inr sd) (\<lambda>seed.
     keep s (wa_store_cache W w) (\<lambda>c.
       let public_address = wa_address W w;
           s1 = s\<lparr>wn_files := (wn_files s)(getWalletCacheFileName public_address \<mapsto> c)\<rparr>;
           s2 = registerWallet (getContextWalletId public_address) a s1
       in (s2, Inr (Some (print (AccountResult public_address (wa_view_key W w) account_data seed public_address))))))))"

definition create_account :: "('w, 'k, 'c) wallet_api \<Rightarrow> (wallet_result \<Rightarrow> string) \<Rightarrow> string \<Rightarrow> string \<Rightarrow> ('w, 'c) wallet_node \<Rightarrow>
    ('w, 'c) wallet_node \<times> (string option) wcall" where
  "create_account W print password language s =
    keep s (createWallet W s) (\<lambda>(a, s1).
    keep s1 (wa_generate W password (wa_set_seed_language W language (wn_heap s1 a))) (\<lambda>w.
      finish_account W print a password (set_wallet a w s1)))"

text \<open>A seed that is not one ends the request without a result and without an exception.\<close>

definition restore_account :: "('w, 'k, 'c) wallet_api \<Rightarrow> (wallet_result \<Rightarrow> string) \<Rightarrow> string \<Rightarrow> string \<Rightarrow> ('w, 'c) wallet_node \<Rightarrow>
    ('w, 'c) wallet_node \<times> (string option) wcall" where
  "restore_account W print password seed s =
    keep s (createWallet W s) (\<lambda>(a, s1).
      case wa_words_to_bytes W seed of
        None \<Rightarrow> (s1, Inr None)
      | Some k \<Rightarrow>
          keep s1 (wa_restore W password k (wn_heap s1 a)) (\<lambda>w. finish_account W print a password (set_wallet a w s1)))"

section \<open>Requests on a wallet\<close>

definition wallet_result_of :: "('w, 'k, 'c) wallet_api \<Rightarrow> wallet_op \<Rightarrow> 'w \<Rightarrow> (wallet_result \<times> 'w) wcall" where
  "wallet_result_of W wop w =
    (case wop of
       OpBalance \<Rightarrow> Inr (BalanceResult (u64_to_string (wa_balance W w)) (u64_to_string (wa_unlocked W w)), w)
     | OpTransfer dests \<Rightarrow>
         w_then (wa_transactions W dests w) (\<lambda>(txs, w').
           Inr (TransferResult (u64_to_string (sum_list (map snd txs))) (map fst txs), w'))
     | OpHistory \<Rightarrow> Inr (HistoryResult (transaction_history W w), w))"

text \<open>The job of \<^verbatim>\<open>runAsyncForWallet\<close>; the address of the callback is read after the refresh, before the request proper.\<close>

definition wallet_work :: "('w, 'k, 'c) wallet_api \<Rightarrow> (wallet_result \<Rightarrow> string) \<Rightarrow> nat \<Rightarrow> string \<Rightarrow> string \<Rightarrow> string \<Rightarrow> wallet_op \<Rightarrow>
    ('w, 'c) wallet_node \<Rightarrow> ('w, 'c) wallet_node \<times> (string option) wcall" where
  "wallet_work W print a public_address account_data password wop s =
    keep s (wa_load W account_data password (wn_heap s a)) (\<lambda>w1.
      let s1 = set_wallet a w1 s; cache_file_name = getWalletCacheFileName public_address in
    keep s1 (wa_load_cache W (wn_files s cache_file_name) w1) (\<lambda>w2.
      let s2 = set_wallet a w2 s1 in
    keep s2 (wa_refresh W w2) (\<lambda>w3.
      let s3 = set_wallet a w3 s2 in
    keep s3 (wallet_result_of W wop w3) (\<lambda>(r, w4).
      let s4 = set_wallet a w4 s3 in
    keep s4 (wa_store_cache W w4) (\<lambda>c.
      (s4\<lparr>wn_files := (wn_files s4)(cache_file_name \<mapsto> c)\<rparr>, Inr (Some (print r))))))))"

definition run_wallet_job :: "('w, 'k, 'c) wallet_api \<Rightarrow> (wallet_result \<Rightarrow> string) \<Rightarrow> wallet_job \<Rightarrow> ('w, 'c) wallet_node \<Rightarrow> ('w, 'c) wallet_node option" where
  "run_wallet_job W print j s =
    (case j of
       JobCreate password language url \<Rightarrow> finish_async url (create_account W print password language s)
     | JobRestore password seed url \<Rightarrow> finish_async url (restore_account W print password seed s)
     | JobWallet a public_address account_data password wop url \<Rightarrow>
         finish_async url (wallet_work W print a public_address account_data password wop s))"

text \<open>\<^verbatim>\<open>runAsyncForWallet\<close> itself: the wallet of the context or a new one, and a post to its strand. Here the library's exception leaves the handler of the request.\<close>

definition runAsyncForWallet :: "('w, 'k, 'c) wallet_api \<Rightarrow> string \<Rightarrow> string \<Rightarrow> string \<Rightarrow> wallet_op \<Rightarrow> string \<Rightarrow> ('w, 'c) wallet_node \<Rightarrow> ('w, 'c) wallet_node wcall" where
  "runAsyncForWallet W public_address account_data password wop url s =
    (let wallet_id = getContextWalletId public_address in
     w_then (case wn_context s wallet_id of
               Some a \<Rightarrow> Inr (a, renewWallet wallet_id s)
             | None \<Rightarrow> w_then (createWallet W s) (\<lambda>(a, s1). Inr (a, registerWallet wallet_id a s1))) (\<lambda>(a, s1).
       Inr (s1\<lparr>wn_strands := (wn_strands s1)(a := wn_strands s1 a @ [JobWallet a public_address account_data password wop url])\<rparr>)))"

definition runAsync :: "wallet_job \<Rightarrow> ('w, 'c) wallet_node \<Rightarrow> ('w, 'c) wallet_node" where
  "runAsync j s = s\<lparr>wn_pool := wn_pool s @ [j]\<rparr>"

section \<open>Handlers\<close>

text \<open>
  \<^verbatim>\<open>prepareTransfer\<close> makes the public spend key of a destination of the first 32 characters of its address; fewer fail an assertion, or are read past their
  end without it.
\<close>

definition transfer_destination :: "string \<times> u64 \<Rightarrow> (u64 \<times> string) wcall" where
  "transfer_destination = (\<lambda>(address, amount).
     if length address < 32 then Inl NoReturn else Inr (amount, take 32 address))"

fun all_ok :: "'a wcall list \<Rightarrow> 'a list wcall" where
  "all_ok [] = Inr []"
| "all_ok (x # xs) = w_then x (\<lambda>y. w_then (all_ok xs) (\<lambda>ys. Inr (y # ys)))"

text \<open>\<^verbatim>\<open>std::stoull\<close>: spaces, a sign, digits; what follows is ignored, and a minus sign is taken modulo \<open>2 ^ 64\<close>.\<close>

definition stoull :: "string \<Rightarrow> u64 wcall" where
  "stoull s =
    (let t = dropWhile rx_space s; neg = (t \<noteq> [] \<and> hd t = CHR ''-'');
         t = (if t \<noteq> [] \<and> hd t \<in> {CHR ''-'', CHR ''+''} then tl t else t); ds = takeWhile rx_digit t; n = num_val 10 ds
     in if ds = [] then Inl (StdException ''stoull'')
        else if 2 ^ 64 \<le> int n then Inl (StdException ''stoull'')
        else Inr (if neg then - of_nat n else of_nat n))"

record wallet_codec =
  wc_create :: "string \<Rightarrow> (string \<times> string) option"
  wc_restore :: "string \<Rightarrow> (string \<times> string) option"
  wc_wallet :: "string \<Rightarrow> (string \<times> string \<times> string) option"
  wc_transfer :: "string \<Rightarrow> (string \<times> string \<times> string \<times> (string \<times> string) list) option"
  wc_accepted :: string
  wc_invalid_params :: string

text \<open>The reply of a handler with the new state, or an exception that leaves it, or the end of the program.\<close>

type_synonym ('w, 'c) wallet_reply = "(Status \<times> Output \<times> ('w, 'c) wallet_node) wcall"

definition invalid_params :: "wallet_codec \<Rightarrow> Output \<Rightarrow> ('w, 'c) wallet_node \<Rightarrow> ('w, 'c) wallet_reply" where
  "invalid_params C out s = Inr (StError, out\<lparr>body := wc_invalid_params C\<rparr>, s)"

definition accepted :: "wallet_codec \<Rightarrow> Output \<Rightarrow> ('w, 'c) wallet_node \<Rightarrow> ('w, 'c) wallet_reply" where
  "accepted C out s = Inr (StOk, out\<lparr>body := wc_accepted C\<rparr>, s)"

definition walletCreateAccountRequestHandler :: "wallet_codec \<Rightarrow> Input \<Rightarrow> Output \<Rightarrow> ('w, 'c) wallet_node \<Rightarrow> ('w, 'c) wallet_reply" where
  "walletCreateAccountRequestHandler C input out s =
    (case wc_create C (body input) of
       None \<Rightarrow> invalid_params C out s
     | Some (password, language) \<Rightarrow> accepted C out (runAsync (JobCreate password language (getCallbackString input)) s))"

definition walletRestoreAccountRequestHandler :: "wallet_codec \<Rightarrow> Input \<Rightarrow> Output \<Rightarrow> ('w, 'c) wallet_node \<Rightarrow> ('w, 'c) wallet_reply" where
  "walletRestoreAccountRequestHandler C input out s =
    (case wc_restore C (body input) of
       None \<Rightarrow> invalid_params C out s
     | Some (password, seed) \<Rightarrow> accepted C out (runAsync (JobRestore password seed (getCallbackString input)) s))"

definition walletBalanceRequestHandler :: "('w, 'k, 'c) wallet_api \<Rightarrow> wallet_codec \<Rightarrow> Input \<Rightarrow> Output \<Rightarrow> ('w, 'c) wallet_node \<Rightarrow> ('w, 'c) wallet_reply" where
  "walletBalanceRequestHandler W C input out s =
    (case wc_wallet C (body input) of
       None \<Rightarrow> invalid_params C out s
     | Some (wallet_id, account, password) \<Rightarrow>
         w_then (runAsyncForWallet W wallet_id account password OpBalance (getCallbackString input) s) (accepted C out))"

definition walletTransactionHistoryRequestHandler ::
    "('w, 'k, 'c) wallet_api \<Rightarrow> wallet_codec \<Rightarrow> Input \<Rightarrow> Output \<Rightarrow> ('w, 'c) wallet_node \<Rightarrow> ('w, 'c) wallet_reply" where
  "walletTransactionHistoryRequestHandler W C input out s =
    (case wc_wallet C (body input) of
       None \<Rightarrow> invalid_params C out s
     | Some (wallet_id, account, password) \<Rightarrow>
         w_then (runAsyncForWallet W wallet_id account password OpHistory (getCallbackString input) s) (accepted C out))"

definition walletPrepareTransferRequestHandler ::
    "('w, 'k, 'c) wallet_api \<Rightarrow> wallet_codec \<Rightarrow> Input \<Rightarrow> Output \<Rightarrow> ('w, 'c) wallet_node \<Rightarrow> ('w, 'c) wallet_reply" where
  "walletPrepareTransferRequestHandler W C input out s =
    (case wc_transfer C (body input) of
       None \<Rightarrow> invalid_params C out s
     | Some (wallet_id, account, password, dests) \<Rightarrow>
         w_then (all_ok (map (\<lambda>(address, amount). w_then (stoull amount) (\<lambda>n. Inr (address, n))) dests)) (\<lambda>in_destinations.
         w_then (all_ok (map transfer_destination in_destinations)) (\<lambda>destinations.
         w_then (runAsyncForWallet W wallet_id account password (OpTransfer destinations) (getCallbackString input) s) (accepted C out))))"

text \<open>The routes, with \<open>h3\<close> making the triple of actions of a worker action.\<close>

definition registerWalletRequests where
  "registerWalletRequests h3 W C router =
     addRoute ''/api/transaction_history'' METHOD_GET (h3 (walletTransactionHistoryRequestHandler W C))
       (addRoute ''/api/prepare_transfer'' METHOD_GET (h3 (walletPrepareTransferRequestHandler W C))
         (addRoute ''/api/wallet_balance'' METHOD_GET (h3 (walletBalanceRequestHandler W C))
           (addRoute ''/api/restore_account'' METHOD_GET (h3 (walletRestoreAccountRequestHandler C))
             (addRoute ''/api/create_account'' METHOD_GET (h3 (walletCreateAccountRequestHandler C)) router))))"

section \<open>Cached files\<close>

text \<open>
  \<^verbatim>\<open>getAllExpiredFiles\<close> with the current directory and \<^verbatim>\<open>.*\.cache\<close>: files of the directory itself, that is paths without a slash, with their age in seconds.
\<close>

definition WALLET_DISK_CACHE_FLUSH_DELAY_SECONDS :: int where "WALLET_DISK_CACHE_FLUSH_DELAY_SECONDS = 3600"

definition cache_name :: "string \<Rightarrow> bool" where
  "cache_name f \<longleftrightarrow> 6 \<le> length f \<and> drop (length f - 6) f = ''.cache'' \<and> CHR 0x0A \<notin> set f \<and> CHR 0x0D \<notin> set f"

definition expired_file :: "(string \<Rightarrow> int) \<Rightarrow> string \<Rightarrow> bool" where
  "expired_file age f \<longleftrightarrow> CHR ''/'' \<notin> set f \<and> cache_name f \<and> \<not> age f < WALLET_DISK_CACHE_FLUSH_DELAY_SECONDS"

definition flushDiskCaches :: "(string \<Rightarrow> int) \<Rightarrow> ('w, 'c) wallet_node \<Rightarrow> ('w, 'c) wallet_node" where
  "flushDiskCaches age s = s\<lparr>wn_files := (\<lambda>f. if expired_file age f then None else wn_files s f)\<rparr>"

section \<open>Callbacks are sent once\<close>

definition job_url :: "wallet_job \<Rightarrow> string" where
  "job_url j = (case j of JobCreate p l u \<Rightarrow> u | JobRestore p sd u \<Rightarrow> u | JobWallet a i d p w u \<Rightarrow> u)"

definition job_work :: "('w, 'k, 'c) wallet_api \<Rightarrow> (wallet_result \<Rightarrow> string) \<Rightarrow> wallet_job \<Rightarrow> ('w, 'c) wallet_node \<Rightarrow> ('w, 'c) wallet_node \<times> (string option) wcall" where
  "job_work W print j s =
    (case j of
       JobCreate password language url \<Rightarrow> create_account W print password language s
     | JobRestore password seed url \<Rightarrow> restore_account W print password seed s
     | JobWallet a public_address account_data password wop url \<Rightarrow> wallet_work W print a public_address account_data password wop s)"

lemma run_job_split: "run_wallet_job W print j s = finish_async (job_url j) (job_work W print j s)"
  by (cases j) (simp_all add: run_wallet_job_def job_url_def job_work_def)

definition same_hooks :: "('w, 'c) wallet_node \<Rightarrow> ('w, 'c) wallet_node \<Rightarrow> bool" where
  "same_hooks s s' \<longleftrightarrow> wn_hooks s' = wn_hooks s \<and> wn_room s' = wn_room s"

lemma keep_same: "(\<And>y. x = Inr y \<Longrightarrow> same_hooks s0 (fst (f y))) \<Longrightarrow> same_hooks s0 s \<Longrightarrow> same_hooks s0 (fst (keep s x f))"
  by (cases x) auto

lemma same_hooks_upd [simp]:
  "same_hooks s0 (set_wallet a w s) = same_hooks s0 s" "same_hooks s0 (registerWallet i a s) = same_hooks s0 s"
  "same_hooks s0 (s\<lparr>wn_files := fs\<rparr>) = same_hooks s0 s"
  by (simp_all add: same_hooks_def set_wallet_def registerWallet_def renewWallet_def)

lemma createWallet_same: "createWallet W s = Inr (a, s') \<Longrightarrow> same_hooks s s'"
  by (cases "wa_new W (wn_testnet s) (wn_rpc s)") (auto simp: createWallet_def same_hooks_def)

lemma finish_account_same: "same_hooks s0 s \<Longrightarrow> same_hooks s0 (fst (finish_account W print a p s))"
  unfolding finish_account_def Let_def by (intro keep_same) simp_all

lemma job_work_same: "same_hooks s (fst (job_work W print j s))"
proof -
  have r: "same_hooks s s" by (simp add: same_hooks_def)
  show ?thesis
  proof (cases j)
    case (JobCreate p l u)
    show ?thesis unfolding JobCreate job_work_def create_account_def wallet_job.case
      by (intro keep_same r) (auto intro!: keep_same finish_account_same intro: createWallet_same)
  next
    case (JobRestore p sd u)
    show ?thesis unfolding JobRestore job_work_def restore_account_def wallet_job.case
      by (intro keep_same r) (auto intro!: keep_same finish_account_same split: option.splits, (erule createWallet_same)+)
  next
    case (JobWallet a i d p w u)
    show ?thesis unfolding JobWallet job_work_def wallet_work_def wallet_job.case Let_def
      by (intro keep_same r) (auto intro!: keep_same simp: r)
  qed
qed

text \<open>
  C27. A job of the wallet node tells its outcome at most once. When the request named an address for the callback, the job hands one web hook to the queue of the
  event loop, addressed to the parts of that address, with the printed result in its body, with the error when anything threw, and with an empty body when
  the seed of a restore is not one; but a queue that is full loses it. A job without an address hands over none. The job has no defined outcome only
  when its work ends the program or when the address cannot be taken apart. The hook is sent once: its first run forwards it and the second stops.
\<close>

theorem callback_once:
  "case run_wallet_job W print j s of
     None \<Rightarrow> snd (job_work W print j s) = Inl NoReturn \<or> (job_url j \<noteq> [] \<and> webhook (job_url j) = None)
   | Some s' \<Rightarrow>
       (if job_url j = [] then wn_hooks s' = wn_hooks s \<and> snd (job_work W print j s) \<noteq> Inl NoReturn
        else \<exists>r b. webhook (job_url j) = Some r \<and>
          wn_hooks s' = wn_hooks s @ (if length (wn_hooks s) < wn_room s then [r\<lparr>body := b\<rparr>] else []) \<and>
          (case snd (job_work W print j s) of
             Inr (Some t) \<Rightarrow> b = t | Inr None \<Rightarrow> b = []
           | Inl (StdException e) \<Rightarrow> b = error_body e | Inl UnknownException \<Rightarrow> b = error_body ''unhandled exception''
           | Inl NoReturn \<Rightarrow> False) \<and>
          (\<forall>o1. snd (webhook_action (r\<lparr>body := b\<rparr>) {} o1) = StForward \<and>
             snd (webhook_action (r\<lparr>body := b\<rparr>) (fst (fst (webhook_action (r\<lparr>body := b\<rparr>) {} o1))) o1) = StStop))"
proof -
  obtain s1 res where w: "job_work W print j s = (s1, res)" by fastforce
  have same: "wn_hooks s1 = wn_hooks s" "wn_room s1 = wn_room s" using job_work_same [of s W print j] w by (simp_all add: same_hooks_def)
  have once: "snd (webhook_action r {} o1) = StForward \<and> snd (webhook_action r (fst (fst (webhook_action r {} o1))) o1) = StStop" for r o1
    by (simp add: webhook_action_def)
  have f: "run_wallet_job W print j s = finish_async (job_url j) (s1, res)" by (simp add: run_job_split w)
  show ?thesis
  proof (cases "job_url j = []")
    case True
    then show ?thesis using same by (simp add: f w finish_async_def invoke_error_http_def split: sum.split)
  next
    case False
    show ?thesis
    proof (cases "webhook (job_url j)")
      case None
      with False show ?thesis by (simp add: f w finish_async_def invoke_error_http_def split: sum.split)
    next
      case (Some r)
      have "body r = []" using Some by (auto simp: webhook_def empty_Output_def)
      then have e: "r\<lparr>body := []\<rparr> = r" by simp
      have h: "wn_hooks (invoke_hook o' s1) = wn_hooks s @ (if length (wn_hooks s) < wn_room s then [o'] else [])" for o'
        by (simp add: invoke_hook_def same)
      show ?thesis
      proof (cases res)
        case (Inl x)
        then show ?thesis using False Some once by (cases x) (simp_all add: f w finish_async_def invoke_error_http_def h)
      next
        case (Inr b)
        then show ?thesis using False Some once by (cases b) (auto simp: f w finish_async_def h e intro!: exI [of _ "[]"])
      qed
    qed
  qed
qed

definition demo_wallets :: "(nat, nat, nat) wallet_api" where
  "demo_wallets =
     \<lparr>wa_new = (\<lambda>_ _. Inr 0), wa_set_seed_language = (\<lambda>_ w. w), wa_generate = (\<lambda>p w. Inr (length p)), wa_restore = (\<lambda>_ k w. Inr k),
      wa_words_to_bytes = (\<lambda>sd. if sd = [] then None else Some (length sd)), wa_account_data = (\<lambda>_ _. Inr ''account''),
      wa_address = (\<lambda>w. ''F8'' @ replicate w CHR ''x''), wa_view_key = (\<lambda>_. ''view''), wa_seed = (\<lambda>_. Some ''seed''), wa_load = (\<lambda>_ _ w. Inr w),
      wa_load_cache = (\<lambda>c w. Inr w), wa_store_cache = Inr, wa_refresh = (\<lambda>w. Inl (StdException ''no connection'')), wa_balance = (\<lambda>_. 5),
      wa_unlocked = (\<lambda>_. 3), wa_transactions = (\<lambda>_ w. Inr ([], w)), wa_height = (\<lambda>_. 10), wa_payments = (\<lambda>_. []), wa_payments_out = (\<lambda>_. []),
      wa_unconfirmed_out = (\<lambda>_. [])\<rparr>"

definition demo_wallet_node :: "(nat, nat) wallet_node" where
  "demo_wallet_node =
     \<lparr>wn_testnet = True, wn_rpc = ''localhost:28681'', wn_context = Map.empty, wn_expires = (\<lambda>_. 0), wn_now = 0, wn_heap = (\<lambda>_. 0), wn_next = 0, wn_files = Map.empty, wn_pool = [],
      wn_strands = (\<lambda>_. []), wn_hooks = [], wn_room = 8\<rparr>"

theorem callback_once_witness:
  "\<exists>s' r. run_wallet_job demo_wallets (\<lambda>_. ''ok'') (JobWallet 0 ''F8'' [] [] OpBalance ''http://localhost:8080/cb'') demo_wallet_node = Some s' \<and>
     wn_hooks s' = [r] \<and> host r = ''localhost'' \<and> body r = error_body ''no connection''"
proof -
  let ?j = "JobWallet 0 ''F8'' [] [] OpBalance ''http://localhost:8080/cb''"
  have w: "webhook ''http://localhost:8080/cb'' =
      Some (empty_Output\<lparr>proto := ''http'', host := ''localhost'', out_port := ''8080'', out_path := ''/cb''\<rparr>)" by code_simp
  have k: "snd (job_work demo_wallets (\<lambda>_. ''ok'') ?j demo_wallet_node) = Inl (StdException ''no connection'')"
    by (simp add: job_work_def wallet_work_def demo_wallets_def)
  have "\<exists>s'. run_wallet_job demo_wallets (\<lambda>_. ''ok'') ?j demo_wallet_node = Some s'"
    by (simp add: run_wallet_job_def wallet_work_def demo_wallets_def finish_async_def invoke_error_http_def w)
  then obtain s' where s': "run_wallet_job demo_wallets (\<lambda>_. ''ok'') ?j demo_wallet_node = Some s'" ..
  have "wn_hooks demo_wallet_node = []" "length (wn_hooks demo_wallet_node) < wn_room demo_wallet_node" by (simp_all add: demo_wallet_node_def)
  with callback_once [of demo_wallets "\<lambda>_. ''ok''" ?j demo_wallet_node] k show ?thesis by (auto simp: job_url_def w s')
qed

section \<open>Accounts are found again\<close>




section \<open>Files\<close>

lemma cache_file_inj: "getWalletCacheFileName i = getWalletCacheFileName j \<Longrightarrow> i = j"
  by (auto simp: getWalletCacheFileName_def split: if_splits dest: arg_cong [of _ _ length])

text \<open>The flush never removes the cache of a wallet: it looks at the files of the current directory, and the caches are in directories below it.\<close>

lemma flush_keeps_caches: "wn_files (flushDiskCaches age s) (getWalletCacheFileName i) = wn_files s (getWalletCacheFileName i)"
  by (simp add: flushDiskCaches_def expired_file_def getWalletCacheFileName_def)

section \<open>History and routes\<close>

text \<open>What a confirmed payment is shown with is what was sent to others: the sum of the outputs without the change.\<close>

lemma payment_out_amount:
  "Amount (payment_out h (hash, d)) = k_amount_out d - (if k_change d = - 1 then 0 else k_change d)"
  by (simp add: payment_out_def Let_def)

lemma short_payment_id_long: "length p = 64 \<Longrightarrow> drop 16 p = replicate 48 (CHR ''0'') \<Longrightarrow> short_payment_id p = take 16 p"
  by (simp add: short_payment_id_def list_all_iff)

lemma wallet_routes_clear:
  "dbgCheckConflictRoutes (addRouter (registerWalletRequests h3 W C (new_Router [])) new_Root) = []"
  by (simp add: registerWalletRequests_def addRouter_def addRoute_def new_Router_def new_Root_def dbgCheckConflictRoutes_def root_routes_def METHOD_GET_def)

end
