(* ===== verification/Wallet_Server.thy ===== *)
theory Wallet_Server
  imports Server Wallet_Node
begin

text \<open>
  The server of the wallet node (\<^verbatim>\<open>walletnode/server.cpp\<close>): the start of \<open>Server\<close> with the wallet manager in place of the supernode, its
  routes, and the periodic task that flushes the caches. \<open>health\<close> is the route of \<^verbatim>\<open>registerHealthcheckRequests\<close>.
\<close>

section \<open>State and start\<close>

record ('w, 'h, 'v, 'c) WalletServer =
  ws_server :: "('w, 'h) GraftServer"
  m_walletManager :: "('v, 'c) wallet_node option"

definition new_WalletServer :: "('w, 'h, 'v, 'c) WalletServer" where
  "new_WalletServer = \<lparr>ws_server = new_GraftServer, m_walletManager = None\<rparr>"

text \<open>
  What a wallet node starts from: the files on disk, the capacity of the queue of callbacks, what unused cells of the heap hold, the clock, and the two options the
  global context gets.
\<close>

record ('v, 'c) wallet_start =
  wt_testnet :: bool
  wt_rpc :: string
  wt_files :: "string \<rightharpoonup> 'c"
  wt_room :: nat
  wt_heap :: "nat \<Rightarrow> 'v"
  wt_now :: int

definition new_WalletManager :: "('v, 'c) wallet_start \<Rightarrow> ('v, 'c) wallet_node" where
  "new_WalletManager T =
     \<lparr>wn_testnet = wt_testnet T, wn_rpc = wt_rpc T, wn_context = Map.empty, wn_expires = (\<lambda>_. 0), wn_now = wt_now T, wn_heap = wt_heap T, wn_next = 0, wn_files = wt_files T, wn_pool = [],
      wn_strands = (\<lambda>_. []), wn_hooks = [], wn_room = wt_room T\<rparr>"

definition initWalletManager :: "bool \<Rightarrow> ('v, 'c) wallet_start \<Rightarrow> ('v, 'c) wallet_node option \<Rightarrow> start_error + ('v, 'c) wallet_node" where
  "initWalletManager ndebug T manager = cpp_assert ndebug ''!m_walletManager'' (manager = None) (new_WalletManager T)"

definition setWalletRouters where
  "setWalletRouters health h3 W C rt =
     addRouter (registerWalletRequests h3 W C (new_Router [])) (addRouter (addRoute ''/health'' METHOD_GET health (new_Router [])) rt)"

text \<open>\<^verbatim>\<open>GraftServer::init\<close> with the overridden \<^verbatim>\<open>initMisc\<close> and \<^verbatim>\<open>initRouters\<close>, after the options have been read. The CoAP manager gets no routes.\<close>

definition init_wallet_server ::
    "('w, 'h) start_env \<Rightarrow> ('h Root \<Rightarrow> 'h Root) \<Rightarrow> ('v, 'c) wallet_start \<Rightarrow> ('w, 'h, 'v, 'c) WalletServer \<Rightarrow> start_error + ('w, 'h, 'v, 'c) WalletServer" where
  "init_wallet_server S routers T ws =
    and_then (loadBlacklist (s_ndebug S) (s_read_file S) (ipfilter (s_opts S)) (createSystemInfoCounter (m_connectionBase (ws_server ws)))) (\<lambda>cb.
    and_then (createLooper (s_ndebug S) (s_opts S) cb) (\<lambda>cb.
    and_then (graftlet_call (initGraftlets (s_ndebug S) (s_signature S) (s_exceptions S) (s_fwVersion S) (s_dirs S) (m_graftletLoader (ws_server ws)))) (\<lambda>L.
    and_then (initWalletManager (s_ndebug S) T (m_walletManager ws)) (\<lambda>m.
    and_then (initConnectionManagers (s_ndebug S) cb) (\<lambda>cb.
    and_then (graftlet_call (getEndpoints (s_initOnce S) L)) (\<lambda>(L, endpoints).
      let cb = upd_manager ''HTTP'' (initGraftletRouters (s_h3 S) endpoints)
                 (upd_manager ''HTTP'' routers (upd_manager ''HTTP'' (s_generic S) cb))
      in and_then (bind_managers (s_r3 S) (s_bind_ok S) (m_conManagers cb)) (\<lambda>ms.
           Inr \<lparr>ws_server = \<lparr>m_connectionBase = cb\<lparr>m_conManagers := ms\<rparr>, m_graftletLoader = Some L\<rparr>, m_walletManager = Some m\<rparr>)))))))"

definition stop_wallet_server :: "bool \<Rightarrow> bool \<Rightarrow> ('w, 'h, 'v, 'c) WalletServer \<Rightarrow> start_error + ('w, 'h, 'v, 'c) WalletServer" where
  "stop_wallet_server ndebug force ws = and_then (stop_server ndebug force (ws_server ws)) (\<lambda>sv. Inr (ws\<lparr>ws_server := sv\<rparr>))"

section \<open>The flush of the caches\<close>

abbreviation WALLET_DISK_CACHES_UPDATE_TIME_MS :: int where "WALLET_DISK_CACHES_UPDATE_TIME_MS \<equiv> 10 * 60 * 1000"

definition startWalletPeriodicTasks :: "tm_env \<Rightarrow> ('x \<Rightarrow> ('l, 'g) Handler3) \<Rightarrow> 'x \<Rightarrow> 'l \<Rightarrow> ('l, 'g) TaskManager \<Rightarrow> ('l, 'g) TaskManager" where
  "startWalletPeriodicTasks E h3 flush l tm = addPeriodicTask E (h3 flush) l WALLET_DISK_CACHES_UPDATE_TIME_MS (Some 1) 0 tm"

definition flushWalletDiskCaches :: "bool \<Rightarrow> (string \<Rightarrow> int) \<Rightarrow> ('w, 'h, 'v, 'c) WalletServer \<Rightarrow> start_error + ('w, 'h, 'v, 'c) WalletServer" where
  "flushWalletDiskCaches ndebug age ws =
    (case m_walletManager ws of
       None \<Rightarrow> Inl (if ndebug then UndefinedBehaviour else AssertFailed ''&*m_walletManager'')
     | Some m \<Rightarrow> Inr (ws\<lparr>m_walletManager := Some (flushDiskCaches age m)\<rparr>))"

section \<open>A start without graftlets\<close>

definition wallet_root where
  "wallet_root health generic h3 W C rt =
     setWalletRouters health h3 W C (addRouter (addRoute ''/callback/{id:[0-9a-fA-F-]+}'' METHOD_POST generic (new_Router [])) rt)"

lemmas wallet_register_defs = wallet_root_def setWalletRouters_def registerWalletRequests_def addRouter_def addRoute_def new_Router_def root_routes_def

lemma wallet_root_table:
  "map (\<lambda>r. (r_endpoint r, r_methods r)) (root_routes (wallet_root health generic h3 W C new_Root)) =
    [(''/api/transaction_history'', METHOD_GET), (''/api/prepare_transfer'', METHOD_GET), (''/api/wallet_balance'', METHOD_GET),
     (''/api/restore_account'', METHOD_GET), (''/api/create_account'', METHOD_GET), (''/health'', METHOD_GET),
     (''/callback/{id:[0-9a-fA-F-]+}'', METHOD_POST)]"
  by (simp add: wallet_register_defs new_Root_def)

lemma wallet_root_clear: "dbgCheckConflictRoutes (wallet_root health generic h3 W C new_Root) = []"
  by (simp add: wallet_register_defs new_Root_def dbgCheckConflictRoutes_def METHOD_defs)

definition wallet_env where
  "wallet_env nd read_file opts api bind_ok generic h3g =
     \<lparr>s_ndebug = nd, s_read_file = read_file, s_opts = opts, s_r3 = api, s_bind_ok = bind_ok, s_signature = ''abi'', s_exceptions = [],
      s_fwVersion = 256, s_dirs = [], s_initOnce = Inr, s_h3 = h3g, s_misc = None,
      s_generic = addRouter (addRoute ''/callback/{id:[0-9a-fA-F-]+}'' METHOD_POST generic (new_Router [])), s_http = (\<lambda>rt. rt), s_coap_test = generic\<rparr>"

lemma wallet_server_starts:
  assumes "rules_filename (ipfilter opts) = []" "check_asserts opts" "bind_ok ''HTTP''" "bind_ok ''COAP''"
  shows "\<exists>ws. init_wallet_server (wallet_env nd rf opts api bind_ok generic h3g) (setWalletRouters health h3 W C) T new_WalletServer = Inr ws \<and>
    m_walletManager ws = Some (new_WalletManager T) \<and>
    omap_find (m_conManagers (m_connectionBase (ws_server ws))) ''HTTP'' = Some (snd (arm api (wallet_root health generic h3 W C new_Root)))"
proof -
  have lt: "''COAP'' < ''HTTP''" "\<not> ''HTTP'' < ''COAP''" by code_simp+
  have c: "dbgCheckConflictRoutes new_Root = []" by (simp add: new_Root_def dbgCheckConflictRoutes_def root_routes_def)
  note g = wallet_root_clear [unfolded wallet_root_def]
  show ?thesis
    by (simp add: init_wallet_server_def wallet_env_def new_WalletServer_def createSystemInfoCounter_def loadBlacklist_def new_GraftServer_def
        new_ConnectionBase_def assms cpp_assert_def Let_def no_graftlets no_endpoints initWalletManager_def
        createLooper_def initConnectionManagers_def emplace_manager_def upd_manager_def lt initGraftletRouters_def bind_managers_Inr
        checkRoutes_def c g wallet_root_def)
qed

section \<open>Restart\<close>

lemma wallet_root_twice:
  "m_routers rt = m_routers (wallet_root health generic h3 W C new_Root) \<Longrightarrow>
    dbgCheckConflictRoutes (wallet_root health generic h3 W C rt) = ''/api/transaction_history''"
  by (simp add: wallet_register_defs new_Root_def dbgCheckConflictRoutes_def METHOD_defs)

lemmas wallet_start_unfold = init_wallet_server_def start_unfold initWalletManager_def wallet_env_def no_graftlets no_endpoints initGraftletRouters_def

lemma init_wallet_managers:
  assumes "init_wallet_server (wallet_env nd rf opts api bind_ok generic h3g) (setWalletRouters health h3 W C) T new_WalletServer = Inr ws"
  shows "\<exists>rtc rth. m_conManagers (m_connectionBase (ws_server ws)) = [(''COAP'', rtc), (''HTTP'', rth)] \<and>
    m_routers rth = m_routers (wallet_root health generic h3 W C new_Root) \<and> m_graftletLoader (ws_server ws) = Some (new_GraftletLoader [] 256) \<and>
    m_walletManager ws \<noteq> None"
proof -
  have lt: "''COAP'' < ''HTTP''" "\<not> ''HTTP'' < ''COAP''" by code_simp+
  show ?thesis
    using assms
    by (auto simp: wallet_start_unfold new_WalletServer_def new_GraftServer_def new_ConnectionBase_def arm_def wallet_root_def lt
        dest!: loadBlacklist_Inr)
qed

text \<open>
  A wallet node without graftlets cannot be started again after a stop either: assertions find the black list in place, without them the check of the routes
  finds the first one registered twice.
\<close>

lemma wallet_restart_fails:
  assumes "init_wallet_server (wallet_env nd rf opts api bind_ok generic h3g) (setWalletRouters health h3 W C) T new_WalletServer = Inr ws"
    and "stop_wallet_server nd force ws = Inr ws1"
  shows "\<exists>e. init_wallet_server (wallet_env nd rf' opts' api' bind_ok' generic h3g) (setWalletRouters health h3 W C) T' ws1 = Inl e"
proof (rule ccontr)
  let ?r = "init_wallet_server (wallet_env nd rf' opts' api' bind_ok' generic h3g) (setWalletRouters health h3 W C) T' ws1"
  assume "\<nexists>e. ?r = Inl e"
  then obtain ws' where ws': "?r = Inr ws'" by (cases ?r) auto
  obtain rtc rth where m: "m_conManagers (m_connectionBase (ws_server ws)) = [(''COAP'', rtc), (''HTTP'', rth)]"
      "m_routers rth = m_routers (wallet_root health generic h3 W C new_Root)" "m_graftletLoader (ws_server ws) = Some (new_GraftletLoader [] 256)"
    using init_wallet_managers [OF assms(1)] by blast
  have k: "m_conManagers (m_connectionBase (ws_server ws1)) = [(''COAP'', rtc), (''HTTP'', rth)]"
      "m_graftletLoader (ws_server ws1) = Some (new_GraftletLoader [] 256)"
    using assms(2) m(1,3) by (auto simp: stop_wallet_server_def stop_server_def and_then_Inr split: option.splits)
  have lt: "''COAP'' < ''HTTP''" "\<not> ''HTTP'' < ''COAP''" by code_simp+
  have "dbgCheckConflictRoutes (wallet_root health generic h3 W C rth) = []"
    using ws' by (auto simp: wallet_start_unfold initGraftlets_def k lt wallet_root_def dest!: loadBlacklist_Inr)
  with wallet_root_twice [OF m(2)] show False by simp
qed

text \<open>\<^verbatim>\<open>WalletServer::run\<close> after its first start, with the signals that end the loop of the server in turn; the result is that of the function and the server.\<close>

fun wallet_run where
  "wallet_run S routers T [] ws = and_then (init_wallet_server S routers T ws) (\<lambda>ws. Inr (True, ws))"
| "wallet_run S routers T (sig # sigs) ws =
    and_then (init_wallet_server S routers T ws) (\<lambda>ws.
    and_then (stop_wallet_server (s_ndebug S) (sig = SignalTerminate) ws) (\<lambda>ws.
      if sig = SignalRestart then wallet_run S routers T sigs ws else Inr (True, ws)))"

lemma wallet_run_restart_fails:
  "\<exists>e. wallet_run (wallet_env nd rf opts api bind_ok generic h3g) (setWalletRouters health h3 W C) T (SignalRestart # sigs) new_WalletServer = Inl e"
proof -
  let ?S = "wallet_env nd rf opts api bind_ok generic h3g" and ?R = "setWalletRouters health h3 W C"
  have n: "s_ndebug ?S = nd" by (simp add: wallet_env_def)
  show ?thesis
  proof (cases "init_wallet_server ?S ?R T new_WalletServer")
    case (Inr ws)
    show ?thesis
    proof (cases "stop_wallet_server nd False ws")
      case (Inr ws1)
      obtain e where "init_wallet_server ?S ?R T ws1 = Inl e"
        using wallet_restart_fails [OF \<open>init_wallet_server ?S ?R T new_WalletServer = Inr ws\<close> Inr] by blast
      then show ?thesis using \<open>init_wallet_server ?S ?R T new_WalletServer = Inr ws\<close> Inr by (cases sigs) (simp_all add: n)
    qed (simp add: n \<open>init_wallet_server ?S ?R T new_WalletServer = Inr ws\<close>)
  qed simp
qed

end
