(* ===== verification/Wallet_Address.thy ===== *)
theory Wallet_Address
  imports Graftlet_Loader Node_Routes
begin

text \<open>
  The graftlet \<^verbatim>\<open>walletAddressGL\<close> (\<^verbatim>\<open>graftlets/WalletAddress.cpp\<close>, \<^verbatim>\<open>WalletAddress.h\<close>): its one end point, which signs the address of the
  wallet with the key of the supernode. Printing the answer is an argument.
\<close>

record GetWalletAddressResponse =
  wa_testnet :: bool
  wa_wallet_public_address :: string
  wa_id_key :: string
  wa_signature :: string

definition getWalletAddressHandler where
  "getWalletAddressHandler print E vars input s =
     (if m_last_status (h_ctx s) \<noteq> StNone then (s, Ret StError)
      else with_global E as_Supernode CONTEXT_KEY_SUPERNODE (AnySupernode None) s (\<lambda>supernode s.
        if supernode = None then (s, Ret StError)
        else deref supernode s (\<lambda>sn.
          let response = \<lparr>wa_testnet = m_testnet sn, wa_wallet_public_address = m_wallet_address sn, wa_id_key = idKeyAsString (e_crypto E) sn,
                wa_signature = signed_hex E sn (m_wallet_address sn @ '':'' @ idKeyAsString (e_crypto E) sn)\<rparr>
          in (s\<lparr>h_out := (h_out s)\<lparr>body := print response\<rparr>\<rparr>, Ret StOk))))"

definition initOnce_WalletAddress where
  "initOnce_WalletAddress print E g =
     register_endpoint ''getWalletAddressHandler'' (run_handler (getWalletAddressHandler print E)) ''/dapi/v2.0/cryptonode/getwalletaddress''
       (METHOD_GET OR METHOD_POST) g"

definition new_WalletAddress :: "'h IGraftlet" where
  "new_WalletAddress = \<lparr>i_inited = False, i_clsName = ''walletAddressGL'', i_map = []\<rparr>"

text \<open>
  The exports of the library: its name, the version 1.1 it has and the version 0.3 of the framework it needs. It declares no dependencies.
\<close>

definition walletAddress_dll :: "string \<Rightarrow> string \<Rightarrow> 'h DllFile" where
  "walletAddress_dll path abi =
     \<lparr>f_directory = False, f_extension = ''.so'', f_path = path, f_loads = True,
      f_symbols = [''getGraftletName'', ''getGraftletVersion'', ''checkFwVersion'', ''getBuildSignature'', ''getGraftletRegistry''],
      f_abi = Some abi, f_registry = Some (Some new_WalletAddress), f_version = Some 257, f_name = Some ''walletAddress'', f_dependencies = None,
      f_check_fw = (\<lambda>v. Some (3 \<le> v))\<rparr>"

section \<open>The answer\<close>

lemma wallet_address_error:
  assumes "m_last_status (h_ctx s) \<noteq> StNone \<or> glookup E s CONTEXT_KEY_SUPERNODE = None"
  shows "\<exists>s'. getWalletAddressHandler print E vars input s = (s', Ret StError) \<and> h_out s' = h_out s"
  using assms by (auto simp: getWalletAddressHandler_def rta_simps)

lemma wallet_address_signed:
  assumes "m_last_status (h_ctx s) = StNone" "glookup E s CONTEXT_KEY_SUPERNODE = Some (AnySupernode (Some p))"
    and "hex_codec_ok (e_crypto E)" "signatures_ok (e_crypto E)"
    and "keys_ok (e_crypto E) (sn_heap (g_fsl (h_g s)) p)" "m_has_secret_key (sn_heap (g_fsl (h_g s)) p)"
  shows "\<exists>s' r sg. getWalletAddressHandler print E vars input s = (s', Ret StOk) \<and> body (h_out s') = print r \<and>
    wa_wallet_public_address r = m_wallet_address (sn_heap (g_fsl (h_g s)) p) \<and>
    hex_to_pk (e_crypto E) (wa_id_key r) = Some (m_id_key (sn_heap (g_fsl (h_g s)) p)) \<and>
    hex_to_sg (e_crypto E) (wa_signature r) = Some sg \<and>
    verifySignature (e_crypto E) (wa_wallet_public_address r @ '':'' @ wa_id_key r) (m_id_key (sn_heap (g_fsl (h_g s)) p)) sg"
proof -
  let ?sn = "sn_heap (g_fsl (h_g s)) p" and ?C = "e_crypto E"
  let ?m = "m_wallet_address ?sn @ '':'' @ idKeyAsString ?C ?sn"
  obtain sg where sg: "signMessage ?C ?sn ?m = Some sg"
    using assms(5,6) by (auto simp: keys_ok_def signMessage_def signHash_def)
  have "verifySignature ?C ?m (m_id_key ?sn) sg" by (rule keys_ok_signs_message [OF assms(5,4) sg])
  with sg assms(1-3) show ?thesis
    by (auto simp: getWalletAddressHandler_def rta_simps deref_def signed_hex_def Let_def hex_codec_ok_def idKeyAsString_def)
qed

section \<open>Loading it\<close>

text \<open>
  A directory that holds the library alone: a framework of version 0.3 or later takes it and gets its one end point, an older one gets none.
\<close>

definition wallet_loader :: "int \<Rightarrow> string \<Rightarrow> 'h GraftletLoader" where
  "wallet_loader fw path =
     \<lparr>m_name2lib = [(''walletAddress'', (257, path, []))], m_name2registries = [(''walletAddress'', Some new_WalletAddress)],
      m_name2gls = [], m_exceptionMap = [], m_fwVersion = fw\<rparr>"

lemma wallet_found:
  "find_all abi [[walletAddress_dll path abi]] (new_GraftletLoader [] fw) = Inr (if 3 \<le> fw then wallet_loader fw path else new_GraftletLoader [] fw)"
  by (simp add: load_file_def walletAddress_dll_def call_def accept_library_def is_in_GEL_def new_GraftletLoader_def wallet_loader_def)

lemma wallet_graph:
  "removeFailedDependants \<lparr>m_graph = [(n, [])], m_dll2ver = [(n, v)]\<rparr> = ([], \<lparr>m_graph = [(n, [])], m_dll2ver = [(n, v)]\<rparr>)"
  "findCycles False \<lparr>m_graph = [(n, [])], m_dll2ver = [(n, v)]\<rparr> = Inr []"
  by (simp_all add: removeFailedDependants_def removeFailed.simps failed_entry_def entry_ok_def invalid_format_def findCycles_def visit_all.simps
      dfs.simps children_def set_color_def)

lemma wallet_kept: "checkDependencies nd (wallet_loader fw path) = Inr (wallet_loader fw path)"
  by (simp add: checkDependencies_def wallet_loader_def dep_vector_def initialize_def empty_graph_def parse_dependencies_def erase_libraries_def wallet_graph)

lemma wallet_address_endpoint:
  assumes "3 \<le> fw"
  shows "initGraftlets nd abi [] fw [[walletAddress_dll path abi]] None = Inr (wallet_loader fw path)"
    and "map_sum (\<lambda>e. e) snd (getEndpoints (initOnce_WalletAddress print E) (wallet_loader fw path)) =
      Inr [(''/dapi/v2.0/cryptonode/getwalletaddress'', METHOD_GET OR METHOD_POST, run_handler (getWalletAddressHandler print E))]"
proof -
  show "initGraftlets nd abi [] fw [[walletAddress_dll path abi]] None = Inr (wallet_loader fw path)"
    using assms by (simp add: initGraftlets_def wallet_found wallet_kept del: find_all.simps)
  show "map_sum (\<lambda>e. e) snd (getEndpoints (initOnce_WalletAddress print E) (wallet_loader fw path)) =
      Inr [(''/dapi/v2.0/cryptonode/getwalletaddress'', METHOD_GET OR METHOD_POST, run_handler (getWalletAddressHandler print E))]"
    by (simp add: getEndpoints_def wallet_loader_def buildAndResolve_def init_graftlet_def new_WalletAddress_def initOnce_WalletAddress_def
        register_endpoint_def graftlet_endpoints_def)
qed

lemma wallet_address_old_framework:
  "fw < 3 \<Longrightarrow> find_all abi [[walletAddress_dll path abi]] (new_GraftletLoader [] fw) = Inr (new_GraftletLoader [] fw)"
  by (simp add: wallet_found del: find_all.simps)

end
