(* ===== verification/Daemon_Rpc.thy ===== *)
theory Daemon_Rpc
  imports Full_Supernode_List
begin

text \<open>
  The client of the cryptonode (\<^verbatim>\<open>DaemonRpcClient.h\<close>, \<^verbatim>\<open>DaemonRpcClient.cpp\<close>) and the operations of \<^verbatim>\<open>FullSupernodeList\<close> that use it,
  with the loading and the refreshing of the list.
  The HTTP exchange and the parsers of the cryptonode library are the fields of \<open>daemon\<close>: an exchange gives the value of
  \<^verbatim>\<open>invoke_http_json\<close> and what is then in the reply.
\<close>

section \<open>Requests and replies\<close>

record 'p json_rpc =
  jr_jsonrpc :: string
  jr_id :: u64
  jr_method :: string
  jr_params :: 'p

record GetTransactionsRequest =
  gt_txs_hashes :: "string list"
  gt_decode_as_json :: bool

record tx_entry =
  te_tx_hash :: string
  te_as_hex :: string
  te_in_pool :: bool
  te_block_height :: u64

record GetTransactionsResponse =
  gt_status :: string
  gt_txs :: "tx_entry list"

record GetHeightResponse =
  gh_status :: string
  gh_height :: u64

record GetStakesRequest =
  gs_network_address :: string
  gs_supernode_public_id :: string

record GetListRequest =
  gl_network_address :: string
  gl_supernode_public_id :: string
  gl_last_received_block_height :: u64

abbreviation CORE_RPC_STATUS_OK :: string where "CORE_RPC_STATUS_OK \<equiv> ''OK''"

record 'tx daemon =
  d_set_server :: "string \<Rightarrow> (string \<times> string) option \<Rightarrow> bool"
  d_pool_hashes :: "string \<Rightarrow> bool \<times> string list"
  d_transactions :: "string \<Rightarrow> GetTransactionsRequest \<Rightarrow> bool \<times> GetTransactionsResponse"
  d_height :: "string \<Rightarrow> bool \<times> GetHeightResponse"
  d_block_hash :: "string \<Rightarrow> u64 list json_rpc \<Rightarrow> bool \<times> string"
  d_stakes :: "string \<Rightarrow> GetStakesRequest json_rpc \<Rightarrow> bool"
  d_list :: "string \<Rightarrow> GetListRequest json_rpc \<Rightarrow> bool"
  d_parse_hex :: "string \<Rightarrow> string option"
  d_parse_tx :: "string \<Rightarrow> 'tx \<Rightarrow> bool \<times> 'tx"

text \<open>\<open>d_parse_tx\<close> is given the transaction it writes into, which a failed parse may leave changed.\<close>

section \<open>The client\<close>

definition client_login :: "string \<Rightarrow> string \<Rightarrow> (string \<times> string) option" where
  "client_login daemon_login daemon_pass = (if daemon_login \<noteq> [] \<and> daemon_pass \<noteq> [] then Some (daemon_login, daemon_pass) else None)"

definition init_client :: "'tx daemon \<Rightarrow> string \<Rightarrow> (string \<times> string) option \<Rightarrow> bool" where
  "init_client D daemon_address login = d_set_server D daemon_address login"

text \<open>The constructor: what it throws, or the timeout of the requests in seconds.\<close>

definition new_DaemonRpcClient :: "'tx daemon \<Rightarrow> string \<Rightarrow> string \<Rightarrow> string \<Rightarrow> string + int" where
  "new_DaemonRpcClient D daemon_addr daemon_login daemon_pass =
     (if init_client D daemon_addr (client_login daemon_login daemon_pass) then Inr 30
      else Inl (''can't connect to node: '' @ daemon_addr))"

record 'tx tx_out =
  o_tx :: 'tx
  o_block_num :: u64
  o_mined :: bool

text \<open>The result of a request and the output parameters: they are written on the way, also by a request that fails afterwards.\<close>

definition get_tx :: "'tx daemon \<Rightarrow> string \<Rightarrow> 'tx tx_out \<Rightarrow> bool \<times> 'tx tx_out" where
  "get_tx D hash_str out =
     (case d_transactions D ''/gettransactions'' \<lparr>gt_txs_hashes = [hash_str], gt_decode_as_json = False\<rparr> of (r, res_tx) \<Rightarrow>
      if \<not> r \<and> gt_status res_tx \<noteq> CORE_RPC_STATUS_OK then (False, out)
      else (case gt_txs res_tx of
        [tx] \<Rightarrow>
          (let out1 = out\<lparr>o_block_num := te_block_height tx, o_mined := \<not> te_in_pool tx\<rparr> in
           case d_parse_hex D (te_as_hex tx) of
             None \<Rightarrow> (False, out1)
           | Some bd \<Rightarrow>
               (case d_parse_tx D bd (o_tx out1) of (ok, t) \<Rightarrow>
                (ok \<and> te_tx_hash tx = hash_str, out1\<lparr>o_tx := t\<rparr>)))
      | _ \<Rightarrow> (False, out)))"

definition get_tx_from_pool :: "'tx daemon \<Rightarrow> string \<Rightarrow> 'tx \<Rightarrow> u64 \<Rightarrow> bool \<Rightarrow> bool \<times> 'tx" where
  "get_tx_from_pool D hash_str out_tx block_num mined =
     (case d_pool_hashes D ''/get_transaction_pool_hashes.bin'' of (r, hashes) \<Rightarrow>
      if \<not> r then (False, out_tx)
      else if hash_str \<notin> set hashes then (False, out_tx)
      else (case get_tx D hash_str \<lparr>o_tx = out_tx, o_block_num = block_num, o_mined = mined\<rparr> of (ok, out) \<Rightarrow> (ok, o_tx out)))"

definition get_height :: "'tx daemon \<Rightarrow> u64 \<Rightarrow> bool \<times> u64" where
  "get_height D height =
     (case d_height D ''/getheight'' of (r, res) \<Rightarrow>
      if \<not> r \<and> gh_status res \<noteq> CORE_RPC_STATUS_OK then (False, height) else (True, gh_height res))"

definition get_block_hash :: "'tx daemon \<Rightarrow> u64 \<Rightarrow> string \<Rightarrow> bool \<times> string" where
  "get_block_hash D height hash =
     (case d_block_hash D ''/json_rpc'' \<lparr>jr_jsonrpc = ''2.0'', jr_id = 0, jr_method = ''on_getblockhash'', jr_params = [height]\<rparr> of
        (ok, result) \<Rightarrow> if \<not> ok then (False, hash) else (True, result))"

definition send_supernode_stakes :: "'tx daemon \<Rightarrow> string \<Rightarrow> string \<Rightarrow> bool" where
  "send_supernode_stakes D network_address public_id =
     d_stakes D ''/json_rpc/rta'' \<lparr>jr_jsonrpc = ''2.0'', jr_id = 0, jr_method = ''send_supernode_stakes'',
       jr_params = \<lparr>gs_network_address = network_address, gs_supernode_public_id = public_id\<rparr>\<rparr>"

definition send_supernode_blockchain_based_list :: "'tx daemon \<Rightarrow> string \<Rightarrow> string \<Rightarrow> u64 \<Rightarrow> bool" where
  "send_supernode_blockchain_based_list D network_address public_id last_received_block_height =
     d_list D ''/json_rpc/rta'' \<lparr>jr_jsonrpc = ''2.0'', jr_id = 0, jr_method = ''send_supernode_blockchain_based_list'',
       jr_params = \<lparr>gl_network_address = network_address, gl_supernode_public_id = public_id,
         gl_last_received_block_height = last_received_block_height\<rparr>\<rparr>"

section \<open>The list of supernodes as a user of the client\<close>

definition getBlockHash :: "'tx daemon \<Rightarrow> u64 \<Rightarrow> string \<Rightarrow> bool \<times> string" where
  "getBlockHash D height hash = get_block_hash D height hash"

definition getBlockchainHeight :: "'tx daemon \<Rightarrow> u64" where
  "getBlockchainHeight D = (case get_height D 0 of (ret, result) \<Rightarrow> if ret then result else 0)"

text \<open>What a request of \<open>synchronizeWithCryptonode\<close> is on the wire; its result is not read.\<close>

primrec send_rpc :: "'tx daemon \<Rightarrow> rpc_request \<Rightarrow> bool" where
  "send_rpc D (RpcSendSupernodeStakes network_address address) = send_supernode_stakes D network_address address"
| "send_rpc D (RpcSendBlockchainBasedList network_address address n) = send_supernode_blockchain_based_list D network_address address n"

section \<open>Loading and refreshing the list\<close>

text \<open>Loading from a directory reads nothing any more: the result is the size of the list, and the number of wallets found is not written.\<close>

definition loadFromDir :: "string \<Rightarrow> ('pk, 'sk) FullSupernodeList \<Rightarrow> nat" where
  "loadFromDir base_dir s = size_fsl s"

definition loadFromDirThreaded :: "string \<Rightarrow> nat \<Rightarrow> ('pk, 'sk) FullSupernodeList \<Rightarrow> nat \<times> nat" where
  "loadFromDirThreaded base_dir found_wallets s = (size_fsl s, found_wallets)"

text \<open>
  The pool of the list: its service keeps jobs until its threads run them, and once its work object is gone and the jobs are done it is stopped for good.
\<close>

record refresh_pool =
  rp_jobs :: "string list"
  rp_stopped :: bool
  m_refresh_counter :: nat

definition new_refresh_pool :: refresh_pool where
  "new_refresh_pool = \<lparr>rp_jobs = [], rp_stopped = False, m_refresh_counter = 0\<rparr>"

definition refresh_worker :: "('pk, 'sk) FullSupernodeList \<Rightarrow> string \<Rightarrow> nat \<Rightarrow> nat" where
  "refresh_worker s address n = (case get_sn address s of Some p \<Rightarrow> (let _ = refresh (sn_heap s p) in n + 1) | None \<Rightarrow> n)"

definition enqueue_job :: "string \<Rightarrow> refresh_pool \<Rightarrow> refresh_pool" where
  "enqueue_job address r = r\<lparr>rp_jobs := rp_jobs r @ [address]\<rparr>"

definition run_pool :: "('pk, 'sk) FullSupernodeList \<Rightarrow> refresh_pool \<Rightarrow> refresh_pool" where
  "run_pool s r =
     (if rp_stopped r then r
      else r\<lparr>rp_jobs := [], rp_stopped := True, m_refresh_counter := fold (refresh_worker s) (rp_jobs r) (m_refresh_counter r)\<rparr>)"

text \<open>\<open>items\<close> are the addresses when the jobs are posted, \<open>s\<close> the list when they run.\<close>

definition refreshAsync :: "string list \<Rightarrow> ('pk, 'sk) FullSupernodeList \<Rightarrow> refresh_pool \<Rightarrow> refresh_pool" where
  "refreshAsync items s r = run_pool s (fold enqueue_job items (r\<lparr>m_refresh_counter := 0\<rparr>))"

definition refreshedItems :: "refresh_pool \<Rightarrow> nat" where
  "refreshedItems r = m_refresh_counter r"

lemma enqueue_jobs: "fold enqueue_job items r = r\<lparr>rp_jobs := rp_jobs r @ items\<rparr>"
  by (induction items arbitrary: r) (simp_all add: enqueue_job_def)

lemma refresh_workers: "fold (refresh_worker s) items n = n + length (filter (\<lambda>i. exists_sn i s) items)"
  by (induction items arbitrary: n) (auto simp: refresh_worker_def get_sn_def exists_sn_def)

text \<open>
  The first refresh counts every supernode that is still in the list, in whatever order the jobs run; later ones leave their jobs in the stopped pool and count
  none.
\<close>

lemma refresh_first:
  assumes "set items = items_fsl s" "distinct items"
  shows "refreshedItems (refreshAsync items s new_refresh_pool) = size_fsl s"
proof -
  have "filter (\<lambda>i. exists_sn i s) items = items" using assms(1) by (auto simp: filter_id_conv items_fsl_def exists_sn_def)
  then show ?thesis
    using assms distinct_card [OF assms(2)]
    by (simp add: refreshedItems_def refreshAsync_def new_refresh_pool_def enqueue_jobs run_pool_def refresh_workers size_fsl_def items_fsl_def)
qed

lemma refresh_again:
  "refreshedItems (refreshAsync items' s' (refreshAsync items s new_refresh_pool)) = 0 \<and>
    rp_jobs (refreshAsync items' s' (refreshAsync items s new_refresh_pool)) = items'"
  by (simp add: refreshedItems_def refreshAsync_def new_refresh_pool_def enqueue_jobs run_pool_def)

section \<open>Facts\<close>

text \<open>
  What the client relies on: a failed exchange leaves the reply as it was constructed, without a status.
\<close>

definition failures_leave_reply :: "'tx daemon \<Rightarrow> bool" where
  "failures_leave_reply D \<longleftrightarrow>
     (\<forall>u q. fst (d_transactions D u q) \<or> snd (d_transactions D u q) = \<lparr>gt_status = [], gt_txs = []\<rparr>) \<and>
     (\<forall>u. fst (d_height D u) \<or> snd (d_height D u) = \<lparr>gh_status = [], gh_height = 0\<rparr>)"

lemma get_tx_true:
  assumes "get_tx D h out = (True, out')"
  shows "\<exists>tx bd. gt_txs (snd (d_transactions D ''/gettransactions'' \<lparr>gt_txs_hashes = [h], gt_decode_as_json = False\<rparr>)) = [tx] \<and>
    te_tx_hash tx = h \<and> d_parse_hex D (te_as_hex tx) = Some bd \<and> d_parse_tx D bd (o_tx out) = (True, o_tx out') \<and>
    o_block_num out' = te_block_height tx \<and> o_mined out' = (\<not> te_in_pool tx)"
  using assms by (auto simp: get_tx_def Let_def split: prod.splits if_splits list.splits option.splits)

text \<open>
  The transaction a successful request returns is the single one of the reply, under the hash that was asked for; and a pool request succeeds only for a
  transaction the pool had, though it may be mined by the time it is fetched.
\<close>

lemma pool_tx_sound:
  assumes "get_tx_from_pool D h out_tx n m = (True, t)"
  shows "h \<in> set (snd (d_pool_hashes D ''/get_transaction_pool_hashes.bin''))"
    and "\<exists>tx bd. gt_txs (snd (d_transactions D ''/gettransactions'' \<lparr>gt_txs_hashes = [h], gt_decode_as_json = False\<rparr>)) = [tx] \<and>
      te_tx_hash tx = h \<and> d_parse_hex D (te_as_hex tx) = Some bd \<and> d_parse_tx D bd out_tx = (True, t)"
proof -
  obtain out' where g: "get_tx D h \<lparr>o_tx = out_tx, o_block_num = n, o_mined = m\<rparr> = (True, out')" and t: "t = o_tx out'"
    and p: "h \<in> set (snd (d_pool_hashes D ''/get_transaction_pool_hashes.bin''))"
    using assms by (auto simp: get_tx_from_pool_def split: prod.splits if_splits)
  show "h \<in> set (snd (d_pool_hashes D ''/get_transaction_pool_hashes.bin''))" by (rule p)
  show "\<exists>tx bd. gt_txs (snd (d_transactions D ''/gettransactions'' \<lparr>gt_txs_hashes = [h], gt_decode_as_json = False\<rparr>)) = [tx] \<and>
      te_tx_hash tx = h \<and> d_parse_hex D (te_as_hex tx) = Some bd \<and> d_parse_tx D bd out_tx = (True, t)"
    using get_tx_true [OF g] t by auto
qed

text \<open>
  The height of the chain is the one of the reply whenever the exchange succeeds, whatever status the reply has; it is 0 when the exchange fails.
\<close>

lemma getBlockchainHeight_cases:
  "failures_leave_reply D \<Longrightarrow>
    getBlockchainHeight D = (if fst (d_height D ''/getheight'') then gh_height (snd (d_height D ''/getheight'')) else 0)"
  unfolding failures_leave_reply_def
  by (drule conjunct2, drule spec [of _ "''/getheight''"]) (auto simp: getBlockchainHeight_def get_height_def split: prod.splits)

text \<open>A failed transaction request can have written the height and the mined flag.\<close>

definition demo_daemon :: "bool \<Rightarrow> string \<Rightarrow> tx_entry list \<Rightarrow> nat daemon" where
  "demo_daemon up st txs =
     \<lparr>d_set_server = (\<lambda>a l. a \<noteq> []), d_pool_hashes = (\<lambda>u. (up, [''aa''])),
      d_transactions = (\<lambda>u q. if up then (True, \<lparr>gt_status = st, gt_txs = txs\<rparr>) else (False, \<lparr>gt_status = [], gt_txs = []\<rparr>)),
      d_height = (\<lambda>u. if up then (True, \<lparr>gh_status = st, gh_height = 7\<rparr>) else (False, \<lparr>gh_status = [], gh_height = 0\<rparr>)),
      d_block_hash = (\<lambda>u q. (up, ''bb'')), d_stakes = (\<lambda>u q. up), d_list = (\<lambda>u q. up),
      d_parse_hex = (\<lambda>s. if s = ''00'' then Some ''x'' else None), d_parse_tx = (\<lambda>s t. (True, 5))\<rparr>"

lemma demo_daemon_ok: "failures_leave_reply (demo_daemon up st txs)"
  by (simp add: failures_leave_reply_def demo_daemon_def)

lemma busy_height_accepted: "getBlockchainHeight (demo_daemon True ''BUSY'' txs) = 7 \<and> getBlockchainHeight (demo_daemon False ''OK'' txs) = 0"
  by (simp add: getBlockchainHeight_cases [OF demo_daemon_ok], simp add: demo_daemon_def)

lemma failed_tx_writes_height:
  "get_tx (demo_daemon True ''OK'' [\<lparr>te_tx_hash = ''aa'', te_as_hex = ''zz'', te_in_pool = True, te_block_height = 9\<rparr>]) ''aa''
     \<lparr>o_tx = 0, o_block_num = 1, o_mined = True\<rparr> = (False, \<lparr>o_tx = 0, o_block_num = 9, o_mined = False\<rparr>)"
  by (simp add: get_tx_def demo_daemon_def)

lemma pool_tx_sound_demo:
  "get_tx_from_pool (demo_daemon True ''BUSY'' [\<lparr>te_tx_hash = ''aa'', te_as_hex = ''00'', te_in_pool = False, te_block_height = 9\<rparr>]) ''aa'' 0 0 False
     = (True, 5)"
  by (simp add: get_tx_from_pool_def get_tx_def demo_daemon_def)

end
