(* ===== verification/Spec2Isabelle.thy ===== *)
theory Spec2Isabelle
  imports Task_Manager Node_Routes Blacklist_Rules Thread_Pool Server System_Info Strand Wallet_Server Wallet_Address Daemon_Rpc
begin

text \<open>
  \<^bold>\<open>The program.\<close> graft-ng is the supernode of the Graft payment network. One thread, the looper,
  owns the sockets; every request becomes a task that walks through a state machine (pre-action,
  worker action in a thread pool, post-action) and may be forwarded upstream to the cryptonode, answered,
  or postponed until a callback arrives. The handlers of the routes implement the payment protocol:
  a sale is opened, its data is multicast to an authorisation sample of eight supernodes chosen
  from the blockchain based list, the payer asks for its details and fee, the sample votes on
  the transaction, and the status is broadcast. Handlers share a global context, a hash table whose
  entries expire, and the list of known supernodes. A second program of the repository, the wallet node,
  runs on the same server and keeps wallets for its clients.

  \<^bold>\<open>Theories and sources: the server.\<close>
  \<^item> \<^verbatim>\<open>Graft_Prelude\<close>: status codes (\<^verbatim>\<open>graft_constants.h\<close>), decimal printing, shared lemmas and
    collections. \<^verbatim>\<open>Ordered_Map\<close>: \<^verbatim>\<open>std::map\<close> as the code uses it, with the interface \<^verbatim>\<open>std_map\<close>.
    \<^verbatim>\<open>Text_Scan\<close>: character classes and digits, shared by the hand-written equivalents of regular expressions.
  \<^item> \<^verbatim>\<open>Config\<close> (\<^verbatim>\<open>supernode/server.cpp\<close>, \<^verbatim>\<open>serveropts.h\<close>): options, sections of the ini file, lines of \<^verbatim>\<open>[upstream]\<close>,
    directories of graftlets. \<^verbatim>\<open>System_Info\<close> (\<^verbatim>\<open>sys_info_request.cpp\<close>).
  \<^item> \<^verbatim>\<open>Server\<close> (\<^verbatim>\<open>server.cpp\<close>, \<^verbatim>\<open>supernode.cpp\<close>, \<^verbatim>\<open>connection.cpp\<close>): start, stop and restart, the turns of the loop, the events of an
    HTTP connection and of a CoAP message. \<^verbatim>\<open>Router\<close> (\<^verbatim>\<open>router.h\<close>, \<^verbatim>\<open>router.cpp\<close>) and \<^verbatim>\<open>Node_Routes\<close>: routes, matching, the conflict check, and the
    29 routes of a node with their handlers.
  \<^item> \<^verbatim>\<open>State_Machine\<close>, \<^verbatim>\<open>Task_Model\<close>, \<^verbatim>\<open>Task_Manager\<close> (\<^verbatim>\<open>task.cpp\<close>, \<^verbatim>\<open>task.h\<close>, \<^verbatim>\<open>state_machine.h\<close>,
    \<^verbatim>\<open>connection.cpp\<close>, \<^verbatim>\<open>timer.h\<close>, \<^verbatim>\<open>thread_pool.h\<close>): the transition table, tasks, pool jobs, postponed
    tasks, timers and periodic tasks, as functions on the record \<^verbatim>\<open>TaskManager\<close> and a step relation
    over the events of the looper. \<^verbatim>\<open>Client_Log\<close>: which connections the operations of the manager answer.
  \<^item> \<^verbatim>\<open>Upstream_Manager\<close> (\<^verbatim>\<open>task.cpp\<close> 200-385, \<^verbatim>\<open>connection.cpp\<close>): connection items with keep-alive and the
    events of a sender. \<^verbatim>\<open>Expiring_List\<close> (\<^verbatim>\<open>expiring_list.h\<close>). \<^verbatim>\<open>Inout\<close> (\<^verbatim>\<open>inout.h\<close>, \<^verbatim>\<open>inout.cpp\<close>).
  \<^item> \<^verbatim>\<open>Mpmc_Queue\<close>, \<^verbatim>\<open>Mpmc_Ticket\<close>, \<^verbatim>\<open>Mpmc_Correct\<close> (\<^verbatim>\<open>mpmc_bounded_queue.hpp\<close>): the lock-free queue at the level of its atomic accesses, a version
    with unbounded tickets, and the refinement between them. \<^verbatim>\<open>Thread_Pool\<close> (\<^verbatim>\<open>thread_pool.hpp\<close>, \<^verbatim>\<open>worker.hpp\<close>): workers, stealing,
    expulsion of slow workers, stop. \<^verbatim>\<open>Strand\<close> (\<^verbatim>\<open>strand.hpp\<close>): serial execution on the pool.
  \<^item> \<^verbatim>\<open>Radix_Key\<close>, \<^verbatim>\<open>Radix_Tree\<close>, \<^verbatim>\<open>Radix_Update\<close> (\<^verbatim>\<open>radix_tree/\<close>), \<^verbatim>\<open>Ip_Window\<close>, \<^verbatim>\<open>Blacklist\<close>, \<^verbatim>\<open>Blacklist_Rules\<close> (\<^verbatim>\<open>blacklist.cpp\<close>): the
    tree of address prefixes, the count of requests per address, bans, and the rule file.
  \<^item> \<^verbatim>\<open>Graftlet_Deps\<close>, \<^verbatim>\<open>Graftlet_Graph\<close>, \<^verbatim>\<open>Graftlet_Loader\<close> (\<^verbatim>\<open>GraftletLoader.cpp\<close>, \<^verbatim>\<open>IGraftlet.h\<close>): dependencies of plug-ins, removal and
    cycle search, loading and end points.

  \<^bold>\<open>Theories and sources: the node.\<close>
  \<^item> \<^verbatim>\<open>Supernode_Model\<close> (\<^verbatim>\<open>rta/supernode.cpp\<close>): keys, announces, stakes, tiers, signatures, key file.
    The cryptonode's key and signature functions are a parameter (\<^verbatim>\<open>crypto_api\<close>).
  \<^item> \<^verbatim>\<open>Full_Supernode_List\<close> (\<^verbatim>\<open>rta/fullsupernodelist.cpp\<close>): the list, stakes, blockchain based lists
    and the selection of the authorisation sample. The random engine is a parameter.
  \<^item> \<^verbatim>\<open>Global_Context\<close> (\<^verbatim>\<open>graft_utility.hpp\<close>, \<^verbatim>\<open>context.h\<close>): bucket lists, time to live, clean-up, groups.
  \<^item> \<^verbatim>\<open>Rta_Context\<close> (\<^verbatim>\<open>requestdefines.*\<close>, \<^verbatim>\<open>context.h\<close>): the messages, the typed access to the contexts with
    the exceptions of \<^verbatim>\<open>boost::any_cast\<close>, error replies. \<^verbatim>\<open>Rta_Sale\<close>, \<^verbatim>\<open>Rta_Authorize\<close>, \<^verbatim>\<open>Rta_Fee\<close>,
    \<^verbatim>\<open>Rta_Payment\<close>, \<^verbatim>\<open>Rta_Node\<close>: the handlers under \<^verbatim>\<open>supernode/requests/\<close> and the start of a node.
    Parsing and printing of messages is a parameter (\<^verbatim>\<open>codec\<close>).
  \<^item> \<^verbatim>\<open>Rta_Invariant\<close>: the states a node can reach by its handlers (\<^verbatim>\<open>supernode/requests.cpp\<close>) and what holds
    in all of them.
  \<^item> \<^verbatim>\<open>Wallet_Url\<close>, \<^verbatim>\<open>Wallet_Node\<close> (\<^verbatim>\<open>wallet_manager.cpp\<close>, \<^verbatim>\<open>wallet_requests.cpp\<close>): the wallet node, over a parameter for the wallet library;
    \<^verbatim>\<open>Wallet_Server\<close> (\<^verbatim>\<open>walletnode/server.cpp\<close>): its start on the definitions of \<^verbatim>\<open>Server\<close>.
  \<^item> \<^verbatim>\<open>Daemon_Rpc\<close> (\<^verbatim>\<open>DaemonRpcClient.cpp\<close>): the client of the cryptonode, over a parameter for the exchange, and the operations of the list of
    supernodes that use it; \<^verbatim>\<open>Wallet_Address\<close> (\<^verbatim>\<open>graftlets/WalletAddress.cpp\<close>): a graftlet from its library to its answer.

  \<^bold>\<open>State and effects.\<close> Handlers are functions from the route variables, the input and a record of
  local context, global context and output to the new record and an outcome: a returned status, an
  exception or a null dereference. Objects behind shared pointers are addresses into a heap field of the
  list. Machine integers that can wrap are words; sizes and times are \<^verbatim>\<open>nat\<close> and \<^verbatim>\<open>int\<close>. Threads are sequences of
  steps in any order; a step is an atomic access in the queue and the strand, and an operation under its lock elsewhere. Undefined
  behaviour is a value of its own (\<^verbatim>\<open>Undef\<close>, \<^verbatim>\<open>UndefinedBehaviour\<close>, \<^verbatim>\<open>None\<close>), and assertions are checked or not by a flag.

  \<^bold>\<open>What is shown.\<close> The sample is complete, has only fresh members, is the same on all nodes with the
  same view, and refines an abstract selection. Stakes and lists are kept as documented inside their
  bounds. Every request with a known method whose route has final statuses is answered or kept where the manager finds it;
  the pool never holds more jobs than its queue; postponed tasks meet their callbacks in either order
  and expire. Connections are counted exactly. In every reachable state of a node the context is typed, the
  listed handlers answer every input. Every connection is handled by the task that answers it and is answered at most once. Sales, details,
  announces, verdicts and status broadcasts have their effect, and round trips between sender and receiver
  hold. The lock-free queue is a first in, first out queue, calls that are not disturbed end, the pool runs
  each job once and stops; a strand runs one handler at a time. The radix tree refines a map with search for the longest prefix, the address
  filter decides as documented. The graftlets that stay are the largest set with their dependencies met, without cycles. The upstream
  manager is the one of the configuration file. The error theorems record where the code does not do what it means to.

  \<^bold>\<open>Bounds.\<close> \<^verbatim>\<open>Execute\<close> runs the state machine with fuel eight; the liveness theorem shows that this is enough for
  every route with final statuses. The clean-up of the context visits at most as many buckets as there are,
  which is its fuel. The queue is shown for fewer than \<open>2 ^ 63\<close> pushes, the range of its signed
  comparison; an undisturbed call takes at most six steps and a stopped worker four. The double of a timeout is exact for whole seconds below \<open>2 ^ 53\<close>.

  \<^bold>\<open>Not modelled.\<close> The sockets and parsers of mongoose, the r3 library that matches paths, the parsers of boost for the command line and the ini
  file, the file system and the loading of a shared library are parameters or event sources. The wallet and RPC libraries of the cryptonode, the JSON
  reflection library, logging, back traces and the storage of closures (\<^verbatim>\<open>fixed_function.hpp\<close>) are outside.
  The queue is modelled with sequentially consistent accesses: the weaker orders that the code asks for are not. Handlers and the operations of the
  context are atomic steps, though the code runs handlers on several threads and holds the lock of one node only while it works on it; a worker of the pool
  takes and steals a job in one step, and an exception of a job is followed up in the task manager only. Where the code destroys a
  mutex while it is locked (an expired node) or uses a reference to an erased entry (\<^verbatim>\<open>GraftletLoader.cpp\<close>), the model goes on as if it had kept it.
  The counts of the address window are unbounded, and a null supernode in a check of a signature is not followed up.
\<close>

section \<open>Handlers in the thread pool\<close>

text \<open>
  C40. A malformed request can end the program. A job of the thread pool whose route is
  \<^verbatim>\<open>/reject_sale\<close> or \<^verbatim>\<open>/reject_pay\<close> and whose body does not parse raises an exception that no
  one catches, in every state of the node.
\<close>

theorem malformed_reject_ends_program:
  assumes "worker_action (t_h3 (tm_tasks tm bt)) = Some (run_handler (h E))"
    and "h \<in> {rejectSaleHandler, rejectPayHandler}"
    and "get_RejectRequest (e_codec E) (body (t_input (tm_tasks tm bt))) = None"
  shows "graft_job bt tm = Inl (HandlerException ''Json parse error'')"
  using assms
  by (auto simp: graft_job_def runWorkerActionFromTheThreadPool_def call_handler_def run_handler_def
      rejectSaleHandler_def rejectPayHandler_def reject_with_def Let_def)

definition demo_node_tm ::
  "(nat rta_local, (string, string, nat) rta_global) Handler \<Rightarrow> codec
     \<Rightarrow> (nat rta_local, (string, string, nat) rta_global) TaskManager" where
  "demo_node_tm h cd =
     \<lparr> tm_tasks = (\<lambda>_. new_Task (ClientTask (Some 5)) empty_Input []
         \<lparr>pre_action = None, worker_action = Some h, post_action = None, h3_name = []\<rparr> Map.empty), tm_next = 1,
       m_gcm = demo_node cd, m_cntBaseTask = 1, m_cntBaseTaskDone = 0, m_cntJobSent = 1, m_cntJobDone = 0,
       m_threadPoolInputSize = 64, tm_jobs = [0], m_resQueue = [], m_timerList = [], m_postponedTasks = Map.empty,
       m_readyToResume = [], m_expireTaskQueue = [], m_futurePostponeUuids = new_ExpiringList 360,
       m_upstreamManager = m_upstreamManager demo_tm, tm_senders = [], tm_promises = [], m_sysInfo = (\<lambda>_. 0),
       tm_now = 0, tm_draws = 0, tm_out = [] \<rparr>"

theorem malformed_reject_ends_program_witness:
  "graft_job 0 (demo_node_tm (run_handler (rejectSaleHandler (demo_rta demo_codec))) demo_codec) =
     Inl (HandlerException ''Json parse error'')"
  by (rule malformed_reject_ends_program [where h = rejectSaleHandler and E = "demo_rta demo_codec"])
    (simp_all add: demo_node_tm_def new_Task_def demo_codec_def)

end
